(* ===== verification/Prelude.thy ===== *)
theory Prelude
  imports Main "HOL-Library.Word" "HOL-Library.Char_ord" "HOL-Library.List_Lexorder"
begin

text \<open>
  Shared vocabulary of the development: the machine integers of the Rust sources, the
  checked and saturating operations of \<open>core::num\<close> they call, Rust's \<open>Result\<close> as a sum
  type, decimal text of unsigned integers (\<open>str::parse\<close> and \<open>to_string\<close>), and the
  generic lemmas the component theories use. Nothing here is specific to one component.
\<close>

named_theorems word_order \<open>discrete order facts that turn word arithmetic at a boundary into comparisons\<close>
named_theorems res_simps \<open>unfolding of the result combinators\<close>

section \<open>Machine integers\<close>

type_synonym u8 = "8 word"
type_synonym u32 = "32 word"
type_synonym u64 = "64 word"

text \<open>\<open>usize\<close> is 64 bits wide on the deployed targets (Linux x86-64 and arm64).\<close>

type_synonym usize = "64 word"

definition max_word :: "'a::len word" where
  "max_word = - 1"

definition saturating_add :: "'a::len word \<Rightarrow> 'a word \<Rightarrow> 'a word" where
  "saturating_add a b = (if unat a + unat b < 2 ^ LENGTH('a) then a + b else max_word)"

definition saturating_sub :: "'a::len word \<Rightarrow> 'a word \<Rightarrow> 'a word" where
  "saturating_sub a b = (if b \<le> a then a - b else 0)"

definition checked_add :: "'a::len word \<Rightarrow> 'a word \<Rightarrow> 'a word option" where
  "checked_add a b = (if unat a + unat b < 2 ^ LENGTH('a) then Some (a + b) else None)"

definition checked_sub :: "'a::len word \<Rightarrow> 'a word \<Rightarrow> 'a word option" where
  "checked_sub a b = (if b \<le> a then Some (a - b) else None)"

definition checked_div :: "'a::len word \<Rightarrow> 'a word \<Rightarrow> 'a word option" where
  "checked_div a b = (if b = 0 then None else Some (a div b))"

lemma le_max_word [simp]: "x \<le> (max_word :: 'a::len word)"
  by (simp add: max_word_def)

lemma unat_max_word: "unat (max_word :: 'a::len word) = 2 ^ LENGTH('a) - 1"
  by (simp add: max_word_def unsigned_minus_1_eq_mask mask_eq_exp_minus_1)

lemma unat_lt2p: "unat (x :: 'a::len word) < 2 ^ LENGTH('a)"
  by (rule unsigned_less)

lemma max_word_le_iff [simp]: "(max_word \<le> x) = (x = (max_word :: 'a::len word))"
  by (metis le_max_word order_antisym order_refl)

lemma max_word_less_iff [simp]: "\<not> (max_word :: 'a::len word) < x"
  by (simp add: not_less)

lemma unat_add1_less:
  fixes a b :: "'a::len word"
  assumes "a < b"
  shows "unat (a + 1) = Suc (unat a)"
proof -
  have "unat a + 1 < 2 ^ LENGTH('a)"
    using assms [unfolded word_less_nat_alt] unat_lt2p [of b] by linarith
  then show ?thesis by (simp add: unat_word_ariths)
qed

lemma word_add1_le [word_order]:
  fixes a b x :: "'a::len word"
  assumes "a < b"
  shows "(a + 1 \<le> x) = (a < x)"
  using unat_add1_less [OF assms] by (simp add: word_le_nat_alt word_less_nat_alt Suc_le_eq)

lemma word_less_add1 [word_order]:
  fixes a b x :: "'a::len word"
  assumes "a < b"
  shows "(x < a + 1) = (x \<le> a)"
  using unat_add1_less [OF assms] by (simp add: word_le_nat_alt word_less_nat_alt less_Suc_eq_le)

lemma unat_sub1_less:
  fixes a b :: "'a::len word"
  assumes "a < b"
  shows "Suc (unat (b - 1)) = unat b"
proof -
  have "b \<noteq> 0" using assms by auto
  then show ?thesis using assms by (simp add: unat_minus_one word_less_nat_alt)
qed

lemma word_le_sub1_iff [word_order]:
  fixes a b x :: "'a::len word"
  assumes "a < b"
  shows "(x \<le> b - 1) = (x < b)"
  using unat_sub1_less [OF assms] by (simp add: word_le_nat_alt word_less_nat_alt flip: less_Suc_eq_le)

lemma word_sub1_less [word_order]:
  fixes a b x :: "'a::len word"
  assumes "a < b"
  shows "(b - 1 < x) = (b \<le> x)"
  using unat_sub1_less [OF assms] by (simp add: word_le_nat_alt word_less_nat_alt Suc_le_eq [symmetric])

lemma word_pred_less: "(a :: 'a::len word) < b \<Longrightarrow> b - 1 < b"
  by (simp add: word_sub1_less)

lemma word_less_succ: "(a :: 'a::len word) < b \<Longrightarrow> a < a + 1"
  by (simp add: word_less_add1)

lemma unat_saturating_add:
  fixes a b :: "'a::len word"
  shows "unat (saturating_add a b) = min (unat a + unat b) (2 ^ LENGTH('a) - 1)"
  by (auto simp: saturating_add_def unat_max_word unat_word_ariths)

lemma saturating_add1_less [word_order]:
  fixes a b :: "'a::len word"
  shows "(saturating_add a 1 < b) = (a < b \<and> a + 1 < b)"
proof (cases "a < b")
  case True
  then have "saturating_add a 1 = a + 1"
    using unat_add1_less [OF True] unat_lt2p [of "a + 1"] by (simp add: saturating_add_def)
  with True show ?thesis by simp
next
  case False
  then have "\<not> saturating_add a 1 < b"
    using unat_lt2p [of b] unfolding word_less_nat_alt unat_saturating_add by linarith
  with False show ?thesis by simp
qed

lemma checked_add1_Some:
  fixes a x :: "'a::len word"
  shows "(checked_add a 1 = Some x) = (a < max_word \<and> x = a + 1)"
proof -
  have "(unat a + 1 < 2 ^ LENGTH('a)) = (a < max_word)"
    using unat_lt2p [of a] by (auto simp: word_less_nat_alt unat_max_word)
  then show ?thesis by (auto simp: checked_add_def)
qed

lemma checked_add1_None:
  fixes a :: "'a::len word"
  shows "(checked_add a 1 = None) = (a = max_word)"
  using checked_add1_Some [of a] by (metis le_max_word less_le not_None_eq order_less_irrefl)

lemma saturating_add_mono:
  fixes a b c d :: "'a::len word"
  assumes "a \<le> b" and "c \<le> d"
  shows "saturating_add a c \<le> saturating_add b d"
proof -
  have "min (unat a + unat c) (2 ^ LENGTH('a) - 1) \<le> min (unat b + unat d) (2 ^ LENGTH('a) - 1)"
    using assms by (intro min.mono add_mono) (simp_all add: word_le_nat_alt)
  then show ?thesis by (simp add: word_le_nat_alt unat_saturating_add)
qed

lemma saturating_add_ge1: "a \<le> saturating_add a (b :: 'a::len word)"
  using unat_lt2p [of a] unfolding word_le_nat_alt unat_saturating_add by linarith

section \<open>Results\<close>

text \<open>
  \<open>Result<T, E>\<close> is \<open>'e + 'a\<close> with \<open>Inl\<close> for the error; \<open>rbind\<close> is the \<open>?\<close> operator:
  the first error is returned, a value is handed to the continuation.
\<close>

definition rbind :: "'e + 'a \<Rightarrow> ('a \<Rightarrow> 'e + 'b) \<Rightarrow> 'e + 'b" where
  "rbind m k = (case m of Inl e \<Rightarrow> Inl e | Inr x \<Rightarrow> k x)"

definition ok_or :: "'e \<Rightarrow> 'a option \<Rightarrow> 'e + 'a" where
  "ok_or e v = (case v of None \<Rightarrow> Inl e | Some x \<Rightarrow> Inr x)"

fun rmap_list :: "('a \<Rightarrow> 'e + 'b) \<Rightarrow> 'a list \<Rightarrow> 'e + 'b list" where
  "rmap_list f [] = Inr []"
| "rmap_list f (x # xs) = rbind (f x) (\<lambda>y. rbind (rmap_list f xs) (\<lambda>ys. Inr (y # ys)))"

text \<open>A \<open>for\<close> loop over a list whose body updates a state and may return an error with \<open>?\<close>.\<close>

fun rfold :: "('a \<Rightarrow> 's \<Rightarrow> 'e + 's) \<Rightarrow> 'a list \<Rightarrow> 's \<Rightarrow> 'e + 's" where
  "rfold f [] s = Inr s"
| "rfold f (x # xs) s = rbind (f x s) (rfold f xs)"

lemma rbind_simps [simp, res_simps]:
  "rbind (Inl e) k = Inl e"
  "rbind (Inr x) k = k x"
  by (simp_all add: rbind_def)

lemma rbind_Inr [res_simps]: "(rbind m k = Inr y) = (\<exists>x. m = Inr x \<and> k x = Inr y)"
  by (cases m) auto

lemma rbind_Inl [res_simps]: "(rbind m k = Inl e) = (m = Inl e \<or> (\<exists>x. m = Inr x \<and> k x = Inl e))"
  by (cases m) auto

lemma ok_or_simps [simp, res_simps]:
  "ok_or e None = Inl e"
  "ok_or e (Some x) = Inr x"
  by (simp_all add: ok_or_def)

lemma ok_or_Inr [simp]: "(ok_or e v = Inr x) = (v = Some x)"
  by (cases v) auto

lemma ok_or_Inl [simp]: "(ok_or e v = Inl f) = (v = None \<and> e = f)"
  by (cases v) auto

lemma rmap_list_Inr: "(rmap_list f xs = Inr ys) = list_all2 (\<lambda>x y. f x = Inr y) xs ys"
  by (induction xs arbitrary: ys) (auto simp: rbind_Inr list_all2_Cons1)

lemma rmap_list_length: "rmap_list f xs = Inr ys \<Longrightarrow> length ys = length xs"
  by (induction xs arbitrary: ys) (auto simp: rbind_Inr)

lemma rmap_list_total: "(\<And>x. x \<in> set xs \<Longrightarrow> f x = Inr (g x)) \<Longrightarrow> rmap_list f xs = Inr (map g xs)"
  by (induction xs) auto

lemma rfold_append: "rfold f (xs @ ys) s = rbind (rfold f xs s) (rfold f ys)"
  by (induction xs arbitrary: s) (auto simp: rbind_def split: sum.splits)

lemma rfold_invariant:
  assumes "rfold f xs s = Inr t" and "P s"
    and "\<And>x s s'. x \<in> set xs \<Longrightarrow> P s \<Longrightarrow> f x s = Inr s' \<Longrightarrow> P s'"
  shows "P t"
  using assms by (induction xs arbitrary: s) (auto simp: rbind_Inr)

section \<open>Decimal text of unsigned integers\<close>

text \<open>
  Texts are byte strings (\<open>string\<close>, the UTF-8 bytes of a Rust \<open>str\<close>). \<open>parse_unsigned\<close>
  is the standard library's \<open>from_str\<close> of an unsigned type: one leading \<open>+\<close> is accepted
  before at least one digit, and a value that does not fit is an error.
\<close>

definition is_digit :: "char \<Rightarrow> bool" where
  "is_digit c \<longleftrightarrow> CHR ''0'' \<le> c \<and> c \<le> CHR ''9''"

definition digit_val :: "char \<Rightarrow> nat" where
  "digit_val c = of_char c - 48"

definition digit_char :: "nat \<Rightarrow> char" where
  "digit_char d = char_of (48 + d)"

fun dec_acc :: "nat \<Rightarrow> string \<Rightarrow> nat" where
  "dec_acc n [] = n"
| "dec_acc n (c # cs) = dec_acc (10 * n + digit_val c) cs"

definition dec_val :: "string \<Rightarrow> nat" where
  "dec_val s = dec_acc 0 s"

fun nat_text :: "nat \<Rightarrow> string" where
  "nat_text n = (if n < 10 then [digit_char n] else nat_text (n div 10) @ [digit_char (n mod 10)])"

declare nat_text.simps [simp del]

definition strip_plus :: "string \<Rightarrow> string" where
  "strip_plus s = (case s of [] \<Rightarrow> [] | c # cs \<Rightarrow> if c = CHR ''+'' \<and> cs \<noteq> [] then cs else s)"

definition parse_unsigned :: "string \<Rightarrow> 'a::len word option" where
  "parse_unsigned s =
     (let ds = strip_plus s
      in if ds = [] \<or> \<not> list_all is_digit ds \<or> 2 ^ LENGTH('a) \<le> dec_val ds then None
         else Some (of_nat (dec_val ds)))"

definition unsigned_text :: "'a::len word \<Rightarrow> string" where
  "unsigned_text w = nat_text (unat w)"

text \<open>Canonical texts: what \<open>nat_text\<close> produces.\<close>

definition canonical :: "string \<Rightarrow> bool" where
  "canonical s \<longleftrightarrow> s \<noteq> [] \<and> list_all is_digit s \<and> (hd s = CHR ''0'' \<longrightarrow> length s = 1)"

lemma digit_char_props:
  assumes "d < 10"
  shows "is_digit (digit_char d)" and "digit_val (digit_char d) = d"
    and "(digit_char d = CHR ''0'') = (d = 0)" and "digit_char d \<noteq> CHR ''+''"
proof -
  have "d \<in> {0, 1, 2, 3, 4, 5, 6, 7, 8, 9}" using assms by auto
  then show "is_digit (digit_char d)" and "digit_val (digit_char d) = d"
    and "(digit_char d = CHR ''0'') = (d = 0)" and "digit_char d \<noteq> CHR ''+''"
    by (auto simp: digit_char_def digit_val_def is_digit_def less_eq_char_def char_of_eq_iff)
qed

lemma is_digit_of_char: "is_digit c = (48 \<le> (of_char c :: nat) \<and> of_char c \<le> (57 :: nat))"
  by (simp add: is_digit_def less_eq_char_def)

lemma digit_val_less: "is_digit c \<Longrightarrow> digit_val c < 10"
  by (auto simp: is_digit_of_char digit_val_def)

lemma digit_char_val: "is_digit c \<Longrightarrow> digit_char (digit_val c) = c"
  by (auto simp: is_digit_of_char digit_val_def digit_char_def)

lemma digit_val_inj: "is_digit c \<Longrightarrow> is_digit d \<Longrightarrow> (digit_val c = digit_val d) = (c = d)"
  by (metis digit_char_val)

lemma digit_val_le: "is_digit c \<Longrightarrow> is_digit d \<Longrightarrow> (digit_val c < digit_val d) = (c < d)"
  by (auto simp: is_digit_of_char digit_val_def less_char_def)

lemma digit_val_zero: "is_digit c \<Longrightarrow> (digit_val c = 0) = (c = CHR ''0'')"
  using digit_val_inj [of c "CHR ''0''"] by (auto simp: is_digit_def digit_val_def)

lemma dec_acc_append: "dec_acc n (xs @ ys) = dec_acc (dec_acc n xs) ys"
  by (induction xs arbitrary: n) auto

lemma dec_acc_split: "dec_acc n s = n * 10 ^ length s + dec_val s"
proof (induction s arbitrary: n)
  case Nil
  then show ?case by (simp add: dec_val_def)
next
  case (Cons c s)
  have "dec_acc n (c # s) = (10 * n + digit_val c) * 10 ^ length s + dec_val s"
    using Cons by simp
  moreover have "dec_val (c # s) = digit_val c * 10 ^ length s + dec_val s"
    using Cons [of "digit_val c"] by (simp add: dec_val_def)
  ultimately show ?case by (simp add: algebra_simps)
qed

lemma dec_val_Cons: "dec_val (c # s) = digit_val c * 10 ^ length s + dec_val s"
  using dec_acc_split [of "digit_val c" s] by (simp add: dec_val_def)

lemma dec_val_snoc: "dec_val (s @ [c]) = 10 * dec_val s + digit_val c"
  by (simp add: dec_val_def dec_acc_append)

lemma dec_val_bound: "list_all is_digit s \<Longrightarrow> dec_val s < 10 ^ length s"
proof (induction s)
  case Nil
  then show ?case by (simp add: dec_val_def)
next
  case (Cons c s)
  then have "dec_val s < 10 ^ length s" and "digit_val c \<le> 9"
    using digit_val_less [of c] by auto
  then have "digit_val c * 10 ^ length s + dec_val s < 9 * 10 ^ length s + 10 ^ length s"
    by (intro add_le_less_mono mult_right_mono) auto
  then show ?case by (simp add: dec_val_Cons)
qed

lemma dec_val_lower:
  assumes "canonical s" and "s \<noteq> ''0''"
  shows "10 ^ (length s - 1) \<le> dec_val s"
proof -
  obtain c t where s: "s = c # t" using assms(1) by (cases s) (auto simp: canonical_def)
  with assms have "is_digit c" and "c \<noteq> CHR ''0''" by (auto simp: canonical_def)
  then have "1 \<le> digit_val c" using digit_val_zero by (metis less_one not_less)
  then show ?thesis using s by (simp add: dec_val_Cons trans_le_add1)
qed

lemma nat_text_digits: "list_all is_digit (nat_text n)"
proof (induction n rule: nat_text.induct)
  case (1 n)
  then show ?case by (subst nat_text.simps) (auto simp: digit_char_props)
qed

lemma nat_text_nonempty: "nat_text n \<noteq> []"
  by (subst nat_text.simps) simp

lemma nat_text_hd: "(hd (nat_text n) = CHR ''0'') = (n = 0)"
proof (induction n rule: nat_text.induct)
  case (1 n)
  show ?case
  proof (cases "n < 10")
    case True
    then show ?thesis by (subst nat_text.simps) (simp add: digit_char_props)
  next
    case False
    then have "hd (nat_text n) = hd (nat_text (n div 10))"
      by (subst nat_text.simps) (simp add: nat_text_nonempty)
    with False 1 show ?thesis by simp
  qed
qed

lemma nat_text_canonical [simp]: "canonical (nat_text n)"
proof -
  have "nat_text 0 = ''0''" by (subst nat_text.simps) (simp add: digit_char_def char_of_eq_iff)
  then show ?thesis
    by (auto simp: canonical_def nat_text_nonempty nat_text_digits nat_text_hd)
qed

lemma dec_val_nat_text [simp]: "dec_val (nat_text n) = n"
proof (induction n rule: nat_text.induct)
  case (1 n)
  show ?case
  proof (cases "n < 10")
    case True
    then show ?thesis
      by (subst nat_text.simps) (simp add: dec_val_def digit_char_props)
  next
    case False
    with 1 show ?thesis
      by (subst nat_text.simps) (simp add: dec_val_snoc digit_char_props)
  qed
qed

lemma canonical_digits: "canonical s \<Longrightarrow> list_all is_digit s"
  by (simp add: canonical_def)

lemma canonical_not_plus: "canonical s \<Longrightarrow> strip_plus s = s"
  by (cases s) (auto simp: canonical_def strip_plus_def is_digit_def less_eq_char_def)

text \<open>Canonical texts of equal length compare as their values; a shorter one is smaller.\<close>

lemma dec_val_less_same_length:
  assumes "list_all is_digit s" and "list_all is_digit t" and "length s = length t"
  shows "(dec_val s < dec_val t) = (s < t)"
  using assms(3,1,2)
proof (induction s t rule: list_induct2)
  case Nil
  then show ?case by simp
next
  case (Cons c s d t)
  then have bounds: "dec_val s < 10 ^ length t" "dec_val t < 10 ^ length t"
    using dec_val_bound [of s] dec_val_bound [of t] by auto
  have lead: "x * 10 ^ length t + dec_val s < y * 10 ^ length t + dec_val t" if "x < y" for x y :: nat
  proof -
    have "x * 10 ^ length t + 10 ^ length t \<le> y * 10 ^ length t"
      using that by (metis Suc_leI add.commute mult_Suc mult_le_mono1)
    with bounds show ?thesis by linarith
  qed
  have lead': "y * 10 ^ length t + dec_val t < x * 10 ^ length t + dec_val s" if "y < x" for x y :: nat
  proof -
    have "y * 10 ^ length t + 10 ^ length t \<le> x * 10 ^ length t"
      using that by (metis Suc_leI add.commute mult_Suc mult_le_mono1)
    with bounds show ?thesis by linarith
  qed
  consider "digit_val c < digit_val d" | "digit_val c = digit_val d" | "digit_val d < digit_val c"
    by linarith
  then show ?case
  proof cases
    case 1
    with Cons.prems show ?thesis
      using lead [OF 1] by (simp add: dec_val_Cons Cons.hyps digit_val_le)
  next
    case 2
    with Cons show ?thesis by (simp add: dec_val_Cons digit_val_inj)
  next
    case 3
    moreover from 3 Cons.prems have "d < c" by (simp add: digit_val_le)
    ultimately show ?thesis
      using lead' [OF 3] by (auto simp: dec_val_Cons Cons.hyps)
  qed
qed

lemma dec_val_less_shorter:
  assumes "canonical s" and "canonical t" and "length s < length t"
  shows "dec_val s < dec_val t"
proof -
  have "t \<noteq> ''0''" using assms by (auto simp: canonical_def)
  then have "10 ^ (length t - 1) \<le> dec_val t" by (rule dec_val_lower [OF assms(2)])
  moreover have "dec_val s < 10 ^ length s"
    using assms(1) by (simp add: canonical_def dec_val_bound)
  moreover have "(10 :: nat) ^ length s \<le> 10 ^ (length t - 1)"
    using assms(3) by (intro power_increasing) auto
  ultimately show ?thesis by linarith
qed

lemma canonical_inj:
  assumes "canonical s" and "canonical t" and "dec_val s = dec_val t"
  shows "s = t"
proof -
  have "length s = length t"
    using dec_val_less_shorter assms by (metis less_irrefl nat_neq_iff)
  then have "\<not> s < t" and "\<not> t < s"
    using dec_val_less_same_length assms by (metis canonical_digits less_irrefl)+
  then show ?thesis by (metis linorder_neqE)
qed

lemma canonical_nat_text: "canonical s \<Longrightarrow> nat_text (dec_val s) = s"
  by (rule canonical_inj) auto

lemma parse_unsigned_canonical:
  fixes w :: "'a::len word"
  assumes "canonical s"
  shows "(parse_unsigned s = Some w) = (dec_val s = unat w)"
proof -
  have "s \<noteq> []" and "list_all is_digit s" using assms by (auto simp: canonical_def)
  moreover have "(of_nat (dec_val s) = w) = (dec_val s = unat w)" if "dec_val s < 2 ^ LENGTH('a)"
    using that by (auto simp: unat_of_nat)
  moreover have "\<not> 2 ^ LENGTH('a) \<le> unat w" by (simp add: not_le)
  ultimately show ?thesis
    using assms by (auto simp: parse_unsigned_def canonical_not_plus Let_def not_le simp del: unsigned_less)
qed

lemma parse_unsigned_text [simp]: "parse_unsigned (unsigned_text w) = Some w"
  by (simp add: unsigned_text_def parse_unsigned_canonical)

lemma unsigned_text_inj [simp]: "(unsigned_text v = unsigned_text w) = (v = w)"
  by (metis option.inject parse_unsigned_text)

lemma canonical_unsigned_text [simp]: "canonical (unsigned_text w)"
  by (simp add: unsigned_text_def)

section \<open>Lists\<close>

lemma sorted_wrt_snoc: "sorted_wrt R (xs @ [y]) = (sorted_wrt R xs \<and> (\<forall>x\<in>set xs. R x y))"
  by (simp add: sorted_wrt_append)

lemma list_all_set: "list_all P xs = (\<forall>x\<in>set xs. P x)"
  by (simp add: list_all_iff)

section \<open>Histories of a state machine\<close>

text \<open>
  A state machine with an invariant, and a relation between states that every step from a state in
  the invariant establishes: both extend from one step to a whole history.
\<close>

locale history =
  fixes step :: "'s \<Rightarrow> 's \<Rightarrow> bool"
    and inv :: "'s \<Rightarrow> bool"
    and rel :: "'s \<Rightarrow> 's \<Rightarrow> bool"
  assumes step_inv: "step s t \<Longrightarrow> inv s \<Longrightarrow> inv t"
    and step_rel: "step s t \<Longrightarrow> inv s \<Longrightarrow> rel s t"
    and rel_refl: "rel s s"
    and rel_trans: "rel s t \<Longrightarrow> rel t u \<Longrightarrow> rel s u"
begin

lemma history_inv: "step\<^sup>*\<^sup>* s t \<Longrightarrow> inv s \<Longrightarrow> inv t"
  by (induction rule: rtranclp_induct) (auto intro: step_inv)

lemma history_rel: "step\<^sup>*\<^sup>* s t \<Longrightarrow> inv s \<Longrightarrow> rel s t"
proof (induction rule: rtranclp_induct)
  case base
  show ?case by (rule rel_refl)
next
  case (step t u)
  then show ?case using history_inv [OF step.hyps(1)] step_rel rel_trans by blast
qed

text \<open>Every later state is related to every earlier one.\<close>

lemma history_between: "step\<^sup>*\<^sup>* s t \<Longrightarrow> step\<^sup>*\<^sup>* t u \<Longrightarrow> inv s \<Longrightarrow> inv u \<and> rel t u"
  using history_inv history_rel by blast

end

end
