(* ===== verification/Decimal.thy ===== *)
theory Decimal
  imports Prelude
begin

text \<open>
  The canonical decimal strings of \<open>crates/dashboard-model/src/decimal.rs\<close>: the newtype
  \<open>DecimalString\<close>, its parser with every rejection, its order, and its conversions to and
  from \<open>u64\<close>. The lemmas show that the parser accepts exactly the canonical texts, that the
  length-then-text order is the numeric order, and that the conversions invert each other.
\<close>

section \<open>Data\<close>

datatype decimal_string = DecimalString (as_str: string)

text \<open>A rejected character is carried as the UTF-8 bytes of the Rust \<open>char\<close>.\<close>

datatype decimal_error =
    Empty
  | Signed
  | Whitespace nat
  | InvalidCharacter nat string
  | LeadingZero

datatype decimal_to_u64_error = DecimalToU64Error decimal_string

section \<open>Iteration over the characters of a text\<close>

text \<open>
  \<open>str::char_indices\<close>: the byte index of each character with the bytes that encode it. The
  lead byte of a UTF-8 sequence gives its width.
\<close>

definition utf8_width :: "char \<Rightarrow> nat" where
  "utf8_width c = (let n = (of_char c :: nat)
                   in if n < 192 then 1 else if n < 224 then 2 else if n < 240 then 3 else 4)"

function char_indices :: "nat \<Rightarrow> string \<Rightarrow> (nat \<times> string) list" where
  "char_indices i [] = []"
| "char_indices i (c # cs) =
     (i, c # take (utf8_width c - 1) cs) #
       char_indices (i + utf8_width c) (drop (utf8_width c - 1) cs)"
  by pat_completeness auto
termination
  by (relation "measure (\<lambda>(i, s). length s)") auto

section \<open>Parsing\<close>

definition is_ascii_whitespace :: "char \<Rightarrow> bool" where
  "is_ascii_whitespace c \<longleftrightarrow> (of_char c :: nat) \<in> {9, 10, 12, 13, 32}"

definition classify_digit :: "nat \<Rightarrow> string \<Rightarrow> decimal_error + unit" where
  "classify_digit index found =
     (case found of
        [c] \<Rightarrow> (if is_ascii_whitespace c then Inl (Whitespace index)
                else if is_digit c then Inr ()
                else Inl (InvalidCharacter index found))
      | _ \<Rightarrow> Inl (InvalidCharacter index found))"

fun classify_digits :: "(nat \<times> string) list \<Rightarrow> decimal_error + unit" where
  "classify_digits [] = Inr ()"
| "classify_digits ((index, found) # rest) =
     rbind (classify_digit index found) (\<lambda>_. classify_digits rest)"

definition decimal_from_str :: "string \<Rightarrow> decimal_error + decimal_string" where
  "decimal_from_str raw =
     (case char_indices 0 raw of
        [] \<Rightarrow> Inl Empty
      | (first_index, first) # chars \<Rightarrow>
          if first = ''+'' \<or> first = ''-'' then Inl Signed
          else rbind (classify_digit first_index first) (\<lambda>_.
               rbind (classify_digits chars) (\<lambda>_.
               if first = ''0'' \<and> length raw > 1 then Inl LeadingZero
               else Inr (DecimalString raw))))"

section \<open>Conversions\<close>

definition to_u64 :: "decimal_string \<Rightarrow> decimal_to_u64_error + u64" where
  "to_u64 d = (case parse_unsigned (as_str d) of
                 Some value \<Rightarrow> Inr value
               | None \<Rightarrow> Inl (DecimalToU64Error d))"

definition decimal_of_u64 :: "u64 \<Rightarrow> decimal_string" where
  "decimal_of_u64 value = DecimalString (unsigned_text value)"

section \<open>Order\<close>

text \<open>\<open>Ord::cmp\<close> compares the lengths first and the texts of equal length bytewise.\<close>

definition decimal_lt :: "decimal_string \<Rightarrow> decimal_string \<Rightarrow> bool" where
  "decimal_lt a b \<longleftrightarrow>
     length (as_str a) < length (as_str b) \<or>
     length (as_str a) = length (as_str b) \<and> as_str a < as_str b"

instantiation decimal_string :: linorder
begin

definition less_decimal_string :: "decimal_string \<Rightarrow> decimal_string \<Rightarrow> bool" where
  "less_decimal_string = decimal_lt"

definition less_eq_decimal_string :: "decimal_string \<Rightarrow> decimal_string \<Rightarrow> bool" where
  "less_eq_decimal_string a b \<longleftrightarrow> a = b \<or> a < b"

instance
proof
  fix x y z :: decimal_string
  show "(x < y) = (x \<le> y \<and> \<not> y \<le> x)"
    by (cases x; cases y) (auto simp: less_decimal_string_def decimal_lt_def less_eq_decimal_string_def)
  show "x \<le> x" by (simp add: less_eq_decimal_string_def)
  show "x \<le> y \<Longrightarrow> y \<le> z \<Longrightarrow> x \<le> z"
    by (auto simp: less_decimal_string_def decimal_lt_def less_eq_decimal_string_def)
  show "x \<le> y \<Longrightarrow> y \<le> x \<Longrightarrow> x = y"
    by (auto simp: less_decimal_string_def decimal_lt_def less_eq_decimal_string_def)
  show "x \<le> y \<or> y \<le> x"
    by (cases x; cases y) (auto simp: less_decimal_string_def decimal_lt_def less_eq_decimal_string_def)
qed

end

section \<open>What the parser accepts\<close>

definition decimal_wf :: "decimal_string \<Rightarrow> bool" where
  "decimal_wf d \<longleftrightarrow> canonical (as_str d)"

definition decimal_nat :: "decimal_string \<Rightarrow> nat" where
  "decimal_nat d = dec_val (as_str d)"

lemma is_digit_width: "is_digit c \<Longrightarrow> utf8_width c = 1"
  by (auto simp: is_digit_of_char utf8_width_def Let_def)

lemma digit_not_whitespace: "is_digit c \<Longrightarrow> \<not> is_ascii_whitespace c"
  by (auto simp: is_digit_of_char is_ascii_whitespace_def)

lemma classify_digit_ok: "(classify_digit i s = Inr ()) = (\<exists>c. s = [c] \<and> is_digit c)"
  using digit_not_whitespace by (auto simp: classify_digit_def split: list.splits)

lemma classify_digits_ok:
  "(classify_digits xs = Inr ()) = (\<forall>(i, s) \<in> set xs. \<exists>c. s = [c] \<and> is_digit c)"
proof (induction xs)
  case (Cons x xs)
  then show ?case by (cases x) (auto simp: rbind_Inr classify_digit_ok)
qed simp

lemma char_indices_digits:
  "(\<forall>(i, s) \<in> set (char_indices k raw). \<exists>c. s = [c] \<and> is_digit c) = list_all is_digit raw"
proof (induction k raw rule: char_indices.induct)
  case (2 i c cs)
  show ?case
  proof (cases "is_digit c")
    case True
    with 2 show ?thesis by (simp add: is_digit_width)
  qed auto
qed simp

lemma decimal_from_str_ok:
  "(decimal_from_str raw = Inr d) = (canonical raw \<and> d = DecimalString raw)"
proof (cases raw)
  case Nil
  then show ?thesis by (simp add: decimal_from_str_def canonical_def)
next
  case (Cons c cs)
  show ?thesis
  proof (cases "is_digit c")
    case True
    then have "c \<noteq> CHR ''+''" "c \<noteq> CHR ''-''" by (auto simp: is_digit_def less_eq_char_def)
    with True show ?thesis
      using char_indices_digits [of 1 cs] Cons
      by (auto simp: decimal_from_str_def is_digit_width rbind_Inr classify_digit_ok
          classify_digits_ok canonical_def)
  next
    case False
    with Cons show ?thesis
      by (auto simp: decimal_from_str_def rbind_Inr classify_digit_ok canonical_def)
  qed
qed

lemma decimal_of_u64_wf [simp]: "decimal_wf (decimal_of_u64 n)"
  by (simp add: decimal_of_u64_def decimal_wf_def)

lemma decimal_nat_of_u64 [simp]: "decimal_nat (decimal_of_u64 n) = unat n"
  by (simp add: decimal_of_u64_def decimal_nat_def unsigned_text_def)

lemma to_u64_of_u64 [simp]: "to_u64 (decimal_of_u64 n) = Inr n"
  by (simp add: to_u64_def decimal_of_u64_def)

lemma decimal_of_u64_inj [simp]: "(decimal_of_u64 m = decimal_of_u64 n) = (m = n)"
  by (simp add: decimal_of_u64_def)

lemma to_u64_wf:
  assumes "decimal_wf d"
  shows "(to_u64 d = Inr n) = (decimal_nat d = unat n)"
  using parse_unsigned_canonical [of "as_str d" n] assms
  by (auto simp: to_u64_def decimal_wf_def decimal_nat_def split: option.splits)

lemma decimal_less_nat:
  assumes "decimal_wf a" and "decimal_wf b"
  shows "(a < b) = (decimal_nat a < decimal_nat b)"
proof -
  let ?s = "as_str a" and ?t = "as_str b"
  have c: "canonical ?s" "canonical ?t" using assms by (simp_all add: decimal_wf_def)
  consider "length ?s < length ?t" | "length ?s = length ?t" | "length ?t < length ?s" by linarith
  then show ?thesis
  proof cases
    case 1
    with c show ?thesis
      using dec_val_less_shorter [of ?s ?t] by (simp add: less_decimal_string_def decimal_lt_def decimal_nat_def)
  next
    case 2
    with c show ?thesis
      using dec_val_less_same_length [of ?s ?t]
      by (simp add: less_decimal_string_def decimal_lt_def decimal_nat_def canonical_digits)
  next
    case 3
    with c show ?thesis
      using dec_val_less_shorter [of ?t ?s] by (simp add: less_decimal_string_def decimal_lt_def decimal_nat_def)
  qed
qed

lemma decimal_nat_inj:
  assumes "decimal_wf a" and "decimal_wf b"
  shows "(decimal_nat a = decimal_nat b) = (a = b)"
  using canonical_inj [of "as_str a" "as_str b"] assms
  by (auto simp: decimal_wf_def decimal_nat_def decimal_string.expand)

section \<open>Properties\<close>

text \<open>
  Parsing accepts exactly the canonical decimal texts (nonempty, digits only, no leading
  zero except the text 0 itself) and keeps the text, so that the stored string is the input.
\<close>

theorem decimal_parse_accepts_canonical:
  "decimal_from_str raw = Inr d \<longleftrightarrow>
     as_str d = raw \<and> raw \<noteq> [] \<and> list_all is_digit raw \<and> (hd raw = CHR ''0'' \<longrightarrow> raw = ''0'')"
proof -
  have "canonical raw = (raw \<noteq> [] \<and> list_all is_digit raw \<and> (hd raw = CHR ''0'' \<longrightarrow> raw = ''0''))"
    by (cases raw) (auto simp: canonical_def)
  then show ?thesis by (cases d) (auto simp: decimal_from_str_ok)
qed

text \<open>At the text of ten.\<close>

theorem decimal_parse_accepts_canonical_witness:
  "decimal_from_str ''10'' = Inr (DecimalString ''10'') \<and> hd ''10'' \<noteq> CHR ''0''"
  using decimal_parse_accepts_canonical [of "''10''" "DecimalString ''10''"]
  by (simp add: is_digit_def less_eq_char_def)

text \<open>
  The order of the stored strings (length, then text) is the order of the numbers, so sorting or
  comparing heights and identifiers as decimal strings never needs a numeric conversion.
\<close>

theorem decimal_order_numeric:
  assumes "decimal_from_str r = Inr a" and "decimal_from_str s = Inr b"
  shows "decimal_lt a b = (decimal_nat a < decimal_nat b) \<and> (a = b) = (decimal_nat a = decimal_nat b)"
proof -
  have "decimal_wf a" "decimal_wf b" using assms by (auto simp: decimal_from_str_ok decimal_wf_def)
  then show ?thesis using decimal_less_nat [of a b] by (simp add: less_decimal_string_def decimal_nat_inj)
qed

text \<open>At nine and ten: the text of ten is smaller bytewise, the number is not.\<close>

theorem decimal_order_numeric_witness:
  "decimal_from_str ''9'' = Inr (DecimalString ''9'') \<and> decimal_from_str ''10'' = Inr (DecimalString ''10'')
   \<and> ''10'' < ''9'' \<and> decimal_lt (DecimalString ''9'') (DecimalString ''10'')"
proof -
  have p: "decimal_from_str ''9'' = Inr (DecimalString ''9'')"
    "decimal_from_str ''10'' = Inr (DecimalString ''10'')"
    by (simp_all add: decimal_from_str_ok canonical_def is_digit_def less_eq_char_def)
  have "decimal_nat (DecimalString ''9'') < decimal_nat (DecimalString ''10'')"
    by (simp add: decimal_nat_def dec_val_def digit_val_def)
  then have "decimal_lt (DecimalString ''9'') (DecimalString ''10'')"
    using decimal_order_numeric [OF p] by simp
  with p show ?thesis by (simp add: less_char_def)
qed

text \<open>
  Converting a parsed decimal string to 64 bits gives its value when the value fits and the error
  that carries the string otherwise; formatting a 64-bit number parses back to it.
\<close>

theorem decimal_u64_conversion:
  assumes "decimal_from_str raw = Inr d"
  shows "to_u64 d = (if decimal_nat d < 2 ^ 64 then Inr (of_nat (decimal_nat d)) else Inl (DecimalToU64Error d))
    \<and> to_u64 (decimal_of_u64 n) = Inr n
    \<and> decimal_from_str (as_str (decimal_of_u64 n)) = Inr (decimal_of_u64 n)"
proof -
  have wf: "decimal_wf d" using assms by (simp add: decimal_from_str_ok decimal_wf_def)
  have none: "to_u64 d = Inl (DecimalToU64Error d)" if "\<not> decimal_nat d < 2 ^ 64"
  proof (cases "to_u64 d")
    case (Inl e)
    then show ?thesis by (auto simp: to_u64_def split: option.splits)
  next
    case (Inr n)
    then have "decimal_nat d = unat n" using to_u64_wf [OF wf] by simp
    with that unat_lt2p [of n] show ?thesis by simp
  qed
  have "to_u64 d = Inr (of_nat (decimal_nat d))" if "decimal_nat d < 2 ^ 64"
    using that to_u64_wf [OF wf] by (simp add: unat_of_nat)
  moreover have "decimal_from_str (as_str (decimal_of_u64 n)) = Inr (decimal_of_u64 n)"
    by (simp add: decimal_from_str_ok decimal_of_u64_def)
  ultimately show ?thesis using none by simp
qed

text \<open>At the first value that does not fit.\<close>

theorem decimal_u64_conversion_witness:
  "decimal_from_str ''18446744073709551616'' = Inr (DecimalString ''18446744073709551616'')
   \<and> to_u64 (DecimalString ''18446744073709551616'')
       = Inl (DecimalToU64Error (DecimalString ''18446744073709551616''))"
proof -
  have p: "decimal_from_str ''18446744073709551616'' = Inr (DecimalString ''18446744073709551616'')"
    by (simp add: decimal_from_str_ok canonical_def is_digit_def less_eq_char_def)
  have "decimal_nat (DecimalString ''18446744073709551616'') = 2 ^ 64"
    by (simp add: decimal_nat_def dec_val_def digit_val_def)
  then show ?thesis using decimal_u64_conversion [OF p, of 0] p by simp
qed

end
