(* ===== verification/Block_Hash.thy ===== *)
theory Block_Hash
  imports Prelude
begin

text \<open>
  The validated block hashes of \<open>crates/dashboard-model/src/hash.rs\<close>: 32 bytes together with
  the \<open>0x\<close>-prefixed spelling they were read from. The lemmas show what the parser accepts,
  where it reports a bad digit, that encoding followed by parsing gives the bytes back, and
  that the spelling's case does not reach the bytes.
\<close>

unbundle bit_operations_syntax

section \<open>Data\<close>

record block_hash =
  hash_bytes :: "u8 list"
  hash_text :: string

datatype hash_error =
    MissingPrefix
  | InvalidLength nat
  | InvalidHex nat u8

definition BYTE_LEN :: nat where
  "BYTE_LEN = 32"

text \<open>\<open>PartialEq\<close> compares the bytes only; \<open>Display\<close> writes the original spelling.\<close>

definition hash_eq :: "block_hash \<Rightarrow> block_hash \<Rightarrow> bool" where
  "hash_eq a b \<longleftrightarrow> hash_bytes a = hash_bytes b"

definition hash_to_string :: "block_hash \<Rightarrow> string" where
  "hash_to_string h = hash_text h"

section \<open>Bytes and characters\<close>

definition byte_of_char :: "char \<Rightarrow> u8" where
  "byte_of_char c = of_nat (of_char c)"

definition char_of_byte :: "u8 \<Rightarrow> char" where
  "char_of_byte b = char_of (unat b)"

lemma byte_of_char_of_byte [simp]: "byte_of_char (char_of_byte b) = b"
proof -
  have "unat b < 2 ^ LENGTH(8)" by (rule unat_lt2p)
  then have "unat b mod 256 = unat b" by simp
  then show ?thesis by (simp add: byte_of_char_def char_of_byte_def)
qed

lemma unat_byte_of_char: "unat (byte_of_char c) = of_char c"
proof -
  have "of_char c mod 256 = (of_char c :: nat)"
    by (metis char_of_char of_char_of)
  then show ?thesis by (simp add: byte_of_char_def unat_of_nat)
qed

section \<open>Decoding and encoding\<close>

definition hex_nibble :: "u8 \<Rightarrow> nat \<Rightarrow> hash_error + u8" where
  "hex_nibble byte index =
     (if 48 \<le> byte \<and> byte \<le> 57 then Inr (byte - 48)
      else if 97 \<le> byte \<and> byte \<le> 102 then Inr (byte - 97 + 10)
      else if 65 \<le> byte \<and> byte \<le> 70 then Inr (byte - 65 + 10)
      else Inl (InvalidHex index byte))"

definition hex_digit :: "u8 \<Rightarrow> u8" where
  "hex_digit nibble = (let n = nibble AND 15 in if n < 10 then 48 + n else 97 + (n - 10))"

definition encode_hex :: "u8 list \<Rightarrow> string" where
  "encode_hex bytes = ''0x'' @ concat (map (\<lambda>byte.
     [char_of_byte (hex_digit (drop_bit 4 byte)), char_of_byte (hex_digit (byte AND 15))]) bytes)"

text \<open>The loop over \<open>as_chunks::<2>()\<close>: a trailing odd byte is not part of any chunk.\<close>

fun decode_pairs :: "nat \<Rightarrow> u8 list \<Rightarrow> hash_error + u8 list" where
  "decode_pairs pair_index (a # b # rest) =
     rbind (hex_nibble a (2 + pair_index * 2)) (\<lambda>high.
     rbind (hex_nibble b (3 + pair_index * 2)) (\<lambda>low.
     rbind (decode_pairs (Suc pair_index) rest) (\<lambda>bytes.
     Inr ((push_bit 4 high OR low) # bytes))))"
| "decode_pairs pair_index _ = Inr []"

definition strip_prefix :: "string \<Rightarrow> string \<Rightarrow> string option" where
  "strip_prefix p s = (if take (length p) s = p then Some (drop (length p) s) else None)"

definition hash_from_str :: "string \<Rightarrow> hash_error + block_hash" where
  "hash_from_str raw =
     (case strip_prefix ''0x'' raw of
        None \<Rightarrow> Inl MissingPrefix
      | Some hex \<Rightarrow>
          if length hex \<noteq> 64 then Inl (InvalidLength (length hex))
          else rbind (decode_pairs 0 (map byte_of_char hex)) (\<lambda>bytes.
               if length bytes \<noteq> BYTE_LEN then Inl (InvalidLength (length hex))
               else Inr \<lparr>hash_bytes = bytes, hash_text = raw\<rparr>))"

definition hash_of_bytes :: "u8 list \<Rightarrow> block_hash" where
  "hash_of_bytes bytes = \<lparr>hash_bytes = bytes, hash_text = encode_hex bytes\<rparr>"

section \<open>Digits\<close>

definition is_hex :: "u8 \<Rightarrow> bool" where
  "is_hex b \<longleftrightarrow> 48 \<le> b \<and> b \<le> 57 \<or> 97 \<le> b \<and> b \<le> 102 \<or> 65 \<le> b \<and> b \<le> 70"

definition nibble_of :: "u8 \<Rightarrow> u8" where
  "nibble_of b = (if b \<le> 57 then b - 48 else if 97 \<le> b then b - 97 + 10 else b - 65 + 10)"

definition to_ascii_lowercase :: "u8 \<Rightarrow> u8" where
  "to_ascii_lowercase b = (if 65 \<le> b \<and> b \<le> 90 then b + 32 else b)"

text \<open>A fact about a range of bytes is checked on each of its values.\<close>

lemma byte_range:
  assumes "list_all P (map of_nat [m..<n])" and "m \<le> unat b" and "unat b < n"
  shows "P (b :: u8)"
proof -
  have "P (of_nat (unat b))"
    using assms by (simp add: list_all_iff del: of_nat_unat)
  then show ?thesis by simp
qed

lemma hex_nibble_cases: "hex_nibble b i = (if is_hex b then Inr (nibble_of b) else Inl (InvalidHex i b))"
proof -
  have "\<not> (b \<le> 57 \<and> 97 \<le> b)" "\<not> (b \<le> 57 \<and> 65 \<le> b)" "\<not> (b \<le> 70 \<and> 97 \<le> b)"
    using order_trans [of 97 b 57] order_trans [of 65 b 57] order_trans [of 97 b 70] by auto
  then show ?thesis by (auto simp: hex_nibble_def is_hex_def nibble_of_def)
qed

lemma hex_lowercase:
  assumes "is_hex b"
  shows "is_hex (to_ascii_lowercase b) \<and> nibble_of (to_ascii_lowercase b) = nibble_of b"
proof (cases "65 \<le> b \<and> b \<le> 70")
  case True
  show ?thesis
  proof (rule byte_range [where m = 65 and n = 71 and P = "\<lambda>b. is_hex (to_ascii_lowercase b) \<and>
        nibble_of (to_ascii_lowercase b) = nibble_of b"])
    show "list_all (\<lambda>b. is_hex (to_ascii_lowercase b) \<and>
        nibble_of (to_ascii_lowercase b) = nibble_of b) (map of_nat [65..<71])"
      by code_simp
  qed (use True in \<open>simp_all add: word_le_nat_alt\<close>)
next
  case False
  have "\<not> (b \<le> 57 \<and> 65 \<le> b)" "\<not> (97 \<le> b \<and> b \<le> 90)"
    using order_trans [of 65 b 57] order_trans [of 97 b 90] by auto
  with assms False have "to_ascii_lowercase b = b"
    by (auto simp: is_hex_def to_ascii_lowercase_def)
  with assms show ?thesis by simp
qed

lemma hex_digit_small:
  assumes "n < 16"
  shows "is_hex (hex_digit n)" and "nibble_of (hex_digit n) = n"
proof -
  have "is_hex (hex_digit n) \<and> nibble_of (hex_digit n) = n"
  proof (rule byte_range [of _ 0 16])
    show "list_all (\<lambda>n. is_hex (hex_digit n) \<and> nibble_of (hex_digit n) = n) (map of_nat [0..<16])"
      by code_simp
  qed (use assms in \<open>simp_all add: word_less_nat_alt\<close>)
  then show "is_hex (hex_digit n)" and "nibble_of (hex_digit n) = n" by auto
qed

lemma high_nibble_small: "drop_bit 4 (b :: u8) < 16"
proof -
  have "unat b < 2 ^ LENGTH(8)" by (rule unat_lt2p)
  then have "unat b div 16 < 16" by simp
  then show ?thesis by (simp add: word_less_nat_alt unat_div drop_bit_eq_div)
qed

lemma low_nibble_small: "(b :: u8) AND 15 < 16"
  by (rule order_le_less_trans [of _ 15]) (auto simp: word_and_le1)

lemma nibbles_join: "push_bit 4 (drop_bit 4 b) OR (b AND 15) = (b :: u8)"
proof -
  have "(15 :: u8) = mask 4" by (simp add: mask_eq_exp_minus_1)
  then have "b AND 15 = take_bit 4 b" by (simp add: take_bit_eq_mask)
  then show ?thesis by (auto intro!: bit_eqI simp: bit_simps not_le)
qed

lemmas nibble_rules = hex_digit_small [OF high_nibble_small] hex_digit_small [OF low_nibble_small]

section \<open>The decoding loop\<close>

lemma decode_pairs_encode:
  "decode_pairs i (concat (map (\<lambda>b. [hex_digit (drop_bit 4 b), hex_digit (b AND 15)]) bytes)) = Inr bytes"
  by (induction bytes arbitrary: i) (auto simp: hex_nibble_cases nibble_rules nibbles_join)

lemma decode_pairs_ok:
  "even (length bs) \<Longrightarrow> (\<exists>bytes. decode_pairs i bs = Inr bytes) = list_all is_hex bs"
  by (induction i bs rule: decode_pairs.induct) (auto simp: hex_nibble_cases rbind_Inr)

lemma decode_pairs_length: "decode_pairs i bs = Inr bytes \<Longrightarrow> length bytes = length bs div 2"
  by (induction i bs arbitrary: bytes rule: decode_pairs.induct) (auto simp: rbind_Inr)

lemma decode_pairs_lowercase:
  "decode_pairs i bs = Inr bytes \<Longrightarrow> even (length bs) \<Longrightarrow>
     decode_pairs j (map to_ascii_lowercase bs) = Inr bytes"
proof (induction i bs arbitrary: j bytes rule: decode_pairs.induct)
  case (1 i a b rest)
  from 1 show ?case
    by (auto simp: rbind_Inr hex_nibble_cases hex_lowercase split: if_splits)
qed auto

lemma decode_pairs_error:
  "decode_pairs i bs = Inl (InvalidHex k b) \<Longrightarrow>
     2 + i * 2 \<le> k \<and> k - 2 - i * 2 < length bs \<and> bs ! (k - 2 - i * 2) = b \<and> \<not> is_hex b \<and>
     (\<forall>j < k - 2 - i * 2. is_hex (bs ! j))"
proof (induction i bs rule: decode_pairs.induct)
  case (1 i a b' rest)
  show ?case
  proof (cases "is_hex a \<and> is_hex b'")
    case True
    with 1 have ih: "2 + Suc i * 2 \<le> k \<and> k - 2 - Suc i * 2 < length rest \<and>
        rest ! (k - 2 - Suc i * 2) = b \<and> \<not> is_hex b \<and> (\<forall>j < k - 2 - Suc i * 2. is_hex (rest ! j))"
      by (auto simp: hex_nibble_cases rbind_Inl)
    define m where "m = k - 2 - Suc i * 2"
    from ih have k: "k - 2 - i * 2 = Suc (Suc m)" by (auto simp: m_def)
    have "is_hex ((a # b' # rest) ! j)" if "j < Suc (Suc m)" for j
      using that ih True by (auto simp: m_def nth_Cons split: nat.splits)
    with ih k show ?thesis by (simp add: m_def)
  next
    case False
    with "1.prems" show ?thesis
      by (auto simp: hex_nibble_cases rbind_Inl nth_Cons split: if_splits nat.splits)
  qed
qed auto

lemma decode_pairs_no_other_error: "decode_pairs i bs = Inl e \<Longrightarrow> \<exists>k b. e = InvalidHex k b"
  by (induction i bs rule: decode_pairs.induct) (auto simp: rbind_Inl hex_nibble_cases split: if_splits)

section \<open>What the parser accepts\<close>

lemma length_encode_hex: "length (encode_hex bytes) = 2 + 2 * length bytes"
  by (induction bytes) (auto simp: encode_hex_def)

lemma strip_0x: "strip_prefix ''0x'' raw = (if take 2 raw = ''0x'' then Some (drop 2 raw) else None)"
  by (simp add: strip_prefix_def numeral_2_eq_2)

lemma hash_from_str_text:
  "hash_from_str raw = Inr h \<Longrightarrow> hash_text h = raw \<and> length (hash_bytes h) = BYTE_LEN"
  by (auto simp: hash_from_str_def rbind_Inr split: option.splits if_splits)

lemma hash_from_encode:
  assumes "length bytes = BYTE_LEN"
  shows "hash_from_str (encode_hex bytes) = Inr (hash_of_bytes bytes)"
proof -
  have pre: "strip_prefix ''0x'' (encode_hex bytes) = Some (drop 2 (encode_hex bytes))"
    by (simp add: strip_prefix_def encode_hex_def)
  have "map byte_of_char (drop 2 (encode_hex bytes)) =
      concat (map (\<lambda>b. [hex_digit (drop_bit 4 b), hex_digit (b AND 15)]) bytes)"
    by (simp add: encode_hex_def map_concat comp_def)
  then show ?thesis
    using assms pre length_encode_hex [of bytes]
    by (simp add: hash_from_str_def decode_pairs_encode hash_of_bytes_def BYTE_LEN_def)
qed

section \<open>Properties\<close>

text \<open>
  A hash is accepted exactly when it is the prefix 0x followed by 64 hexadecimal digits; it then
  has 32 bytes, prints as the input, and its canonical lowercase encoding parses to an equal hash.
\<close>

theorem hash_parse_accepts:
  "(\<exists>h. hash_from_str raw = Inr h) =
     (take 2 raw = ''0x'' \<and> length raw = 66 \<and> list_all is_hex (map byte_of_char (drop 2 raw)))
   \<and> (\<forall>h. hash_from_str raw = Inr h \<longrightarrow> hash_to_string h = raw \<and> length (hash_bytes h) = 32
       \<and> (\<exists>h'. hash_from_str (encode_hex (hash_bytes h)) = Inr h' \<and> hash_eq h' h))"
proof -
  have "(\<exists>h. hash_from_str raw = Inr h) = (take 2 raw = ''0x'' \<and> length (drop 2 raw) = 64
      \<and> (\<exists>bytes. decode_pairs 0 (map byte_of_char (drop 2 raw)) = Inr bytes))"
    using decode_pairs_length [of 0 "map byte_of_char (drop 2 raw)"]
    by (cases "take 2 raw = ''0x''"; cases "length raw = 66")
      (auto simp: hash_from_str_def strip_0x rbind_Inr BYTE_LEN_def)
  moreover have "length (drop 2 raw) = 64 \<Longrightarrow> even (length (map byte_of_char (drop 2 raw)))" by simp
  moreover have "(length (drop 2 raw) = 64) = (length raw = 66)" by auto
  ultimately have acc: "(\<exists>h. hash_from_str raw = Inr h) =
      (take 2 raw = ''0x'' \<and> length raw = 66 \<and> list_all is_hex (map byte_of_char (drop 2 raw)))"
    using decode_pairs_ok by blast
  have "hash_to_string h = raw \<and> length (hash_bytes h) = 32
      \<and> (\<exists>h'. hash_from_str (encode_hex (hash_bytes h)) = Inr h' \<and> hash_eq h' h)"
    if "hash_from_str raw = Inr h" for h
    using hash_from_str_text [OF that] hash_from_encode [of "hash_bytes h"]
    by (simp add: hash_to_string_def BYTE_LEN_def hash_of_bytes_def hash_eq_def)
  with acc show ?thesis by blast
qed

text \<open>C38, at the hash of 32 zero bytes.\<close>

theorem hash_parse_accepts_witness:
  "\<exists>h. hash_from_str (''0x'' @ replicate 64 (CHR ''0'')) = Inr h
     \<and> hash_to_string h = ''0x'' @ replicate 64 (CHR ''0'') \<and> length (hash_bytes h) = 32"
proof -
  have "list_all is_hex (map byte_of_char (drop 2 (''0x'' @ replicate 64 (CHR ''0''))))"
    by (simp add: list_all_iff is_hex_def byte_of_char_def)
  then show ?thesis
    using hash_parse_accepts [of "''0x'' @ replicate 64 (CHR ''0'')"] by auto
qed

text \<open>
  When a text of the right shape holds a character that is not a hexadecimal digit, the error
  names the byte index of the first such character and that byte.
\<close>

theorem hash_parse_first_bad_digit:
  assumes "take 2 raw = ''0x''" and "length raw = 66"
    and "\<not> list_all is_hex (map byte_of_char (drop 2 raw))"
  shows "\<exists>k. hash_from_str raw = Inl (InvalidHex k (byte_of_char (raw ! k))) \<and> 2 \<le> k \<and> k < 66
     \<and> \<not> is_hex (byte_of_char (raw ! k)) \<and> (\<forall>j. 2 \<le> j \<and> j < k \<longrightarrow> is_hex (byte_of_char (raw ! j)))"
proof -
  let ?bs = "map byte_of_char (drop 2 raw)"
  have "even (length ?bs)" using assms(2) by simp
  then obtain e where e: "decode_pairs 0 ?bs = Inl e"
    using decode_pairs_ok [of ?bs 0] assms(3) by (cases "decode_pairs 0 ?bs") auto
  then obtain k b where k: "e = InvalidHex k b" using decode_pairs_no_other_error by blast
  have r: "hash_from_str raw = Inl e"
    using assms(1,2) e by (simp add: hash_from_str_def strip_0x)
  have p: "2 \<le> k" "k - 2 < length ?bs" "?bs ! (k - 2) = b" "\<not> is_hex b" "\<forall>j < k - 2. is_hex (?bs ! j)"
    using decode_pairs_error [OF e [unfolded k]] by auto
  have "is_hex (byte_of_char (raw ! j))" if "2 \<le> j" "j < k" for j
  proof -
    have "j - 2 < k - 2" and "Suc (Suc (j - 2)) = j" using that by auto
    with p(5) [rule_format, of "j - 2"] p(2) assms(2) show ?thesis by simp
  qed
  moreover have "Suc (Suc (k - 2)) = k" using p(1) by auto
  then have "b = byte_of_char (raw ! k)" using p(2,3) assms(2) by simp
  ultimately show ?thesis using r k p assms(2) by (intro exI [of _ k]) auto
qed

text \<open>At a text whose only bad digit is the first one.\<close>

theorem hash_parse_first_bad_digit_witness:
  "\<exists>k. hash_from_str (''0x'' @ CHR ''g'' # replicate 63 (CHR ''0''))
     = Inl (InvalidHex k (byte_of_char ((''0x'' @ CHR ''g'' # replicate 63 (CHR ''0'')) ! k))) \<and> 2 \<le> k"
  using hash_parse_first_bad_digit [of "''0x'' @ CHR ''g'' # replicate 63 (CHR ''0'')"]
  by (auto simp: is_hex_def byte_of_char_def)

end
