(* ===== verification/Float64.thy ===== *)
theory Float64
  imports Prelude
begin

text \<open>
  The parts of IEEE 754 binary64 the sources use: a value is its 64-bit pattern, a finite value is
  read as an integer number of units of the smallest subnormal (two to the power -1074), and the
  comparisons and conversions of \<open>f64\<close> are defined on that integer.
\<close>

unbundle bit_operations_syntax

type_synonym f64 = "64 word"

definition f64_sign :: "f64 \<Rightarrow> bool" where
  "f64_sign x \<longleftrightarrow> bit x 63"

definition f64_exponent :: "f64 \<Rightarrow> nat" where
  "f64_exponent x = unat (take_bit 11 (drop_bit 52 x))"

definition f64_fraction :: "f64 \<Rightarrow> nat" where
  "f64_fraction x = unat (take_bit 52 x)"

definition is_finite :: "f64 \<Rightarrow> bool" where
  "is_finite x \<longleftrightarrow> f64_exponent x \<noteq> 2047"

definition is_nan :: "f64 \<Rightarrow> bool" where
  "is_nan x \<longleftrightarrow> f64_exponent x = 2047 \<and> f64_fraction x \<noteq> 0"

definition f64_units :: "f64 \<Rightarrow> int" where
  "f64_units x =
     (let m = (if f64_exponent x = 0 then f64_fraction x
               else (2 ^ 52 + f64_fraction x) * 2 ^ (f64_exponent x - 1))
      in if f64_sign x then - int m else int m)"

text \<open>The units of one.\<close>

definition f64_one :: int where
  "f64_one = 2 ^ 1074"

text \<open>\<open>==\<close> on \<open>f64\<close>: nothing equals a NaN, and the two zeros are equal.\<close>

definition f64_eq :: "f64 \<Rightarrow> f64 \<Rightarrow> bool" where
  "f64_eq x y \<longleftrightarrow> \<not> is_nan x \<and> \<not> is_nan y \<and> (x = y \<or> is_finite x \<and> is_finite y \<and> f64_units x = f64_units y)"

text \<open>Comparison of finite values with an integer, and the cast of an integral value.\<close>

definition f64_lt_int :: "f64 \<Rightarrow> int \<Rightarrow> bool" where
  "f64_lt_int x n \<longleftrightarrow> f64_units x < n * f64_one"

definition f64_gt_int :: "f64 \<Rightarrow> int \<Rightarrow> bool" where
  "f64_gt_int x n \<longleftrightarrow> n * f64_one < f64_units x"

definition f64_integral :: "f64 \<Rightarrow> bool" where
  "f64_integral x \<longleftrightarrow> f64_units x mod f64_one = 0"

definition f64_to_int :: "f64 \<Rightarrow> int" where
  "f64_to_int x = f64_units x div f64_one"

lemma f64_one_pos [simp]: "0 < f64_one"
  by (simp add: f64_one_def)

lemma f64_eq_sym: "f64_eq x y = f64_eq y x"
  by (auto simp: f64_eq_def)

lemma f64_eq_refl: "f64_eq x x = (\<not> is_nan x)"
  by (simp add: f64_eq_def)

lemma is_nan_not_finite: "is_nan x \<Longrightarrow> \<not> is_finite x"
  by (simp add: is_nan_def is_finite_def)

lemma f64_eq_trans: "f64_eq x y \<Longrightarrow> f64_eq y z \<Longrightarrow> f64_eq x z"
  by (auto simp: f64_eq_def)

lemma f64_int_range:
  assumes "f64_integral x" and "\<not> f64_lt_int x lo" and "\<not> f64_gt_int x hi"
  shows "f64_units x = f64_to_int x * f64_one \<and> lo \<le> f64_to_int x \<and> f64_to_int x \<le> hi"
proof -
  have eq: "f64_units x = f64_to_int x * f64_one"
    using assms(1) unfolding f64_integral_def f64_to_int_def by (metis div_mult_mod_eq add_0_right)
  moreover have "lo \<le> f64_to_int x" "f64_to_int x \<le> hi"
    using assms(2,3) eq by (simp_all add: f64_lt_int_def f64_gt_int_def not_less)
  ultimately show ?thesis by simp
qed

section \<open>Rounding, casts and arithmetic\<close>

text \<open>
  Round to nearest, ties to even: the float nearest to \<open>n / d\<close>. In units of the smallest subnormal the
  value is \<open>u / d\<close>; the significand has at most 53 bits, so its quantum is \<open>2 ^ k\<close>, and the bit pattern of
  significand \<open>m\<close> at quantum \<open>2 ^ k\<close> is \<open>k * 2 ^ 52 + m\<close>, also when rounding carries into the next binade.
\<close>

fun bit_length :: "nat \<Rightarrow> nat" where
  "bit_length n = (if n = 0 then 0 else Suc (bit_length (n div 2)))"

declare bit_length.simps [simp del]

lemma bit_length_simps [simp]:
  "bit_length 0 = 0"
  "n \<noteq> 0 \<Longrightarrow> bit_length (2 * n) = Suc (bit_length n)"
  by (simp_all add: bit_length.simps [of 0] bit_length.simps [of "2 * n"])

lemma bit_length_pos: "n \<noteq> 0 \<Longrightarrow> bit_length n = Suc (bit_length (n div 2))"
  by (simp add: bit_length.simps [of n])

definition half_even :: "nat \<Rightarrow> nat \<Rightarrow> nat" where
  "half_even n d = (let q = n div d; r = n mod d
     in if 2 * r < d then q else if d < 2 * r then q + 1 else if even q then q else q + 1)"

definition f64_round :: "bool \<Rightarrow> nat \<Rightarrow> nat \<Rightarrow> f64" where
  "f64_round neg n d =
     (let u = n * 2 ^ 1074;
          k = bit_length (u div d) - 53;
          bits = k * 2 ^ 52 + half_even u (d * 2 ^ k)
      in of_nat (min bits (2047 * 2 ^ 52) + (if neg then 2 ^ 63 else 0)))"

text \<open>\<open>as f64\<close> and \<open>f64::from\<close> on integers, and the operators on finite operands (a nonzero divisor).\<close>

definition f64_of_int :: "int \<Rightarrow> f64" where
  "f64_of_int v = f64_round (v < 0) (nat \<bar>v\<bar>) 1"

definition f64_div :: "f64 \<Rightarrow> f64 \<Rightarrow> f64" where
  "f64_div x y = f64_round (f64_sign x \<noteq> f64_sign y) (nat \<bar>f64_units x\<bar>) (nat \<bar>f64_units y\<bar>)"

definition f64_mul :: "f64 \<Rightarrow> f64 \<Rightarrow> f64" where
  "f64_mul x y = f64_round (f64_sign x \<noteq> f64_sign y) (nat \<bar>f64_units x\<bar> * nat \<bar>f64_units y\<bar>) (2 ^ 2148)"

lemma f64_fields:
  assumes "k \<le> 2045" and "2 ^ 52 \<le> m" and "m < 2 ^ 53"
  shows "f64_exponent (of_nat (k * 2 ^ 52 + m)) = k + 1" (is ?e)
    and "f64_fraction (of_nat (k * 2 ^ 52 + m)) = m - 2 ^ 52" (is ?f)
    and "\<not> f64_sign (of_nat (k * 2 ^ 52 + m))" (is ?s)
proof -
  define x where "x = k * 2 ^ 52 + m"
  obtain r where r: "m = 2 ^ 52 + r" "r < 2 ^ 52"
    using assms(2,3) by (auto simp: le_iff_add)
  have x: "x = (k + 1) * 2 ^ 52 + r" using r by (simp add: x_def)
  have small: "x < 2 ^ 63" using assms(1) r(2) x by simp
  then have u: "unat (of_nat x :: f64) = x" by (simp add: unat_of_nat)
  have "x mod 2 ^ 52 = r mod 2 ^ 52" unfolding x by (rule mod_mult_self3)
  moreover have "x div 2 ^ 52 = (k + 1) + r div 2 ^ 52" unfolding x by (rule div_mult_self3) simp
  ultimately have d: "x div 2 ^ 52 = k + 1" "x mod 2 ^ 52 = r" using r(2) by simp_all
  have "f64_exponent (of_nat x) = (x div 2 ^ 52) mod 2 ^ 11"
    unfolding f64_exponent_def unsigned_take_bit_eq unat_drop_bit_eq u by (simp only: take_bit_eq_mod drop_bit_eq_div)
  then show ?e using d(1) assms(1) by (simp add: x_def)
  have "f64_fraction (of_nat x) = x mod 2 ^ 52"
    unfolding f64_fraction_def unsigned_take_bit_eq u by (simp only: take_bit_eq_mod)
  then show ?f using d(2) r(1) by (simp add: x_def)
  have "unat (drop_bit 63 (of_nat x :: f64)) = 0"
    unfolding unat_drop_bit_eq u using small by (simp add: drop_bit_eq_div)
  then have "drop_bit 63 (of_nat x :: f64) = 0" by (simp only: unat_eq_0)
  then show ?s unfolding f64_sign_def bit_iff_odd_drop_bit x_def by simp
qed

lemma bit_length_bounds: "n \<noteq> 0 \<Longrightarrow> 0 < bit_length n \<and> 2 ^ (bit_length n - 1) \<le> n \<and> n < 2 ^ bit_length n"
proof (induction n rule: bit_length.induct)
  case (1 n)
  show ?case
  proof (cases "n div 2 = 0")
    case True
    with 1(2) have "n = 1" by simp
    then show ?thesis by (simp add: bit_length_pos)
  next
    case False
    let ?l = "bit_length (n div 2)"
    from 1(1) [OF 1(2) False] have l: "0 < ?l" "2 ^ (?l - 1) \<le> n div 2" "n div 2 < 2 ^ ?l" by auto
    have "2 * 2 ^ (?l - 1) \<le> n" using l(2) by linarith
    moreover have "(2 :: nat) * 2 ^ (?l - 1) = 2 ^ ?l" using l(1) by (simp flip: power_Suc)
    moreover have "n < 2 * 2 ^ ?l" using l(3) by linarith
    ultimately show ?thesis by (simp add: bit_length_pos [OF 1(2)])
  qed
qed

lemma bit_length_le: "n < 2 ^ w \<Longrightarrow> bit_length n \<le> w"
proof (induction n arbitrary: w rule: bit_length.induct)
  case (1 n)
  show ?case
  proof (cases "n = 0")
    case False
    with 1(2) obtain v where v: "w = Suc v" by (cases w) auto
    with 1(2) have "n div 2 < 2 ^ v" by (simp add: less_mult_imp_div_less)
    then show ?thesis using 1(1) [OF False] bit_length_pos [OF False] v by simp
  qed simp
qed

lemma bit_length_shift: "n \<noteq> 0 \<Longrightarrow> bit_length (n * 2 ^ k) = bit_length n + k"
  by (induction k) (simp_all add: mult.left_commute [of n 2])

lemma half_even_exact: "0 < d \<Longrightarrow> half_even (m * d) d = m"
  by (simp add: half_even_def)

text \<open>An unsigned integer below \<open>2 ^ 53\<close> is represented exactly.\<close>

lemma f64_of_zero: "f64_of_int 0 = 0"
  by (simp add: f64_of_int_def f64_round_def half_even_def)

lemma f64_of_small_int_pos:
  assumes "n < 2 ^ 53" and "n \<noteq> 0"
  shows "f64_units (f64_of_int (int n)) = int n * f64_one" (is ?u)
    and "is_finite (f64_of_int (int n))" (is ?f)
proof -
  define L where "L = bit_length n"
  have L: "L \<le> 53" "0 < L" "2 ^ (L - 1) \<le> n" "n < 2 ^ L"
    using bit_length_bounds [OF assms(2)] bit_length_le [OF assms(1)] by (auto simp: L_def)
  define k where "k = L + 1021"
  define m where "m = n * 2 ^ (53 - L)"
  have "bit_length (n * 2 ^ 1074) = L + 1074" unfolding L_def by (rule bit_length_shift [OF assms(2)])
  then have k: "bit_length (n * 2 ^ 1074 div 1) - 53 = k" by (simp add: k_def)
  have "(1074 :: nat) = (53 - L) + k" using L(1) by (simp add: k_def)
  then have "n * 2 ^ 1074 = m * 2 ^ k" by (simp only: m_def power_add mult.assoc)
  then have h: "half_even (n * 2 ^ 1074) (1 * 2 ^ k) = m" using half_even_exact [of "2 ^ k" m] by simp
  have m: "2 ^ 52 \<le> m" "m < 2 ^ 53"
  proof -
    have "(2 :: nat) ^ 52 = 2 ^ (L - 1) * 2 ^ (53 - L)" using L(1,2) by (simp flip: power_add)
    also have "\<dots> \<le> m" using L(3) by (simp add: m_def)
    finally show "2 ^ 52 \<le> m" .
    have "m < 2 ^ L * 2 ^ (53 - L)" using L(4) by (simp add: m_def)
    also have "\<dots> = 2 ^ 53" using L(1) by (simp flip: power_add)
    finally show "m < 2 ^ 53" .
  qed
  have kb: "k \<le> 2045" using L(1) by (simp add: k_def)
  have "k * 2 ^ 52 + m \<le> 2047 * 2 ^ 52" using kb m(2) by simp
  then have eq: "f64_of_int (int n) = of_nat (k * 2 ^ 52 + m)"
    by (simp only: f64_of_int_def f64_round_def Let_def k h nat_int abs_of_nat) simp
  note fields = f64_fields [OF kb m]
  show ?f unfolding is_finite_def eq fields(1) using kb by simp
  have "f64_units (f64_of_int (int n)) = int (m * 2 ^ k)"
    using fields m(1) by (simp only: f64_units_def eq Let_def) simp
  also have "\<dots> = int n * f64_one" unfolding \<open>n * 2 ^ 1074 = m * 2 ^ k\<close> [symmetric] by (simp add: f64_one_def)
  finally show ?u .
qed

lemma f64_of_small_int:
  assumes "n < 2 ^ 53"
  shows "f64_units (f64_of_int (int n)) = int n * f64_one \<and> is_finite (f64_of_int (int n))"
proof (cases "n = 0")
  case True
  then show ?thesis by (simp add: f64_of_zero f64_units_def f64_exponent_def f64_fraction_def is_finite_def)
next
  case False
  then show ?thesis using f64_of_small_int_pos [OF assms] by simp
qed

end
