(* ===== verification/Store_Types.thy ===== *)
theory Store_Types
  imports Decimal Block_Hash Float64
begin

text \<open>
  The data of \<open>dashboard-store/src/types.rs\<close> and the chain records of
  \<open>dashboard-model/src/chain.rs\<close> that the indexing transactions write. A 64-bit float is
  its IEEE 754 bit pattern; timestamps the code only stores are strings.
\<close>

type_synonym block_height = decimal_string

datatype store_error =
    Capacity
  | Database string
  | Invalid string
  | NetworkIdentity
  | VerificationUnavailable string
  | WriterOwned
  | ReadOnly
  | MigrationHistory string
  | IncompleteScan
  | ConflictingHistory string
  | Json string
  | Io string

datatype commit_result = Applied | AlreadyApplied | StaleGeneration

datatype indexable = Winners | Difficulty | Participation | Authorship

definition all_indexables :: "indexable list" where
  "all_indexables = [Winners, Difficulty, Participation, Authorship]"

primrec indexable_name :: "indexable \<Rightarrow> string" where
  "indexable_name Winners = ''winners''"
| "indexable_name Difficulty = ''difficulty''"
| "indexable_name Participation = ''participation''"
| "indexable_name Authorship = ''authorship''"

record generation_guard =
  guard_indexable :: indexable
  expected :: u64

datatype unavailable_reason = MissingRetainedNonce | MissingRetainedDifficulty

primrec reason_name :: "unavailable_reason \<Rightarrow> string" where
  "reason_name MissingRetainedNonce = ''missing_retained_nonce''"
| "reason_name MissingRetainedDifficulty = ''missing_retained_difficulty''"

record unavailable_block =
  ub_guard :: generation_guard
  ub_height :: block_height
  ub_hash :: block_hash
  ub_enrichment_at :: block_hash
  ub_reason :: unavailable_reason

section \<open>Chain records\<close>

record block_record =
  br_block_hash :: block_hash
  br_substrate_block_number :: decimal_string
  br_substrate_block_hash :: block_hash
  br_substrate_parent_hash :: block_hash
  br_timestamp :: u64
  br_miner_id :: string
  br_energy :: f64
  br_diversity :: f64
  br_num_valid_solutions :: u64
  br_mining_time :: f64
  br_device_access_time_us :: "u64 option"
  br_reward :: decimal_string
  br_qblock_id :: decimal_string
  br_nonce :: decimal_string
  br_num_nodes :: u32
  br_num_edges :: u32
  br_difficulty_energy :: f64
  br_min_diversity :: f64
  br_min_solutions :: u32
  br_finalized :: bool
  br_topology_hash :: "block_hash option"

record participation_record =
  pr_qblock_id :: decimal_string
  pr_account :: string
  pr_kind :: string
  pr_budget_seconds :: "f64 option"
  pr_block_number :: decimal_string

datatype difficulty_source = BlockSource | PollSource

record difficulty_record =
  dr_observed_at_block :: decimal_string
  dr_difficulty_energy :: f64
  dr_min_diversity :: f64
  dr_min_solutions :: u32
  dr_observed_at :: string
  dr_topology_hash :: "block_hash option"
  dr_source :: difficulty_source

record authorship_record =
  ar_account_id :: string
  ar_block_number :: block_height
  ar_timestamp :: u64
  ar_had_winner :: bool

record block_records =
  winner :: "block_record option"
  difficulty :: "difficulty_record option"
  authorship :: "authorship_record option"
  participation :: "participation_record list"

section \<open>Requests of the indexer\<close>

record block_commit =
  bc_genesis :: block_hash
  bc_hash :: block_hash
  bc_height :: block_height
  bc_guards :: "generation_guard list"
  bc_records :: block_records
  bc_completed :: "indexable list"

record scan =
  scan_id :: string
  scan_genesis :: block_hash
  scan_at :: block_hash
  scan_finalized_height :: block_height
  scan_indexable :: indexable
  scan_expected_generation :: u64

record scan_progress =
  progress_cursor :: "u8 list option"
  progress_finished :: bool

record range_completion =
  rc_genesis :: block_hash
  rc_indexable :: indexable
  rc_expected_generation :: u64
  rc_from :: block_height
  rc_through :: block_height
  rc_scan_id :: string

record retained_block =
  rb_height :: block_height
  rb_hash :: block_hash

lemma indexable_name_inj [simp]: "(indexable_name i = indexable_name j) = (i = j)"
  by (cases i; cases j) simp_all

lemma set_all_indexables [simp]: "i \<in> set all_indexables"
  by (cases i) (simp_all add: all_indexables_def)

end
