(* ===== verification/Coverage.thy ===== *)
theory Coverage
  imports Store_Types "HOL-Library.Product_Lexorder" "HOL-Library.Multiset"
begin

text \<open>
  The coverage of one domain (\<open>dashboard-store/src/coverage.rs\<close>, \<open>impl Coverage\<close> and the
  validation of the loader \<open>coverage\<close>): a lowest and a highest completed height with the
  sorted list of uncovered intervals between them. The set \<open>covered\<close> of completed heights is the
  abstract value; \<open>cover\<close> is shown to be union with an interval on it.
\<close>

record coverage =
  cov_v :: u8
  cov_gen :: u64
  cov_start :: u64
  low :: "u64 option"
  high :: "u64 option"
  gaps :: "(u64 \<times> u64) list"
  pruned_floor :: "u64 option"
  updated_at :: "string option"

definition coverage_empty :: "u64 \<Rightarrow> u64 \<Rightarrow> coverage" where
  "coverage_empty g s = \<lparr>cov_v = 1, cov_gen = g, cov_start = s, low = None, high = None,
     gaps = [], pruned_floor = None, updated_at = None\<rparr>"

definition contains :: "coverage \<Rightarrow> u64 \<Rightarrow> u64 \<Rightarrow> bool" where
  "contains c f t \<longleftrightarrow> f \<le> t
     \<and> (case low c of None \<Rightarrow> False | Some n \<Rightarrow> n \<le> f)
     \<and> (case high c of None \<Rightarrow> False | Some n \<Rightarrow> t \<le> n)
     \<and> \<not> list_ex (\<lambda>(a, b). a \<le> t \<and> f \<le> b) (gaps c)"

text \<open>One iteration of the loop of \<open>cover\<close>: what is left of a gap.\<close>

definition split_gap :: "u64 \<Rightarrow> u64 \<Rightarrow> u64 \<times> u64 \<Rightarrow> (u64 \<times> u64) list" where
  "split_gap a b g = (case g of (x, y) \<Rightarrow>
     if y < a \<or> b < x then [(x, y)]
     else (if x < a then [(x, a - 1)] else []) @ (if b < y then [(b + 1, y)] else []))"

text \<open>The gaps the two pushes before the loop append.\<close>

definition open_gaps :: "u64 \<Rightarrow> u64 \<Rightarrow> u64 \<Rightarrow> u64 \<Rightarrow> (u64 \<times> u64) list" where
  "open_gaps l h a b =
     (if saturating_add h 1 < a then [(h + 1, a - 1)] else [])
     @ (if saturating_add b 1 < l then [(b + 1, l - 1)] else [])"

text \<open>\<open>cover\<close>, with the clock reading \<open>now()\<close> as an argument; the updated value is returned.\<close>

definition cover :: "string \<Rightarrow> u64 \<Rightarrow> u64 \<Rightarrow> coverage \<Rightarrow> store_error + (bool \<times> coverage)" where
  "cover now a b c =
     (if b < a \<or> a < cov_start c then Inl (Invalid ''coverage outside domain floor'')
      else if contains c a b then Inr (False, c)
      else case (low c, high c) of
        (Some l, Some h) \<Rightarrow>
          Inr (True, c\<lparr>gaps := sort (concat (map (split_gap a b) (gaps c @ open_gaps l h a b))),
                       low := Some (min l a), high := Some (max h b), updated_at := Some now\<rparr>)
      | _ \<Rightarrow> Inr (True, c\<lparr>low := Some a, high := Some b, updated_at := Some now\<rparr>))"

text \<open>The checks of the loader, in its order of traversal.\<close>

fun gaps_ok :: "u64 option \<Rightarrow> u64 option \<Rightarrow> u64 option \<Rightarrow> (u64 \<times> u64) list \<Rightarrow> bool" where
  "gaps_ok l h prev [] = True"
| "gaps_ok l h prev ((a, b) # gs) =
     (if b < a
         \<or> (case l of None \<Rightarrow> True | Some l' \<Rightarrow> a \<le> l')
         \<or> (case h of None \<Rightarrow> True | Some h' \<Rightarrow> h' \<le> b)
         \<or> (case prev of None \<Rightarrow> False | Some p \<Rightarrow> a \<le> saturating_add p 1)
      then False else gaps_ok l h (Some b) gs)"

definition check_coverage :: "u64 \<Rightarrow> coverage \<Rightarrow> store_error + coverage" where
  "check_coverage g c =
     (if cov_v c \<noteq> 1 \<or> cov_gen c \<noteq> g
         \<or> (low c \<noteq> None) \<noteq> (high c \<noteq> None)
         \<or> (case (low c, high c) of (Some l, Some h) \<Rightarrow> h < l | _ \<Rightarrow> False)
      then Inl (Invalid ''invalid persisted coverage'')
      else if \<not> gaps_ok (low c) (high c) None (gaps c)
      then Inl (Invalid ''invalid persisted coverage gaps'')
      else Inr c)"

section \<open>The set of completed heights\<close>

definition covered :: "coverage \<Rightarrow> u64 set" where
  "covered c = {x. contains c x x}"

definition coverage_wf :: "coverage \<Rightarrow> bool" where
  "coverage_wf c \<longleftrightarrow> check_coverage (cov_gen c) c = Inr c"

definition in_gaps :: "u64 \<Rightarrow> (u64 \<times> u64) list \<Rightarrow> bool" where
  "in_gaps z gs \<longleftrightarrow> (\<exists>(x, y) \<in> set gs. x \<le> z \<and> z \<le> y)"

lemma in_gaps_iff: "in_gaps z gs = (\<exists>g\<in>set gs. fst g \<le> z \<and> z \<le> snd g)"
  by (simp add: in_gaps_def case_prod_beta)

lemma union_in_gaps: "(\<Union>g\<in>set gs. {fst g..snd g}) = {z. in_gaps z gs}"
  by (simp add: set_eq_iff in_gaps_iff)

text \<open>Consecutive gaps are separated by at least one completed height.\<close>

definition sep :: "u64 \<times> u64 \<Rightarrow> u64 \<times> u64 \<Rightarrow> bool" where
  "sep p q \<longleftrightarrow> saturating_add (snd p) 1 < fst q"

definition within :: "u64 \<Rightarrow> u64 \<Rightarrow> u64 \<times> u64 \<Rightarrow> bool" where
  "within l h p \<longleftrightarrow> l < fst p \<and> fst p \<le> snd p \<and> snd p < h"

lemma sep_less: "sep p q \<Longrightarrow> snd p < fst q"
  by (simp add: sep_def word_order)

lemma sep_trans: "sep p q \<Longrightarrow> fst q \<le> snd q \<Longrightarrow> sep q r \<Longrightarrow> sep p r"
  by (auto simp: sep_def word_order)

lemma gaps_ok_iff:
  "gaps_ok (Some l) (Some h) prev gs =
     ((\<forall>g\<in>set gs. within l h g) \<and> sorted_wrt sep gs
      \<and> (case prev of None \<Rightarrow> True | Some p \<Rightarrow> \<forall>g\<in>set gs. saturating_add p 1 < fst g))"
proof (induction gs arbitrary: prev)
  case Nil
  then show ?case by (cases prev) auto
next
  case (Cons g gs)
  obtain a b where g: "g = (a, b)" by (cases g)
  have sep_ab: "(saturating_add b 1 < fst q) = sep (a, b) q" for q by (simp add: sep_def)
  have step: "saturating_add p 1 < fst q" if "saturating_add p 1 < a" and "a \<le> b" and "sep (a, b) q" for p q
    using that sep_less [OF that(3)] by simp
  show ?case
    unfolding g gaps_ok.simps Cons.IH
    by (cases prev) (auto simp: within_def sep_ab not_le not_less intro: step)
qed

lemma gaps_ok_None: "gaps_ok None h prev gs = (gs = [])"
  by (cases gs) auto

lemma coverage_wf_iff:
  "coverage_wf c = (cov_v c = 1 \<and>
     ((low c = None \<and> high c = None \<and> gaps c = [])
      \<or> (\<exists>l h. low c = Some l \<and> high c = Some h \<and> l \<le> h
           \<and> (\<forall>g\<in>set (gaps c). within l h g) \<and> sorted_wrt sep (gaps c))))"
  unfolding coverage_wf_def check_coverage_def
  by (cases "low c"; cases "high c") (auto simp: gaps_ok_None gaps_ok_iff not_less)

lemma coverage_wf_empty [simp]: "coverage_wf (coverage_empty g s)"
  by (simp add: coverage_wf_iff coverage_empty_def)

lemma covered_empty [simp]: "covered (coverage_empty g s) = {}"
  by (simp add: covered_def contains_def coverage_empty_def)

lemma in_gaps_simps [simp]:
  "\<not> in_gaps z []"
  "in_gaps z ((x, y) # gs) = (x \<le> z \<and> z \<le> y \<or> in_gaps z gs)"
  "in_gaps z (gs @ gs') = (in_gaps z gs \<or> in_gaps z gs')"
  by (auto simp: in_gaps_def)

lemma in_gaps_sort [simp]: "in_gaps z (sort gs) = in_gaps z gs"
  by (simp add: in_gaps_def)

lemma contains_bounds:
  assumes "low c = Some l" and "high c = Some h"
  shows "contains c f t = (f \<le> t \<and> l \<le> f \<and> t \<le> h \<and> \<not> (\<exists>(a, b)\<in>set (gaps c). a \<le> t \<and> f \<le> b))"
  using assms by (simp add: contains_def list_ex_iff)

lemma covered_bounds:
  assumes "low c = Some l" and "high c = Some h"
  shows "covered c = {z. l \<le> z \<and> z \<le> h \<and> \<not> in_gaps z (gaps c)}"
  using assms by (auto simp: covered_def contains_bounds in_gaps_def)

text \<open>\<open>contains\<close> is inclusion of the interval in the set.\<close>

lemma contains_iff_subset:
  assumes "coverage_wf c" and "f \<le> t"
  shows "contains c f t = ({f..t} \<subseteq> covered c)"
proof (cases "low c")
  case None
  then have "covered c = {}" "\<not> contains c f t"
    by (auto simp: covered_def contains_def)
  with assms(2) show ?thesis by auto
next
  case (Some l)
  with assms(1) obtain h where h: "high c = Some h" and gs: "\<forall>g\<in>set (gaps c). within l h g"
    by (auto simp: coverage_wf_iff)
  note cb = contains_bounds [OF Some h] and cv = covered_bounds [OF Some h]
  show ?thesis
  proof
    assume "contains c f t"
    then show "{f..t} \<subseteq> covered c" by (fastforce simp: cb cv in_gaps_def)
  next
    assume sub: "{f..t} \<subseteq> covered c"
    have "\<not> (a \<le> t \<and> f \<le> b)" if "(a, b) \<in> set (gaps c)" for a b
    proof
      assume *: "a \<le> t \<and> f \<le> b"
      have "a \<le> b" using gs that by (auto simp: within_def)
      with * assms(2) have "max a f \<in> {f..t}" and "in_gaps (max a f) (gaps c)"
        using that by (auto simp: in_gaps_def max_def intro!: bexI [of _ "(a, b)"])
      with sub cv show False by blast
    qed
    then show "contains c f t" using sub assms(2) by (auto simp: cb cv)
  qed
qed

section \<open>\<open>cover\<close> is union with an interval\<close>

lemma sorted_wrt_sep_sorted:
  assumes "sorted_wrt sep gs" and "\<forall>g\<in>set gs. fst g \<le> snd g"
  shows "sorted gs"
  using assms
proof (induction gs)
  case (Cons g gs)
  have "g \<le> q" if "q \<in> set gs" for q
  proof -
    have "snd g < fst q" using that Cons.prems by (auto intro: sep_less)
    then have "fst g < fst q" using Cons.prems(2) by (auto intro: le_less_trans)
    then show ?thesis by (simp add: less_eq_prod_def)
  qed
  with Cons show ?case by auto
qed simp

lemma split_gap_inside:
  assumes "p \<in> set (split_gap a b g)" and "fst g \<le> snd g" and "a \<le> b"
  shows "fst g \<le> fst p" and "fst p \<le> snd p" and "snd p \<le> snd g"
proof -
  obtain x y where g: "g = (x, y)" by (cases g)
  have "x \<le> fst p \<and> fst p \<le> snd p \<and> snd p \<le> y"
    using assms unfolding g split_gap_def
    by (auto split: if_splits simp: word_order not_less
        dest: word_pred_less word_less_succ intro: order.strict_implies_order order.trans)
  then show "fst g \<le> fst p" and "fst p \<le> snd p" and "snd p \<le> snd g"
    using g by auto
qed

lemma sep_inside: "sep g q \<Longrightarrow> snd p \<le> snd g \<Longrightarrow> fst q \<le> fst r \<Longrightarrow> sep p r"
  unfolding sep_def by (meson order.strict_trans1 order.strict_trans2 order_refl saturating_add_mono)

lemma sorted_wrt_split_gap:
  assumes "a \<le> b"
  shows "sorted_wrt sep (split_gap a b g)"
proof -
  obtain x y where g: "g = (x, y)" by (cases g)
  have "sep (x, a - 1) (b + 1, y)" if "x < a" and "b < y"
  proof -
    have "a - 1 < b + 1"
      using that(1,2) assms word_pred_less [OF that(1)] word_less_succ [OF that(2)] by simp
    moreover have "a - 1 + 1 < b + 1" using that assms by (simp add: word_order)
    ultimately show ?thesis by (simp add: sep_def word_order)
  qed
  then show ?thesis by (auto simp: g split_gap_def)
qed

lemma sorted_wrt_sep_split:
  assumes "sorted_wrt sep gs" and "\<forall>g\<in>set gs. fst g \<le> snd g" and "a \<le> b"
  shows "sorted_wrt sep (concat (map (split_gap a b) gs))"
  using assms(1,2)
proof (induction gs)
  case (Cons g gs)
  have "sep p r" if "p \<in> set (split_gap a b g)" "q \<in> set gs" "r \<in> set (split_gap a b q)" for p q r
  proof (rule sep_inside)
    show "sep g q" using Cons.prems that by simp
    show "snd p \<le> snd g" using split_gap_inside [OF that(1) _ assms(3)] Cons.prems by simp
    show "fst q \<le> fst r" using split_gap_inside [OF that(3) _ assms(3)] Cons.prems that by simp
  qed
  with Cons show ?case
    by (auto simp: sorted_wrt_append sorted_wrt_split_gap [OF assms(3)])
qed simp

lemma in_split_gap:
  assumes "a \<le> b"
  shows "in_gaps z (split_gap a b (x, y)) = (x \<le> z \<and> z \<le> y \<and> \<not> (a \<le> z \<and> z \<le> b))"
  using assms unfolding split_gap_def
  by (cases "x < a"; cases "b < y") (auto simp: word_order not_less not_le)

lemma in_gaps_split:
  assumes "a \<le> b"
  shows "in_gaps z (concat (map (split_gap a b) gs)) = (in_gaps z gs \<and> \<not> (a \<le> z \<and> z \<le> b))"
  using assms by (induction gs) (auto simp: in_split_gap)

text \<open>A range that touches no gap leaves the gaps alone.\<close>

lemma split_gaps_apart:
  assumes "\<forall>g\<in>set gs. snd g < a \<or> b < fst g"
  shows "concat (map (split_gap a b) gs) = gs"
  using assms by (induction gs) (auto simp: split_gap_def)

lemma open_gaps_above:
  assumes "saturating_add h 1 < a" and "a \<le> b" and "l \<le> h"
  shows "open_gaps l h a b = [(h + 1, a - 1)]"
  using assms by (auto simp: open_gaps_def word_order)

lemma open_gaps_below:
  assumes "saturating_add b 1 < l" and "a \<le> b" and "l \<le> h"
  shows "open_gaps l h a b = [(b + 1, l - 1)]"
  using assms by (auto simp: open_gaps_def word_order)

lemma open_gap_props:
  assumes "saturating_add h 1 < a"
  shows "h < h + 1" and "h + 1 \<le> a - 1" and "a - 1 < a"
proof -
  have ha: "h < a" "h + 1 < a" using assms by (simp_all add: word_order)
  show "h < h + 1" using ha(1) by (rule word_less_succ)
  show "h + 1 \<le> a - 1" using ha(2) by (simp add: word_le_sub1_iff)
  show "a - 1 < a" using ha(1) by (rule word_pred_less)
qed

text \<open>The new gap list, in its three cases: range above, range below, range meeting the old bounds.\<close>

definition new_gaps :: "u64 \<Rightarrow> u64 \<Rightarrow> u64 \<Rightarrow> u64 \<Rightarrow> (u64 \<times> u64) list \<Rightarrow> (u64 \<times> u64) list" where
  "new_gaps l h a b gs = sort (concat (map (split_gap a b) (gs @ open_gaps l h a b)))"

lemma sort_sep:
  assumes "sorted_wrt sep gs" and "\<forall>g\<in>set gs. fst g \<le> snd g"
  shows "sort gs = gs"
  using sorted_wrt_sep_sorted [OF assms] by (simp add: sorted_sort_id)

lemma sep_before_open:
  assumes "\<forall>g\<in>set gs. within l h g" and "h < h + 1" and "g \<in> set gs"
  shows "sep g (h + 1, y)"
proof -
  have "snd g < h" using assms by (auto simp: within_def)
  then have "snd g < h + 1 \<and> snd g + 1 < h + 1"
    using assms(2) by (auto simp: word_add1_le word_less_add1 intro: order.strict_trans)
  then show ?thesis by (simp add: sep_def word_order)
qed

lemma new_gaps_above:
  assumes gs: "\<forall>g\<in>set gs. within l h g" "sorted_wrt sep gs" and "l \<le> h" "a \<le> b"
    and above: "saturating_add h 1 < a"
  shows "new_gaps l h a b gs = gs @ [(h + 1, a - 1)]"
    and "sorted_wrt sep (gs @ [(h + 1, a - 1)])"
    and "\<forall>g\<in>set (gs @ [(h + 1, a - 1)]). within l b g"
proof -
  note op = open_gap_props [OF above]
  have ha: "h < a" using above by (simp add: word_order)
  show sorted: "sorted_wrt sep (gs @ [(h + 1, a - 1)])"
    using gs sep_before_open [OF gs(1) op(1)] by (simp add: sorted_wrt_snoc)
  show bnds: "\<forall>g\<in>set (gs @ [(h + 1, a - 1)]). within l b g"
    using gs(1) op ha assms(3,4) by (force simp: within_def)
  have "\<forall>g\<in>set (gs @ [(h + 1, a - 1)]). snd g < a \<or> b < fst g"
    using gs(1) op ha by (force simp: within_def)
  then have "concat (map (split_gap a b) (gs @ open_gaps l h a b)) = gs @ [(h + 1, a - 1)]"
    unfolding open_gaps_above [OF above assms(4,3)] by (rule split_gaps_apart)
  moreover have "\<forall>g\<in>set (gs @ [(h + 1, a - 1)]). fst g \<le> snd g"
    using bnds by (auto simp: within_def)
  ultimately show "new_gaps l h a b gs = gs @ [(h + 1, a - 1)]"
    using sort_sep [OF sorted] by (simp add: new_gaps_def)
qed

lemma new_gaps_below:
  assumes gs: "\<forall>g\<in>set gs. within l h g" "sorted_wrt sep gs" and "l \<le> h" "a \<le> b"
    and below: "saturating_add b 1 < l"
  shows "new_gaps l h a b gs = (b + 1, l - 1) # gs"
    and "sorted_wrt sep ((b + 1, l - 1) # gs)"
    and "\<forall>g\<in>set ((b + 1, l - 1) # gs). within a h g"
proof -
  note op = open_gap_props [OF below]
  have bl: "b < l" using below by (simp add: word_order)
  have "sep (b + 1, l - 1) g" if "g \<in> set gs" for g
  proof -
    have "l < fst g" using gs(1) that by (auto simp: within_def)
    moreover from this op(3) have "l - 1 < fst g" by simp
    ultimately show ?thesis using bl by (simp add: sep_def word_order)
  qed
  then show sorted: "sorted_wrt sep ((b + 1, l - 1) # gs)" using gs by simp
  show bnds: "\<forall>g\<in>set ((b + 1, l - 1) # gs). within a h g"
    using gs(1) op bl assms(3,4) by (force simp: within_def)
  have "\<forall>g\<in>set (gs @ [(b + 1, l - 1)]). snd g < a \<or> b < fst g"
    using gs(1) op bl by (force simp: within_def)
  then have "concat (map (split_gap a b) (gs @ open_gaps l h a b)) = gs @ [(b + 1, l - 1)]"
    unfolding open_gaps_below [OF below assms(4,3)] by (rule split_gaps_apart)
  moreover have "sorted ((b + 1, l - 1) # gs)"
    using sorted_wrt_sep_sorted [OF sorted] bnds by (auto simp: within_def)
  then have "sort (gs @ [(b + 1, l - 1)]) = (b + 1, l - 1) # gs"
    by (intro properties_for_sort) simp_all
  ultimately show "new_gaps l h a b gs = (b + 1, l - 1) # gs"
    by (simp add: new_gaps_def)
qed

lemma new_gaps_meet:
  assumes gs: "\<forall>g\<in>set gs. within l h g" "sorted_wrt sep gs" and "a \<le> b"
    and meet: "\<not> saturating_add h 1 < a" "\<not> saturating_add b 1 < l"
  shows "new_gaps l h a b gs = concat (map (split_gap a b) gs)"
    and "sorted_wrt sep (new_gaps l h a b gs)"
    and "\<forall>g\<in>set (new_gaps l h a b gs). within l h g"
proof -
  let ?gs = "concat (map (split_gap a b) gs)"
  have proper: "\<forall>g\<in>set gs. fst g \<le> snd g" using gs(1) by (auto simp: within_def)
  have sorted: "sorted_wrt sep ?gs" using sorted_wrt_sep_split [OF gs(2) proper assms(3)] .
  have bnds: "\<forall>g\<in>set ?gs. within l h g"
  proof
    fix p assume "p \<in> set ?gs"
    then obtain g where g: "g \<in> set gs" and p: "p \<in> set (split_gap a b g)" by auto
    from g gs(1) have "within l h g" by blast
    with split_gap_inside [OF p _ assms(3)] show "within l h p" by (auto simp: within_def)
  qed
  have "open_gaps l h a b = []" using meet by (simp add: open_gaps_def)
  then show eq: "new_gaps l h a b gs = ?gs"
    using sort_sep [OF sorted] bnds by (simp add: new_gaps_def within_def)
  show "sorted_wrt sep (new_gaps l h a b gs)" and "\<forall>g\<in>set (new_gaps l h a b gs). within l h g"
    using sorted bnds by (simp_all add: eq)
qed

lemma within_mono: "within l h g \<Longrightarrow> l' \<le> l \<Longrightarrow> h \<le> h' \<Longrightarrow> within l' h' g"
  by (auto simp: within_def)

lemma new_gaps_wf:
  assumes "\<forall>g\<in>set gs. within l h g" and "sorted_wrt sep gs" and "l \<le> h" and "a \<le> b"
  shows "sorted_wrt sep (new_gaps l h a b gs)"
    and "\<forall>g\<in>set (new_gaps l h a b gs). within (min l a) (max h b) g"
proof -
  consider "saturating_add h 1 < a" | "saturating_add b 1 < l"
    | "\<not> saturating_add h 1 < a" "\<not> saturating_add b 1 < l" by blast
  then have "sorted_wrt sep (new_gaps l h a b gs)
      \<and> (\<forall>g\<in>set (new_gaps l h a b gs). within (min l a) (max h b) g)"
  proof cases
    case 1
    then show ?thesis using new_gaps_above [OF assms 1] by (auto intro: within_mono)
  next
    case 2
    then show ?thesis using new_gaps_below [OF assms 2] by (auto intro: within_mono)
  next
    case 3
    then show ?thesis
      using new_gaps_meet(2,3) [OF assms(1,2,4) 3] within_mono [of l h _ "min l a" "max h b"] by simp
  qed
  then show "sorted_wrt sep (new_gaps l h a b gs)"
    and "\<forall>g\<in>set (new_gaps l h a b gs). within (min l a) (max h b) g" by auto
qed

lemma in_open_gaps:
  "in_gaps z (open_gaps l h a b) =
     ((h < z \<and> z < a \<and> saturating_add h 1 < a) \<or> (b < z \<and> z < l \<and> saturating_add b 1 < l))"
  by (auto simp: open_gaps_def saturating_add1_less word_add1_le word_le_sub1_iff)

lemma new_gaps_points:
  assumes "\<forall>g\<in>set gs. within l h g" and "l \<le> h" and "a \<le> b"
  shows "(min l a \<le> z \<and> z \<le> max h b \<and> \<not> in_gaps z (new_gaps l h a b gs)) =
     ((l \<le> z \<and> z \<le> h \<and> \<not> in_gaps z gs) \<or> (a \<le> z \<and> z \<le> b))"
proof -
  have ing: "in_gaps z gs \<Longrightarrow> l \<le> z \<and> z \<le> h"
    using assms(1) by (auto simp: in_gaps_def within_def)
  have next_le: "saturating_add d 1 < c \<or> z \<le> d \<or> c \<le> z" for c d
  proof (rule ccontr)
    assume *: "\<not> ?thesis"
    then have "d + 1 \<le> z" "z < c" by (auto simp: word_add1_le not_le)
    with * show False by (auto simp: saturating_add1_less)
  qed
  show ?thesis
    using assms(2,3) ing next_le [of h a] next_le [of b l]
    by (auto simp: new_gaps_def in_gaps_split in_open_gaps min_le_iff_disj le_max_iff_disj)
qed

text \<open>
  Outside the domain floor the call is refused; otherwise it returns, with the union as new set,
  and reports whether anything was missing.
\<close>

lemma cover_refuses: "b < a \<or> a < cov_start c \<Longrightarrow> cover now a b c = Inl (Invalid ''coverage outside domain floor'')"
  by (simp add: cover_def)

lemma cover_union:
  assumes wf: "coverage_wf c" and "a \<le> b" and "cov_start c \<le> a"
  obtains c' where "cover now a b c = Inr (\<not> {a..b} \<subseteq> covered c, c')" and "coverage_wf c'"
    and "covered c' = covered c \<union> {a..b}" and "cov_start c' = cov_start c" and "cov_gen c' = cov_gen c"
    and "pruned_floor c' = pruned_floor c" and "{a..b} \<subseteq> covered c \<Longrightarrow> c' = c"
proof (cases "contains c a b")
  case True
  then have "{a..b} \<subseteq> covered c" using contains_iff_subset [OF wf \<open>a \<le> b\<close>] by simp
  with True wf assms(2,3) show ?thesis
    by (intro that [of c]) (auto simp: cover_def)
next
  case False
  then have new: "\<not> {a..b} \<subseteq> covered c" using contains_iff_subset [OF wf \<open>a \<le> b\<close>] by simp
  show ?thesis
  proof (cases "low c")
    case None
    with wf have h: "high c = None" "gaps c = []" by (auto simp: coverage_wf_iff)
    define c' where "c' = c\<lparr>low := Some a, high := Some b, updated_at := Some now\<rparr>"
    have "covered c = {}" using None by (auto simp: covered_def contains_def)
    moreover have "covered c' = {a..b}" using h by (auto simp: c'_def covered_bounds)
    moreover have "coverage_wf c'" using wf h assms(2) by (simp add: c'_def coverage_wf_iff)
    moreover have "cover now a b c = Inr (True, c')"
      using None h False assms(2,3) by (simp add: cover_def c'_def not_less)
    ultimately show ?thesis using new assms(2) by (intro that [of c']) (simp_all add: c'_def)
  next
    case (Some l)
    with wf obtain h where h: "high c = Some h" "l \<le> h"
      and gs: "\<forall>g\<in>set (gaps c). within l h g" "sorted_wrt sep (gaps c)"
      by (auto simp: coverage_wf_iff)
    define c' where "c' = c\<lparr>gaps := new_gaps l h a b (gaps c), low := Some (min l a),
       high := Some (max h b), updated_at := Some now\<rparr>"
    have "covered c' = {z. min l a \<le> z \<and> z \<le> max h b \<and> \<not> in_gaps z (new_gaps l h a b (gaps c))}"
      using covered_bounds [of c' "min l a" "max h b"] by (simp add: c'_def)
    then have "covered c' = covered c \<union> {a..b}"
      unfolding covered_bounds [OF Some h(1)] new_gaps_points [OF gs(1) h(2) \<open>a \<le> b\<close>]
      by (simp add: set_eq_iff)
    moreover have "coverage_wf c'"
      using wf new_gaps_wf [OF gs h(2) \<open>a \<le> b\<close>] h(2) by (auto simp: c'_def coverage_wf_iff min_le_iff_disj le_max_iff_disj)
    moreover have "cover now a b c = Inr (True, c')"
      using Some h False assms(2,3) by (simp add: cover_def c'_def new_gaps_def not_less)
    ultimately show ?thesis using new by (intro that [of c']) (simp_all add: c'_def)
  qed
qed

text \<open>A well-formed coverage is determined by its set, so the representation is canonical.\<close>

lemma covered_low_high:
  assumes "coverage_wf c" and "low c = Some l" and "high c = Some h"
  shows "l \<in> covered c" and "h \<in> covered c" and "\<forall>z\<in>covered c. l \<le> z \<and> z \<le> h"
  using assms by (auto simp: coverage_wf_iff covered_bounds in_gaps_def within_def)

definition gap_list :: "(u64 \<times> u64) list \<Rightarrow> bool" where
  "gap_list gs \<longleftrightarrow> sorted_wrt sep gs \<and> (\<forall>g\<in>set gs. fst g \<le> snd g)"

lemma gap_list_Cons: "gap_list (g # gs) = (gap_list gs \<and> fst g \<le> snd g \<and> (\<forall>q\<in>set gs. sep g q))"
  by (auto simp: gap_list_def)

lemma in_gaps_Cons: "in_gaps z (g # gs) = (fst g \<le> z \<and> z \<le> snd g \<or> in_gaps z gs)"
  by (cases g) simp

lemma in_gaps_after_hd: "gap_list (g # gs) \<Longrightarrow> in_gaps z gs \<Longrightarrow> sep g (z, z)"
  by (auto simp: in_gaps_def gap_list_Cons intro: sep_inside)

lemma in_gaps_tl: "gap_list (g # gs) \<Longrightarrow> in_gaps z gs = (in_gaps z (g # gs) \<and> snd g < z)"
  using sep_less [OF in_gaps_after_hd, of g gs z] by (auto simp: in_gaps_Cons simp del: split_paired_All)

lemma in_gaps_hd_le:
  assumes "gap_list (g # gs)" and "in_gaps z (g # gs)"
  shows "fst g \<le> z"
proof (cases "in_gaps z gs")
  case True
  then have "snd g < z" using in_gaps_tl [OF assms(1)] by blast
  then show ?thesis using assms(1) by (auto simp: gap_list_Cons)
next
  case False
  with assms(2) show ?thesis by (simp add: in_gaps_Cons)
qed

lemma in_gaps_hd_end:
  assumes "gap_list (g # gs)" and "fst g' = fst g"
    and sub: "\<And>z. in_gaps z (g' # gs') \<Longrightarrow> in_gaps z (g # gs)"
  shows "snd g' \<le> snd g"
proof (rule ccontr)
  assume "\<not> snd g' \<le> snd g"
  then have lt: "snd g < snd g'" by simp
  note succ = word_less_succ [OF lt]
  have "fst g' \<le> snd g + 1" "snd g + 1 \<le> snd g'"
    using assms(1,2) succ lt by (auto simp: word_add1_le gap_list_Cons)
  then have "in_gaps (snd g + 1) (g # gs)" by (intro sub) (simp add: in_gaps_Cons)
  then have "in_gaps (snd g + 1) gs" using in_gaps_tl [OF assms(1)] succ by blast
  then show False using in_gaps_after_hd [OF assms(1)] by (auto simp: sep_def saturating_add1_less)
qed

lemma gap_list_unique:
  assumes "gap_list gs" and "gap_list gs'" and "\<And>z. in_gaps z gs = in_gaps z gs'"
  shows "gs = gs'"
  using assms
proof (induction gs arbitrary: gs')
  case Nil
  then show ?case by (cases gs') (auto simp: in_gaps_Cons gap_list_Cons)
next
  case (Cons g gs)
  have hd_in: "in_gaps (fst k) (k # ks)" if "gap_list (k # ks)" for k ks
    using that by (simp add: in_gaps_Cons gap_list_Cons)
  with Cons.prems(1,3) obtain g' gs'' where gs': "gs' = g' # gs''" by (cases gs') fastforce+
  note gl = Cons.prems(1) Cons.prems(2) [unfolded gs'] and eq = Cons.prems(3) [unfolded gs']
  have fst: "fst g' = fst g"
    using in_gaps_hd_le [OF gl(1)] in_gaps_hd_le [OF gl(2)] hd_in [OF gl(1)] hd_in [OF gl(2)] eq
    by (intro antisym) auto
  have snd: "snd g' = snd g"
    using in_gaps_hd_end [OF gl(1) fst, of gs''] in_gaps_hd_end [OF gl(2) fst [symmetric], of gs] eq
    by (intro antisym) auto
  have "in_gaps z gs = in_gaps z gs''" for z
    using in_gaps_tl [OF gl(1)] in_gaps_tl [OF gl(2)] eq snd by simp
  then have "gs = gs''" using Cons.IH [of gs''] gl by (simp add: gap_list_Cons)
  then show ?case using gs' fst snd by (simp add: prod_eq_iff)
qed

lemma covered_determines:
  assumes "coverage_wf c" and "coverage_wf c'" and "covered c = covered c'"
  shows "low c = low c' \<and> high c = high c' \<and> gaps c = gaps c'"
proof (cases "low c")
  case None
  then have "covered c' = {}" using assms(3) by (auto simp: covered_def contains_def)
  then have "low c' = None"
    using covered_low_high(1) [OF assms(2)] assms(2) by (cases "low c'") (auto simp: coverage_wf_iff)
  with None assms show ?thesis by (auto simp: coverage_wf_iff)
next
  case (Some l)
  with assms(1) obtain h where h: "high c = Some h" by (auto simp: coverage_wf_iff)
  note b = covered_low_high [OF assms(1) Some h]
  obtain l' h' where l': "low c' = Some l'" "high c' = Some h'"
    using b(1) unfolding assms(3) by (auto simp: covered_def contains_def split: option.splits)
  note b' = covered_low_high [OF assms(2) l']
  have lh: "l' = l" "h' = h" using b b' assms(3) by (auto intro: antisym)
  have gl: "gap_list (gaps c)" "gap_list (gaps c')"
    and w: "\<forall>g\<in>set (gaps c). within l h g" "\<forall>g\<in>set (gaps c'). within l h g"
    using assms(1,2) Some h l' lh by (auto simp: coverage_wf_iff gap_list_def within_def)
  have "in_gaps z (gaps c) = in_gaps z (gaps c')" for z
  proof -
    have "in_gaps z (gaps c) \<or> in_gaps z (gaps c') \<Longrightarrow> l \<le> z \<and> z \<le> h"
      using w by (auto simp: in_gaps_def within_def)
    moreover have "z \<in> covered c \<longleftrightarrow> z \<in> covered c'" using assms(3) by simp
    ultimately show ?thesis
      unfolding covered_bounds [OF Some h] covered_bounds [OF l'] lh by blast
  qed
  then have "gaps c = gaps c'" by (rule gap_list_unique [OF gl])
  with Some h l' lh show ?thesis by simp
qed

section \<open>The interface the planner and the transactions rely on\<close>

text \<open>
  An index of heights: adding a range at or above the floor succeeds, is union on the set of
  points, reports whether a point was missing, and keeps the invariant and the frame.
\<close>

locale interval_index =
  fixes inv :: "'s \<Rightarrow> bool"
    and points :: "'s \<Rightarrow> u64 set"
    and frame :: "'s \<Rightarrow> 'f"
    and base :: "'f \<Rightarrow> u64"
    and add :: "u64 \<Rightarrow> u64 \<Rightarrow> 's \<Rightarrow> 'e + (bool \<times> 's)"
  assumes add_union: "inv s \<Longrightarrow> a \<le> b \<Longrightarrow> base (frame s) \<le> a \<Longrightarrow>
      \<exists>s'. add a b s = Inr (\<not> {a..b} \<subseteq> points s, s') \<and> inv s' \<and> points s' = points s \<union> {a..b} \<and> frame s' = frame s"
begin

definition add_range :: "u64 \<times> u64 \<Rightarrow> 's \<Rightarrow> 'e + 's" where
  "add_range r s = rbind (add (fst r) (snd r) s) (\<lambda>(_, s'). Inr s')"

definition addable :: "'s \<Rightarrow> (u64 \<times> u64) list \<Rightarrow> bool" where
  "addable s rs \<longleftrightarrow> (\<forall>r\<in>set rs. fst r \<le> snd r \<and> base (frame s) \<le> fst r)"

definition span :: "(u64 \<times> u64) list \<Rightarrow> u64 set" where
  "span rs = (\<Union>r\<in>set rs. {fst r..snd r})"

lemma add_range_union:
  assumes "inv s" and "fst r \<le> snd r" and "base (frame s) \<le> fst r"
  obtains s' where "add_range r s = Inr s'" and "inv s'" and "frame s' = frame s"
    and "points s' = points s \<union> {fst r..snd r}"
  using add_union [OF assms] by (auto simp: add_range_def)

lemma add_all_union:
  assumes "inv s" and "addable s rs"
  shows "\<exists>s'. rfold add_range rs s = Inr s' \<and> inv s' \<and> frame s' = frame s \<and> points s' = points s \<union> span rs"
  using assms
proof (induction rs arbitrary: s)
  case Nil
  then show ?case by (simp add: span_def)
next
  case (Cons r rs)
  obtain s' where s': "add_range r s = Inr s'" "inv s'" "frame s' = frame s"
    "points s' = points s \<union> {fst r..snd r}"
    using add_range_union [OF Cons.prems(1), of r] Cons.prems(2) by (auto simp: addable_def)
  have "addable s' rs" using Cons.prems s' by (simp add: addable_def)
  from Cons.IH [OF s'(2) this] obtain s'' where s'': "rfold add_range rs s' = Inr s''" "inv s''"
    "frame s'' = frame s'" "points s'' = points s' \<union> span rs" by blast
  have "points s'' = points s \<union> span (r # rs)" unfolding s''(4) s'(4) span_def by auto
  with s' s'' show ?case by simp
qed

text \<open>The order in which ranges are added does not matter for the set of points.\<close>

lemma add_all_order:
  assumes "inv s" and "addable s rs" and "set rs = set rs'"
  shows "\<exists>t t'. rfold add_range rs s = Inr t \<and> rfold add_range rs' s = Inr t' \<and> points t = points t'"
proof -
  have rs': "addable s rs'" and span: "span rs = span rs'"
    using assms(2,3) by (simp_all add: addable_def span_def)
  from add_all_union [OF assms(1,2)] add_all_union [OF assms(1) rs'] span
  show ?thesis by (elim exE conjE) simp
qed

end

interpretation cov: interval_index coverage_wf covered
  "\<lambda>c. (cov_start c, cov_gen c, pruned_floor c)" fst "cover now" for now
proof
  fix c :: coverage and a b :: u64
  assume c: "coverage_wf c" "a \<le> b" "fst (cov_start c, cov_gen c, pruned_floor c) \<le> a"
  then obtain c' where "cover now a b c = Inr (\<not> {a..b} \<subseteq> covered c, c')" "coverage_wf c'"
    "covered c' = covered c \<union> {a..b}" "cov_start c' = cov_start c" "cov_gen c' = cov_gen c"
    "pruned_floor c' = pruned_floor c"
    using cover_union [of c a b now] by (metis fst_conv)
  then show "\<exists>c'. cover now a b c = Inr (\<not> {a..b} \<subseteq> covered c, c') \<and> coverage_wf c'
      \<and> covered c' = covered c \<union> {a..b}
      \<and> (cov_start c', cov_gen c', pruned_floor c') = (cov_start c, cov_gen c, pruned_floor c)"
    by (intro exI [of _ c']) simp
qed

section \<open>Properties\<close>

text \<open>
  C30. On a coverage the loader accepts, covering a range at or above the domain's start succeeds; the
  completed heights become the union with the range, the result is again one the loader accepts, the
  call reports whether a height was missing, and start, generation and pruning floor stay.
\<close>

theorem cover_adds_interval:
  assumes "coverage_wf c" and "a \<le> b" and "cov_start c \<le> a"
  shows "\<exists>c'. cover now a b c = Inr (\<not> {a..b} \<subseteq> covered c, c') \<and> coverage_wf c'
    \<and> covered c' = covered c \<union> {a..b} \<and> cov_start c' = cov_start c \<and> cov_gen c' = cov_gen c
    \<and> pruned_floor c' = pruned_floor c"
  using cov.add_union [OF assms(1,2), of now] assms(3) by auto

definition sample_coverage :: coverage where
  "sample_coverage = (coverage_empty 1 5)\<lparr>low := Some 10, high := Some 20, gaps := [(13, 15), (17, 18)]\<rparr>"

lemma sample_coverage_wf: "coverage_wf sample_coverage"
  by (simp add: coverage_wf_def check_coverage_def sample_coverage_def coverage_empty_def saturating_add_def)

text \<open>C30, on a range that closes one gap, cuts another and extends the top.\<close>

theorem cover_adds_interval_witness:
  "\<exists>c'. cover ''t'' 14 30 sample_coverage = Inr (\<not> {14..30} \<subseteq> covered sample_coverage, c') \<and> coverage_wf c'
    \<and> covered c' = covered sample_coverage \<union> {14..30} \<and> cov_start c' = 5"
  using cover_adds_interval [OF sample_coverage_wf, of 14 30 "''t''"]
  by (auto simp: sample_coverage_def coverage_empty_def)

text \<open>
  The representation is canonical: two coverages the loader accepts that complete the same
  heights have the same bounds and the same list of gaps, so that the order in which work was
  committed leaves no trace in them.
\<close>

theorem coverage_canonical:
  assumes "coverage_wf c" and "coverage_wf c'"
  shows "(covered c = covered c') = (low c = low c' \<and> high c = high c' \<and> gaps c = gaps c')"
  using covered_determines [OF assms] by (auto simp: covered_def contains_def)

text \<open>On two heights covered in both orders.\<close>

theorem coverage_canonical_witness:
  "\<exists>c c'. rbind (cover ''t'' 7 7 sample_coverage) (\<lambda>(_, d). cover ''t'' 14 14 d) = Inr (True, c)
     \<and> rbind (cover ''t'' 14 14 sample_coverage) (\<lambda>(_, d). cover ''t'' 7 7 d) = Inr (True, c')
     \<and> coverage_wf c \<and> coverage_wf c' \<and> covered c = covered c'"
proof -
  let ?c = "sample_coverage\<lparr>low := Some 7, gaps := [(8, 9), (13, 13), (15, 15), (17, 18)], updated_at := Some ''t''\<rparr>"
  have e: "rbind (cover ''t'' 7 7 sample_coverage) (\<lambda>(_, d). cover ''t'' 14 14 d) = Inr (True, ?c)"
    "rbind (cover ''t'' 14 14 sample_coverage) (\<lambda>(_, d). cover ''t'' 7 7 d) = Inr (True, ?c)"
    by (simp_all add: cover_def sample_coverage_def coverage_empty_def contains_def open_gaps_def
        split_gap_def saturating_add_def)
  have wf: "coverage_wf ?c"
    by (simp add: coverage_wf_def check_coverage_def sample_coverage_def coverage_empty_def saturating_add_def)
  show ?thesis using e wf coverage_canonical [OF wf wf] by blast
qed

end
