(* ===== verification/Planning.thy ===== *)
theory Planning
  imports Coverage
begin

text \<open>
  Interval planning of the indexer (\<open>quip-dashboard/src/indexer/coverage.rs\<close>): the heights still
  to be processed up to a finalized head, and the subtraction of failed heights from a proven range.
\<close>

definition plan_start :: "coverage \<Rightarrow> u64 option" where
  "plan_start c = (case pruned_floor c of
       None \<Rightarrow> Some (cov_start c)
     | Some f \<Rightarrow> if f = max_word then None else Some (max (cov_start c) (f + 1)))"

definition uncovered :: "coverage \<Rightarrow> u64 \<Rightarrow> (u64 \<times> u64) list" where
  "uncovered c head = (case plan_start c of
       None \<Rightarrow> []
     | Some s \<Rightarrow>
         if head < s then []
         else case (low c, high c) of
           (Some l, Some h) \<Rightarrow>
             (if s < l then [(s, min head (l - 1))] else [])
             @ concat (map (\<lambda>(a, b). let a = max a s; b = min b head in if a \<le> b then [(a, b)] else []) (gaps c))
             @ (case checked_add h 1 of
                  None \<Rightarrow> []
                | Some tail \<Rightarrow> let tail = max tail s in if tail \<le> head then [(tail, head)] else [])
         | _ \<Rightarrow> [(s, head)])"

text \<open>
  The loop of \<open>subtract_points\<close> over the sorted points without duplicates; \<open>None\<close> as cursor ends it.
\<close>

fun subtract_loop :: "u64 \<Rightarrow> u64 option \<Rightarrow> u64 list \<Rightarrow> (u64 \<times> u64) list \<times> u64 option" where
  "subtract_loop t cur [] = ([], cur)"
| "subtract_loop t None (p # ps) = ([], None)"
| "subtract_loop t (Some s) (p # ps) =
     (if p < s \<or> t < p then subtract_loop t (Some s) ps
      else (let (rest, cur) = subtract_loop t (checked_add p 1) ps
            in ((if s < p then [(s, p - 1)] else []) @ rest, cur)))"

definition subtract_points :: "u64 \<times> u64 \<Rightarrow> u64 list \<Rightarrow> (u64 \<times> u64) list" where
  "subtract_points r points = (case r of (f, t) \<Rightarrow>
     if t < f then []
     else (let (rs, cur) = subtract_loop t (Some f) (remdups_adj (sort points))
           in rs @ (case cur of Some s \<Rightarrow> if s \<le> t then [(s, t)] else [] | None \<Rightarrow> [])))"

section \<open>\<open>uncovered\<close> is the complement\<close>

text \<open>The heights that are planned: at or above the domain's start, above the pruning floor, up to the head.\<close>

definition eligible :: "coverage \<Rightarrow> u64 \<Rightarrow> u64 set" where
  "eligible c head = {z. cov_start c \<le> z \<and> (\<forall>f. pruned_floor c = Some f \<longrightarrow> f < z) \<and> z \<le> head}"

definition apart :: "(u64 \<times> u64) list \<Rightarrow> bool" where
  "apart rs \<longleftrightarrow> sorted_wrt (\<lambda>p q. snd p < fst q) rs \<and> (\<forall>r\<in>set rs. fst r \<le> snd r)"

lemma eligible_start:
  "eligible c head = (case plan_start c of None \<Rightarrow> {} | Some s \<Rightarrow> {s..head})"
proof (cases "pruned_floor c")
  case None
  then show ?thesis by (auto simp: eligible_def plan_start_def)
next
  case (Some f)
  show ?thesis
  proof (cases "f = max_word")
    case True
    then show ?thesis using Some by (auto simp: eligible_def plan_start_def)
  next
    case False
    then have "f < max_word" by (simp add: order.strict_iff_order)
    then show ?thesis using Some False
      by (auto simp: eligible_def plan_start_def word_add1_le)
  qed
qed

definition clip :: "u64 \<Rightarrow> u64 \<Rightarrow> u64 \<times> u64 \<Rightarrow> (u64 \<times> u64) list" where
  "clip s head g = (case g of (a, b) \<Rightarrow> if max a s \<le> min b head then [(max a s, min b head)] else [])"

definition tail_range :: "u64 \<Rightarrow> u64 \<Rightarrow> u64 \<Rightarrow> (u64 \<times> u64) list" where
  "tail_range h s head = (if h < max_word \<and> max (h + 1) s \<le> head then [(max (h + 1) s, head)] else [])"

lemma uncovered_bounds:
  assumes "plan_start c = Some s" and "s \<le> head" and "low c = Some l" and "high c = Some h"
  shows "uncovered c head = (if s < l then [(s, min head (l - 1))] else [])
     @ concat (map (clip s head) (gaps c)) @ tail_range h s head"
proof -
  have "(case checked_add h 1 of None \<Rightarrow> []
           | Some tail \<Rightarrow> let tail = max tail s in if tail \<le> head then [(tail, head)] else [])
      = tail_range h s head"
    using checked_add1_Some [of h] checked_add1_None [of h]
    by (auto simp: tail_range_def Let_def order.strict_iff_order split: option.splits)
  moreover have "(\<lambda>(a, b). let a = max a s; b = min b head in if a \<le> b then [(a, b)] else []) = clip s head"
    by (auto simp: fun_eq_iff clip_def Let_def)
  ultimately show ?thesis
    using leD [OF assms(2)] unfolding uncovered_def assms(1,3,4) by simp
qed

lemma in_gaps_clip: "in_gaps z (clip s head (a, b)) = (s \<le> z \<and> z \<le> head \<and> a \<le> z \<and> z \<le> b)"
  by (auto simp: clip_def)

lemma in_gaps_clips: "in_gaps z (concat (map (clip s head) gs)) = (s \<le> z \<and> z \<le> head \<and> in_gaps z gs)"
  by (induction gs) (auto simp: in_gaps_clip)

lemma in_tail_range: "s \<le> head \<Longrightarrow> in_gaps z (tail_range h s head) = (h < z \<and> s \<le> z \<and> z \<le> head)"
proof -
  have "h < z \<Longrightarrow> h < max_word" by (meson le_max_word order.strict_trans2)
  then show ?thesis by (auto simp: tail_range_def word_add1_le)
qed

lemma uncovered_points:
  assumes "coverage_wf c"
  shows "in_gaps z (uncovered c head) = (z \<in> eligible c head \<and> z \<notin> covered c)"
proof (cases "plan_start c")
  case None
  then show ?thesis by (simp add: eligible_start uncovered_def)
next
  case (Some s)
  show ?thesis
  proof (cases "s \<le> head")
    case False
    then show ?thesis using Some by (auto simp: eligible_start uncovered_def)
  next
    case True
    show ?thesis
    proof (cases "low c")
      case None
      then have "covered c = {}" by (auto simp: covered_def contains_def)
      then show ?thesis using Some None True by (auto simp: eligible_start uncovered_def)
    next
      case (Some l)
      then obtain h where h: "high c = Some h" "l \<le> h" and gs: "\<forall>g\<in>set (gaps c). within l h g"
        using assms by (auto simp: coverage_wf_iff)
      have ing: "in_gaps z (gaps c) \<Longrightarrow> l \<le> z \<and> z \<le> h"
        using gs by (auto simp: in_gaps_def within_def)
      show ?thesis
        using ing h(2)
        by (auto simp: uncovered_bounds [OF \<open>plan_start c = Some s\<close> True Some h(1)] in_gaps_clips
            in_tail_range [OF True] covered_bounds [OF Some h(1)] eligible_start
            \<open>plan_start c = Some s\<close> word_le_sub1_iff not_le)
    qed
  qed
qed

lemma apart_append:
  "apart (xs @ ys) = (apart xs \<and> apart ys \<and> (\<forall>p\<in>set xs. \<forall>q\<in>set ys. snd p < fst q))"
  by (auto simp: apart_def sorted_wrt_append)

lemma apart_simps [simp]: "apart []" "apart [r] = (fst r \<le> snd r)"
  by (simp_all add: apart_def)

lemma clip_inside:
  assumes "p \<in> set (clip s head g)"
  shows "fst g \<le> fst p" and "s \<le> fst p" and "fst p \<le> snd p" and "snd p \<le> snd g" and "snd p \<le> head"
  using assms by (auto simp: clip_def split: prod.splits if_splits)

lemma apart_clips:
  assumes "sorted_wrt sep gs"
  shows "apart (concat (map (clip s head) gs))"
  using assms
proof (induction gs)
  case (Cons g gs)
  have "snd p < fst q" if "p \<in> set (clip s head g)" "r \<in> set gs" "q \<in> set (clip s head r)" for p q r
  proof -
    have "snd g < fst r" using Cons.prems that by (auto intro: sep_less)
    then show ?thesis using clip_inside(4) [OF that(1)] clip_inside(1) [OF that(3)] by simp
  qed
  moreover have "apart (clip s head g)" by (auto simp: clip_def split: prod.splits)
  ultimately show ?case using Cons by (auto simp: apart_append)
qed simp

lemma uncovered_apart:
  assumes "coverage_wf c"
  shows "apart (uncovered c head)"
proof (cases "plan_start c")
  case None
  then show ?thesis by (simp add: uncovered_def)
next
  case (Some s)
  note ps = this
  show ?thesis
  proof (cases "s \<le> head \<and> low c \<noteq> None")
    case False
    then show ?thesis using Some by (auto simp: uncovered_def not_le)
  next
    case True
    then obtain l where s: "s \<le> head" and l: "low c = Some l" by auto
    then obtain h where h: "high c = Some h" "l \<le> h" and gs: "\<forall>g\<in>set (gaps c). within l h g"
      and sorted: "sorted_wrt sep (gaps c)"
      using assms by (auto simp: coverage_wf_iff)
    let ?first = "if s < l then [(s, min head (l - 1))] else []"
    let ?mid = "concat (map (clip s head) (gaps c))"
    have mid: "l < fst p \<and> snd p < h" if "p \<in> set ?mid" for p
    proof -
      obtain g where g: "g \<in> set (gaps c)" "p \<in> set (clip s head g)" using \<open>p \<in> set ?mid\<close> by auto
      then show ?thesis using gs clip_inside(1,4) [OF g(2)] by (force simp: within_def)
    qed
    have first: "apart ?first" "\<forall>p\<in>set ?first. snd p < l"
      using s by (auto simp: word_le_sub1_iff intro: min.strict_coboundedI2 word_pred_less)
    have tail: "apart (tail_range h s head)" "\<forall>q\<in>set (tail_range h s head). h < fst q"
      by (auto simp: tail_range_def less_max_iff_disj intro: word_less_succ)
    have "apart (?first @ ?mid @ tail_range h s head)"
      unfolding apart_append using first tail apart_clips [OF sorted] mid h(2) by fastforce
    then show ?thesis using uncovered_bounds [OF ps s l h(1)] by simp
  qed
qed

section \<open>\<open>subtract_points\<close> is set difference\<close>

definition close_range :: "u64 \<Rightarrow> u64 option \<Rightarrow> (u64 \<times> u64) list" where
  "close_range t cur = (case cur of Some s \<Rightarrow> if s \<le> t then [(s, t)] else [] | None \<Rightarrow> [])"

lemma subtract_loop_None: "subtract_loop t None ps = ([], None)"
  by (cases ps) simp_all

lemma subtract_loop_points:
  assumes "sorted ps" and "subtract_loop t (Some s) ps = (rs, cur)"
  shows "in_gaps z (rs @ close_range t cur) = (s \<le> z \<and> z \<le> t \<and> z \<notin> set ps)"
  using assms
proof (induction ps arbitrary: s rs cur)
  case Nil
  then show ?case by (auto simp: close_range_def split: if_splits)
next
  case (Cons p ps)
  show ?case
  proof (cases "p < s \<or> t < p")
    case True
    with Cons show ?thesis by (auto simp: not_le)
  next
    case False
    obtain rs' where rs': "subtract_loop t (checked_add p 1) ps = (rs', cur)"
      and rs: "rs = (if s < p then [(s, p - 1)] else []) @ rs'"
      using Cons.prems False by (auto split: prod.splits)
    have ge: "\<forall>q\<in>set ps. p \<le> q" using Cons.prems by simp
    have "in_gaps z (rs' @ close_range t cur) = (p < z \<and> z \<le> t \<and> z \<notin> set ps)"
    proof (cases "checked_add p 1")
      case None
      then have "p = max_word" by (simp add: checked_add1_None)
      with None rs' show ?thesis by (auto simp: subtract_loop_None close_range_def)
    next
      case (Some q)
      then have q: "q = p + 1" "p < max_word" by (simp_all add: checked_add1_Some)
      show ?thesis
        using Cons.IH [of q rs' cur] Cons.prems rs' Some q by (auto simp: word_add1_le)
    qed
    then show ?thesis using rs False ge
      by (auto simp: word_le_sub1_iff not_less)
  qed
qed

lemma subtract_loop_apart:
  assumes "subtract_loop t (Some s) ps = (rs, cur)"
  shows "apart (rs @ close_range t cur) \<and> (\<forall>r\<in>set (rs @ close_range t cur). s \<le> fst r \<and> snd r \<le> t)"
  using assms
proof (induction ps arbitrary: s rs cur)
  case Nil
  then show ?case by (auto simp: close_range_def)
next
  case (Cons p ps)
  show ?case
  proof (cases "p < s \<or> t < p")
    case True
    with Cons show ?thesis by auto
  next
    case False
    obtain rs' where rs': "subtract_loop t (checked_add p 1) ps = (rs', cur)"
      and rs: "rs = (if s < p then [(s, p - 1)] else []) @ rs'"
      using Cons.prems False by (auto split: prod.splits)
    have rest: "apart (rs' @ close_range t cur) \<and> (\<forall>r\<in>set (rs' @ close_range t cur). p < fst r \<and> snd r \<le> t)"
    proof (cases "checked_add p 1")
      case None
      with rs' show ?thesis by (auto simp: subtract_loop_None close_range_def)
    next
      case (Some q)
      then have q: "q = p + 1" "p < max_word" by (simp_all add: checked_add1_Some)
      show ?thesis using Cons.IH [of q rs' cur] rs' Some q by (auto simp: word_add1_le)
    qed
    show ?thesis
    proof (cases "s < p")
      case True
      then have p: "p - 1 < p" "s \<le> p - 1" by (simp_all add: word_pred_less word_le_sub1_iff)
      have "p - 1 < fst r \<and> s \<le> fst r \<and> snd r \<le> t" if "r \<in> set (rs' @ close_range t cur)" for r
        using rest p that by (meson less_imp_le order.strict_trans1 order.strict_trans2)
      then show ?thesis
        using rest p True \<open>\<not> (p < s \<or> t < p)\<close>
          apart_append [of "[(s, p - 1)]" "rs' @ close_range t cur"] unfolding rs by force
    next
      case False
      then have "rs = rs'" and "s = p" using rs \<open>\<not> (p < s \<or> t < p)\<close> by auto
      with rest \<open>\<not> (p < s \<or> t < p)\<close> show ?thesis by (simp add: less_imp_le)
    qed
  qed
qed

lemma subtract_points_exact:
  "in_gaps z (subtract_points (f, t) ps) = (f \<le> z \<and> z \<le> t \<and> z \<notin> set ps)"
  "apart (subtract_points (f, t) ps)"
proof -
  obtain rs cur where l: "subtract_loop t (Some f) (remdups_adj (sort ps)) = (rs, cur)"
    by (cases "subtract_loop t (Some f) (remdups_adj (sort ps))")
  have eq: "subtract_points (f, t) ps = (if t < f then [] else rs @ close_range t cur)"
    using l by (simp add: subtract_points_def close_range_def)
  have "sorted (remdups_adj (sort ps))" by simp
  from subtract_loop_points [OF this l, of z]
  show "in_gaps z (subtract_points (f, t) ps) = (f \<le> z \<and> z \<le> t \<and> z \<notin> set ps)"
    by (auto simp: eq)
  show "apart (subtract_points (f, t) ps)"
    using subtract_loop_apart [OF l] by (simp add: eq)
qed

section \<open>Properties\<close>

text \<open>
  C33. The planned intervals are exactly the heights from the domain's start, above the pruning floor
  and up to the head that are not completed; they are nonempty, ascending and disjoint.
\<close>

theorem uncovered_is_complement:
  assumes "coverage_wf c"
  shows "(\<Union>r\<in>set (uncovered c head). {fst r..snd r}) = eligible c head - covered c \<and> apart (uncovered c head)"
  unfolding union_in_gaps using uncovered_points [OF assms] uncovered_apart [OF assms] by auto

text \<open>C33, on a coverage with two gaps and a pruning floor inside the first.\<close>

theorem uncovered_is_complement_witness:
  "uncovered (sample_coverage\<lparr>pruned_floor := Some 13\<rparr>) 25 = [(14, 15), (17, 18), (21, 25)]
   \<and> (\<Union>r\<in>set (uncovered (sample_coverage\<lparr>pruned_floor := Some 13\<rparr>) 25). {fst r..snd r})
      = eligible (sample_coverage\<lparr>pruned_floor := Some 13\<rparr>) 25 - covered (sample_coverage\<lparr>pruned_floor := Some 13\<rparr>)"
proof -
  have "coverage_wf (sample_coverage\<lparr>pruned_floor := Some 13\<rparr>)"
    by (simp add: coverage_wf_def check_coverage_def sample_coverage_def coverage_empty_def saturating_add_def)
  moreover have "uncovered (sample_coverage\<lparr>pruned_floor := Some 13\<rparr>) 25 = [(14, 15), (17, 18), (21, 25)]"
    by (simp add: uncovered_def plan_start_def sample_coverage_def coverage_empty_def max_word_def checked_add_def)
  ultimately show ?thesis using uncovered_is_complement by blast
qed

text \<open>Completing a list of ranges one after another, as the backfill does.\<close>

definition cover_all :: "string \<Rightarrow> (u64 \<times> u64) list \<Rightarrow> coverage \<Rightarrow> store_error + coverage" where
  "cover_all now rs c = rfold (\<lambda>r c. rbind (cover now (fst r) (snd r) c) (\<lambda>(_, c'). Inr c')) rs c"

lemma cover_all_add: "cover_all now = rfold (cov.add_range now)"
  by (simp add: cover_all_def fun_eq_iff cov.add_range_def [abs_def])

lemma span_in_gaps: "cov.span rs = {z. in_gaps z rs}"
  by (simp add: cov.span_def union_in_gaps)

text \<open>
  Completing every planned interval, in any order, leaves nothing planned up to the same head and
  adds exactly the eligible heights.
\<close>

theorem covering_plan_completes:
  assumes "coverage_wf c" and "set rs = set (uncovered c head)"
  shows "\<exists>c'. cover_all now rs c = Inr c' \<and> coverage_wf c' \<and> covered c' = covered c \<union> eligible c head
     \<and> uncovered c' head = []"
proof -
  have start: "cov_start c \<le> fst r \<and> fst r \<le> snd r" if "r \<in> set rs" for r
  proof -
    have r: "r \<in> set (uncovered c head)" "fst r \<le> snd r"
      using that assms(2) uncovered_apart [OF assms(1)] by (auto simp: apart_def)
    then have "in_gaps (fst r) (uncovered c head)" by (auto simp: in_gaps_iff)
    then show ?thesis using r(2) uncovered_points [OF assms(1)] by (auto simp: eligible_def)
  qed
  then have "cov.addable c rs" by (simp add: cov.addable_def)
  with cov.add_all_union [OF assms(1), of rs now] obtain c' where c': "cover_all now rs c = Inr c'" "coverage_wf c'"
    "cov_start c' = cov_start c" "pruned_floor c' = pruned_floor c" "covered c' = covered c \<union> {z. in_gaps z rs}"
    by (auto simp: cover_all_add span_in_gaps)
  have "{z. in_gaps z rs} = eligible c head - covered c"
    using uncovered_points [OF assms(1)] assms(2) by (auto simp: in_gaps_iff)
  then have cov': "covered c' = covered c \<union> eligible c head" using c'(5) by blast
  have "eligible c' head = eligible c head" using c'(3,4) by (simp add: eligible_def)
  then have "\<not> in_gaps z (uncovered c' head)" for z
    using uncovered_points [OF c'(2)] cov' by auto
  moreover have "in_gaps (fst r) (uncovered c' head)" if "r \<in> set (uncovered c' head)" for r
    using that uncovered_apart [OF c'(2)] by (auto simp: in_gaps_iff apart_def)
  ultimately have "uncovered c' head = []" by (cases "uncovered c' head") fastforce+
  with c' cov' show ?thesis by blast
qed

text \<open>On the sample with its three planned intervals in descending order.\<close>

theorem covering_plan_completes_witness:
  "\<exists>c'. cover_all ''t'' [(21, 25), (17, 18), (13, 15), (5, 9)] sample_coverage = Inr c' \<and> uncovered c' 25 = []"
proof -
  have "set [(21, 25), (17, 18), (13, 15), (5, 9)] = set (uncovered sample_coverage 25)"
    by (auto simp: uncovered_def plan_start_def sample_coverage_def coverage_empty_def max_word_def checked_add_def)
  then show ?thesis using covering_plan_completes [OF sample_coverage_wf] by blast
qed

text \<open>
  Subtracting failed heights from a proven range leaves nonempty, ascending, disjoint intervals
  whose heights are those of the range that did not fail, whatever the order and repetition of the
  failures; no interval is left of a reversed range.
\<close>

theorem subtract_points_difference:
  "(\<Union>r\<in>set (subtract_points (f, t) failed). {fst r..snd r}) = {f..t} - set failed
     \<and> apart (subtract_points (f, t) failed)"
  unfolding union_in_gaps using subtract_points_exact by auto

end
