(* ===== verification/Writer.thy ===== *)
theory Writer
  imports Prelude
begin

text \<open>
  The store's single writer (\<open>dashboard-store/src/store.rs\<close>, \<open>backend.rs\<close>): a connection behind a mutex, a
  flag that arms a rollback, and the \<open>Write\<close> object of a transaction. Every statement is a future
  that may succeed, fail or be dropped, and a statement that failed or was dropped may or may not
  have reached the engine. The transactions of the store are atomic because of this protocol.
\<close>

section \<open>The connection\<close>

text \<open>The durable state, and the state inside an open transaction; without one the connection autocommits.\<close>

record 's connection =
  stored :: 's
  working :: "'s option"

definition is_autocommit :: "'s connection \<Rightarrow> bool" where
  "is_autocommit c \<longleftrightarrow> working c = None"

definition engine_begin :: "'s connection \<Rightarrow> 's connection" where
  "engine_begin c = (if is_autocommit c then c\<lparr>working := Some (stored c)\<rparr> else c)"

definition engine_commit :: "'s connection \<Rightarrow> 's connection" where
  "engine_commit c = (case working c of None \<Rightarrow> c | Some s \<Rightarrow> c\<lparr>stored := s, working := None\<rparr>)"

definition engine_rollback :: "'s connection \<Rightarrow> 's connection" where
  "engine_rollback c = c\<lparr>working := None\<rparr>"

text \<open>The fate of a statement; the truth value says whether the engine executed it.\<close>

datatype fate = Answered | Failed bool | Dropped bool

definition batch :: "fate \<Rightarrow> ('s connection \<Rightarrow> 's connection) \<Rightarrow> 's connection \<Rightarrow> bool \<times> 's connection" where
  "batch fate f c = (case fate of
       Answered \<Rightarrow> (True, f c)
     | Failed reached \<Rightarrow> (False, if reached then f c else c)
     | Dropped reached \<Rightarrow> (False, if reached then f c else c))"

text \<open>\<open>Connection::rollback\<close>: Turso rejects a rollback outside a transaction.\<close>

definition rollback_conn :: "bool \<Rightarrow> fate \<Rightarrow> 's connection \<Rightarrow> bool \<times> 's connection" where
  "rollback_conn turso fate c =
     (if turso \<and> is_autocommit c then (True, c) else batch fate engine_rollback c)"

section \<open>The writer\<close>

record 's writer =
  conn :: "'s connection"
  rollback :: bool

definition recover :: "bool \<Rightarrow> fate \<Rightarrow> 's writer \<Rightarrow> bool \<times> 's writer" where
  "recover turso fate w =
     (if rollback w
      then (case rollback_conn turso fate (conn w) of (ok, c) \<Rightarrow> (ok, w\<lparr>conn := c, rollback := \<not> ok\<rparr>))
      else (True, w))"

text \<open>\<open>Write::begin\<close>: the flag is set before the statement is sent.\<close>

definition begin_write :: "fate \<Rightarrow> 's writer \<Rightarrow> bool \<times> 's writer" where
  "begin_write fate w = (case batch fate engine_begin (conn w) of (ok, c) \<Rightarrow> (ok, w\<lparr>conn := c, rollback := True\<rparr>))"

definition execute :: "('s \<Rightarrow> 's) \<Rightarrow> 's writer \<Rightarrow> 's writer" where
  "execute f w = (let c = conn w in w\<lparr>conn := (case working c of
       None \<Rightarrow> c\<lparr>stored := f (stored c)\<rparr> | Some s \<Rightarrow> c\<lparr>working := Some (f s)\<rparr>)\<rparr>)"

text \<open>Dropping an unfinished \<open>Write\<close> arms the rollback.\<close>

definition drop_write :: "bool \<Rightarrow> 's writer \<Rightarrow> 's writer" where
  "drop_write finished w = (if finished then w else w\<lparr>rollback := True\<rparr>)"

definition commit_write :: "fate \<Rightarrow> 's writer \<Rightarrow> bool \<times> 's writer" where
  "commit_write fate w = (case batch fate engine_commit (conn w) of
     (ok, c) \<Rightarrow> (ok, drop_write ok (w\<lparr>conn := c, rollback := (if ok then False else rollback w)\<rparr>)))"

section \<open>The mutex\<close>

text \<open>
  Who owns the guard: nobody, a caller between \<open>lock_writer\<close> and \<open>begin\<close>, or a \<open>Write\<close> with the changes it
  made so far. A label is the list of changes that became durable together.
\<close>

datatype 's owner = Free | Locked | Writing "('s \<Rightarrow> 's) list"

inductive writer_step :: "bool \<Rightarrow> ('s \<Rightarrow> 's) list option \<Rightarrow> 's owner \<times> 's writer \<Rightarrow> 's owner \<times> 's writer \<Rightarrow> bool"
  for turso where
  lock: "recover turso fate w = (ok, w') \<Longrightarrow>
    writer_step turso None (Free, w) (if ok then Locked else Free, w')"
| unlock: "writer_step turso None (Locked, w) (Free, w)"
| begun: "begin_write fate w = (ok, w') \<Longrightarrow>
    writer_step turso None (Locked, w) (if ok then Writing [] else Free, w')"
| executed: "writer_step turso None (Writing fs, w) (Writing (fs @ [f]), execute f w)"
| ended: "commit_write fate w = (ok, w') \<Longrightarrow>
    writer_step turso (if fate \<in> {Answered, Failed True, Dropped True} then Some fs else None) (Writing fs, w) (Free, w')"
| abandoned: "writer_step turso None (Writing fs, w) (Free, drop_write False w)"

inductive_cases writer_stepE: "writer_step turso l s t"

inductive writer_run :: "bool \<Rightarrow> 's owner \<times> 's writer \<Rightarrow> ('s \<Rightarrow> 's) list list \<Rightarrow> 's owner \<times> 's writer \<Rightarrow> bool"
  for turso where
  stop: "writer_run turso s [] s"
| more: "writer_run turso s ls t \<Longrightarrow> writer_step turso l t u \<Longrightarrow>
    writer_run turso s (case l of None \<Rightarrow> ls | Some fs \<Rightarrow> ls @ [fs]) u"

text \<open>All changes of a transaction, in order.\<close>

definition applied :: "('s \<Rightarrow> 's) list \<Rightarrow> 's \<Rightarrow> 's" where
  "applied fs s = fold (\<lambda>f. f) fs s"

lemma applied_simps [simp]: "applied [] s = s" "applied (fs @ [f]) s = f (applied fs s)"
  by (simp_all add: applied_def)

text \<open>
  Nobody owns a guard with an open transaction unless a rollback is armed; a caller that locked starts
  from autocommit; a \<open>Write\<close> works on the durable state with its own changes and nothing else.
\<close>

fun writer_ok :: "'s owner \<times> 's writer \<Rightarrow> bool" where
  "writer_ok (Free, w) \<longleftrightarrow> is_autocommit (conn w) \<or> rollback w"
| "writer_ok (Locked, w) \<longleftrightarrow> is_autocommit (conn w)"
| "writer_ok (Writing fs, w) \<longleftrightarrow> rollback w \<and> working (conn w) = Some (applied fs (stored (conn w)))"

lemmas writer_defs = batch_def rollback_conn_def recover_def begin_write_def execute_def drop_write_def commit_write_def
  engine_begin_def engine_commit_def engine_rollback_def is_autocommit_def

lemma writer_step_effect:
  assumes "writer_step turso l s t" and "writer_ok s"
  shows "writer_ok t \<and> stored (conn (snd t)) = (case l of None \<Rightarrow> stored (conn (snd s)) | Some fs \<Rightarrow> applied fs (stored (conn (snd s))))"
  using assms
  by (cases rule: writer_step.cases)
    (auto simp: writer_defs Let_def split: if_splits fate.splits option.splits)

lemma writer_run_effect:
  "writer_run turso s ls t \<Longrightarrow> writer_ok s \<Longrightarrow> writer_ok t \<and> stored (conn (snd t)) = fold applied ls (stored (conn (snd s)))"
proof (induction rule: writer_run.induct)
  case (more s ls t l u)
  from writer_step_effect [OF more.hyps(2)] more.IH [OF more.prems] show ?case by (auto split: option.splits)
qed simp

lemma writer_run_more:
  "writer_run turso s ls t \<Longrightarrow> writer_step turso None t u \<Longrightarrow> writer_run turso s ls u"
  "writer_run turso s ls t \<Longrightarrow> writer_step turso (Some fs) t u \<Longrightarrow> writer_run turso s (ls @ [fs]) u"
  using writer_run.more [of turso s ls t None u] writer_run.more [of turso s ls t "Some fs" u] by simp_all

text \<open>
  C3. The writer serializes transactions and makes each atomic, although every statement may fail or be
  dropped and may still reach the engine: the durable state is always the initial one changed by the
  committed transactions one after the other, each with all its changes, and a caller that gets the
  lock finds no transaction open.
\<close>

theorem writer_serializes:
  assumes "writer_run turso (Free, \<lparr>conn = \<lparr>stored = s0, working = None\<rparr>, rollback = False\<rparr>) ls (owner, w)"
  shows "stored (conn w) = fold applied ls s0 \<and> (owner = Locked \<longrightarrow> is_autocommit (conn w))
    \<and> (\<forall>fs. owner = Writing fs \<longrightarrow> working (conn w) = Some (applied fs (stored (conn w))))"
  using writer_run_effect [OF assms] by (auto simp: is_autocommit_def)

text \<open>C3, a transaction whose \<open>BEGIN\<close> was dropped after it took effect, then one that commits.\<close>

theorem writer_serializes_witness:
  "\<exists>w. writer_run True (Free, \<lparr>conn = \<lparr>stored = 3 :: int, working = None\<rparr>, rollback = False\<rparr>) [[\<lambda>x. x + 4]] (Free, w)
     \<and> stored (conn w) = 7"
proof -
  let ?w = "\<lambda>s t r. \<lparr>conn = \<lparr>stored = s, working = t\<rparr>, rollback = r\<rparr> :: int writer"
  let ?run = "writer_run True (Free, ?w 3 None False)"
  have "writer_step True None (Free, ?w 3 None False) (Locked, ?w 3 None False)"
    using writer_step.lock [of True Answered "?w 3 None False" True "?w 3 None False"] by (simp add: writer_defs)
  then have r1: "?run [] (Locked, ?w 3 None False)" by (rule writer_run_more(1) [OF writer_run.stop])
  have "writer_step True None (Locked, ?w 3 None False) (Free, ?w 3 (Some 3) True)"
    using writer_step.begun [of "Dropped True" "?w 3 None False" False "?w 3 (Some 3) True"] by (simp add: writer_defs)
  with r1 have r2: "?run [] (Free, ?w 3 (Some 3) True)" by (rule writer_run_more(1))
  have "writer_step True None (Free, ?w 3 (Some 3) True) (Locked, ?w 3 None False)"
    using writer_step.lock [of True Answered "?w 3 (Some 3) True" True "?w 3 None False"] by (simp add: writer_defs)
  with r2 have r3: "?run [] (Locked, ?w 3 None False)" by (rule writer_run_more(1))
  have "writer_step True None (Locked, ?w 3 None False) (Writing [], ?w 3 (Some 3) True)"
    using writer_step.begun [of Answered "?w 3 None False" True "?w 3 (Some 3) True"] by (simp add: writer_defs)
  with r3 have r4: "?run [] (Writing [], ?w 3 (Some 3) True)" by (rule writer_run_more(1))
  have "writer_step True None (Writing [], ?w 3 (Some 3) True) (Writing [\<lambda>x. x + 4], ?w 3 (Some 7) True)"
    using writer_step.executed [of True "[]" "?w 3 (Some 3) True" "\<lambda>x. x + 4"] by (simp add: execute_def)
  with r4 have r5: "?run [] (Writing [\<lambda>x. x + 4], ?w 3 (Some 7) True)" by (rule writer_run_more(1))
  have "writer_step True (Some [\<lambda>x. x + 4]) (Writing [\<lambda>x. x + 4], ?w 3 (Some 7) True) (Free, ?w 7 None False)"
    using writer_step.ended [of Answered "?w 3 (Some 7) True" True "?w 7 None False" True "[\<lambda>x. x + 4]"] by (simp add: writer_defs)
  from writer_run_more(2) [OF r5 this] have run: "?run [[\<lambda>x. x + 4]] (Free, ?w 7 None False)" by simp
  then have "stored (conn (?w 7 None False)) = fold applied [[\<lambda>x. x + 4]] (3 :: int)"
    by (rule writer_serializes [THEN conjunct1])
  also have "\<dots> = 7" by (simp add: applied_def)
  finally have "stored (conn (?w 7 None False)) = 7" .
  with run show ?thesis by (intro exI conjI)
qed

end
