(* ===== verification/Store_Db.thy ===== *)
theory Store_Db
  imports Coverage "HOL-Library.AList"
begin

text \<open>
  The database behind \<open>dashboard-store\<close>: its tables as association lists keyed by the primary key,
  the metadata rows, and the row writers that run inside a transaction
  (\<open>store.rs\<close>, \<open>blocks.rs\<close>, \<open>miners.rs\<close>). A metadata value is its text, or what its JSON text
  decodes to for the two keys whose value is JSON. A writer returns the number of changed rows
  with the new tables, as \<open>execute\<close> does.
\<close>

section \<open>Tables\<close>

datatype meta_value = MetaText string | MetaCoverage coverage | MetaTarget string string

record authorship_row =
  aw_timestamp :: string
  aw_had_winner :: bool

record validator_row =
  vr_blocks_authored :: nat
  vr_blocks_authored_with_pow :: nat
  vr_last_authored_block :: string
  vr_last_authored_at :: string

record miner_wins_row =
  mw_wins :: nat
  mw_best_energy :: f64
  mw_avg_mining_time :: f64
  mw_last_won_at :: u64
  mw_last_won_qblock_id :: decimal_string
  mw_last_won_block_hash :: string

record participant_row =
  pw_kind :: string
  pw_budget_seconds :: "int option"
  pw_block_number :: string

record scan_row =
  sr_genesis :: string
  sr_at_hash :: string
  sr_finalized_height :: string
  sr_domain :: string
  sr_generation :: string
  sr_cursor :: "u8 list option"
  sr_finished :: bool

record unavailable_row =
  ur_block_hash :: string
  ur_enrichment_hash :: string
  ur_reason :: string
  ur_observed_at :: string
  ur_next_height :: "string option"

record store =
  writable :: bool
  meta :: "(string \<times> meta_value) list"
  finalized :: "(string \<times> string) list"
  blocks :: "(string \<times> block_record) list"
  node_summary :: "(string \<times> miner_wins_row) list"
  difficulty_history :: "(string \<times> difficulty_record) list"
  poll_difficulty :: "(string \<times> difficulty_record) list"
  authorship_blocks :: "((string \<times> string) \<times> authorship_row) list"
  validator_authorship :: "(string \<times> validator_row) list"
  qblock_participation :: "((string \<times> string) \<times> participant_row) list"
  scans :: "(string \<times> scan_row) list"
  scan_winner_rows :: "(string \<times> string) list"
  unavailable :: "((string \<times> string \<times> string) \<times> unavailable_row) list"
  chain_head :: "(string \<times> string) option"
  node_descriptors :: "string list"
  chain_miners :: "string list"

text \<open>
  What the store takes from outside: the clock and the timestamp functions of \<open>chrono\<close>, which engine
  it is, its aggregates of floating-point columns, and its answer to a row whose values a column rejects
  (non-finite numbers, casts out of range).
\<close>

record engine =
  now :: string
  pg :: bool
  canonical_timestamp :: "string \<Rightarrow> store_error + string"
  iso :: "u64 \<Rightarrow> store_error + string"
  sql_min :: "f64 list \<Rightarrow> f64"
  sql_avg :: "f64 list \<Rightarrow> f64"
  accepts_winner :: "block_record \<Rightarrow> store_error + unit"
  accepts_difficulty :: "difficulty_record \<Rightarrow> store_error + unit"

section \<open>Statements\<close>

text \<open>
  \<open>INSERT ... ON CONFLICT(key)\<close>: a fresh key is inserted; on a conflict the row changes to the given
  one when the condition on the old row holds, and nothing happens otherwise.
\<close>

definition upsert :: "'k \<Rightarrow> 'v \<Rightarrow> ('v \<Rightarrow> bool) \<Rightarrow> ('k \<times> 'v) list \<Rightarrow> nat \<times> ('k \<times> 'v) list" where
  "upsert k v cond t = (case map_of t k of
       None \<Rightarrow> (1, t @ [(k, v)])
     | Some old \<Rightarrow> if cond old then (1, AList.update k v t) else (0, t))"

definition get_meta :: "store \<Rightarrow> string \<Rightarrow> meta_value option" where
  "get_meta s k = map_of (meta s) k"

definition set_meta :: "string \<Rightarrow> meta_value \<Rightarrow> store \<Rightarrow> store" where
  "set_meta k v s = s\<lparr>meta := AList.update k v (meta s)\<rparr>"

definition delete_meta :: "string \<Rightarrow> store \<Rightarrow> store" where
  "delete_meta k s = s\<lparr>meta := AList.delete k (meta s)\<rparr>"

definition require_bound :: "store \<Rightarrow> store_error + meta_value" where
  "require_bound s = ok_or NetworkIdentity (get_meta s ''dashboard.genesis'')"

definition ensure_writable :: "store \<Rightarrow> store_error + unit" where
  "ensure_writable s = (if writable s then Inr () else Inl ReadOnly)"

definition generation_key :: "indexable \<Rightarrow> string" where
  "generation_key i = ''indexer.generation.'' @ indexable_name i"

definition coverage_key :: "indexable \<Rightarrow> string" where
  "coverage_key i = ''indexer.coverage.'' @ indexable_name i"

definition generation :: "store \<Rightarrow> indexable \<Rightarrow> u64" where
  "generation s i = (case get_meta s (generation_key i) of
       Some (MetaText t) \<Rightarrow> (case parse_unsigned t of Some n \<Rightarrow> if 0 < n then n else 1 | None \<Rightarrow> 1)
     | _ \<Rightarrow> 1)"

definition load_coverage :: "store \<Rightarrow> indexable \<Rightarrow> u64 \<Rightarrow> store_error + coverage" where
  "load_coverage s i start = (case get_meta s (coverage_key i) of
       None \<Rightarrow> Inr (coverage_empty (generation s i) start)
     | Some (MetaCoverage c) \<Rightarrow> check_coverage (generation s i) c
     | Some _ \<Rightarrow> Inl (Json ''coverage''))"

definition save_coverage :: "indexable \<Rightarrow> coverage \<Rightarrow> store \<Rightarrow> store" where
  "save_coverage i c s = set_meta (coverage_key i) (MetaCoverage c) s"

definition height :: "block_height \<Rightarrow> store_error + u64" where
  "height h = ok_or (Invalid ''height exceeds u64'') (parse_unsigned (as_str h))"

definition network :: "store \<Rightarrow> block_hash \<Rightarrow> store_error + unit" where
  "network s g = rbind (require_bound s) (\<lambda>b. if b \<noteq> MetaText (hash_to_string g) then Inl NetworkIdentity else Inr ())"

section \<open>Record equality\<close>

text \<open>The derived \<open>PartialEq\<close>: hashes by their bytes, floats by IEEE equality.\<close>

definition option_eq :: "('a \<Rightarrow> 'a \<Rightarrow> bool) \<Rightarrow> 'a option \<Rightarrow> 'a option \<Rightarrow> bool" where
  "option_eq eq x y = (case (x, y) of (None, None) \<Rightarrow> True | (Some a, Some b) \<Rightarrow> eq a b | _ \<Rightarrow> False)"

definition block_record_eq :: "block_record \<Rightarrow> block_record \<Rightarrow> bool" where
  "block_record_eq a b \<longleftrightarrow>
     hash_eq (br_block_hash a) (br_block_hash b)
     \<and> br_substrate_block_number a = br_substrate_block_number b
     \<and> hash_eq (br_substrate_block_hash a) (br_substrate_block_hash b)
     \<and> hash_eq (br_substrate_parent_hash a) (br_substrate_parent_hash b)
     \<and> br_timestamp a = br_timestamp b \<and> br_miner_id a = br_miner_id b
     \<and> f64_eq (br_energy a) (br_energy b) \<and> f64_eq (br_diversity a) (br_diversity b)
     \<and> br_num_valid_solutions a = br_num_valid_solutions b
     \<and> f64_eq (br_mining_time a) (br_mining_time b)
     \<and> br_device_access_time_us a = br_device_access_time_us b
     \<and> br_reward a = br_reward b \<and> br_qblock_id a = br_qblock_id b \<and> br_nonce a = br_nonce b
     \<and> br_num_nodes a = br_num_nodes b \<and> br_num_edges a = br_num_edges b
     \<and> f64_eq (br_difficulty_energy a) (br_difficulty_energy b)
     \<and> f64_eq (br_min_diversity a) (br_min_diversity b)
     \<and> br_min_solutions a = br_min_solutions b \<and> br_finalized a = br_finalized b
     \<and> option_eq hash_eq (br_topology_hash a) (br_topology_hash b)"

definition difficulty_record_eq :: "difficulty_record \<Rightarrow> difficulty_record \<Rightarrow> bool" where
  "difficulty_record_eq a b \<longleftrightarrow>
     dr_observed_at_block a = dr_observed_at_block b
     \<and> f64_eq (dr_difficulty_energy a) (dr_difficulty_energy b)
     \<and> f64_eq (dr_min_diversity a) (dr_min_diversity b)
     \<and> dr_min_solutions a = dr_min_solutions b \<and> dr_observed_at a = dr_observed_at b
     \<and> option_eq hash_eq (dr_topology_hash a) (dr_topology_hash b)
     \<and> dr_source a = dr_source b"

section \<open>Winners\<close>

text \<open>The row order of \<open>ORDER BY length(qblock_id) DESC, qblock_id DESC, block_hash DESC LIMIT 1\<close>.\<close>

definition latest_win :: "(string \<times> block_record) list \<Rightarrow> (string \<times> block_record) option" where
  "latest_win rows = (case rows of [] \<Rightarrow> None
     | r # rs \<Rightarrow> Some (fold (\<lambda>x best.
         if (br_qblock_id (snd best), fst best) < (br_qblock_id (snd x), fst x) then x else best) rs r))"

definition refresh_node_summary :: "engine \<Rightarrow> string \<Rightarrow> store \<Rightarrow> store" where
  "refresh_node_summary e miner s =
     (let rows = filter (\<lambda>(_, b). br_miner_id b = miner) (blocks s)
      in case latest_win rows of
           None \<Rightarrow> s
         | Some (h, l) \<Rightarrow> s\<lparr>node_summary := AList.update miner
             \<lparr>mw_wins = length rows, mw_best_energy = sql_min e (map (br_energy \<circ> snd) rows),
              mw_avg_mining_time = sql_avg e (map (br_mining_time \<circ> snd) rows),
              mw_last_won_at = Max (set (map (br_timestamp \<circ> snd) rows)),
              mw_last_won_qblock_id = br_qblock_id l, mw_last_won_block_hash = h\<rparr> (node_summary s)\<rparr>)"

definition or_else :: "'a option \<Rightarrow> 'a option \<Rightarrow> 'a option" where
  "or_else x y = (case x of None \<Rightarrow> y | Some _ \<Rightarrow> x)"

definition upsert_winner :: "engine \<Rightarrow> block_record \<Rightarrow> store \<Rightarrow> store_error + nat \<times> store" where
  "upsert_winner e b s =
     (let key = hash_to_string (br_block_hash b)
      in case map_of (blocks s) key of
           Some existing \<Rightarrow>
             (let incoming = b\<lparr>br_topology_hash := or_else (br_topology_hash b) (br_topology_hash existing),
                               br_device_access_time_us := or_else (br_device_access_time_us b) (br_device_access_time_us existing)\<rparr>
              in if block_record_eq incoming existing then Inr (0, s)
                 else rbind (accepts_winner e incoming) (\<lambda>_.
                   let (n, t) = upsert key incoming (\<lambda>_. True) (blocks s) in Inr (n, s\<lparr>blocks := t\<rparr>)))
         | None \<Rightarrow> rbind (accepts_winner e b) (\<lambda>_.
             let (n, t) = upsert key b (\<lambda>_. False) (blocks s) in Inr (n, s\<lparr>blocks := t\<rparr>)))"

definition write_winner :: "engine \<Rightarrow> block_record \<Rightarrow> store \<Rightarrow> store_error + nat \<times> store" where
  "write_winner e b s = rbind (upsert_winner e b s) (\<lambda>(written, s').
     Inr (written, if 0 < written then refresh_node_summary e (br_miner_id b) s' else s'))"

section \<open>Difficulty\<close>

definition write_difficulty :: "engine \<Rightarrow> difficulty_record \<Rightarrow> store \<Rightarrow> store_error + nat \<times> store" where
  "write_difficulty e d s =
     (let key = as_str (dr_observed_at_block d);
          row = (\<lambda>r. rbind (canonical_timestamp e (dr_observed_at r)) (\<lambda>t.
                     rbind (accepts_difficulty e r) (\<lambda>_. Inr (r\<lparr>dr_observed_at := t\<rparr>))))
      in if dr_source d = BlockSource then
           (case map_of (difficulty_history s) key of
              Some stored \<Rightarrow>
                if dr_source stored = BlockSource then
                  rbind (canonical_timestamp e (dr_observed_at stored)) (\<lambda>st.
                  rbind (canonical_timestamp e (dr_observed_at d)) (\<lambda>t.
                    let existing = stored\<lparr>dr_observed_at := st\<rparr>;
                        incoming = d\<lparr>dr_observed_at := t,
                          dr_topology_hash := or_else (dr_topology_hash d) (dr_topology_hash existing)\<rparr>;
                        enriched = existing\<lparr>dr_topology_hash :=
                          or_else (dr_topology_hash existing) (dr_topology_hash incoming)\<rparr>
                    in if difficulty_record_eq incoming existing then Inr (0, s)
                       else if \<not> difficulty_record_eq incoming enriched
                       then Inl (Invalid ''conflicting block difficulty'')
                       else rbind (row incoming) (\<lambda>r.
                         let (n, h) = upsert key r (\<lambda>_. True) (difficulty_history s)
                         in Inr (n, s\<lparr>difficulty_history := h\<rparr>))))
                else
                  rbind (row stored) (\<lambda>p. rbind (row d) (\<lambda>r.
                    let (n, h) = upsert key r (\<lambda>old. dr_source old = PollSource) (difficulty_history s)
                    in Inr (n, s\<lparr>poll_difficulty := snd (upsert key p (\<lambda>_. False) (poll_difficulty s)),
                                 difficulty_history := h\<rparr>)))
            | None \<Rightarrow> rbind (row d) (\<lambda>r.
                let (n, h) = upsert key r (\<lambda>old. dr_source old = PollSource) (difficulty_history s)
                in Inr (n, s\<lparr>difficulty_history := h\<rparr>)))
         else rbind (row d) (\<lambda>r.
           let (n, h) = upsert key r (\<lambda>_. False) (difficulty_history s)
           in Inr (n, s\<lparr>poll_difficulty := snd (upsert key r (\<lambda>_. False) (poll_difficulty s)),
                        difficulty_history := h\<rparr>)))"

section \<open>Authorship\<close>

fun check_authorship_rows :: "engine \<Rightarrow> authorship_record \<Rightarrow> ((string \<times> string) \<times> authorship_row) list \<Rightarrow> store_error + unit" where
  "check_authorship_rows e a [] = Inr ()"
| "check_authorship_rows e a (((validator, _), row) # rows) =
     (if validator \<noteq> ar_account_id a then Inl (Invalid ''conflicting finalized authorship'')
      else rbind (canonical_timestamp e (aw_timestamp row)) (\<lambda>t. rbind (iso e (ar_timestamp a)) (\<lambda>t'.
        if t \<noteq> t' then Inl (Invalid ''conflicting finalized authorship'')
        else check_authorship_rows e a rows)))"

definition write_authorship :: "engine \<Rightarrow> authorship_record \<Rightarrow> store \<Rightarrow> store_error + nat \<times> store" where
  "write_authorship e a s =
     (let number = as_str (ar_block_number a)
      in rbind (check_authorship_rows e a (filter (\<lambda>((_, n), _). n = number) (authorship_blocks s))) (\<lambda>_.
         rbind (iso e (ar_timestamp a)) (\<lambda>t. rbind (canonical_timestamp e t) (\<lambda>t'.
           let row = \<lparr>aw_timestamp = t', aw_had_winner = ar_had_winner a\<rparr>;
               (n, rows) = upsert (ar_account_id a, number) row
                 (\<lambda>old. \<not> aw_had_winner old \<and> ar_had_winner a) (authorship_blocks s)
           in Inr (n, s\<lparr>authorship_blocks := rows\<rparr>)))))"

text \<open>
  The greatest block number of a validator: Postgres compares numbers; on Turso the texts are padded
  to twenty digits, compared as texts and stripped of zeros, which leaves nothing of a lone zero.
\<close>

definition max_block_number :: "bool \<Rightarrow> string list \<Rightarrow> string" where
  "max_block_number postgres ts =
     (if postgres then as_str (Max (set (map DecimalString ts)))
      else dropWhile (\<lambda>c. c = CHR ''0'') (Max (set (map (\<lambda>t. replicate (20 - length t) (CHR ''0'') @ t) ts))))"

text \<open>\<open>fresh\<close>: one aggregate row per validator; decoding reads the number and the timestamp.\<close>

definition fresh_row :: "engine \<Rightarrow> store \<Rightarrow> string \<Rightarrow> store_error + (string \<times> validator_row)" where
  "fresh_row e s v =
     (let rows = filter (\<lambda>((w, _), _). w = v) (authorship_blocks s);
          last = max_block_number (pg e) (map (snd \<circ> fst) rows)
      in rbind (canonical_timestamp e (Max (set (map (aw_timestamp \<circ> snd) rows)))) (\<lambda>t.
         case decimal_from_str last of
           Inl _ \<Rightarrow> Inl (Json ''lastAuthoredBlock'')
         | Inr _ \<Rightarrow> Inr (v, \<lparr>vr_blocks_authored = length rows,
             vr_blocks_authored_with_pow = length (filter (aw_had_winner \<circ> snd) rows),
             vr_last_authored_block = last, vr_last_authored_at = t\<rparr>)))"

definition fresh :: "engine \<Rightarrow> store \<Rightarrow> store_error + (string \<times> validator_row) list" where
  "fresh e s = rmap_list (fresh_row e s) (remdups (map (fst \<circ> fst) (authorship_blocks s)))"

definition recompute :: "engine \<Rightarrow> store \<Rightarrow> store_error + store" where
  "recompute e s = rbind (fresh e s) (\<lambda>items.
     rfold (\<lambda>(v, item) s. rbind (canonical_timestamp e (vr_last_authored_at item)) (\<lambda>t.
       Inr (s\<lparr>validator_authorship :=
         snd (upsert v (item\<lparr>vr_last_authored_at := t\<rparr>) (\<lambda>_. True) (validator_authorship s))\<rparr>))) items s)"

section \<open>Participation\<close>

definition invalid_budget :: "f64 \<Rightarrow> bool" where
  "invalid_budget n \<longleftrightarrow> \<not> is_finite n \<or> f64_lt_int n 0 \<or> \<not> f64_integral n \<or> f64_gt_int n 2147483647"

definition write_participant :: "participation_record \<Rightarrow> store \<Rightarrow> store_error + nat \<times> store" where
  "write_participant p s =
     (if (case pr_budget_seconds p of None \<Rightarrow> False | Some n \<Rightarrow> invalid_budget n)
      then Inl (Invalid ''invalid participant budget'')
      else (let row = \<lparr>pw_kind = pr_kind p, pw_budget_seconds = map_option f64_to_int (pr_budget_seconds p),
                       pw_block_number = as_str (pr_block_number p)\<rparr>;
                (n, t) = upsert (as_str (pr_qblock_id p), pr_account p) row (\<lambda>old. old \<noteq> row) (qblock_participation s)
            in Inr (n, s\<lparr>qblock_participation := t\<rparr>)))"

end
