(* ===== verification/Store_Ops.thy ===== *)
theory Store_Ops
  imports Store_Db
begin

text \<open>
  The transactions of \<open>dashboard-store/src/coverage.rs\<close>. An operation maps the store to an error,
  or to its result and the store after it; the store is the given one wherever the code returns
  without committing. \<open>run\<close> is the call as the caller sees it: an error leaves the store as it was,
  since the transaction is rolled back.
\<close>

definition run :: "(store \<Rightarrow> store_error + 'r \<times> store) \<Rightarrow> store \<Rightarrow> (store_error + 'r) \<times> store" where
  "run operation s = (case operation s of Inl err \<Rightarrow> (Inl err, s) | Inr (r, s') \<Rightarrow> (Inr r, s'))"

section \<open>Committing a block\<close>

fun collect_guards :: "generation_guard list \<Rightarrow> (indexable \<times> u64) list \<Rightarrow> store_error + (indexable \<times> u64) list" where
  "collect_guards [] acc = Inr acc"
| "collect_guards (g # gs) acc =
     (if map_of acc (guard_indexable g) \<noteq> None then Inl (Invalid ''duplicate generation guard'')
      else collect_guards gs ((guard_indexable g, expected g) # acc))"

definition affected_domains :: "block_commit \<Rightarrow> indexable list" where
  "affected_domains batch = bc_completed batch
     @ (if winner (bc_records batch) \<noteq> None then [Winners] else [])
     @ (if difficulty (bc_records batch) \<noteq> None then [Difficulty] else [])
     @ (if authorship (bc_records batch) \<noteq> None then [Authorship] else [])
     @ (if participation (bc_records batch) \<noteq> [] then [Participation] else [])"

definition guards_current :: "store \<Rightarrow> (indexable \<times> u64) list \<Rightarrow> bool" where
  "guards_current s guards \<longleftrightarrow> list_all (\<lambda>(i, g). generation s i = g) guards"

text \<open>The hashes the store already has for a height.\<close>

definition known_hashes :: "store \<Rightarrow> string \<Rightarrow> string list" where
  "known_hashes s h =
     (case map_of (finalized s) h of None \<Rightarrow> [] | Some x \<Rightarrow> [x])
     @ map (hash_to_string \<circ> br_substrate_block_hash \<circ> snd)
         (filter (\<lambda>(_, b). as_str (br_substrate_block_number b) = h) (blocks s))"

definition check_known :: "store \<Rightarrow> block_height \<Rightarrow> block_hash \<Rightarrow> store_error + unit" where
  "check_known s h hash =
     (if list_ex (\<lambda>x. x \<noteq> hash_to_string hash) (known_hashes s (as_str h))
      then Inl (ConflictingHistory (as_str h)) else Inr ())"

definition check_provenance :: "block_commit \<Rightarrow> store_error + unit" where
  "check_provenance batch =
     (if (case winner (bc_records batch) of
            Some w \<Rightarrow> br_substrate_block_number w \<noteq> bc_height batch
              \<or> \<not> hash_eq (br_substrate_block_hash w) (bc_hash batch) \<or> \<not> br_finalized w
          | None \<Rightarrow> False)
      then Inl (Invalid ''winner provenance does not match finalized commit'')
      else if (case difficulty (bc_records batch) of
            Some d \<Rightarrow> dr_observed_at_block d \<noteq> bc_height batch \<or> dr_source d \<noteq> BlockSource
          | None \<Rightarrow> False)
      then Inl (Invalid ''difficulty provenance does not match commit'')
      else if (case authorship (bc_records batch) of
            Some a \<Rightarrow> ar_block_number a \<noteq> bc_height batch
          | None \<Rightarrow> False)
      then Inl (Invalid ''authorship height does not match commit'')
      else Inr ())"

text \<open>\<open>changed |= writer(...).await? > 0\<close>\<close>

definition apply_write :: "(store \<Rightarrow> store_error + nat \<times> store) \<Rightarrow> bool \<times> store \<Rightarrow> store_error + bool \<times> store" where
  "apply_write w cs = (case cs of (changed, s) \<Rightarrow> rbind (w s) (\<lambda>(n, s'). Inr (changed \<or> 0 < n, s')))"

definition apply_optional :: "('a \<Rightarrow> store \<Rightarrow> store_error + nat \<times> store) \<Rightarrow> 'a option \<Rightarrow> bool \<times> store \<Rightarrow> store_error + bool \<times> store" where
  "apply_optional w r cs = (case r of None \<Rightarrow> Inr cs | Some x \<Rightarrow> apply_write (w x) cs)"

definition write_records :: "engine \<Rightarrow> block_records \<Rightarrow> bool \<times> store \<Rightarrow> store_error + bool \<times> store" where
  "write_records e r cs =
     rbind (apply_optional (write_winner e) (winner r) cs) (\<lambda>cs.
     rbind (apply_optional (write_difficulty e) (difficulty r) cs) (\<lambda>cs.
     rbind (apply_optional (write_authorship e) (authorship r) cs) (\<lambda>cs.
     rfold (\<lambda>p. apply_write (write_participant p)) (participation r) cs)))"

definition complete_domain :: "engine \<Rightarrow> u64 \<Rightarrow> indexable \<Rightarrow> bool \<times> store \<Rightarrow> store_error + bool \<times> store" where
  "complete_domain e n i cs = (case cs of (changed, s) \<Rightarrow>
     rbind (load_coverage s i (if i = Authorship then n else 0)) (\<lambda>c.
     rbind (cover (now e) n n c) (\<lambda>(fresh_range, c').
       Inr (if fresh_range then (True, save_coverage i c' s) else (changed, s)))))"

definition record_finalized :: "block_height \<Rightarrow> block_hash \<Rightarrow> store \<Rightarrow> store" where
  "record_finalized h hash s =
     s\<lparr>finalized := snd (upsert (as_str h) (hash_to_string hash) (\<lambda>_. False) (finalized s))\<rparr>"

definition cutover_recompute :: "engine \<Rightarrow> block_records \<Rightarrow> store \<Rightarrow> store_error + store" where
  "cutover_recompute e r s =
     (if authorship r \<noteq> None \<and> get_meta s ''indexer.authorship.cutover'' = Some (MetaText ''1'')
      then recompute e s else Inr s)"

definition commit_block :: "engine \<Rightarrow> block_commit \<Rightarrow> store \<Rightarrow> store_error + commit_result \<times> store" where
  "commit_block e batch s =
     rbind (ensure_writable s) (\<lambda>_.
     rbind (collect_guards (bc_guards batch) []) (\<lambda>guards.
     if affected_domains batch = []
        \<or> list_ex (\<lambda>i. map_of guards i = None) (affected_domains batch)
     then Inl (Invalid ''every record and completion requires a guard'')
     else
     rbind (height (bc_height batch)) (\<lambda>n.
     rbind (network s (bc_genesis batch)) (\<lambda>_.
     if \<not> guards_current s guards then Inr (StaleGeneration, s)
     else
     rbind (check_known s (bc_height batch) (bc_hash batch)) (\<lambda>_.
     rbind (check_provenance batch) (\<lambda>_.
     rbind (write_records e (bc_records batch) (False, s)) (\<lambda>cs.
     rbind (rfold (complete_domain e n) (bc_completed batch) cs) (\<lambda>(changed, s1).
     rbind (cutover_recompute e (bc_records batch) s1) (\<lambda>s2.
     Inr (if changed then Applied else AlreadyApplied,
          record_finalized (bc_height batch) (bc_hash batch) s2))))))))))"

section \<open>Scans\<close>

definition begin_scan :: "scan \<Rightarrow> store \<Rightarrow> store_error + commit_result \<times> store" where
  "begin_scan sc s =
     rbind (ensure_writable s) (\<lambda>_.
     if scan_id sc = '''' then Inl (Invalid ''empty scan identifier'')
     else
     rbind (network s (scan_genesis sc)) (\<lambda>_.
     if generation s (scan_indexable sc) \<noteq> scan_expected_generation sc then Inr (StaleGeneration, s)
     else case map_of (scans s) (scan_id sc) of
       Some old \<Rightarrow>
         if sr_at_hash old \<noteq> hash_to_string (scan_at sc)
            \<or> sr_genesis old \<noteq> hash_to_string (scan_genesis sc)
            \<or> sr_generation old \<noteq> unsigned_text (scan_expected_generation sc)
            \<or> sr_domain old \<noteq> indexable_name (scan_indexable sc)
            \<or> sr_finalized_height old \<noteq> as_str (scan_finalized_height sc)
         then Inl (Invalid ''scan cursor reused for different state'')
         else Inr (AlreadyApplied, s)
     | None \<Rightarrow> Inr (Applied, s\<lparr>scans := scans s @
         [(scan_id sc, \<lparr>sr_genesis = hash_to_string (scan_genesis sc), sr_at_hash = hash_to_string (scan_at sc),
            sr_finalized_height = as_str (scan_finalized_height sc), sr_domain = indexable_name (scan_indexable sc),
            sr_generation = unsigned_text (scan_expected_generation sc), sr_cursor = None, sr_finished = False\<rparr>)]\<rparr>)))"

definition indexable_of_name :: "string \<Rightarrow> store_error + indexable" where
  "indexable_of_name t = ok_or (Json ''domain'') (find (\<lambda>i. indexable_name i = t) all_indexables)"

definition add_scan_winner :: "string \<Rightarrow> u64 \<Rightarrow> block_height \<Rightarrow> store \<Rightarrow> store_error + store" where
  "add_scan_winner sid ceiling h s = rbind (height h) (\<lambda>n.
     if ceiling < n then Inl (Invalid ''winner above pinned finalized state'')
     else Inr (s\<lparr>scan_winner_rows :=
       (if (sid, as_str h) \<in> set (scan_winner_rows s) then scan_winner_rows s
        else scan_winner_rows s @ [(sid, as_str h)])\<rparr>))"

definition append_scan_page ::
    "string \<Rightarrow> u8 list option \<Rightarrow> u8 list option \<Rightarrow> block_height list \<Rightarrow> store \<Rightarrow> store_error + commit_result \<times> store" where
  "append_scan_page sid expected_cursor next_cursor heights s =
     rbind (ensure_writable s) (\<lambda>_.
     if 1000 < length heights \<or> (next_cursor \<noteq> None \<and> next_cursor = expected_cursor)
     then Inl (Invalid ''oversize or non-advancing scan page'')
     else
     rbind (require_bound s) (\<lambda>bound.
     rbind (ok_or IncompleteScan (map_of (scans s) sid)) (\<lambda>row.
     if MetaText (sr_genesis row) \<noteq> bound then Inl NetworkIdentity
     else
     rbind (indexable_of_name (sr_domain row)) (\<lambda>domain.
     if unsigned_text (generation s domain) \<noteq> sr_generation row then Inr (StaleGeneration, s)
     else if sr_finished row \<or> sr_cursor row \<noteq> expected_cursor then Inl IncompleteScan
     else
     rbind (ok_or IncompleteScan (parse_unsigned (sr_finalized_height row))) (\<lambda>ceiling.
     rbind (rfold (add_scan_winner sid ceiling) heights s) (\<lambda>s'.
     Inr (Applied, s'\<lparr>scans := AList.update sid
       (row\<lparr>sr_cursor := next_cursor, sr_finished := (if next_cursor = None then True else sr_finished row)\<rparr>)
       (scans s')\<rparr>)))))))"

definition scan_progress_of :: "string \<Rightarrow> store \<Rightarrow> scan_progress option" where
  "scan_progress_of sid s = map_option
     (\<lambda>r. \<lparr>progress_cursor = sr_cursor r, progress_finished = sr_finished r\<rparr>) (map_of (scans s) sid)"

text \<open>The pages of 512 discovered heights, in decimal order.\<close>

definition ordered_heights :: "string list \<Rightarrow> string list" where
  "ordered_heights hs = sort_key (\<lambda>h. (length h, h)) hs"

definition check_winner :: "coverage \<Rightarrow> u64 \<Rightarrow> u64 \<Rightarrow> string \<Rightarrow> store_error + unit" where
  "check_winner c f t h = rbind (ok_or IncompleteScan (parse_unsigned h)) (\<lambda>n.
     if f \<le> n \<and> n \<le> t \<and> \<not> contains c n n then Inl IncompleteScan else Inr ())"

function check_pages :: "coverage \<Rightarrow> u64 \<Rightarrow> u64 \<Rightarrow> string list \<Rightarrow> store_error + unit" where
  "check_pages c f t rows =
     (if take 512 rows = [] then Inr ()
      else rbind (rmap_list (check_winner c f t) (take 512 rows)) (\<lambda>_. check_pages c f t (drop 512 rows)))"
  by pat_completeness auto
termination
  by (relation "measure (\<lambda>(c, f, t, rows). length rows)") auto

declare check_pages.simps [simp del]

definition commit_range :: "engine \<Rightarrow> range_completion \<Rightarrow> store \<Rightarrow> store_error + commit_result \<times> store" where
  "commit_range e r s =
     rbind (ensure_writable s) (\<lambda>_.
     rbind (height (rc_from r)) (\<lambda>f.
     rbind (height (rc_through r)) (\<lambda>t.
     if t < f then Inl (Invalid ''reversed range'')
     else
     rbind (network s (rc_genesis r)) (\<lambda>_.
     if generation s (rc_indexable r) \<noteq> rc_expected_generation r then Inr (StaleGeneration, s)
     else
     rbind (ok_or IncompleteScan (case map_of (scans s) (rc_scan_id r) of
         Some row \<Rightarrow> if sr_finished row then Some row else None | None \<Rightarrow> None)) (\<lambda>row.
     if sr_genesis row \<noteq> hash_to_string (rc_genesis r)
        \<or> sr_domain row \<noteq> indexable_name (rc_indexable r)
        \<or> sr_generation row \<noteq> unsigned_text (rc_expected_generation r)
        \<or> (case parse_unsigned (sr_finalized_height row) of None \<Rightarrow> True | Some h \<Rightarrow> h < t)
     then Inl IncompleteScan
     else if rc_indexable r = Authorship then Inl (Invalid ''authorship requires per-block evidence'')
     else
     rbind (load_coverage s (rc_indexable r) 0) (\<lambda>c.
     rbind (check_pages c f t (ordered_heights
         (map snd (filter (\<lambda>(sid, _). sid = rc_scan_id r) (scan_winner_rows s))))) (\<lambda>_.
     rbind (cover (now e) f t c) (\<lambda>(changed, c').
     Inr (if changed then (Applied, save_coverage (rc_indexable r) c' s) else (AlreadyApplied, s))))))))))"

section \<open>Pruning, reindexing, initial coverage\<close>

definition set_pruned_floor :: "engine \<Rightarrow> generation_guard \<Rightarrow> block_height option \<Rightarrow> store \<Rightarrow> store_error + commit_result \<times> store" where
  "set_pruned_floor e g floor s =
     rbind (ensure_writable s) (\<lambda>_.
     rbind (require_bound s) (\<lambda>_.
     if generation s (guard_indexable g) \<noteq> expected g then Inr (StaleGeneration, s)
     else
     rbind (load_coverage s (guard_indexable g) 0) (\<lambda>c.
     rbind (case floor of None \<Rightarrow> Inr None | Some h \<Rightarrow> rbind (height h) (\<lambda>n. Inr (Some n))) (\<lambda>f.
     Inr (Applied, save_coverage (guard_indexable g) (c\<lparr>pruned_floor := f, updated_at := Some (now e)\<rparr>) s)))))"

definition unique_indexables :: "indexable list \<Rightarrow> indexable list" where
  "unique_indexables is = filter (\<lambda>i. i \<in> set is) all_indexables"

definition drop_owned_rows :: "indexable \<Rightarrow> u64 \<Rightarrow> coverage \<Rightarrow> store \<Rightarrow> store" where
  "drop_owned_rows i nxt old s = (case i of
       Winners \<Rightarrow> s\<lparr>blocks := [], node_summary := []\<rparr>
     | Participation \<Rightarrow> s\<lparr>qblock_participation := []\<rparr>
     | Difficulty \<Rightarrow> s\<lparr>difficulty_history :=
         fold (\<lambda>(k, r) t. snd (upsert k r (\<lambda>_. False) t)) (poll_difficulty s)
           (filter (\<lambda>(_, r). dr_source r \<noteq> BlockSource) (difficulty_history s))\<rparr>
     | Authorship \<Rightarrow>
         (let s' = delete_meta ''indexer.authorship.cutover'' (s\<lparr>authorship_blocks := []\<rparr>)
          in if 0 < cov_start old then save_coverage i (coverage_empty nxt (cov_start old)) s' else s'))"

definition drop_scans :: "indexable \<Rightarrow> store \<Rightarrow> store" where
  "drop_scans i s =
     (let ids = map fst (filter (\<lambda>(_, r). sr_domain r = indexable_name i) (scans s))
      in s\<lparr>scan_winner_rows := filter (\<lambda>(sid, _). sid \<notin> set ids) (scan_winner_rows s),
           scans := filter (\<lambda>(_, r). sr_domain r \<noteq> indexable_name i) (scans s)\<rparr>)"

definition reindex_one :: "indexable \<Rightarrow> store \<Rightarrow> store_error + generation_guard \<times> store" where
  "reindex_one i s =
     rbind (ok_or (Invalid ''generation exhausted'') (checked_add (generation s i) 1)) (\<lambda>nxt.
     rbind (load_coverage s i 0) (\<lambda>old.
       let s1 = set_meta (generation_key i) (MetaText (unsigned_text nxt)) s;
           s2 = delete_meta (coverage_key i) s1;
           s3 = s2\<lparr>unavailable := filter (\<lambda>((domain, _), _). domain \<noteq> indexable_name i) (unavailable s2)\<rparr>;
           s4 = drop_owned_rows i nxt old s3
       in Inr (\<lparr>guard_indexable = i, expected = nxt\<rparr>, drop_scans i s4)))"

fun reindex_all :: "indexable list \<Rightarrow> store \<Rightarrow> store_error + generation_guard list \<times> store" where
  "reindex_all [] s = Inr ([], s)"
| "reindex_all (i # is) s = rbind (reindex_one i s) (\<lambda>(g, s').
     rbind (reindex_all is s') (\<lambda>(gs, s''). Inr (g # gs, s'')))"

definition reindex :: "indexable list \<Rightarrow> store \<Rightarrow> store_error + generation_guard list \<times> store" where
  "reindex is s =
     rbind (ensure_writable s) (\<lambda>_. rbind (require_bound s) (\<lambda>_. reindex_all (unique_indexables is) s))"

definition initialize_coverage :: "indexable \<Rightarrow> u64 \<Rightarrow> block_height \<Rightarrow> store \<Rightarrow> store_error + commit_result \<times> store" where
  "initialize_coverage i expect start s =
     rbind (ensure_writable s) (\<lambda>_.
     rbind (require_bound s) (\<lambda>_.
     if generation s i \<noteq> expect then Inr (StaleGeneration, s)
     else if get_meta s (coverage_key i) \<noteq> None then Inr (AlreadyApplied, s)
     else rbind (height start) (\<lambda>n. Inr (Applied, save_coverage i (coverage_empty expect n) s))))"

section \<open>Network identity\<close>

definition retained_rows :: "store \<Rightarrow> (string \<times> string) list" where
  "retained_rows s = sort_key (\<lambda>(h, x). (length h, h, x)) (remdups
     (finalized s
      @ map (\<lambda>(_, b). (as_str (br_substrate_block_number b), hash_to_string (br_substrate_block_hash b))) (blocks s)
      @ (case chain_head s of None \<Rightarrow> [] | Some r \<Rightarrow> [r])))"

definition retained_of_row :: "string \<times> string \<Rightarrow> store_error + retained_block" where
  "retained_of_row r = (case decimal_from_str (fst r) of
       Inl _ \<Rightarrow> Inl (Invalid ''invalid retained height'')
     | Inr h \<Rightarrow> (case hash_from_str (snd r) of
         Inl _ \<Rightarrow> Inl (Invalid ''invalid retained hash'')
       | Inr x \<Rightarrow> Inr \<lparr>rb_height = h, rb_hash = x\<rparr>))"

definition retained_history :: "store \<Rightarrow> nat \<Rightarrow> nat \<Rightarrow> store_error + retained_block list" where
  "retained_history s limit offset =
     rmap_list retained_of_row (take (min limit 1000) (drop offset (retained_rows s)))"

text \<open>The verification of one page against the upstream's answers.\<close>

fun verify_rows :: "(retained_block \<Rightarrow> store_error + block_hash) \<Rightarrow> retained_block list \<Rightarrow> store_error + unit" where
  "verify_rows verify [] = Inr ()"
| "verify_rows verify (row # rows) = rbind (verify row) (\<lambda>h.
     if \<not> hash_eq h (rb_hash row) then Inl NetworkIdentity else verify_rows verify rows)"

text \<open>The page loop; the result tells whether any row was seen.\<close>

function verify_pages :: "(retained_block \<Rightarrow> store_error + block_hash) \<Rightarrow> store \<Rightarrow> nat \<Rightarrow> store_error + bool" where
  "verify_pages verify s offset = (case retained_history s 512 offset of
       Inl err \<Rightarrow> Inl err
     | Inr [] \<Rightarrow> Inr (0 < offset)
     | Inr (row # rows) \<Rightarrow> rbind (verify_rows verify (row # rows)) (\<lambda>_.
         verify_pages verify s (offset + length (row # rows))))"
  by pat_completeness auto
termination
proof (relation "measure (\<lambda>(verify, s, offset). length (retained_rows s) - offset)", goal_cases)
  case (2 verify s offset x row rows)
  then have "length (take 512 (drop offset (retained_rows s))) = length (row # rows)"
    by (auto simp: retained_history_def dest!: rmap_list_length)
  then show ?case by (auto simp: min_def split: if_splits)
qed simp

declare verify_pages.simps [simp del]

definition unbound_rows :: "store \<Rightarrow> bool" where
  "unbound_rows s \<longleftrightarrow> blocks s \<noteq> [] \<or> difficulty_history s \<noteq> [] \<or> validator_authorship s \<noteq> []
     \<or> authorship_blocks s \<noteq> [] \<or> node_descriptors s \<noteq> [] \<or> qblock_participation s \<noteq> [] \<or> chain_miners s \<noteq> []"

definition bind_network_with ::
    "block_hash \<Rightarrow> (retained_block \<Rightarrow> store_error + block_hash) \<Rightarrow> store \<Rightarrow> store_error + unit \<times> store" where
  "bind_network_with g verify s =
     rbind (ensure_writable s) (\<lambda>_.
     case get_meta s ''dashboard.genesis'' of
       Some bound \<Rightarrow> if bound \<noteq> MetaText (hash_to_string g) then Inl NetworkIdentity else Inr ((), s)
     | None \<Rightarrow> rbind (verify_pages verify s 0) (\<lambda>any.
         if \<not> any \<and> unbound_rows s then Inl NetworkIdentity
         else Inr ((), set_meta ''dashboard.genesis'' (MetaText (hash_to_string g)) s)))"

text \<open>\<open>RetainedBlock\<close> equality: the height's text and the hash's bytes.\<close>

definition retained_eq :: "retained_block \<Rightarrow> retained_block \<Rightarrow> bool" where
  "retained_eq a b \<longleftrightarrow> rb_height a = rb_height b \<and> hash_eq (rb_hash a) (rb_hash b)"

definition bind_network :: "block_hash \<Rightarrow> retained_block list \<Rightarrow> store \<Rightarrow> store_error + unit \<times> store" where
  "bind_network g evidence s = bind_network_with g
     (\<lambda>row. if list_ex (retained_eq row) evidence then Inr (rb_hash row) else Inl NetworkIdentity) s"

definition bound_genesis :: "store \<Rightarrow> store_error + block_hash option" where
  "bound_genesis s = (case get_meta s ''dashboard.genesis'' of
       None \<Rightarrow> Inr None
     | Some (MetaText t) \<Rightarrow> (case hash_from_str t of Inl _ \<Rightarrow> Inl (Invalid ''invalid bound genesis'') | Inr h \<Rightarrow> Inr (Some h))
     | Some _ \<Rightarrow> Inl (Invalid ''invalid bound genesis''))"

section \<open>The finalized target\<close>

definition set_finalized_target :: "retained_block \<Rightarrow> store \<Rightarrow> store_error + commit_result \<times> store" where
  "set_finalized_target target s =
     (let applied = Inr (Applied, set_meta ''dashboard.finalized.target''
            (MetaTarget (as_str (rb_height target)) (hash_to_string (rb_hash target))) s)
      in rbind (ensure_writable s) (\<lambda>_.
         rbind (require_bound s) (\<lambda>_.
         case get_meta s ''dashboard.finalized.target'' of
           None \<Rightarrow> applied
         | Some (MetaTarget old_height old_hash) \<Rightarrow>
             rbind (ok_or (Invalid ''invalid target height'') (parse_unsigned old_height)) (\<lambda>old.
             rbind (height (rb_height target)) (\<lambda>n.
             if n < old then Inr (AlreadyApplied, s)
             else if old = n then
               (if old_hash \<noteq> hash_to_string (rb_hash target) then Inl (ConflictingHistory (unsigned_text n))
                else Inr (AlreadyApplied, s))
             else applied))
         | Some _ \<Rightarrow> Inl (Json ''finalized target''))))"

definition finalized_target :: "store \<Rightarrow> store_error + retained_block option" where
  "finalized_target s = (case get_meta s ''dashboard.finalized.target'' of
       None \<Rightarrow> Inr None
     | Some (MetaTarget h x) \<Rightarrow> (case decimal_from_str h of
           Inl _ \<Rightarrow> Inl (Invalid ''invalid finalized target'')
         | Inr h' \<Rightarrow> (case hash_from_str x of
             Inl _ \<Rightarrow> Inl (Invalid ''invalid finalized target hash'')
           | Inr x' \<Rightarrow> Inr (Some \<lparr>rb_height = h', rb_hash = x'\<rparr>)))
     | Some _ \<Rightarrow> Inl (Json ''finalized target''))"

fun committed_domains :: "store \<Rightarrow> u64 \<Rightarrow> indexable list \<Rightarrow> store_error + bool" where
  "committed_domains s n [] = Inr False"
| "committed_domains s n (i # is) = (case get_meta s (coverage_key i) of
       None \<Rightarrow> committed_domains s n is
     | Some (MetaCoverage c) \<Rightarrow>
         if cov_gen c = generation s i \<and> contains c n n then Inr True else committed_domains s n is
     | Some _ \<Rightarrow> Inl (Json ''coverage''))"

definition committed_target :: "retained_block \<Rightarrow> store \<Rightarrow> store_error + bool" where
  "committed_target target s = (case map_of (finalized s) (as_str (rb_height target)) of
       None \<Rightarrow> Inr False
     | Some x \<Rightarrow> (case hash_from_str x of
           Inl _ \<Rightarrow> Inl (Invalid ''hash'')
         | Inr h \<Rightarrow> if \<not> hash_eq h (rb_hash target) then Inl (ConflictingHistory (as_str (rb_height target)))
             else rbind (height (rb_height target)) (\<lambda>n. committed_domains s n all_indexables)))"

section \<open>Durable absence\<close>

primrec valid_domain :: "unavailable_reason \<Rightarrow> indexable" where
  "valid_domain MissingRetainedNonce = Winners"
| "valid_domain MissingRetainedDifficulty = Difficulty"

definition absence_row :: "engine \<Rightarrow> unavailable_block \<Rightarrow> u64 \<Rightarrow> unavailable_row" where
  "absence_row e b n = \<lparr>ur_block_hash = hash_to_string (ub_hash b), ur_enrichment_hash = hash_to_string (ub_enrichment_at b),
     ur_reason = reason_name (ub_reason b), ur_observed_at = now e,
     ur_next_height = map_option unsigned_text (checked_add n 1)\<rparr>"

definition mark_unavailable :: "engine \<Rightarrow> block_hash \<Rightarrow> unavailable_block \<Rightarrow> store \<Rightarrow> store_error + commit_result \<times> store" where
  "mark_unavailable e g b s =
     (let i = guard_indexable (ub_guard b)
      in if i \<noteq> valid_domain (ub_reason b) then Inl (Invalid ''unavailable reason does not match domain'')
         else
         rbind (height (ub_height b)) (\<lambda>n.
         rbind (ensure_writable s) (\<lambda>_.
         rbind (network s g) (\<lambda>_.
         if generation s i \<noteq> expected (ub_guard b) then Inr (StaleGeneration, s)
         else
         rbind (check_known s (ub_height b) (ub_hash b)) (\<lambda>_.
         rbind (load_coverage s i 0) (\<lambda>c.
         if contains c n n then Inr (AlreadyApplied, s)
         else
           (let (changed, rows) = upsert (indexable_name i, unsigned_text (expected (ub_guard b)), as_str (ub_height b))
                  (absence_row e b n) (\<lambda>_. False) (unavailable s)
            in Inr (if 0 < changed then Applied else AlreadyApplied,
                    record_finalized (ub_height b) (ub_hash b) (s\<lparr>unavailable := rows\<rparr>)))))))))"

definition decimal_gt :: "string \<Rightarrow> string \<Rightarrow> bool" where
  "decimal_gt l r \<longleftrightarrow> length l > length r \<or> length l = length r \<and> l > r"

text \<open>The absence markers of one domain generation: height and successor texts.\<close>

definition markers :: "store \<Rightarrow> indexable \<Rightarrow> u64 \<Rightarrow> (string \<times> string option) list" where
  "markers s i g = map (\<lambda>((_, _, h), r). (h, ur_next_height r))
     (filter (\<lambda>((d, gen, _), _). d = indexable_name i \<and> gen = unsigned_text g) (unavailable s))"

definition is_unavailable :: "store \<Rightarrow> indexable \<Rightarrow> u64 \<Rightarrow> u64 \<Rightarrow> bool" where
  "is_unavailable s i g n \<longleftrightarrow> unsigned_text n \<in> set (map fst (markers s i g))"

text \<open>\<open>ORDER BY length(height), height LIMIT 1\<close>\<close>

definition first_height :: "string list \<Rightarrow> string option" where
  "first_height hs = (case ordered_heights hs of [] \<Rightarrow> None | h # _ \<Rightarrow> Some h)"

definition successor_candidates :: "store \<Rightarrow> indexable \<Rightarrow> u64 \<Rightarrow> u64 \<Rightarrow> u64 \<Rightarrow> string list" where
  "successor_candidates s i g f t =
     filter (\<lambda>h. decimal_gt h (unsigned_text f) \<and> \<not> decimal_gt h (unsigned_text t) \<and> h \<notin> set (map fst (markers s i g)))
       (concat (map (\<lambda>(_, nxt). case nxt of None \<Rightarrow> [] | Some h \<Rightarrow> [h]) (markers s i g)))"

definition blocked_heights :: "store \<Rightarrow> indexable \<Rightarrow> u64 \<Rightarrow> u64 \<Rightarrow> u64 \<Rightarrow> string list" where
  "blocked_heights s i g f t =
     filter (\<lambda>h. decimal_gt h (unsigned_text f) \<and> \<not> decimal_gt h (unsigned_text t)) (map fst (markers s i g))"

definition retryable_range :: "store \<Rightarrow> indexable \<Rightarrow> u64 \<Rightarrow> u64 \<Rightarrow> u64 \<Rightarrow> store_error + (u64 \<times> u64) option" where
  "retryable_range s i g f t =
     (if t < f then Inl (Invalid ''reversed retry range'')
      else rbind (if is_unavailable s i g f
                  then (case first_height (successor_candidates s i g f t) of
                          None \<Rightarrow> Inr None
                        | Some h \<Rightarrow> rbind (ok_or (Invalid ''invalid unavailable successor'') (parse_unsigned h)) (\<lambda>n. Inr (Some n)))
                  else Inr (Some f)) (\<lambda>start.
        case start of
          None \<Rightarrow> Inr None
        | Some n \<Rightarrow> rbind (case first_height (blocked_heights s i g n t) of
              None \<Rightarrow> Inr t
            | Some h \<Rightarrow> rbind (ok_or (Invalid ''invalid unavailable height'') (parse_unsigned h)) (\<lambda>m.
                ok_or (Invalid ''invalid retry boundary'') (checked_sub m 1))) (\<lambda>last.
            Inr (Some (n, last)))))"

section \<open>Scan replay and monotonic checkpoints\<close>

definition active_scan :: "store \<Rightarrow> indexable \<Rightarrow> u64 \<Rightarrow> store_error + scan option" where
  "active_scan s i g =
     (case rev (sort_key (\<lambda>(sid, r). (length (sr_finalized_height r), sr_finalized_height r, sid))
         (filter (\<lambda>(_, r). sr_domain r = indexable_name i \<and> sr_generation r = unsigned_text g) (scans s))) of
        [] \<Rightarrow> Inr None
      | (sid, r) # _ \<Rightarrow> (case hash_from_str (sr_genesis r) of
            Inl _ \<Rightarrow> Inl NetworkIdentity
          | Inr gen \<Rightarrow> (case hash_from_str (sr_at_hash r) of
              Inl _ \<Rightarrow> Inl IncompleteScan
            | Inr at \<Rightarrow> (case decimal_from_str (sr_finalized_height r) of
                Inl _ \<Rightarrow> Inl IncompleteScan
              | Inr h \<Rightarrow> Inr (Some \<lparr>scan_id = sid, scan_genesis = gen, scan_at = at,
                  scan_finalized_height = h, scan_indexable = i, scan_expected_generation = g\<rparr>)))))"

definition scan_winners :: "store \<Rightarrow> string \<Rightarrow> block_height option \<Rightarrow> nat \<Rightarrow> store_error + block_height list" where
  "scan_winners s sid after limit =
     rmap_list (\<lambda>h. case decimal_from_str h of Inl _ \<Rightarrow> Inl IncompleteScan | Inr d \<Rightarrow> Inr d)
       (take (min limit 1000) (ordered_heights
         (filter (\<lambda>h. case after of None \<Rightarrow> True | Some a \<Rightarrow> decimal_gt h (as_str a))
           (map snd (filter (\<lambda>(x, _). x = sid) (scan_winner_rows s))))))"

text \<open>The keys of monotonic checkpoints never hold one of the two JSON values.\<close>

definition set_monotonic :: "string \<Rightarrow> string \<Rightarrow> store \<Rightarrow> store_error + unit \<times> store" where
  "set_monotonic k v s =
     rbind (ensure_writable s) (\<lambda>_.
     case decimal_from_str v of
       Inl _ \<Rightarrow> Inl (Invalid ''noncanonical checkpoint'')
     | Inr _ \<Rightarrow> rbind (require_bound s) (\<lambda>_. Inr ((), (case get_meta s k of
           Some (MetaText old) \<Rightarrow> if decimal_gt v old then set_meta k (MetaText v) s else s
         | Some _ \<Rightarrow> s
         | None \<Rightarrow> set_meta k (MetaText v) s))))"

definition same_poll_value :: "difficulty_record \<Rightarrow> difficulty_record \<Rightarrow> bool" where
  "same_poll_value a b \<longleftrightarrow> f64_eq (dr_difficulty_energy a) (dr_difficulty_energy b)
     \<and> f64_eq (dr_min_diversity a) (dr_min_diversity b) \<and> dr_min_solutions a = dr_min_solutions b
     \<and> option_eq hash_eq (dr_topology_hash a) (dr_topology_hash b)"

definition latest_poll :: "store \<Rightarrow> difficulty_record option" where
  "latest_poll s = (case poll_difficulty s of [] \<Rightarrow> None
     | r # rs \<Rightarrow> Some (fold (\<lambda>x best. if dr_observed_at best < dr_observed_at x then x else best) (map snd rs) (snd r)))"

definition insert_difficulty_snapshot :: "engine \<Rightarrow> difficulty_record \<Rightarrow> store \<Rightarrow> store_error + unit \<times> store" where
  "insert_difficulty_snapshot e d s =
     rbind (ensure_writable s) (\<lambda>_.
     if dr_source d \<noteq> PollSource then Inl (Invalid ''block difficulty requires a generation-guarded block commit'')
     else
     rbind (require_bound s) (\<lambda>_.
     rbind (case latest_poll s of
              None \<Rightarrow> Inr False
            | Some r \<Rightarrow> rbind (canonical_timestamp e (dr_observed_at r)) (\<lambda>_. Inr (same_poll_value r d))) (\<lambda>unchanged.
     if unchanged then Inr ((), s)
     else rbind (write_difficulty e d s) (\<lambda>(_, s'). Inr ((), s')))))"

end
