(* ===== verification/Store_Inv.thy ===== *)
theory Store_Inv
  imports Store_Ops
begin

text \<open>
  What the store's transactions keep: lookup laws of the metadata, the frame of the row writers, the
  invariant of the indexing state, and its preservation by every operation.
\<close>

section \<open>Metadata\<close>

lemma get_set_meta [simp]: "get_meta (set_meta k v s) k' = (if k' = k then Some v else get_meta s k')"
  by (simp add: get_meta_def set_meta_def AList.update_conv')

lemma get_delete_meta [simp]: "get_meta (delete_meta k s) k' = (if k' = k then None else get_meta s k')"
  by (simp add: get_meta_def delete_meta_def AList.delete_conv' restrict_map_def)

lemma key_distinct [simp]:
  "(generation_key i = generation_key j) = (i = j)"
  "(coverage_key i = coverage_key j) = (i = j)"
  "generation_key i \<noteq> coverage_key j"
  "coverage_key j \<noteq> generation_key i"
  "generation_key i \<noteq> ''dashboard.genesis''"
  "coverage_key i \<noteq> ''dashboard.genesis''"
  "generation_key i \<noteq> ''dashboard.finalized.target''"
  "coverage_key i \<noteq> ''dashboard.finalized.target''"
  "generation_key i \<noteq> ''indexer.authorship.cutover''"
  "coverage_key i \<noteq> ''indexer.authorship.cutover''"
  by (simp_all add: generation_key_def coverage_key_def)

lemmas key_distinct_sym [simp] = key_distinct(5-10) [THEN not_sym]

lemma set_meta_fields [simp]:
  "writable (set_meta k v s) = writable s" "finalized (set_meta k v s) = finalized s"
  "blocks (set_meta k v s) = blocks s" "scans (set_meta k v s) = scans s"
  "scan_winner_rows (set_meta k v s) = scan_winner_rows s" "unavailable (set_meta k v s) = unavailable s"
  by (simp_all add: set_meta_def)

lemma delete_meta_fields [simp]:
  "writable (delete_meta k s) = writable s" "finalized (delete_meta k s) = finalized s"
  "blocks (delete_meta k s) = blocks s" "scans (delete_meta k s) = scans s"
  "scan_winner_rows (delete_meta k s) = scan_winner_rows s" "unavailable (delete_meta k s) = unavailable s"
  by (simp_all add: delete_meta_def)

lemma get_meta_cong: "meta s = meta s' \<Longrightarrow> get_meta s = get_meta s'"
  by (simp add: get_meta_def fun_eq_iff)

lemma generation_cong: "meta s = meta s' \<Longrightarrow> generation s = generation s'"
  by (simp add: generation_def get_meta_def fun_eq_iff)

lemma load_coverage_cong:
  assumes "meta s = meta s'"
  shows "load_coverage s = load_coverage s'"
  unfolding load_coverage_def [abs_def] generation_cong [OF assms] get_meta_cong [OF assms] ..

lemma generation_set_other [simp]:
  "(\<And>j. k \<noteq> generation_key j) \<Longrightarrow> generation (set_meta k v s) = generation s"
  by (auto simp: generation_def fun_eq_iff)

lemma generation_delete_other [simp]:
  "(\<And>j. k \<noteq> generation_key j) \<Longrightarrow> generation (delete_meta k s) = generation s"
  by (auto simp: generation_def fun_eq_iff)

lemma generation_bump: "0 < g \<Longrightarrow> generation (set_meta (generation_key i) (MetaText (unsigned_text g)) s) = (generation s)(i := g)"
  by (auto simp: generation_def fun_eq_iff)

lemma generation_pos: "0 < generation s i"
  by (auto simp: generation_def split: option.splits meta_value.splits)

lemma generation_save [simp]: "generation (save_coverage i c s) = generation s"
  by (simp add: save_coverage_def)

lemma get_meta_save: "get_meta (save_coverage i c s) k = (if k = coverage_key i then Some (MetaCoverage c) else get_meta s k)"
  by (simp add: save_coverage_def)

lemma save_coverage_fields [simp]:
  "writable (save_coverage i c s) = writable s" "finalized (save_coverage i c s) = finalized s"
  "blocks (save_coverage i c s) = blocks s" "scans (save_coverage i c s) = scans s"
  "scan_winner_rows (save_coverage i c s) = scan_winner_rows s" "unavailable (save_coverage i c s) = unavailable s"
  by (simp_all add: save_coverage_def)

section \<open>The frame of the row writers\<close>

text \<open>The row writers leave the indexing state alone.\<close>

definition same_index :: "store \<Rightarrow> store \<Rightarrow> bool" where
  "same_index s s' \<longleftrightarrow> writable s' = writable s \<and> meta s' = meta s \<and> finalized s' = finalized s \<and> scans s' = scans s
     \<and> scan_winner_rows s' = scan_winner_rows s \<and> unavailable s' = unavailable s"

lemma same_index_refl [simp]: "same_index s s"
  by (simp add: same_index_def)

lemma same_index_trans: "same_index s s' \<Longrightarrow> same_index s' s'' \<Longrightarrow> same_index s s''"
  by (simp add: same_index_def)

named_theorems writer_frames \<open>frames of the row writers\<close>

lemma refresh_frame: "same_index s (refresh_node_summary e m s)"
  by (simp add: refresh_node_summary_def same_index_def Let_def split: option.splits)

lemma upsert_winner_frame: "upsert_winner e b s = Inr (n, s') \<Longrightarrow> same_index s s'"
  by (auto simp: upsert_winner_def rbind_Inr same_index_def Let_def case_prod_beta split: option.splits if_splits)

lemma write_winner_frame [writer_frames]: "write_winner e b s = Inr (n, s') \<Longrightarrow> same_index s s'"
  using upsert_winner_frame refresh_frame same_index_trans
  by (fastforce simp: write_winner_def rbind_Inr split: if_splits)

lemma write_difficulty_frame [writer_frames]: "write_difficulty e d s = Inr (n, s') \<Longrightarrow> same_index s s'"
  by (auto simp: write_difficulty_def rbind_Inr same_index_def Let_def case_prod_beta
      split: option.splits if_splits)

lemma write_authorship_frame [writer_frames]: "write_authorship e a s = Inr (n, s') \<Longrightarrow> same_index s s'"
  by (auto simp: write_authorship_def rbind_Inr same_index_def Let_def case_prod_beta)

lemma write_participant_frame [writer_frames]: "write_participant p s = Inr (n, s') \<Longrightarrow> same_index s s'"
  by (auto simp: write_participant_def same_index_def Let_def case_prod_beta split: if_splits)

lemma apply_write_frame:
  assumes "apply_write w cs = Inr cs'" and "\<And>n s'. w (snd cs) = Inr (n, s') \<Longrightarrow> same_index (snd cs) s'"
  shows "same_index (snd cs) (snd cs')"
  using assms by (cases cs) (auto simp: apply_write_def rbind_Inr)

lemma apply_optional_frame:
  assumes "apply_optional w r cs = Inr cs'"
    and "\<And>x n s'. w x (snd cs) = Inr (n, s') \<Longrightarrow> same_index (snd cs) s'"
  shows "same_index (snd cs) (snd cs')"
  using assms by (auto simp: apply_optional_def split: option.splits intro: apply_write_frame)

lemma write_records_frame:
  assumes "write_records e r cs = Inr cs'"
  shows "same_index (snd cs) (snd cs')"
proof -
  from assms obtain c1 c2 c3 where
    w: "apply_optional (write_winner e) (winner r) cs = Inr c1"
    and d: "apply_optional (write_difficulty e) (difficulty r) c1 = Inr c2"
    and a: "apply_optional (write_authorship e) (authorship r) c2 = Inr c3"
    and p: "rfold (\<lambda>p. apply_write (write_participant p)) (participation r) c3 = Inr cs'"
    by (auto simp: write_records_def rbind_Inr)
  have "same_index (snd c3) (snd cs')"
    by (rule rfold_invariant [OF p, where P = "\<lambda>c. same_index (snd c3) (snd c)"])
      (auto intro: same_index_trans apply_write_frame write_participant_frame)
  moreover have "same_index (snd cs) (snd c1)" by (rule apply_optional_frame [OF w]) (rule write_winner_frame)
  moreover have "same_index (snd c1) (snd c2)" by (rule apply_optional_frame [OF d]) (rule write_difficulty_frame)
  moreover have "same_index (snd c2) (snd c3)" by (rule apply_optional_frame [OF a]) (rule write_authorship_frame)
  ultimately show ?thesis by (blast intro: same_index_trans)
qed

lemma recompute_frame: "recompute e s = Inr s' \<Longrightarrow> same_index s s'"
proof -
  assume "recompute e s = Inr s'"
  then obtain items where "rfold (\<lambda>(v, item) s. rbind (canonical_timestamp e (vr_last_authored_at item)) (\<lambda>t.
       Inr (s\<lparr>validator_authorship :=
         snd (upsert v (item\<lparr>vr_last_authored_at := t\<rparr>) (\<lambda>_. True) (validator_authorship s))\<rparr>))) items s = Inr s'"
    by (auto simp: recompute_def rbind_Inr)
  then show ?thesis
    by (rule rfold_invariant [where P = "same_index s"]) (auto simp: rbind_Inr same_index_def)
qed

lemma cutover_recompute_frame: "cutover_recompute e r s = Inr s' \<Longrightarrow> same_index s s'"
  by (auto simp: cutover_recompute_def recompute_frame split: if_splits)

lemmas frames = write_records_frame cutover_recompute_frame

section \<open>Coverage of a domain\<close>

text \<open>The completed heights of a domain, and the invariant of the persisted coverages.\<close>

definition domain_points :: "store \<Rightarrow> indexable \<Rightarrow> u64 set" where
  "domain_points s i = (case get_meta s (coverage_key i) of Some (MetaCoverage c) \<Rightarrow> covered c | _ \<Rightarrow> {})"

definition sound_coverage :: "u64 \<Rightarrow> coverage \<Rightarrow> bool" where
  "sound_coverage g c \<longleftrightarrow> coverage_wf c \<and> cov_gen c = g \<and> covered c \<subseteq> {cov_start c..}"

definition cov_inv :: "store \<Rightarrow> bool" where
  "cov_inv s \<longleftrightarrow> (\<forall>i v. get_meta s (coverage_key i) = Some v \<longrightarrow>
     (\<exists>c. v = MetaCoverage c \<and> sound_coverage (generation s i) c))"

lemma cov_inv_cong: "meta s = meta s' \<Longrightarrow> cov_inv s = cov_inv s'"
  using generation_cong [of s s'] get_meta_cong [of s s'] by (simp add: cov_inv_def)

lemma domain_points_cong: "meta s = meta s' \<Longrightarrow> domain_points s = domain_points s'"
  using get_meta_cong [of s s'] by (simp add: domain_points_def fun_eq_iff)

lemma sound_coverage_empty [simp]: "sound_coverage g (coverage_empty g n)"
  by (auto simp: sound_coverage_def) (simp add: coverage_empty_def)

lemma check_sound: "sound_coverage g c \<Longrightarrow> check_coverage g c = Inr c"
  by (auto simp: sound_coverage_def coverage_wf_def)

lemma load_coverage_sound:
  assumes "cov_inv s"
  obtains c where "load_coverage s i start = Inr c" and "sound_coverage (generation s i) c"
    and "covered c = domain_points s i" and "get_meta s (coverage_key i) = None \<Longrightarrow> c = coverage_empty (generation s i) start"
    and "get_meta s (coverage_key i) \<noteq> None \<Longrightarrow> get_meta s (coverage_key i) = Some (MetaCoverage c)"
proof (cases "get_meta s (coverage_key i)")
  case None
  then show ?thesis
    by (intro that [of "coverage_empty (generation s i) start"]) (auto simp: load_coverage_def domain_points_def)
next
  case (Some v)
  with assms obtain c where c: "v = MetaCoverage c" "sound_coverage (generation s i) c"
    by (auto simp: cov_inv_def)
  with Some show ?thesis
    by (intro that [of c]) (auto simp: load_coverage_def domain_points_def check_sound)
qed

lemma domain_points_save: "domain_points (save_coverage i c s) = (domain_points s)(i := covered c)"
  by (auto simp: domain_points_def get_meta_save fun_eq_iff)

lemma cov_inv_save: "cov_inv s \<Longrightarrow> sound_coverage (generation s i) c \<Longrightarrow> cov_inv (save_coverage i c s)"
  by (auto simp: cov_inv_def get_meta_save)

text \<open>Covering a range and saving the result when it changed.\<close>

lemma cover_sound:
  assumes "sound_coverage g c" and "cover t a b c = Inr (changed, c')"
  shows "sound_coverage g c'" and "covered c' = covered c \<union> {a..b}" and "a \<le> b" and "cov_start c \<le> a"
    and "changed = (\<not> {a..b} \<subseteq> covered c)" and "cov_start c' = cov_start c"
proof -
  have ok: "a \<le> b" "cov_start c \<le> a" using assms(2) by (auto simp: cover_def split: if_splits)
  have wf: "coverage_wf c" using assms(1) by (simp add: sound_coverage_def)
  obtain d where d: "cover t a b c = Inr (\<not> {a..b} \<subseteq> covered c, d)" "coverage_wf d"
    "covered d = covered c \<union> {a..b}" "cov_start d = cov_start c" "cov_gen d = cov_gen c"
    using cover_union [OF wf ok] by metis
  then have "c' = d" "changed = (\<not> {a..b} \<subseteq> covered c)" using assms(2) by simp_all
  with d ok assms(1) show "sound_coverage g c'" and "covered c' = covered c \<union> {a..b}" and "a \<le> b" and "cov_start c \<le> a"
    and "changed = (\<not> {a..b} \<subseteq> covered c)" and "cov_start c' = cov_start c"
    by (auto simp: sound_coverage_def)
qed

lemma cover_save:
  assumes "cov_inv s" and "load_coverage s i start = Inr c" and "cover t a b c = Inr (changed, c')"
    and "s' = (if changed then save_coverage i c' s else s)"
  shows "cov_inv s'" and "domain_points s' = (domain_points s)(i := domain_points s i \<union> {a..b})"
    and "changed = (\<not> {a..b} \<subseteq> domain_points s i)"
proof -
  obtain d where "load_coverage s i start = Inr d" "sound_coverage (generation s i) d" "covered d = domain_points s i"
    by (rule load_coverage_sound [OF assms(1)])
  with assms(2) have c: "sound_coverage (generation s i) c" "covered c = domain_points s i" by simp_all
  note cs = cover_sound [OF c(1) assms(3)]
  show "cov_inv s'" using assms(1,4) cs(1) by (simp add: cov_inv_save)
  show ch: "changed = (\<not> {a..b} \<subseteq> domain_points s i)" using cs(5) c(2) by simp
  show "domain_points s' = (domain_points s)(i := domain_points s i \<union> {a..b})"
    using assms(4) cs(2) c(2) ch by (auto simp: domain_points_save fun_eq_iff)
qed

lemma complete_domain_effect:
  assumes "cov_inv s" and "complete_domain e n i (changed, s) = Inr (changed', s')"
  shows "cov_inv s'" and "domain_points s' = (domain_points s)(i := insert n (domain_points s i))"
    and "changed' = (changed \<or> n \<notin> domain_points s i)" and "n \<in> domain_points s i \<Longrightarrow> s' = s"
    and "generation s' = generation s" and "same_index s (s'\<lparr>meta := meta s\<rparr>)" and "blocks s' = blocks s"
    and "\<And>k. (\<And>j. k \<noteq> coverage_key j) \<Longrightarrow> get_meta s' k = get_meta s k"
proof -
  obtain c fr c' where l: "load_coverage s i (if i = Authorship then n else 0) = Inr c"
    and cv: "cover (now e) n n c = Inr (fr, c')" and s': "s' = (if fr then save_coverage i c' s else s)"
    and ch: "changed' = (if fr then True else changed)"
    using assms(2) by (auto simp: complete_domain_def rbind_Inr split: if_splits)
  note eff = cover_save [OF assms(1) l cv s']
  show "cov_inv s'" by (rule eff(1))
  show "domain_points s' = (domain_points s)(i := insert n (domain_points s i))" using eff(2) by simp
  show "changed' = (changed \<or> n \<notin> domain_points s i)" using eff(3) ch by auto
  show "n \<in> domain_points s i \<Longrightarrow> s' = s" using eff(3) s' by auto
  show "generation s' = generation s" and "same_index s (s'\<lparr>meta := meta s\<rparr>)" and "blocks s' = blocks s"
    using s' by (auto simp: same_index_def)
  show "get_meta s' k = get_meta s k" if "\<And>j. k \<noteq> coverage_key j" for k
    using s' that by (auto simp: get_meta_save)
qed

lemma complete_domains_effect:
  assumes "cov_inv s" and "rfold (complete_domain e n) is (changed, s) = Inr (changed', s')"
  shows "cov_inv s' \<and> domain_points s' = (\<lambda>i. if i \<in> set is then insert n (domain_points s i) else domain_points s i)
     \<and> changed' = (changed \<or> (\<exists>i\<in>set is. n \<notin> domain_points s i))
     \<and> generation s' = generation s \<and> same_index s (s'\<lparr>meta := meta s\<rparr>) \<and> blocks s' = blocks s
     \<and> (\<forall>k. (\<forall>j. k \<noteq> coverage_key j) \<longrightarrow> get_meta s' k = get_meta s k)
     \<and> ((\<forall>i\<in>set is. n \<in> domain_points s i) \<longrightarrow> s' = s)"
  using assms
proof (induction "is" arbitrary: s changed)
  case Nil
  then show ?case by (auto simp: fun_eq_iff)
next
  case (Cons i "is")
  obtain ch1 s1 where 1: "complete_domain e n i (changed, s) = Inr (ch1, s1)"
    and 2: "rfold (complete_domain e n) is (ch1, s1) = Inr (changed', s')"
    using Cons.prems(2) by (auto simp: rbind_Inr)
  note e1 = complete_domain_effect [OF Cons.prems(1) 1] and e2 = Cons.IH [OF _ 2]
  have "same_index s (s'\<lparr>meta := meta s\<rparr>)" using e1(1,6) e2 by (simp add: same_index_def)
  moreover have "changed' = (changed \<or> (\<exists>j\<in>set (i # is). n \<notin> domain_points s j))"
    using e1(1,2,3) e2 by auto
  moreover have "(\<forall>j\<in>set (i # is). n \<in> domain_points s j) \<longrightarrow> s' = s"
    using e1(1,2,4) e2 by auto
  ultimately show ?case using e1 e2 by (auto simp: fun_eq_iff)
qed

end
