(* ===== verification/Store_Rows.thy ===== *)
theory Store_Rows
  imports Store_Ops
begin

text \<open>
  What the row writers of \<open>blocks.rs\<close> promise: enrichment of a winner never erases richer data, a poll
  reading survives the block difficulty that overrides it, and only whole-second budgets in the
  range of the column are stored.
\<close>

section \<open>Upserts\<close>

lemma map_of_upsert:
  "map_of (snd (upsert k v cond t)) = (case map_of t k of
     None \<Rightarrow> (map_of t)(k \<mapsto> v) | Some old \<Rightarrow> if cond old then (map_of t)(k \<mapsto> v) else map_of t)"
  by (auto simp: upsert_def fun_eq_iff map_add_def AList.update_conv' split: option.splits)

lemma distinct_upsert: "distinct (map fst t) \<Longrightarrow> distinct (map fst (snd (upsert k v cond t)))"
  by (auto simp: upsert_def AList.distinct_update map_of_eq_None_iff split: option.splits)

lemma upsert_count: "fst (upsert k v cond t) \<le> 1"
  by (simp add: upsert_def split: option.splits)

text \<open>\<open>INSERT ... SELECT ... ON CONFLICT DO NOTHING\<close>: rows of the target win.\<close>

lemma map_of_insert_missing:
  assumes "distinct (map fst rows)"
  shows "map_of (fold (\<lambda>(k, r) t. snd (upsert k r (\<lambda>_. False) t)) rows t) k =
    (case map_of t k of Some r \<Rightarrow> Some r | None \<Rightarrow> map_of rows k)"
  using assms
proof (induction rows arbitrary: t)
  case (Cons kr rows)
  obtain k' r where kr: "kr = (k', r)" by (cases kr)
  have none: "map_of rows k' = None" using Cons.prems kr by (simp add: map_of_eq_None_iff)
  have ih: "map_of (fold (\<lambda>(k, r) t. snd (upsert k r (\<lambda>_. False) t)) rows u) k =
      (case map_of u k of Some r \<Rightarrow> Some r | None \<Rightarrow> map_of rows k)" for u
    using Cons by simp
  show ?case using none by (auto simp: kr ih map_of_upsert split: option.splits)
qed (auto split: option.splits)

section \<open>Properties\<close>

text \<open>
  Writing a winner leaves a row for its hash; a stored topology and a stored device time are never
  erased by a record without them, a record with a device time sets it, and no other row changes.
\<close>

theorem winner_enrichment_keeps:
  assumes "write_winner e b s = Inr (n, s')" and "key = hash_to_string (br_block_hash b)"
  shows "\<exists>row. map_of (blocks s') key = Some row
    \<and> (\<forall>old. map_of (blocks s) key = Some old \<longrightarrow>
        (br_topology_hash row = None \<longrightarrow> br_topology_hash old = None \<and> br_topology_hash b = None)
        \<and> br_device_access_time_us row = or_else (br_device_access_time_us b) (br_device_access_time_us old))
    \<and> (map_of (blocks s) key = None \<longrightarrow> row = b \<and> n = 1)
    \<and> (\<forall>k. k \<noteq> key \<longrightarrow> map_of (blocks s') k = map_of (blocks s) k)"
proof -
  obtain s1 where u: "upsert_winner e b s = Inr (n, s1)" and bl: "blocks s' = blocks s1"
    using assms(1) by (auto simp: write_winner_def rbind_Inr refresh_node_summary_def Let_def split: option.splits)
  show ?thesis
  proof (cases "map_of (blocks s) key")
    case None
    then have "n = 1 \<and> blocks s1 = blocks s @ [(key, b)]"
      using u assms(2) by (auto simp: upsert_winner_def rbind_Inr Let_def upsert_def case_prod_beta)
    then show ?thesis using None bl by (auto simp: map_add_def split: option.splits)
  next
    case (Some old)
    define incoming where "incoming = b\<lparr>br_topology_hash := or_else (br_topology_hash b) (br_topology_hash old),
      br_device_access_time_us := or_else (br_device_access_time_us b) (br_device_access_time_us old)\<rparr>"
    have "(block_record_eq incoming old \<and> blocks s1 = blocks s) \<or> blocks s1 = AList.update key incoming (blocks s)"
      using u Some assms(2)
      by (auto simp: upsert_winner_def incoming_def [symmetric] rbind_Inr Let_def upsert_def case_prod_beta split: if_splits)
    then show ?thesis
    proof
      assume eq: "block_record_eq incoming old \<and> blocks s1 = blocks s"
      then have "br_device_access_time_us old = or_else (br_device_access_time_us b) (br_device_access_time_us old)"
        "br_topology_hash old = None \<Longrightarrow> or_else (br_topology_hash b) (br_topology_hash old) = None"
        by (auto simp: block_record_eq_def incoming_def option_eq_def split: option.splits)
      then show ?thesis using eq Some bl by (auto simp: or_else_def split: option.splits)
    next
      assume "blocks s1 = AList.update key incoming (blocks s)"
      then show ?thesis using Some bl
        by (auto simp: AList.update_conv' incoming_def or_else_def split: option.splits)
    qed
  qed
qed

text \<open>
  A poll reading survives the block difficulty that overrides it: after a block difficulty replaced the
  poll row of a height, the reading is kept aside, and resetting the difficulty domain brings it back
  as the history row of that height.
\<close>

theorem poll_reading_survives:
  assumes "write_difficulty e d s = Inr (n, s')" and "dr_source d = BlockSource"
    and "key = as_str (dr_observed_at_block d)"
    and "map_of (difficulty_history s) key = Some p" and "dr_source p = PollSource"
    and "map_of (poll_difficulty s) key = None"
    and "distinct (map fst (difficulty_history s))" and "distinct (map fst (poll_difficulty s))"
  shows "\<exists>t row. canonical_timestamp e (dr_observed_at p) = Inr t
    \<and> map_of (difficulty_history s') key = Some row \<and> dr_source row = BlockSource
    \<and> map_of (poll_difficulty s') key = Some (p\<lparr>dr_observed_at := t\<rparr>)
    \<and> map_of (difficulty_history (drop_owned_rows Difficulty g c s')) key = Some (p\<lparr>dr_observed_at := t\<rparr>)"
proof -
  obtain t t' where t: "canonical_timestamp e (dr_observed_at p) = Inr t"
    and s': "s' = s\<lparr>poll_difficulty := snd (upsert key (p\<lparr>dr_observed_at := t\<rparr>) (\<lambda>_. False) (poll_difficulty s)),
        difficulty_history := snd (upsert key (d\<lparr>dr_observed_at := t'\<rparr>) (\<lambda>old. dr_source old = PollSource) (difficulty_history s))\<rparr>"
    using assms by (auto simp: write_difficulty_def rbind_Inr Let_def case_prod_beta)
  have hist: "map_of (difficulty_history s') = (map_of (difficulty_history s))(key \<mapsto> d\<lparr>dr_observed_at := t'\<rparr>)"
    using assms(4,5) by (simp add: s' map_of_upsert)
  have dist: "distinct (map fst (difficulty_history s'))" "distinct (map fst (poll_difficulty s'))"
    using assms(7,8) distinct_upsert by (simp_all add: s')
  have poll: "map_of (poll_difficulty s') key = Some (p\<lparr>dr_observed_at := t\<rparr>)"
    using assms(6) by (simp add: s' map_of_upsert)
  have "map_of (filter (\<lambda>(_, r). dr_source r \<noteq> BlockSource) (difficulty_history s')) key = None"
  proof (rule ccontr)
    assume "map_of (filter (\<lambda>(_, r). dr_source r \<noteq> BlockSource) (difficulty_history s')) key \<noteq> None"
    then obtain r where r: "(key, r) \<in> set (difficulty_history s')" "dr_source r \<noteq> BlockSource"
      by (auto dest!: map_of_SomeD)
    have "r = d\<lparr>dr_observed_at := t'\<rparr>" using map_of_is_SomeI [OF dist(1) r(1)] hist by simp
    with r(2) assms(2) show False by simp
  qed
  then have "map_of (difficulty_history (drop_owned_rows Difficulty g c s')) key = Some (p\<lparr>dr_observed_at := t\<rparr>)"
    using poll by (simp add: drop_owned_rows_def map_of_insert_missing [OF dist(2)])
  then show ?thesis using t hist poll assms(2) by simp
qed

definition sample_engine :: engine where
  "sample_engine = \<lparr>now = ''2026-01-01T00:00:00.000Z'', pg = False, canonical_timestamp = Inr, iso = (\<lambda>_. Inr ''t''),
     sql_min = hd, sql_avg = hd, accepts_winner = (\<lambda>_. Inr ()), accepts_difficulty = (\<lambda>_. Inr ())\<rparr>"

definition empty_store :: "bool \<Rightarrow> store" where
  "empty_store w = \<lparr>writable = w, meta = [], finalized = [], blocks = [], node_summary = [],
     difficulty_history = [], poll_difficulty = [], authorship_blocks = [], validator_authorship = [],
     qblock_participation = [], scans = [], scan_winner_rows = [], unavailable = [], chain_head = None,
     node_descriptors = [], chain_miners = []\<rparr>"

definition sample_difficulty :: "difficulty_source \<Rightarrow> difficulty_record" where
  "sample_difficulty src = \<lparr>dr_observed_at_block = DecimalString ''7'', dr_difficulty_energy = 0, dr_min_diversity = 0,
     dr_min_solutions = 1, dr_observed_at = ''t'', dr_topology_hash = None, dr_source = src\<rparr>"

text \<open>On a store with one poll row.\<close>

theorem poll_reading_survives_witness:
  "\<exists>n s'. write_difficulty sample_engine (sample_difficulty BlockSource)
       ((empty_store True)\<lparr>difficulty_history := [(''7'', sample_difficulty PollSource)]\<rparr>) = Inr (n, s')
     \<and> map_of (difficulty_history (drop_owned_rows Difficulty 2 (coverage_empty 1 0) s')) ''7'' = Some (sample_difficulty PollSource)"
proof -
  let ?s = "(empty_store True)\<lparr>difficulty_history := [(''7'', sample_difficulty PollSource)]\<rparr>"
  obtain n s' where w: "write_difficulty sample_engine (sample_difficulty BlockSource) ?s = Inr (n, s')"
    by (simp add: write_difficulty_def sample_difficulty_def sample_engine_def upsert_def Let_def)
  have h: "dr_source (sample_difficulty BlockSource) = BlockSource"
    "''7'' = as_str (dr_observed_at_block (sample_difficulty BlockSource))"
    "map_of (difficulty_history ?s) ''7'' = Some (sample_difficulty PollSource)"
    "dr_source (sample_difficulty PollSource) = PollSource" "map_of (poll_difficulty ?s) ''7'' = None"
    "distinct (map fst (difficulty_history ?s))" "distinct (map fst (poll_difficulty ?s))"
    by (simp_all add: sample_difficulty_def empty_store_def)
  obtain t where "canonical_timestamp sample_engine (dr_observed_at (sample_difficulty PollSource)) = Inr t"
    and m: "map_of (difficulty_history (drop_owned_rows Difficulty 2 (coverage_empty 1 0) s')) ''7''
      = Some ((sample_difficulty PollSource)\<lparr>dr_observed_at := t\<rparr>)"
    using poll_reading_survives [OF w h] by blast
  then have "t = ''t''" by (simp add: sample_engine_def sample_difficulty_def)
  then have "(sample_difficulty PollSource)\<lparr>dr_observed_at := t\<rparr> = sample_difficulty PollSource" by (simp add: sample_difficulty_def)
  with w m show ?thesis by auto
qed

definition sample_winner :: block_record where
  "sample_winner = \<lparr>br_block_hash = hash_of_bytes (replicate 32 1), br_substrate_block_number = DecimalString ''7'',
     br_substrate_block_hash = hash_of_bytes (replicate 32 7), br_substrate_parent_hash = hash_of_bytes (replicate 32 6),
     br_timestamp = 0, br_miner_id = ''m'', br_energy = 0, br_diversity = 0, br_num_valid_solutions = 0, br_mining_time = 0,
     br_device_access_time_us = None, br_reward = DecimalString ''0'', br_qblock_id = DecimalString ''1'',
     br_nonce = DecimalString ''0'', br_num_nodes = 0, br_num_edges = 0, br_difficulty_energy = 0, br_min_diversity = 0,
     br_min_solutions = 0, br_finalized = True, br_topology_hash = None\<rparr>"

text \<open>On a first write.\<close>

theorem winner_enrichment_keeps_witness:
  "\<exists>n s' row. write_winner sample_engine sample_winner (empty_store True) = Inr (n, s')
     \<and> map_of (blocks s') (hash_to_string (br_block_hash sample_winner)) = Some row \<and> row = sample_winner \<and> n = 1"
proof -
  obtain n s' where w: "write_winner sample_engine sample_winner (empty_store True) = Inr (n, s')"
    by (simp add: write_winner_def upsert_winner_def sample_engine_def upsert_def empty_store_def Let_def)
  from winner_enrichment_keeps [OF w refl] w show ?thesis by (auto simp: empty_store_def)
qed

text \<open>
  A declared budget is stored exactly when it is absent or a whole number of seconds that fits the
  column; a stored budget is that number, and any other budget is refused without a change.
\<close>

theorem participant_budget_checked:
  "(case pr_budget_seconds p of
      None \<Rightarrow> \<exists>n s'. write_participant p s = Inr (n, s')
    | Some b \<Rightarrow>
        if is_finite b \<and> f64_units b mod f64_one = 0 \<and> 0 \<le> f64_units b \<and> f64_units b \<le> 2147483647 * f64_one
        then \<exists>n s' row. write_participant p s = Inr (n, s')
          \<and> map_of (qblock_participation s') (as_str (pr_qblock_id p), pr_account p) = Some row
          \<and> pw_budget_seconds row = Some (f64_units b div f64_one)
          \<and> 0 \<le> f64_units b div f64_one \<and> f64_units b div f64_one \<le> 2147483647
        else write_participant p s = Inl (Invalid ''invalid participant budget''))"
proof -
  let ?key = "(as_str (pr_qblock_id p), pr_account p)"
  let ?row = "\<lparr>pw_kind = pr_kind p, pw_budget_seconds = map_option f64_to_int (pr_budget_seconds p), pw_block_number = as_str (pr_block_number p)\<rparr>"
  have row: "map_of (snd (upsert ?key ?row (\<lambda>old. old \<noteq> ?row) (qblock_participation s))) ?key = Some ?row"
    by (simp add: map_of_upsert split: option.splits)
  show ?thesis
  proof (cases "pr_budget_seconds p")
    case None
    then show ?thesis by (simp add: write_participant_def case_prod_beta Let_def)
  next
    case (Some b)
    have iff: "invalid_budget b = (\<not> (is_finite b \<and> f64_units b mod f64_one = 0 \<and> 0 \<le> f64_units b \<and> f64_units b \<le> 2147483647 * f64_one))"
      by (auto simp: invalid_budget_def f64_lt_int_def f64_gt_int_def f64_integral_def)
    show ?thesis
    proof (cases "invalid_budget b")
      case True
      then show ?thesis using Some iff by (simp add: write_participant_def)
    next
      case False
      then have "0 \<le> f64_to_int b \<and> f64_to_int b \<le> 2147483647"
        using f64_int_range [of b 0 2147483647] by (simp add: invalid_budget_def)
      then show ?thesis using Some False iff row
        by (simp add: write_participant_def case_prod_beta Let_def f64_to_int_def)
    qed
  qed
qed

end
