(* ===== verification/Store_Steps.thy ===== *)
theory Store_Steps
  imports Store_Inv Store_Rows
begin

text \<open>
  The public operations as steps of a state machine: what each does to the indexing state, the
  invariant of every store reached from an empty one, and the facts that hold between any two
  states of a history.
\<close>

section \<open>What a committed block changes\<close>

lemma commit_block_cases:
  assumes "commit_block e b s = Inr (r, s')"
  obtains (stale) guards where "collect_guards (bc_guards b) [] = Inr guards" and "\<not> guards_current s guards"
      and "r = StaleGeneration" and "s' = s"
    | (committed) guards n c0 s0 ch s1 s2 where "collect_guards (bc_guards b) [] = Inr guards"
      and "\<forall>i\<in>set (affected_domains b). map_of guards i \<noteq> None" and "guards_current s guards"
      and "height (bc_height b) = Inr n" and "network s (bc_genesis b) = Inr ()"
      and "check_known s (bc_height b) (bc_hash b) = Inr ()" and "check_provenance b = Inr ()"
      and "write_records e (bc_records b) (False, s) = Inr (c0, s0)"
      and "rfold (complete_domain e n) (bc_completed b) (c0, s0) = Inr (ch, s1)"
      and "cutover_recompute e (bc_records b) s1 = Inr s2"
      and "r = (if ch then Applied else AlreadyApplied)" and "s' = record_finalized (bc_height b) (bc_hash b) s2"
      and "writable s"
  using assms
  by (auto simp: commit_block_def rbind_Inr ensure_writable_def list_ex_iff split: if_splits)

lemma record_finalized_fields [simp]:
  "meta (record_finalized h x s) = meta s" "writable (record_finalized h x s) = writable s"
  "blocks (record_finalized h x s) = blocks s" "scans (record_finalized h x s) = scans s"
  "scan_winner_rows (record_finalized h x s) = scan_winner_rows s" "unavailable (record_finalized h x s) = unavailable s"
  by (simp_all add: record_finalized_def)

lemma map_of_record_finalized:
  "map_of (finalized (record_finalized h x s)) k =
     (case map_of (finalized s) k of Some y \<Rightarrow> Some y
      | None \<Rightarrow> if k = as_str h then Some (hash_to_string x) else None)"
  by (auto simp: record_finalized_def upsert_def map_of_append map_add_def split: option.splits)

text \<open>The indexing part of the store after a commit that was not stale.\<close>

lemma commit_block_effect:
  assumes "cov_inv s" and "commit_block e b s = Inr (r, s')" and "r \<noteq> StaleGeneration"
  obtains n where "height (bc_height b) = Inr n" and "cov_inv s'" and "generation s' = generation s"
    and "domain_points s' = (\<lambda>i. if i \<in> set (bc_completed b) then insert n (domain_points s i) else domain_points s i)"
    and "\<exists>i\<in>set (bc_completed b). n \<notin> domain_points s i \<Longrightarrow> r = Applied"
    and "scans s' = scans s" and "scan_winner_rows s' = scan_winner_rows s" and "unavailable s' = unavailable s"
    and "writable s' = writable s"
    and "\<And>k. map_of (finalized s') k = (case map_of (finalized s) k of Some y \<Rightarrow> Some y
      | None \<Rightarrow> if k = as_str (bc_height b) then Some (hash_to_string (bc_hash b)) else None)"
    and "\<And>k. (\<And>j. k \<noteq> coverage_key j) \<Longrightarrow> get_meta s' k = get_meta s k"
    and "\<forall>i\<in>set (affected_domains b). (\<exists>g\<in>set (bc_guards b). guard_indexable g = i)"
    and "\<forall>g\<in>set (bc_guards b). generation s (guard_indexable g) = expected g"
  using assms(2)
proof (cases rule: commit_block_cases)
  case (committed guards n c0 s0 ch s1 s2)
  have w: "same_index s s0" using write_records_frame [OF committed(8)] by simp
  then have inv0: "cov_inv s0" "domain_points s0 = domain_points s" "generation s0 = generation s" "get_meta s0 = get_meta s"
    using assms(1) cov_inv_cong [of s0 s] domain_points_cong [of s0 s] generation_cong [of s0 s] get_meta_cong [of s0 s]
    by (simp_all add: same_index_def)
  note c = complete_domains_effect [OF inv0(1) committed(9)]
  have f: "same_index s1 s2" by (rule cutover_recompute_frame [OF committed(10)])
  then have "meta s' = meta s1" using committed(12) by (simp add: same_index_def)
  then have m: "cov_inv s'" "domain_points s' = domain_points s1" "generation s' = generation s1" "get_meta s' = get_meta s1"
    using c cov_inv_cong [of s' s1] domain_points_cong [of s' s1] generation_cong [of s' s1] get_meta_cong [of s' s1]
    by simp_all
  have fin: "finalized s2 = finalized s" using w c f by (simp add: same_index_def)
  have gu: "map_of guards = map_of (map (\<lambda>g. (guard_indexable g, expected g)) (rev (bc_guards b)))
     \<and> set guards = (\<lambda>g. (guard_indexable g, expected g)) ` set (bc_guards b)"
  proof -
    have "collect_guards gs acc = Inr out \<Longrightarrow>
        out = rev (map (\<lambda>g. (guard_indexable g, expected g)) gs) @ acc" for gs acc out
      by (induction gs arbitrary: acc) (auto split: if_splits)
    from this [OF committed(1)] show ?thesis by (simp add: rev_map)
  qed
  show ?thesis
  proof (rule that [OF committed(4) m(1)])
    show "generation s' = generation s" using m(3) c inv0(3) by simp
    show "domain_points s' = (\<lambda>i. if i \<in> set (bc_completed b) then insert n (domain_points s i) else domain_points s i)"
      using m(2) c unfolding inv0(2) by simp
    show "r = Applied" if "\<exists>i\<in>set (bc_completed b). n \<notin> domain_points s i"
      using that c inv0(2) committed(11) by auto
    show "scans s' = scans s" "scan_winner_rows s' = scan_winner_rows s" "unavailable s' = unavailable s" "writable s' = writable s"
      using w c f committed(12) by (simp_all add: same_index_def)
    show "map_of (finalized s') k = (case map_of (finalized s) k of Some y \<Rightarrow> Some y
      | None \<Rightarrow> if k = as_str (bc_height b) then Some (hash_to_string (bc_hash b)) else None)" for k
      using fin by (simp add: committed(12) map_of_record_finalized)
    show "get_meta s' k = get_meta s k" if "\<And>j. k \<noteq> coverage_key j" for k
      using m(4) c inv0(4) that by simp
    show "\<forall>i\<in>set (affected_domains b). (\<exists>g\<in>set (bc_guards b). guard_indexable g = i)"
      using committed(2) gu by (auto simp: map_of_eq_None_iff image_iff)
    show "\<forall>g\<in>set (bc_guards b). generation s (guard_indexable g) = expected g"
      using committed(3) gu by (auto simp: guards_current_def list_all_iff)
  qed
qed (use assms(3) in simp)

section \<open>The invariant\<close>

text \<open>
  Absence markers and scans belong to the current generation of their domain; a marker's stored
  successor is the next height; every discovered winner belongs to a stored scan.
\<close>

definition marker_ok :: "(indexable \<Rightarrow> u64) \<Rightarrow> (string \<times> string \<times> string) \<times> unavailable_row \<Rightarrow> bool" where
  "marker_ok gen m \<longleftrightarrow> (\<exists>i (n :: u64). fst m = (indexable_name i, unsigned_text (gen i), unsigned_text n)
     \<and> ur_next_height (snd m) = map_option unsigned_text (checked_add n 1))"

definition scan_ok :: "(indexable \<Rightarrow> u64) \<Rightarrow> scan_row \<Rightarrow> bool" where
  "scan_ok gen r \<longleftrightarrow> (\<exists>i. sr_domain r = indexable_name i \<and> sr_generation r = unsigned_text (gen i))"

definition store_inv :: "store \<Rightarrow> bool" where
  "store_inv s \<longleftrightarrow> cov_inv s
     \<and> (\<forall>m\<in>set (unavailable s). marker_ok (generation s) m)
     \<and> (\<forall>sid r. map_of (scans s) sid = Some r \<longrightarrow> scan_ok (generation s) r)
     \<and> distinct (map fst (scans s))
     \<and> (\<forall>w\<in>set (scan_winner_rows s). fst w \<in> dom (map_of (scans s)) \<and> (\<exists>n :: u64. snd w = unsigned_text n))"

lemma store_inv_cov: "store_inv s \<Longrightarrow> cov_inv s"
  by (simp add: store_inv_def)

lemma store_inv_frame:
  assumes "store_inv s" and "cov_inv s'" and "generation s' = generation s" and "scans s' = scans s"
    and "scan_winner_rows s' = scan_winner_rows s" and "unavailable s' = unavailable s"
  shows "store_inv s'"
  using assms by (simp add: store_inv_def)

lemma height_text:
  assumes "decimal_wf h" and "height h = Inr n"
  shows "as_str h = unsigned_text n"
proof -
  have "canonical (as_str h)" "parse_unsigned (as_str h) = Some n"
    using assms by (auto simp: decimal_wf_def height_def)
  then show ?thesis
    using parse_unsigned_canonical canonical_nat_text by (metis unsigned_text_def)
qed

lemma commit_block_inv: "store_inv s \<Longrightarrow> commit_block e b s = Inr (r, s') \<Longrightarrow> store_inv s'"
proof (cases "r = StaleGeneration")
  case True
  assume "store_inv s" and "commit_block e b s = Inr (r, s')"
  then show ?thesis
    by (auto elim!: commit_block_cases simp: True split: if_splits)
next
  case False
  assume inv: "store_inv s" and c: "commit_block e b s = Inr (r, s')"
  show ?thesis
    by (rule commit_block_effect [OF store_inv_cov [OF inv] c False]) (rule store_inv_frame [OF inv])
qed

lemma begin_scan_inv: "store_inv s \<Longrightarrow> begin_scan sc s = Inr (r, s') \<Longrightarrow> store_inv s'"
proof -
  assume inv: "store_inv s" and b: "begin_scan sc s = Inr (r, s')"
  show ?thesis
  proof (cases "s' = s")
    case False
    then have new: "map_of (scans s) (scan_id sc) = None"
      and s': "\<exists>row. s' = s\<lparr>scans := scans s @ [(scan_id sc, row)]\<rparr> \<and> scan_ok (generation s) row"
      using b by (auto simp: begin_scan_def rbind_Inr scan_ok_def split: if_splits option.splits)
    then obtain row where row: "s' = s\<lparr>scans := scans s @ [(scan_id sc, row)]\<rparr>" "scan_ok (generation s) row" by blast
    then have "generation s' = generation s" "cov_inv s'"
      using generation_cong [of s' s] cov_inv_cong [of s' s] inv by (simp_all add: store_inv_def)
    then show ?thesis
      using inv row new by (auto simp: store_inv_def map_add_def map_of_eq_None_iff split: option.splits if_splits)
  qed (use inv in simp)
qed

lemma add_scan_winner_Inr:
  "add_scan_winner sid c h s = Inr s' \<longleftrightarrow> (\<exists>n. height h = Inr n \<and> n \<le> c
     \<and> s' = s\<lparr>scan_winner_rows := (if (sid, as_str h) \<in> set (scan_winner_rows s) then scan_winner_rows s
        else scan_winner_rows s @ [(sid, as_str h)])\<rparr>)"
  by (auto simp: add_scan_winner_def rbind_Inr not_less)

lemma add_scan_winners:
  assumes "rfold (add_scan_winner sid c) hs s = Inr s'" and "\<forall>h\<in>set hs. decimal_wf h"
  shows "\<exists>rows. s' = s\<lparr>scan_winner_rows := rows\<rparr> \<and> set rows = set (scan_winner_rows s) \<union> (\<lambda>h. (sid, as_str h)) ` set hs
     \<and> (\<forall>h\<in>set hs. \<exists>n. as_str h = unsigned_text n \<and> n \<le> c)"
  using assms
proof (induction hs arbitrary: s)
  case Nil
  then show ?case by (intro exI [of _ "scan_winner_rows s"]) simp
next
  case (Cons h hs)
  then obtain n s1 where n: "height h = Inr n" "n \<le> c"
    and s1: "s1 = s\<lparr>scan_winner_rows := (if (sid, as_str h) \<in> set (scan_winner_rows s) then scan_winner_rows s
        else scan_winner_rows s @ [(sid, as_str h)])\<rparr>"
    and rest: "rfold (add_scan_winner sid c) hs s1 = Inr s'"
    by (auto simp: rbind_Inr add_scan_winner_Inr simp del: if_split)
  from Cons.IH [OF rest] Cons.prems(2) obtain rows where rows: "s' = s1\<lparr>scan_winner_rows := rows\<rparr>"
    "set rows = set (scan_winner_rows s1) \<union> (\<lambda>h. (sid, as_str h)) ` set hs"
    "\<forall>h\<in>set hs. \<exists>n. as_str h = unsigned_text n \<and> n \<le> c" by auto
  have "as_str h = unsigned_text n" using height_text n Cons.prems(2) by simp
  moreover have "set (scan_winner_rows s1) = insert (sid, as_str h) (set (scan_winner_rows s))"
    by (auto simp: s1)
  ultimately show ?case
    using rows n by (intro exI [of _ rows]) (auto simp: s1)
qed

lemma append_scan_page_cases:
  assumes "append_scan_page sid ec nc hs s = Inr (r, s')"
  obtains (stale) "r = StaleGeneration" and "s' = s"
    | (appended) row i c s1 where "r = Applied" and "map_of (scans s) sid = Some row" and "\<not> sr_finished row" and "sr_cursor row = ec"
      and "indexable_of_name (sr_domain row) = Inr i" and "sr_generation row = unsigned_text (generation s i)"
      and "parse_unsigned (sr_finalized_height row) = Some c" and "rfold (add_scan_winner sid c) hs s = Inr s1"
      and "s' = s1\<lparr>scans := AList.update sid (row\<lparr>sr_cursor := nc, sr_finished := (nc = None)\<rparr>) (scans s1)\<rparr>"
  using assms by (auto simp: append_scan_page_def rbind_Inr split: if_splits)

lemma append_scan_page_inv:
  assumes inv: "store_inv s" and wf: "\<forall>h\<in>set hs. decimal_wf h"
    and a: "append_scan_page sid ec nc hs s = Inr (r, s')"
  shows "store_inv s'"
  using a
proof (cases rule: append_scan_page_cases)
  case (appended row i c s1)
  note row = appended(2) and f = appended(8) and s' = appended(9)
  obtain rows where rows: "s1 = s\<lparr>scan_winner_rows := rows\<rparr>"
    "set rows = set (scan_winner_rows s) \<union> (\<lambda>h. (sid, as_str h)) ` set hs"
    "\<forall>h\<in>set hs. \<exists>n. as_str h = unsigned_text n \<and> n \<le> c"
    using add_scan_winners [OF f wf] by blast
  have "meta s' = meta s" using s' rows by simp
  then have "generation s' = generation s" "cov_inv s'"
    using generation_cong [of s' s] cov_inv_cong [of s' s] inv by (simp_all add: store_inv_def)
  moreover have "map_of (scans s') = (map_of (scans s))(sid \<mapsto>
      row\<lparr>sr_cursor := nc, sr_finished := (nc = None)\<rparr>)"
    by (simp add: s' rows AList.update_conv')
  moreover have "distinct (map fst (scans s'))"
    using inv s' rows by (simp add: store_inv_def AList.distinct_update)
  moreover have "scan_winner_rows s' = rows" "unavailable s' = unavailable s" using s' rows by simp_all
  ultimately show ?thesis
    using inv row rows(2,3) by (auto simp: store_inv_def scan_ok_def)
qed (use inv in simp)

section \<open>Completing a range\<close>

lemma check_pages_all: "(check_pages c f t rows = Inr ()) = (\<forall>h\<in>set rows. check_winner c f t h = Inr ())"
proof (induction c f t rows rule: check_pages.induct)
  case (1 c f t rows)
  have all: "(\<exists>ys. rmap_list g xs = Inr (ys :: unit list)) = (\<forall>x\<in>set xs. g x = Inr ())" for g :: "string \<Rightarrow> store_error + unit" and xs
    by (induction xs) (auto simp: rbind_Inr)
  show ?case
  proof (cases "take 512 rows = []")
    case False
    then have "(check_pages c f t rows = Inr ()) =
        ((\<forall>h\<in>set (take 512 rows). check_winner c f t h = Inr ()) \<and> (\<forall>h\<in>set (drop 512 rows). check_winner c f t h = Inr ()))"
      using 1 all [of "check_winner c f t" "take 512 rows"] by (subst check_pages.simps) (auto simp: rbind_Inr)
    then show ?thesis by (metis append_take_drop_id set_append Un_iff)
  qed (subst check_pages.simps, simp)
qed

lemma commit_range_cases:
  assumes "commit_range e rc s = Inr (r, s')"
  obtains (stale) "r = StaleGeneration" and "s' = s" and "generation s (rc_indexable rc) \<noteq> rc_expected_generation rc"
    | (covered) f t row h c changed c' where "height (rc_from rc) = Inr f" and "height (rc_through rc) = Inr t" and "f \<le> t"
      and "generation s (rc_indexable rc) = rc_expected_generation rc" and "network s (rc_genesis rc) = Inr ()"
      and "map_of (scans s) (rc_scan_id rc) = Some row" and "sr_finished row"
      and "sr_domain row = indexable_name (rc_indexable rc)" and "sr_generation row = unsigned_text (rc_expected_generation rc)"
      and "parse_unsigned (sr_finalized_height row) = Some h" and "t \<le> h" and "rc_indexable rc \<noteq> Authorship"
      and "load_coverage s (rc_indexable rc) 0 = Inr c"
      and "check_pages c f t (ordered_heights (map snd (filter (\<lambda>(sid, _). sid = rc_scan_id rc) (scan_winner_rows s)))) = Inr ()"
      and "cover (now e) f t c = Inr (changed, c')" and "r = (if changed then Applied else AlreadyApplied)"
      and "s' = (if changed then save_coverage (rc_indexable rc) c' s else s)"
  using assms
  by (auto simp: commit_range_def rbind_Inr not_less split: if_splits option.splits)

lemma commit_range_inv: "store_inv s \<Longrightarrow> commit_range e rc s = Inr (r, s') \<Longrightarrow> store_inv s'"
proof -
  assume inv: "store_inv s" and c: "commit_range e rc s = Inr (r, s')"
  from c show ?thesis
  proof (cases rule: commit_range_cases)
    case (covered f t row h c changed c')
    have "cov_inv s'" by (rule cover_save [OF store_inv_cov [OF inv] covered(13) covered(15) covered(17)])
    then show ?thesis using covered(17) by (intro store_inv_frame [OF inv]) auto
  qed (use inv in simp)
qed

section \<open>The other operations\<close>

lemma save_coverage_inv: "store_inv s \<Longrightarrow> sound_coverage (generation s i) c \<Longrightarrow> store_inv (save_coverage i c s)"
  by (rule store_inv_frame) (auto simp: cov_inv_save store_inv_cov)

lemma set_pruned_floor_cases:
  assumes "set_pruned_floor e g floor s = Inr (r, s')"
  obtains (stale) "r = StaleGeneration" and "s' = s"
    | (floored) c f where "r = Applied" and "generation s (guard_indexable g) = expected g" and "load_coverage s (guard_indexable g) 0 = Inr c"
      and "s' = save_coverage (guard_indexable g) (c\<lparr>pruned_floor := f, updated_at := Some (now e)\<rparr>) s"
  using assms by (auto simp: set_pruned_floor_def rbind_Inr split: if_splits)

lemma sound_coverage_floor:
  "covered (c\<lparr>pruned_floor := f, updated_at := u\<rparr>) = covered c"
  "sound_coverage g (c\<lparr>pruned_floor := f, updated_at := u\<rparr>) = sound_coverage g c"
proof -
  show cov: "covered (c\<lparr>pruned_floor := f, updated_at := u\<rparr>) = covered c"
    by (simp add: covered_def contains_def)
  show "sound_coverage g (c\<lparr>pruned_floor := f, updated_at := u\<rparr>) = sound_coverage g c"
    by (simp add: sound_coverage_def cov coverage_wf_iff)
qed

lemma set_pruned_floor_effect:
  assumes "cov_inv s" and "set_pruned_floor e g floor s = Inr (r, s')"
  shows "s' = s \<or> (\<exists>c. s' = save_coverage (guard_indexable g) c s \<and> sound_coverage (generation s (guard_indexable g)) c
     \<and> covered c = domain_points s (guard_indexable g))"
  using assms(2)
proof (cases rule: set_pruned_floor_cases)
  case (floored c f)
  obtain d where "load_coverage s (guard_indexable g) 0 = Inr d" "sound_coverage (generation s (guard_indexable g)) d"
    "covered d = domain_points s (guard_indexable g)"
    by (rule load_coverage_sound [OF assms(1)])
  then show ?thesis using floored by (auto simp: sound_coverage_floor)
qed simp

lemma set_pruned_floor_inv: "store_inv s \<Longrightarrow> set_pruned_floor e g floor s = Inr (r, s') \<Longrightarrow> store_inv s'"
  using set_pruned_floor_effect [of s e g floor r s'] by (auto simp: store_inv_cov intro: save_coverage_inv)

lemma initialize_coverage_inv: "store_inv s \<Longrightarrow> initialize_coverage i g h s = Inr (r, s') \<Longrightarrow> store_inv s'"
  by (auto simp: initialize_coverage_def rbind_Inr split: if_splits intro!: save_coverage_inv)

lemma set_meta_other_inv:
  assumes "store_inv s" and "\<And>j. k \<noteq> generation_key j" and "\<And>j. k \<noteq> coverage_key j"
  shows "store_inv (set_meta k v s)"
proof -
  have "generation (set_meta k v s) = generation s" using assms(2) by simp
  moreover have "coverage_key j \<noteq> k" for j using assms(3) by metis
  ultimately have "cov_inv (set_meta k v s)"
    using store_inv_cov [OF assms(1)] by (simp add: cov_inv_def)
  then show ?thesis using assms by (intro store_inv_frame [OF assms(1)]) auto
qed

lemma set_finalized_target_inv: "store_inv s \<Longrightarrow> set_finalized_target t s = Inr (r, s') \<Longrightarrow> store_inv s'"
  by (auto simp: set_finalized_target_def rbind_Inr Let_def split: if_splits option.splits meta_value.splits
      intro!: set_meta_other_inv dest: key_distinct(7,8) [THEN notE, OF sym])

lemma bind_network_with_inv: "store_inv s \<Longrightarrow> bind_network_with g v s = Inr (u, s') \<Longrightarrow> store_inv s'"
  by (auto simp: bind_network_with_def rbind_Inr split: if_splits option.splits
      intro!: set_meta_other_inv dest: key_distinct(5,6) [THEN notE, OF sym])

lemma mark_unavailable_cases:
  assumes "mark_unavailable e g b s = Inr (r, s')"
  obtains (unchanged) "s' = s"
    | (marked) n c where "height (ub_height b) = Inr n"
      and "generation s (guard_indexable (ub_guard b)) = expected (ub_guard b)"
      and "load_coverage s (guard_indexable (ub_guard b)) 0 = Inr c" and "\<not> contains c n n"
      and "check_known s (ub_height b) (ub_hash b) = Inr ()"
      and "s' = record_finalized (ub_height b) (ub_hash b) (s\<lparr>unavailable := snd (upsert
        (indexable_name (guard_indexable (ub_guard b)), unsigned_text (expected (ub_guard b)), as_str (ub_height b))
        (absence_row e b n) (\<lambda>_. False) (unavailable s))\<rparr>)"
  using assms
  by (auto simp: mark_unavailable_def rbind_Inr Let_def case_prod_beta split: if_splits)

lemma mark_unavailable_inv:
  assumes inv: "store_inv s" and "decimal_wf (ub_height b)" and m: "mark_unavailable e g b s = Inr (r, s')"
  shows "store_inv s'"
  using m
proof (cases rule: mark_unavailable_cases)
  case (marked n c)
  have "as_str (ub_height b) = unsigned_text n" by (rule height_text [OF assms(2) marked(1)])
  then have new: "marker_ok (generation s) ((indexable_name (guard_indexable (ub_guard b)),
      unsigned_text (expected (ub_guard b)), as_str (ub_height b)), absence_row e b n)"
    using marked(2) by (auto simp: marker_ok_def absence_row_def)
  have un: "set (unavailable s') \<subseteq> insert ((indexable_name (guard_indexable (ub_guard b)),
      unsigned_text (expected (ub_guard b)), as_str (ub_height b)), absence_row e b n) (set (unavailable s))"
    using marked(6) by (auto simp: upsert_def split: option.splits)
  have "meta s' = meta s" using marked(6) by simp
  then have "generation s' = generation s" "cov_inv s'"
    using generation_cong [of s' s] cov_inv_cong [of s' s] store_inv_cov [OF inv] by simp_all
  then show ?thesis using inv new un marked(6) by (auto simp: store_inv_def)
qed (use inv in simp)

section \<open>Reindexing\<close>

text \<open>The metadata after one domain is reset; \<open>start\<close> is the start of its old coverage.\<close>

definition reset_meta :: "indexable \<Rightarrow> u64 \<Rightarrow> u64 \<Rightarrow> store \<Rightarrow> string \<Rightarrow> meta_value option" where
  "reset_meta i g start s k =
     (if k = generation_key i then Some (MetaText (unsigned_text g))
      else if k = coverage_key i then
        (if i = Authorship \<and> 0 < start then Some (MetaCoverage (coverage_empty g start)) else None)
      else if i = Authorship \<and> k = ''indexer.authorship.cutover'' then None
      else get_meta s k)"

lemma drop_scans_fields [simp]:
  "meta (drop_scans i s) = meta s" "finalized (drop_scans i s) = finalized s" "writable (drop_scans i s) = writable s"
  "unavailable (drop_scans i s) = unavailable s" "blocks (drop_scans i s) = blocks s"
  by (simp_all add: drop_scans_def Let_def)

lemma drop_owned_fields:
  "finalized (drop_owned_rows i g c s) = finalized s" "writable (drop_owned_rows i g c s) = writable s"
  "unavailable (drop_owned_rows i g c s) = unavailable s" "scans (drop_owned_rows i g c s) = scans s"
  "scan_winner_rows (drop_owned_rows i g c s) = scan_winner_rows s"
  by (cases i; simp add: drop_owned_rows_def Let_def)+

lemma get_meta_fields [simp]:
  "get_meta (s\<lparr>blocks := x1\<rparr>) = get_meta s" "get_meta (s\<lparr>node_summary := x2\<rparr>) = get_meta s"
  "get_meta (s\<lparr>difficulty_history := x3\<rparr>) = get_meta s" "get_meta (s\<lparr>qblock_participation := x4\<rparr>) = get_meta s"
  "get_meta (s\<lparr>authorship_blocks := x5\<rparr>) = get_meta s" "get_meta (s\<lparr>unavailable := x6\<rparr>) = get_meta s"
  "get_meta (drop_scans i s) = get_meta s"
  by (simp_all add: get_meta_def fun_eq_iff)

lemma get_meta_drop_owned:
  "get_meta (drop_owned_rows i g c s) k =
     (if i = Authorship \<and> k = coverage_key i \<and> 0 < cov_start c then Some (MetaCoverage (coverage_empty g (cov_start c)))
      else if i = Authorship \<and> k = ''indexer.authorship.cutover'' then None else get_meta s k)"
  by (cases i) (auto simp: drop_owned_rows_def Let_def get_meta_save)

lemma reindex_one_cases:
  assumes "cov_inv s" and "reindex_one i s = Inr (g, s')"
  obtains c where "load_coverage s i 0 = Inr c" and "sound_coverage (generation s i) c" and "generation s i < max_word"
    and "g = \<lparr>guard_indexable = i, expected = generation s i + 1\<rparr>"
    and "\<And>k. get_meta s' k = reset_meta i (generation s i + 1) (cov_start c) s k"
    and "unavailable s' = filter (\<lambda>((d, _), _). d \<noteq> indexable_name i) (unavailable s)"
    and "scans s' = filter (\<lambda>(_, r). sr_domain r \<noteq> indexable_name i) (scans s)"
    and "scan_winner_rows s' = filter (\<lambda>(sid, _). sid \<notin> fst ` set (filter (\<lambda>(_, r). sr_domain r = indexable_name i) (scans s))) (scan_winner_rows s)"
    and "finalized s' = finalized s" and "writable s' = writable s"
proof -
  obtain c where c: "load_coverage s i 0 = Inr c" "sound_coverage (generation s i) c"
    by (rule load_coverage_sound [OF assms(1)])
  obtain nxt where nxt: "checked_add (generation s i) 1 = Some nxt"
    using assms(2) by (auto simp: reindex_one_def rbind_Inr)
  then have lt: "generation s i < max_word" and nx: "nxt = generation s i + 1" by (simp_all add: checked_add1_Some)
  define s2 where "s2 = delete_meta (coverage_key i) (set_meta (generation_key i) (MetaText (unsigned_text nxt)) s)"
  define s4 where "s4 = drop_owned_rows i nxt c (s2\<lparr>unavailable := filter (\<lambda>((d, _), _). d \<noteq> indexable_name i) (unavailable s2)\<rparr>)"
  have r: "g = \<lparr>guard_indexable = i, expected = nxt\<rparr>" "s' = drop_scans i s4"
    using assms(2) nxt c(1) by (simp_all add: reindex_one_def s4_def s2_def Let_def)
  show ?thesis
  proof (rule that [OF c lt])
    show "g = \<lparr>guard_indexable = i, expected = generation s i + 1\<rparr>" using r(1) nx by simp
    show "get_meta s' k = reset_meta i (generation s i + 1) (cov_start c) s k" for k
      by (auto simp: r(2) s4_def s2_def get_meta_drop_owned reset_meta_def nx)
    show "unavailable s' = filter (\<lambda>((d, _), _). d \<noteq> indexable_name i) (unavailable s)"
      "finalized s' = finalized s" "writable s' = writable s"
      by (simp_all add: r(2) s4_def s2_def drop_owned_fields)
    show "scans s' = filter (\<lambda>(_, r). sr_domain r \<noteq> indexable_name i) (scans s)"
      "scan_winner_rows s' = filter (\<lambda>(sid, _). sid \<notin> fst ` set (filter (\<lambda>(_, r). sr_domain r = indexable_name i) (scans s))) (scan_winner_rows s)"
      by (simp_all add: r(2) drop_scans_def Let_def s4_def s2_def drop_owned_fields)
  qed
qed

lemma reindex_one_effect:
  assumes inv: "store_inv s" and "reindex_one i s = Inr (g, s')"
  shows "store_inv s'" and "generation s' = (generation s)(i := generation s i + 1)"
    and "generation s i < max_word" and "domain_points s' = (domain_points s)(i := {})"
    and "g = \<lparr>guard_indexable = i, expected = generation s i + 1\<rparr>"
    and "\<forall>((d, _), _)\<in>set (unavailable s'). d \<noteq> indexable_name i"
    and "\<forall>(_, r)\<in>set (scans s'). sr_domain r \<noteq> indexable_name i"
    and "finalized s' = finalized s" and "writable s' = writable s"
    and "get_meta s' ''dashboard.genesis'' = get_meta s ''dashboard.genesis''"
    and "get_meta s' ''dashboard.finalized.target'' = get_meta s ''dashboard.finalized.target''"
    and "set (unavailable s') \<subseteq> set (unavailable s)" and "set (scans s') \<subseteq> set (scans s)"
proof -
  obtain c where c: "sound_coverage (generation s i) c" and lt: "generation s i < max_word"
    and g: "g = \<lparr>guard_indexable = i, expected = generation s i + 1\<rparr>"
    and m: "\<And>k. get_meta s' k = reset_meta i (generation s i + 1) (cov_start c) s k"
    and u: "unavailable s' = filter (\<lambda>((d, _), _). d \<noteq> indexable_name i) (unavailable s)"
    and sc: "scans s' = filter (\<lambda>(_, r). sr_domain r \<noteq> indexable_name i) (scans s)"
    and w: "scan_winner_rows s' = filter (\<lambda>(sid, _). sid \<notin> fst ` set (filter (\<lambda>(_, r). sr_domain r = indexable_name i) (scans s))) (scan_winner_rows s)"
    and f: "finalized s' = finalized s" "writable s' = writable s"
    using reindex_one_cases [OF store_inv_cov [OF inv] assms(2)] by metis
  have pos: "0 < generation s i + 1"
    using lt generation_pos [of s i] word_less_succ [OF lt] by (meson order.strict_trans)
  have gen: "generation s' = (generation s)(i := generation s i + 1)"
    using pos by (auto simp: generation_def m reset_meta_def fun_eq_iff)
  have pts: "domain_points s' = (domain_points s)(i := {})"
    by (auto simp: domain_points_def m reset_meta_def fun_eq_iff)
  have cov: "cov_inv s'"
    unfolding cov_inv_def gen
  proof (intro allI impI)
    fix j v assume "get_meta s' (coverage_key j) = Some v"
    then show "\<exists>c. v = MetaCoverage c \<and> sound_coverage (((generation s)(i := generation s i + 1)) j) c"
      using store_inv_cov [OF inv] by (auto simp: m reset_meta_def cov_inv_def split: if_splits)
  qed
  have marks: "marker_ok (generation s') x" if "x \<in> set (unavailable s')" for x
  proof -
    have "marker_ok (generation s) x" "fst (fst x) \<noteq> indexable_name i"
      using inv that by (auto simp: store_inv_def u)
    then show ?thesis unfolding marker_ok_def gen by auto
  qed
  have dist: "distinct (map fst (scans s'))"
    using inv by (simp add: store_inv_def sc distinct_map_filter)
  have mo: "map_of (scans s') sid = Some r \<longleftrightarrow> map_of (scans s) sid = Some r \<and> sr_domain r \<noteq> indexable_name i" for sid r
    using inv dist by (auto simp: store_inv_def sc)
  have scs: "\<forall>sid r. map_of (scans s') sid = Some r \<longrightarrow> scan_ok (generation s') r"
  proof (intro allI impI)
    fix sid r assume "map_of (scans s') sid = Some r"
    then have "scan_ok (generation s) r" "sr_domain r \<noteq> indexable_name i" using inv by (auto simp: mo store_inv_def)
    then show "scan_ok (generation s') r" unfolding scan_ok_def gen by auto
  qed
  have "fst x \<in> dom (map_of (scans s')) \<and> (\<exists>n :: u64. snd x = unsigned_text n)" if "x \<in> set (scan_winner_rows s')" for x
  proof -
    have x: "x \<in> set (scan_winner_rows s)"
      "fst x \<notin> fst ` set (filter (\<lambda>(_, r). sr_domain r = indexable_name i) (scans s))"
      using that unfolding w by (simp_all add: case_prod_beta)
    then obtain r where r: "map_of (scans s) (fst x) = Some r" and n: "\<exists>n :: u64. snd x = unsigned_text n"
      using inv unfolding store_inv_def by blast
    have "sr_domain r \<noteq> indexable_name i"
    proof
      assume "sr_domain r = indexable_name i"
      then have "(fst x, r) \<in> set (filter (\<lambda>(_, r). sr_domain r = indexable_name i) (scans s))"
        using map_of_SomeD [OF r] by simp
      from imageI [OF this, of fst] show False using x(2) by simp
    qed
    with r have "map_of (scans s') (fst x) = Some r" by (simp add: mo)
    with n show ?thesis by blast
  qed
  with cov marks dist scs show "store_inv s'" by (simp add: store_inv_def)
  show "generation s' = (generation s)(i := generation s i + 1)" "generation s i < max_word"
    "domain_points s' = (domain_points s)(i := {})" "g = \<lparr>guard_indexable = i, expected = generation s i + 1\<rparr>"
    "finalized s' = finalized s" "writable s' = writable s"
    using gen lt pts g f by simp_all
  show "\<forall>((d, _), _)\<in>set (unavailable s'). d \<noteq> indexable_name i" and "\<forall>(_, r)\<in>set (scans s'). sr_domain r \<noteq> indexable_name i"
    by (auto simp: u sc)
  show "get_meta s' ''dashboard.genesis'' = get_meta s ''dashboard.genesis''"
    and "get_meta s' ''dashboard.finalized.target'' = get_meta s ''dashboard.finalized.target''"
    by (simp_all add: m reset_meta_def generation_key_def coverage_key_def)
  show "set (unavailable s') \<subseteq> set (unavailable s)" and "set (scans s') \<subseteq> set (scans s)"
    by (auto simp: u sc)
qed

lemma reindex_all_effect:
  assumes "store_inv s" and "reindex_all is s = Inr (gs, s')" and "distinct is"
  shows "store_inv s' \<and> generation s' = (\<lambda>i. if i \<in> set is then generation s i + 1 else generation s i)
    \<and> (\<forall>i\<in>set is. generation s i < max_word)
    \<and> domain_points s' = (\<lambda>i. if i \<in> set is then {} else domain_points s i)
    \<and> gs = map (\<lambda>i. \<lparr>guard_indexable = i, expected = generation s i + 1\<rparr>) is
    \<and> finalized s' = finalized s \<and> writable s' = writable s
    \<and> get_meta s' ''dashboard.genesis'' = get_meta s ''dashboard.genesis''
    \<and> get_meta s' ''dashboard.finalized.target'' = get_meta s ''dashboard.finalized.target''
    \<and> set (unavailable s') \<subseteq> {m \<in> set (unavailable s). fst (fst m) \<notin> indexable_name ` set is}
    \<and> set (scans s') \<subseteq> {r \<in> set (scans s). sr_domain (snd r) \<notin> indexable_name ` set is}"
  using assms
proof (induction "is" arbitrary: s gs)
  case Nil
  then show ?case by (auto simp: fun_eq_iff)
next
  case (Cons i "is")
  obtain g s1 gs' where 1: "reindex_one i s = Inr (g, s1)" and 2: "reindex_all is s1 = Inr (gs', s')"
    and gs: "gs = g # gs'"
    using Cons.prems(2) by (auto simp: rbind_Inr)
  note e1 = reindex_one_effect [OF Cons.prems(1) 1]
  have e2: "store_inv s' \<and> generation s' = (\<lambda>i. if i \<in> set is then generation s1 i + 1 else generation s1 i)
    \<and> (\<forall>i\<in>set is. generation s1 i < max_word)
    \<and> domain_points s' = (\<lambda>i. if i \<in> set is then {} else domain_points s1 i)
    \<and> gs' = map (\<lambda>i. \<lparr>guard_indexable = i, expected = generation s1 i + 1\<rparr>) is
    \<and> finalized s' = finalized s1 \<and> writable s' = writable s1
    \<and> get_meta s' ''dashboard.genesis'' = get_meta s1 ''dashboard.genesis''
    \<and> get_meta s' ''dashboard.finalized.target'' = get_meta s1 ''dashboard.finalized.target''
    \<and> set (unavailable s') \<subseteq> {m \<in> set (unavailable s1). fst (fst m) \<notin> indexable_name ` set is}
    \<and> set (scans s') \<subseteq> {r \<in> set (scans s1). sr_domain (snd r) \<notin> indexable_name ` set is}"
    using Cons.IH [OF e1(1) 2] Cons.prems(3) by simp
  have ni: "i \<notin> set is" using Cons.prems(3) by simp
  have "set (unavailable s') \<subseteq> {m \<in> set (unavailable s). fst (fst m) \<notin> indexable_name ` set (i # is)}"
    using e1(6,12) e2 by fastforce
  moreover have "set (scans s') \<subseteq> {r \<in> set (scans s). sr_domain (snd r) \<notin> indexable_name ` set (i # is)}"
    using e1(7,13) e2 by fastforce
  moreover have "gs = map (\<lambda>i. \<lparr>guard_indexable = i, expected = generation s i + 1\<rparr>) (i # is)"
    using gs e1(2,5) e2 ni by auto
  moreover have "generation s' = (\<lambda>j. if j \<in> set (i # is) then generation s j + 1 else generation s j)"
    "domain_points s' = (\<lambda>j. if j \<in> set (i # is) then {} else domain_points s j)"
    "\<forall>j\<in>set (i # is). generation s j < max_word"
    using e1(2,3,4) e2 ni by (auto simp: fun_eq_iff split: if_splits)
  ultimately show ?case using e1(1,8-11) e2 by simp
qed

lemma set_unique_indexables [simp]: "set (unique_indexables is) = set is"
  by (auto simp: unique_indexables_def)

lemma distinct_unique_indexables [simp]: "distinct (unique_indexables is)"
  by (simp add: unique_indexables_def all_indexables_def)

lemma reindex_run: "reindex is s = Inr (gs, s') \<Longrightarrow> reindex_all (unique_indexables is) s = Inr (gs, s')"
  by (auto simp: reindex_def rbind_Inr)

section \<open>The state machine\<close>

definition checkpoint_key :: "string \<Rightarrow> bool" where
  "checkpoint_key k \<longleftrightarrow> k = ''descriptor_checkpoint'' \<or> (\<exists>m. k = ''mining_checkpoint:'' @ m)"

text \<open>
  One call of the store by any caller, successful or not. Heights are values of \<open>DecimalString\<close>, whose
  constructor admits canonical texts only; clock and engine may differ from call to call.
\<close>

inductive store_step :: "store \<Rightarrow> store \<Rightarrow> bool" where
  step_commit_block: "decimal_wf (bc_height b) \<Longrightarrow> store_step s (snd (run (commit_block e b) s))"
| step_begin_scan: "store_step s (snd (run (begin_scan sc) s))"
| step_append_scan_page: "\<forall>h\<in>set hs. decimal_wf h \<Longrightarrow> store_step s (snd (run (append_scan_page sid ec nc hs) s))"
| step_commit_range: "store_step s (snd (run (commit_range e rc) s))"
| step_set_pruned_floor: "store_step s (snd (run (set_pruned_floor e g floor) s))"
| step_reindex: "store_step s (snd (run (reindex is) s))"
| step_initialize_coverage: "store_step s (snd (run (initialize_coverage i n start) s))"
| step_bind_network: "store_step s (snd (run (bind_network_with g verify) s))"
| step_set_finalized_target: "store_step s (snd (run (set_finalized_target t) s))"
| step_mark_unavailable: "decimal_wf (ub_height u) \<Longrightarrow> store_step s (snd (run (mark_unavailable e g u) s))"
| step_set_monotonic: "checkpoint_key k \<Longrightarrow> store_step s (snd (run (set_monotonic k v) s))"
| step_difficulty_snapshot: "store_step s (snd (run (insert_difficulty_snapshot e d) s))"

lemma run_cases:
  obtains (error) err where "f s = Inl err" and "snd (run f s) = s" and "fst (run f s) = Inl err"
    | (ok) r s' where "f s = Inr (r, s')" and "snd (run f s) = s'" and "fst (run f s) = Inr r"
  by (cases "f s") (auto simp: run_def)

lemma run_inv: "store_inv s \<Longrightarrow> (\<And>r s'. f s = Inr (r, s') \<Longrightarrow> store_inv s') \<Longrightarrow> store_inv (snd (run f s))"
  by (cases rule: run_cases [of f s]) auto

lemma empty_store_inv [simp]: "store_inv (empty_store w)"
  by (simp add: store_inv_def cov_inv_def empty_store_def get_meta_def)

lemma checkpoint_key_other: "checkpoint_key k \<Longrightarrow> k \<noteq> generation_key j \<and> k \<noteq> coverage_key j"
  by (auto simp: checkpoint_key_def generation_key_def coverage_key_def)

lemma set_monotonic_cases:
  assumes "set_monotonic k v s = Inr (u, s')"
  obtains "s' = s" | "s' = set_meta k (MetaText v) s"
  using assms by (auto simp: set_monotonic_def rbind_Inr split: sum.splits option.splits meta_value.splits if_splits)

lemma set_monotonic_inv:
  assumes "store_inv s" and "checkpoint_key k" and "set_monotonic k v s = Inr (u, s')"
  shows "store_inv s'"
  using assms(3)
proof (cases rule: set_monotonic_cases)
  case 2
  then show ?thesis using assms(1) checkpoint_key_other [OF assms(2)] set_meta_other_inv by blast
qed (use assms in simp)

lemma snapshot_frame: "insert_difficulty_snapshot e d s = Inr (u, s') \<Longrightarrow> same_index s s'"
  by (auto simp: insert_difficulty_snapshot_def rbind_Inr dest!: write_difficulty_frame split: if_splits)

lemma same_index_inv: "store_inv s \<Longrightarrow> same_index s s' \<Longrightarrow> store_inv s'"
  using cov_inv_cong [of s' s] generation_cong [of s' s]
  by (auto simp: same_index_def store_inv_cov intro: store_inv_frame)

lemma store_step_inv: "store_step s s' \<Longrightarrow> store_inv s \<Longrightarrow> store_inv s'"
proof (induction rule: store_step.induct)
  case (step_reindex s "is")
  then show ?case
    by (intro run_inv) (auto dest!: reindex_run dest: reindex_all_effect [OF _ _ distinct_unique_indexables])
qed (blast intro: run_inv commit_block_inv begin_scan_inv append_scan_page_inv commit_range_inv set_pruned_floor_inv
    initialize_coverage_inv bind_network_with_inv set_finalized_target_inv mark_unavailable_inv set_monotonic_inv
    same_index_inv snapshot_frame)+

section \<open>Facts between two states of a history\<close>

text \<open>
  A recorded finalized hash and the bound genesis never change, generations never decrease, and
  within a generation no completed height is lost.
\<close>

definition evolves :: "store \<Rightarrow> store \<Rightarrow> bool" where
  "evolves s s' \<longleftrightarrow>
     (\<forall>h x. map_of (finalized s) h = Some x \<longrightarrow> map_of (finalized s') h = Some x)
     \<and> (\<forall>g. get_meta s ''dashboard.genesis'' = Some g \<longrightarrow> get_meta s' ''dashboard.genesis'' = Some g)
     \<and> (\<forall>i. generation s i \<le> generation s' i)
     \<and> (\<forall>i. generation s' i = generation s i \<longrightarrow> domain_points s i \<subseteq> domain_points s' i)"

lemma evolves_refl: "evolves s s"
  by (simp add: evolves_def)

lemma evolves_trans: "evolves s t \<Longrightarrow> evolves t u \<Longrightarrow> evolves s u"
proof -
  assume st: "evolves s t" and tu: "evolves t u"
  have "domain_points s i \<subseteq> domain_points u i" if "generation u i = generation s i" for i
  proof -
    have "generation s i \<le> generation t i" "generation t i \<le> generation u i"
      using st tu by (auto simp: evolves_def)
    with that have "generation t i = generation s i" "generation u i = generation t i" by auto
    then show ?thesis using st tu by (metis evolves_def subset_trans)
  qed
  with st tu show ?thesis unfolding evolves_def by (meson order_trans)
qed

lemma evolves_points:
  assumes "finalized s' = finalized s" and "generation s' = generation s"
    and "get_meta s' ''dashboard.genesis'' = get_meta s ''dashboard.genesis''"
    and "\<And>i. domain_points s i \<subseteq> domain_points s' i"
  shows "evolves s s'"
  using assms by (simp add: evolves_def)

lemma evolves_meta: "meta s' = meta s \<Longrightarrow> finalized s' = finalized s \<Longrightarrow> evolves s s'"
  using generation_cong [of s' s] get_meta_cong [of s' s] domain_points_cong [of s' s] by (simp add: evolves_points)

lemma evolves_set_other:
  assumes "\<And>j. k \<noteq> generation_key j \<and> k \<noteq> coverage_key j"
    and "k = ''dashboard.genesis'' \<Longrightarrow> get_meta s k = None"
  shows "evolves s (set_meta k v s)"
proof -
  have "coverage_key i \<noteq> k" for i using assms(1) by metis
  then have "domain_points (set_meta k v s) = domain_points s" by (simp add: domain_points_def fun_eq_iff)
  then show ?thesis using assms by (auto simp: evolves_def)
qed

lemma evolves_save: "domain_points s i \<subseteq> covered c \<Longrightarrow> evolves s (save_coverage i c s)"
  by (rule evolves_points) (auto simp: get_meta_save domain_points_save)

lemma commit_block_evolves:
  assumes "store_inv s" and "commit_block e b s = Inr (r, s')"
  shows "evolves s s'"
proof (cases "r = StaleGeneration")
  case True
  with assms(2) show ?thesis by (auto elim!: commit_block_cases simp: evolves_refl split: if_splits)
next
  case False
  show ?thesis
    by (rule commit_block_effect [OF store_inv_cov [OF assms(1)] assms(2) False])
      (auto simp: evolves_def)
qed

lemma append_scan_page_evolves:
  assumes "append_scan_page sid ec nc hs s = Inr (r, s')"
  shows "evolves s s'"
  using assms
proof (cases rule: append_scan_page_cases)
  case (appended row i c s1)
  have "meta s1 = meta s \<and> finalized s1 = finalized s"
    by (rule rfold_invariant [OF appended(8)]) (auto simp: add_scan_winner_Inr)
  then show ?thesis using appended(9) by (intro evolves_meta) simp_all
qed (auto simp: evolves_refl)

lemma commit_range_evolves: "store_inv s \<Longrightarrow> commit_range e rc s = Inr (r, s') \<Longrightarrow> evolves s s'"
proof -
  assume inv: "store_inv s" and c: "commit_range e rc s = Inr (r, s')"
  from c show ?thesis
  proof (cases rule: commit_range_cases)
    case (covered f t row h c changed c')
    have "domain_points s' = (domain_points s)(rc_indexable rc := domain_points s (rc_indexable rc) \<union> {f..t})"
      by (rule cover_save [OF store_inv_cov [OF inv] covered(13,15,17)])
    then show ?thesis using covered(17) by (intro evolves_points) (auto simp: get_meta_save)
  qed (simp add: evolves_refl)
qed

lemma mark_unavailable_evolves:
  assumes "mark_unavailable e g b s = Inr (r, s')"
  shows "evolves s s'"
  using assms
proof (cases rule: mark_unavailable_cases)
  case (marked n c)
  have "meta s' = meta s" using marked(6) by simp
  then show ?thesis
    using generation_cong [of s' s] get_meta_cong [of s' s] domain_points_cong [of s' s] marked(6)
    by (simp add: evolves_def map_of_record_finalized)
qed (auto simp: evolves_refl)

lemma reindex_evolves:
  assumes "store_inv s" and "reindex is s = Inr (gs, s')"
  shows "evolves s s'"
proof -
  note e = reindex_all_effect [OF assms(1) reindex_run [OF assms(2)] distinct_unique_indexables]
  have "generation s i < generation s i + 1" if "i \<in> set is" for i
    using e that word_less_succ by (metis set_unique_indexables)
  then show ?thesis using e by (auto simp: evolves_def less_imp_le)
qed

lemma set_finalized_target_evolves: "set_finalized_target t s = Inr (r, s') \<Longrightarrow> evolves s s'"
  by (auto simp: set_finalized_target_def rbind_Inr Let_def evolves_refl split: if_splits option.splits meta_value.splits
      intro!: evolves_set_other dest: key_distinct(7,8) [THEN notE, OF sym])

lemma bind_network_evolves: "bind_network_with g v s = Inr (u, s') \<Longrightarrow> evolves s s'"
  by (auto simp: bind_network_with_def rbind_Inr evolves_refl split: if_splits option.splits
      intro!: evolves_set_other dest: key_distinct(5,6) [THEN notE, OF sym])

lemma initialize_coverage_evolves: "initialize_coverage i g h s = Inr (r, s') \<Longrightarrow> evolves s s'"
  by (auto simp: initialize_coverage_def rbind_Inr evolves_refl domain_points_def split: if_splits intro!: evolves_save)

lemma set_pruned_floor_evolves: "store_inv s \<Longrightarrow> set_pruned_floor e g f s = Inr (r, s') \<Longrightarrow> evolves s s'"
  using set_pruned_floor_effect [of s e g f r s'] by (auto simp: store_inv_cov evolves_refl intro: evolves_save)

lemma set_monotonic_evolves: "checkpoint_key k \<Longrightarrow> set_monotonic k v s = Inr (u, s') \<Longrightarrow> evolves s s'"
  by (erule set_monotonic_cases) (auto simp: evolves_refl checkpoint_key_def generation_key_def coverage_key_def intro!: evolves_set_other)

lemma begin_scan_evolves: "begin_scan sc s = Inr (r, s') \<Longrightarrow> evolves s s'"
  by (auto simp: begin_scan_def rbind_Inr evolves_refl split: if_splits option.splits intro!: evolves_meta)

lemma snapshot_evolves: "insert_difficulty_snapshot e d s = Inr (u, s') \<Longrightarrow> evolves s s'"
  using snapshot_frame [of e d s u s'] by (intro evolves_meta) (simp_all add: same_index_def)

lemma run_evolves: "(\<And>r s'. f s = Inr (r, s') \<Longrightarrow> evolves s s') \<Longrightarrow> evolves s (snd (run f s))"
  by (cases rule: run_cases [of f s]) (auto simp: evolves_refl)

lemma store_step_evolves: "store_step s s' \<Longrightarrow> store_inv s \<Longrightarrow> evolves s s'"
  by (induction rule: store_step.induct)
    (blast intro: run_evolves commit_block_evolves begin_scan_evolves append_scan_page_evolves commit_range_evolves
      set_pruned_floor_evolves reindex_evolves initialize_coverage_evolves bind_network_evolves
      set_finalized_target_evolves mark_unavailable_evolves set_monotonic_evolves snapshot_evolves)+

interpretation store: history store_step store_inv evolves
  by unfold_locales (auto intro: store_step_inv store_step_evolves evolves_refl evolves_trans)

end
