(* ===== verification/Retry.thy ===== *)
theory Retry
  imports Store_Steps
begin

text \<open>
  The search for retryable work: \<open>retryable_range\<close> works on decimal texts in the database's text
  order; it is shown to return the first maximal interval of heights without an absence marker.
\<close>

section \<open>Text order of heights\<close>

lemma decimal_gt_text: "decimal_gt (unsigned_text (a :: u64)) (unsigned_text b) = (b < a)"
proof -
  have "decimal_gt (unsigned_text a) (unsigned_text b) = (decimal_of_u64 b < decimal_of_u64 a)"
    by (auto simp: decimal_gt_def less_decimal_string_def decimal_lt_def decimal_of_u64_def)
  then show ?thesis by (simp add: decimal_less_nat word_less_nat_alt)
qed

lemma first_height_least:
  assumes "first_height hs = Some h"
  shows "h \<in> set hs" and "x \<in> set hs \<Longrightarrow> \<not> decimal_gt h x"
proof -
  obtain rest where o: "ordered_heights hs = h # rest"
    using assms by (auto simp: first_height_def split: list.splits)
  then show "h \<in> set hs" by (metis list.set_intros(1) ordered_heights_def set_sort)
  have srt: "sorted (map (\<lambda>h. (length h, h)) (h # rest))" unfolding o [symmetric] ordered_heights_def by simp
  assume "x \<in> set hs"
  then have "x \<in> set (h # rest)" unfolding o [symmetric] by (simp add: ordered_heights_def)
  then have "(length h, h) \<le> (length x, x)" using srt by auto
  then show "\<not> decimal_gt h x" by (auto simp: decimal_gt_def)
qed

lemma first_height_None: "(first_height hs = None) = (hs = [])"
proof -
  have "(ordered_heights hs = []) = (hs = [])" by (metis ordered_heights_def set_empty set_sort)
  then show ?thesis by (auto simp: first_height_def split: list.splits)
qed

text \<open>The first of a list of heights whose texts stand for the numbers of a set.\<close>

lemma first_height_Min:
  assumes "set hs = unsigned_text ` (N :: u64 set)"
  shows "(N = {} \<longrightarrow> first_height hs = None)
    \<and> (N \<noteq> {} \<longrightarrow> (\<exists>m\<in>N. first_height hs = Some (unsigned_text m) \<and> (\<forall>n\<in>N. m \<le> n)))"
proof (cases "first_height hs")
  case None
  then have "set hs = {}" by (simp add: first_height_None)
  with assms None show ?thesis by auto
next
  case (Some h)
  note l = first_height_least [OF Some]
  obtain m where m: "m \<in> N" "h = unsigned_text m" using l(1) assms by auto
  have "m \<le> n" if "n \<in> N" for n
    using l(2) [of "unsigned_text n"] that assms m decimal_gt_text [of m n] by auto
  with m Some show ?thesis by auto
qed

section \<open>Markers\<close>

definition marked :: "store \<Rightarrow> indexable \<Rightarrow> u64 \<Rightarrow> u64 set" where
  "marked s i g = {n. is_unavailable s i g n}"

lemma markers_form:
  assumes "store_inv s" and "(h, nxt) \<in> set (markers s i g)"
  shows "\<exists>n. h = unsigned_text n \<and> n \<in> marked s i g \<and> nxt = map_option unsigned_text (checked_add n 1)"
proof -
  from assms(2) obtain d gn r where m: "((d, gn, h), r) \<in> set (unavailable s)" "nxt = ur_next_height r"
    by (auto simp: markers_def)
  with assms(1) have "marker_ok (generation s) ((d, gn, h), r)" by (auto simp: store_inv_def)
  then obtain n :: u64 where n: "h = unsigned_text n" "nxt = map_option unsigned_text (checked_add n 1)"
    using m(2) by (auto simp: marker_ok_def)
  have "h \<in> set (map fst (markers s i g))" using assms(2) by force
  with n show ?thesis by (auto simp: marked_def is_unavailable_def)
qed

lemma marker_heights:
  assumes "store_inv s"
  shows "set (map fst (markers s i g)) = unsigned_text ` marked s i g"
proof
  show "set (map fst (markers s i g)) \<subseteq> unsigned_text ` marked s i g"
    using markers_form [OF assms] by force
  show "unsigned_text ` marked s i g \<subseteq> set (map fst (markers s i g))"
    by (auto simp: marked_def is_unavailable_def)
qed

lemma blocked_set:
  assumes "store_inv s"
  shows "set (blocked_heights s i g f t) = unsigned_text ` {n \<in> marked s i g. f < n \<and> n \<le> t}"
proof -
  have img: "{h \<in> unsigned_text ` M. decimal_gt h (unsigned_text f) \<and> \<not> decimal_gt h (unsigned_text t)}
      = unsigned_text ` {n \<in> M. f < n \<and> n \<le> t}" for M :: "u64 set"
    by (auto simp: decimal_gt_text not_less)
  show ?thesis unfolding blocked_heights_def set_filter marker_heights [OF assms] by (rule img)
qed

lemma candidate_set:
  assumes "store_inv s"
  shows "set (successor_candidates s i g f t) =
    unsigned_text ` {m. m \<notin> marked s i g \<and> f < m \<and> m \<le> t \<and> (\<exists>n\<in>marked s i g. n < m \<and> m = n + 1)}"
    (is "?L = unsigned_text ` ?R")
proof
  show "?L \<subseteq> unsigned_text ` ?R"
  proof
    fix h assume "h \<in> ?L"
    then obtain h0 nxt where m: "(h0, Some h) \<in> set (markers s i g)" and gt: "decimal_gt h (unsigned_text f)"
      "\<not> decimal_gt h (unsigned_text t)" "h \<notin> set (map fst (markers s i g))"
      unfolding successor_candidates_def by (auto split: option.splits)
    from markers_form [OF assms m] obtain n where n: "n \<in> marked s i g"
      "Some h = map_option unsigned_text (checked_add n 1)" by blast
    then have lt: "n < max_word" and h: "h = unsigned_text (n + 1)"
      by (auto simp: checked_add1_Some dest!: sym [of "Some h"])
    have "n + 1 \<in> ?R"
      using gt n lt word_less_succ [OF lt] unfolding h marker_heights [OF assms] by (auto simp: decimal_gt_text not_less)
    then show "h \<in> unsigned_text ` ?R" using h by blast
  qed
  show "unsigned_text ` ?R \<subseteq> ?L"
  proof
    fix h assume "h \<in> unsigned_text ` ?R"
    then obtain m n where h: "h = unsigned_text m" and m: "m \<notin> marked s i g" "f < m" "m \<le> t"
      and n: "n \<in> marked s i g" "n < m" "m = n + 1" by blast
    have "n < max_word" using n(2) by (meson le_max_word order.strict_trans2)
    then have nx: "map_option unsigned_text (checked_add n 1) = Some h" using checked_add1_Some [of n m] h n(3) by simp
    have "unsigned_text n \<in> set (map fst (markers s i g))" using n(1) marker_heights [OF assms] by blast
    then obtain nxt where mm: "(unsigned_text n, nxt) \<in> set (markers s i g)" by auto
    from markers_form [OF assms mm] nx have "nxt = Some h" by auto
    moreover have "h \<notin> set (map fst (markers s i g))" using m(1) h marker_heights [OF assms] by auto
    moreover from mm calculation(1) have "h \<in> set (concat (map (\<lambda>(_, nxt). case nxt of None \<Rightarrow> [] | Some h \<Rightarrow> [h]) (markers s i g)))"
      by (auto intro!: bexI [of _ "(unsigned_text n, Some h)"])
    moreover have "decimal_gt h (unsigned_text f)" "\<not> decimal_gt h (unsigned_text t)"
      using h m(2,3) by (simp_all add: decimal_gt_text)
    ultimately show "h \<in> ?L" unfolding successor_candidates_def by simp
  qed
qed

section \<open>The range\<close>

lemma retry_end:
  assumes inv: "store_inv s" and "n \<le> t" and "n \<notin> marked s i g"
  obtains b where "(case first_height (blocked_heights s i g n t) of None \<Rightarrow> Inr t
      | Some h \<Rightarrow> rbind (ok_or (Invalid ''invalid unavailable height'') (parse_unsigned h)) (\<lambda>m.
          ok_or (Invalid ''invalid retry boundary'') (checked_sub m 1))) = Inr b"
    and "n \<le> b" and "b \<le> t" and "{n..b} \<inter> marked s i g = {}" and "b = t \<or> b + 1 \<in> marked s i g"
proof (cases "{m \<in> marked s i g. n < m \<and> m \<le> t} = {}")
  case True
  then have "first_height (blocked_heights s i g n t) = None"
    using first_height_Min [OF blocked_set [OF inv]] by blast
  moreover have "{n..t} \<inter> marked s i g = {}" using True assms(3) by (auto simp: order.order_iff_strict)
  ultimately show ?thesis using assms(2) by (intro that [of t]) auto
next
  case False
  then obtain m where m: "m \<in> marked s i g" "n < m" "m \<le> t"
    and fh: "first_height (blocked_heights s i g n t) = Some (unsigned_text m)"
    and least: "\<forall>x\<in>{x \<in> marked s i g. n < x \<and> x \<le> t}. m \<le> x"
    using first_height_Min [OF blocked_set [OF inv], of i g n t] by blast
  have ge1: "1 \<le> m" using m(2) by (simp add: word_le_nat_alt word_less_nat_alt)
  have pred: "m - 1 < m" using word_pred_less [OF m(2)] .
  show ?thesis
  proof (rule that [of "m - 1"])
    show "(case first_height (blocked_heights s i g n t) of None \<Rightarrow> Inr t
      | Some h \<Rightarrow> rbind (ok_or (Invalid ''invalid unavailable height'') (parse_unsigned h)) (\<lambda>m.
          ok_or (Invalid ''invalid retry boundary'') (checked_sub m 1))) = Inr (m - 1)"
      using fh ge1 by (simp add: checked_sub_def)
    show "n \<le> m - 1" using m(2) by (simp add: word_le_sub1_iff)
    show "m - 1 \<le> t" using pred m(3) by simp
    show "{n..m - 1} \<inter> marked s i g = {}"
    proof (rule ccontr)
      assume "{n..m - 1} \<inter> marked s i g \<noteq> {}"
      then obtain x where x: "n \<le> x" "x \<le> m - 1" "x \<in> marked s i g" by auto
      have "n \<noteq> x" using x(3) assms(3) by blast
      then have "n < x" "x < m" using x(1,2) pred by simp_all
      then show False using least x(3) m(3) by force
    qed
    show "m - 1 = t \<or> m - 1 + 1 \<in> marked s i g" using m(1) by simp
  qed
qed

lemma least_unmarked:
  assumes "\<not> {f..t} \<subseteq> (M :: u64 set)" and "f \<in> M"
  obtains a where "a \<notin> M" and "f < a" and "a \<le> t" and "{f..<a} \<subseteq> M" and "a - 1 \<in> M" and "a - 1 < a"
proof -
  let ?S = "{f..t} - M"
  have fin: "finite ?S" "?S \<noteq> {}" using assms(1) by auto
  define a where "a = Min ?S"
  have a: "a \<in> ?S" using Min_in [OF fin] by (simp add: a_def)
  have least: "a \<le> x" if "x \<in> ?S" for x using Min_le [OF fin(1) that] by (simp add: a_def)
  have fa: "f < a" using a assms(2) by (auto simp: order.order_iff_strict)
  have below: "{f..<a} \<subseteq> M"
  proof
    fix x assume x: "x \<in> {f..<a}"
    then have "x \<in> {f..t}" using a by auto
    moreover have "x \<notin> ?S" using least x by force
    ultimately show "x \<in> M" by blast
  qed
  have "a - 1 < a" by (rule word_pred_less [OF fa])
  moreover have "a - 1 \<in> {f..<a}" using fa \<open>a - 1 < a\<close> by (simp add: word_le_sub1_iff)
  then have "a - 1 \<in> M" using below by blast
  moreover have "a \<notin> M" "a \<le> t" using a by auto
  ultimately show ?thesis using that [of a] fa below by simp
qed

lemma retry_start:
  assumes inv: "store_inv s" and "f \<le> t" and "f \<in> marked s i g"
  shows "({f..t} \<subseteq> marked s i g \<longrightarrow> first_height (successor_candidates s i g f t) = None)
    \<and> (\<not> {f..t} \<subseteq> marked s i g \<longrightarrow> (\<exists>a. first_height (successor_candidates s i g f t) = Some (unsigned_text a)
        \<and> a \<notin> marked s i g \<and> f < a \<and> a \<le> t \<and> {f..<a} \<subseteq> marked s i g))"
proof -
  let ?R = "{m. m \<notin> marked s i g \<and> f < m \<and> m \<le> t \<and> (\<exists>n\<in>marked s i g. n < m \<and> m = n + 1)}"
  note fm = first_height_Min [OF candidate_set [OF inv, of i g f t]]
  have empty: "?R = {}" if "{f..t} \<subseteq> marked s i g" using that by (auto dest!: less_imp_le [of f] subsetD)
  show ?thesis
  proof (cases "{f..t} \<subseteq> marked s i g")
    case True
    then show ?thesis using fm empty by simp
  next
    case False
    obtain a where a: "a \<notin> marked s i g" "f < a" "a \<le> t" "{f..<a} \<subseteq> marked s i g" "a - 1 \<in> marked s i g" "a - 1 < a"
      by (rule least_unmarked [OF False assms(3)])
    have "a \<in> ?R" using a by auto
    then obtain m where m: "m \<in> ?R" "first_height (successor_candidates s i g f t) = Some (unsigned_text m)" "\<forall>n\<in>?R. m \<le> n"
      using fm by blast
    have "m = a"
    proof (rule antisym)
      show "m \<le> a" using m(3) \<open>a \<in> ?R\<close> by blast
      have "m \<notin> {f..<a}" using m(1) a(4) by blast
      then show "a \<le> m" using m(1) by auto
    qed
    with m(2) a False show ?thesis by auto
  qed
qed

section \<open>Property\<close>

text \<open>
  Within a gap, the retry search returns nothing exactly when every height of the gap is marked
  absent, and otherwise the first maximal run of unmarked heights: everything before it is marked,
  nothing in it is, and it ends at the gap's end or right before a marked height. It works on the
  stored texts, and no marker, not even at the greatest 64-bit height, makes it fail.
\<close>

theorem retryable_range_first_run:
  assumes "store_step\<^sup>*\<^sup>* (empty_store w) s" and "f \<le> t"
  shows "if {f..t} \<subseteq> {n. is_unavailable s i g n} then retryable_range s i g f t = Inr None
    else \<exists>a b. retryable_range s i g f t = Inr (Some (a, b)) \<and> f \<le> a \<and> a \<le> b \<and> b \<le> t
      \<and> {f..<a} \<subseteq> {n. is_unavailable s i g n} \<and> {a..b} \<inter> {n. is_unavailable s i g n} = {}
      \<and> (b = t \<or> is_unavailable s i g (b + 1))"
proof -
  have inv: "store_inv s" using store.history_inv [OF assms(1)] by simp
  let ?start = "if is_unavailable s i g f
      then (case first_height (successor_candidates s i g f t) of None \<Rightarrow> Inr None
            | Some h \<Rightarrow> rbind (ok_or (Invalid ''invalid unavailable successor'') (parse_unsigned h)) (\<lambda>n. Inr (Some n)))
      else Inr (Some f)"
  have rest: "\<exists>b. retryable_range s i g f t = Inr (Some (a, b)) \<and> a \<le> b \<and> b \<le> t
      \<and> {a..b} \<inter> marked s i g = {} \<and> (b = t \<or> b + 1 \<in> marked s i g)"
    if "?start = Inr (Some a)" "a \<le> t" "a \<notin> marked s i g" for a
    by (rule retry_end [OF inv that(2,3)]) (use that(1) assms(2) in \<open>auto simp: retryable_range_def\<close>)
  show ?thesis
  proof (cases "is_unavailable s i g f")
    case False
    then have f: "?start = Inr (Some f)" "f \<notin> marked s i g" by (simp_all add: marked_def)
    then have "\<not> {f..t} \<subseteq> {n. is_unavailable s i g n}" using assms(2) False by auto
    then show ?thesis using rest [OF f(1) assms(2) f(2)] unfolding marked_def by auto
  next
    case True
    then have "f \<in> marked s i g" by (simp add: marked_def)
    note st = retry_start [OF inv assms(2) this]
    show ?thesis
    proof (cases "{f..t} \<subseteq> marked s i g")
      case True
      then show ?thesis using st assms(2) \<open>is_unavailable s i g f\<close> by (simp add: retryable_range_def marked_def)
    next
      case False
      then obtain a where a: "first_height (successor_candidates s i g f t) = Some (unsigned_text a)"
        "a \<notin> marked s i g" "f < a" "a \<le> t" "{f..<a} \<subseteq> marked s i g" using st by blast
      then have "?start = Inr (Some a)" using \<open>is_unavailable s i g f\<close> by simp
      from rest [OF this a(4,2)] a(3,5) False show ?thesis unfolding marked_def by (auto intro: less_imp_le)
    qed
  qed
qed

end
