(* ===== verification/Store_Props.thy ===== *)
theory Store_Props
  imports Retry
begin

text \<open>
  The properties of the indexing store, over every store reached from an empty database by any
  sequence of calls, with a concrete history as witness.
\<close>

section \<open>A concrete history\<close>

definition sample_hash :: "u8 \<Rightarrow> block_hash" where
  "sample_hash b = hash_of_bytes (replicate 32 b)"

definition bound_store :: store where
  "bound_store = (empty_store True)\<lparr>meta := [(''dashboard.genesis'', MetaText (hash_to_string (sample_hash 0)))]\<rparr>"

definition sample_commit :: block_commit where
  "sample_commit = \<lparr>bc_genesis = sample_hash 0, bc_hash = sample_hash 7, bc_height = decimal_of_u64 7,
     bc_guards = [\<lparr>guard_indexable = Winners, expected = 1\<rparr>],
     bc_records = \<lparr>winner = None, difficulty = None, authorship = None, participation = []\<rparr>,
     bc_completed = [Winners]\<rparr>"

definition committed_store :: store where
  "committed_store = snd (run (commit_block sample_engine sample_commit) bound_store)"

definition sample_absence :: unavailable_block where
  "sample_absence = \<lparr>ub_guard = \<lparr>guard_indexable = Winners, expected = 1\<rparr>, ub_height = decimal_of_u64 5,
     ub_hash = sample_hash 5, ub_enrichment_at = sample_hash 9, ub_reason = MissingRetainedNonce\<rparr>"

definition marked_store :: store where
  "marked_store = snd (run (mark_unavailable sample_engine (sample_hash 0) sample_absence) bound_store)"

lemma bound_store_run: "bound_store = snd (run (bind_network_with (sample_hash 0) (\<lambda>_. Inl NetworkIdentity)) (empty_store True))"
proof -
  have "verify_pages (\<lambda>_. Inl NetworkIdentity) (empty_store True) 0 = Inr False"
    by (subst verify_pages.simps) (simp add: retained_history_def retained_rows_def empty_store_def)
  then show ?thesis
    by (simp add: bound_store_def run_def bind_network_with_def ensure_writable_def get_meta_def empty_store_def
        unbound_rows_def set_meta_def)
qed

lemma bound_store_reachable: "store_step\<^sup>*\<^sup>* (empty_store True) bound_store"
  unfolding bound_store_run by (rule r_into_rtranclp) (rule step_bind_network)

lemma bound_generation [simp]: "generation bound_store i = 1"
  by (simp add: generation_def bound_store_def get_meta_def)

lemma bound_coverage [simp]: "get_meta bound_store (coverage_key i) = None" "load_coverage bound_store i n = Inr (coverage_empty 1 n)"
  by (simp_all add: get_meta_def bound_store_def load_coverage_def generation_def)

lemma bound_network [simp]: "network bound_store (sample_hash 0) = Inr ()"
  by (simp add: network_def require_bound_def get_meta_def bound_store_def)

lemma bound_fields [simp]: "writable bound_store" "finalized bound_store = []" "blocks bound_store = []" "unavailable bound_store = []"
  by (simp_all add: bound_store_def empty_store_def)

lemma height_of_u64 [simp]: "height (decimal_of_u64 n) = Inr n"
  by (simp add: height_def decimal_of_u64_def)

lemma cover_empty: "start \<le> n \<Longrightarrow> cover t n n (coverage_empty g start) =
    Inr (True, (coverage_empty g start)\<lparr>low := Some n, high := Some n, updated_at := Some t\<rparr>)"
  by (auto simp: cover_def coverage_empty_def contains_def)

lemma sample_commit_result:
  "commit_block sample_engine sample_commit bound_store = Inr (Applied, committed_store)"
proof -
  have "\<exists>s'. commit_block sample_engine sample_commit bound_store = Inr (Applied, s')"
    by (simp add: commit_block_def sample_commit_def ensure_writable_def affected_domains_def guards_current_def
        check_known_def known_hashes_def check_provenance_def write_records_def apply_optional_def complete_domain_def
        cover_empty cutover_recompute_def)
  then show ?thesis by (auto simp: committed_store_def run_def)
qed

lemma committed_store_reachable: "store_step\<^sup>*\<^sup>* (empty_store True) committed_store"
proof -
  have "store_step bound_store committed_store"
    unfolding committed_store_def by (rule step_commit_block) (simp add: sample_commit_def)
  then show ?thesis using bound_store_reachable by (rule rtranclp.rtrancl_into_rtrancl [rotated])
qed

lemma sample_mark_result:
  "mark_unavailable sample_engine (sample_hash 0) sample_absence bound_store = Inr (Applied, marked_store)"
  and marked_store_markers: "markers marked_store Winners 1 = [(unsigned_text (5 :: u64), Some (unsigned_text (6 :: u64)))]"
proof -
  have six: "checked_add (5 :: u64) 1 = Some 6" by (simp add: checked_add_def)
  have "\<exists>s'. mark_unavailable sample_engine (sample_hash 0) sample_absence bound_store = Inr (Applied, s')
      \<and> markers s' Winners 1 = [(unsigned_text (5 :: u64), Some (unsigned_text (6 :: u64)))]"
    by (simp add: mark_unavailable_def sample_absence_def ensure_writable_def check_known_def known_hashes_def
        contains_def coverage_empty_def upsert_def markers_def absence_row_def six record_finalized_def)
      (simp add: decimal_of_u64_def)
  then show "mark_unavailable sample_engine (sample_hash 0) sample_absence bound_store = Inr (Applied, marked_store)"
    and "markers marked_store Winners 1 = [(unsigned_text (5 :: u64), Some (unsigned_text (6 :: u64)))]"
    by (auto simp: marked_store_def run_def)
qed

definition sample_scan :: scan where
  "sample_scan = \<lparr>scan_id = ''scan'', scan_genesis = sample_hash 0, scan_at = sample_hash 9,
     scan_finalized_height = decimal_of_u64 9, scan_indexable = Winners, scan_expected_generation = 1\<rparr>"

definition scanned_store :: store where
  "scanned_store = snd (run (append_scan_page ''scan'' None None []) (snd (run (begin_scan sample_scan) bound_store)))"

lemma scanned_store_reachable: "store_step\<^sup>*\<^sup>* (empty_store True) scanned_store"
proof -
  have "store_step\<^sup>*\<^sup>* (empty_store True) (snd (run (begin_scan sample_scan) bound_store))"
    using bound_store_reachable step_begin_scan by (rule rtranclp.rtrancl_into_rtrancl)
  moreover have "store_step (snd (run (begin_scan sample_scan) bound_store)) scanned_store"
    unfolding scanned_store_def by (rule step_append_scan_page) simp
  ultimately show ?thesis by (rule rtranclp.rtrancl_into_rtrancl)
qed

lemma bound_scans [simp]: "scans bound_store = []" "scan_winner_rows bound_store = []"
  by (simp_all add: bound_store_def empty_store_def)

lemma scanned_store_eq: "scanned_store = bound_store\<lparr>scans := [(''scan'', \<lparr>sr_genesis = hash_to_string (sample_hash 0),
   sr_at_hash = hash_to_string (sample_hash 9), sr_finalized_height = unsigned_text (9 :: u64), sr_domain = ''winners'',
   sr_generation = unsigned_text (1 :: u64), sr_cursor = None, sr_finished = True\<rparr>)]\<rparr>"
proof -
  let ?row = "\<lparr>sr_genesis = hash_to_string (sample_hash 0),
   sr_at_hash = hash_to_string (sample_hash 9), sr_finalized_height = unsigned_text (9 :: u64), sr_domain = ''winners'',
   sr_generation = unsigned_text (1 :: u64), sr_cursor = None, sr_finished = False\<rparr>"
  let ?s = "bound_store\<lparr>scans := [(''scan'', ?row)]\<rparr>"
  have b: "run (begin_scan sample_scan) bound_store = (Inr Applied, ?s)"
    by (simp add: run_def begin_scan_def sample_scan_def ensure_writable_def decimal_of_u64_def)
  have g: "generation ?s = generation bound_store" by (rule generation_cong) simp
  have rb: "require_bound ?s = Inr (MetaText (hash_to_string (sample_hash 0)))"
    by (simp add: require_bound_def get_meta_def bound_store_def)
  have "indexable_of_name ''winners'' = Inr Winners" by (simp add: indexable_of_name_def all_indexables_def)
  then show ?thesis
    unfolding scanned_store_def b snd_conv by (simp add: run_def append_scan_page_def ensure_writable_def rb g)
qed

definition reindexed_store :: store where
  "reindexed_store = snd (run (reindex [Winners]) bound_store)"

lemma sample_reindex: "\<exists>gs. reindex [Winners] bound_store = Inr (gs, reindexed_store)"
proof -
  have "unique_indexables [Winners] = [Winners]" by (simp add: unique_indexables_def all_indexables_def)
  moreover have "require_bound bound_store = Inr (MetaText (hash_to_string (sample_hash 0)))"
    by (simp add: require_bound_def get_meta_def bound_store_def)
  ultimately have "\<exists>gs s'. reindex [Winners] bound_store = Inr (gs, s')"
    by (simp add: reindex_def ensure_writable_def reindex_one_def checked_add_def Let_def)
  then show ?thesis by (auto simp: reindexed_store_def run_def)
qed

lemma marked_store_reachable: "store_step\<^sup>*\<^sup>* (empty_store True) marked_store"
proof -
  have "store_step bound_store marked_store"
    unfolding marked_store_def by (rule step_mark_unavailable) (simp add: sample_absence_def)
  then show ?thesis using bound_store_reachable by (rule rtranclp.rtrancl_into_rtrancl [rotated])
qed

text \<open>With a marker at height five and the gap from five to nine.\<close>

theorem retryable_range_first_run_witness:
  "is_unavailable marked_store Winners 1 5 \<and> (\<exists>a b. retryable_range marked_store Winners 1 5 9 = Inr (Some (a, b))
     \<and> 5 \<le> a \<and> a \<le> b \<and> b \<le> 9 \<and> {a..b} \<inter> {n. is_unavailable marked_store Winners 1 n} = {})"
proof -
  have un: "is_unavailable marked_store Winners 1 n = (n = 5)" for n
    by (simp add: is_unavailable_def marked_store_markers)
  have "6 \<in> {5..9 :: u64}" "6 \<noteq> (5 :: u64)" by simp_all
  then have ns: "\<not> {5..9} \<subseteq> {n. is_unavailable marked_store Winners 1 n}" unfolding un by blast
  have "5 \<le> (9 :: u64)" by simp
  from retryable_range_first_run [OF marked_store_reachable this, of Winners 1] show ?thesis
    unfolding if_not_P [OF ns] using un [of 5] by blast
qed

section \<open>Invariant and history\<close>

text \<open>
  C32. In every reachable store each domain's coverage loads: it is well formed, carries the current
  generation and completes no height below its start. Absence markers and scans carry the current
  generation of their domain, and every discovered winner belongs to a stored scan.
\<close>

theorem reachable_store_sound:
  assumes "store_step\<^sup>*\<^sup>* (empty_store w) s"
  shows "(\<exists>c. load_coverage s i n = Inr c \<and> coverage_wf c \<and> cov_gen c = generation s i \<and> covered c \<subseteq> {cov_start c..})
    \<and> (\<forall>m\<in>set (unavailable s). marker_ok (generation s) m)
    \<and> (\<forall>(sid, r)\<in>set (scans s). scan_ok (generation s) r)
    \<and> (\<forall>(sid, h)\<in>set (scan_winner_rows s). \<exists>r. map_of (scans s) sid = Some r)"
proof -
  have inv: "store_inv s" using store.history_inv [OF assms] by simp
  obtain c where "load_coverage s i n = Inr c" "sound_coverage (generation s i) c"
    by (rule load_coverage_sound [OF store_inv_cov [OF inv]])
  moreover have "scan_ok (generation s) r" if "(sid, r) \<in> set (scans s)" for sid r
    using inv map_of_is_SomeI [OF _ that] by (auto simp: store_inv_def)
  moreover have "\<exists>r. map_of (scans s) sid = Some r" if "(sid, h) \<in> set (scan_winner_rows s)" for sid h
    using inv that unfolding store_inv_def by (metis domD fst_conv)
  ultimately show ?thesis using inv unfolding store_inv_def sound_coverage_def by blast
qed

text \<open>C32, on the store with one marker.\<close>

theorem reachable_store_sound_witness:
  "unavailable marked_store \<noteq> [] \<and> marker_ok (generation marked_store) (hd (unavailable marked_store))
   \<and> (\<exists>c. load_coverage marked_store Winners 0 = Inr c \<and> coverage_wf c)"
proof -
  have "unavailable marked_store \<noteq> []"
    using marked_store_markers by (auto simp: markers_def)
  then show ?thesis using reachable_store_sound [OF marked_store_reachable, of Winners 0] by auto
qed

text \<open>
  C1. Over any history of calls, failed ones included: the hash recorded for a finalized height and the
  bound genesis never change, generations never decrease, and as long as a domain is not
  reindexed no completed height is lost.
\<close>

theorem history_monotone:
  assumes "store_step\<^sup>*\<^sup>* (empty_store w) s" and "store_step\<^sup>*\<^sup>* s s'"
  shows "(map_of (finalized s) h = Some x \<longrightarrow> map_of (finalized s') h = Some x)
    \<and> (get_meta s ''dashboard.genesis'' = Some g \<longrightarrow> get_meta s' ''dashboard.genesis'' = Some g)
    \<and> generation s i \<le> generation s' i
    \<and> (generation s' i = generation s i \<longrightarrow> domain_points s i \<subseteq> domain_points s' i)"
  using store.history_between [OF assms empty_store_inv] by (simp add: evolves_def)

text \<open>C1, between binding the network and committing a block.\<close>

theorem history_monotone_witness:
  "get_meta committed_store ''dashboard.genesis'' = Some (MetaText (hash_to_string (sample_hash 0)))
   \<and> generation bound_store Winners \<le> generation committed_store Winners"
proof -
  have "store_step bound_store committed_store"
    unfolding committed_store_def by (rule step_commit_block) (simp add: sample_commit_def)
  then have r: "store_step\<^sup>*\<^sup>* bound_store committed_store" by blast
  have "get_meta bound_store ''dashboard.genesis'' = Some (MetaText (hash_to_string (sample_hash 0)))"
    by (simp add: bound_store_def get_meta_def)
  then show ?thesis using history_monotone [OF bound_store_reachable r] by blast
qed

section \<open>Committing\<close>

text \<open>
  C4. A block commit that reports success had a current generation guard for every domain it touches,
  completed exactly its height in exactly its completed domains, left every generation alone, and
  left its hash recorded as the finalized hash of the height.
\<close>

theorem commit_block_success:
  assumes "store_step\<^sup>*\<^sup>* (empty_store w) s" and "commit_block e b s = Inr (r, s')" and "r \<noteq> StaleGeneration"
  shows "\<exists>n. height (bc_height b) = Inr n
    \<and> (\<forall>i. domain_points s' i = domain_points s i \<union> (if i \<in> set (bc_completed b) then {n} else {}))
    \<and> (\<forall>i\<in>set (affected_domains b). \<exists>g\<in>set (bc_guards b). guard_indexable g = i \<and> expected g = generation s i)
    \<and> generation s' = generation s
    \<and> map_of (finalized s') (as_str (bc_height b)) = Some (hash_to_string (bc_hash b))"
proof -
  have cov: "cov_inv s" using store.history_inv [OF assms(1)] by (simp add: store_inv_cov)
  have known: "check_known s (bc_height b) (bc_hash b) = Inr ()"
    using assms(2) by (cases rule: commit_block_cases) (use assms(3) in simp_all)
  then have old: "map_of (finalized s) (as_str (bc_height b)) = Some y \<Longrightarrow> y = hash_to_string (bc_hash b)" for y
    by (auto simp: check_known_def known_hashes_def split: if_splits)
  show ?thesis
  proof (rule commit_block_effect [OF cov assms(2,3)], intro exI conjI)
    fix n
    assume p: "domain_points s' = (\<lambda>i. if i \<in> set (bc_completed b) then insert n (domain_points s i) else domain_points s i)"
      and f: "\<And>k. map_of (finalized s') k = (case map_of (finalized s) k of Some y \<Rightarrow> Some y
        | None \<Rightarrow> if k = as_str (bc_height b) then Some (hash_to_string (bc_hash b)) else None)"
      and a: "\<forall>i\<in>set (affected_domains b). \<exists>g\<in>set (bc_guards b). guard_indexable g = i"
      and g: "\<forall>g\<in>set (bc_guards b). generation s (guard_indexable g) = expected g"
    show "\<forall>i. domain_points s' i = domain_points s i \<union> (if i \<in> set (bc_completed b) then {n} else {})"
      using p by auto
    show "\<forall>i\<in>set (affected_domains b). \<exists>g\<in>set (bc_guards b). guard_indexable g = i \<and> expected g = generation s i"
      using a g by fastforce
    show "map_of (finalized s') (as_str (bc_height b)) = Some (hash_to_string (bc_hash b))"
      using f [of "as_str (bc_height b)"] old by (auto split: option.splits)
  qed auto
qed

text \<open>C4, on the first commit of a bound store.\<close>

theorem commit_block_success_witness:
  "\<exists>n. height (bc_height sample_commit) = Inr n \<and> domain_points committed_store Winners = domain_points bound_store Winners \<union> {n}
     \<and> domain_points committed_store Difficulty = domain_points bound_store Difficulty"
  using commit_block_success [OF bound_store_reachable sample_commit_result] by (auto simp: sample_commit_def)

text \<open>
  C31. Work decoded before a reindex can never be applied after it: once a domain was reindexed, a block
  commit with a guard observed before, and a range completion expecting that generation, leave every
  later store unchanged.
\<close>

theorem reindex_invalidates_older_work:
  assumes "store_step\<^sup>*\<^sup>* (empty_store w) s" and "reindex is s = Inr (gs, s')" and "i \<in> set is"
    and "store_step\<^sup>*\<^sup>* s' t" and "gd \<in> set (bc_guards b)" and "guard_indexable gd = i" and "expected gd \<le> generation s i"
    and "rc_indexable rc = i" and "rc_expected_generation rc \<le> generation s i"
  shows "snd (run (commit_block e b) t) = t \<and> snd (run (commit_range e rc) t) = t"
proof -
  have inv: "store_inv s" using store.history_inv [OF assms(1)] by simp
  note re = reindex_all_effect [OF inv reindex_run [OF assms(2)] distinct_unique_indexables]
  have "generation s i < max_word" "generation s' i = generation s i + 1" using re assms(3) by auto
  then have "generation s i < generation s' i" by (simp add: word_less_succ)
  moreover have t: "store_inv t" "evolves s' t"
    using store.history_inv [OF assms(4)] store.history_rel [OF assms(4)] re by blast+
  then have "generation s' i \<le> generation t i" by (simp add: evolves_def)
  ultimately have lt: "generation s i < generation t i" by simp
  have "snd (run (commit_block e b) t) = t"
  proof (cases rule: run_cases [of "commit_block e b" t])
    case (ok r t')
    have "r = StaleGeneration"
    proof (rule ccontr)
      assume "r \<noteq> StaleGeneration"
      then have "\<forall>g\<in>set (bc_guards b). generation t (guard_indexable g) = expected g"
        by (rule commit_block_effect [OF store_inv_cov [OF t(1)] ok(1)])
      with assms(5-7) lt show False by auto
    qed
    with ok show ?thesis by (auto elim!: commit_block_cases split: if_splits)
  qed
  moreover have "snd (run (commit_range e rc) t) = t"
  proof (cases rule: run_cases [of "commit_range e rc" t])
    case (ok r t')
    from ok(1) show ?thesis
      by (cases rule: commit_range_cases) (use ok(2) assms(8,9) lt in auto)
  qed
  ultimately show ?thesis by simp
qed

text \<open>C31, replaying the sample commit after its domain was reindexed.\<close>

theorem reindex_invalidates_older_work_witness:
  "snd (run (commit_block sample_engine sample_commit) reindexed_store) = reindexed_store"
proof -
  obtain gs where gs: "reindex [Winners] bound_store = Inr (gs, reindexed_store)" using sample_reindex by blast
  let ?rc = "\<lparr>rc_genesis = sample_hash 0, rc_indexable = Winners, rc_expected_generation = 1,
    rc_from = decimal_of_u64 1, rc_through = decimal_of_u64 2, rc_scan_id = ''a''\<rparr>"
  have "\<lparr>guard_indexable = Winners, expected = 1\<rparr> \<in> set (bc_guards sample_commit)" by (simp add: sample_commit_def)
  then show ?thesis
    using reindex_invalidates_older_work [OF bound_store_reachable gs, of Winners reindexed_store
        "\<lparr>guard_indexable = Winners, expected = 1\<rparr>" sample_commit ?rc] by simp
qed

text \<open>
  C5. A completed range was proven: its scan is exhausted, belongs to the same domain and generation and
  was pinned at or above the range's end; every winner the scan found in the range was already
  completed; the domain is not authorship; and exactly the heights of the range are added.
\<close>

theorem commit_range_success:
  assumes "store_step\<^sup>*\<^sup>* (empty_store w) s" and "commit_range e rc s = Inr (r, s')" and "r \<noteq> StaleGeneration"
  shows "\<exists>f t row pin. height (rc_from rc) = Inr f \<and> height (rc_through rc) = Inr t \<and> f \<le> t
    \<and> map_of (scans s) (rc_scan_id rc) = Some row \<and> sr_finished row \<and> sr_domain row = indexable_name (rc_indexable rc)
    \<and> sr_generation row = unsigned_text (generation s (rc_indexable rc))
    \<and> parse_unsigned (sr_finalized_height row) = Some pin \<and> t \<le> pin
    \<and> (\<forall>n. (rc_scan_id rc, unsigned_text n) \<in> set (scan_winner_rows s) \<and> f \<le> n \<and> n \<le> t \<longrightarrow> n \<in> domain_points s (rc_indexable rc))
    \<and> rc_indexable rc \<noteq> Authorship
    \<and> domain_points s' = (domain_points s)(rc_indexable rc := domain_points s (rc_indexable rc) \<union> {f..t})
    \<and> r = (if {f..t} \<subseteq> domain_points s (rc_indexable rc) then AlreadyApplied else Applied)"
proof -
  have cov: "cov_inv s" using store.history_inv [OF assms(1)] by (simp add: store_inv_cov)
  from assms(2) show ?thesis
  proof (cases rule: commit_range_cases)
    case stale
    with assms(3) show ?thesis by simp
  next
    case (covered f t row h c changed c')
    note eff = cover_save [OF cov covered(13,15,17)]
    obtain d where d: "load_coverage s (rc_indexable rc) 0 = Inr d" "Coverage.covered d = domain_points s (rc_indexable rc)"
      by (rule load_coverage_sound [OF cov])
    have win: "n \<in> domain_points s (rc_indexable rc)"
      if "(rc_scan_id rc, unsigned_text n) \<in> set (scan_winner_rows s)" "f \<le> n" "n \<le> t" for n
    proof -
      have "unsigned_text n \<in> set (ordered_heights (map snd (filter (\<lambda>(sid, _). sid = rc_scan_id rc) (scan_winner_rows s))))"
        using that(1) by (force simp: ordered_heights_def)
      then have "check_winner c f t (unsigned_text n) = Inr ()" using covered(14) unfolding check_pages_all by blast
      then have "contains c n n" using that(2,3) by (auto simp: check_winner_def split: if_splits)
      then have "n \<in> Coverage.covered c" by (simp add: covered_def)
      then show ?thesis using d covered(13) by simp
    qed
    have "\<forall>n. (rc_scan_id rc, unsigned_text n) \<in> set (scan_winner_rows s) \<and> f \<le> n \<and> n \<le> t \<longrightarrow> n \<in> domain_points s (rc_indexable rc)"
      using win by blast
    moreover have "sr_generation row = unsigned_text (generation s (rc_indexable rc))" using covered(4,9) by simp
    moreover have "r = (if {f..t} \<subseteq> domain_points s (rc_indexable rc) then AlreadyApplied else Applied)"
      using covered(16) eff(3) by simp
    ultimately show ?thesis
      using covered(1,2,3,6,7,8,10,11,12) eff(2) by (intro exI [of _ f] exI [of _ t] exI [of _ row] exI [of _ h] conjI)
  qed
qed

definition sample_range :: range_completion where
  "sample_range = \<lparr>rc_genesis = sample_hash 0, rc_indexable = Winners, rc_expected_generation = 1,
     rc_from = decimal_of_u64 1, rc_through = decimal_of_u64 2, rc_scan_id = ''scan''\<rparr>"

text \<open>C5, completing heights one and two after an exhausted scan without winners.\<close>

theorem commit_range_success_witness:
  "\<exists>s'. commit_range sample_engine sample_range scanned_store = Inr (Applied, s')
     \<and> domain_points s' Winners = domain_points scanned_store Winners \<union> {1..2}"
proof -
  have m: "meta scanned_store = meta bound_store" by (simp add: scanned_store_eq)
  have "network scanned_store (sample_hash 0) = Inr ()"
    using get_meta_cong [OF m] bound_network by (simp add: network_def require_bound_def)
  moreover have "cover (now sample_engine) 1 2 (coverage_empty 1 0) = Inr (True, (coverage_empty 1 0)\<lparr>low := Some 1,
      high := Some 2, updated_at := Some (now sample_engine)\<rparr>)"
    by (simp add: cover_def coverage_empty_def contains_def)
  moreover have "check_pages c 1 2 (ordered_heights []) = Inr ()" for c
    by (subst check_pages.simps) (simp add: ordered_heights_def)
  ultimately obtain s' where s': "commit_range sample_engine sample_range scanned_store = Inr (Applied, s')"
    using generation_cong [OF m] load_coverage_cong [OF m]
    by (simp add: commit_range_def sample_range_def ensure_writable_def) (simp add: scanned_store_eq)
  moreover have "domain_points s' Winners = domain_points scanned_store Winners \<union> {1..2}"
    using commit_range_success [OF scanned_store_reachable s'] by (auto simp: sample_range_def)
  ultimately show ?thesis by blast
qed

section \<open>Reindexing and absence\<close>

text \<open>
  Reindexing bumps the generation of exactly the named domains, clears their completed heights, their
  markers and their scans, and leaves the other domains, the finalized hashes and the bound genesis
  as they were; the guards it returns carry the new generations.
\<close>

theorem reindex_resets:
  assumes "store_step\<^sup>*\<^sup>* (empty_store w) s" and "reindex is s = Inr (gs, s')"
  shows "(\<forall>i. if i \<in> set is
      then generation s' i = generation s i + 1 \<and> generation s i < generation s' i \<and> domain_points s' i = {}
        \<and> (\<forall>m\<in>set (unavailable s'). fst (fst m) \<noteq> indexable_name i)
        \<and> (\<forall>r\<in>set (scans s'). sr_domain (snd r) \<noteq> indexable_name i)
      else generation s' i = generation s i \<and> domain_points s' i = domain_points s i)
    \<and> gs = map (\<lambda>i. \<lparr>guard_indexable = i, expected = generation s' i\<rparr>) (unique_indexables is)
    \<and> finalized s' = finalized s \<and> get_meta s' ''dashboard.genesis'' = get_meta s ''dashboard.genesis''"
proof -
  have inv: "store_inv s" using store.history_inv [OF assms(1)] by simp
  note re = reindex_all_effect [OF inv reindex_run [OF assms(2)] distinct_unique_indexables]
  have "generation s i < generation s i + 1" if "i \<in> set is" for i
    using re that word_less_succ [of "generation s i" max_word] by simp
  moreover have "gs = map (\<lambda>i. \<lparr>guard_indexable = i, expected = generation s' i\<rparr>) (unique_indexables is)"
    using re by (auto intro!: map_cong)
  moreover have "\<forall>m\<in>set (unavailable s'). fst (fst m) \<noteq> indexable_name i"
      "\<forall>r\<in>set (scans s'). sr_domain (snd r) \<noteq> indexable_name i" if "i \<in> set is" for i
    using re that by fastforce+
  ultimately show ?thesis using re by simp
qed

text \<open>On the bound store.\<close>

theorem reindex_resets_witness:
  "generation reindexed_store Winners = 2 \<and> generation reindexed_store Difficulty = 1 \<and> domain_points reindexed_store Winners = {}"
proof -
  obtain gs where gs: "reindex [Winners] bound_store = Inr (gs, reindexed_store)" using sample_reindex by blast
  from reindex_resets [OF bound_store_reachable gs, THEN conjunct1] show ?thesis
    by (auto dest: spec [of _ Winners] spec [of _ Difficulty])
qed

text \<open>
  Pruning floors, absence markers and initial coverage never claim work: the completed heights of
  every domain stay the same, whatever the call answers.
\<close>

theorem no_coverage_from_absence:
  assumes "store_step\<^sup>*\<^sup>* (empty_store w) s"
  shows "domain_points (snd (run (set_pruned_floor e g floor) s)) = domain_points s
    \<and> domain_points (snd (run (mark_unavailable e gen u) s)) = domain_points s
    \<and> domain_points (snd (run (initialize_coverage i n start) s)) = domain_points s"
proof -
  have cov: "cov_inv s" using store.history_inv [OF assms] by (simp add: store_inv_cov)
  have "domain_points (snd (run (set_pruned_floor e g floor) s)) = domain_points s"
  proof (cases rule: run_cases [of "set_pruned_floor e g floor" s])
    case (ok r s')
    from set_pruned_floor_effect [OF cov ok(1)] show ?thesis
      using ok(2) by (elim disjE exE conjE) (simp_all add: domain_points_save)
  qed simp
  moreover have "domain_points (snd (run (mark_unavailable e gen u) s)) = domain_points s"
  proof (cases rule: run_cases [of "mark_unavailable e gen u" s])
    case (ok r s')
    from ok(1) have "meta s' = meta s" by (cases rule: mark_unavailable_cases) simp_all
    then show ?thesis using ok(2) domain_points_cong [of s' s] by simp
  qed simp
  moreover have "domain_points (snd (run (initialize_coverage i n start) s)) = domain_points s"
  proof (cases rule: run_cases [of "initialize_coverage i n start" s])
    case (ok r s')
    from ok(1) have "s' = s \<or> (get_meta s (coverage_key i) = None \<and> (\<exists>c. covered c = {} \<and> s' = save_coverage i c s))"
      by (force simp: initialize_coverage_def rbind_Inr split: if_splits)
    moreover have "get_meta s (coverage_key i) = None \<Longrightarrow> domain_points s i = {}" by (simp add: domain_points_def)
    ultimately show ?thesis using ok(2) by (elim disjE exE conjE) (simp_all add: domain_points_save fun_upd_idem)
  qed simp
  ultimately show ?thesis by blast
qed

text \<open>On the store with one marker.\<close>

theorem no_coverage_from_absence_witness:
  "domain_points marked_store = domain_points bound_store"
  unfolding marked_store_def using no_coverage_from_absence [OF bound_store_reachable] by blast

lemma committed_domains_points:
  assumes "cov_inv s"
  shows "committed_domains s n is = Inr (\<exists>i\<in>set is. n \<in> domain_points s i)"
proof (induction "is")
  case (Cons i "is")
  show ?case
  proof (cases "get_meta s (coverage_key i)")
    case None
    then show ?thesis using Cons by (simp add: domain_points_def)
  next
    case (Some v)
    with assms obtain c where c: "v = MetaCoverage c" "cov_gen c = generation s i"
      unfolding cov_inv_def sound_coverage_def by blast
    then show ?thesis using Some Cons by (auto simp: domain_points_def covered_def)
  qed
qed simp

text \<open>
  A finalized target counts as committed exactly when the recorded hash of its height equals the
  target's and some domain has completed the height in its current generation; another recorded
  hash is reported as conflicting history.
\<close>

theorem committed_target_exact:
  assumes "store_step\<^sup>*\<^sup>* (empty_store w) s" and "height (rb_height t) = Inr n"
    and "map_of (finalized s) (as_str (rb_height t)) = Some x" and "hash_from_str x = Inr h"
  shows "committed_target t s =
    (if hash_eq h (rb_hash t) then Inr (\<exists>i. n \<in> domain_points s i) else Inl (ConflictingHistory (as_str (rb_height t))))"
proof -
  have cov: "cov_inv s" using store.history_inv [OF assms(1)] by (simp add: store_inv_cov)
  have "(\<exists>i\<in>set all_indexables. n \<in> domain_points s i) = (\<exists>i. n \<in> domain_points s i)" by auto
  then show ?thesis using assms(2-4) committed_domains_points [OF cov] by (simp add: committed_target_def)
qed

text \<open>On the committed block.\<close>

theorem committed_target_exact_witness:
  "committed_target \<lparr>rb_height = decimal_of_u64 7, rb_hash = sample_hash 7\<rparr> committed_store
     = Inr (\<exists>i. 7 \<in> domain_points committed_store i)"
proof -
  have f: "map_of (finalized committed_store) (as_str (decimal_of_u64 7)) = Some (hash_to_string (sample_hash 7))"
    using store_inv_cov [OF store.history_inv [OF bound_store_reachable empty_store_inv]] sample_commit_result
    by (rule commit_block_effect) (simp_all add: sample_commit_def)
  have "hash_from_str (hash_to_string (sample_hash 7)) = Inr (sample_hash 7)"
    using hash_from_encode [of "replicate 32 7"]
    by (simp add: sample_hash_def hash_to_string_def hash_of_bytes_def BYTE_LEN_def)
  with f show ?thesis
    using committed_target_exact [OF committed_store_reachable, of "\<lparr>rb_height = decimal_of_u64 7, rb_hash = sample_hash 7\<rparr>"]
    by (simp add: hash_eq_def)
qed

section \<open>Network identity and targets\<close>

definition row_verified :: "(retained_block \<Rightarrow> store_error + block_hash) \<Rightarrow> string \<times> string \<Rightarrow> bool" where
  "row_verified verify r \<longleftrightarrow> (\<exists>rb y. retained_of_row r = Inr rb \<and> verify rb = Inr y \<and> hash_eq y (rb_hash rb))"

lemma verify_rows_ok: "(verify_rows verify rows = Inr ()) = (\<forall>rb\<in>set rows. \<exists>y. verify rb = Inr y \<and> hash_eq y (rb_hash rb))"
  by (induction rows) (auto simp: rbind_Inr)

lemma page_verified:
  assumes "rmap_list retained_of_row xs = Inr rows"
  shows "(verify_rows verify rows = Inr ()) = (\<forall>r\<in>set xs. row_verified verify r)"
  using assms unfolding rmap_list_Inr
  by (induction xs rows rule: list_all2_induct) (auto simp: rbind_Inr row_verified_def split: if_splits)

lemma page_unreadable: "rmap_list retained_of_row xs = Inl err \<Longrightarrow> \<exists>r\<in>set xs. \<not> row_verified verify r"
  by (induction xs) (auto simp: rbind_Inl row_verified_def)

lemma verify_pages_ok:
  assumes "offset \<le> length (retained_rows s)"
  shows "(verify_pages verify s offset = Inr any) =
    ((\<forall>r\<in>set (drop offset (retained_rows s)). row_verified verify r) \<and> any = (retained_rows s \<noteq> []))"
  using assms
proof (induction verify s offset rule: verify_pages.induct)
  case (1 verify s offset)
  let ?rest = "drop offset (retained_rows s)"
  have split: "(\<forall>r\<in>set ?rest. row_verified verify r) =
      ((\<forall>r\<in>set (take 512 ?rest). row_verified verify r) \<and> (\<forall>r\<in>set (drop 512 ?rest). row_verified verify r))"
    by (metis append_take_drop_id set_append Un_iff)
  show ?case
  proof (cases "retained_history s 512 offset")
    case (Inl err)
    then have "\<exists>r\<in>set (take 512 ?rest). \<not> row_verified verify r"
      by (intro page_unreadable) (simp add: retained_history_def)
    then show ?thesis unfolding split using Inl by (subst verify_pages.simps) auto
  next
    case (Inr rows)
    then have rows: "rmap_list retained_of_row (take 512 ?rest) = Inr rows" by (simp add: retained_history_def)
    have len: "length rows = min (length ?rest) 512" using rmap_list_length [OF rows] by simp
    show ?thesis
    proof (cases rows)
      case Nil
      then have "?rest = []" using len by (auto simp: min_def split: if_splits)
      then have "(0 < offset) = (retained_rows s \<noteq> [])" using "1.prems" by auto
      with Nil Inr \<open>?rest = []\<close> show ?thesis by (subst verify_pages.simps) auto
    next
      case (Cons r rs)
      have le: "offset + length rows \<le> length (retained_rows s)" using len "1.prems" by (simp add: min_def split: if_splits)
      have rest: "set (drop (offset + length rows) (retained_rows s)) = set (drop 512 ?rest)"
        using len by (cases "length ?rest \<le> 512") (auto simp: min_def add.commute)
      have "(verify_pages verify s offset = Inr any) = (verify_rows verify rows = Inr ()
          \<and> verify_pages verify s (offset + length rows) = Inr any)"
        using Inr Cons by (subst verify_pages.simps) (auto simp: rbind_Inr)
      also have "\<dots> = ((\<forall>r\<in>set (take 512 ?rest). row_verified verify r)
          \<and> (\<forall>r\<in>set (drop 512 ?rest). row_verified verify r) \<and> any = (retained_rows s \<noteq> []))"
        using "1.IH" [OF Inr [unfolded Cons]] le page_verified [OF rows] unfolding Cons rest [unfolded Cons, symmetric]
        by (auto simp: verify_rows.simps)
      finally show ?thesis unfolding split by auto
    qed
  qed
qed

text \<open>
  C38. Binding an unbound store to a genesis succeeds exactly when every retained height and hash reads back
  and the upstream returns an equal hash for it, and, without any retained hash, when no table holds
  rows that a hash would have to vouch for. It changes nothing but the genesis; a bound store only
  accepts its own genesis and is not changed.
\<close>

theorem bind_network_exact:
  assumes "writable s"
  shows "(get_meta s ''dashboard.genesis'' = None \<longrightarrow>
      (bind_network_with g verify s = Inr ((), s')) =
        ((\<forall>r\<in>set (retained_rows s). row_verified verify r) \<and> (retained_rows s = [] \<longrightarrow> \<not> unbound_rows s)
         \<and> s' = set_meta ''dashboard.genesis'' (MetaText (hash_to_string g)) s))
    \<and> (\<forall>b. get_meta s ''dashboard.genesis'' = Some b \<longrightarrow>
      (bind_network_with g verify s = Inr ((), s')) = (b = MetaText (hash_to_string g) \<and> s' = s))"
  using assms verify_pages_ok [of 0 s verify]
  by (auto simp: bind_network_with_def ensure_writable_def rbind_Inr)

text \<open>C38, on the empty store.\<close>

theorem bind_network_exact_witness:
  "bind_network_with (sample_hash 0) (\<lambda>_. Inl NetworkIdentity) (empty_store True)
     = Inr ((), set_meta ''dashboard.genesis'' (MetaText (hash_to_string (sample_hash 0))) (empty_store True))"
proof -
  have "retained_rows (empty_store True) = []" by (simp add: retained_rows_def empty_store_def)
  then show ?thesis
    using bind_network_exact [of "empty_store True" "sample_hash 0" "\<lambda>_. Inl NetworkIdentity"]
    by (simp add: empty_store_def unbound_rows_def get_meta_def)
qed

text \<open>
  The observed finalized target never moves back and its hash never changes at a height: after a
  successful update of a target with a 64-bit height, the stored height is at least the old one, at
  least the new one, and equal heights keep their hash; a different hash at the same height fails.
\<close>

theorem finalized_target_monotone:
  assumes "get_meta s ''dashboard.finalized.target'' = Some (MetaTarget h x)" and "parse_unsigned h = Some (old :: u64)"
    and "height (rb_height t) = Inr n" and "writable s" and "require_bound s = Inr g"
  shows "if n = old \<and> x \<noteq> hash_to_string (rb_hash t)
    then set_finalized_target t s = Inl (ConflictingHistory (unsigned_text n))
    else \<exists>r s' h' x'. set_finalized_target t s = Inr (r, s')
      \<and> get_meta s' ''dashboard.finalized.target'' = Some (MetaTarget h' x')
      \<and> parse_unsigned h' = Some (max old n) \<and> (n \<le> old \<longrightarrow> s' = s) \<and> (old < n \<longrightarrow> x' = hash_to_string (rb_hash t))"
proof -
  have "parse_unsigned (as_str (rb_height t)) = Some n" using assms(3) by (simp add: height_def)
  then show ?thesis
    using assms by (auto simp: set_finalized_target_def ensure_writable_def Let_def max_def not_less)
qed

text \<open>Moving a target from five to seven.\<close>

theorem finalized_target_monotone_witness:
  "\<exists>r s'. set_finalized_target \<lparr>rb_height = decimal_of_u64 7, rb_hash = sample_hash 7\<rparr>
     (set_meta ''dashboard.finalized.target'' (MetaTarget (unsigned_text (5 :: u64)) ''h'') bound_store) = Inr (r, s')"
proof -
  let ?s = "set_meta ''dashboard.finalized.target'' (MetaTarget (unsigned_text (5 :: u64)) ''h'') bound_store"
  have "require_bound ?s = Inr (MetaText (hash_to_string (sample_hash 0)))"
    by (simp add: require_bound_def) (simp add: get_meta_def bound_store_def)
  then show ?thesis
    using finalized_target_monotone [of ?s "unsigned_text (5 :: u64)" "''h''" 5 "\<lparr>rb_height = decimal_of_u64 7, rb_hash = sample_hash 7\<rparr>" 7]
    by simp blast
qed

end
