(* ===== verification/Counters.thy ===== *)
theory Counters
  imports Prelude "HOL-Library.Multiset"
begin

text \<open>
  The lock-free capacity accounting of the indexer (\<open>indexer/admission.rs\<close>) and of the chain reader
  (\<open>chain/budget.rs\<close>): atomic counters that are raised by a conditional \<open>fetch_update\<close> and lowered by
  \<open>fetch_sub\<close>. Each atomic access is one step; threads may be interleaved at any point between them.
\<close>

section \<open>A bounded counter\<close>

text \<open>
  The contract of a conditional update: it adds the weight of the request or refuses because the
  limit would be passed. From it, a counter that starts at zero always equals the total weight that
  is held, and lowering it by a held weight never wraps around.
\<close>

locale bounded_counter =
  fixes try_add :: "'op \<Rightarrow> usize \<Rightarrow> usize option"
    and weight :: "'op \<Rightarrow> nat"
    and limit :: nat
  assumes add_Some: "try_add x c = Some c' \<Longrightarrow> unat c' = unat c + weight x \<and> unat c' \<le> limit"
    and add_None: "unat c \<le> limit \<Longrightarrow> try_add x c = None \<Longrightarrow> limit < unat c + weight x"
begin

definition balanced :: "usize \<Rightarrow> 'op multiset \<Rightarrow> bool" where
  "balanced c held \<longleftrightarrow> unat c = (\<Sum>x\<in>#held. weight x) \<and> unat c \<le> limit"

lemma balanced_empty: "balanced 0 {#}"
  by (simp add: balanced_def)

lemma balanced_bound: "balanced c held \<Longrightarrow> (\<Sum>x\<in>#held. weight x) \<le> limit"
  by (simp add: balanced_def)

lemma balanced_add: "balanced c held \<Longrightarrow> try_add x c = Some c' \<Longrightarrow> balanced c' (add_mset x held)"
  using add_Some [of x c c'] by (simp add: balanced_def)

lemma balanced_release:
  assumes "balanced c (add_mset x held)"
  shows "balanced (c - of_nat (weight x)) held"
proof -
  have w: "weight x \<le> unat c" using assms by (simp add: balanced_def)
  then have "weight x < 2 ^ LENGTH(64)" using unat_lt2p [of c] by linarith
  then have "unat (of_nat (weight x) :: usize) = weight x" by (simp add: unat_of_nat)
  with w have "unat (c - of_nat (weight x)) = unat c - weight x"
    by (simp add: unat_sub word_le_nat_alt)
  then show ?thesis using assms by (simp add: balanced_def)
qed

text \<open>A refusal is justified: with the request the held weight would pass the limit.\<close>

lemma balanced_refusal: "balanced c held \<Longrightarrow> try_add x c = None \<Longrightarrow> limit < (\<Sum>y\<in>#add_mset x held. weight y)"
  using add_None [of c x] by (simp add: balanced_def)

end

section \<open>Admission of blocks\<close>

record admission =
  total :: usize
  backfill :: usize
  active :: usize
  backfill_active :: usize

datatype admission_error = Full | InvalidCapacity

definition admission_default :: admission where
  "admission_default = \<lparr>total = 64, backfill = 56, active = 0, backfill_active = 0\<rparr>"

definition admission_new :: "usize \<Rightarrow> usize \<Rightarrow> admission_error + admission" where
  "admission_new tot reserved_live =
     (if tot = 0 \<or> tot < reserved_live then Inl InvalidCapacity
      else Inr \<lparr>total = tot, backfill = tot - reserved_live, active = 0, backfill_active = 0\<rparr>)"

text \<open>The closure of \<open>claim\<close>'s \<open>fetch_update\<close>: the new value of the counter.\<close>

definition claim :: "usize \<Rightarrow> usize \<Rightarrow> usize option" where
  "claim limit n = (if n < limit then Some (n + 1) else None)"

lemma claim_Some: "claim limit n = Some n' \<Longrightarrow> n < limit \<and> unat n' = unat n + 1"
  by (auto simp: claim_def unat_add1_less split: if_splits)

text \<open>
  The position of a caller between two atomic accesses: after the first claim of \<open>try_backfill\<close>, before
  giving it back, holding a live or a backfill permit, and between the two halves of a backfill
  permit's drop.
\<close>

datatype caller = Claimed | Undoing | LivePermit | BackfillPermit | Releasing

primrec owns_slot :: "caller \<Rightarrow> bool" where
  "owns_slot Claimed = False" | "owns_slot Undoing = False" | "owns_slot LivePermit = True"
| "owns_slot BackfillPermit = True" | "owns_slot Releasing = False"

primrec owns_backfill :: "caller \<Rightarrow> bool" where
  "owns_backfill Claimed = True" | "owns_backfill Undoing = True" | "owns_backfill LivePermit = False"
| "owns_backfill BackfillPermit = True" | "owns_backfill Releasing = True"

inductive admission_step :: "admission \<times> caller multiset \<Rightarrow> admission \<times> caller multiset \<Rightarrow> bool" where
  live: "claim (total a) (active a) = Some n \<Longrightarrow>
    admission_step (a, T) (a\<lparr>active := n\<rparr>, add_mset LivePermit T)"
| live_full: "claim (total a) (active a) = None \<Longrightarrow> admission_step (a, T) (a, T)"
| backfill_claim: "claim (backfill a) (backfill_active a) = Some n \<Longrightarrow>
    admission_step (a, T) (a\<lparr>backfill_active := n\<rparr>, add_mset Claimed T)"
| backfill_full: "claim (backfill a) (backfill_active a) = None \<Longrightarrow> admission_step (a, T) (a, T)"
| backfill_admit: "claim (total a) (active a) = Some n \<Longrightarrow>
    admission_step (a, add_mset Claimed T) (a\<lparr>active := n\<rparr>, add_mset BackfillPermit T)"
| backfill_reject: "claim (total a) (active a) = None \<Longrightarrow>
    admission_step (a, add_mset Claimed T) (a, add_mset Undoing T)"
| backfill_undo: "admission_step (a, add_mset Undoing T) (a\<lparr>backfill_active := backfill_active a - 1\<rparr>, T)"
| drop_live: "admission_step (a, add_mset LivePermit T) (a\<lparr>active := active a - 1\<rparr>, T)"
| drop_backfill: "admission_step (a, add_mset BackfillPermit T) (a\<lparr>active := active a - 1\<rparr>, add_mset Releasing T)"
| drop_backfill_rest: "admission_step (a, add_mset Releasing T) (a\<lparr>backfill_active := backfill_active a - 1\<rparr>, T)"

interpretation slots: bounded_counter "\<lambda>(_ :: caller) n. claim limit n" "\<lambda>_. Suc 0" "unat limit" for limit
proof
  show "claim limit c = Some c' \<Longrightarrow> unat c' = unat c + Suc 0 \<and> unat c' \<le> unat limit" for c c'
    by (drule claim_Some) (auto simp: word_less_nat_alt)
  show "unat c \<le> unat limit \<Longrightarrow> claim limit c = None \<Longrightarrow> unat limit < unat c + Suc 0" for c
    by (auto simp: claim_def word_less_nat_alt split: if_splits)
qed

definition admission_inv :: "admission \<times> caller multiset \<Rightarrow> bool" where
  "admission_inv st \<longleftrightarrow> (case st of (a, T) \<Rightarrow>
     slots.balanced (total a) (active a) (filter_mset owns_slot T)
     \<and> slots.balanced (backfill a) (backfill_active a) (filter_mset owns_backfill T))"

lemma admission_step_inv: "admission_step s s' \<Longrightarrow> admission_inv s \<Longrightarrow> admission_inv s'"
proof (induction rule: admission_step.induct)
  case (live a n T)
  then show ?case using slots.balanced_add [where limit = "total a" and c = "active a" and x = LivePermit and c' = n] by (simp add: admission_inv_def)
next
  case (backfill_claim a n T)
  then show ?case using slots.balanced_add [where limit = "backfill a" and c = "backfill_active a" and x = Claimed and c' = n] by (simp add: admission_inv_def)
next
  case (backfill_admit a n T)
  then show ?case
    using slots.balanced_add [where limit = "total a" and c = "active a" and held = "filter_mset owns_slot T" and x = BackfillPermit and c' = n] by (simp add: admission_inv_def slots.balanced_def)
next
  case (backfill_undo a T)
  then show ?case using slots.balanced_release [where limit = "backfill a" and c = "backfill_active a" and x = Undoing] by (simp add: admission_inv_def)
next
  case (drop_live a T)
  then show ?case using slots.balanced_release [where limit = "total a" and c = "active a" and x = LivePermit] by (simp add: admission_inv_def)
next
  case (drop_backfill a T)
  then show ?case
    using slots.balanced_release [where limit = "total a" and c = "active a" and x = BackfillPermit] by (simp add: admission_inv_def slots.balanced_def)
next
  case (drop_backfill_rest a T)
  then show ?case using slots.balanced_release [where limit = "backfill a" and c = "backfill_active a" and x = Releasing] by (simp add: admission_inv_def)
qed (simp_all add: admission_inv_def slots.balanced_def)

lemma admission_step_limits: "admission_step s s' \<Longrightarrow> total (fst s') = total (fst s) \<and> backfill (fst s') = backfill (fst s)"
  by (induction rule: admission_step.induct) simp_all

interpretation admission: history admission_step admission_inv
  "\<lambda>s s'. total (fst s') = total (fst s) \<and> backfill (fst s') = backfill (fst s)"
  by unfold_locales (auto intro: admission_step_inv dest: admission_step_limits)

text \<open>
  C34. However the callers interleave, the counters equal what is owned: at most \<open>total\<close> permits exist, at
  most \<open>total - reserved_live\<close> of them are backfill permits, no decrement wraps around, and while fewer
  than \<open>reserved_live\<close> live permits exist a live claim succeeds.
\<close>

theorem admission_capacity:
  assumes "admission_new tot res = Inr a0" and "admission_step\<^sup>*\<^sup>* (a0, {#}) (a, T)"
  shows "unat (active a) = size (filter_mset owns_slot T) \<and> size (filter_mset owns_slot T) \<le> unat tot
    \<and> unat (backfill_active a) = size (filter_mset owns_backfill T)
    \<and> count T BackfillPermit \<le> unat tot - unat res
    \<and> (count T LivePermit < unat res \<longrightarrow> claim (total a) (active a) \<noteq> None)"
proof -
  have a0: "a0 = \<lparr>total = tot, backfill = tot - res, active = 0, backfill_active = 0\<rparr>" "res \<le> tot"
    using assms(1) by (auto simp: admission_new_def split: if_splits)
  have "admission_inv (a0, {#})" by (simp add: admission_inv_def a0 slots.balanced_empty)
  from admission.history_inv [OF assms(2) this] admission.history_rel [OF assms(2) this]
  have lim: "total a = tot" "backfill a = tot - res"
    and act: "unat (active a) = size (filter_mset owns_slot T)" "unat (active a) \<le> unat tot"
    and bf: "unat (backfill_active a) = size (filter_mset owns_backfill T)" "unat (backfill_active a) \<le> unat (tot - res)"
    using a0 by (auto simp: admission_inv_def slots.balanced_def)
  have diff: "unat (tot - res) = unat tot - unat res" using a0(2) by (simp add: unat_sub)
  have "count (filter_mset owns_backfill T) BackfillPermit \<le> size (filter_mset owns_backfill T)" by (rule count_le_size)
  then have bp: "count T BackfillPermit \<le> unat tot - unat res" using bf diff by simp
  have "filter_mset owns_slot T = replicate_mset (count T LivePermit) LivePermit + replicate_mset (count T BackfillPermit) BackfillPermit"
  proof (rule multiset_eqI)
    fix x
    show "count (filter_mset owns_slot T) x = count (replicate_mset (count T LivePermit) LivePermit + replicate_mset (count T BackfillPermit) BackfillPermit) x"
      by (cases x) simp_all
  qed
  then have "size (filter_mset owns_slot T) = count T LivePermit + count T BackfillPermit" by simp
  then have "claim (total a) (active a) \<noteq> None" if "count T LivePermit < unat res"
    using that bp act lim a0(2) by (auto simp: claim_def word_less_nat_alt word_le_nat_alt split: if_splits)
  with act bf bp show ?thesis by simp
qed

text \<open>C34, with two slots of which one is reserved, after a backfill permit was admitted.\<close>

theorem admission_capacity_witness:
  "\<exists>a. admission_step\<^sup>*\<^sup>* (\<lparr>total = 2, backfill = 1, active = 0, backfill_active = 0\<rparr>, {#}) (a, {#BackfillPermit#})
     \<and> unat (active a) = 1 \<and> claim (total a) (active a) \<noteq> None"
proof -
  let ?a0 = "\<lparr>total = 2, backfill = 1, active = 0, backfill_active = 0\<rparr>"
  let ?a1 = "?a0\<lparr>backfill_active := 1\<rparr>" and ?a2 = "?a0\<lparr>backfill_active := 1, active := 1\<rparr>"
  have "admission_step (?a0, {#}) (?a1, {#Claimed#})"
    using backfill_claim [of ?a0 1 "{#}"] by (simp add: claim_def)
  moreover have "admission_step (?a1, {#Claimed#}) (?a2, {#BackfillPermit#})"
    using backfill_admit [of ?a1 1 "{#}"] by (simp add: claim_def)
  ultimately have r: "admission_step\<^sup>*\<^sup>* (?a0, {#}) (?a2, {#BackfillPermit#})"
    by (meson r_into_rtranclp rtranclp_trans)
  have "admission_new 2 1 = Inr ?a0" by (simp add: admission_new_def)
  from admission_capacity [OF this r] r show ?thesis by auto
qed

section \<open>The payload budget of the chain reader\<close>

datatype kind = Response | Metadata | Block | Active | ActiveBlock

primrec kind_limit :: "kind \<Rightarrow> usize" where
  "kind_limit Response = 12 * 1024 * 1024"
| "kind_limit Metadata = 8 * 1024 * 1024"
| "kind_limit Block = 4 * 1024 * 1024"
| "kind_limit Active = 64 * 1024 * 1024"
| "kind_limit ActiveBlock = 64 * 1024 * 1024"

record budget =
  used :: "kind \<Rightarrow> usize"
  peak :: usize

definition budget_default :: budget where
  "budget_default = \<lparr>used = (\<lambda>_. 0), peak = 0\<rparr>"

text \<open>The closure of \<open>reserve\<close>'s \<open>fetch_update\<close>.\<close>

definition reserve_update :: "kind \<Rightarrow> usize \<Rightarrow> usize \<Rightarrow> usize option" where
  "reserve_update k bytes u = (case checked_add u bytes of
       None \<Rightarrow> None | Some n \<Rightarrow> if n \<le> kind_limit k then Some n else None)"

text \<open>A caller of \<open>reserve\<close> after its update, while it reads the three counters, and a returned charge.\<close>

datatype holder =
    Reading1 kind usize
  | Reading2 kind usize usize
  | Reading3 kind usize usize
  | Summed kind usize usize
  | Charge kind usize

primrec holder_kind :: "holder \<Rightarrow> kind" where
  "holder_kind (Reading1 k b) = k" | "holder_kind (Reading2 k b r) = k" | "holder_kind (Reading3 k b r) = k"
| "holder_kind (Summed k b r) = k" | "holder_kind (Charge k b) = k"

primrec holder_bytes :: "holder \<Rightarrow> usize" where
  "holder_bytes (Reading1 k b) = b" | "holder_bytes (Reading2 k b r) = b" | "holder_bytes (Reading3 k b r) = b"
| "holder_bytes (Summed k b r) = b" | "holder_bytes (Charge k b) = b"

inductive budget_step :: "budget \<times> holder multiset \<Rightarrow> budget \<times> holder multiset \<Rightarrow> bool" where
  reserve: "reserve_update k bytes (used b k) = Some n \<Longrightarrow>
    budget_step (b, H) (b\<lparr>used := (used b)(k := n)\<rparr>, add_mset (Reading1 k bytes) H)"
| refuse: "reserve_update k bytes (used b k) = None \<Longrightarrow> budget_step (b, H) (b, H)"
| load_response: "budget_step (b, add_mset (Reading1 k n) H) (b, add_mset (Reading2 k n (used b Response)) H)"
| load_metadata: "budget_step (b, add_mset (Reading2 k n r) H) (b, add_mset (Reading3 k n (r + used b Metadata)) H)"
| load_block: "budget_step (b, add_mset (Reading3 k n r) H) (b, add_mset (Summed k n (r + used b Block)) H)"
| fetch_max: "budget_step (b, add_mset (Summed k n r) H) (b\<lparr>peak := max (peak b) r\<rparr>, add_mset (Charge k n) H)"
| drop_charge: "budget_step (b, add_mset (Charge k n) H) (b\<lparr>used := (used b)(k := used b k - n)\<rparr>, H)"

interpretation charges: bounded_counter "\<lambda>h. reserve_update k (holder_bytes h)" "\<lambda>h. unat (holder_bytes h)" "unat (kind_limit k)" for k
proof
  fix h c c'
  show "unat c' = unat c + unat (holder_bytes h) \<and> unat c' \<le> unat (kind_limit k)"
    if "reserve_update k (holder_bytes h) c = Some c'"
    using that by (auto simp: reserve_update_def checked_add_def word_le_nat_alt unat_word_ariths split: if_splits)
  show "unat (kind_limit k) < unat c + unat (holder_bytes h)"
    if "unat c \<le> unat (kind_limit k)" "reserve_update k (holder_bytes h) c = None"
  proof (cases "unat c + unat (holder_bytes h) < 2 ^ 64")
    case True
    then show ?thesis
      using that by (auto simp: reserve_update_def checked_add_def word_le_nat_alt unat_word_ariths split: if_splits)
  next
    case False
    then show ?thesis using unat_lt2p [of "kind_limit k"] by simp
  qed
qed

text \<open>What a caller has read so far is bounded by the limits of the counters it read.\<close>

primrec read_ok :: "holder \<Rightarrow> bool" where
  "read_ok (Reading1 k b) = True"
| "read_ok (Reading2 k b r) = (r \<le> 12 * 1024 * 1024)"
| "read_ok (Reading3 k b r) = (r \<le> 20 * 1024 * 1024)"
| "read_ok (Summed k b r) = (r \<le> 24 * 1024 * 1024)"
| "read_ok (Charge k b) = True"

definition budget_inv :: "budget \<times> holder multiset \<Rightarrow> bool" where
  "budget_inv st \<longleftrightarrow> (case st of (b, H) \<Rightarrow>
     (\<forall>k. charges.balanced k (used b k) (filter_mset (\<lambda>h. holder_kind h = k) H))
     \<and> (\<forall>h\<in>#H. read_ok h) \<and> peak b \<le> 24 * 1024 * 1024)"

lemma used_le_limit: "charges.balanced k c held \<Longrightarrow> c \<le> kind_limit k"
  by (simp add: charges.balanced_def word_le_nat_alt)

lemma budget_inv_used: "budget_inv (b, H) \<Longrightarrow> used b k \<le> kind_limit k"
  unfolding budget_inv_def prod.case by (blast intro: used_le_limit)

lemma word_add_le_mono:
  assumes "a \<le> x" and "b \<le> y" and "unat x + unat y < 2 ^ 64"
  shows "(a :: usize) + b \<le> x + y"
  using assms by (simp add: word_le_nat_alt unat_word_ariths)

lemma balanced_replace:
  assumes "holder_kind h' = holder_kind h" and "holder_bytes h' = holder_bytes h"
  shows "charges.balanced k c (filter_mset (\<lambda>h. holder_kind h = k) (add_mset h' H))
    = charges.balanced k c (filter_mset (\<lambda>h. holder_kind h = k) (add_mset h H))"
  using assms by (simp add: charges.balanced_def)

lemma budget_step_inv: "budget_step s s' \<Longrightarrow> budget_inv s \<Longrightarrow> budget_inv s'"
proof (induction rule: budget_step.induct)
  case (reserve k bytes b n H)
  then show ?case
    using charges.balanced_add [where k = k and x = "Reading1 k bytes" and c' = n and c = "used b k"
        and held = "filter_mset (\<lambda>h. holder_kind h = k) H"]
    by (simp add: budget_inv_def)
next
  case (load_response b k n H)
  then have "used b Response \<le> 12 * 1024 * 1024" using budget_inv_used [of b _ Response] by fastforce
  with load_response show ?case
    using balanced_replace [of "Reading2 k n (used b Response)" "Reading1 k n"] by (auto simp: budget_inv_def)
next
  case (load_metadata b k n r H)
  then have "r + used b Metadata \<le> 12 * 1024 * 1024 + 8 * 1024 * 1024"
    using budget_inv_used [of b _ Metadata] by (intro word_add_le_mono) (fastforce simp: budget_inv_def)+
  with load_metadata show ?case
    using balanced_replace [of "Reading3 k n (r + used b Metadata)" "Reading2 k n r"] by (auto simp: budget_inv_def)
next
  case (load_block b k n r H)
  then have "r + used b Block \<le> 20 * 1024 * 1024 + 4 * 1024 * 1024"
    using budget_inv_used [of b _ Block] by (intro word_add_le_mono) (fastforce simp: budget_inv_def)+
  with load_block show ?case
    using balanced_replace [of "Summed k n (r + used b Block)" "Reading3 k n r"] by (auto simp: budget_inv_def)
next
  case (fetch_max b k n r H)
  then show ?case
    using balanced_replace [of "Charge k n" "Summed k n r"] by (auto simp: budget_inv_def)
next
  case (drop_charge b k n H)
  then have bal: "charges.balanced j (used b j) (filter_mset (\<lambda>h. holder_kind h = j) (add_mset (Charge k n) H))" for j
    unfolding budget_inv_def prod.case by blast
  have "charges.balanced k (used b k - n) (filter_mset (\<lambda>h. holder_kind h = k) H)"
    using charges.balanced_release [where k = k and x = "Charge k n" and c = "used b k"
        and held = "filter_mset (\<lambda>h. holder_kind h = k) H"] bal [of k] by simp
  moreover have "charges.balanced j (used b j) (filter_mset (\<lambda>h. holder_kind h = j) H)" if "j \<noteq> k" for j
    using bal [of j] that by simp
  ultimately show ?case using drop_charge by (auto simp: budget_inv_def)
qed auto

interpretation budget: history budget_step budget_inv "\<lambda>s s'. peak (fst s) \<le> peak (fst s')"
proof unfold_locales
  show "peak (fst s) \<le> peak (fst t)" if "budget_step s t" for s t
    using that by (induction rule: budget_step.induct) auto
qed (auto intro: budget_step_inv)

text \<open>
  However reservations, reads and drops interleave, each counter equals the bytes of the outstanding
  charges of its kind and stays within its limit, the recorded peak never exceeds 24 MiB and never
  decreases, and a refused reservation would have passed the limit of its kind.
\<close>

theorem budget_bounded:
  assumes "budget_step\<^sup>*\<^sup>* (budget_default, {#}) (b, H)" and "budget_step\<^sup>*\<^sup>* (b, H) (b', H')"
  shows "unat (used b k) = (\<Sum>h\<in>#filter_mset (\<lambda>h. holder_kind h = k) H. unat (holder_bytes h))
    \<and> used b k \<le> kind_limit k \<and> peak b \<le> peak b' \<and> peak b' \<le> 24 * 1024 * 1024
    \<and> (reserve_update k n (used b k) = None \<longrightarrow>
        unat (kind_limit k) < unat n + (\<Sum>h\<in>#filter_mset (\<lambda>h. holder_kind h = k) H. unat (holder_bytes h)))"
proof -
  have init: "budget_inv (budget_default, {#})"
    by (simp add: budget_inv_def budget_default_def charges.balanced_empty)
  have inv: "budget_inv (b, H)" and inv': "budget_inv (b', H')" and pk: "peak b \<le> peak b'"
    using budget.history_inv [OF assms(1) init] budget.history_between [OF assms init] by auto
  have bal: "charges.balanced k (used b k) (filter_mset (\<lambda>h. holder_kind h = k) H)"
    using inv by (simp add: budget_inv_def)
  have "unat (kind_limit k) < unat n + (\<Sum>h\<in>#filter_mset (\<lambda>h. holder_kind h = k) H. unat (holder_bytes h))"
    if "reserve_update k n (used b k) = None"
    using charges.balanced_refusal [OF bal, of "Charge k n"] that by simp
  then show ?thesis
    using bal pk inv' used_le_limit [OF bal] by (simp add: budget_inv_def charges.balanced_def)
qed

text \<open>C36, after one reservation of a kilobyte.\<close>

theorem budget_bounded_witness:
  "\<exists>b H. budget_step\<^sup>*\<^sup>* (budget_default, {#}) (b, H) \<and> unat (used b Block) = 1024 \<and> peak b \<le> 24 * 1024 * 1024"
proof -
  let ?b = "budget_default\<lparr>used := (used budget_default)(Block := 1024)\<rparr>"
  have "budget_step (budget_default, {#}) (?b, {#Reading1 Block 1024#})"
    by (rule reserve) (simp add: reserve_update_def checked_add_def budget_default_def)
  then have r: "budget_step\<^sup>*\<^sup>* (budget_default, {#}) (?b, {#Reading1 Block 1024#})" by blast
  from budget_bounded [OF r rtranclp.rtrancl_refl, of Block 0] r show ?thesis by auto
qed

end
