(* ===== verification/Sync_Gate.thy ===== *)
theory Sync_Gate
  imports Prelude
begin

text \<open>
  The backfill gate (\<open>indexer/sync_gate.rs\<close>): three pause conditions and a debounce of the resume.
\<close>

definition LATENCY_CEILING_MICROS :: u64 where "LATENCY_CEILING_MICROS = 5000000"
definition LIVE_LAG_BOUND :: u64 where "LIVE_LAG_BOUND = 32"
definition RESUME_HYSTERESIS :: u64 where "RESUME_HYSTERESIS = 10"

record gate_sample =
  gs_syncing :: bool
  gs_finalized :: u64
  gs_best :: u64
  gs_average_micros :: u64

definition paused_now :: "gate_sample \<Rightarrow> bool" where
  "paused_now x \<longleftrightarrow> gs_syncing x
     \<or> LIVE_LAG_BOUND \<le> saturating_sub (gs_best x) (gs_finalized x)
     \<or> LATENCY_CEILING_MICROS < gs_average_micros x"

text \<open>\<open>evaluate\<close>: the state is the number of consecutive in-sync samples; the decision is \<open>paused\<close>.\<close>

definition evaluate :: "gate_sample \<Rightarrow> u64 \<Rightarrow> bool \<times> u64" where
  "evaluate x runs =
     (let runs' = (if paused_now x then 0 else saturating_add runs 1)
      in (if paused_now x then True else runs' < RESUME_HYSTERESIS, runs'))"

record method_metrics =
  elapsed_micros :: "128 word"
  calls :: u64

definition sample_from_metrics :: "method_metrics list \<Rightarrow> u64" where
  "sample_from_metrics ms =
     (let (micros, count) = fold (\<lambda>m (micros, count).
          (saturating_add micros (if unat (elapsed_micros m) < 2 ^ 64 then of_nat (unat (elapsed_micros m)) else max_word),
           saturating_add count (calls m))) ms (0, 0)
      in case checked_div micros count of None \<Rightarrow> 0 | Some a \<Rightarrow> a)"

text \<open>The gate over a sequence of samples, from its default state.\<close>

fun gate_run :: "u64 \<Rightarrow> gate_sample list \<Rightarrow> bool list \<times> u64" where
  "gate_run runs [] = ([], runs)"
| "gate_run runs (x # xs) =
     (let (p, runs') = evaluate x runs; (ps, runs'') = gate_run runs' xs in (p # ps, runs''))"

text \<open>How many samples at the end of a sequence are calm.\<close>

definition calm_suffix :: "gate_sample list \<Rightarrow> nat" where
  "calm_suffix xs = length (takeWhile (\<lambda>x. \<not> paused_now x) (rev xs))"

lemma gate_run_append:
  "gate_run runs (xs @ ys) = (let (ps, r) = gate_run runs xs; (qs, r') = gate_run r ys in (ps @ qs, r'))"
  by (induction xs arbitrary: runs) (auto simp: Let_def split: prod.splits)

lemma saturating_step: "unat (saturating_add r (1 :: u64)) = min (Suc (unat r)) (2 ^ 64 - 1)"
  by (simp add: unat_saturating_add)

lemma gate_runs_count: "unat (snd (gate_run 0 xs)) = min (calm_suffix xs) (2 ^ 64 - 1)"
proof (induction xs rule: rev_induct)
  case Nil
  then show ?case by (simp add: calm_suffix_def)
next
  case (snoc x xs)
  then show ?case
    by (auto simp: gate_run_append Let_def evaluate_def calm_suffix_def saturating_step split: prod.splits)
qed

lemma gate_run_last:
  "fst (gate_run 0 (xs @ [x])) = fst (gate_run 0 xs) @ [fst (evaluate x (snd (gate_run 0 xs)))]"
  by (simp add: gate_run_append Let_def split: prod.splits)

text \<open>
  After any sequence of samples the backfill may run exactly when the last ten samples, all of them
  present, were calm: the validator was not syncing, the finalized head was fewer than 32 blocks
  behind and the average latency was at most five seconds. A saturated counter does not change this.
\<close>

theorem gate_resumes_after_ten_calm:
  "(\<not> last (fst (gate_run 0 (xs @ [x])))) = (10 \<le> calm_suffix (xs @ [x]))
   \<and> paused_now x = (gs_syncing x \<or> unat (gs_finalized x) + 32 \<le> unat (gs_best x) \<or> 5000000 < unat (gs_average_micros x))"
proof -
  let ?r = "snd (gate_run 0 xs)"
  have run: "last (fst (gate_run 0 (xs @ [x]))) = fst (evaluate x ?r)" by (simp add: gate_run_last)
  have "(\<not> fst (evaluate x ?r)) = (10 \<le> calm_suffix (xs @ [x]))"
  proof (cases "paused_now x")
    case True
    then show ?thesis by (simp add: evaluate_def calm_suffix_def)
  next
    case False
    then have "(\<not> fst (evaluate x ?r)) = (10 \<le> unat (saturating_add ?r 1))"
      by (simp add: evaluate_def Let_def RESUME_HYSTERESIS_def not_less word_le_nat_alt)
    moreover have "calm_suffix (xs @ [x]) = Suc (calm_suffix xs)" using False by (simp add: calm_suffix_def)
    ultimately show ?thesis using gate_runs_count [of xs] by (simp add: saturating_step)
  qed
  moreover have "(LIVE_LAG_BOUND \<le> saturating_sub (gs_best x) (gs_finalized x)) = (unat (gs_finalized x) + 32 \<le> unat (gs_best x))"
    by (auto simp: LIVE_LAG_BOUND_def saturating_sub_def word_le_nat_alt unat_sub)
  moreover have "(LATENCY_CEILING_MICROS < gs_average_micros x) = (5000000 < unat (gs_average_micros x))"
    by (simp add: LATENCY_CEILING_MICROS_def word_less_nat_alt)
  ultimately show ?thesis using run by (simp add: paused_now_def)
qed

end
