(* ===== verification/Health.thy ===== *)
theory Health
  imports Prelude "HOL-Library.Option_ord"
begin

text \<open>
  Task liveness and upstream readiness (\<open>health.rs\<close>). Instants of the monotonic clock are nanoseconds
  since the start of the process; each method reads the clock once, so the reading is an argument, and so
  is the UTC text of \<open>now()\<close>. \<open>Instant::elapsed\<close> saturates at zero, as subtraction of naturals does.
\<close>

section \<open>Data\<close>

datatype required_task = Http | Indexer | Miner | Watchdog | FileWriter

datatype phase = LocalStartup | Connecting | Verifying | Ready | Stopping

text \<open>The derived order of \<open>RequiredTask\<close>: the order of declaration, which \<open>BTreeSet\<close> iterates in.\<close>

primrec task_rank :: "required_task \<Rightarrow> nat" where
  "task_rank Http = 0" | "task_rank Indexer = 1" | "task_rank Miner = 2" | "task_rank Watchdog = 3"
| "task_rank FileWriter = 4"

lemma task_rank_inj: "task_rank s = task_rank t \<Longrightarrow> s = t"
  by (cases s; cases t) simp_all

instantiation required_task :: linorder
begin

definition less_required_task :: "required_task \<Rightarrow> required_task \<Rightarrow> bool" where
  "less_required_task s t \<longleftrightarrow> task_rank s < task_rank t"

definition less_eq_required_task :: "required_task \<Rightarrow> required_task \<Rightarrow> bool" where
  "less_eq_required_task s t \<longleftrightarrow> task_rank s \<le> task_rank t"

instance
  by standard (auto simp: less_required_task_def less_eq_required_task_def dest: task_rank_inj)

end

primrec task_debug :: "required_task \<Rightarrow> string" where
  "task_debug Http = ''Http''" | "task_debug Indexer = ''Indexer''" | "task_debug Miner = ''Miner''"
| "task_debug Watchdog = ''Watchdog''" | "task_debug FileWriter = ''FileWriter''"

primrec phase_debug :: "phase \<Rightarrow> string" where
  "phase_debug LocalStartup = ''LocalStartup''" | "phase_debug Connecting = ''Connecting''"
| "phase_debug Verifying = ''Verifying''" | "phase_debug Ready = ''Ready''" | "phase_debug Stopping = ''Stopping''"

record health_state =
  hs_indexing :: bool
  hs_phase :: phase
  hs_started :: nat
  hs_watchdog :: nat
  hs_dead :: "required_task set"
  hs_connected :: bool
  hs_best :: "u64 option"
  hs_finalized :: "u64 option"
  hs_committed :: "u64 option"
  hs_waiting :: "nat option"
  hs_miner_success :: "nat option"
  hs_miner_utc :: "string option"
  hs_commit_utc :: "string option"
  hs_head_utc :: "string option"

record health_snapshot =
  ok :: bool
  live :: bool
  ready :: bool
  snap_phase :: phase
  last_status_fetch_at :: "string option"
  last_block_insert_at :: "string option"
  last_substrate_event_at :: "string option"
  chain_connected :: bool
  best_block_height :: "string option"
  finalized_block_height :: "string option"
  last_committed_height :: "string option"
  reasons :: "string list"

section \<open>Operations\<close>

text \<open>\<open>new\<close> reads the clock twice.\<close>

definition health_new :: "bool \<Rightarrow> nat \<Rightarrow> nat \<Rightarrow> health_state" where
  "health_new indexing t0 t1 = \<lparr>hs_indexing = indexing, hs_phase = LocalStartup, hs_started = t0,
     hs_watchdog = t1, hs_dead = {}, hs_connected = False, hs_best = None, hs_finalized = None,
     hs_committed = None, hs_waiting = None, hs_miner_success = None, hs_miner_utc = None,
     hs_commit_utc = None, hs_head_utc = None\<rparr>"

definition set_phase :: "phase \<Rightarrow> health_state \<Rightarrow> health_state" where
  "set_phase p s = s\<lparr>hs_phase := p\<rparr>"

definition heartbeat :: "nat \<Rightarrow> required_task \<Rightarrow> health_state \<Rightarrow> health_state" where
  "heartbeat now task s = (if task = Watchdog then s\<lparr>hs_watchdog := now\<rparr> else s)"

definition task_exited :: "required_task \<Rightarrow> health_state \<Rightarrow> health_state" where
  "task_exited task s =
     (if hs_indexing s \<or> task = Http \<or> task = Watchdog \<or> task = FileWriter
      then s\<lparr>hs_dead := insert task (hs_dead s)\<rparr> else s)"

definition connected :: "bool \<Rightarrow> health_state \<Rightarrow> health_state" where
  "connected c s = s\<lparr>hs_connected := c\<rparr>"

definition unwrap_or :: "'a \<Rightarrow> 'a option \<Rightarrow> 'a" where
  "unwrap_or d x = (case x of None \<Rightarrow> d | Some v \<Rightarrow> v)"

definition raise_height :: "u64 option \<Rightarrow> u64 option \<Rightarrow> u64 option" where
  "raise_height prior seen = (case seen of None \<Rightarrow> prior
     | Some h \<Rightarrow> Some (case prior of None \<Rightarrow> h | Some p \<Rightarrow> max p h))"

definition head_received :: "nat \<Rightarrow> string \<Rightarrow> u64 option \<Rightarrow> u64 option \<Rightarrow> health_state \<Rightarrow> health_state" where
  "head_received now utc best finalized s0 =
     (let s = s0\<lparr>hs_head_utc := Some utc, hs_best := raise_height (hs_best s0) best,
                 hs_finalized := raise_height (hs_finalized s0) finalized\<rparr>
      in if unwrap_or 0 (hs_committed s) < unwrap_or 0 (hs_finalized s) \<and> hs_waiting s = None
         then s\<lparr>hs_waiting := Some now\<rparr> else s)"

definition committed :: "nat \<Rightarrow> string \<Rightarrow> u64 \<Rightarrow> health_state \<Rightarrow> health_state" where
  "committed now utc height s =
     (if (case hs_committed s of None \<Rightarrow> True | Some prior \<Rightarrow> prior < height)
      then s\<lparr>hs_committed := Some height, hs_commit_utc := Some utc,
             hs_waiting := (if height < unwrap_or 0 (hs_finalized s) then Some now else None)\<rparr>
      else s)"

definition miner_success :: "nat \<Rightarrow> string \<Rightarrow> health_state \<Rightarrow> health_state" where
  "miner_success now observed_at s =
     (if hs_miner_utc s \<noteq> Some observed_at
      then s\<lparr>hs_miner_success := Some now, hs_miner_utc := Some observed_at\<rparr> else s)"

definition secs :: "nat \<Rightarrow> nat" where
  "secs n = n * 1000000000"

definition STALL :: string where
  "STALL = ''finalized heads advance without committed progress for 90 seconds''"

text \<open>The reasons that decide liveness, then those that decide readiness.\<close>

definition live_reasons :: "nat \<Rightarrow> health_state \<Rightarrow> string list" where
  "live_reasons now s =
     map (\<lambda>task. ''required task '' @ task_debug task @ '' exited'') (sorted_list_of_set (hs_dead s))
     @ (if hs_phase s = LocalStartup
        then (if secs 60 < now - hs_started s then [''local startup exceeded 60 seconds''] else [])
        else if secs 15 < now - hs_watchdog s then [''watchdog has not progressed for 15 seconds''] else [])"

definition indexing_reasons :: "nat \<Rightarrow> health_state \<Rightarrow> string list" where
  "indexing_reasons now s =
     (if hs_connected s then [] else [''validator subscription unavailable''])
     @ (if (case hs_waiting s of None \<Rightarrow> False | Some since \<Rightarrow> secs 90 < now - since) then [STALL] else [])
     @ (if (case hs_miner_success s of None \<Rightarrow> True | Some since \<Rightarrow> secs 90 < now - since)
        then [''no recent successful miner poll''] else [])"

definition snapshot :: "nat \<Rightarrow> health_state \<Rightarrow> health_snapshot" where
  "snapshot now s =
     (let rs0 = live_reasons now s;
          rs1 = rs0 @ (if hs_phase s \<noteq> Ready then [''service phase is '' @ phase_debug (hs_phase s)] else []);
          rs = rs1 @ (if hs_indexing s then indexing_reasons now s else [])
      in \<lparr>ok = (rs = []), live = (rs0 = []), ready = (rs = []), snap_phase = hs_phase s,
          last_status_fetch_at = hs_miner_utc s, last_block_insert_at = hs_commit_utc s,
          last_substrate_event_at = hs_head_utc s, chain_connected = hs_connected s,
          best_block_height = map_option unsigned_text (hs_best s),
          finalized_block_height = map_option unsigned_text (hs_finalized s),
          last_committed_height = map_option unsigned_text (hs_committed s), reasons = rs\<rparr>)"

section \<open>Histories\<close>

text \<open>A call of one of the methods, with its clock reading; the mutex makes each of them atomic.\<close>

datatype health_call =
    SetPhase phase | Heartbeat required_task | TaskExited required_task | Connected bool
  | HeadReceived string "u64 option" "u64 option" | Committed string u64 | MinerSuccess string

primrec apply_call :: "nat \<Rightarrow> health_call \<Rightarrow> health_state \<Rightarrow> health_state" where
  "apply_call now (SetPhase p) = set_phase p"
| "apply_call now (Heartbeat t) = heartbeat now t"
| "apply_call now (TaskExited t) = task_exited t"
| "apply_call now (Connected c) = connected c"
| "apply_call now (HeadReceived utc b f) = head_received now utc b f"
| "apply_call now (Committed utc h) = committed now utc h"
| "apply_call now (MinerSuccess o_at) = miner_success now o_at"

definition health_run :: "health_state \<Rightarrow> (nat \<times> health_call) list \<Rightarrow> health_state" where
  "health_run s cs = fold (\<lambda>(now, c). apply_call now c) cs s"

lemma health_run_simps [simp]:
  "health_run s [] = s"
  "health_run s ((now, c) # cs) = health_run (apply_call now c s) cs"
  "health_run s (cs @ ds) = health_run (health_run s cs) ds"
  by (simp_all add: health_run_def)

lemmas call_defs = set_phase_def heartbeat_def task_exited_def connected_def head_received_def
  committed_def miner_success_def

text \<open>The finalized head is ahead of the durable commits.\<close>

definition behind :: "health_state \<Rightarrow> bool" where
  "behind s \<longleftrightarrow> unwrap_or 0 (hs_committed s) < unwrap_or 0 (hs_finalized s)"

lemma raise_height_ge: "unwrap_or 0 prior \<le> unwrap_or 0 (raise_height prior seen)"
  by (auto simp: raise_height_def unwrap_or_def split: option.splits)

lemma apply_call_behind:
  assumes "behind s" and "hs_committed (apply_call now c s) = hs_committed s"
  shows "behind (apply_call now c s)"
proof (cases c)
  case (HeadReceived utc b f)
  then show ?thesis
    using assms(1) raise_height_ge [of "hs_finalized s" f] by (auto simp: call_defs behind_def Let_def)
next
  case (Committed utc h)
  then show ?thesis using assms by (auto simp: call_defs behind_def split: if_splits option.splits)
qed (use assms(1) in \<open>auto simp: call_defs behind_def\<close>)

text \<open>The clock of the stall runs exactly while the head is ahead.\<close>

definition waiting_inv :: "health_state \<Rightarrow> bool" where
  "waiting_inv s \<longleftrightarrow> (hs_waiting s \<noteq> None \<longleftrightarrow> behind s)"

lemma apply_call_waiting_inv: "waiting_inv s \<Longrightarrow> waiting_inv (apply_call now c s)"
proof (cases c)
  case (HeadReceived utc b f)
  assume "waiting_inv s"
  with HeadReceived show ?thesis
    using raise_height_ge [of "hs_finalized s" f] by (auto simp: call_defs waiting_inv_def behind_def Let_def)
qed (auto simp: call_defs waiting_inv_def behind_def unwrap_or_def split: if_splits option.splits)

lemma waiting_kept:
  assumes "waiting_inv s" and "behind s" and "hs_committed (apply_call now c s) = hs_committed s"
  shows "hs_waiting (apply_call now c s) = hs_waiting s"
  using assms by (cases c) (auto simp: call_defs waiting_inv_def Let_def split: if_splits option.splits)

lemma waiting_set_or_kept:
  "hs_waiting (apply_call now c s) = Some t \<Longrightarrow>
     t = now \<or> hs_waiting s = Some t \<and> hs_committed (apply_call now c s) = hs_committed s"
  by (cases c) (auto simp: call_defs Let_def split: if_splits option.splits)

lemma committed_grows: "hs_committed s \<le> hs_committed (apply_call now c s)"
  by (cases c) (auto simp: call_defs Let_def split: option.splits)

lemma committed_grows_run: "hs_committed s \<le> hs_committed (health_run s cs)"
proof (induction cs arbitrary: s)
  case (Cons x cs)
  then show ?case using committed_grows [of s] by (cases x) (auto intro: order_trans)
qed simp

lemma waiting_inv_run: "waiting_inv s \<Longrightarrow> waiting_inv (health_run s cs)"
  by (induction cs arbitrary: s) (auto simp: apply_call_waiting_inv)

lemma waiting_kept_run:
  "waiting_inv s \<Longrightarrow> behind s \<Longrightarrow> hs_committed (health_run s cs) = hs_committed s \<Longrightarrow>
     hs_waiting (health_run s cs) = hs_waiting s"
proof (induction cs arbitrary: s)
  case (Cons x cs)
  obtain now c where x: "x = (now, c)" by (cases x)
  let ?s = "apply_call now c s"
  have same: "hs_committed ?s = hs_committed s"
    using Cons.prems(3) committed_grows [of s now c] committed_grows_run [of ?s cs] x by (auto intro: antisym)
  have "hs_waiting (health_run ?s cs) = hs_waiting ?s"
    using Cons.prems same x
    by (intro Cons.IH) (auto intro: apply_call_waiting_inv apply_call_behind)
  then show ?case using Cons.prems waiting_kept [OF _ _ same] x by simp
qed simp

lemma waiting_from_past:
  "hs_waiting (health_run s cs) = Some t \<Longrightarrow> \<forall>x\<in>set cs. fst x \<le> now \<Longrightarrow>
     (\<forall>u. hs_waiting s = Some u \<longrightarrow> u \<le> now) \<Longrightarrow> t \<le> now"
proof (induction cs arbitrary: s)
  case (Cons x cs)
  obtain t0 c where x: "x = (t0, c)" by (cases x)
  have "\<forall>u. hs_waiting (apply_call t0 c s) = Some u \<longrightarrow> u \<le> now"
    using waiting_set_or_kept [of t0 c s] Cons.prems(2,3) x by fastforce
  then show ?case using Cons x by simp
qed simp

lemma waiting_source:
  "hs_waiting (health_run s cs) = Some t \<Longrightarrow> hs_waiting s = None \<Longrightarrow>
     \<exists>as c bs. cs = as @ (t, c) # bs \<and> hs_waiting (health_run s (as @ [(t, c)])) = Some t
       \<and> hs_committed (health_run s (as @ [(t, c)])) = hs_committed (health_run s cs)"
proof (induction cs rule: rev_induct)
  case (snoc x cs)
  obtain now c where x: "x = (now, c)" by (cases x)
  let ?s = "health_run s cs"
  consider "t = now" | "hs_waiting ?s = Some t" "hs_committed (apply_call now c ?s) = hs_committed ?s"
    using waiting_set_or_kept [of now c ?s t] snoc.prems x by auto
  then show ?case
  proof cases
    case 1
    then show ?thesis using snoc.prems x by (intro exI [of _ cs] exI [of _ c] exI [of _ "[]"]) simp
  next
    case 2
    from snoc.IH [OF 2(1) snoc.prems(2)] obtain as d bs where
      "cs = as @ (t, d) # bs" "hs_waiting (health_run s (as @ [(t, d)])) = Some t"
      "hs_committed (health_run s (as @ [(t, d)])) = hs_committed ?s" by blast
    then show ?thesis using 2(2) x by (intro exI [of _ as] exI [of _ d] exI [of _ "bs @ [x]"]) simp
  qed
qed simp

text \<open>A reason is listed exactly when its own check fails, since the texts are distinct.\<close>

lemma STALL_reported:
  "STALL \<in> set (reasons (snapshot now s)) \<longleftrightarrow>
     hs_indexing s \<and> (\<exists>since. hs_waiting s = Some since \<and> secs 90 < now - since)"
proof -
  have "STALL \<notin> set (live_reasons now s)" "STALL \<noteq> ''service phase is '' @ phase_debug (hs_phase s)"
    by (auto simp: live_reasons_def STALL_def)
  then show ?thesis
    by (auto simp: snapshot_def Let_def indexing_reasons_def STALL_def split: option.splits)
qed

lemma indexing_run [simp]: "hs_indexing (health_run s cs) = hs_indexing s"
proof (induction cs arbitrary: s)
  case (Cons x cs)
  obtain now c where "x = (now, c)" by (cases x)
  then show ?case using Cons by (cases c) (auto simp: call_defs Let_def)
qed simp

text \<open>
  A stall is reported exactly when the backend indexes and, at some call more than 90 seconds ago, the
  finalized head was already ahead of the durable commits and no commit has advanced since: later heads
  and repeated commits neither hide a stall nor start its clock again, and a commit that catches up ends
  it.
\<close>

theorem stall_reported_exactly:
  assumes "s = health_run (health_new indexing t0 t1) cs" and "sorted (map fst cs)"
  shows "STALL \<in> set (reasons (snapshot now s)) \<longleftrightarrow> indexing \<and>
    (\<exists>as t c bs. cs = as @ (t, c) # bs \<and> secs 90 < now - t
      \<and> behind (health_run (health_new indexing t0 t1) (as @ [(t, c)]))
      \<and> hs_committed (health_run (health_new indexing t0 t1) (as @ [(t, c)])) = hs_committed s)"
    (is "?L \<longleftrightarrow> indexing \<and> ?R")
proof -
  let ?n = "health_new indexing t0 t1"
  have n: "waiting_inv ?n" "hs_waiting ?n = None" "hs_indexing ?n = indexing"
    by (simp_all add: health_new_def waiting_inv_def behind_def unwrap_or_def)
  have "?R \<longleftrightarrow> (\<exists>since. hs_waiting s = Some since \<and> secs 90 < now - since)" (is "_ \<longleftrightarrow> ?W")
  proof
    assume ?R
    then obtain as t c bs where cs: "cs = as @ (t, c) # bs" and late: "secs 90 < now - t"
      and b: "behind (health_run ?n (as @ [(t, c)]))"
      and same: "hs_committed (health_run ?n (as @ [(t, c)])) = hs_committed s" by blast
    let ?m = "health_run ?n (as @ [(t, c)])"
    have inv: "waiting_inv ?m" using waiting_inv_run [OF n(1)] .
    then obtain u where u: "hs_waiting ?m = Some u" using b by (auto simp: waiting_inv_def)
    have "u \<le> t" using waiting_from_past [OF u, of t] assms(2) n(2) cs by (auto simp: sorted_append)
    moreover have "s = health_run ?m bs" using assms(1) cs by simp
    then have "hs_waiting s = Some u" using waiting_kept_run [OF inv b] same u by simp
    ultimately show ?W using late by auto
  next
    assume ?W
    then obtain t where t: "hs_waiting s = Some t" "secs 90 < now - t" by blast
    from waiting_source [of ?n cs t] t(1) n(2) assms(1) obtain as c bs where
      src: "cs = as @ (t, c) # bs" "hs_waiting (health_run ?n (as @ [(t, c)])) = Some t"
      "hs_committed (health_run ?n (as @ [(t, c)])) = hs_committed s" by blast
    have "behind (health_run ?n (as @ [(t, c)]))"
      using waiting_inv_run [OF n(1)] src(2) by (auto simp: waiting_inv_def simp del: health_run_simps)
    with src t(2) show ?R by blast
  qed
  then show ?thesis using STALL_reported [of now s] assms(1) n(3) by simp
qed

text \<open>Where a head arrives at second 1 and is repeated at second 80.\<close>

theorem stall_reported_exactly_witness:
  "STALL \<in> set (reasons (snapshot (secs 92) (health_run (health_new True 0 0)
     [(secs 1, HeadReceived ''a'' None (Some 7)), (secs 80, HeadReceived ''b'' None (Some 9))])))"
  (is "_ \<in> set (reasons (snapshot _ ?s))")
proof -
  let ?c1 = "(secs 1, HeadReceived ''a'' None (Some 7))" and ?c2 = "(secs 80, HeadReceived ''b'' None (Some 9))"
  have "sorted (map fst [?c1, ?c2])" by (simp add: secs_def)
  from stall_reported_exactly [OF refl this, of "secs 92" True 0 0]
  have eq: "STALL \<in> set (reasons (snapshot (secs 92) ?s)) \<longleftrightarrow>
    (\<exists>as t c bs. [?c1, ?c2] = as @ (t, c) # bs \<and> secs 90 < secs 92 - t
      \<and> behind (health_run (health_new True 0 0) (as @ [(t, c)]))
      \<and> hs_committed (health_run (health_new True 0 0) (as @ [(t, c)])) = hs_committed ?s)"
    by (simp del: health_run_simps)
  show ?thesis
    unfolding eq
    by (rule exI [of _ "[]"], rule exI [of _ "secs 1"], rule exI [of _ "snd ?c1"], rule exI [of _ "[?c2]"])
      (simp add: secs_def behind_def health_new_def call_defs unwrap_or_def raise_height_def)
qed

section \<open>Exits and the API-only mode\<close>

lemma dead_kept: "t \<in> hs_dead s \<Longrightarrow> t \<in> hs_dead (apply_call now c s)"
  by (cases c) (auto simp: call_defs Let_def)

lemma dead_kept_run: "t \<in> hs_dead s \<Longrightarrow> t \<in> hs_dead (health_run s cs)"
  by (induction cs arbitrary: s) (auto simp: dead_kept)

lemma finite_tasks: "finite (A :: required_task set)"
proof (rule finite_subset)
  show "A \<subseteq> {Http, Indexer, Miner, Watchdog, FileWriter}" using required_task.exhaust by auto
qed simp

lemma dead_not_live: "t \<in> hs_dead s \<Longrightarrow> \<not> live (snapshot now s) \<and> \<not> ready (snapshot now s)
    \<and> ''required task '' @ task_debug t @ '' exited'' \<in> set (reasons (snapshot now s))"
  using finite_tasks [of "hs_dead s"] by (auto simp: snapshot_def Let_def live_reasons_def)

text \<open>What the API-only decision reads.\<close>

definition api_view :: "health_state \<Rightarrow> phase \<times> nat \<times> nat \<times> required_task set" where
  "api_view s = (hs_phase s, hs_started s, hs_watchdog s, hs_dead s)"

text \<open>The calls that only the indexer and the miner poller make.\<close>

fun upstream_call :: "health_call \<Rightarrow> bool" where
  "upstream_call (TaskExited t) = (t = Indexer \<or> t = Miner)"
| "upstream_call (Connected c) = True"
| "upstream_call (HeadReceived u b f) = True"
| "upstream_call (Committed u h) = True"
| "upstream_call (MinerSuccess u) = True"
| "upstream_call (Heartbeat t) = (t \<noteq> Watchdog)"
| "upstream_call (SetPhase p) = False"

lemma upstream_call_view:
  "upstream_call c \<Longrightarrow> \<not> hs_indexing s \<Longrightarrow> api_view (apply_call now c s) = api_view s"
  by (cases c) (auto simp: call_defs api_view_def Let_def)

lemma apply_call_view:
  "api_view s = api_view s' \<Longrightarrow> hs_indexing s = hs_indexing s' \<Longrightarrow>
     api_view (apply_call now c s) = api_view (apply_call now c s')"
  by (cases c) (auto simp: call_defs api_view_def Let_def)

lemma indexing_kept [simp]: "hs_indexing (apply_call now c s) = hs_indexing s"
  using indexing_run [of s "[(now, c)]"] by simp

lemma api_view_filtered:
  "api_view s = api_view s' \<Longrightarrow> \<not> hs_indexing s \<Longrightarrow> \<not> hs_indexing s' \<Longrightarrow>
     api_view (health_run s cs) = api_view (health_run s' (filter (\<lambda>(_, c). \<not> upstream_call c) cs))"
proof (induction cs arbitrary: s s')
  case (Cons x cs)
  obtain now c where x: "x = (now, c)" by (cases x)
  show ?case
  proof (cases "upstream_call c")
    case True
    then show ?thesis using Cons.prems x upstream_call_view [OF True, of s now] by (auto intro!: Cons.IH)
  next
    case False
    then show ?thesis using Cons.prems x apply_call_view [of s s' now c] by (auto intro!: Cons.IH)
  qed
qed simp

lemma api_view_decides:
  "api_view s = api_view s' \<Longrightarrow> \<not> hs_indexing s \<Longrightarrow> \<not> hs_indexing s' \<Longrightarrow>
     reasons (snapshot now s) = reasons (snapshot now s') \<and> live (snapshot now s) = live (snapshot now s')
     \<and> ready (snapshot now s) = ready (snapshot now s')"
  by (simp add: api_view_def snapshot_def Let_def live_reasons_def)

lemma exit_seen:
  assumes "(t, TaskExited task) \<in> set cs" and "hs_indexing s \<or> task \<noteq> Indexer \<and> task \<noteq> Miner"
  shows "task \<in> hs_dead (health_run s cs)"
proof -
  from assms(1) obtain as bs where cs: "cs = as @ (t, TaskExited task) # bs" by (meson split_list)
  have "task \<in> hs_dead (task_exited task (health_run s as))"
    using assms(2) by (cases task) (auto simp: task_exited_def)
  then show ?thesis using cs by (simp add: dead_kept_run)
qed

text \<open>
  Without indexing, what the indexer, the miner poller and the chain subscription report has no
  effect on health: every history gives the reasons and the decision of the history without those calls.
  With indexing, and in both modes for the listener, the watchdog and the file writers, one exit makes
  every later snapshot neither live nor ready and names the task.
\<close>

theorem task_exit_fails_health:
  fixes indexing t0 t1
  defines "run \<equiv> health_run (health_new indexing t0 t1)"
  assumes "(t, TaskExited task) \<in> set cs"
  shows "if indexing \<or> task \<noteq> Indexer \<and> task \<noteq> Miner
    then \<not> live (snapshot now (run cs)) \<and> \<not> ready (snapshot now (run cs))
      \<and> ''required task '' @ task_debug task @ '' exited'' \<in> set (reasons (snapshot now (run cs)))
    else reasons (snapshot now (run cs)) = reasons (snapshot now (run (filter (\<lambda>(_, c). \<not> upstream_call c) cs)))
      \<and> live (snapshot now (run cs)) = live (snapshot now (run (filter (\<lambda>(_, c). \<not> upstream_call c) cs)))"
proof -
  let ?n = "health_new indexing t0 t1"
  have idx: "hs_indexing ?n = indexing" by (simp add: health_new_def)
  have dead: "indexing \<or> task \<noteq> Indexer \<and> task \<noteq> Miner \<Longrightarrow> task \<in> hs_dead (run cs)"
    using exit_seen [OF assms(2), of ?n] idx by (simp add: run_def)
  have "\<not> indexing \<Longrightarrow> api_view (run cs) = api_view (run (filter (\<lambda>(_, c). \<not> upstream_call c) cs))"
    using api_view_filtered [of ?n ?n cs] idx by (simp add: run_def)
  then show ?thesis
    using dead_not_live [OF dead] api_view_decides [of "run cs"] idx by (auto simp: run_def)
qed

text \<open>For the death of the indexer, with and without indexing.\<close>

theorem task_exit_fails_health_witness:
  "\<not> live (snapshot 5 (health_run (health_new True 0 0) [(1, TaskExited Indexer), (2, SetPhase Ready)]))
   \<and> reasons (snapshot 5 (health_run (health_new False 0 0) [(1, TaskExited Indexer), (2, SetPhase Ready)])) = []"
  using task_exit_fails_health [of 1 Indexer "[(1, TaskExited Indexer), (2, SetPhase Ready)]" True 5 0 0]
    task_exit_fails_health [of 1 Indexer "[(1, TaskExited Indexer), (2, SetPhase Ready)]" False 5 0 0]
  by (simp add: snapshot_def live_reasons_def set_phase_def health_new_def secs_def Let_def)

end
