(* ===== verification/Chain_Types.thy ===== *)
theory Chain_Types
  imports Store_Types
begin

text \<open>
  The data of the chain reader (\<open>chain/mod.rs\<close>, \<open>chain/decode.rs\<close>, \<open>chain/snapshots.rs\<close>): hashes,
  errors, headers, decoded blocks and the pages of the paged reads. Fields the program never reads back
  (payload charges, metadata contexts) are left out.
\<close>

section \<open>Hashes, errors and headers\<close>

datatype chain_hash = ChainHash (raw_bytes: "u8 list")

datatype chain_error =
    ChUnavailable string
  | ChPruned string
  | ChUnsupported string
  | ChOversized string
  | ChInvalid string
  | ChGenesisMismatch chain_hash chain_hash
  | ChBusy
  | ChDisconnected
  | ChNotFound chain_hash

text \<open>\<open>model_hash\<close> and \<open>chain_hash\<close> of \<open>indexer/mod.rs\<close>: between the reader's and the store's hash.\<close>

definition model_hash :: "chain_hash \<Rightarrow> block_hash" where
  "model_hash h = hash_of_bytes (raw_bytes h)"

definition chain_hash_of :: "block_hash \<Rightarrow> chain_hash" where
  "chain_hash_of h = ChainHash (hash_bytes h)"

lemma chain_hash_of_model_hash [simp]: "chain_hash_of (model_hash h) = h"
  by (simp add: chain_hash_of_def model_hash_def hash_of_bytes_def)

record header =
  parent_hash :: chain_hash
  number :: string
  digest_logs :: "string list"

text \<open>\<open>u64::from_str_radix(_, 16)\<close>: one leading plus is accepted, and the first failing character decides.\<close>

definition hex_value :: "char \<Rightarrow> nat option" where
  "hex_value c = (let n = of_char c :: nat
     in if 48 \<le> n \<and> n \<le> 57 then Some (n - 48)
        else if 97 \<le> n \<and> n \<le> 102 then Some (n - 87)
        else if 65 \<le> n \<and> n \<le> 70 then Some (n - 55) else None)"

fun hex_digits :: "nat \<Rightarrow> string \<Rightarrow> string + u64" where
  "hex_digits acc [] = Inr (of_nat acc)"
| "hex_digits acc (c # cs) = (case hex_value c of
       None \<Rightarrow> Inl ''invalid digit found in string''
     | Some d \<Rightarrow> if acc * 16 + d < 2 ^ 64 then hex_digits (acc * 16 + d) cs
                 else Inl ''number too large to fit in target type'')"

definition parse_hex_u64 :: "string \<Rightarrow> string + u64" where
  "parse_hex_u64 t =
     (if t = [] then Inl ''cannot parse integer from empty string''
      else if t = ''+'' \<or> t = ''-'' then Inl ''invalid digit found in string''
      else hex_digits 0 (strip_plus t))"

definition header_height :: "header \<Rightarrow> chain_error + u64" where
  "header_height h =
     (if take 2 (number h) = ''0x''
      then (case parse_hex_u64 (drop 2 (number h)) of Inl e \<Rightarrow> Inl (ChInvalid e) | Inr n \<Rightarrow> Inr n)
      else Inl (ChInvalid ''header number lacks 0x''))"

section \<open>Decoded blocks\<close>

record difficulty_info =
  min_solutions :: u32
  max_energy_milli :: int
  min_diversity_milli :: u32

record block_winner_event =
  we_qblock_id :: u64
  we_block_number :: u64
  we_miner :: string
  we_reward :: string
  we_energy_milli :: int
  we_submitted_at :: u64

record proof_accepted_event =
  pe_miner :: string
  pe_energy_milli :: int
  pe_diversity_milli :: u32
  pe_valid_solution_count :: u32

record registry_change =
  rg_event :: string
  rg_account :: "u8 list"

record block_events =
  ev_block_number :: u64
  ev_author :: "string option"
  ev_timestamp :: u64
  ev_winner :: "block_winner_event option"
  ev_proofs :: "proof_accepted_event list"
  ev_nonce :: "string option"
  ev_changes :: "(string \<times> string) list"
  ev_registry_changes :: "registry_change list"
  ev_miner_changes :: "u8 list list"

definition block_events_default :: block_events where
  "block_events_default = \<lparr>ev_block_number = 0, ev_author = None, ev_timestamp = 0, ev_winner = None,
     ev_proofs = [], ev_nonce = None, ev_changes = [], ev_registry_changes = [], ev_miner_changes = []\<rparr>"

record qblock_info =
  qi_miner :: string
  qi_energy_milli :: int
  qi_reward :: string
  qi_submitted_at :: u64
  qi_nonce :: string
  qi_difficulty :: difficulty_info
  qi_device_access_time_us :: "u64 option"
  qi_topology_hash :: "chain_hash option"

record decoded_block =
  db_hash :: chain_hash
  db_header :: header
  db_events :: block_events
  db_qblock :: "qblock_info option"
  db_qblock_error :: "chain_error option"
  db_enrichment_at :: chain_hash

datatype block_purpose = Full | WinnerOnly

datatype work_class = Live | Backfill

record sync_state_info =
  is_syncing :: bool
  peers :: u64
  current_block :: "u64 option"
  highest_block :: "u64 option"

section \<open>Pages\<close>

record winner_cursor =
  wc_at :: chain_hash
  wc_key :: "u8 list"

record winner_page =
  wp_at :: chain_hash
  wp_keys :: "u8 list list"
  wp_heights :: "u64 list"
  wp_continuation :: "winner_cursor option"
  wp_exhausted :: bool

record participant_cursor =
  pc_at :: chain_hash
  pc_qblock_id :: u64
  pc_account :: "u8 list"

record qblock_participant =
  qp_account :: string
  qp_kind :: string
  qp_budget_seconds :: "u32 option"
  qp_block_number :: u64

record participant_page =
  pp_at :: chain_hash
  pp_participants :: "qblock_participant list"
  pp_continuation :: "participant_cursor option"
  pp_exhausted :: bool

record topology_summary =
  ts_topology_hash :: chain_hash
  ts_node_count :: u32
  ts_edge_count :: u32

end
