(* ===== verification/Chain_Decode.thy ===== *)
theory Chain_Decode
  imports Chain_Types
begin

text \<open>
  Decoding of dynamic SCALE values (\<open>chain/decode.rs\<close>). The value tree of the \<open>scale_value\<close> crate is a
  datatype without its type annotations; its number accessors, the SCALE codec, the hexadecimal decoder,
  the SS58 encoding and the event iterator are parameters.
\<close>

section \<open>Values\<close>

datatype scale_primitive =
    PBool bool | PChar nat | PString string | PU128 "128 word" | PI128 "128 word"
  | PU256 "u8 list" | PI256 "u8 list"

datatype scale_value =
    Composite scale_composite
  | Variant string scale_composite
  | BitSequence "bool list"
  | Primitive scale_primitive
and scale_composite =
    Named "(string \<times> scale_value) list"
  | Unnamed "scale_value list"

record decode_lib =
  as_u128 :: "scale_value \<Rightarrow> 128 word option"
  as_i128 :: "scale_value \<Rightarrow> int option"
  blake2b512 :: "u8 list \<Rightarrow> u8 list"
  bs58_encode :: "u8 list \<Rightarrow> string"
  hex_decode :: "string \<Rightarrow> string + u8 list"
  hex_encode :: "u8 list \<Rightarrow> string"
  decode_compact_u32 :: "u8 list \<Rightarrow> string + u32 \<times> u8 list"
  decode_vec_u8 :: "u8 list \<Rightarrow> string + u8 list \<times> u8 list"
  decode_u8 :: "u8 list \<Rightarrow> string + u8 \<times> u8 list"
  decode_u32 :: "u8 list \<Rightarrow> string + u32 \<times> u8 list"
  decode_u64 :: "u8 list \<Rightarrow> string + u64 \<times> u8 list"

definition invalid :: "string + 'a \<Rightarrow> chain_error + 'a" where
  "invalid r = (case r of Inl e \<Rightarrow> Inl (ChInvalid e) | Inr x \<Rightarrow> Inr x)"

definition try_from :: "'a::len word \<Rightarrow> chain_error + 'b::len word" where
  "try_from n = (if unat n < 2 ^ LENGTH('b) then Inr (of_nat (unat n))
     else Inl (ChInvalid ''out of range integral type conversion attempted''))"

fun composite_values :: "scale_composite \<Rightarrow> scale_value list" where
  "composite_values (Named fs) = map snd fs"
| "composite_values (Unnamed vs) = vs"

text \<open>\<open>unwrap\<close>: unnamed composites of one element are newtypes; the loop descends through them.\<close>

fun unwrap :: "scale_value \<Rightarrow> scale_value" where
  "unwrap (Composite (Unnamed [v])) = unwrap v"
| "unwrap v = v"

definition maybe_field :: "scale_value \<Rightarrow> string \<Rightarrow> scale_value option" where
  "maybe_field v name = (case unwrap v of
       Composite (Named fs) \<Rightarrow> map_option snd (find (\<lambda>(k, _). k = name) fs)
     | _ \<Rightarrow> None)"

definition field :: "scale_value \<Rightarrow> string \<Rightarrow> chain_error + scale_value" where
  "field v name = ok_or (ChInvalid (''missing field '' @ name)) (maybe_field v name)"

definition sequence :: "scale_value \<Rightarrow> chain_error + scale_value list" where
  "sequence v = (case v of Composite c \<Rightarrow> Inr (composite_values c) | _ \<Rightarrow> Inl (ChInvalid ''expected sequence''))"

definition scale_option :: "scale_value \<Rightarrow> chain_error + scale_value option" where
  "scale_option v = (case unwrap v of
       Variant name c \<Rightarrow>
         (if name = ''None'' \<and> composite_values c = [] then Inr None
          else if name = ''Some'' \<and> length (composite_values c) = 1 then Inr (Some (hd (composite_values c)))
          else Inl (ChInvalid ''expected SCALE Option''))
     | _ \<Rightarrow> Inl (ChInvalid ''expected SCALE Option''))"

definition unsigned_value :: "decode_lib \<Rightarrow> scale_value \<Rightarrow> chain_error + u64" where
  "unsigned_value lib v = rbind (ok_or (ChInvalid ''expected unsigned integer'') (as_u128 lib (unwrap v))) try_from"

definition signed_value :: "decode_lib \<Rightarrow> scale_value \<Rightarrow> chain_error + int" where
  "signed_value lib v = rbind (ok_or (ChInvalid ''expected signed integer'') (as_i128 lib (unwrap v))) (\<lambda>n.
     if - (2 ^ 63) \<le> n \<and> n < 2 ^ 63 then Inr n
     else Inl (ChInvalid ''out of range integral type conversion attempted''))"

definition u32_field :: "decode_lib \<Rightarrow> scale_value \<Rightarrow> string \<Rightarrow> chain_error + u32" where
  "u32_field lib v name = rbind (field v name) (\<lambda>f. rbind (unsigned_value lib f) try_from)"

definition bytes_value :: "decode_lib \<Rightarrow> scale_value \<Rightarrow> chain_error + u8 list" where
  "bytes_value lib v0 = (let v = unwrap v0
     in case as_u128 lib v of
          Some b \<Rightarrow> rbind (try_from b) (\<lambda>x. Inr [x])
        | None \<Rightarrow> (case v of
            Primitive (PU256 bs) \<Rightarrow> Inr bs
          | _ \<Rightarrow> rbind (sequence v) (rmap_list (\<lambda>x. rbind (unsigned_value lib x) try_from))))"

definition hash_value :: "decode_lib \<Rightarrow> scale_value \<Rightarrow> chain_error + chain_hash" where
  "hash_value lib v = rbind (bytes_value lib v) (\<lambda>bs.
     if length bs = 32 then Inr (ChainHash bs) else Inl (ChInvalid ''expected H256''))"

definition ss58_context :: "u8 list" where
  "ss58_context = map (of_nat \<circ> of_char) ''SS58PRE''"

definition account_bytes :: "decode_lib \<Rightarrow> u8 list \<Rightarrow> chain_error + string" where
  "account_bytes lib a =
     (if length a \<noteq> 32 then Inl (ChUnsupported (''account identifier length '' @ nat_text (length a)))
      else (let payload = 42 # a
            in Inr (bs58_encode lib (payload @ take 2 (blake2b512 lib (ss58_context @ payload))))))"

definition account :: "decode_lib \<Rightarrow> scale_value \<Rightarrow> chain_error + string" where
  "account lib v = rbind (bytes_value lib v) (account_bytes lib)"

section \<open>Decimal text of 256-bit integers\<close>

text \<open>
  The digits are least significant first; the state of the inner loop is the carry, a \<open>u16\<close>, and each
  narrowing to \<open>u8\<close> can fail.
\<close>

fun scale_digits :: "16 word \<Rightarrow> u8 list \<Rightarrow> chain_error + u8 list \<times> 16 word" where
  "scale_digits carry [] = Inr ([], carry)"
| "scale_digits carry (d # ds) =
     (let nxt = ucast d * 256 + carry
      in rbind (try_from (nxt mod 10)) (\<lambda>d'.
         rbind (scale_digits (nxt div 10) ds) (\<lambda>(ds', c). Inr (d' # ds', c))))"

function push_carry :: "16 word \<Rightarrow> chain_error + u8 list" where
  "push_carry carry =
     (if 0 < carry
      then rbind (try_from (carry mod 10)) (\<lambda>d. rbind (push_carry (carry div 10)) (\<lambda>ds. Inr (d # ds)))
      else Inr [])"
  by auto
termination
  by (relation "measure unat") (auto simp: unat_div word_less_nat_alt)

declare push_carry.simps [simp del]

definition push_byte :: "u8 \<Rightarrow> u8 list \<Rightarrow> chain_error + u8 list" where
  "push_byte b digits = rbind (scale_digits (ucast b) digits) (\<lambda>(ds, carry).
     rbind (push_carry carry) (\<lambda>more. Inr (ds @ more)))"

definition digits_text :: "u8 list \<Rightarrow> string" where
  "digits_text ds = map (\<lambda>d. char_of_byte (48 + d)) (rev ds)"

definition le_bytes_decimal :: "u8 list \<Rightarrow> chain_error + string" where
  "le_bytes_decimal raw = rbind (rfold push_byte (rev raw) [0]) (\<lambda>ds. Inr (digits_text ds))"

definition to_le_bytes :: "u64 \<Rightarrow> u8 list" where
  "to_le_bytes n = map (\<lambda>i. ucast (drop_bit (8 * i) n)) [0..<8]"

definition decimal_value :: "decode_lib \<Rightarrow> scale_value \<Rightarrow> chain_error + string" where
  "decimal_value lib v0 = (let v = unwrap v0
     in case as_u128 lib v of
          Some n \<Rightarrow> Inr (unsigned_text n)
        | None \<Rightarrow> rbind (case v of
              Primitive (PU256 bs) \<Rightarrow> Inr bs
            | Composite c \<Rightarrow> rbind (sequence v) (\<lambda>vs.
                if length vs \<noteq> 4 then Inl (ChInvalid ''expected four U256 limbs'')
                else rbind (rmap_list (unsigned_value lib) vs) (\<lambda>limbs. Inr (concat (map to_le_bytes limbs))))
            | _ \<Rightarrow> Inl (ChInvalid ''expected nonnegative integer'')) le_bytes_decimal)"

text \<open>The number a digit list denotes, and the lists without superfluous leading zeros.\<close>

fun digits_val :: "u8 list \<Rightarrow> nat" where
  "digits_val [] = 0"
| "digits_val (d # ds) = unat d + 10 * digits_val ds"

definition decimal_digits :: "u8 list \<Rightarrow> bool" where
  "decimal_digits ds \<longleftrightarrow> list_all (\<lambda>d. unat d < 10) ds"

fun le_val :: "u8 list \<Rightarrow> nat" where
  "le_val [] = 0"
| "le_val (b # bs) = unat b + 256 * le_val bs"

lemma unat_ucast_small: "unat (w :: 'a::len word) < 2 ^ LENGTH('b) \<Longrightarrow> unat (ucast w :: 'b::len word) = unat w"
  by (simp add: unsigned_ucast_eq take_bit_nat_eq_self)

lemma try_from_small:
  "unat n < 2 ^ LENGTH('b) \<Longrightarrow> \<exists>m :: 'b::len word. try_from n = Inr m \<and> unat m = unat n"
  by (auto simp: try_from_def unat_ucast_small)

lemma digits_val_append: "digits_val (ds @ es) = digits_val ds + 10 ^ length ds * digits_val es"
  by (induction ds) (simp_all add: algebra_simps)

lemma narrow_digit:
  fixes n :: "16 word"
  obtains d :: u8 where "try_from (n mod 10) = Inr d" and "unat d = unat n mod 10"
proof -
  have m: "unat (n mod 10) = unat n mod 10" by (simp add: unat_mod)
  then have "unat (n mod 10) < 2 ^ LENGTH(8)" by simp
  from try_from_small [OF this] m that show thesis by auto
qed

lemma scale_digits_step:
  fixes d :: u8 and carry :: "16 word"
  assumes "unat d < 10" and "unat carry < 256"
  shows "unat (ucast d * 256 + carry) = unat d * 256 + unat carry"
proof -
  have u: "unat (ucast d :: 16 word) = unat d" using assms(1) by (intro unat_ucast_small) simp
  have "unat (ucast d * 256 :: 16 word) = unat d * 256"
    using assms(1) by (subst unat_mult_lem [THEN iffD1]) (simp_all add: u)
  then show ?thesis using assms by (subst unat_add_lem [THEN iffD1]) simp_all
qed

lemma scale_digits_correct:
  assumes "decimal_digits ds" and "unat carry < 256"
  obtains ds' c where "scale_digits carry ds = Inr (ds', c)" and "decimal_digits ds'" and "unat c < 256"
    and "length ds' = length ds" and "digits_val ds' + 10 ^ length ds * unat c = 256 * digits_val ds + unat carry"
    and "ds \<noteq> [] \<Longrightarrow> last ds \<noteq> 0 \<Longrightarrow> c \<noteq> 0"
  using assms
proof (induction ds arbitrary: carry thesis)
  case Nil
  then show ?case by (auto simp: decimal_digits_def)
next
  case (Cons d ds)
  let ?n = "ucast d * 256 + carry"
  have d: "unat d < 10" "decimal_digits ds" using Cons.prems(2) by (auto simp: decimal_digits_def)
  have n: "unat ?n = unat d * 256 + unat carry" by (rule scale_digits_step [OF d(1) Cons.prems(3)])
  have q: "unat (?n div 10) = (unat d * 256 + unat carry) div 10" by (simp only: unat_div n) simp
  then have small: "unat (?n div 10) < 256" using d(1) Cons.prems(3) by simp
  obtain d' :: u8 where d': "try_from (?n mod 10) = Inr d'" "unat d' = unat ?n mod 10" by (rule narrow_digit [of ?n])
  from Cons.IH [OF _ d(2) small] obtain ds' c where ih: "scale_digits (?n div 10) ds = Inr (ds', c)"
    "decimal_digits ds'" "unat c < 256" "length ds' = length ds"
    "digits_val ds' + 10 ^ length ds * unat c = 256 * digits_val ds + unat (?n div 10)"
    "ds \<noteq> [] \<Longrightarrow> last ds \<noteq> 0 \<Longrightarrow> c \<noteq> 0" by blast
  have split: "unat d' + 10 * unat (?n div 10) = unat d * 256 + unat carry"
    using d'(2) q n by simp
  have val: "digits_val (d' # ds') + 10 ^ length (d # ds) * unat c = 256 * digits_val (d # ds) + unat carry"
    using ih(5) split by (simp add: algebra_simps)
  have nz: "c \<noteq> 0" if "last (d # ds) \<noteq> 0"
  proof (cases "ds = []")
    case True
    with that have "1 \<le> unat d" by (simp add: Suc_le_eq unat_gt_0)
    then have "0 < unat (?n div 10)" using q by simp
    moreover have "c = ?n div 10" using ih(1) True by simp
    ultimately show ?thesis by auto
  qed (use that ih(6) in simp)
  show ?case
    by (rule Cons.prems(1) [of "d' # ds'" c])
      (use d' ih n val nz in \<open>simp_all add: decimal_digits_def Let_def\<close>)
qed

lemma push_carry_correct:
  "\<exists>ds. push_carry carry = Inr ds \<and> decimal_digits ds \<and> digits_val ds = unat carry
     \<and> (ds = [] \<longleftrightarrow> carry = 0) \<and> (ds \<noteq> [] \<longrightarrow> last ds \<noteq> 0)"
proof (induction carry rule: push_carry.induct)
  case (1 carry)
  show ?case
  proof (cases "0 < carry")
    case True
    obtain d :: u8 where d: "try_from (carry mod 10) = Inr d" "unat d = unat carry mod 10" by (rule narrow_digit [of carry])
    from 1 [OF True] d(1) obtain ds where ds: "push_carry (carry div 10) = Inr ds" "decimal_digits ds"
      "digits_val ds = unat (carry div 10)" "ds = [] \<longleftrightarrow> carry div 10 = 0" "ds \<noteq> [] \<longrightarrow> last ds \<noteq> 0" by blast
    have q: "unat (carry div 10) = unat carry div 10" by (simp add: unat_div)
    have eq: "push_carry carry = Inr (d # ds)" using True d(1) ds(1) by (subst push_carry.simps) simp
    have "last (d # ds) \<noteq> 0"
    proof (cases "ds = []")
      case empty: True
      then have "unat carry div 10 = 0" using ds(4) q by auto
      then show ?thesis using d(2) True empty by (auto simp: word_less_nat_alt)
    qed (use ds(5) in simp)
    moreover have "digits_val (d # ds) = unat carry" using d(2) ds(3) q by simp
    ultimately show ?thesis
      using eq ds(2) d(2) True by (intro exI [of _ "d # ds"]) (auto simp: decimal_digits_def)
  next
    case False
    then show ?thesis by (subst push_carry.simps) (simp add: decimal_digits_def word_gt_0)
  qed
qed

text \<open>Digit lists of a number, as the loop keeps them.\<close>

definition denotes :: "u8 list \<Rightarrow> nat \<Rightarrow> bool" where
  "denotes ds n \<longleftrightarrow> decimal_digits ds \<and> digits_val ds = n \<and> (ds = [0] \<or> ds \<noteq> [] \<and> last ds \<noteq> 0)"

lemma push_byte_denotes:
  assumes "denotes ds n"
  shows "\<exists>ds'. push_byte b ds = Inr ds' \<and> denotes ds' (256 * n + unat b)"
proof -
  have b: "unat (ucast b :: 16 word) = unat b" using unat_lt2p [of b] by (intro unat_ucast_small) simp
  have ok: "decimal_digits ds" "digits_val ds = n" "ds \<noteq> []" using assms by (auto simp: denotes_def)
  have "unat (ucast b :: 16 word) < 256" using unat_lt2p [of b] b by simp
  then obtain es c where es: "scale_digits (ucast b) ds = Inr (es, c)" "decimal_digits es" "unat c < 256"
    "length es = length ds" "digits_val es + 10 ^ length ds * unat c = 256 * n + unat b"
    "last ds \<noteq> 0 \<Longrightarrow> c \<noteq> 0"
    using scale_digits_correct [OF ok(1), of "ucast b"] ok(2,3) b by metis
  obtain more where more: "push_carry c = Inr more" "decimal_digits more" "digits_val more = unat c"
    "more = [] \<longleftrightarrow> c = 0" "more \<noteq> [] \<longrightarrow> last more \<noteq> 0" using push_carry_correct by blast
  have "push_byte b ds = Inr (es @ more)" using es(1) more(1) by (simp add: push_byte_def)
  moreover have "digits_val (es @ more) = 256 * n + unat b"
    using es(4,5) more(3) by (simp add: digits_val_append)
  moreover have "es @ more = [0] \<or> es @ more \<noteq> [] \<and> last (es @ more) \<noteq> 0"
  proof (cases "c = 0")
    case True
    then have "ds = [0]" using assms es(6) by (auto simp: denotes_def)
    then obtain e where "es = [e]" using es(4) by (auto simp: length_Suc_conv)
    then show ?thesis using more(4) True by auto
  qed (use more(4,5) in auto)
  ultimately show ?thesis
    using es(2) more(2) by (auto simp: denotes_def decimal_digits_def)
qed

lemma push_bytes_denotes:
  "denotes ds n \<Longrightarrow> \<exists>ds'. rfold push_byte bs ds = Inr ds' \<and> denotes ds' (n * 256 ^ length bs + le_val (rev bs))"
proof (induction bs arbitrary: ds n)
  case (Cons b bs)
  have le: "le_val (xs @ [y]) = le_val xs + 256 ^ length xs * unat y" for xs y
    by (induction xs) (simp_all add: algebra_simps)
  from push_byte_denotes [OF Cons.prems] obtain ds1 where
    d1: "push_byte b ds = Inr ds1" "denotes ds1 (256 * n + unat b)" by blast
  from Cons.IH [OF d1(2)] d1(1) show ?case by (auto simp: le algebra_simps)
qed simp

lemma digits_text_snoc: "digits_text (d # ds) = digits_text ds @ [char_of_byte (48 + d)]"
  by (simp add: digits_text_def)

lemma digit_char_byte: "unat d < 10 \<Longrightarrow> char_of_byte (48 + d) = digit_char (unat d)"
  by (simp add: char_of_byte_def digit_char_def unat_word_ariths)

lemma dec_val_digits_text: "decimal_digits ds \<Longrightarrow> dec_val (digits_text ds) = digits_val ds \<and> list_all is_digit (digits_text ds)"
proof (induction ds)
  case Nil
  then show ?case by (simp add: digits_text_def dec_val_def)
next
  case (Cons d ds)
  then have "unat d < 10" "decimal_digits ds" by (auto simp: decimal_digits_def)
  with Cons.IH show ?case
    by (simp add: digits_text_snoc dec_val_snoc digit_char_byte digit_char_props)
qed

lemma digits_text_denotes:
  assumes "denotes ds n"
  shows "digits_text ds = nat_text n"
proof -
  have ds: "decimal_digits ds" "digits_val ds = n" "ds \<noteq> []" using assms by (auto simp: denotes_def)
  have hd: "hd (digits_text ds) = digit_char (unat (last ds))"
    using ds(1,3) by (simp add: digits_text_def hd_map hd_rev digit_char_byte decimal_digits_def list_all_iff)
  have "unat (last ds) < 10" using ds(1,3) by (simp add: decimal_digits_def list_all_iff)
  then have "canonical (digits_text ds)"
    using dec_val_digits_text [OF ds(1)] hd assms ds(3)
    by (auto simp: canonical_def denotes_def digits_text_def digit_char_props unat_eq_0)
  with dec_val_digits_text [OF ds(1)] ds(2) canonical_nat_text show ?thesis by metis
qed

text \<open>
  Repeated multiplication of decimal digits by 256 in 16-bit arithmetic never overflows and never
  fails: for a byte string of any length it prints the little-endian number it denotes, without
  leading zeros.
\<close>

theorem le_bytes_decimal_exact: "le_bytes_decimal raw = Inr (nat_text (le_val raw))"
proof -
  have "denotes [0] 0" by (simp add: denotes_def decimal_digits_def)
  from push_bytes_denotes [OF this, of "rev raw"] obtain ds where
    "rfold push_byte (rev raw) [0] = Inr ds" "denotes ds (le_val raw)" by auto
  then show ?thesis by (simp add: le_bytes_decimal_def digits_text_denotes)
qed

section \<open>Winning solutions and consensus digests\<close>

definition difficulty_value :: "decode_lib \<Rightarrow> scale_value \<Rightarrow> chain_error + difficulty_info" where
  "difficulty_value lib v =
     rbind (u32_field lib v ''min_solutions'') (\<lambda>ms.
     rbind (rbind (field v ''max_energy_milli'') (signed_value lib)) (\<lambda>me.
     rbind (u32_field lib v ''min_diversity_milli'') (\<lambda>md.
     Inr \<lparr>min_solutions = ms, max_energy_milli = me, min_diversity_milli = md\<rparr>)))"

text \<open>\<open>Option::map(f).transpose()\<close>\<close>

definition transpose_option :: "('a \<Rightarrow> 'e + 'b) \<Rightarrow> 'a option \<Rightarrow> 'e + 'b option" where
  "transpose_option f x = (case x of None \<Rightarrow> Inr None | Some v \<Rightarrow> rbind (f v) (\<lambda>y. Inr (Some y)))"

definition qblock :: "decode_lib \<Rightarrow> scale_value \<Rightarrow> chain_error + qblock_info option" where
  "qblock lib v0 = rbind (scale_option v0) (\<lambda>o_v. case o_v of
       None \<Rightarrow> Inr None
     | Some v \<Rightarrow>
         rbind (field v ''solution'') (\<lambda>sol.
         rbind (rbind (field sol ''miner'') (account lib)) (\<lambda>miner.
         rbind (rbind (field sol ''energy_milli'') (signed_value lib)) (\<lambda>energy.
         rbind (rbind (field sol ''reward'') (decimal_value lib)) (\<lambda>reward.
         rbind (rbind (field sol ''submitted_at'') (unsigned_value lib)) (\<lambda>submitted.
         rbind (rbind (field v ''nonce'') (decimal_value lib)) (\<lambda>nonce.
         rbind (rbind (field sol ''difficulty'') (difficulty_value lib)) (\<lambda>diff.
         rbind (transpose_option (unsigned_value lib) (maybe_field sol ''device_access_time_us'')) (\<lambda>device.
         rbind (transpose_option (hash_value lib) (maybe_field sol ''topology_hash'')) (\<lambda>topology.
         Inr (Some \<lparr>qi_miner = miner, qi_energy_milli = energy, qi_reward = reward, qi_submitted_at = submitted,
           qi_nonce = nonce, qi_difficulty = diff, qi_device_access_time_us = device,
           qi_topology_hash = topology\<rparr>)))))))))))"

record babe_digest =
  authority_index :: u32
  slot :: u64

definition unhex :: "decode_lib \<Rightarrow> string \<Rightarrow> chain_error + u8 list" where
  "unhex lib t = (if take 2 t = ''0x'' then invalid (hex_decode lib (drop 2 t))
     else Inl (ChInvalid ''hex value lacks 0x''))"

text \<open>One digest log; \<open>None\<close> is a log that is not a BABE pre-runtime digest.\<close>

definition babe_log :: "decode_lib \<Rightarrow> string \<Rightarrow> chain_error + babe_digest option" where
  "babe_log lib log = rbind (unhex lib log) (\<lambda>bytes.
     if take 1 bytes \<noteq> [6] then Inr None
     else if take 4 (drop 1 bytes) \<noteq> [66, 65, 66, 69] then Inr None
     else
     rbind (invalid (decode_vec_u8 lib (drop 5 bytes))) (\<lambda>(payload, rest).
     if rest \<noteq> [] then Inl (ChInvalid ''trailing BABE digest bytes'')
     else
     rbind (invalid (decode_u8 lib payload)) (\<lambda>(variant, input).
     if variant < 1 \<or> 3 < variant then Inl (ChUnsupported (''BABE pre-digest variant '' @ unsigned_text variant))
     else
     rbind (invalid (decode_u32 lib input)) (\<lambda>(authority, input).
     rbind (invalid (decode_u64 lib input)) (\<lambda>(sl, input).
     if variant = 2 \<and> input \<noteq> [] then Inl (ChInvalid ''trailing secondary-plain digest bytes'')
     else Inr (Some \<lparr>authority_index = authority, slot = sl\<rparr>))))))"

fun from_logs_loop :: "decode_lib \<Rightarrow> babe_digest option \<Rightarrow> string list \<Rightarrow> chain_error + babe_digest option" where
  "from_logs_loop lib found [] = Inr found"
| "from_logs_loop lib found (log # logs) = rbind (babe_log lib log) (\<lambda>r. case r of
       None \<Rightarrow> from_logs_loop lib found logs
     | Some d \<Rightarrow> if found \<noteq> None then Inl (ChInvalid ''duplicate BABE pre-runtime digest'')
                 else from_logs_loop lib (Some d) logs)"

definition from_logs :: "decode_lib \<Rightarrow> string list \<Rightarrow> chain_error + babe_digest option" where
  "from_logs lib logs = from_logs_loop lib None logs"

section \<open>Events\<close>

record chain_event =
  ce_pallet :: string
  ce_name :: string
  ce_bytes :: "u8 list"
  ce_fields :: "chain_error + scale_composite"

definition account32 :: "decode_lib \<Rightarrow> string \<Rightarrow> scale_value \<Rightarrow> chain_error + u8 list" where
  "account32 lib what v = rbind (bytes_value lib v) (\<lambda>bs.
     if length bs = 32 then Inr bs else Inl (ChUnsupported (what @ '' account is not AccountId32'')))"

definition winner_event :: "decode_lib \<Rightarrow> scale_value \<Rightarrow> chain_error + block_winner_event" where
  "winner_event lib f =
     rbind (rbind (field f ''qblock_id'') (unsigned_value lib)) (\<lambda>q.
     rbind (rbind (field f ''block_number'') (unsigned_value lib)) (\<lambda>b.
     rbind (rbind (field f ''miner'') (account lib)) (\<lambda>m.
     rbind (rbind (field f ''reward'') (decimal_value lib)) (\<lambda>r.
     rbind (rbind (field f ''energy_milli'') (signed_value lib)) (\<lambda>e.
     rbind (rbind (field f ''submitted_at'') (unsigned_value lib)) (\<lambda>s.
     Inr \<lparr>we_qblock_id = q, we_block_number = b, we_miner = m, we_reward = r, we_energy_milli = e,
       we_submitted_at = s\<rparr>))))))"

definition proof_event :: "decode_lib \<Rightarrow> scale_value \<Rightarrow> chain_error + proof_accepted_event" where
  "proof_event lib f =
     rbind (rbind (field f ''miner'') (account lib)) (\<lambda>m.
     rbind (rbind (field f ''energy_milli'') (signed_value lib)) (\<lambda>e.
     rbind (u32_field lib f ''diversity_milli'') (\<lambda>d.
     rbind (u32_field lib f ''valid_solution_count'') (\<lambda>c.
     Inr \<lparr>pe_miner = m, pe_energy_milli = e, pe_diversity_milli = d, pe_valid_solution_count = c\<rparr>))))"

definition note_miner :: "decode_lib \<Rightarrow> scale_value \<Rightarrow> block_events \<Rightarrow> chain_error + block_events" where
  "note_miner lib f r = (case (case maybe_field f ''who'' of Some v \<Rightarrow> Some v | None \<Rightarrow> maybe_field f ''miner'') of
       None \<Rightarrow> Inr r
     | Some who \<Rightarrow> rbind (account32 lib ''miner'' who) (\<lambda>a.
         Inr (if a \<in> set (ev_miner_changes r) then r
              else r\<lparr>ev_miner_changes := ev_miner_changes r @ [a]\<rparr>)))"

definition pow_event :: "decode_lib \<Rightarrow> chain_event \<Rightarrow> block_events \<Rightarrow> chain_error + block_events" where
  "pow_event lib ev r = rbind (ce_fields ev) (\<lambda>c. let f = Composite c in
     rbind (note_miner lib f r) (\<lambda>r.
     if ce_name ev = ''BlockWinner''
     then if ev_winner r \<noteq> None then Inl (ChInvalid ''multiple BlockWinner events'')
          else rbind (winner_event lib f) (\<lambda>w. Inr (r\<lparr>ev_winner := Some w\<rparr>))
     else if ce_name ev = ''ProofAccepted''
     then rbind (proof_event lib f) (\<lambda>p. Inr (r\<lparr>ev_proofs := ev_proofs r @ [p]\<rparr>))
     else Inr r))"

definition registry_event :: "decode_lib \<Rightarrow> chain_event \<Rightarrow> block_events \<Rightarrow> chain_error + block_events" where
  "registry_event lib ev r = rbind (ce_fields ev) (\<lambda>c. case maybe_field (Composite c) ''who'' of
       None \<Rightarrow> Inr r
     | Some who \<Rightarrow> rbind (account32 lib ''registry'' who) (\<lambda>a.
         Inr (r\<lparr>ev_registry_changes := ev_registry_changes r @ [\<lparr>rg_event = ce_name ev, rg_account = a\<rparr>]\<rparr>)))"

definition relevant_event :: "chain_event \<Rightarrow> bool" where
  "relevant_event ev \<longleftrightarrow> ce_pallet ev \<in> {''MinerRegistry'', ''Session'', ''Babe'', ''QuantumPow''}
     \<or> ce_pallet ev = ''System'' \<and> ce_name ev = ''CodeUpdated''"

definition fold_event :: "decode_lib \<Rightarrow> chain_event \<Rightarrow> block_events \<Rightarrow> chain_error + block_events" where
  "fold_event lib ev r =
     rbind (if ce_pallet ev = ''QuantumPow'' then pow_event lib ev r else Inr r) (\<lambda>r.
     rbind (if ce_pallet ev = ''MinerRegistry'' then registry_event lib ev r else Inr r) (\<lambda>r.
     Inr (if relevant_event ev then r\<lparr>ev_changes := ev_changes r @ [(ce_pallet ev, ce_name ev)]\<rparr> else r)))"

text \<open>The loop over the iterator: events seen, bytes consumed and the result so far.\<close>

fun event_loop :: "decode_lib \<Rightarrow> (chain_error + chain_event) list \<Rightarrow> u32 \<times> usize \<times> block_events
    \<Rightarrow> chain_error + u32 \<times> usize \<times> block_events" where
  "event_loop lib [] st = Inr st"
| "event_loop lib (e # es) (seen, consumed, r) = rbind e (\<lambda>ev. rbind (fold_event lib ev r) (\<lambda>r'.
     event_loop lib es (seen + 1, consumed + of_nat (length (ce_bytes ev)), r')))"

definition decode_events :: "decode_lib \<Rightarrow> (u8 list \<Rightarrow> (chain_error + chain_event) list) \<Rightarrow> u8 list
    \<Rightarrow> chain_error + block_events" where
  "decode_events lib decode_from bytes =
     rbind (invalid (decode_compact_u32 lib bytes)) (\<lambda>(count, input).
     if 100000 < count then Inl (ChOversized ''event count exceeds 100000'')
     else rbind (event_loop lib (decode_from bytes)
                   (0, of_nat (length bytes - length input), block_events_default)) (\<lambda>(seen, consumed, r).
       if seen \<noteq> count \<or> consumed \<noteq> of_nat (length bytes)
       then Inl (ChInvalid ''event count or trailing bytes mismatch'')
       else Inr r))"

definition is_winner_event :: "chain_event \<Rightarrow> bool" where
  "is_winner_event ev \<longleftrightarrow> ce_pallet ev = ''QuantumPow'' \<and> ce_name ev = ''BlockWinner''"

definition is_proof_event :: "chain_event \<Rightarrow> bool" where
  "is_proof_event ev \<longleftrightarrow> ce_pallet ev = ''QuantumPow'' \<and> ce_name ev = ''ProofAccepted''"

definition event_fields :: "chain_event \<Rightarrow> scale_value" where
  "event_fields ev = Composite (case ce_fields ev of Inl _ \<Rightarrow> Named [] | Inr c \<Rightarrow> c)"

text \<open>What a result says about the events it was folded from.\<close>

definition summarizes :: "decode_lib \<Rightarrow> chain_event list \<Rightarrow> block_events \<Rightarrow> bool" where
  "summarizes lib evs r \<longleftrightarrow>
     (case ev_winner r of
        None \<Rightarrow> filter is_winner_event evs = []
      | Some w \<Rightarrow> (\<exists>ev. filter is_winner_event evs = [ev] \<and> winner_event lib (event_fields ev) = Inr w))
     \<and> list_all2 (\<lambda>ev p. proof_event lib (event_fields ev) = Inr p) (filter is_proof_event evs) (ev_proofs r)
     \<and> ev_changes r = map (\<lambda>ev. (ce_pallet ev, ce_name ev)) (filter relevant_event evs)
     \<and> distinct (ev_miner_changes r)"

lemma registry_event_effect:
  assumes "registry_event lib ev r = Inr r'"
  shows "ev_winner r' = ev_winner r \<and> ev_proofs r' = ev_proofs r \<and> ev_changes r' = ev_changes r
    \<and> ev_miner_changes r' = ev_miner_changes r"
  using assms by (auto simp: registry_event_def rbind_Inr split: option.splits)

lemma note_miner_effect:
  assumes "note_miner lib f r = Inr r'"
  shows "ev_changes r' = ev_changes r \<and> ev_winner r' = ev_winner r \<and> ev_proofs r' = ev_proofs r
    \<and> (distinct (ev_miner_changes r) \<longrightarrow> distinct (ev_miner_changes r'))"
  using assms by (auto simp: note_miner_def rbind_Inr split: option.splits)

lemma pow_event_effect:
  assumes "pow_event lib ev r = Inr r'"
  shows "ev_changes r' = ev_changes r \<and> (distinct (ev_miner_changes r) \<longrightarrow> distinct (ev_miner_changes r'))
    \<and> (if ce_name ev = ''BlockWinner''
       then ev_winner r = None \<and> (\<exists>w. ev_winner r' = Some w \<and> winner_event lib (event_fields ev) = Inr w)
       else ev_winner r' = ev_winner r)
    \<and> (if ce_name ev = ''ProofAccepted''
       then (\<exists>p. ev_proofs r' = ev_proofs r @ [p] \<and> proof_event lib (event_fields ev) = Inr p)
       else ev_proofs r' = ev_proofs r)"
proof -
  from assms obtain c r1 where c: "ce_fields ev = Inr c" and n: "note_miner lib (Composite c) r = Inr r1"
    and rest: "(if ce_name ev = ''BlockWinner''
     then if ev_winner r1 \<noteq> None then Inl (ChInvalid ''multiple BlockWinner events'')
          else rbind (winner_event lib (Composite c)) (\<lambda>w. Inr (r1\<lparr>ev_winner := Some w\<rparr>))
     else if ce_name ev = ''ProofAccepted''
     then rbind (proof_event lib (Composite c)) (\<lambda>p. Inr (r1\<lparr>ev_proofs := ev_proofs r1 @ [p]\<rparr>))
     else Inr r1) = Inr r'"
    unfolding pow_event_def rbind_Inr Let_def by blast
  note r1 = note_miner_effect [OF n]
  have "event_fields ev = Composite c" using c by (simp add: event_fields_def)
  then show ?thesis using r1 rest by (auto simp: rbind_Inr split: if_splits)
qed

lemma fold_event_summarizes:
  assumes "summarizes lib evs r" and "fold_event lib ev r = Inr r'"
  shows "summarizes lib (evs @ [ev]) r'"
proof -
  from assms(2) obtain r1 r2 where
    r1: "(if ce_pallet ev = ''QuantumPow'' then pow_event lib ev r else Inr r) = Inr r1"
    and r2: "(if ce_pallet ev = ''MinerRegistry'' then registry_event lib ev r1 else Inr r1) = Inr r2"
    and r': "r' = (if relevant_event ev then r2\<lparr>ev_changes := ev_changes r2 @ [(ce_pallet ev, ce_name ev)]\<rparr> else r2)"
    unfolding fold_event_def rbind_Inr by blast
  have same: "ev_winner r2 = ev_winner r1" "ev_proofs r2 = ev_proofs r1" "ev_changes r2 = ev_changes r1"
    "ev_miner_changes r2 = ev_miner_changes r1"
    using r2 registry_event_effect [of lib ev r1 r2] by (auto split: if_splits)
  show ?thesis
  proof (cases "ce_pallet ev = ''QuantumPow''")
    case True
    then have "pow_event lib ev r = Inr r1" using r1 by simp
    from pow_event_effect [OF this] True same assms(1) show ?thesis
      by (auto simp: summarizes_def r' is_winner_event_def is_proof_event_def list_all2_appendI
          split: if_splits option.splits)
  next
    case False
    then show ?thesis
      using r1 same assms(1)
      by (auto simp: summarizes_def r' is_winner_event_def is_proof_event_def split: option.splits)
  qed
qed

lemma event_loop_summarizes:
  assumes "event_loop lib es (seen, consumed, r) = Inr (seen', consumed', r')" and "summarizes lib done_evs r"
  obtains evs where "es = map Inr evs" and "summarizes lib (done_evs @ evs) r'"
    and "seen' = seen + of_nat (length evs)"
    and "consumed' = consumed + of_nat (sum_list (map (length \<circ> ce_bytes) evs))"
  using assms
proof (induction es arbitrary: seen consumed r done_evs thesis)
  case (Cons e es)
  from Cons.prems(2) obtain ev r1 where e: "e = Inr ev" "fold_event lib ev r = Inr r1"
    and rest: "event_loop lib es (seen + 1, consumed + of_nat (length (ce_bytes ev)), r1) = Inr (seen', consumed', r')"
    by (auto simp: rbind_Inr)
  show ?case
    by (rule Cons.IH [OF _ rest fold_event_summarizes [OF Cons.prems(3) e(2)]])
      (rule Cons.prems(1) [of "ev # _"], auto simp: e algebra_simps)
qed auto


text \<open>A library that reads numbers only from unsigned and signed primitives, for the witnesses.\<close>

definition sample_lib :: decode_lib where
  "sample_lib = \<lparr>as_u128 = (\<lambda>v. case v of Primitive (PU128 n) \<Rightarrow> Some n | _ \<Rightarrow> None),
     as_i128 = (\<lambda>v. case v of Primitive (PI128 n) \<Rightarrow> Some (sint n) | _ \<Rightarrow> None),
     blake2b512 = (\<lambda>_. []), bs58_encode = map char_of_byte, hex_decode = (\<lambda>_. Inl ''hex''), hex_encode = map char_of_byte,
     decode_compact_u32 = (\<lambda>bs. case bs of [] \<Rightarrow> Inl ''eof'' | b # r \<Rightarrow> Inr (ucast b, r)),
     decode_vec_u8 = (\<lambda>bs. Inr (bs, [])),
     decode_u8 = (\<lambda>bs. case bs of [] \<Rightarrow> Inl ''eof'' | b # r \<Rightarrow> Inr (b, r)),
     decode_u32 = (\<lambda>bs. Inr (0, bs)), decode_u64 = (\<lambda>bs. Inr (0, bs))\<rparr>"


end
