(* ===== verification/Chain_Pages.thy ===== *)
theory Chain_Pages
  imports Chain_Decode
begin

text \<open>
  The paged reads of \<open>chain/snapshots.rs\<close>: a page is decoded from the server's response, which is an
  argument, and either rejected or guaranteed to advance its cursor. Byte strings are compared
  lexicographically, as \<open>Vec<u8>\<close> is.
\<close>

definition page_limit :: "u32 \<Rightarrow> chain_error + unit" where
  "page_limit limit = (if limit = 0 \<or> 1000 < limit then Inl (ChInvalid ''page limit must be 1 through 1000'')
     else Inr ())"

section \<open>Participants\<close>

text \<open>The loop over the rows; the state is the account of the previous row.\<close>

definition participant_record :: "decode_lib \<Rightarrow> u64 \<Rightarrow> u8 list \<Rightarrow> scale_value \<Rightarrow> chain_error + qblock_participant" where
  "participant_record lib qid acc rec =
     rbind (rbind (field rec ''qblock_id'') (unsigned_value lib)) (\<lambda>q.
     if q \<noteq> qid then Inl (ChInvalid ''participant qblock mismatch'')
     else
     rbind (rbind (field rec ''kind'') (\<lambda>kind. case kind of
         Variant name _ \<Rightarrow> Inr name | _ \<Rightarrow> Inl (ChInvalid ''miner kind is not an enum''))) (\<lambda>name.
     rbind (rbind (field rec ''budget_seconds'') scale_option) (\<lambda>budget_value.
     rbind (transpose_option (\<lambda>v. rbind (unsigned_value lib v) try_from) budget_value) (\<lambda>budget.
     rbind (account_bytes lib acc) (\<lambda>name58.
     rbind (rbind (field rec ''updated_at'') (unsigned_value lib)) (\<lambda>updated.
     Inr \<lparr>qp_account = name58, qp_kind = name, qp_budget_seconds = budget, qp_block_number = updated\<rparr>))))))"

definition participant_row :: "decode_lib \<Rightarrow> u64 \<Rightarrow> u8 list option \<Rightarrow> scale_value
    \<Rightarrow> chain_error + qblock_participant \<times> u8 list" where
  "participant_row lib qid previous row = rbind (rbind (sequence row) (\<lambda>pair. case pair of
         [account_value, rec] \<Rightarrow> Inr (account_value, rec)
       | _ \<Rightarrow> Inl (ChInvalid ''participant row is not a pair''))) (\<lambda>(account_value, rec).
     rbind (bytes_value lib account_value) (\<lambda>acc.
     if (case previous of None \<Rightarrow> False | Some p \<Rightarrow> acc \<le> p)
     then Inl (ChInvalid ''participant page did not advance'')
     else rbind (participant_record lib qid acc rec) (\<lambda>p. Inr (p, acc))))"

fun participant_rows :: "decode_lib \<Rightarrow> u64 \<Rightarrow> u8 list option \<Rightarrow> scale_value list
    \<Rightarrow> chain_error + qblock_participant list \<times> u8 list option" where
  "participant_rows lib qid previous [] = Inr ([], previous)"
| "participant_rows lib qid previous (row # rows) =
     rbind (participant_row lib qid previous row) (\<lambda>(p, acc).
     rbind (participant_rows lib qid (Some acc) rows) (\<lambda>(ps, lst). Inr (p # ps, lst)))"

definition participant_page :: "decode_lib \<Rightarrow> (u8 list option \<Rightarrow> chain_error + scale_value) \<Rightarrow> chain_hash \<Rightarrow> u64
    \<Rightarrow> participant_cursor option \<Rightarrow> u32 \<Rightarrow> chain_error + participant_page" where
  "participant_page lib participants_by_qblock at qid cursor limit =
     rbind (page_limit limit) (\<lambda>_.
     if (case cursor of None \<Rightarrow> False
         | Some c \<Rightarrow> pc_at c \<noteq> at \<or> pc_qblock_id c \<noteq> qid \<or> length (pc_account c) \<noteq> 32)
     then Inl (ChInvalid ''participant cursor belongs to another snapshot or qblock'')
     else
     rbind (participants_by_qblock (map_option pc_account cursor)) (\<lambda>v.
     rbind (sequence v) (\<lambda>rows.
     if unat limit < length rows then Inl (ChInvalid ''participant page exceeded limit'')
     else
     (let exhausted = (length rows < unat limit)
      in rbind (participant_rows lib qid (map_option pc_account cursor) rows) (\<lambda>(ps, previous).
         Inr \<lparr>pp_at = at, pp_participants = ps,
           pp_continuation = (if exhausted then None
             else map_option (\<lambda>a. \<lparr>pc_at = at, pc_qblock_id = qid, pc_account = a\<rparr>) previous),
           pp_exhausted = exhausted\<rparr>)))))"

section \<open>Storage keys and winners\<close>

fun ordered_keys :: "(string \<Rightarrow> chain_error + u8 list) \<Rightarrow> u8 list \<Rightarrow> u8 list option \<Rightarrow> string option list
    \<Rightarrow> chain_error + u8 list list" where
  "ordered_keys of_hex prefix previous [] = Inr []"
| "ordered_keys of_hex prefix previous (v # vs) =
     rbind (ok_or (ChInvalid ''storage key is not hex'') v) (\<lambda>t. rbind (of_hex t) (\<lambda>key.
     if take (length prefix) key \<noteq> prefix \<or> (case previous of None \<Rightarrow> False | Some p \<Rightarrow> key \<le> p)
     then Inl (ChInvalid ''storage page is unordered or failed to advance'')
     else rbind (ordered_keys of_hex prefix (Some key) vs) (\<lambda>keys. Inr (key # keys))))"

text \<open>
  \<open>lookup\<close>: the runtime's metadata has the storage entry. \<open>response\<close>: the JSON answer, an array of strings
  and other values, or not an array.
\<close>

definition key_page :: "decode_lib \<Rightarrow> chain_error + unit \<Rightarrow> u8 list \<Rightarrow> (u8 list option \<Rightarrow> chain_error + string option list option)
    \<Rightarrow> u8 list option \<Rightarrow> u32 \<Rightarrow> chain_error + u8 list list" where
  "key_page lib lookup prefix keys_paged start limit = rbind lookup (\<lambda>_.
      if (case start of None \<Rightarrow> False | Some k \<Rightarrow> take (length prefix) k \<noteq> prefix)
      then Inl (ChInvalid ''cursor has incorrect storage prefix'')
      else
      rbind (keys_paged start) (\<lambda>response.
      rbind (ok_or (ChInvalid ''key page is not an array'') response) (\<lambda>vals.
      if unat limit < length vals then Inl (ChInvalid ''RPC exceeded requested key limit'')
      else ordered_keys (unhex lib) prefix start vals)))"

text \<open>
  \<open>decode_key\<close> decodes the suffix of a key and checks it against the re-encoding, with the runtime's
  metadata.
\<close>

definition winner_height :: "decode_lib \<Rightarrow> (u8 list \<Rightarrow> chain_error + scale_value \<times> u8 list) \<Rightarrow> u8 list \<Rightarrow> chain_error + u64" where
  "winner_height lib decode_key key =
     (if length key < 48 then Inl (ChInvalid ''short QBlocks key'')
      else rbind (decode_key (drop 48 key)) (\<lambda>(v, encoded).
        if encoded \<noteq> key then Inl (ChInvalid ''QBlocks key hash mismatch'') else unsigned_value lib v))"

definition winner_page :: "decode_lib \<Rightarrow> chain_error + unit \<Rightarrow> u8 list \<Rightarrow> (u8 list option \<Rightarrow> chain_error + string option list option)
    \<Rightarrow> (chain_error + (u8 list \<Rightarrow> chain_error + scale_value \<times> u8 list))
    \<Rightarrow> chain_hash \<Rightarrow> winner_cursor option \<Rightarrow> u32 \<Rightarrow> chain_error + winner_page" where
  "winner_page lib lookup prefix keys_paged metadata at cursor limit =
     rbind (page_limit limit) (\<lambda>_.
     if (case cursor of None \<Rightarrow> False | Some c \<Rightarrow> wc_at c \<noteq> at)
     then Inl (ChInvalid ''winner cursor belongs to another snapshot'')
     else
     rbind (key_page lib lookup prefix keys_paged (map_option wc_key cursor) limit) (\<lambda>keys.
     rbind metadata (\<lambda>decode_key.
     rbind (rmap_list (winner_height lib decode_key) keys) (\<lambda>heights.
     (let exhausted = (length keys < unat limit)
      in Inr \<lparr>wp_at = at, wp_keys = keys, wp_heights = heights,
           wp_continuation = (if exhausted \<or> keys = [] then None else Some \<lparr>wc_at = at, wc_key = last keys\<rparr>),
           wp_exhausted = exhausted\<rparr>)))))"

section \<open>Pages advance\<close>

lemma participant_record_account: "participant_record lib qid acc rec = Inr p \<Longrightarrow> length acc = 32"
  unfolding participant_record_def rbind_Inr by (auto simp: rbind_Inr account_bytes_def split: if_splits)

lemma participant_row_account:
  assumes "participant_row lib qid previous row = Inr (p, acc)"
  shows "length acc = 32 \<and> (\<forall>q. previous = Some q \<longrightarrow> q < acc)"
proof -
  from assms obtain rec where r: "participant_record lib qid acc rec = Inr p"
    and "\<not> (case previous of None \<Rightarrow> False | Some p \<Rightarrow> acc \<le> p)"
    unfolding participant_row_def rbind_Inr case_prod_beta by (auto simp: rbind_Inr split: if_splits)
  then show ?thesis using participant_record_account [OF r] by (auto simp: not_le)
qed

lemma participant_rows_advance:
  "participant_rows lib qid previous rows = Inr (ps, lst) \<Longrightarrow>
     length ps = length rows
     \<and> (rows = [] \<longrightarrow> lst = previous)
     \<and> (rows \<noteq> [] \<longrightarrow> (\<exists>a. lst = Some a \<and> length a = 32 \<and> (\<forall>q. previous = Some q \<longrightarrow> q < a)))"
proof (induction rows arbitrary: previous ps)
  case (Cons row rows)
  from Cons.prems obtain p acc ps' where row: "participant_row lib qid previous row = Inr (p, acc)"
    and rest: "participant_rows lib qid (Some acc) rows = Inr (ps', lst)" and ps: "ps = p # ps'"
    by (auto simp: rbind_Inr)
  note acc = participant_row_account [OF row]
  from Cons.IH [OF rest] acc show ?case
    by (cases "rows = []") (auto simp: ps intro: less_trans)
qed simp

lemma participant_page_advances:
  assumes "participant_page lib respond at qid cursor limit = Inr page"
  shows "pp_at page = at" and "length (pp_participants page) \<le> unat limit"
    and "pp_exhausted page \<longleftrightarrow> length (pp_participants page) < unat limit"
    and "pp_exhausted page \<longleftrightarrow> pp_continuation page = None"
    and "pp_continuation page = Some c \<Longrightarrow> pc_at c = at \<and> pc_qblock_id c = qid \<and> length (pc_account c) = 32
      \<and> (\<forall>d. cursor = Some d \<longrightarrow> pc_account d < pc_account c)"
proof -
  from assms obtain rows ps previous where
    limit: "limit \<noteq> 0" and rows: "\<not> unat limit < length rows"
      "participant_rows lib qid (map_option pc_account cursor) rows = Inr (ps, previous)"
    and page: "page = \<lparr>pp_at = at, pp_participants = ps,
      pp_continuation = (if length rows < unat limit then None
        else map_option (\<lambda>a. \<lparr>pc_at = at, pc_qblock_id = qid, pc_account = a\<rparr>) previous),
      pp_exhausted = (length rows < unat limit)\<rparr>"
    by (auto simp: participant_page_def rbind_Inr Let_def page_limit_def split: if_splits option.splits)
  note adv = participant_rows_advance [OF rows(2)]
  have "0 < unat limit" using limit by (simp add: unat_gt_0)
  with adv rows(1) page show "pp_at page = at" "length (pp_participants page) \<le> unat limit"
    "pp_exhausted page \<longleftrightarrow> length (pp_participants page) < unat limit"
    "pp_exhausted page \<longleftrightarrow> pp_continuation page = None"
    by (auto split: if_splits)
  show "pc_at c = at \<and> pc_qblock_id c = qid \<and> length (pc_account c) = 32
      \<and> (\<forall>d. cursor = Some d \<longrightarrow> pc_account d < pc_account c)" if "pp_continuation page = Some c"
    using that adv page \<open>0 < unat limit\<close> by (auto split: if_splits)
qed

text \<open>
  The accounts beyond a cursor: a finite set of byte strings that every continuation makes smaller.
\<close>

definition beyond :: "participant_cursor option \<Rightarrow> u8 list set" where
  "beyond cursor = {a. length a = 32 \<and> (\<forall>d. cursor = Some d \<longrightarrow> pc_account d < a)}"

lemma finite_beyond [simp]: "finite (beyond cursor)"
  using finite_lists_length_eq [of "UNIV :: u8 set" 32] by (auto simp: beyond_def intro: finite_subset)

lemma beyond_shrinks:
  assumes "participant_page lib respond at qid cursor limit = Inr page" and "pp_continuation page = Some c"
  shows "card (beyond (Some c)) < card (beyond cursor)"
proof -
  note adv = participant_page_advances(5) [OF assms]
  have "beyond (Some c) \<subseteq> beyond cursor" using adv by (auto simp: beyond_def intro: less_trans)
  moreover have "pc_account c \<in> beyond cursor - beyond (Some c)" using adv by (auto simp: beyond_def)
  ultimately show ?thesis by (intro psubset_card_mono) auto
qed

text \<open>
  C36. Paging through the participants ends whatever the server answers: there is no infinite sequence of
  cursors in which each is the continuation of a page accepted at the one before.
\<close>

theorem participant_paging_terminates:
  "\<not> (\<exists>cursors :: nat \<Rightarrow> participant_cursor option. \<forall>k. \<exists>respond page.
       participant_page lib respond at qid (cursors k) limit = Inr page
       \<and> cursors (Suc k) = pp_continuation page \<and> \<not> pp_exhausted page)"
proof
  assume "\<exists>cursors :: nat \<Rightarrow> participant_cursor option. \<forall>k. \<exists>respond page.
       participant_page lib respond at qid (cursors k) limit = Inr page
       \<and> cursors (Suc k) = pp_continuation page \<and> \<not> pp_exhausted page"
  then obtain cursors :: "nat \<Rightarrow> participant_cursor option" where chain: "\<And>k. \<exists>respond page.
       participant_page lib respond at qid (cursors k) limit = Inr page
       \<and> cursors (Suc k) = pp_continuation page \<and> \<not> pp_exhausted page" by blast
  have "card (beyond (cursors (Suc k))) < card (beyond (cursors k))" for k
    using chain [of k] participant_page_advances(4) beyond_shrinks by (metis option.exhaust)
  then have "(cursors (Suc k), cursors k) \<in> measure (\<lambda>c. card (beyond c))" for k by simp
  then show False using wf_measure [of "\<lambda>c. card (beyond c)"] unfolding wf_iff_no_infinite_down_chain by blast
qed

section \<open>Winner pages\<close>

lemma ordered_keys_sorted:
  "ordered_keys of_hex prefix previous vs = Inr keys \<Longrightarrow>
     length keys = length vs \<and> sorted_wrt (<) keys
     \<and> (\<forall>key\<in>set keys. take (length prefix) key = prefix \<and> (\<forall>p. previous = Some p \<longrightarrow> p < key))"
proof (induction vs arbitrary: previous keys)
  case (Cons v vs)
  from Cons.prems obtain t key ks where k: "v = Some t" "take (length prefix) key = prefix"
      "\<not> (case previous of None \<Rightarrow> False | Some p \<Rightarrow> key \<le> p)"
    and rest: "ordered_keys of_hex prefix (Some key) vs = Inr ks" and keys: "keys = key # ks"
    by (auto simp: rbind_Inr ok_or_def split: if_splits option.splits)
  from Cons.IH [OF rest] k show ?case by (auto simp: keys not_le intro: less_trans)
qed simp

text \<open>
  An accepted page of winners lists its keys in strictly ascending order, all under the storage prefix
  and all after the cursor; it has one height for each key, at most as many as were asked for; it is
  exhausted exactly when it is shorter than that, and otherwise continues after its last key.
\<close>

theorem winner_page_sound:
  assumes "winner_page lib lookup prefix respond metadata at cursor limit = Inr page"
  shows "wp_at page = at \<and> sorted_wrt (<) (wp_keys page)
    \<and> (\<forall>key\<in>set (wp_keys page). take (length prefix) key = prefix \<and> (\<forall>c. cursor = Some c \<longrightarrow> wc_key c < key))
    \<and> length (wp_heights page) = length (wp_keys page) \<and> length (wp_keys page) \<le> unat limit
    \<and> (wp_exhausted page \<longleftrightarrow> length (wp_keys page) < unat limit)
    \<and> wp_continuation page = (if wp_exhausted page then None else Some \<lparr>wc_at = at, wc_key = last (wp_keys page)\<rparr>)"
proof -
  from assms obtain keys heights where limit: "limit \<noteq> 0"
    and keys: "key_page lib lookup prefix respond (map_option wc_key cursor) limit = Inr keys"
    and heights: "length heights = length keys"
    and page: "page = \<lparr>wp_at = at, wp_keys = keys, wp_heights = heights,
       wp_continuation = (if length keys < unat limit \<or> keys = [] then None else Some \<lparr>wc_at = at, wc_key = last keys\<rparr>),
       wp_exhausted = (length keys < unat limit)\<rparr>"
    by (auto simp: winner_page_def rbind_Inr Let_def page_limit_def dest: rmap_list_length split: if_splits option.splits)
  from keys obtain vs where vs: "\<not> unat limit < length vs"
    "ordered_keys (unhex lib) prefix (map_option wc_key cursor) vs = Inr keys"
    by (auto simp: key_page_def rbind_Inr split: if_splits)
  have "0 < unat limit" using limit by (simp add: unat_gt_0)
  with ordered_keys_sorted [OF vs(2)] vs(1) heights show ?thesis by (auto simp: page)
qed

definition page_lib :: decode_lib where
  "page_lib = sample_lib\<lparr>hex_decode := (\<lambda>t. Inr (replicate 48 0 @ map (of_nat \<circ> of_char) t))\<rparr>"

text \<open>A page of two keys at a limit of two.\<close>

theorem winner_page_sound_witness:
  "\<exists>page. winner_page page_lib (Inr ()) [0] (\<lambda>_. Inr (Some [Some ''0x1'', Some ''0x2'']))
       (Inr (\<lambda>suffix. Inr (Primitive (PU128 7), replicate 48 0 @ suffix))) (ChainHash []) None 2 = Inr page
     \<and> sorted_wrt (<) (wp_keys page) \<and> \<not> wp_exhausted page \<and> wp_continuation page \<noteq> None"
proof -
  let ?respond = "\<lambda>_. Inr (Some [Some ''0x1'', Some ''0x2''])"
  let ?meta = "Inr (\<lambda>suffix. Inr (Primitive (PU128 7), replicate 48 0 @ suffix))"
  let ?key = "\<lambda>n. replicate 48 0 @ [n] :: u8 list"
  have u: "unhex page_lib ''0x1'' = Inr (?key 49)" "unhex page_lib ''0x2'' = Inr (?key 50)"
    by (simp_all add: unhex_def page_lib_def invalid_def)
  have "xs @ [49] < xs @ [50 :: u8]" for xs by (induction xs) simp_all
  then have "?key 49 < ?key 50" by blast
  then have k: "key_page page_lib (Inr ()) [0] ?respond None 2 = Inr [?key 49, ?key 50]"
    by (simp add: key_page_def u ok_or_def)
  have h: "winner_height page_lib (\<lambda>suffix. Inr (Primitive (PU128 7), replicate 48 0 @ suffix)) (?key n) = Inr 7" for n
    by (simp add: winner_height_def page_lib_def sample_lib_def unsigned_value_def ok_or_def try_from_def)
  have "\<exists>page. winner_page page_lib (Inr ()) [0] ?respond ?meta (ChainHash []) None 2 = Inr page
      \<and> wp_keys page = [?key 49, ?key 50]"
    by (simp add: winner_page_def page_limit_def k h Let_def)
  then obtain page where page: "winner_page page_lib (Inr ()) [0] ?respond ?meta (ChainHash []) None 2 = Inr page"
    "wp_keys page = [?key 49, ?key 50]" by blast
  from winner_page_sound [OF page(1)] show ?thesis using page by auto
qed

end
