(* ===== verification/Jobs.thy ===== *)
theory Jobs
  imports Chain_Pages Planning Store_Steps Counters Sync_Gate
begin

text \<open>
  The asynchronous world of the indexer (\<open>indexer/mod.rs\<close>). A job passes the shared world along and ends
  with an error or a value; what it did to the world before an error stays done. Every \<open>await\<close> lets the
  other tasks run: the world may change arbitrarily there, except that the store changes only through
  its own transactions. The validator's answers, other tasks and clocks are the fields of \<open>upstream\<close>, and
  each may depend on the number of awaits so far.
\<close>

section \<open>State\<close>

datatype indexer_error = IxChain chain_error | IxStore store_error | IxInvalid string | IxStale

text \<open>\<open>last_error\<close> holds the error whose text the code keeps.\<close>

record progress =
  best_height :: "u64 option"
  finalized_height :: "u64 option"
  committed_height :: "u64 option"
  admitted :: usize
  last_error :: "indexer_error option"
  attached :: bool

record target =
  tg_height :: u64
  tg_hash :: chain_hash

record world =
  w_store :: store
  w_progress :: progress
  w_admission :: admission
  w_gate :: u64
  w_tick :: nat

record upstream =
  up_engine :: engine
  up_lib :: decode_lib
  up_genesis :: chain_hash
  up_interfere :: "nat \<Rightarrow> world \<Rightarrow> world"
  up_block_hash :: "nat \<Rightarrow> u64 \<Rightarrow> work_class \<Rightarrow> chain_error + chain_hash option"
  up_block :: "nat \<Rightarrow> chain_hash \<Rightarrow> block_purpose \<Rightarrow> chain_hash \<Rightarrow> work_class \<Rightarrow> chain_error + decoded_block"
  up_header :: "nat \<Rightarrow> chain_hash \<Rightarrow> work_class \<Rightarrow> chain_error + header"
  up_finalized_head :: "nat \<Rightarrow> chain_error + chain_hash"
  up_last_proof_block :: "nat \<Rightarrow> chain_hash \<Rightarrow> work_class \<Rightarrow> chain_error + u64"
  up_default_topology :: "nat \<Rightarrow> chain_hash \<Rightarrow> work_class \<Rightarrow> chain_error + chain_hash option"
  up_topology_summary :: "nat \<Rightarrow> chain_hash \<Rightarrow> chain_hash \<Rightarrow> work_class \<Rightarrow> chain_error + topology_summary"
  up_participants :: "nat \<Rightarrow> chain_hash \<Rightarrow> u64 \<Rightarrow> work_class \<Rightarrow> u8 list option \<Rightarrow> chain_error + scale_value"
  up_winner_lookup :: "nat \<Rightarrow> chain_hash \<Rightarrow> chain_error + unit"
  up_winner_prefix :: "u8 list"
  up_winner_keys :: "nat \<Rightarrow> chain_hash \<Rightarrow> u8 list option \<Rightarrow> chain_error + string option list option"
  up_winner_metadata :: "nat \<Rightarrow> chain_hash \<Rightarrow> chain_error + (u8 list \<Rightarrow> chain_error + scale_value \<times> u8 list)"
  up_sync_state :: "nat \<Rightarrow> chain_error + sync_state_info"
  up_metrics :: "nat \<Rightarrow> method_metrics list"
  up_format_time :: "u64 \<Rightarrow> string option"
  up_refresh :: "nat \<Rightarrow> decoded_block \<Rightarrow> indexer_error + unit"

type_synonym ('s, 'e, 'a) ejob = "'s \<Rightarrow> ('e + 'a) \<times> 's"

type_synonym ('s, 'a) sjob = "('s, indexer_error, 'a) ejob"

type_synonym 'a job = "(world, 'a) sjob"

section \<open>Jobs\<close>

definition returnj :: "'a \<Rightarrow> ('s, 'e, 'a) ejob" where
  "returnj x w = (Inr x, w)"

definition failj :: "'e \<Rightarrow> ('s, 'e, 'a) ejob" where
  "failj e w = (Inl e, w)"

text \<open>The \<open>?\<close> operator and a match on the result of a call.\<close>

definition bindj :: "('s, 'e, 'a) ejob \<Rightarrow> ('a \<Rightarrow> ('s, 'e, 'b) ejob) \<Rightarrow> ('s, 'e, 'b) ejob" where
  "bindj m k w = (case m w of (Inl e, w') \<Rightarrow> (Inl e, w') | (Inr x, w') \<Rightarrow> k x w')"

definition matchj :: "('s, 'e, 'a) ejob \<Rightarrow> ('e \<Rightarrow> ('s, 'e, 'b) ejob) \<Rightarrow> ('a \<Rightarrow> ('s, 'e, 'b) ejob) \<Rightarrow> ('s, 'e, 'b) ejob" where
  "matchj m h k w = (case m w of (Inl e, w') \<Rightarrow> h e w' | (Inr x, w') \<Rightarrow> k x w')"

definition liftj :: "'e + 'a \<Rightarrow> ('s, 'e, 'a) ejob" where
  "liftj r = (case r of Inl e \<Rightarrow> failj e | Inr x \<Rightarrow> returnj x)"

fun foldj :: "('a \<Rightarrow> 'b \<Rightarrow> ('s, 'e, 'b) ejob) \<Rightarrow> 'a list \<Rightarrow> 'b \<Rightarrow> ('s, 'e, 'b) ejob" where
  "foldj f [] b = returnj b"
| "foldj f (x # xs) b = bindj (f x b) (foldj f xs)"

definition await :: "upstream \<Rightarrow> world \<Rightarrow> world" where
  "await up w = (up_interfere up (w_tick w) w)\<lparr>w_tick := Suc (w_tick w)\<rparr>"

definition pause :: "upstream \<Rightarrow> unit job" where
  "pause up w = (Inr (), await up w)"

text \<open>A call of the chain reader, a read and a transaction of the store.\<close>

definition ask :: "upstream \<Rightarrow> (nat \<Rightarrow> chain_error + 'a) \<Rightarrow> 'a job" where
  "ask up f w = ((case f (w_tick w) of Inl e \<Rightarrow> Inl (IxChain e) | Inr x \<Rightarrow> Inr x), await up w)"

definition query :: "upstream \<Rightarrow> (store \<Rightarrow> store_error + 'a) \<Rightarrow> 'a job" where
  "query up q w0 = (let w = await up w0
     in ((case q (w_store w) of Inl e \<Rightarrow> Inl (IxStore e) | Inr x \<Rightarrow> Inr x), w))"

definition transact :: "upstream \<Rightarrow> (store \<Rightarrow> store_error + 'a \<times> store) \<Rightarrow> 'a job" where
  "transact up f w0 = (let w = await up w0; (r, s) = run f (w_store w)
     in ((case r of Inl e \<Rightarrow> Inl (IxStore e) | Inr x \<Rightarrow> Inr x), w\<lparr>w_store := s\<rparr>))"

definition send_modify :: "(progress \<Rightarrow> progress) \<Rightarrow> unit job" where
  "send_modify f w = (Inr (), w\<lparr>w_progress := f (w_progress w)\<rparr>)"

definition readw :: "(world \<Rightarrow> 'a) \<Rightarrow> 'a job" where
  "readw f w = (Inr (f w), w)"

section \<open>Helpers of the indexer\<close>

definition DOMAINS :: "indexable list" where
  "DOMAINS = [Winners, Difficulty, Participation, Authorship]"

definition SPARSE :: "indexable list" where
  "SPARSE = [Winners, Difficulty, Participation]"

definition PAGE_SIZE :: u32 where
  "PAGE_SIZE = 256"

definition store_coverage :: "indexable \<Rightarrow> store \<Rightarrow> store_error + coverage option" where
  "store_coverage i s = (case get_meta s (coverage_key i) of
       None \<Rightarrow> Inr None
     | Some (MetaCoverage c) \<Rightarrow> Inr (Some c)
     | Some _ \<Rightarrow> Inl (Json ''coverage''))"

definition check :: "commit_result \<Rightarrow> unit job" where
  "check r = (case r of Applied \<Rightarrow> returnj () | AlreadyApplied \<Rightarrow> returnj () | StaleGeneration \<Rightarrow> failj IxStale)"

fun fatal :: "indexer_error \<Rightarrow> bool" where
  "fatal (IxChain (ChGenesisMismatch a b)) = True"
| "fatal (IxStore NetworkIdentity) = True"
| "fatal (IxStore (ConflictingHistory h)) = True"
| "fatal (IxStore (Invalid m)) = True"
| "fatal (IxInvalid m) = True"
| "fatal _ = False"

definition report_error :: "indexer_error \<Rightarrow> unit job" where
  "report_error e w = (Inr (), w\<lparr>w_progress := (w_progress w)\<lparr>last_error := Some e, admitted := active (w_admission w)\<rparr>\<rparr>)"

definition committed_height_of :: "u64 option \<Rightarrow> u64 \<Rightarrow> u64" where
  "committed_height_of old h = (case old of None \<Rightarrow> h | Some p \<Rightarrow> max p h)"

definition note_committed :: "u64 \<Rightarrow> unit job" where
  "note_committed h w = (Inr (), w\<lparr>w_progress := (w_progress w)\<lparr>
     committed_height := Some (committed_height_of (committed_height (w_progress w)) h),
     admitted := active (w_admission w), last_error := None\<rparr>\<rparr>)"

definition decimal_text :: "string \<Rightarrow> indexer_error + decimal_string" where
  "decimal_text t = (case decimal_from_str t of Inl _ \<Rightarrow> Inl (IxInvalid ''decimal'') | Inr d \<Rightarrow> Inr d)"

definition iso_timestamp :: "upstream \<Rightarrow> u64 \<Rightarrow> indexer_error + string" where
  "iso_timestamp up seconds =
     (if 2 ^ 63 \<le> unat seconds then Inl (IxInvalid ''out of range integral type conversion attempted'')
      else ok_or (IxInvalid ''timestamp outside supported range'') (up_format_time up seconds))"

section \<open>A logic of store effects\<close>

text \<open>
  What a job does to the store, as a relation between the store before and after it that holds whatever
  happens at its awaits. The relation has to be reflexive and transitive; then it is enough that every
  transaction of a job and every interference keeps it.
\<close>

named_theorems keep_intros \<open>jobs that respect a store relation\<close>

locale store_relation =
  fixes R :: "store \<Rightarrow> store \<Rightarrow> bool"
  assumes R_refl: "R s s"
    and R_trans: "R s t \<Longrightarrow> R t u \<Longrightarrow> R s u"
begin

definition keeping :: "upstream \<Rightarrow> bool" where
  "keeping up \<longleftrightarrow> (\<forall>n w. R (w_store w) (w_store (up_interfere up n w)))"

definition keeps :: "'a job \<Rightarrow> bool" where
  "keeps m \<longleftrightarrow> (\<forall>w. R (w_store w) (w_store (snd (m w))))"

lemma keepsD: "keeps m \<Longrightarrow> R (w_store w) (w_store (snd (m w)))"
  by (simp add: keeps_def)

lemma keeps_returnj [keep_intros]: "keeps (returnj x)"
  and keeps_failj [keep_intros]: "keeps (failj e)"
  and keeps_send_modify [keep_intros]: "keeps (send_modify f)"
  and keeps_readw [keep_intros]: "keeps (readw g)"
  and keeps_report_error [keep_intros]: "keeps (report_error e)"
  and keeps_note_committed [keep_intros]: "keeps (note_committed h)"
  by (simp_all add: keeps_def R_refl returnj_def failj_def send_modify_def readw_def report_error_def note_committed_def)

lemma keeps_bindj [keep_intros]:
  assumes "keeps m" and "\<And>x. keeps (k x)"
  shows "keeps (bindj m k)"
  unfolding keeps_def
proof
  fix w
  obtain r w' where m: "m w = (r, w')" by (cases "m w")
  show "R (w_store w) (w_store (snd (bindj m k w)))"
    using keepsD [OF assms(1), of w] keepsD [OF assms(2)] m
    by (cases r) (auto simp: bindj_def intro: R_trans)
qed

lemma keeps_matchj [keep_intros]:
  assumes "keeps m" and "\<And>e. keeps (h e)" and "\<And>x. keeps (k x)"
  shows "keeps (matchj m h k)"
  unfolding keeps_def
proof
  fix w
  obtain r w' where m: "m w = (r, w')" by (cases "m w")
  show "R (w_store w) (w_store (snd (matchj m h k w)))"
    using keepsD [OF assms(1), of w] keepsD [OF assms(2)] keepsD [OF assms(3)] m
    by (cases r) (auto simp: matchj_def intro: R_trans)
qed

lemma keeps_liftj [keep_intros]: "keeps (liftj r)"
  by (cases r) (simp_all add: liftj_def keep_intros)

lemma keeps_check [keep_intros]: "keeps (check r)"
  by (cases r) (simp_all add: check_def keep_intros)

lemma keeps_foldj [keep_intros]: "(\<And>x b. keeps (f x b)) \<Longrightarrow> keeps (foldj f xs b)"
  by (induction xs arbitrary: b) (auto intro: keep_intros)

lemma keeps_if [keep_intros]:
  "(P \<Longrightarrow> keeps m) \<Longrightarrow> (\<not> P \<Longrightarrow> keeps n) \<Longrightarrow> keeps (if P then m else n)"
  by simp

lemma keeps_option [keep_intros]:
  "(x = None \<Longrightarrow> keeps m) \<Longrightarrow> (\<And>y. x = Some y \<Longrightarrow> keeps (k y)) \<Longrightarrow> keeps (case x of None \<Rightarrow> m | Some y \<Rightarrow> k y)"
  by (cases x) auto

lemma keeps_indexable [keep_intros]:
  "keeps a \<Longrightarrow> keeps b \<Longrightarrow> keeps c \<Longrightarrow> keeps d \<Longrightarrow>
     keeps (case i of Winners \<Rightarrow> a | Difficulty \<Rightarrow> b | Participation \<Rightarrow> c | Authorship \<Rightarrow> d)"
  by (cases i) auto

lemma keeps_await: "keeping up \<Longrightarrow> R (w_store w) (w_store (await up w))"
  by (simp add: keeping_def await_def)

lemma keeps_ask [keep_intros]: "keeping up \<Longrightarrow> keeps (ask up f)"
  and keeps_query [keep_intros]: "keeping up \<Longrightarrow> keeps (query up q)"
  and keeps_pause [keep_intros]: "keeping up \<Longrightarrow> keeps (pause up)"
  by (simp_all add: keeps_def ask_def query_def pause_def Let_def keeps_await)

lemma keeps_transact [keep_intros]:
  assumes "keeping up" and "\<And>s. R s (snd (run f s))"
  shows "keeps (transact up f)"
  unfolding keeps_def
proof
  fix w
  have "R (w_store (await up w)) (snd (run f (w_store (await up w))))" by (rule assms(2))
  with keeps_await [OF assms(1), of w]
  show "R (w_store w) (w_store (snd (transact up f w)))"
    by (auto simp: transact_def Let_def case_prod_beta intro: R_trans)
qed

end

text \<open>The transactions the block worker makes, and those the other workers add.\<close>

locale block_relation = store_relation +
  assumes R_commit_block: "decimal_wf (bc_height b) \<Longrightarrow> R s (snd (run (commit_block e b) s))"
    and R_mark_unavailable: "decimal_wf (ub_height u) \<Longrightarrow> R s (snd (run (mark_unavailable e g u) s))"
    and R_set_pruned_floor: "R s (snd (run (set_pruned_floor e gg floor) s))"

locale indexer_relation = block_relation +
  assumes R_begin_scan: "R s (snd (run (begin_scan sc) s))"
    and R_append_scan_page: "list_all decimal_wf hs \<Longrightarrow> R s (snd (run (append_scan_page sid ec nc hs) s))"
    and R_commit_range: "R s (snd (run (commit_range e rc) s))"
    and R_initialize_coverage: "R s (snd (run (initialize_coverage i n start) s))"
    and R_set_finalized_target: "R s (snd (run (set_finalized_target t) s))"

text \<open>Store histories are such a relation.\<close>

interpretation hist: indexer_relation "store_step\<^sup>*\<^sup>*"
  by unfold_locales
    (auto intro: rtranclp_trans store_step.intros simp: list_all_iff)

end
