(* ===== verification/Live_Worker.thy ===== *)
theory Live_Worker
  imports Jobs
begin

text \<open>
  Processing of one finalized block (\<open>indexer/live.rs\<close>): which domains still need it, decoding with
  retries, the records of each domain, the commit, and the paged participation.
\<close>

section \<open>Guards\<close>

definition skip_height :: "u64 \<Rightarrow> u64 \<Rightarrow> coverage \<Rightarrow> bool" where
  "skip_height gen h c \<longleftrightarrow> cov_gen c = gen
     \<and> (h < cov_start c \<or> (case pruned_floor c of None \<Rightarrow> False | Some floor \<Rightarrow> h \<le> floor) \<or> contains c h h)"

definition guard_step :: "upstream \<Rightarrow> u64 \<Rightarrow> bool \<Rightarrow> indexable \<Rightarrow> generation_guard list \<Rightarrow> generation_guard list job" where
  "guard_step up h with_authorship i acc =
     (if i = Authorship \<and> \<not> with_authorship then returnj acc
      else
      bindj (query up (\<lambda>s. Inr (generation s i))) (\<lambda>n.
      bindj (query up (store_coverage i)) (\<lambda>cov.
      if (case cov of None \<Rightarrow> False | Some c \<Rightarrow> skip_height n h c) then returnj acc
      else
      bindj (query up (\<lambda>s. Inr (is_unavailable s i n h))) (\<lambda>marked.
      returnj (if marked then acc else acc @ [\<lparr>guard_indexable = i, expected = n\<rparr>])))))"

definition guards :: "upstream \<Rightarrow> u64 \<Rightarrow> bool \<Rightarrow> generation_guard list job" where
  "guards up h with_authorship = foldj (guard_step up h with_authorship) DOMAINS []"

section \<open>Decoding with retries\<close>

definition raise_floor :: "upstream \<Rightarrow> u64 \<Rightarrow> generation_guard \<Rightarrow> unit \<Rightarrow> unit job" where
  "raise_floor up h g _ =
     bindj (query up (store_coverage (guard_indexable g))) (\<lambda>cov.
     bindj (transact up (set_pruned_floor (up_engine up) g
       (Some (decimal_of_u64 (case Option.bind cov pruned_floor of None \<Rightarrow> h | Some n \<Rightarrow> max n h))))) check)"

definition fetch_attempt :: "upstream \<Rightarrow> chain_hash \<Rightarrow> block_purpose \<Rightarrow> target \<Rightarrow> work_class \<Rightarrow> u64 \<Rightarrow> generation_guard list
    \<Rightarrow> (indexer_error \<Rightarrow> decoded_block option job) \<Rightarrow> decoded_block option job" where
  "fetch_attempt up hash purpose tg cls h gs retry =
     matchj (ask up (\<lambda>n. up_block up n hash purpose (tg_hash tg) cls))
       (\<lambda>e. case e of
          IxChain (ChPruned m) \<Rightarrow>
            bindj (foldj (raise_floor up h) gs ()) (\<lambda>_. bindj (report_error e) (\<lambda>_. returnj None))
        | _ \<Rightarrow> bindj (report_error e) (\<lambda>_. retry e))
       (\<lambda>b. returnj (Some b))"

text \<open>The argument counts the attempts that remain after this one.\<close>

primrec fetch_block :: "upstream \<Rightarrow> chain_hash \<Rightarrow> block_purpose \<Rightarrow> target \<Rightarrow> work_class \<Rightarrow> u64 \<Rightarrow> generation_guard list
    \<Rightarrow> nat \<Rightarrow> decoded_block option job" where
  "fetch_block up hash purpose tg cls h gs 0 = fetch_attempt up hash purpose tg cls h gs failj"
| "fetch_block up hash purpose tg cls h gs (Suc left) = fetch_attempt up hash purpose tg cls h gs
     (\<lambda>_. bindj (pause up) (\<lambda>_. fetch_block up hash purpose tg cls h gs left))"

definition lift_chain :: "chain_error + 'a \<Rightarrow> 'a job" where
  "lift_chain r = liftj (case r of Inl e \<Rightarrow> Inl (IxChain e) | Inr x \<Rightarrow> Inr x)"

definition decode_block :: "upstream \<Rightarrow> u64 \<Rightarrow> target \<Rightarrow> work_class \<Rightarrow> generation_guard list \<Rightarrow> decoded_block option job" where
  "decode_block up h tg cls gs =
     (let purpose = (if list_ex (\<lambda>g. guard_indexable g = Authorship) gs then block_purpose.Full else WinnerOnly)
      in bindj (ask up (\<lambda>n. up_block_hash up n h cls)) (\<lambda>found. case found of
           None \<Rightarrow> failj (IxInvalid (''missing finalized block '' @ unsigned_text h))
         | Some hash \<Rightarrow>
             bindj (fetch_block up hash purpose tg cls h gs 2) (\<lambda>decoded. case decoded of
               None \<Rightarrow> returnj None
             | Some b \<Rightarrow> bindj (lift_chain (header_height (db_header b))) (\<lambda>n.
                 if n \<noteq> h \<or> db_hash b \<noteq> hash
                 then failj (IxInvalid ''decoded finalized block identity differs from request'')
                 else returnj (Some b)))))"

section \<open>Records of a block\<close>

datatype 'a domain_result = Complete "'a option" | Unavailable unavailable_reason

definition milli_energy :: "int \<Rightarrow> f64" where
  "milli_energy v = f64_div (f64_of_int v) (f64_of_int 1000)"

definition milli_diversity :: "u32 \<Rightarrow> f64" where
  "milli_diversity n = f64_div (f64_of_int (uint n)) (f64_of_int 1000)"

definition mining_seconds :: "u64 option \<Rightarrow> u64 \<Rightarrow> f64" where
  "mining_seconds device spacing = (case device of
       None \<Rightarrow> f64_mul (f64_of_int (uint spacing)) (f64_of_int 6)
     | Some us \<Rightarrow> f64_div (f64_of_int (uint us)) (f64_of_int 1000000))"

definition matching_proof :: "block_events \<Rightarrow> block_winner_event \<Rightarrow> proof_accepted_event option" where
  "matching_proof ev wn = find (\<lambda>p. pe_miner p = we_miner wn \<and> pe_energy_milli p = we_energy_milli wn) (ev_proofs ev)"

definition zero_difficulty :: difficulty_info where
  "zero_difficulty = \<lparr>min_solutions = 0, max_energy_milli = 0, min_diversity_milli = 0\<rparr>"

definition positive_device :: "qblock_info option \<Rightarrow> u64 option" where
  "positive_device q = (case Option.bind q qi_device_access_time_us of
       None \<Rightarrow> None | Some n \<Rightarrow> if 0 < n then Some n else None)"

definition winner_record :: "decoded_block \<Rightarrow> block_winner_event \<Rightarrow> proof_accepted_event \<Rightarrow> decimal_string \<Rightarrow> decimal_string
    \<Rightarrow> u64 \<Rightarrow> chain_hash option \<Rightarrow> topology_summary option \<Rightarrow> block_record" where
  "winner_record b wn p reward nonce spacing topology_hash topology =
     (let ev = db_events b;
          diff = (case db_qblock b of None \<Rightarrow> zero_difficulty | Some q \<Rightarrow> qi_difficulty q);
          device = positive_device (db_qblock b)
      in \<lparr>br_block_hash = model_hash (db_hash b), br_substrate_block_number = decimal_of_u64 (ev_block_number ev),
          br_substrate_block_hash = model_hash (db_hash b),
          br_substrate_parent_hash = model_hash (parent_hash (db_header b)), br_timestamp = ev_timestamp ev,
          br_miner_id = we_miner wn, br_energy = milli_energy (we_energy_milli wn),
          br_diversity = milli_diversity (pe_diversity_milli p),
          br_num_valid_solutions = ucast (pe_valid_solution_count p), br_mining_time = mining_seconds device spacing,
          br_device_access_time_us = device, br_reward = reward, br_qblock_id = decimal_of_u64 (we_qblock_id wn),
          br_nonce = nonce, br_num_nodes = (case topology of None \<Rightarrow> 0 | Some t \<Rightarrow> ts_node_count t),
          br_num_edges = (case topology of None \<Rightarrow> 0 | Some t \<Rightarrow> ts_edge_count t),
          br_difficulty_energy = milli_energy (max_energy_milli diff),
          br_min_diversity = milli_diversity (min_diversity_milli diff), br_min_solutions = min_solutions diff,
          br_finalized = True, br_topology_hash = map_option model_hash topology_hash\<rparr>)"

definition winner_of :: "upstream \<Rightarrow> decoded_block \<Rightarrow> work_class \<Rightarrow> block_record domain_result job" where
  "winner_of up b cls = (case ev_winner (db_events b) of
       None \<Rightarrow> returnj (Complete None)
     | Some wn \<Rightarrow> (case db_qblock_error b of
         Some e \<Rightarrow> failj (IxChain e)
       | None \<Rightarrow> (case matching_proof (db_events b) wn of
           None \<Rightarrow> returnj (Complete None)
         | Some p \<Rightarrow> (case ev_nonce (db_events b) of
             None \<Rightarrow> returnj (Unavailable MissingRetainedNonce)
           | Some nonce \<Rightarrow>
               bindj (if ev_block_number (db_events b) = 0 then returnj 0
                      else ask up (\<lambda>n. up_last_proof_block up n (parent_hash (db_header b)) cls)) (\<lambda>previous.
               bindj (ask up (\<lambda>n. up_default_topology up n (db_hash b) cls)) (\<lambda>topology_hash.
               bindj (case topology_hash of
                        None \<Rightarrow> returnj None
                      | Some th \<Rightarrow> bindj (ask up (\<lambda>n. up_topology_summary up n (db_hash b) th cls)) (\<lambda>t. returnj (Some t))) (\<lambda>topology.
               bindj (liftj (decimal_text (we_reward wn))) (\<lambda>reward.
               bindj (liftj (decimal_text nonce)) (\<lambda>nonce.
               returnj (Complete (Some (winner_record b wn p reward nonce
                 (if 0 < previous then max (saturating_sub (ev_block_number (db_events b)) previous) 1 else 0)
                 topology_hash topology))))))))))))"

definition historical_difficulty :: "upstream \<Rightarrow> decoded_block \<Rightarrow> work_class \<Rightarrow> difficulty_record domain_result job" where
  "historical_difficulty up b cls =
     (if ev_winner (db_events b) = None then returnj (Complete None)
      else case db_qblock_error b of
        Some e \<Rightarrow> failj (IxChain e)
      | None \<Rightarrow> (case db_qblock b of
          None \<Rightarrow> returnj (Unavailable MissingRetainedDifficulty)
        | Some q \<Rightarrow>
            bindj (ask up (\<lambda>n. up_default_topology up n (db_hash b) cls)) (\<lambda>topology.
            bindj (liftj (iso_timestamp up (ev_timestamp (db_events b)))) (\<lambda>observed.
            returnj (Complete (Some \<lparr>dr_observed_at_block = decimal_of_u64 (ev_block_number (db_events b)),
              dr_difficulty_energy = milli_energy (max_energy_milli (qi_difficulty q)),
              dr_min_diversity = milli_diversity (min_diversity_milli (qi_difficulty q)),
              dr_min_solutions = min_solutions (qi_difficulty q), dr_observed_at = observed,
              dr_topology_hash = map_option model_hash topology, dr_source = BlockSource\<rparr>))))))"

definition mark_domain :: "upstream \<Rightarrow> decoded_block \<Rightarrow> generation_guard \<Rightarrow> unavailable_reason \<Rightarrow> unit job" where
  "mark_domain up b g reason =
     bindj (transact up (mark_unavailable (up_engine up) (model_hash (up_genesis up))
       \<lparr>ub_guard = g, ub_height = decimal_of_u64 (ev_block_number (db_events b)), ub_hash = model_hash (db_hash b),
        ub_enrichment_at = model_hash (db_enrichment_at b), ub_reason = reason\<rparr>)) check"

section \<open>Participation\<close>

definition participation_records :: "u64 \<Rightarrow> qblock_participant list \<Rightarrow> participation_record list" where
  "participation_records qid ps = map (\<lambda>p. \<lparr>pr_qblock_id = decimal_of_u64 qid, pr_account = qp_account p,
     pr_kind = qp_kind p, pr_budget_seconds = map_option (\<lambda>n. f64_of_int (uint n)) (qp_budget_seconds p),
     pr_block_number = decimal_of_u64 (qp_block_number p)\<rparr>) ps"

definition empty_records :: block_records where
  "empty_records = \<lparr>winner = None, difficulty = None, authorship = None, participation = []\<rparr>"

definition commit_page :: "upstream \<Rightarrow> decoded_block \<Rightarrow> generation_guard \<Rightarrow> participation_record list \<Rightarrow> bool \<Rightarrow> unit job" where
  "commit_page up b g records exhausted =
     bindj (transact up (commit_block (up_engine up) \<lparr>bc_genesis = model_hash (up_genesis up),
       bc_hash = model_hash (db_hash b), bc_height = decimal_of_u64 (ev_block_number (db_events b)), bc_guards = [g],
       bc_records = empty_records\<lparr>participation := records\<rparr>,
       bc_completed = (if exhausted then [Participation] else [])\<rparr>)) (\<lambda>r.
     bindj (check r) (\<lambda>_.
     bindj (pause up) (\<lambda>_.
     if exhausted then note_committed (ev_block_number (db_events b)) else pause up)))"

text \<open>
  The loop over the pages. It ends because every page that is not the last moves the cursor to a larger
  account: the accounts beyond the cursor are finitely many and become fewer.
\<close>

function participation_pages :: "upstream \<Rightarrow> decoded_block \<Rightarrow> generation_guard \<Rightarrow> work_class \<Rightarrow> u64
    \<Rightarrow> participant_cursor option \<Rightarrow> unit job" where
  "participation_pages up b g cls qid cursor w =
     (case participant_page (up_lib up) (up_participants up (w_tick w) (db_enrichment_at b) qid cls)
             (db_enrichment_at b) qid cursor PAGE_SIZE of
        Inl e \<Rightarrow> (Inl (IxChain e), await up w)
      | Inr page \<Rightarrow>
          (let w1 = await up w
           in if pp_at page \<noteq> db_enrichment_at b
                 \<or> (\<not> pp_exhausted page \<and> pp_continuation page = None)
                 \<or> (\<not> pp_exhausted page \<and> pp_continuation page = cursor)
              then (Inl (IxInvalid ''participant page failed to advance pinned cursor''), w1)
              else case commit_page up b g (participation_records qid (pp_participants page)) (pp_exhausted page) w1 of
                (Inl e, w2) \<Rightarrow> (Inl e, w2)
              | (Inr _, w2) \<Rightarrow>
                  if pp_exhausted page then (Inr (), w2)
                  else participation_pages up b g cls qid (pp_continuation page) w2))"
  by pat_completeness auto
termination
  by (relation "measure (\<lambda>(up, b, g, cls, qid, cursor, w). card (beyond cursor))")
    (auto dest: beyond_shrinks)

declare participation_pages.simps [simp del]

definition participation_of :: "upstream \<Rightarrow> decoded_block \<Rightarrow> generation_guard \<Rightarrow> work_class \<Rightarrow> unit job" where
  "participation_of up b g cls = (case ev_winner (db_events b) of
       None \<Rightarrow> commit_page up b g [] True
     | Some wn \<Rightarrow> participation_pages up b g cls (we_qblock_id wn) None)"

section \<open>A block\<close>

definition authorship_of :: "u64 \<Rightarrow> block_events \<Rightarrow> authorship_record option" where
  "authorship_of h ev = map_option (\<lambda>a. \<lparr>ar_account_id = a, ar_block_number = decimal_of_u64 h,
     ar_timestamp = ev_timestamp ev, ar_had_winner = (ev_winner ev \<noteq> None)\<rparr>) (ev_author ev)"

definition settle :: "upstream \<Rightarrow> decoded_block \<Rightarrow> generation_guard \<Rightarrow> 'a domain_result job
    \<Rightarrow> ('a option \<Rightarrow> block_records \<Rightarrow> block_records) \<Rightarrow> block_records \<times> indexable list \<Rightarrow> (block_records \<times> indexable list) job" where
  "settle up b g enrich put acc =
     matchj enrich (\<lambda>e. bindj (report_error e) (\<lambda>_. returnj acc))
       (\<lambda>r. case r of
          Complete x \<Rightarrow> returnj (put x (fst acc), snd acc @ [guard_indexable g])
        | Unavailable reason \<Rightarrow> bindj (mark_domain up b g reason) (\<lambda>_. returnj acc))"

definition collect_step :: "upstream \<Rightarrow> decoded_block \<Rightarrow> u64 \<Rightarrow> work_class \<Rightarrow> generation_guard
    \<Rightarrow> block_records \<times> indexable list \<Rightarrow> (block_records \<times> indexable list) job" where
  "collect_step up b h cls g acc = (case guard_indexable g of
       Winners \<Rightarrow> settle up b g (winner_of up b cls) (\<lambda>x r. r\<lparr>winner := x\<rparr>) acc
     | Difficulty \<Rightarrow> settle up b g (historical_difficulty up b cls) (\<lambda>x r. r\<lparr>difficulty := x\<rparr>) acc
     | Participation \<Rightarrow> returnj acc
     | Authorship \<Rightarrow> returnj ((fst acc)\<lparr>authorship := authorship_of h (db_events b)\<rparr>, snd acc @ [Authorship]))"

definition commit_collected :: "upstream \<Rightarrow> decoded_block \<Rightarrow> u64 \<Rightarrow> generation_guard list
    \<Rightarrow> block_records \<times> indexable list \<Rightarrow> unit job" where
  "commit_collected up b h gs acc =
     (if snd acc = [] then returnj ()
      else
      bindj (transact up (commit_block (up_engine up) \<lparr>bc_genesis = model_hash (up_genesis up),
        bc_hash = model_hash (db_hash b), bc_height = decimal_of_u64 h, bc_guards = gs,
        bc_records = fst acc, bc_completed = snd acc\<rparr>)) (\<lambda>r.
      bindj (check r) (\<lambda>_.
      bindj (pause up) (\<lambda>_. note_committed h))))"

text \<open>Errors of the chain reader are reported and the block stays uncovered; others end the worker.\<close>

definition tolerate_chain :: "unit job \<Rightarrow> unit job" where
  "tolerate_chain m = matchj m (\<lambda>e. case e of IxChain c \<Rightarrow> report_error e | _ \<Rightarrow> failj e) returnj"

definition refresh_changes :: "upstream \<Rightarrow> decoded_block \<Rightarrow> unit job" where
  "refresh_changes up b w = (up_refresh up (w_tick w) b, await up w)"

definition process :: "upstream \<Rightarrow> u64 \<Rightarrow> target \<Rightarrow> work_class \<Rightarrow> unit job" where
  "process up h tg cls =
     bindj (guards up h True) (\<lambda>gs.
     if gs = [] then returnj ()
     else
     bindj (decode_block up h tg cls gs) (\<lambda>decoded. case decoded of
       None \<Rightarrow> returnj ()
     | Some b \<Rightarrow>
         bindj (foldj (collect_step up b h cls) gs (empty_records, [])) (\<lambda>acc.
         bindj (commit_collected up b h gs acc) (\<lambda>_.
         bindj (case find (\<lambda>g. guard_indexable g = Participation) gs of
                  None \<Rightarrow> returnj ()
                | Some g \<Rightarrow> tolerate_chain (participation_of up b g cls)) (\<lambda>_.
         if cls = Live then tolerate_chain (refresh_changes up b) else returnj ())))))"

section \<open>Effects of processing\<close>

context block_relation
begin

lemmas block_transactions = R_commit_block R_mark_unavailable R_set_pruned_floor

lemma keeps_guards [keep_intros]: "keeping up \<Longrightarrow> keeps (guards up h a)"
  unfolding guards_def guard_step_def by (intro keep_intros)

lemma keeps_fetch_attempt [keep_intros]:
  "keeping up \<Longrightarrow> (\<And>e. keeps (retry e)) \<Longrightarrow> keeps (fetch_attempt up hash purpose tg cls h gs retry)"
  unfolding fetch_attempt_def raise_floor_def
  by (rule keeps_matchj)
    (auto split: indexer_error.split chain_error.split intro!: keep_intros block_transactions)

lemma keeps_fetch_block [keep_intros]: "keeping up \<Longrightarrow> keeps (fetch_block up hash purpose tg cls h gs n)"
  by (induction n) (auto intro!: keep_intros)

lemma keeps_decode_block [keep_intros]: "keeping up \<Longrightarrow> keeps (decode_block up h tg cls gs)"
  unfolding decode_block_def Let_def lift_chain_def by (intro keep_intros)

lemma keeps_winner_of [keep_intros]: "keeping up \<Longrightarrow> keeps (winner_of up b cls)"
  unfolding winner_of_def by (intro keep_intros)

lemma keeps_historical_difficulty [keep_intros]: "keeping up \<Longrightarrow> keeps (historical_difficulty up b cls)"
  unfolding historical_difficulty_def by (intro keep_intros)

lemma keeps_mark_domain [keep_intros]: "keeping up \<Longrightarrow> keeps (mark_domain up b g reason)"
  unfolding mark_domain_def by (intro keep_intros) (auto intro: block_transactions)

lemma keeps_commit_page [keep_intros]: "keeping up \<Longrightarrow> keeps (commit_page up b g records exhausted)"
  unfolding commit_page_def by (intro keep_intros) (auto intro: block_transactions)

lemma keeps_participation_pages: "keeping up \<Longrightarrow>
    R (w_store w) (w_store (snd (participation_pages up b g cls qid cursor w)))"
proof (induction up b g cls qid cursor w rule: participation_pages.induct)
  case (1 up b g cls qid cursor w)
  note aw = keeps_await [OF 1(2), of w]
  show ?case
  proof (cases "participant_page (up_lib up) (up_participants up (w_tick w) (db_enrichment_at b) qid cls)
      (db_enrichment_at b) qid cursor PAGE_SIZE")
    case (Inl e)
    then show ?thesis using aw by (subst participation_pages.simps) simp
  next
    case (Inr page)
    let ?records = "participation_records qid (pp_participants page)"
    obtain r w2 where c: "commit_page up b g ?records (pp_exhausted page) (await up w) = (r, w2)" by fastforce
    have w2: "R (w_store w) (w_store w2)"
      using aw keepsD [OF keeps_commit_page [OF 1(2), of b g ?records "pp_exhausted page"], of "await up w"] c
      by (auto intro: R_trans)
    have eq: "participation_pages up b g cls qid cursor w =
      (if pp_at page \<noteq> db_enrichment_at b \<or> (\<not> pp_exhausted page \<and> pp_continuation page = None)
          \<or> (\<not> pp_exhausted page \<and> pp_continuation page = cursor)
       then (Inl (IxInvalid ''participant page failed to advance pinned cursor''), await up w)
       else case r of Inl e \<Rightarrow> (Inl e, w2)
         | Inr _ \<Rightarrow> if pp_exhausted page then (Inr (), w2)
             else participation_pages up b g cls qid (pp_continuation page) w2)"
      using Inr c by (subst participation_pages.simps) (auto simp: Let_def split: sum.split)
    show ?thesis
      using 1(1) [OF Inr refl _ c [symmetric]] 1(2) aw w2
      unfolding eq by (auto split: sum.split intro: R_trans)
  qed
qed

lemma keeps_participation_of [keep_intros]: "keeping up \<Longrightarrow> keeps (participation_of up b g cls)"
  unfolding participation_of_def by (intro keep_intros) (auto simp: keeps_def intro: keeps_participation_pages)

lemma keeps_settle [keep_intros]: "keeping up \<Longrightarrow> keeps enrich \<Longrightarrow> keeps (settle up b g enrich put acc)"
  unfolding settle_def by (rule keeps_matchj) (auto split: domain_result.split intro!: keep_intros)

lemma keeps_collect_step [keep_intros]: "keeping up \<Longrightarrow> keeps (collect_step up b h cls g acc)"
  unfolding collect_step_def by (intro keep_intros)

lemma keeps_commit_collected [keep_intros]: "keeping up \<Longrightarrow> keeps (commit_collected up b h gs acc)"
  unfolding commit_collected_def by (intro keep_intros) (auto intro: block_transactions)

lemma keeps_tolerate_chain [keep_intros]: "keeps m \<Longrightarrow> keeps (tolerate_chain m)"
  unfolding tolerate_chain_def by (rule keeps_matchj) (auto split: indexer_error.split intro!: keep_intros)

lemma keeps_refresh_changes [keep_intros]: "keeping up \<Longrightarrow> keeps (refresh_changes up b)"
  by (simp add: keeps_def refresh_changes_def keeps_await)

lemma keeps_process [keep_intros]: "keeping up \<Longrightarrow> keeps (process up h tg cls)"
  unfolding process_def by (intro keep_intros)

end

end
