(* ===== verification/Backfill_Worker.thy ===== *)
theory Backfill_Worker
  imports Live_Worker
begin

text \<open>
  The backfill worker (\<open>indexer/backfill.rs\<close>) and the connection of the indexer (\<open>indexer/mod.rs\<close>):
  sparse replay from an exhausted scan, authorship backfill, initialization, head announcements and the
  reconnection loop. Sleeping and yielding are awaits.
\<close>

section \<open>Admission\<close>

definition admission_full :: indexer_error where
  "admission_full = IxInvalid ''indexer admission capacity exhausted''"

definition try_live :: "unit job" where
  "try_live w = (case claim (total (w_admission w)) (active (w_admission w)) of
       None \<Rightarrow> (Inl admission_full, w)
     | Some n \<Rightarrow> (Inr (), w\<lparr>w_admission := (w_admission w)\<lparr>active := n\<rparr>\<rparr>))"

definition try_backfill :: "unit job" where
  "try_backfill w = (let a = w_admission w
     in case claim (backfill a) (backfill_active a) of
          None \<Rightarrow> (Inl admission_full, w)
        | Some n \<Rightarrow> (case claim (total a) (active a) of
            None \<Rightarrow> (Inl admission_full, w\<lparr>w_admission := a\<lparr>backfill_active := n - 1\<rparr>\<rparr>)
          | Some m \<Rightarrow> (Inr (), w\<lparr>w_admission := a\<lparr>backfill_active := n, active := m\<rparr>\<rparr>)))"

definition drop_permit :: "bool \<Rightarrow> unit job" where
  "drop_permit bf w = (let a = w_admission w in (Inr (), w\<lparr>w_admission :=
     a\<lparr>active := active a - 1, backfill_active := (if bf then backfill_active a - 1 else backfill_active a)\<rparr>\<rparr>))"

definition show_admitted :: "unit job" where
  "show_admitted w = (Inr (), w\<lparr>w_progress := (w_progress w)\<lparr>admitted := active (w_admission w)\<rparr>\<rparr>)"

section \<open>Blocks\<close>

text \<open>The permit is dropped whatever the result, then the result is looked at.\<close>

definition with_permit :: "bool \<Rightarrow> unit job \<Rightarrow> unit job" where
  "with_permit bf m =
     bindj (if bf then try_backfill else try_live) (\<lambda>_.
     bindj show_admitted (\<lambda>_.
     matchj m (\<lambda>e. bindj (drop_permit bf) (\<lambda>_. bindj show_admitted (\<lambda>_. failj e)))
       (\<lambda>x. bindj (drop_permit bf) (\<lambda>_. bindj show_admitted (\<lambda>_. returnj x)))))"

definition backfill_block :: "upstream \<Rightarrow> u64 \<Rightarrow> target \<Rightarrow> unit job" where
  "backfill_block up h tg =
     bindj (pause up) (\<lambda>_.
     matchj (with_permit True (process up h tg Backfill))
       (\<lambda>e. case e of IxStale \<Rightarrow> returnj () | IxChain c \<Rightarrow> report_error e | _ \<Rightarrow> failj e)
       returnj)"

section \<open>Sparse replay\<close>

definition to_height :: "block_height \<Rightarrow> u64 job" where
  "to_height h = (case to_u64 h of Inl _ \<Rightarrow> failj (IxInvalid ''height exceeds u64'') | Inr n \<Rightarrow> returnj n)"

definition finish_range :: "upstream \<Rightarrow> scan \<Rightarrow> u64 \<Rightarrow> u64 \<Rightarrow> unit job" where
  "finish_range up sc f t =
     bindj (transact up (commit_range (up_engine up) \<lparr>rc_genesis = scan_genesis sc, rc_indexable = scan_indexable sc,
       rc_expected_generation = scan_expected_generation sc, rc_from = decimal_of_u64 f, rc_through = decimal_of_u64 t,
       rc_scan_id = scan_id sc\<rparr>)) (\<lambda>r. returnj ())"

definition enumerate_page :: "upstream \<Rightarrow> scan \<Rightarrow> bool job" where
  "enumerate_page up sc =
     bindj (query up (\<lambda>s. Inr (scan_progress_of (scan_id sc) s))) (\<lambda>found. case found of
       None \<Rightarrow> failj (IxInvalid ''persisted scan disappeared'')
     | Some pr \<Rightarrow>
         if progress_finished pr then returnj True
         else
         (let at = chain_hash_of (scan_at sc)
          in bindj (ask up (\<lambda>n. winner_page (up_lib up) (up_winner_lookup up n at) (up_winner_prefix up)
               (up_winner_keys up n at) (up_winner_metadata up n at) at
               (map_option (\<lambda>k. \<lparr>wc_at = at, wc_key = k\<rparr>) (progress_cursor pr)) PAGE_SIZE)) (\<lambda>page.
             if wp_at page \<noteq> at \<or> (\<not> wp_exhausted page \<and> wp_continuation page = None)
                \<or> (wp_exhausted page \<and> wp_continuation page \<noteq> None)
             then failj (IxInvalid ''winner page has inconsistent pinned exhaustion'')
             else
             bindj (transact up (append_scan_page (scan_id sc) (progress_cursor pr)
               (map_option wc_key (wp_continuation page)) (map decimal_of_u64 (wp_heights page)))) (\<lambda>r. returnj False))))"

text \<open>
  The loop over the discovered winners: \<open>cursor\<close> is the start of the range proven so far. The result
  \<open>None\<close> is an early return.
\<close>

fun replay :: "upstream \<Rightarrow> scan \<Rightarrow> u64 \<Rightarrow> target \<Rightarrow> block_height list \<Rightarrow> u64 option \<Rightarrow> u64 option
    \<Rightarrow> (u64 option \<times> u64 option) option job" where
  "replay up sc ceiling tg [] cursor lst = returnj (Some (cursor, lst))"
| "replay up sc ceiling tg (row # rows) cursor lst =
     bindj (to_height row) (\<lambda>h.
     if ceiling < h then returnj (Some (cursor, Some ceiling))
     else
     bindj (backfill_block up h tg) (\<lambda>_.
     bindj (query up (store_coverage (scan_indexable sc))) (\<lambda>current. case current of
       None \<Rightarrow> returnj None
     | Some c \<Rightarrow>
         if cov_gen c \<noteq> scan_expected_generation sc then returnj None
         else if contains c h h then replay up sc ceiling tg rows cursor (Some h)
         else
         bindj (case cursor of
                  None \<Rightarrow> returnj ()
                | Some start \<Rightarrow> if start < h then finish_range up sc start (h - 1) else returnj ()) (\<lambda>_.
         replay up sc ceiling tg rows (checked_add h 1) (Some h)))))"

fun first_retryable :: "upstream \<Rightarrow> indexable \<Rightarrow> u64 \<Rightarrow> (u64 \<times> u64) list \<Rightarrow> (u64 \<times> u64) option job" where
  "first_retryable up i gen [] = returnj None"
| "first_retryable up i gen ((f, t) # rs) =
     bindj (query up (\<lambda>s. retryable_range s i gen f t)) (\<lambda>r.
     case r of None \<Rightarrow> first_retryable up i gen rs | Some x \<Rightarrow> returnj (Some x))"

definition scan_text :: "upstream \<Rightarrow> indexable \<Rightarrow> u64 \<Rightarrow> chain_hash \<Rightarrow> string" where
  "scan_text up i gen at = indexable_name i @ '':'' @ unsigned_text gen @ '':0x'' @ hex_encode (up_lib up) (raw_bytes at)"

definition fresh_scan :: "upstream \<Rightarrow> indexable \<Rightarrow> u64 \<Rightarrow> target \<Rightarrow> scan" where
  "fresh_scan up i gen tg = \<lparr>scan_id = scan_text up i gen (tg_hash tg), scan_genesis = model_hash (up_genesis up),
     scan_at = model_hash (tg_hash tg), scan_finalized_height = decimal_of_u64 (tg_height tg), scan_indexable = i,
     scan_expected_generation = gen\<rparr>"

definition choose_scan :: "upstream \<Rightarrow> indexable \<Rightarrow> u64 \<Rightarrow> target \<Rightarrow> u64 \<Rightarrow> scan option \<Rightarrow> scan" where
  "choose_scan up i gen tg f old = (case old of
       None \<Rightarrow> fresh_scan up i gen tg
     | Some sc \<Rightarrow> (case to_u64 (scan_finalized_height sc) of
           Inl _ \<Rightarrow> fresh_scan up i gen tg
         | Inr n \<Rightarrow> if f \<le> n then sc else fresh_scan up i gen tg))"

definition replay_scan :: "upstream \<Rightarrow> scan \<Rightarrow> u64 \<Rightarrow> u64 \<Rightarrow> unit job" where
  "replay_scan up sc f t =
     bindj (to_height (scan_finalized_height sc)) (\<lambda>fh.
     bindj (query up (\<lambda>s. scan_winners s (scan_id sc) (map_option decimal_of_u64 (checked_sub f 1)) 16)) (\<lambda>rows.
     bindj (replay up sc (min fh t) \<lparr>tg_height = fh, tg_hash = chain_hash_of (scan_at sc)\<rparr> rows (Some f) None) (\<lambda>r. case r of
       None \<Rightarrow> returnj ()
     | Some (cursor, lst) \<Rightarrow>
         (case (cursor, if length rows < 16 then Some (min fh t) else lst) of
            (Some start, Some last_height) \<Rightarrow>
              if start \<le> last_height then finish_range up sc start last_height else returnj ()
          | _ \<Rightarrow> returnj ()))))"

definition sparse_chunk :: "upstream \<Rightarrow> indexable \<Rightarrow> target \<Rightarrow> unit job" where
  "sparse_chunk up i tg =
     bindj (query up (\<lambda>s. Inr (generation s i))) (\<lambda>gen.
     bindj (bindj (transact up (initialize_coverage i gen (decimal_of_u64 0))) check) (\<lambda>_.
     bindj (query up (store_coverage i)) (\<lambda>cov. case cov of
       None \<Rightarrow> returnj ()
     | Some c \<Rightarrow>
         bindj (first_retryable up i gen (uncovered c (tg_height tg))) (\<lambda>retryable. case retryable of
           None \<Rightarrow> returnj ()
         | Some (f, t) \<Rightarrow>
             bindj (query up (\<lambda>s. active_scan s i gen)) (\<lambda>old.
             (let sc = choose_scan up i gen tg f old
              in bindj (transact up (begin_scan sc)) (\<lambda>r.
                 if r = StaleGeneration then returnj ()
                 else
                 bindj (enumerate_page up sc) (\<lambda>ready.
                 if ready then replay_scan up sc f t else returnj ()))))))))"

section \<open>Rounds\<close>

definition backfill_target :: "upstream \<Rightarrow> target \<Rightarrow> target job" where
  "backfill_target up announced =
     bindj (query up finalized_target) (\<lambda>durable. case durable of
       None \<Rightarrow> returnj announced
     | Some row \<Rightarrow> bindj (to_height (rb_height row)) (\<lambda>n.
         returnj (if tg_height announced < n then \<lparr>tg_height = n, tg_hash = chain_hash_of (rb_hash row)\<rparr> else announced)))"

definition pending :: "u64 \<Rightarrow> coverage option \<Rightarrow> bool" where
  "pending head cov = (case cov of None \<Rightarrow> False
     | Some c \<Rightarrow> (case uncovered c head of [] \<Rightarrow> False | (f, _) # _ \<Rightarrow> f \<le> head))"

fun any_pending :: "upstream \<Rightarrow> u64 \<Rightarrow> indexable list \<Rightarrow> bool job" where
  "any_pending up head [] = returnj False"
| "any_pending up head (i # is) = bindj (query up (store_coverage i)) (\<lambda>cov.
     if pending head cov then returnj True else any_pending up head is)"

definition sync_gate_decision :: "upstream \<Rightarrow> u64 \<Rightarrow> bool job" where
  "sync_gate_decision up fin =
     bindj (ask up (up_sync_state up)) (\<lambda>sync w.
       (let best = (case best_height (w_progress w) of None \<Rightarrow> fin | Some b \<Rightarrow> b);
            (paused, runs) = evaluate \<lparr>gs_syncing = is_syncing sync, gs_finalized = fin, gs_best = best,
              gs_average_micros = sample_from_metrics (up_metrics up (w_tick w))\<rparr> (w_gate w)
        in (Inr paused, w\<lparr>w_gate := runs\<rparr>)))"

definition backfill_round :: "upstream \<Rightarrow> target \<Rightarrow> unit job" where
  "backfill_round up announced =
     bindj (backfill_target up announced) (\<lambda>tg.
     bindj (any_pending up (tg_height tg) [Authorship]) (\<lambda>has_authorship.
     bindj (any_pending up (tg_height tg) SPARSE) (\<lambda>has_sparse.
     bindj (if has_authorship \<or> has_sparse
            then matchj (sync_gate_decision up (tg_height tg)) (\<lambda>_. returnj True) returnj
            else returnj False) (\<lambda>paused.
     if paused then pause up
     else
     bindj (query up (store_coverage Authorship)) (\<lambda>cov.
     bindj (case cov of
              None \<Rightarrow> returnj ()
            | Some c \<Rightarrow> (case uncovered c (tg_height tg) of
                [] \<Rightarrow> returnj () | (f, _) # _ \<Rightarrow> backfill_block up f tg)) (\<lambda>_.
     bindj (foldj (\<lambda>i _. bindj (sparse_chunk up i tg) (\<lambda>_. pause up)) SPARSE ()) (\<lambda>_.
     pause up)))))))"

text \<open>The live worker returns an error at once: the permit is dropped, the progress is not refreshed.\<close>

definition live_round :: "upstream \<Rightarrow> target \<Rightarrow> unit job" where
  "live_round up tg =
     bindj try_live (\<lambda>_.
     bindj show_admitted (\<lambda>_.
     matchj (process up (tg_height tg) tg Live) (\<lambda>e. bindj (drop_permit False) (\<lambda>_. failj e))
       (\<lambda>_. bindj (drop_permit False) (\<lambda>_. bindj show_admitted (\<lambda>_. pause up)))))"

definition observe :: "upstream \<Rightarrow> target \<Rightarrow> unit job" where
  "observe up tg =
     bindj (send_modify (\<lambda>p. p\<lparr>finalized_height := Some (committed_height_of (finalized_height p) (tg_height tg))\<rparr>)) (\<lambda>_.
     bindj (transact up (set_finalized_target \<lparr>rb_height = decimal_of_u64 (tg_height tg), rb_hash = model_hash (tg_hash tg)\<rparr>)) check)"

definition initialize_domain :: "upstream \<Rightarrow> target \<Rightarrow> indexable \<Rightarrow> unit \<Rightarrow> unit job" where
  "initialize_domain up tg i _ =
     bindj (query up (\<lambda>s. Inr (generation s i))) (\<lambda>gen.
     bindj (bindj (transact up (initialize_coverage i gen
       (decimal_of_u64 (if i = Authorship then tg_height tg else 0)))) check) (\<lambda>_.
     bindj (transact up (set_pruned_floor (up_engine up) \<lparr>guard_indexable = i, expected = gen\<rparr> None)) check))"

definition initialize :: "upstream \<Rightarrow> target \<Rightarrow> unit job" where
  "initialize up tg =
     bindj (foldj (initialize_domain up tg) DOMAINS ()) (\<lambda>_.
     bindj (observe up tg) (\<lambda>_.
     bindj (query up (committed_target \<lparr>rb_height = decimal_of_u64 (tg_height tg), rb_hash = model_hash (tg_hash tg)\<rparr>)) (\<lambda>seen.
     if seen then note_committed (tg_height tg) else returnj ())))"

definition index_finalized :: "upstream \<Rightarrow> u64 \<Rightarrow> chain_hash \<Rightarrow> unit job" where
  "index_finalized up h at =
     bindj (ask up (up_finalized_head up)) (\<lambda>fin.
     bindj (ask up (\<lambda>n. up_header up n fin Live)) (\<lambda>hd.
     bindj (lift_chain (header_height hd)) (\<lambda>fin_height.
     bindj (ask up (\<lambda>n. up_header up n at Live)) (\<lambda>snap.
     bindj (lift_chain (header_height snap)) (\<lambda>snap_height.
     bindj (if snap_height < h \<or> fin_height < snap_height then returnj False
            else bindj (ask up (\<lambda>n. up_block_hash up n snap_height Live)) (\<lambda>x. returnj (x = Some at))) (\<lambda>canonical.
     if \<not> canonical then failj (IxInvalid ''replay requires a canonical finalized snapshot'')
     else with_permit False (process up h \<lparr>tg_height = snap_height, tg_hash = at\<rparr> Live)))))))"

text \<open>A finalized head: its hash is looked up, observed, and announced when it does not go back.\<close>

definition announce_finalized :: "upstream \<Rightarrow> header \<Rightarrow> target \<Rightarrow> target job" where
  "announce_finalized up head current =
     bindj (lift_chain (header_height head)) (\<lambda>h.
     bindj (ask up (\<lambda>n. up_block_hash up n h Live)) (\<lambda>found. case found of
       None \<Rightarrow> failj (IxInvalid ''announced finalized hash missing'')
     | Some hash \<Rightarrow> bindj (observe up \<lparr>tg_height = h, tg_hash = hash\<rparr>) (\<lambda>_.
         returnj (if tg_height current \<le> h then \<lparr>tg_height = h, tg_hash = hash\<rparr> else current))))"

definition announce_best :: "header \<Rightarrow> unit job" where
  "announce_best head = bindj (lift_chain (header_height head)) (\<lambda>h. send_modify (\<lambda>p. p\<lparr>best_height := Some h\<rparr>))"

section \<open>Reconnection\<close>

text \<open>
  \<open>run\<close> over the results of its connections, \<open>None\<close> for a cancellation: the value it returns, \<open>None\<close> while it
  still runs, and the pauses between connections in seconds.
\<close>

fun run_connections :: "nat \<Rightarrow> (indexer_error + unit) option list \<Rightarrow> (indexer_error + unit) option \<times> nat list" where
  "run_connections delay [] = (None, [])"
| "run_connections delay (None # rs) = (Some (Inr ()), [])"
| "run_connections delay (Some r # rs) =
     (if (case r of Inl e \<Rightarrow> fatal e | Inr _ \<Rightarrow> False) then (Some r, [])
      else (let (res, ds) = run_connections (min (delay * 2) 30) rs in (res, delay # ds)))"

section \<open>Effects of the workers\<close>

context block_relation
begin

lemma keeps_permits [keep_intros]: "keeps try_live" "keeps try_backfill" "keeps (drop_permit bf)" "keeps show_admitted"
  by (auto simp: keeps_def R_refl try_live_def try_backfill_def drop_permit_def show_admitted_def Let_def split: option.split)

lemma keeps_with_permit [keep_intros]: "keeps m \<Longrightarrow> keeps (with_permit bf m)"
  unfolding with_permit_def by (intro keep_intros)

lemma keeps_backfill_block [keep_intros]: "keeping up \<Longrightarrow> keeps (backfill_block up h tg)"
  unfolding backfill_block_def
  by (intro keeps_bindj keeps_matchj keep_intros) (auto split: indexer_error.split intro: keep_intros)

end

context indexer_relation
begin

lemmas indexer_transactions = R_commit_range R_begin_scan R_append_scan_page R_initialize_coverage R_set_finalized_target

lemma keeps_to_height [keep_intros]: "keeps (to_height h)"
  unfolding to_height_def by (auto split: sum.split intro: keep_intros)

lemma keeps_finish_range [keep_intros]: "keeping up \<Longrightarrow> keeps (finish_range up sc f t)"
  unfolding finish_range_def by (intro keep_intros) (auto intro: block_transactions indexer_transactions)

lemma keeps_enumerate_page [keep_intros]: "keeping up \<Longrightarrow> keeps (enumerate_page up sc)"
  unfolding enumerate_page_def Let_def by (intro keep_intros) (auto intro!: indexer_transactions simp: list_all_iff)

lemma keeps_replay [keep_intros]: "keeping up \<Longrightarrow> keeps (replay up sc ceiling tg rows cursor lst)"
  by (induction rows arbitrary: cursor lst) (auto intro!: keep_intros)

lemma keeps_first_retryable [keep_intros]: "keeping up \<Longrightarrow> keeps (first_retryable up i gen rs)"
  by (induction rs) (auto intro!: keep_intros)

lemma keeps_replay_scan [keep_intros]: "keeping up \<Longrightarrow> keeps (replay_scan up sc f t)"
  unfolding replay_scan_def
  by (intro keeps_bindj keeps_option) (auto split: option.split intro!: keep_intros)

lemma keeps_sparse_chunk [keep_intros]: "keeping up \<Longrightarrow> keeps (sparse_chunk up i tg)"
  unfolding sparse_chunk_def Let_def
  by (intro keeps_bindj keeps_option) (auto split: prod.split intro!: keep_intros indexer_transactions)

lemma keeps_any_pending [keep_intros]: "keeping up \<Longrightarrow> keeps (any_pending up head is)"
  by (induction "is") (auto intro!: keep_intros)

lemma keeps_sync_gate_decision [keep_intros]: "keeping up \<Longrightarrow> keeps (sync_gate_decision up fin)"
  unfolding sync_gate_decision_def by (intro keep_intros) (auto simp: keeps_def R_refl Let_def case_prod_beta)

lemma keeps_backfill_round [keep_intros]: "keeping up \<Longrightarrow> keeps (backfill_round up tg)"
  unfolding backfill_round_def backfill_target_def
  by (intro keep_intros) (auto split: list.split intro!: keep_intros)

lemma keeps_observe [keep_intros]: "keeping up \<Longrightarrow> keeps (observe up tg)"
  unfolding observe_def by (intro keep_intros) (auto intro: block_transactions indexer_transactions)

lemma keeps_initialize [keep_intros]: "keeping up \<Longrightarrow> keeps (initialize up tg)"
  unfolding initialize_def initialize_domain_def by (intro keep_intros) (auto intro: block_transactions indexer_transactions)

lemma keeps_lift_chain [keep_intros]: "keeps (lift_chain r)"
  unfolding lift_chain_def by (rule keeps_liftj)

lemma keeps_live_round [keep_intros]: "keeping up \<Longrightarrow> keeps (live_round up tg)"
  unfolding live_round_def by (intro keep_intros)

lemma keeps_index_finalized [keep_intros]: "keeping up \<Longrightarrow> keeps (index_finalized up h at)"
  unfolding index_finalized_def by (intro keep_intros)

lemma keeps_announce_finalized [keep_intros]: "keeping up \<Longrightarrow> keeps (announce_finalized up head current)"
  unfolding announce_finalized_def by (intro keep_intros)

lemma keeps_announce_best [keep_intros]: "keeps (announce_best head)"
  unfolding announce_best_def by (intro keep_intros)

end

end
