(* ===== verification/Replay.thy ===== *)
theory Replay
  imports Backfill_Worker Store_Props
begin

text \<open>
  One pass of the sparse replay when no other task interferes: the ranges it completes are exactly those
  the discovered winners leave provable.
\<close>

section \<open>Undisturbed jobs\<close>

definition quiet :: "upstream \<Rightarrow> bool" where
  "quiet up \<longleftrightarrow> (\<forall>n w. up_interfere up n w = w)"

lemma quiet_await: "quiet up \<Longrightarrow> w_store (await up w) = w_store w"
  by (simp add: quiet_def await_def)

lemma quiet_query:
  assumes "quiet up" and "q (w_store w) = Inr x"
  obtains w' where "query up q w = (Inr x, w')" and "w_store w' = w_store w"
  using assms by (auto simp: query_def Let_def quiet_await)

lemma quiet_transact:
  assumes "quiet up" and "f (w_store w) = Inr (r, s)"
  obtains w' where "transact up f w = (Inr r, w')" and "w_store w' = s"
  using assms by (auto simp: transact_def run_def Let_def quiet_await)

lemma bindj_simps:
  "m w = (Inr x, w') \<Longrightarrow> bindj m k w = k x w'"
  "m w = (Inl e, w') \<Longrightarrow> bindj m k w = (Inl e, w')"
  by (simp_all add: bindj_def)

section \<open>What a block leaves alone\<close>

text \<open>The start of a coverage survives every save of a block commit.\<close>

definition same_starts :: "store \<Rightarrow> store \<Rightarrow> bool" where
  "same_starts s s' \<longleftrightarrow> (\<forall>i c. get_meta s (coverage_key i) = Some (MetaCoverage c) \<longrightarrow>
     (\<exists>c'. get_meta s' (coverage_key i) = Some (MetaCoverage c') \<and> cov_start c' = cov_start c))"

lemma same_starts_trans: "same_starts s t \<Longrightarrow> same_starts t u \<Longrightarrow> same_starts s u"
  unfolding same_starts_def by metis

definition scan_frame :: "store \<Rightarrow> store \<Rightarrow> bool" where
  "scan_frame s s' \<longleftrightarrow> (store_inv s \<longrightarrow> store_inv s' \<and> writable s' = writable s \<and> scans s' = scans s
     \<and> scan_winner_rows s' = scan_winner_rows s \<and> generation s' = generation s
     \<and> get_meta s' ''dashboard.genesis'' = get_meta s ''dashboard.genesis''
     \<and> (\<forall>i. domain_points s i \<subseteq> domain_points s' i) \<and> same_starts s s')"

lemma scan_frame_refl: "scan_frame s s"
  by (auto simp: scan_frame_def same_starts_def)

lemma scan_frame_trans:
  assumes "scan_frame s t" and "scan_frame t u"
  shows "scan_frame s u"
proof (cases "store_inv s")
  case True
  then show ?thesis
    using assms same_starts_trans [of s t u] unfolding scan_frame_def by simp blast
qed (simp add: scan_frame_def)

lemma run_frame: "(\<And>r s'. store_inv s \<Longrightarrow> f s = Inr (r, s') \<Longrightarrow> scan_frame s s') \<Longrightarrow> scan_frame s (snd (run f s))"
  by (cases rule: run_cases [of f s]) (auto simp: scan_frame_def same_starts_def)

lemma same_starts_meta: "meta s' = meta s \<Longrightarrow> same_starts s s'"
  using get_meta_cong [of s' s] by (auto simp: same_starts_def)

lemma same_starts_save:
  assumes "cov_inv s" and "load_coverage s i n = Inr c" and "cov_start c' = cov_start c"
  shows "same_starts s (save_coverage i c' s)"
  by (rule load_coverage_sound [OF assms(1), of i n])
    (use assms(2,3) in \<open>auto simp: same_starts_def get_meta_save\<close>)

lemma complete_domain_starts:
  assumes "cov_inv s" and "complete_domain e n i (ch, s) = Inr (ch', s')"
  shows "same_starts s s'"
proof -
  from assms(2) obtain start c fresh c' where l: "load_coverage s i start = Inr c" "cover (now e) n n c = Inr (fresh, c')"
    and s': "s' = (if fresh then save_coverage i c' s else s)"
    by (auto simp: complete_domain_def rbind_Inr split: if_splits)
  have "sound_coverage (generation s i) c" using load_coverage_sound [OF assms(1), of i start] l(1) by auto
  from cover_sound(6) [OF this l(2)] show ?thesis
    using same_starts_save [OF assms(1) l(1)] same_starts_meta [of s s] s' by auto
qed

lemma complete_domains_starts:
  "cov_inv s \<Longrightarrow> rfold (complete_domain e n) is (ch, s) = Inr (ch', s') \<Longrightarrow> same_starts s s'"
proof (induction "is" arbitrary: s ch)
  case (Cons i "is")
  from Cons.prems(2) obtain ch1 s1 where 1: "complete_domain e n i (ch, s) = Inr (ch1, s1)"
    and 2: "rfold (complete_domain e n) is (ch1, s1) = Inr (ch', s')" by (auto simp: rbind_Inr)
  from Cons.IH [OF complete_domain_effect(1) [OF Cons.prems(1) 1] 2] complete_domain_starts [OF Cons.prems(1) 1]
  show ?case using same_starts_trans by blast
qed (simp add: same_starts_meta)

lemma commit_block_starts:
  assumes "cov_inv s" and "commit_block e b s = Inr (r, s')"
  shows "same_starts s s'"
  using assms(2)
proof (cases rule: commit_block_cases)
  case (committed guards n c0 s0 ch s1 s2)
  have w: "same_index s s0" using write_records_frame [OF committed(8)] by simp
  have f: "same_index s1 s2" by (rule cutover_recompute_frame [OF committed(10)])
  have "cov_inv s0" using assms(1) w cov_inv_cong [of s0 s] by (simp add: same_index_def)
  from complete_domains_starts [OF this committed(9)]
  show ?thesis
    using w f committed(12) same_starts_trans same_starts_meta
    by (metis record_finalized_fields(1) same_index_def)
qed (simp add: same_starts_meta)

lemma scan_frame_commit_block:
  assumes "store_inv s" and "commit_block e b s = Inr (r, s')"
  shows "scan_frame s s'"
proof (cases "r = StaleGeneration")
  case True
  with assms(2) have "s' = s" by (cases rule: commit_block_cases) (auto split: if_splits)
  then show ?thesis by (simp add: scan_frame_refl)
next
  case False
  have c: "cov_inv s" using assms(1) by (simp add: store_inv_def)
  have g: "\<And>j. ''dashboard.genesis'' \<noteq> coverage_key j" by (simp add: coverage_key_def)
  have "store_inv s'" by (rule commit_block_inv [OF assms])
  then show ?thesis
    using commit_block_starts [OF c assms(2)] g
    by (rule_tac commit_block_effect [OF c assms(2) False]) (simp add: scan_frame_def subset_insertI)
qed

lemma scan_frame_mark_unavailable:
  assumes "store_inv s" and "decimal_wf (ub_height u)" and "mark_unavailable e g u s = Inr (r, s')"
  shows "scan_frame s s'"
proof -
  have "store_inv s'" by (rule mark_unavailable_inv [OF assms])
  from assms(3) show ?thesis
  proof (cases rule: mark_unavailable_cases)
    case (marked n c)
    then have "meta s' = meta s" by simp
    then show ?thesis
      using marked(6) \<open>store_inv s'\<close> same_starts_meta [of s' s] get_meta_cong [of s' s] generation_cong [of s' s]
        domain_points_cong [of s' s]
      by (simp add: scan_frame_def)
  qed (simp add: scan_frame_refl)
qed

lemma scan_frame_set_pruned_floor:
  assumes "store_inv s" and "set_pruned_floor e g floor s = Inr (r, s')"
  shows "scan_frame s s'"
proof -
  have inv: "store_inv s'" and c: "cov_inv s" using set_pruned_floor_inv [OF assms] assms(1) by (auto simp: store_inv_def)
  from assms(2) show ?thesis
  proof (cases rule: set_pruned_floor_cases)
    case (floored c f)
    let ?c = "c\<lparr>pruned_floor := f, updated_at := Some (now e)\<rparr>"
    have "same_starts s s'" using same_starts_save [OF \<open>cov_inv s\<close> floored(3), of ?c] floored(4) by simp
    moreover have "covered c = domain_points s (guard_indexable g)"
      using load_coverage_sound [OF \<open>cov_inv s\<close>, of "guard_indexable g" 0] floored(3) by auto
    then have "domain_points s' = domain_points s"
      using floored(4) by (simp add: domain_points_save sound_coverage_floor)
    ultimately show ?thesis
      using inv floored(4) by (simp add: scan_frame_def get_meta_save coverage_key_def)
  qed (simp add: scan_frame_refl)
qed

interpretation blocks: block_relation scan_frame
proof unfold_locales
  show "scan_frame s (snd (run (commit_block e b) s))" for e b s
    by (rule run_frame) (rule scan_frame_commit_block)
  show "scan_frame s (snd (run (mark_unavailable e g u) s))" if "decimal_wf (ub_height u)" for e g u s
    using that by (intro run_frame) (rule scan_frame_mark_unavailable)
  show "scan_frame s (snd (run (set_pruned_floor e gg floor) s))" for e gg floor s
    by (rule run_frame) (rule scan_frame_set_pruned_floor)
qed (auto intro: scan_frame_refl scan_frame_trans)

lemma quiet_keeping: "quiet up \<Longrightarrow> blocks.keeping up"
  by (simp add: blocks.keeping_def quiet_def scan_frame_refl)

lemma backfill_block_frame:
  "quiet up \<Longrightarrow> scan_frame (w_store w) (w_store (snd (backfill_block up h tg w)))"
  using blocks.keepsD [OF blocks.keeps_backfill_block] quiet_keeping by blast

section \<open>Completing a range\<close>

text \<open>The winners a scan discovered, and a store in which its ranges can be completed.\<close>

definition winners_of :: "store \<Rightarrow> string \<Rightarrow> u64 set" where
  "winners_of s sid = {n. (sid, unsigned_text n) \<in> set (scan_winner_rows s)}"

definition scan_row_of :: "scan \<Rightarrow> u64 \<Rightarrow> scan_row \<Rightarrow> bool" where
  "scan_row_of sc fh row \<longleftrightarrow> sr_finished row \<and> sr_genesis row = hash_to_string (scan_genesis sc)
     \<and> sr_domain row = indexable_name (scan_indexable sc)
     \<and> sr_generation row = unsigned_text (scan_expected_generation sc)
     \<and> parse_unsigned (sr_finalized_height row) = Some fh"

definition replay_ready :: "scan \<Rightarrow> u64 \<Rightarrow> u64 \<Rightarrow> store \<Rightarrow> bool" where
  "replay_ready sc fh f s \<longleftrightarrow> store_inv s \<and> distinct (scan_winner_rows s) \<and> writable s \<and> network s (scan_genesis sc) = Inr ()
     \<and> scan_indexable sc \<noteq> Authorship \<and> generation s (scan_indexable sc) = scan_expected_generation sc
     \<and> (\<exists>row. map_of (scans s) (scan_id sc) = Some row \<and> scan_row_of sc fh row)
     \<and> (\<exists>c. get_meta s (coverage_key (scan_indexable sc)) = Some (MetaCoverage c) \<and> cov_start c \<le> f)"

lemma network_cong:
  "get_meta s' ''dashboard.genesis'' = get_meta s ''dashboard.genesis'' \<Longrightarrow> network s' g = network s g"
  by (simp add: network_def require_bound_def)

lemma replay_ready_frame:
  assumes "replay_ready sc fh f s" and "scan_frame s s'"
  shows "replay_ready sc fh f s' \<and> winners_of s' = winners_of s
    \<and> domain_points s (scan_indexable sc) \<subseteq> domain_points s' (scan_indexable sc)"
proof -
  have fr: "store_inv s'" "writable s' = writable s" "scans s' = scans s" "scan_winner_rows s' = scan_winner_rows s"
    "generation s' = generation s" "get_meta s' ''dashboard.genesis'' = get_meta s ''dashboard.genesis''"
    "\<And>i. domain_points s i \<subseteq> domain_points s' i" "same_starts s s'"
    using assms by (auto simp: scan_frame_def replay_ready_def)
  show ?thesis
    using assms(1) fr network_cong [OF fr(6)]
    unfolding replay_ready_def same_starts_def winners_of_def by (auto simp: fun_eq_iff) metis
qed

lemma check_winner_text:
  "check_winner c a b (unsigned_text n) = Inr () \<longleftrightarrow> (a \<le> n \<and> n \<le> b \<longrightarrow> n \<in> covered c)"
  by (simp add: check_winner_def covered_def)

lemma finish_range_completes:
  assumes "quiet up" and "replay_ready sc fh f (w_store w)" and "f \<le> a" and "a \<le> b" and "b \<le> fh"
    and "\<forall>n\<in>winners_of (w_store w) (scan_id sc). a \<le> n \<and> n \<le> b \<longrightarrow> n \<in> domain_points (w_store w) (scan_indexable sc)"
  obtains w' where "finish_range up sc a b w = (Inr (), w')" and "replay_ready sc fh f (w_store w')"
    and "winners_of (w_store w') = winners_of (w_store w)"
    and "domain_points (w_store w') (scan_indexable sc) = domain_points (w_store w) (scan_indexable sc) \<union> {a..b}"
proof -
  let ?s = "w_store w" and ?i = "scan_indexable sc"
  let ?rc = "\<lparr>rc_genesis = scan_genesis sc, rc_indexable = ?i, rc_expected_generation = scan_expected_generation sc,
    rc_from = decimal_of_u64 a, rc_through = decimal_of_u64 b, rc_scan_id = scan_id sc\<rparr>"
  have inv: "store_inv ?s" "cov_inv ?s" using assms(2) by (auto simp: replay_ready_def store_inv_def)
  obtain row c0 where row: "map_of (scans ?s) (scan_id sc) = Some row" "scan_row_of sc fh row"
    and c0: "get_meta ?s (coverage_key ?i) = Some (MetaCoverage c0)" "cov_start c0 \<le> f"
    using assms(2) by (auto simp: replay_ready_def)
  obtain c where c: "load_coverage ?s ?i 0 = Inr c" "sound_coverage (generation ?s ?i) c" "covered c = domain_points ?s ?i"
    "c = c0"
    using load_coverage_sound [OF inv(2), of ?i 0] c0(1) by auto
  let ?texts = "map snd (filter (\<lambda>(sid, _). sid = scan_id sc) (scan_winner_rows ?s))"
  have "check_winner c a b h = Inr ()" if h: "h \<in> set ?texts" for h
  proof -
    obtain n :: u64 where n: "h = unsigned_text n" "(scan_id sc, h) \<in> set (scan_winner_rows ?s)"
      using h inv(1) by (fastforce simp: store_inv_def)
    then have "n \<in> winners_of ?s (scan_id sc)" by (simp add: winners_of_def)
    then show ?thesis using assms(6) c(3) by (simp add: n(1) check_winner_text)
  qed
  then have pages: "check_pages c a b (ordered_heights ?texts) = Inr ()"
    unfolding check_pages_all by (simp add: ordered_heights_def)
  have wf: "coverage_wf c" using c(2) by (simp add: sound_coverage_def)
  have "cov_start c \<le> a" using c(4) c0(2) assms(3) by simp
  from cover_union [OF wf assms(4) this, of "now (up_engine up)"] obtain ch c' where
    cv: "cover (now (up_engine up)) a b c = Inr (ch, c')" "cov_start c' = cov_start c" by metis
  let ?s' = "if ch then save_coverage ?i c' ?s else ?s"
  let ?r = "if ch then Applied else AlreadyApplied"
  have run: "commit_range (up_engine up) ?rc ?s = Inr (?r, ?s')"
    using assms(2,4,5) row c(1) pages cv(1)
    by (simp add: commit_range_def ensure_writable_def replay_ready_def scan_row_of_def not_less del: split_paired_Ex)
  obtain w1 where w1: "transact up (commit_range (up_engine up) ?rc) w = (Inr ?r, w1)" "w_store w1 = ?s'"
    using quiet_transact [OF assms(1), of "commit_range (up_engine up) ?rc" w, OF run] by blast
  have pts: "domain_points ?s' = (domain_points ?s)(?i := domain_points ?s ?i \<union> {a..b})"
    by (rule cover_save(2) [OF inv(2) c(1) cv(1) refl])
  have starts: "same_starts ?s ?s'"
    using same_starts_save [OF inv(2) c(1) cv(2)] same_starts_meta [of ?s ?s] by auto
  have "scan_frame ?s ?s'"
    using commit_range_inv [OF inv(1) run] starts pts
    by (auto simp: scan_frame_def get_meta_save coverage_key_def)
  with replay_ready_frame [OF assms(2)] have "replay_ready sc fh f ?s'" "winners_of ?s' = winners_of ?s" by blast+
  moreover have "finish_range up sc a b w = (Inr (), w1)"
    using w1(1) by (simp add: finish_range_def bindj_def returnj_def)
  ultimately show thesis using that [of w1] w1(2) pts by simp
qed

section \<open>The rows of a page\<close>

lemma text_order:
  "(length (unsigned_text (a :: u64)), unsigned_text a) \<le> (length (unsigned_text b), unsigned_text b) \<Longrightarrow> a \<le> b"
  using decimal_gt_text [of a b] by (auto simp: decimal_gt_def not_less)

lemma scan_winners_rows:
  assumes "store_inv s" and "distinct (scan_winner_rows s)"
  obtains ns where "scan_winners s sid (map_option decimal_of_u64 (checked_sub f 1)) 16 = Inr (map decimal_of_u64 ns)"
    and "sorted_wrt (<) ns" and "length ns \<le> 16" and "\<And>n. n \<in> set ns \<Longrightarrow> n \<in> winners_of s sid \<and> f \<le> n"
    and "\<And>n. n \<in> winners_of s sid \<Longrightarrow> f \<le> n \<Longrightarrow> n \<notin> set ns \<Longrightarrow> length ns = 16 \<and> (\<forall>m\<in>set ns. m < n)"
proof -
  let ?after = "map_option decimal_of_u64 (checked_sub f 1)"
  define okf where "okf = (\<lambda>h. case ?after of None \<Rightarrow> True | Some a \<Rightarrow> decimal_gt h (as_str a))"
  let ?texts = "map snd (filter (\<lambda>(x, _). x = sid) (scan_winner_rows s))"
  let ?sorted = "ordered_heights (filter okf ?texts)"
  have ok: "okf (unsigned_text n) \<longleftrightarrow> f \<le> n" for n :: u64
  proof (cases "f = 0")
    case False
    then have "0 < f" by (simp add: word_gt_0)
    then have "f - 1 < n \<longleftrightarrow> f \<le> n" by (rule word_sub1_less)
    moreover have "checked_sub f 1 = Some (f - 1)"
      using \<open>0 < f\<close> by (simp add: checked_sub_def word_le_nat_alt word_less_nat_alt)
    ultimately show ?thesis by (simp add: okf_def decimal_of_u64_def decimal_gt_text)
  qed (simp add: checked_sub_def okf_def)
  have texts: "\<forall>x\<in>set (scan_winner_rows s). \<exists>n :: u64. snd x = unsigned_text n"
    using assms(1) unfolding store_inv_def by blast
  have "set ?sorted \<subseteq> snd ` set (scan_winner_rows s)" unfolding ordered_heights_def set_sort set_filter set_map by blast
  then have "\<forall>h\<in>set ?sorted. \<exists>n :: u64. h = unsigned_text n" using texts by blast
  then obtain N :: "u64 list" where N: "?sorted = map unsigned_text N" by (auto simp only: ex_map_conv [symmetric])
  have mem: "n \<in> set N \<longleftrightarrow> n \<in> winners_of s sid \<and> f \<le> n" for n
  proof -
    have "n \<in> set N \<longleftrightarrow> unsigned_text n \<in> set ?sorted" unfolding N by (auto simp: unsigned_text_inj)
    also have "\<dots> \<longleftrightarrow> (sid, unsigned_text n) \<in> set (scan_winner_rows s) \<and> okf (unsigned_text n)"
      unfolding ordered_heights_def set_sort set_filter set_map by force
    finally show ?thesis by (simp only: winners_of_def ok mem_Collect_eq)
  qed
  have "sorted (map (\<lambda>h. (length h, h)) ?sorted)" by (simp add: ordered_heights_def)
  then have "sorted N" unfolding N by (auto simp: sorted_wrt_map elim!: sorted_wrt_mono_rel [rotated] intro: text_order)
  moreover have "inj_on snd {x \<in> set (scan_winner_rows s). fst x = sid}" by (auto simp: inj_on_def)
  then have "distinct ?sorted"
    using assms(2) by (simp add: ordered_heights_def distinct_map case_prod_beta')
  then have "distinct N" unfolding N by (simp add: distinct_map)
  ultimately have strict: "sorted_wrt (<) N" by (simp add: strict_sorted_iff)
  let ?ns = "take 16 N"
  have parse: "decimal_from_str (unsigned_text n) = Inr (DecimalString (unsigned_text n))" for n :: u64
    by (simp add: decimal_from_str_ok)
  have "rmap_list (\<lambda>h. case decimal_from_str h of Inl _ \<Rightarrow> Inl IncompleteScan | Inr d \<Rightarrow> Inr d) (map unsigned_text ?ns)
      = Inr (map decimal_of_u64 ?ns)"
    by (subst rmap_list_total [where g = DecimalString])
      (auto simp: parse decimal_of_u64_def)
  then have eq: "scan_winners s sid ?after 16 = Inr (map decimal_of_u64 ?ns)"
    by (simp only: scan_winners_def okf_def [symmetric] N take_map min.absorb1 Num.numeral_le_iff num.simps le_num_simps)
  show thesis
  proof (rule that [OF eq])
    show "sorted_wrt (<) ?ns" using strict by (rule sorted_wrt_take)
    show "length ?ns \<le> 16" by simp
    show "n \<in> winners_of s sid \<and> f \<le> n" if "n \<in> set ?ns" for n using that mem in_set_takeD by metis
    show "length ?ns = 16 \<and> (\<forall>m\<in>set ?ns. m < n)" if "n \<in> winners_of s sid" "f \<le> n" "n \<notin> set ?ns" for n
    proof -
      have n: "n \<in> set N" using that mem by simp
      then have "n \<in> set (drop 16 N)" using that(3) by (metis Un_iff append_take_drop_id set_append)
      moreover have "sorted_wrt (<) (take 16 N @ drop 16 N)" using strict by simp
      ultimately show ?thesis unfolding sorted_wrt_append by (auto dest: length_pos_if_in_set)
    qed
  qed
qed

section \<open>The loop\<close>

text \<open>
  Between two rows: the heights below the cursor are settled, and every winner from the cursor on is
  completed or still ahead.
\<close>

definition below_cursor :: "u64 \<Rightarrow> u64 option \<Rightarrow> bool" where
  "below_cursor z cursor \<longleftrightarrow> (case cursor of None \<Rightarrow> True | Some c \<Rightarrow> z < c)"

definition replaying :: "scan \<Rightarrow> u64 \<Rightarrow> u64 option \<Rightarrow> u64 set \<Rightarrow> store \<Rightarrow> bool" where
  "replaying sc f cursor ahead s \<longleftrightarrow> (\<forall>c. cursor = Some c \<longrightarrow> f \<le> c)
     \<and> (\<forall>z. f \<le> z \<and> below_cursor z cursor \<longrightarrow> z \<in> domain_points s (scan_indexable sc) \<or> z \<in> winners_of s (scan_id sc))
     \<and> (\<forall>n\<in>winners_of s (scan_id sc). below_cursor n cursor \<or> n \<in> domain_points s (scan_indexable sc) \<or> n \<in> ahead)"

lemma replaying_mono:
  "replaying sc f cursor A s \<Longrightarrow> winners_of s' = winners_of s \<Longrightarrow>
     domain_points s (scan_indexable sc) \<subseteq> domain_points s' (scan_indexable sc) \<Longrightarrow> replaying sc f cursor A s'"
  unfolding replaying_def by (simp add: subset_iff) blast

lemma below_checked_add: "below_cursor z (checked_add h 1) \<longleftrightarrow> z \<le> h"
proof (cases "checked_add h 1")
  case None
  then have "h = max_word" by (simp add: checked_add1_None)
  with None show ?thesis by (simp add: below_cursor_def)
next
  case (Some x)
  then have "h < max_word" "x = h + 1" by (simp_all add: checked_add1_Some)
  with Some show ?thesis using word_less_add1 [of h max_word z] by (simp add: below_cursor_def)
qed

lemma replaying_done:
  "replaying sc f cursor (insert h A) s \<Longrightarrow> h \<in> domain_points s (scan_indexable sc) \<Longrightarrow> replaying sc f cursor A s"
  by (auto simp: replaying_def)

text \<open>After a row that was not completed the cursor moves behind it; the row itself is a winner.\<close>

lemma replaying_skip:
  assumes "replaying sc f cursor (insert h A) s" and "f \<le> h" and "h \<in> winners_of s (scan_id sc)"
    and "\<not> below_cursor h cursor"
    and "\<And>c. cursor = Some c \<Longrightarrow> c < h \<Longrightarrow> {c..h - 1} \<subseteq> domain_points s (scan_indexable sc)"
  shows "replaying sc f (checked_add h 1) A s"
proof -
  obtain c where c: "cursor = Some c" "c \<le> h" using assms(4) by (cases cursor) (auto simp: below_cursor_def)
  have "z \<in> domain_points s (scan_indexable sc) \<or> z \<in> winners_of s (scan_id sc)" if z: "f \<le> z" "z \<le> h" for z
  proof -
    consider "z = h" | "z < c" | "c \<le> z" "z < h" using z(2) by fastforce
    then show ?thesis
    proof cases
      case 3
      then have "c < h" "z \<le> h - 1" by (simp_all add: word_le_sub1_iff)
      then show ?thesis using 3(1) assms(5) [OF c(1)] by auto
    qed (use assms(1,3) z c(1) in \<open>auto simp: replaying_def below_cursor_def\<close>)
  qed
  moreover have "f \<le> x" if "checked_add h 1 = Some x" for x
    using that assms(2) word_less_succ [of h max_word] by (auto simp: checked_add1_Some)
  ultimately show ?thesis
    using assms(1) c unfolding replaying_def below_checked_add by (auto simp: below_cursor_def)
qed

text \<open>A range from the cursor up to a height no winner ahead has.\<close>

lemma finish_range_replaying:
  assumes "quiet up" and "replay_ready sc fh f (w_store w)" and "replaying sc f (Some c) A (w_store w)"
    and "c \<le> b" and "b \<le> fh" and "\<And>n. n \<in> A \<Longrightarrow> b < n"
  obtains w' where "finish_range up sc c b w = (Inr (), w')" and "replay_ready sc fh f (w_store w')"
    and "winners_of (w_store w') = winners_of (w_store w)" and "replaying sc f (Some c) A (w_store w')"
    and "{c..b} \<subseteq> domain_points (w_store w') (scan_indexable sc)"
proof -
  have "f \<le> c" using assms(3) by (simp add: replaying_def)
  moreover have "\<forall>n\<in>winners_of (w_store w) (scan_id sc). c \<le> n \<and> n \<le> b \<longrightarrow> n \<in> domain_points (w_store w) (scan_indexable sc)"
    using assms(3,6) by (fastforce simp: replaying_def below_cursor_def)
  ultimately obtain w' where w': "finish_range up sc c b w = (Inr (), w')" "replay_ready sc fh f (w_store w')"
    "winners_of (w_store w') = winners_of (w_store w)"
    "domain_points (w_store w') (scan_indexable sc) = domain_points (w_store w) (scan_indexable sc) \<union> {c..b}"
    using finish_range_completes [OF assms(1,2) _ assms(4,5)] by blast
  then show thesis using that replaying_mono [OF assms(3) w'(3)] by blast
qed

lemma coverage_read:
  assumes "quiet up" and "replay_ready sc fh f (w_store w)"
  obtains c w' where "query up (store_coverage (scan_indexable sc)) w = (Inr (Some c), w')" and "w_store w' = w_store w"
    and "cov_gen c = scan_expected_generation sc"
    and "\<And>h. contains c h h \<longleftrightarrow> h \<in> domain_points (w_store w) (scan_indexable sc)"
proof -
  let ?i = "scan_indexable sc"
  have inv: "cov_inv (w_store w)" and ex: "get_meta (w_store w) (coverage_key ?i) \<noteq> None"
    and gen: "generation (w_store w) ?i = scan_expected_generation sc"
    using assms(2) by (auto simp: replay_ready_def store_inv_def)
  obtain c where c: "sound_coverage (generation (w_store w) ?i) c" "covered c = domain_points (w_store w) ?i"
    "get_meta (w_store w) (coverage_key ?i) = Some (MetaCoverage c)"
    using load_coverage_sound [OF inv, of ?i 0] ex by metis
  then have "store_coverage ?i (w_store w) = Inr (Some c)" by (simp add: store_coverage_def)
  from quiet_query [OF assms(1), of "store_coverage ?i" w, OF this] obtain w' where
    "query up (store_coverage ?i) w = (Inr (Some c), w')" "w_store w' = w_store w" .
  moreover have "cov_gen c = scan_expected_generation sc" using c(1) gen by (simp add: sound_coverage_def)
  moreover have "contains c h h \<longleftrightarrow> h \<in> domain_points (w_store w) ?i" for h using c(2) by (auto simp: covered_def)
  ultimately show thesis by (rule that)
qed

text \<open>One row below the ceiling, the rest of the loop left open.\<close>

definition loop_ok :: "upstream \<Rightarrow> scan \<Rightarrow> u64 \<Rightarrow> u64 \<Rightarrow> store \<Rightarrow> u64 option \<Rightarrow> u64 set \<Rightarrow> world \<Rightarrow> bool" where
  "loop_ok up sc fh f s0 cursor ahead w \<longleftrightarrow> replay_ready sc fh f (w_store w) \<and> winners_of (w_store w) = winners_of s0
     \<and> replaying sc f cursor ahead (w_store w)"

definition block_fails :: "upstream \<Rightarrow> target \<Rightarrow> indexer_error \<Rightarrow> bool" where
  "block_fails up tg e \<longleftrightarrow> (\<exists>h w. fst (backfill_block up h tg w) = Inl e)"

lemma replay_row:
  assumes "quiet up" and "loop_ok up sc fh f s0 cursor (insert h A) w" and "h \<le> ceiling" and "ceiling \<le> fh"
    and "f \<le> h" and "h \<in> winners_of s0 (scan_id sc)" and "\<not> below_cursor h cursor" and "\<And>n. n \<in> A \<Longrightarrow> h < n"
  shows "(\<exists>e. fst (replay up sc ceiling tg (decimal_of_u64 h # rows) cursor lst w) = Inl e \<and> block_fails up tg e)
    \<or> (\<exists>cursor' w'. replay up sc ceiling tg (decimal_of_u64 h # rows) cursor lst w
           = replay up sc ceiling tg rows cursor' (Some h) w'
         \<and> loop_ok up sc fh f s0 cursor' A w' \<and> (cursor' = cursor \<or> cursor' = checked_add h 1))"
proof -
  have hgt: "to_height (decimal_of_u64 h) = returnj h" by (simp add: to_height_def)
  obtain r w1 where w1: "backfill_block up h tg w = (r, w1)" by fastforce
  have "scan_frame (w_store w) (w_store w1)" using backfill_block_frame [OF assms(1), of w h tg] w1 by simp
  with assms(2) replay_ready_frame have ok1: "loop_ok up sc fh f s0 cursor (insert h A) w1"
    unfolding loop_ok_def by (metis replaying_mono)
  show ?thesis
  proof (cases r)
    case (Inl e)
    then have "block_fails up tg e" using w1 unfolding block_fails_def by (intro exI [of _ h] exI [of _ w]) simp
    then show ?thesis using w1 Inl assms(3) by (simp add: hgt bindj_def returnj_def leD)
  next
    case (Inr u)
    obtain c w2 where c: "query up (store_coverage (scan_indexable sc)) w1 = (Inr (Some c), w2)" "w_store w2 = w_store w1"
      "cov_gen c = scan_expected_generation sc" "contains c h h \<longleftrightarrow> h \<in> domain_points (w_store w1) (scan_indexable sc)"
      using coverage_read [OF assms(1), of sc fh f w1] ok1 by (metis loop_ok_def)
    have ok2: "loop_ok up sc fh f s0 cursor (insert h A) w2" using ok1 c(2) by (simp add: loop_ok_def)
    note run = w1 [unfolded Inr] c(1,3) hgt bindj_def returnj_def leD [OF assms(3)]
    show ?thesis
    proof (cases "contains c h h")
      case True
      then have "loop_ok up sc fh f s0 cursor A w2" using ok2 c(2,4) replaying_done by (auto simp: loop_ok_def)
      then show ?thesis using True by (intro disjI2 exI [of _ cursor] exI [of _ w2]) (simp add: run)
    next
      case False
      obtain st where st: "cursor = Some st" "st \<le> h" using assms(7) by (cases cursor) (auto simp: below_cursor_def)
      show ?thesis
      proof (cases "st < h")
        case True
        have "h - 1 \<le> fh" "st \<le> h - 1" "\<And>n. n \<in> insert h A \<Longrightarrow> h - 1 < n"
          using True assms(3,4,8) word_pred_less [OF True] by (auto simp: word_le_sub1_iff intro: order.strict_trans)
        then obtain w3 where w3: "finish_range up sc st (h - 1) w2 = (Inr (), w3)" "replay_ready sc fh f (w_store w3)"
          "winners_of (w_store w3) = winners_of (w_store w2)" "replaying sc f (Some st) (insert h A) (w_store w3)"
          "{st..h - 1} \<subseteq> domain_points (w_store w3) (scan_indexable sc)"
          using finish_range_replaying [OF assms(1), of sc fh f w2 st "insert h A" "h - 1"] ok2 st(1)
          unfolding loop_ok_def by blast
        have "loop_ok up sc fh f s0 (checked_add h 1) A w3"
          using w3 ok2 assms(5-7) st(1) replaying_skip [OF w3(4) assms(5)] by (auto simp: loop_ok_def)
        then show ?thesis using False True st(1) w3(1)
          by (intro disjI2 exI [of _ "checked_add h 1"] exI [of _ w3]) (simp add: run)
      next
        case no: False
        have "loop_ok up sc fh f s0 (checked_add h 1) A w2"
          using ok2 assms(5-7) st no replaying_skip [of sc f cursor h A "w_store w2"] by (auto simp: loop_ok_def)
        then show ?thesis using False no st(1)
          by (intro disjI2 exI [of _ "checked_add h 1"] exI [of _ w2]) (simp add: run)
      qed
    qed
  qed
qed

lemma replay_loop:
  assumes "quiet up" and "ceiling \<le> fh"
  shows "loop_ok up sc fh f s0 cursor (set ns \<union> B) w \<Longrightarrow> sorted_wrt (<) ns \<Longrightarrow>
    (\<forall>n\<in>set ns. f \<le> n \<and> n \<in> winners_of s0 (scan_id sc) \<and> \<not> below_cursor n cursor \<and> (\<forall>b\<in>B. n < b)) \<Longrightarrow>
    (\<exists>e. fst (replay up sc ceiling tg (map decimal_of_u64 ns) cursor lst w) = Inl e \<and> block_fails up tg e)
    \<or> (\<exists>cursor' w'. replay up sc ceiling tg (map decimal_of_u64 ns) cursor lst w
           = (Inr (Some (cursor', if ns = [] then lst else Some (min ceiling (last ns)))), w')
         \<and> loop_ok up sc fh f s0 cursor' ({n \<in> set ns. ceiling < n} \<union> B) w')"
proof (induction ns arbitrary: cursor lst w)
  case (Cons h ns)
  have hgt: "to_height (decimal_of_u64 h) = returnj h" by (simp add: to_height_def)
  have above: "\<forall>n\<in>set ns \<union> B. h < n" using Cons.prems(2,3) by auto
  show ?case
  proof (cases "ceiling < h")
    case True
    have all: "ceiling < n" if "n \<in> set (h # ns)" for n using that True above by (auto intro: order.strict_trans)
    have "{n \<in> set (h # ns). ceiling < n} = set (h # ns)" "min ceiling (last (h # ns)) = ceiling"
      using all all [OF last_in_set [of "h # ns"]] by (auto simp only: min_def less_imp_le list.distinct if_True simp_thms)
    then show ?thesis
      using Cons.prems(1) True by (intro disjI2 exI [of _ cursor] exI [of _ w]) (simp add: hgt bindj_def returnj_def)
  next
    case False
    let ?go = "replay up sc ceiling tg (map decimal_of_u64 (h # ns)) cursor lst w"
    have sets: "{n \<in> set (h # ns). ceiling < n} = {n \<in> set ns. ceiling < n}" using False by auto
    have lasts: "(if ns = [] then Some h else Some (min ceiling (last ns))) = Some (min ceiling (last (h # ns)))"
      using False by (simp add: min_def)
    consider (err) e where "fst ?go = Inl e" "block_fails up tg e"
      | (row) cursor' w' where "?go = replay up sc ceiling tg (map decimal_of_u64 ns) cursor' (Some h) w'"
          "loop_ok up sc fh f s0 cursor' (set ns \<union> B) w'" "cursor' = cursor \<or> cursor' = checked_add h 1"
      using replay_row [OF assms(1), of sc fh f s0 cursor h "set ns \<union> B" w ceiling tg "map decimal_of_u64 ns" lst]
        Cons.prems False above assms(2) by (auto simp: not_less simp del: replay.simps)
    then show ?thesis
    proof cases
      case (row cursor' w')
      note go = row(1) and ok = row(2) and c' = row(3)
      have "\<forall>n\<in>set ns. \<not> below_cursor n cursor'" using c' above Cons.prems(3) by (auto simp: below_checked_add dest!: leD)
      then show ?thesis
        using Cons.IH [OF ok, of "Some h"] Cons.prems(2,3) unfolding go sets lasts by simp
    qed auto
  qed
qed (auto simp: returnj_def)

text \<open>
  The whole replay. When the page is full, its last winner bounds what it proves; otherwise the ceiling.
\<close>

definition replay_end :: "u64 \<Rightarrow> u64 list \<Rightarrow> u64" where
  "replay_end ceiling ns = (if length ns < 16 then ceiling else min ceiling (last ns))"

lemma replay_rows_done:
  assumes "quiet up" and "to_u64 (scan_finalized_height sc) = Inr fh" and "f \<le> min fh t"
    and ready: "replay_ready sc fh f (w_store w)"
    and rows: "scan_winners (w_store w) (scan_id sc) (map_option decimal_of_u64 (checked_sub f 1)) 16 = Inr (map decimal_of_u64 ns)"
    and ns: "sorted_wrt (<) ns" "\<And>n. n \<in> set ns \<Longrightarrow> n \<in> winners_of (w_store w) (scan_id sc) \<and> f \<le> n"
      "\<And>n. n \<in> winners_of (w_store w) (scan_id sc) \<Longrightarrow> f \<le> n \<Longrightarrow> n \<notin> set ns \<Longrightarrow> \<not> length ns < 16 \<and> (\<forall>m\<in>set ns. m < n)"
  shows "(\<exists>e. fst (replay_scan up sc f t w) = Inl e \<and> block_fails up \<lparr>tg_height = fh, tg_hash = chain_hash_of (scan_at sc)\<rparr> e)
    \<or> (\<exists>w'. replay_scan up sc f t w = (Inr (), w') \<and> replay_ready sc fh f (w_store w')
        \<and> winners_of (w_store w') = winners_of (w_store w)
        \<and> {f..replay_end (min fh t) ns} \<subseteq> domain_points (w_store w') (scan_indexable sc) \<union> winners_of (w_store w) (scan_id sc))"
proof -
  let ?W = "winners_of (w_store w) (scan_id sc)" and ?ceil = "min fh t" and ?E = "replay_end (min fh t) ns"
  let ?tg = "\<lparr>tg_height = fh, tg_hash = chain_hash_of (scan_at sc)\<rparr>"
  let ?B = "{n \<in> ?W. f \<le> n} - set ns"
  have hgt: "to_height (scan_finalized_height sc) = returnj fh" by (simp add: to_height_def assms(2))
  obtain w1 where q: "query up (\<lambda>s. scan_winners s (scan_id sc) (map_option decimal_of_u64 (checked_sub f 1)) 16) w
      = (Inr (map decimal_of_u64 ns), w1)" "w_store w1 = w_store w"
    using quiet_query [OF assms(1), of "\<lambda>s. scan_winners s (scan_id sc) (map_option decimal_of_u64 (checked_sub f 1)) 16" w,
      OF rows] by blast
  have "loop_ok up sc fh f (w_store w) (Some f) (set ns \<union> ?B) w1"
    using ready q(2) by (auto simp: loop_ok_def replaying_def below_cursor_def)
  moreover have "\<forall>n\<in>set ns. f \<le> n \<and> n \<in> ?W \<and> \<not> below_cursor n (Some f) \<and> (\<forall>b\<in>?B. n < b)"
    using ns(2,3) by (auto simp: below_cursor_def not_less)
  ultimately consider (err) e where "fst (replay up sc ?ceil ?tg (map decimal_of_u64 ns) (Some f) None w1) = Inl e" "block_fails up ?tg e"
    | (fin) cursor w2 where "replay up sc ?ceil ?tg (map decimal_of_u64 ns) (Some f) None w1
        = (Inr (Some (cursor, if ns = [] then None else Some (min ?ceil (last ns)))), w2)"
        "loop_ok up sc fh f (w_store w) cursor ({n \<in> set ns. ?ceil < n} \<union> ?B) w2"
    using replay_loop [OF assms(1), of ?ceil fh sc f "w_store w" "Some f" ns ?B w1 ?tg None] ns(1) by auto
  then show ?thesis
  proof cases
    case err
    then show ?thesis
      by (cases "replay up sc ?ceil ?tg (map decimal_of_u64 ns) (Some f) None w1")
        (auto simp: replay_scan_def hgt bindj_def returnj_def q(1))
  next
    case fin
    have ends: "(if length (map decimal_of_u64 ns) < 16 then Some ?ceil else if ns = [] then None else Some (min ?ceil (last ns))) = Some ?E"
      by (auto simp: replay_end_def)
    have go: "replay_scan up sc f t w = (case cursor of None \<Rightarrow> returnj ()
        | Some st \<Rightarrow> if st \<le> ?E then finish_range up sc st ?E else returnj ()) w2"
      using fin(1) ends by (cases cursor) (simp_all add: replay_scan_def hgt bindj_def returnj_def q(1) del: if_split min_le_iff_disj min.bounded_iff)
    have ok: "replay_ready sc fh f (w_store w2)" "winners_of (w_store w2) = winners_of (w_store w)"
      "replaying sc f cursor ({n \<in> set ns. ?ceil < n} \<union> ?B) (w_store w2)" using fin(2) by (auto simp: loop_ok_def)
    have E: "?E \<le> ?ceil" by (simp add: replay_end_def del: min.bounded_iff)
    then have Efh: "?E \<le> fh" by simp
    show ?thesis
    proof (cases "\<exists>st. cursor = Some st \<and> st \<le> ?E")
      case True
      then obtain st where st: "cursor = Some st" "st \<le> ?E" by blast
      have "?E < n" if "n \<in> {n \<in> set ns. ?ceil < n} \<union> ?B" for n
      proof (cases "n \<in> set ns")
        case False
        then have "\<not> length ns < 16" "last ns < n" using that ns(3) [of n] last_in_set [of ns] by (cases "ns = []"; auto)+
        then show ?thesis by (simp add: replay_end_def min_less_iff_disj)
      qed (use that in \<open>auto intro: le_less_trans [OF E]\<close>)
      then obtain w3 where w3: "finish_range up sc st ?E w2 = (Inr (), w3)" "replay_ready sc fh f (w_store w3)"
        "winners_of (w_store w3) = winners_of (w_store w2)" "replaying sc f (Some st) ({n \<in> set ns. ?ceil < n} \<union> ?B) (w_store w3)"
        "{st..?E} \<subseteq> domain_points (w_store w3) (scan_indexable sc)"
        using finish_range_replaying [OF assms(1) ok(1) ok(3) [unfolded st(1)] st(2) Efh] by blast
      have "z \<in> domain_points (w_store w3) (scan_indexable sc) \<or> z \<in> ?W" if "f \<le> z" "z \<le> ?E" for z
        using that w3(4,5) unfolding w3(3) ok(2)
        by (cases "z < st") (auto simp: replaying_def below_cursor_def w3(3) ok(2) not_less)
      then show ?thesis using go st ok(2) w3(1-3)
        by (intro disjI2 exI [of _ w3]) (simp add: subset_iff)
    next
      case False
      then have "below_cursor z cursor" if "z \<le> ?E" for z
        using that by (cases cursor) (auto simp: below_cursor_def)
      moreover have "replay_scan up sc f t w = (Inr (), w2)"
        using go False by (auto simp: returnj_def split: option.split)
      ultimately show ?thesis using ok by (auto simp: replaying_def)
    qed
  qed
qed


section \<open>A concrete pass\<close>

text \<open>An upstream whose every answer is a lost connection, and a task alone in the world.\<close>

definition sample_upstream :: upstream where
  "sample_upstream = (let gone = Inl ChDisconnected in
     \<lparr>up_engine = sample_engine, up_lib = sample_lib, up_genesis = ChainHash (replicate 32 0), up_interfere = (\<lambda>_ w. w),
      up_block_hash = (\<lambda>_ _ _. gone), up_block = (\<lambda>_ _ _ _ _. Inl ChDisconnected), up_header = (\<lambda>_ _ _. Inl ChDisconnected),
      up_finalized_head = (\<lambda>_. Inl ChDisconnected), up_last_proof_block = (\<lambda>_ _ _. Inl ChDisconnected),
      up_default_topology = (\<lambda>_ _ _. gone), up_topology_summary = (\<lambda>_ _ _ _. Inl ChDisconnected),
      up_participants = (\<lambda>_ _ _ _ _. Inl ChDisconnected), up_winner_lookup = (\<lambda>_ _. Inl ChDisconnected),
      up_winner_prefix = [], up_winner_keys = (\<lambda>_ _ _. Inl ChDisconnected), up_winner_metadata = (\<lambda>_ _. Inl ChDisconnected),
      up_sync_state = (\<lambda>_. Inl ChDisconnected), up_metrics = (\<lambda>_. []), up_format_time = (\<lambda>_. None),
      up_refresh = (\<lambda>_ _. Inl (IxChain ChDisconnected))\<rparr>)"

definition sample_world :: "store \<Rightarrow> world" where
  "sample_world s = \<lparr>w_store = s, w_progress = \<lparr>best_height = None, finalized_height = None, committed_height = None,
     admitted = 0, last_error = None, attached = False\<rparr>, w_admission = admission_default, w_gate = 0, w_tick = 0\<rparr>"

lemma sample_quiet: "quiet sample_upstream"
  by (simp add: quiet_def sample_upstream_def Let_def)

definition replayable_store :: store where
  "replayable_store = save_coverage Winners (coverage_empty 1 0) scanned_store"

lemma scanned_fields [simp]: "writable scanned_store" "scan_winner_rows scanned_store = []"
  "meta scanned_store = meta bound_store"
  by (simp_all add: scanned_store_eq)

lemma replayable_ready: "replay_ready sample_scan 9 3 replayable_store"
proof -
  have g: "generation scanned_store = generation bound_store" by (rule generation_cong) simp
  have inv: "cov_inv scanned_store" "store_inv scanned_store"
    using store.history_inv [OF scanned_store_reachable] by (simp_all add: store_inv_cov)
  have fields: "generation replayable_store = generation scanned_store" "scans replayable_store = scans scanned_store"
    "scan_winner_rows replayable_store = scan_winner_rows scanned_store" "unavailable replayable_store = unavailable scanned_store"
    by (simp_all add: replayable_store_def fun_eq_iff del: scanned_fields)
  have "cov_inv replayable_store"
    unfolding replayable_store_def using inv(1) by (rule cov_inv_save) (simp add: g sound_coverage_def, simp add: coverage_empty_def)
  from store_inv_frame [OF inv(2) this fields] have "store_inv replayable_store" .
  moreover have "network replayable_store (sample_hash 0) = Inr ()"
    using network_cong [of replayable_store bound_store] get_meta_cong [of scanned_store bound_store]
    by (simp add: replayable_store_def get_meta_save coverage_key_def)
  ultimately show ?thesis
    by (simp add: replay_ready_def sample_scan_def g replayable_store_def get_meta_save scan_row_of_def)
      (simp add: scanned_store_eq coverage_empty_def)
qed


end
