(* ===== verification/Indexer_Props.thy ===== *)
theory Indexer_Props
  imports Replay
begin

text \<open>
  The workers of one connection as a transition system, its refinement of the store's histories, the
  reconnection loop, and the error path of a participant's declared budget.
\<close>

section \<open>The workers as a transition system\<close>

text \<open>
  A turn of one worker, entered with any target or announced header; other tasks act at its awaits.
\<close>

inductive indexer_step :: "upstream \<Rightarrow> world \<Rightarrow> world \<Rightarrow> bool" for up where
  step_initialize: "indexer_step up w (snd (initialize up tg w))"
| step_live: "indexer_step up w (snd (live_round up tg w))"
| step_backfill: "indexer_step up w (snd (backfill_round up tg w))"
| step_finalized: "indexer_step up w (snd (announce_finalized up header tg w))"
| step_best: "indexer_step up w (snd (announce_best header w))"
| step_replay: "indexer_step up w (snd (index_finalized up h at w))"

context indexer_relation
begin

lemma indexer_step_R: "keeping up \<Longrightarrow> indexer_step up w w' \<Longrightarrow> R (w_store w) (w_store w')"
  by (erule indexer_step.cases) (auto intro!: keepsD keep_intros)

lemma indexer_run_R:
  assumes "keeping up" and "(indexer_step up)\<^sup>*\<^sup>* w w'"
  shows "R (w_store w) (w_store w')"
  using assms(2) by (induction rule: rtranclp_induct) (auto intro: R_refl R_trans indexer_step_R [OF assms(1)])

end



section \<open>Reconnection\<close>

text \<open>What ends the loop: a cancellation or an error that cannot be retried.\<close>

definition ends_run :: "(indexer_error + unit) option \<Rightarrow> bool" where
  "ends_run c \<longleftrightarrow> (case c of None \<Rightarrow> True | Some (Inl e) \<Rightarrow> fatal e | Some (Inr _) \<Rightarrow> False)"

lemma run_connections_from:
  "run_connections (min (2 ^ k) 30) rs =
     (map_option (\<lambda>c. case c of None \<Rightarrow> Inr () | Some r \<Rightarrow> r) (find ends_run rs),
      map (\<lambda>j. min (2 ^ j) 30) [k..<k + length (takeWhile (\<lambda>c. \<not> ends_run c) rs)])"
proof (induction rs arbitrary: k)
  case (Cons c rs)
  have d: "min (min (2 ^ k) 30 * 2) 30 = min (2 ^ Suc k) (30 :: nat)" by simp
  show ?case
  proof (cases c)
    case (Some r)
    have "[k..<Suc (k + length (takeWhile (\<lambda>c. \<not> ends_run c) rs))] = k # [Suc k..<Suc k + length (takeWhile (\<lambda>c. \<not> ends_run c) rs)]"
      by (simp add: upt_conv_Cons del: upt_Suc)
    moreover have "ends_run (Some r) = (case r of Inl e \<Rightarrow> fatal e | Inr _ \<Rightarrow> False)" by (simp add: ends_run_def)
    ultimately show ?thesis using Cons.IH [of "Suc k"] unfolding Some run_connections.simps d
      by (simp del: upt_Suc power_Suc)
  qed (simp add: ends_run_def)
qed simp

text \<open>
  C37. The indexer runs until it is cancelled or a connection ends with an error that cannot be retried; it
  then returns that error. Every other end of a connection is followed by a pause and a new
  connection, and the pauses double from one second up to thirty.
\<close>

theorem reconnects_until_fatal:
  "run_connections 1 rs =
     (map_option (\<lambda>c. case c of None \<Rightarrow> Inr () | Some r \<Rightarrow> r) (find ends_run rs),
      map (\<lambda>k. min (2 ^ k) 30) [0..<length (takeWhile (\<lambda>c. \<not> ends_run c) rs)])"
  using run_connections_from [of 0 rs] by simp

section \<open>Declared budgets\<close>

lemma budget_of_u32:
  fixes n :: u32
  shows "invalid_budget (f64_of_int (uint n)) \<longleftrightarrow> 2 ^ 31 \<le> n"
    and "\<not> invalid_budget (f64_of_int (uint n)) \<Longrightarrow> f64_to_int (f64_of_int (uint n)) = uint n"
proof -
  have "unat n < 2 ^ 32" using unat_lt2p [of n] by simp
  then have "unat n < 2 ^ 53" by (rule order.strict_trans) simp
  from f64_of_small_int [OF this] have u: "f64_units (f64_of_int (uint n)) = uint n * f64_one" "is_finite (f64_of_int (uint n))"
    by simp_all
  have one: "0 < f64_one" and neg: "\<not> f64_one < 0" by (simp_all add: f64_one_def)
  have "2147483647 * f64_one < uint n * f64_one \<longleftrightarrow> 2147483647 < uint n" using one by simp
  also have "\<dots> \<longleftrightarrow> 2 ^ 31 \<le> n" by (auto simp: word_le_def)
  finally show "invalid_budget (f64_of_int (uint n)) \<longleftrightarrow> 2 ^ 31 \<le> n"
    using u one by (auto simp: invalid_budget_def f64_lt_int_def f64_gt_int_def f64_integral_def mult_less_0_iff neg)
  show "f64_to_int (f64_of_int (uint n)) = uint n" using u(1) one by (simp add: f64_to_int_def order.strict_implies_not_eq [symmetric])
qed

lemma write_participants_ok:
  "rfold (\<lambda>p. apply_write (write_participant p)) ps cs = Inr cs' \<Longrightarrow> p \<in> set ps \<Longrightarrow> pr_budget_seconds p = Some b \<Longrightarrow>
     \<not> invalid_budget b"
  by (induction ps arbitrary: cs) (auto simp: rbind_Inr apply_write_def write_participant_def split: if_splits)

text \<open>
  A participant whose declared budget is at least \<open>2 ^ 31\<close> seconds is refused by the store: its page is
  never committed, and the store's answer for it is an error after which the indexer does not
  reconnect. Smaller budgets are stored as they are.
\<close>

theorem oversized_budget_is_fatal:
  "(\<forall>p\<in>set ps. \<forall>n. qp_budget_seconds p = Some n \<and> 2 ^ 31 \<le> n \<longrightarrow>
      (\<exists>e. fst (commit_page up b g (participation_records qid ps) exhausted w) = Inl e)
      \<and> write_participant (hd (participation_records qid [p])) s = Inl (Invalid ''invalid participant budget''))
   \<and> fatal (IxStore (Invalid ''invalid participant budget''))"
proof (intro conjI ballI allI impI)
  fix p n
  assume p: "p \<in> set ps" and n: "qp_budget_seconds p = Some n \<and> 2 ^ 31 \<le> n"
  let ?r = "hd (participation_records qid [p])"
  have bad: "invalid_budget (f64_of_int (uint n))" using n budget_of_u32(1) by simp
  have r: "?r \<in> set (participation_records qid ps)" "pr_budget_seconds ?r = Some (f64_of_int (uint n))"
    using p n by (auto simp: participation_records_def)
  then show "write_participant ?r s = Inl (Invalid ''invalid participant budget'')"
    using bad by (simp add: write_participant_def)
  let ?c = "\<lparr>bc_genesis = model_hash (up_genesis up), bc_hash = model_hash (db_hash b),
    bc_height = decimal_of_u64 (ev_block_number (db_events b)), bc_guards = [g],
    bc_records = empty_records\<lparr>participation := participation_records qid ps\<rparr>,
    bc_completed = (if exhausted then [Participation] else [])\<rparr>"
  have "x = StaleGeneration" if "commit_block (up_engine up) ?c t = Inr (x, t')" for x t t'
    using that
  proof (cases rule: commit_block_cases)
    case committed
    then show ?thesis
      using write_participants_ok [OF _ r] bad by (auto simp: write_records_def empty_records_def apply_optional_def)
  qed simp
  then consider e' t where "run (commit_block (up_engine up) ?c) (w_store (await up w)) = (Inl e', t)"
    | t where "run (commit_block (up_engine up) ?c) (w_store (await up w)) = (Inr StaleGeneration, t)"
    by (cases "commit_block (up_engine up) ?c (w_store (await up w))") (auto simp: run_def split del: if_split)
  then show "\<exists>e. fst (commit_page up b g (participation_records qid ps) exhausted w) = Inl e"
    by cases (simp_all add: commit_page_def bindj_def transact_def check_def failj_def Let_def split del: if_split)
qed simp

definition sample_block :: decoded_block where
  "sample_block = \<lparr>db_hash = ChainHash (replicate 32 4), db_header = \<lparr>parent_hash = ChainHash (replicate 32 3), number = ''0x4'',
     digest_logs = []\<rparr>, db_events = block_events_default\<lparr>ev_block_number := 4\<rparr>, db_qblock = None, db_qblock_error = None,
     db_enrichment_at = ChainHash (replicate 32 9)\<rparr>"

text \<open>For a participant that declares \<open>2 ^ 31\<close> seconds, in the bound store.\<close>

theorem oversized_budget_is_fatal_witness:
  "\<exists>e. fst (commit_page sample_upstream sample_block \<lparr>guard_indexable = Participation, expected = 1\<rparr>
     (participation_records 1 [\<lparr>qp_account = ''a'', qp_kind = ''cpu'', qp_budget_seconds = Some (2 ^ 31), qp_block_number = 1\<rparr>])
     True (sample_world bound_store)) = Inl e"
  by (rule oversized_budget_is_fatal [THEN conjunct1, rule_format, THEN conjunct1]) auto

section \<open>A processed block\<close>

lemma quiet_keeps:
  "quiet up \<Longrightarrow> blocks.keeps m \<Longrightarrow> m w = (r, w') \<Longrightarrow> scan_frame (w_store w) (w_store w')"
  using blocks.keepsD [of m w] by simp

lemma frame_points:
  "scan_frame s s' \<Longrightarrow> store_inv s \<Longrightarrow> store_inv s' \<and> domain_points s i \<subseteq> domain_points s' i"
  by (simp add: scan_frame_def)

lemma collect_authorship:
  "foldj (collect_step up b h cls) gs acc w = (Inr acc', w') \<Longrightarrow>
     Authorship \<in> set (snd acc) \<or> (\<exists>g\<in>set gs. guard_indexable g = Authorship) \<Longrightarrow> Authorship \<in> set (snd acc')"
proof (induction gs arbitrary: acc w)
  case (Cons g gs)
  obtain acc1 w1 where 1: "collect_step up b h cls g acc w = (Inr acc1, w1)" "foldj (collect_step up b h cls) gs acc1 w1 = (Inr acc', w')"
    using Cons.prems(1) by (auto simp: bindj_def split: prod.splits sum.splits)
  have "Authorship \<in> set (snd acc1)" if "Authorship \<in> set (snd acc) \<or> guard_indexable g = Authorship"
    using that 1(1)
    by (auto simp: collect_step_def settle_def matchj_def bindj_def returnj_def report_error_def
        split: indexable.splits prod.splits sum.splits domain_result.splits)
  then show ?case using Cons.IH [OF 1(2)] Cons.prems(2) by auto
qed (simp add: returnj_def)

lemma commit_block_points:
  assumes "cov_inv s" and "commit_block e b s = Inr (r, s')" and "r \<noteq> StaleGeneration"
    and "height (bc_height b) = Inr n" and "i \<in> set (bc_completed b)"
  shows "n \<in> domain_points s' i"
  using assms(4,5) by (rule_tac commit_block_effect [OF assms(1-3)]) simp

lemma commit_collected_points:
  assumes "quiet up" and "store_inv (w_store w)" and "commit_collected up b h gs acc w = (Inr (), w')" and "i \<in> set (snd acc)"
  shows "h \<in> domain_points (w_store w') i"
proof -
  let ?c = "\<lparr>bc_genesis = model_hash (up_genesis up), bc_hash = model_hash (db_hash b), bc_height = decimal_of_u64 h,
    bc_guards = gs, bc_records = fst acc, bc_completed = snd acc\<rparr>"
  have ne: "snd acc \<noteq> []" using assms(4) by auto
  obtain r s' w1 where r: "commit_block (up_engine up) ?c (w_store w) = Inr (r, s')" "r \<noteq> StaleGeneration"
    and w1: "w_store w1 = s'" "bindj (pause up) (\<lambda>_. note_committed h) w1 = (Inr (), w')"
  proof (cases "commit_block (up_engine up) ?c (w_store w)")
    case (Inr x)
    then show thesis
      using assms(3) ne quiet_await [OF assms(1), of w] that [of "fst x" "snd x" "(await up w)\<lparr>w_store := snd x\<rparr>"]
      by (cases x) (auto simp: commit_collected_def bindj_def transact_def run_def check_def failj_def returnj_def Let_def
          split: commit_result.splits)
  qed (use assms(3) ne quiet_await [OF assms(1), of w] in
      \<open>simp add: commit_collected_def bindj_def transact_def run_def Let_def\<close>)
  have s': "w_store w' = s'" using w1 quiet_await [OF assms(1), of w1]
    by (auto simp: bindj_def pause_def note_committed_def)
  have "cov_inv (w_store w)" using assms(2) by (rule store_inv_cov)
  from commit_block_points [OF this r, of h i] show ?thesis using assms(4) s' by simp
qed

text \<open>
  C7. When processing a finalized block succeeds undisturbed, authorship needed the block and the reader did
  not report it pruned, authorship is complete at its height afterwards, whatever went wrong with the
  other domains meanwhile.
\<close>

theorem processed_block_completes_authorship:
  assumes "quiet up" and "store_inv (w_store w)" and "process up h tg cls w = (Inr (), w')"
    and "guards up h True w = (Inr gs, w1)" and "\<exists>g\<in>set gs. guard_indexable g = Authorship"
    and "fst (decode_block up h tg cls gs w1) \<noteq> Inr None"
  shows "h \<in> domain_points (w_store w') Authorship"
proof -
  have k: "blocks.keeping up" by (rule quiet_keeping [OF assms(1)])
  have ne: "gs \<noteq> []" using assms(5) by auto
  let ?rest = "\<lambda>b. bindj (case find (\<lambda>g. guard_indexable g = Participation) gs of
      None \<Rightarrow> returnj () | Some g \<Rightarrow> tolerate_chain (participation_of up b g cls)) (\<lambda>_.
    if cls = Live then tolerate_chain (refresh_changes up b) else returnj ())"
  obtain b acc w2 w3 w4 where d: "decode_block up h tg cls gs w1 = (Inr (Some b), w2)"
    and c: "foldj (collect_step up b h cls) gs (empty_records, []) w2 = (Inr acc, w3)"
    and cc: "commit_collected up b h gs acc w3 = (Inr (), w4)" and rest: "?rest b w4 = (Inr (), w')"
    using assms(3,4,6) ne unfolding process_def
    by (auto simp: bindj_def split: prod.splits sum.splits option.splits)
  have "store_inv (w_store w1)" "store_inv (w_store w2)" "store_inv (w_store w3)" "store_inv (w_store w4)"
    using assms(2) k
      quiet_keeps [OF assms(1) blocks.keeps_guards [OF k] assms(4)]
      quiet_keeps [OF assms(1) blocks.keeps_decode_block [OF k] d]
      quiet_keeps [OF assms(1) blocks.keeps_foldj [OF blocks.keeps_collect_step [OF k]] c]
      quiet_keeps [OF assms(1) blocks.keeps_commit_collected [OF k] cc]
    by (simp_all add: scan_frame_def)
  moreover have "Authorship \<in> set (snd acc)" using collect_authorship [OF c] assms(5) by blast
  ultimately have "h \<in> domain_points (w_store w4) Authorship" "store_inv (w_store w4)"
    using commit_collected_points [OF assms(1) _ cc] by blast+
  moreover have "blocks.keeps (?rest b)"
    by (intro blocks.keeps_bindj blocks.keeps_option blocks.keeps_if blocks.keeps_tolerate_chain blocks.keeps_returnj
        blocks.keeps_participation_of blocks.keeps_refresh_changes k)
  ultimately show ?thesis using frame_points [OF quiet_keeps [OF assms(1), of "?rest b" w4, OF _ rest]] by blast
qed

definition sample_reader :: upstream where
  "sample_reader = sample_upstream\<lparr>up_block_hash := \<lambda>_ _ _. Inr (Some (db_hash sample_block)),
     up_block := \<lambda>_ _ _ _ _. Inr sample_block\<rparr>"

text \<open>Participation starts above the block; the other domains need it.\<close>

definition later_store :: store where
  "later_store = save_coverage Participation (coverage_empty 1 10) bound_store"

definition needed :: "generation_guard list" where
  "needed = map (\<lambda>i. \<lparr>guard_indexable = i, expected = 1\<rparr>) [Winners, Difficulty, Authorship]"

definition at_tick :: "nat \<Rightarrow> world" where
  "at_tick n = (sample_world later_store)\<lparr>w_tick := n\<rparr>"

lemma reader_await [simp]: "await sample_reader (at_tick n) = at_tick (Suc n)"
  by (simp add: await_def sample_reader_def sample_upstream_def Let_def at_tick_def sample_world_def)

lemma at_tick_store [simp]: "w_store (at_tick n) = later_store" "w_tick (at_tick n) = n"
  by (simp_all add: at_tick_def sample_world_def)

lemma later_generation [simp]: "generation later_store i = 1" "unavailable later_store = []" "writable later_store"
  "finalized later_store = []" "blocks later_store = []"
  by (simp_all add: later_store_def)

lemma later_coverage [simp]:
  "get_meta later_store (coverage_key i) = (if i = Participation then Some (MetaCoverage (coverage_empty 1 10)) else None)"
  by (simp add: later_store_def get_meta_save)

lemma sample_guards: "guards sample_reader 4 True (at_tick n) = (Inr needed, at_tick (Suc (Suc (Suc (Suc (Suc (Suc (Suc (Suc (Suc (Suc (Suc n))))))))))))"
  by (simp add: guards_def DOMAINS_def guard_step_def bindj_def returnj_def query_def Let_def store_coverage_def is_unavailable_def
    markers_def needed_def skip_height_def)
    (simp add: coverage_empty_def)

lemma sample_height: "header_height (db_header sample_block) = Inr 4"
proof -
  have "hex_value (CHR ''4'') = Some 4" by (simp add: hex_value_def)
  then have "parse_hex_u64 ''4'' = Inr 4" by (simp add: parse_hex_u64_def strip_plus_def)
  then show ?thesis by (simp add: sample_block_def header_height_def)
qed

lemma sample_reads [simp]: "up_block_hash sample_reader n h cls = Inr (Some (db_hash sample_block))"
  "up_block sample_reader n a p b cls = Inr sample_block"
  by (simp_all add: sample_reader_def)

lemma sample_decode: "decode_block sample_reader 4 tg Backfill needed (at_tick n) = (Inr (Some sample_block), at_tick (2 + n))"
proof -
  have "fetch_block sample_reader hash purpose tg cls h gs 2 (at_tick k) = (Inr (Some sample_block), at_tick (Suc k))" for hash purpose cls h gs k
    by (simp add: numeral_2_eq_2 fetch_attempt_def matchj_def ask_def returnj_def)
  then show ?thesis
    by (simp add: decode_block_def Let_def bindj_def ask_def lift_chain_def liftj_def returnj_def sample_height)
qed

lemma sample_collect: "foldj (collect_step sample_reader sample_block 4 cls) needed (empty_records, []) (at_tick n)
  = (Inr (empty_records, [Winners, Difficulty, Authorship]), at_tick n)"
  by (simp add: needed_def collect_step_def settle_def winner_of_def historical_difficulty_def matchj_def bindj_def returnj_def
     sample_block_def block_events_default_def authorship_of_def) (simp add: empty_records_def)

lemma sample_block_commits: "\<exists>s. commit_block (up_engine sample_reader) \<lparr>bc_genesis = model_hash (up_genesis sample_reader),
        bc_hash = model_hash (db_hash sample_block), bc_height = decimal_of_u64 4, bc_guards = needed,
        bc_records = empty_records, bc_completed = [Winners, Difficulty, Authorship]\<rparr> later_store = Inr (Applied, s)"
proof -
  have "network later_store (model_hash (up_genesis sample_reader)) = Inr ()"
    using network_cong [of later_store bound_store]
    by (simp add: later_store_def get_meta_save coverage_key_def sample_reader_def sample_upstream_def Let_def model_hash_def sample_hash_def flip: sample_hash_def)
  then show ?thesis
    by (simp add: commit_block_def ensure_writable_def needed_def affected_domains_def guards_current_def
        check_known_def known_hashes_def check_provenance_def write_records_def apply_optional_def complete_domain_def
        cover_empty cutover_recompute_def empty_records_def load_coverage_def get_meta_save)
qed

lemma later_store_inv: "store_inv later_store"
proof -
  have inv: "store_inv bound_store" using store.history_inv [OF bound_store_reachable] by simp
  have "cov_inv later_store"
    unfolding later_store_def using store_inv_cov [OF inv]
    by (rule cov_inv_save) (simp add: sound_coverage_def, simp add: coverage_empty_def)
  with inv show ?thesis by (rule store_inv_frame) (simp_all add: later_store_def fun_eq_iff)
qed

text \<open>C7, block four in a store where participation starts later.\<close>

theorem processed_block_completes_authorship_witness:
  "\<exists>w'. process sample_reader 4 \<lparr>tg_height = 4, tg_hash = ChainHash []\<rparr> Backfill (at_tick 0) = (Inr (), w')
     \<and> 4 \<in> domain_points (w_store w') Authorship"
proof -
  let ?tg = "\<lparr>tg_height = 4, tg_hash = ChainHash []\<rparr>"
  have q: "quiet sample_reader" using sample_quiet by (simp add: quiet_def sample_reader_def)
  obtain s where s: "commit_block (up_engine sample_reader) \<lparr>bc_genesis = model_hash (up_genesis sample_reader),
      bc_hash = model_hash (db_hash sample_block), bc_height = decimal_of_u64 4, bc_guards = needed,
      bc_records = empty_records, bc_completed = [Winners, Difficulty, Authorship]\<rparr> later_store = Inr (Applied, s)"
    using sample_block_commits by blast
  let ?k = "2 + Suc (Suc (Suc (Suc (Suc (Suc (Suc (Suc (Suc (Suc (Suc 0))))))))))"
  obtain w' where c: "commit_collected sample_reader sample_block 4 needed (empty_records, [Winners, Difficulty, Authorship])
      (at_tick ?k) = (Inr (), w')"
    using s by (simp add: commit_collected_def bindj_def transact_def run_def Let_def check_def returnj_def pause_def note_committed_def)
  have "find (\<lambda>g. guard_indexable g = Participation) needed = None" "needed \<noteq> []" by (simp_all add: needed_def)
  then have w': "process sample_reader 4 ?tg Backfill (at_tick 0) = (Inr (), w')"
    using c by (simp add: process_def bindj_def returnj_def sample_guards sample_decode sample_collect del: add_2_eq_Suc)
  have "\<exists>g\<in>set needed. guard_indexable g = Authorship" by (simp add: needed_def)
  from processed_block_completes_authorship [OF q _ w' sample_guards this] later_store_inv w' sample_decode
  show ?thesis by simp
qed

section \<open>The domains that need a block\<close>

definition needs :: "store \<Rightarrow> u64 \<Rightarrow> indexable \<Rightarrow> bool" where
  "needs s h i \<longleftrightarrow> \<not> is_unavailable s i (generation s i) h
     \<and> (\<forall>c. get_meta s (coverage_key i) = Some (MetaCoverage c) \<longrightarrow>
          cov_start c \<le> h \<and> (\<forall>floor. pruned_floor c = Some floor \<longrightarrow> floor < h) \<and> h \<notin> domain_points s i)"

lemma guard_step_quiet:
  assumes "quiet up" and "store_inv (w_store w)"
  obtains w' where "guard_step up h True i acc w =
      (Inr (acc @ (if needs (w_store w) h i then [\<lparr>guard_indexable = i, expected = generation (w_store w) i\<rparr>] else [])), w')"
    and "w_store w' = w_store w"
proof -
  let ?s = "w_store w" and ?w = "await up w" and ?ww = "await up (await up w)"
  have st: "w_store ?w = ?s" "w_store ?ww = ?s" "w_store (await up ?ww) = ?s" by (simp_all add: quiet_await [OF assms(1)])
  have inv: "cov_inv ?s" by (rule store_inv_cov [OF assms(2)])
  show thesis
  proof (cases "get_meta ?s (coverage_key i)")
    case None
    then show thesis
      using that [of "await up ?ww"] st
      by (simp add: guard_step_def bindj_def query_def returnj_def Let_def store_coverage_def needs_def)
  next
    case (Some v)
    then obtain c where c: "get_meta ?s (coverage_key i) = Some (MetaCoverage c)" "sound_coverage (generation ?s i) c"
      "covered c = domain_points ?s i"
      using load_coverage_sound [OF inv, of i 0] by (metis option.distinct(1))
    have g: "cov_gen c = generation ?s i" using c(2) by (simp add: sound_coverage_def)
    have skip: "skip_height (generation ?s i) h c \<longleftrightarrow>
        \<not> (cov_start c \<le> h \<and> (\<forall>floor. pruned_floor c = Some floor \<longrightarrow> floor < h) \<and> h \<notin> domain_points ?s i)"
      unfolding skip_height_def g c(3) [symmetric] by (auto simp: covered_def not_less not_le split: option.splits)
    show thesis
    proof (cases "skip_height (generation ?s i) h c")
      case True
      then show thesis using that [of ?ww] st c(1) skip
        by (simp add: guard_step_def bindj_def query_def returnj_def Let_def store_coverage_def needs_def)
    next
      case False
      then show thesis using that [of "await up ?ww"] st c(1) skip
        by (simp add: guard_step_def bindj_def query_def returnj_def Let_def store_coverage_def needs_def)
    qed
  qed
qed

lemma guards_quiet:
  assumes "quiet up" and "store_inv (w_store w)"
  shows "\<exists>w'. foldj (guard_step up h True) is acc w = (Inr (acc @ map (\<lambda>i. \<lparr>guard_indexable = i, expected = generation (w_store w) i\<rparr>)
      (filter (needs (w_store w) h) is)), w') \<and> w_store w' = w_store w"
  using assms(2)
proof (induction "is" arbitrary: acc w)
  case (Cons i "is")
  obtain w1 where w1: "guard_step up h True i acc w =
      (Inr (acc @ (if needs (w_store w) h i then [\<lparr>guard_indexable = i, expected = generation (w_store w) i\<rparr>] else [])), w1)"
    "w_store w1 = w_store w"
    using guard_step_quiet [OF assms(1) Cons.prems] by blast
  let ?acc = "acc @ (if needs (w_store w) h i then [\<lparr>guard_indexable = i, expected = generation (w_store w) i\<rparr>] else [])"
  show ?case using Cons.IH [of w1 ?acc] Cons.prems w1 by (simp add: bindj_def split: if_splits)
qed (simp add: returnj_def)

text \<open>
  Undisturbed, the worker guards exactly the domains that need the block, in the fixed order and each with
  its current generation: those without a stored absence marker whose coverage, where there is one,
  starts at or below the height, is not pruned up to it and does not hold it.
\<close>

theorem guards_exact:
  assumes "quiet up" and "store_step\<^sup>*\<^sup>* (empty_store rw) (w_store w)"
  shows "fst (guards up h True w) = Inr (map (\<lambda>i. \<lparr>guard_indexable = i, expected = generation (w_store w) i\<rparr>)
      (filter (needs (w_store w) h) [Winners, Difficulty, Participation, Authorship]))"
proof -
  have "store_inv (w_store w)" using store.history_inv [OF assms(2)] by simp
  from guards_quiet [OF assms(1) this, of h DOMAINS "[]"] show ?thesis by (auto simp: guards_def DOMAINS_def)
qed

text \<open>In the bound store, where every domain needs the block.\<close>

theorem guards_exact_witness:
  "fst (guards sample_upstream 4 True (sample_world bound_store))
     = Inr (map (\<lambda>i. \<lparr>guard_indexable = i, expected = 1\<rparr>) [Winners, Difficulty, Participation, Authorship])"
proof -
  have "needs bound_store 4 i" for i by (simp add: needs_def is_unavailable_def markers_def)
  then show ?thesis
    using guards_exact [OF sample_quiet, of True "sample_world bound_store" 4] bound_store_reachable
    by (simp add: sample_world_def)
qed

text \<open>
  A block that is processed is the one asked for: its header carries the requested height and its hash is
  the one the reader gave for that height.
\<close>

theorem decoded_block_identity:
  assumes "decode_block up h tg cls gs w = (Inr (Some b), w')"
  shows "header_height (db_header b) = Inr h \<and> up_block_hash up (w_tick w) h cls = Inr (Some (db_hash b))"
  using assms
  by (auto simp: decode_block_def Let_def bindj_def ask_def lift_chain_def liftj_def returnj_def failj_def
      split: sum.splits option.splits prod.splits if_splits)

text \<open>For block four.\<close>

theorem decoded_block_identity_witness:
  "header_height (db_header sample_block) = Inr 4 \<and> up_block_hash sample_reader 0 4 Backfill = Inr (Some (db_hash sample_block))"
  using decoded_block_identity [OF sample_decode [of undefined 0]] by simp

end
