(* ===== verification/Json.thy ===== *)
theory Json
  imports Float64
begin

text \<open>
  JSON values (\<open>serde_json::Value\<close>) as the miner parsers and the qblock files use them. The sources enable
  \<open>arbitrary_precision\<close>, so a number is kept as its text; an object is an ordered map, here its entries in
  key order. What \<open>serde_json\<close> computes from a number and how it prints a value is a parameter. The
  functions of \<open>str\<close> and of the integer types that the parsers call are defined here too.
\<close>

section \<open>Values\<close>

datatype json = JNull | JBool bool | JNumber string | JString string | JArray "json list" | JObject "(string \<times> json) list"

record json_lib =
  number_i64 :: "string \<Rightarrow> 64 word option"
  number_u64 :: "string \<Rightarrow> u64 option"
  number_f64 :: "string \<Rightarrow> f64 option"
  number_text :: "string \<Rightarrow> string"
  to_text :: "json \<Rightarrow> string"

type_synonym json_map = "(string \<times> json) list"

fun as_object :: "json \<Rightarrow> json_map option" where
  "as_object (JObject m) = Some m"
| "as_object _ = None"

fun as_array :: "json \<Rightarrow> json list option" where
  "as_array (JArray xs) = Some xs"
| "as_array _ = None"

fun as_str_json :: "json \<Rightarrow> string option" where
  "as_str_json (JString s) = Some s"
| "as_str_json _ = None"

fun as_bool :: "json \<Rightarrow> bool option" where
  "as_bool (JBool b) = Some b"
| "as_bool _ = None"

definition get_key :: "json \<Rightarrow> string \<Rightarrow> json option" where
  "get_key v k = Option.bind (as_object v) (\<lambda>m. map_of m k)"

fun insert_key :: "string \<Rightarrow> json \<Rightarrow> json_map \<Rightarrow> json_map" where
  "insert_key k v [] = [(k, v)]"
| "insert_key k v ((k', v') # m) =
     (if k < k' then (k, v) # (k', v') # m else if k = k' then (k, v) # m else (k', v') # insert_key k v m)"

lemma map_of_insert_key [simp]: "map_of (insert_key k v m) = (map_of m)(k \<mapsto> v)"
  by (induction k v m rule: insert_key.induct) auto

section \<open>Text\<close>

definition ascii_upper :: "char \<Rightarrow> char" where
  "ascii_upper c = (let n = of_char c :: nat in if 97 \<le> n \<and> n \<le> 122 then char_of (n - 32) else c)"

definition ascii_lower :: "char \<Rightarrow> char" where
  "ascii_lower c = (let n = of_char c :: nat in if 65 \<le> n \<and> n \<le> 90 then char_of (n + 32) else c)"

definition is_ascii_alphanumeric :: "char \<Rightarrow> bool" where
  "is_ascii_alphanumeric c = (let n = of_char c :: nat in 48 \<le> n \<and> n \<le> 57 \<or> 65 \<le> n \<and> n \<le> 90 \<or> 97 \<le> n \<and> n \<le> 122)"

definition strip_prefix :: "string \<Rightarrow> string \<Rightarrow> string option" where
  "strip_prefix p s = (if take (length p) s = p then Some (drop (length p) s) else None)"

definition str_contains :: "string \<Rightarrow> string \<Rightarrow> bool" where
  "str_contains p s = list_ex (\<lambda>i. take (length p) (drop i s) = p) [0..<Suc (length s)]"

text \<open>The UTF-8 bytes of the characters \<open>char::is_whitespace\<close> accepts.\<close>

definition whitespace_bytes :: "string list" where
  "whitespace_bytes = [
    [CHR 0x09], [CHR 0x0A], [CHR 0x0B], [CHR 0x0C], [CHR 0x0D], [CHR 0x20], [CHR 0xC2, CHR 0x85],
    [CHR 0xC2, CHR 0xA0], [CHR 0xE1, CHR 0x9A, CHR 0x80], [CHR 0xE2, CHR 0x80, CHR 0x80],
    [CHR 0xE2, CHR 0x80, CHR 0x81], [CHR 0xE2, CHR 0x80, CHR 0x82], [CHR 0xE2, CHR 0x80, CHR 0x83],
    [CHR 0xE2, CHR 0x80, CHR 0x84], [CHR 0xE2, CHR 0x80, CHR 0x85], [CHR 0xE2, CHR 0x80, CHR 0x86],
    [CHR 0xE2, CHR 0x80, CHR 0x87], [CHR 0xE2, CHR 0x80, CHR 0x88], [CHR 0xE2, CHR 0x80, CHR 0x89],
    [CHR 0xE2, CHR 0x80, CHR 0x8A], [CHR 0xE2, CHR 0x80, CHR 0xA8], [CHR 0xE2, CHR 0x80, CHR 0xA9],
    [CHR 0xE2, CHR 0x80, CHR 0xAF], [CHR 0xE2, CHR 0x81, CHR 0x9F], [CHR 0xE3, CHR 0x80, CHR 0x80]]"

definition strip_one :: "string list \<Rightarrow> string \<Rightarrow> string option" where
  "strip_one ws s = (case find (\<lambda>w. w \<noteq> [] \<and> take (length w) s = w) ws of None \<Rightarrow> None | Some w \<Rightarrow> Some (drop (length w) s))"

lemma strip_one_shorter: "strip_one ws s = Some t \<Longrightarrow> length t < length s"
  by (cases s) (auto simp: strip_one_def find_Some_iff split: option.splits)

function strip_all :: "string list \<Rightarrow> string \<Rightarrow> string" where
  "strip_all ws s = (case strip_one ws s of None \<Rightarrow> s | Some t \<Rightarrow> strip_all ws t)"
  by pat_completeness auto
termination
  by (relation "measure (\<lambda>(ws, s). length s)") (auto dest: strip_one_shorter)

declare strip_all.simps [simp del]

definition trim :: "string \<Rightarrow> string" where
  "trim s = rev (strip_all (map rev whitespace_bytes) (rev (strip_all whitespace_bytes s)))"

definition trim_end_matches :: "char \<Rightarrow> string \<Rightarrow> string" where
  "trim_end_matches c s = rev (dropWhile (\<lambda>d. d = c) (rev s))"

text \<open>\<open>str::split\<close>: always at least one part.\<close>

fun split_on :: "char \<Rightarrow> string \<Rightarrow> string list" where
  "split_on c [] = [[]]"
| "split_on c (d # s) = (if d = c then [] # split_on c s
     else case split_on c s of [] \<Rightarrow> [[d]] | p # ps \<Rightarrow> (d # p) # ps)"

text \<open>\<open>from_str\<close> of a signed integer type of a given width: one sign, then at least one digit.\<close>

definition parse_signed :: "nat \<Rightarrow> string \<Rightarrow> int option" where
  "parse_signed w s = (case s of [] \<Rightarrow> None | c # cs \<Rightarrow>
     (let neg = (c = CHR ''-''); ds = (if neg \<or> c = CHR ''+'' then cs else s);
          v = (if neg then - int (dec_val ds) else int (dec_val ds))
      in if ds = [] \<or> \<not> list_all is_digit ds \<or> v < - (2 ^ (w - 1)) \<or> 2 ^ (w - 1) \<le> v then None else Some v))"

text \<open>Slices of \<open>str\<close> panic when the index is inside a character.\<close>

datatype panic = SliceBoundary

definition is_char_boundary :: "string \<Rightarrow> nat \<Rightarrow> bool" where
  "is_char_boundary s i \<longleftrightarrow> i = 0 \<or> i = length s
     \<or> i < length s \<and> (let n = of_char (s ! i) :: nat in n < 128 \<or> 192 \<le> n)"

definition slice_to :: "string \<Rightarrow> nat \<Rightarrow> panic + string" where
  "slice_to s i = (if is_char_boundary s i then Inr (take i s) else Inl SliceBoundary)"

definition eq_ignore_ascii_case :: "string \<Rightarrow> string \<Rightarrow> bool" where
  "eq_ignore_ascii_case a b \<longleftrightarrow> map ascii_lower a = map ascii_lower b"

section \<open>Integers\<close>

text \<open>\<open>i64\<close> values are integers in its range; \<open>abs\<close> of \<open>i128\<close> wraps at the minimum in release builds.\<close>

definition saturate_i64 :: "int \<Rightarrow> int" where
  "saturate_i64 x = max (- (2 ^ 63)) (min (2 ^ 63 - 1) x)"

definition i128_abs :: "int \<Rightarrow> int" where
  "i128_abs x = (if x = - (2 ^ 127) then x else \<bar>x\<bar>)"

text \<open>\<open>trunc\<close> of a finite value and the cast of the result.\<close>

definition f64_trunc :: "f64 \<Rightarrow> int" where
  "f64_trunc x = sgn (f64_units x) * (\<bar>f64_units x\<bar> div f64_one)"

lemma f64_trunc_bound: "\<bar>f64_units x\<bar> \<le> n * f64_one \<Longrightarrow> \<bar>f64_trunc x\<bar> \<le> n"
proof -
  assume "\<bar>f64_units x\<bar> \<le> n * f64_one"
  then have "\<bar>f64_units x\<bar> div f64_one \<le> n * f64_one div f64_one" by (rule zdiv_mono1) simp
  then have "\<bar>f64_units x\<bar> div f64_one \<le> n" using f64_one_pos by simp
  moreover have "\<bar>f64_trunc x\<bar> \<le> \<bar>f64_units x\<bar> div f64_one"
    by (simp add: f64_trunc_def abs_mult pos_imp_zdiv_nonneg_iff sgn_if)
  ultimately show ?thesis by simp
qed

text \<open>Decimal texts of integers parse back, also between spaces.\<close>

definition int_text :: "int \<Rightarrow> string" where
  "int_text n = (if n < 0 then CHR ''-'' # nat_text (nat (- n)) else nat_text (nat n))"

end
