(* ===== verification/Civil.thy ===== *)
theory Civil
  imports Prelude
begin

text \<open>
  Calendar time of \<open>miner/parse.rs\<close>: \<open>civil_from_days\<close>, the day arithmetic behind the timestamps of
  miner observations, and \<open>format_iso8601_ms\<close>. The reference is the Gregorian calendar as a successor
  function on dates; the arithmetic is shown to be its iteration from 1970-01-01. Values are integers, and
  the conversions between the widths of the source are written out.
\<close>

section \<open>The program\<close>

definition i32_try_from :: "int \<Rightarrow> int option" where
  "i32_try_from x = (if - (2 ^ 31) \<le> x \<and> x < 2 ^ 31 then Some x else None)"

definition i64_try_from :: "int \<Rightarrow> int option" where
  "i64_try_from x = (if - (2 ^ 63) \<le> x \<and> x < 2 ^ 63 then Some x else None)"

definition unwrap_or :: "'a \<Rightarrow> 'a option \<Rightarrow> 'a" where
  "unwrap_or d v = (case v of None \<Rightarrow> d | Some x \<Rightarrow> x)"

definition civil_from_days :: "int \<Rightarrow> int \<times> int \<times> int" where
  "civil_from_days days =
     (let z = days + 719468;
          era = z div 146097;
          doe = z mod 146097;
          yoe = (doe - doe div 1460 + doe div 36524 - doe div 146096) div 365;
          y = unwrap_or 1970 (i32_try_from (yoe + era * 400));
          doy = doe - (365 * yoe + yoe div 4 - yoe div 100);
          mp = (5 * doy + 2) div 153;
          d = doy - (153 * mp + 2) div 5 + 1;
          m = (if mp < 10 then mp + 3 else mp - 9);
          year = (if m \<le> 2 then y + 1 else y)
      in (year, m, d))"

text \<open>The padded integers of \<open>format!\<close>; the sign counts towards the width.\<close>

definition zero_padded :: "nat \<Rightarrow> int \<Rightarrow> string" where
  "zero_padded w v =
     (if v < 0 then CHR ''-'' # replicate (w - 1 - length (nat_text (nat (- v)))) (CHR ''0'') @ nat_text (nat (- v))
      else replicate (w - length (nat_text (nat v))) (CHR ''0'') @ nat_text (nat v))"

definition format_iso8601_ms :: "u64 \<Rightarrow> string" where
  "format_iso8601_ms unix_ms =
     (let secs = unwrap_or 0 (i64_try_from (uint (unix_ms div 1000)));
          millis = uint (unix_ms mod 1000);
          days = secs div 86400;
          tod = secs mod 86400;
          hour = tod div 3600;
          mi = (tod mod 3600) div 60;
          sec = tod mod 60
      in case civil_from_days days of (year, month, day) \<Rightarrow>
         zero_padded 4 year @ ''-'' @ zero_padded 2 month @ ''-'' @ zero_padded 2 day @ ''T''
         @ zero_padded 2 hour @ '':'' @ zero_padded 2 mi @ '':'' @ zero_padded 2 sec @ ''.''
         @ zero_padded 3 millis @ ''Z'')"

section \<open>The calendar\<close>

definition leap_year :: "int \<Rightarrow> bool" where
  "leap_year y \<longleftrightarrow> y mod 4 = 0 \<and> (y mod 100 \<noteq> 0 \<or> y mod 400 = 0)"

definition month_length :: "int \<Rightarrow> int \<Rightarrow> int" where
  "month_length y m = (if m = 2 then if leap_year y then 29 else 28 else if m \<in> {4, 6, 9, 11} then 30 else 31)"

fun next_day :: "int \<times> int \<times> int \<Rightarrow> int \<times> int \<times> int" where
  "next_day (y, m, d) =
     (if d < month_length y m then (y, m, d + 1)
      else if m < 12 then (y, m + 1, 1)
      else (y + 1, 1, 1))"

text \<open>Years that start in March, counted from one that starts an era of 400 years.\<close>

definition year_start :: "int \<Rightarrow> int" where
  "year_start yoe = 365 * yoe + yoe div 4 - yoe div 100"

definition year_end :: "int \<Rightarrow> int" where
  "year_end yoe = (if yoe = 399 then 146097 else year_start (yoe + 1))"

definition year_of :: "int \<Rightarrow> int" where
  "year_of doe = (doe - doe div 1460 + doe div 36524 - doe div 146096) div 365"

definition month_day :: "int \<Rightarrow> int \<times> int" where
  "month_day doy = (let mp = (5 * doy + 2) div 153
     in (if mp < 10 then mp + 3 else mp - 9, doy - (153 * mp + 2) div 5 + 1))"

lemma year_of_mono_step: "0 \<le> doe \<Longrightarrow> doe < 146096 \<Longrightarrow> year_of doe \<le> year_of (doe + 1)"
proof (cases "doe = 146095")
  case True
  then show ?thesis by (simp add: year_of_def)
next
  case False
  assume doe: "0 \<le> doe" "doe < 146096"
  have "(doe + 1) div 1460 \<le> (doe + 1460) div 1460" by (intro zdiv_mono1) simp_all
  also have "\<dots> = doe div 1460 + 1" by simp
  finally have "(doe + 1) div 1460 \<le> doe div 1460 + 1" .
  moreover have "doe div 36524 \<le> (doe + 1) div 36524" by (intro zdiv_mono1) simp_all
  moreover have "doe div 146096 = 0" "(doe + 1) div 146096 = 0" using doe False by (simp_all add: div_pos_pos_trivial)
  ultimately have "doe - doe div 1460 + doe div 36524 - doe div 146096
      \<le> doe + 1 - (doe + 1) div 1460 + (doe + 1) div 36524 - (doe + 1) div 146096" by linarith
  then show ?thesis unfolding year_of_def by (rule zdiv_mono1) simp
qed

lemma year_of_mono: "a \<le> b \<Longrightarrow> 0 \<le> a \<Longrightarrow> b \<le> 146096 \<Longrightarrow> year_of a \<le> year_of b"
proof (induction b rule: int_ge_induct)
  case base
  show ?case by simp
next
  case (step i)
  then show ?case using year_of_mono_step [of i] by simp
qed

lemma year_of_ends:
  "list_all (\<lambda>y. year_of (year_start y) = y \<and> year_of (year_end y - 1) = y
      \<and> year_end y - year_start y = (if leap_year (y + 1) then 366 else 365)
      \<and> 0 \<le> year_start y \<and> year_end y \<le> 146097) [0..399]"
  by code_simp

lemma year_starts: "year_start 0 = 0" "year_end 399 = 146097" "y \<noteq> 399 \<Longrightarrow> year_end y = year_start (y + 1)"
  by (simp_all add: year_start_def year_end_def)

lemma year_start_less: "0 \<le> y \<Longrightarrow> y < 400 \<Longrightarrow> 0 \<le> year_start y \<and> year_start y + 365 \<le> year_end y \<and> year_end y \<le> 146097"
  using year_of_ends by (auto simp: list_all_iff split: if_splits dest!: bspec [of _ _ y])

lemma year_of_interval:
  assumes "0 \<le> y" "y < 400" "year_start y \<le> doe" "doe < year_end y"
  shows "year_of doe = y"
proof -
  from assms have "y \<in> set [0..399]" by simp
  with year_of_ends have e: "year_of (year_start y) = y" "year_of (year_end y - 1) = y" by (auto simp: list_all_iff)
  from year_start_less [OF assms(1,2)] assms(3,4) have "year_of (year_start y) \<le> year_of doe" "year_of doe \<le> year_of (year_end y - 1)"
    by (intro year_of_mono; linarith)+
  with e show ?thesis by simp
qed

lemma year_exists:
  assumes "0 \<le> doe" "doe < 146097"
  obtains y where "0 \<le> y" "y < 400" "year_start y \<le> doe" "doe < year_end y"
proof -
  have "\<exists>y. 0 \<le> y \<and> y < 400 \<and> year_start y \<le> doe \<and> doe < year_end y"
    if "doe < year_start (int n) \<or> n = 400" "n \<le> 400" for n
    using that
  proof (induction n)
    case 0
    with assms show ?case by (simp add: year_starts)
  next
    case (Suc n)
    show ?case
    proof (cases "doe < year_start (int n)")
      case True
      with Suc show ?thesis by simp
    next
      case False
      moreover from Suc.prems assms have "doe < year_end (int n)"
        by (cases "n = 399") (auto simp: year_starts add.commute)
      ultimately show ?thesis using Suc.prems by (intro exI [of _ "int n"]) auto
    qed
  qed
  from this [of 400] that show thesis by auto
qed

section \<open>One day later\<close>

text \<open>Inside a year, from March on; the end of February is the end of the year.\<close>

definition in_year :: "int \<Rightarrow> int \<Rightarrow> int \<times> int \<times> int" where
  "in_year y doy = (case month_day doy of (m, d) \<Rightarrow> (if m \<le> 2 then y + 1 else y, m, d))"

lemma month_day_steps:
  "list_all (\<lambda>doy. case (month_day doy, month_day (doy + 1)) of ((m, d), (m', d')) \<Rightarrow>
      (if m = 2 then d < 29 \<and> (doy < 364 \<longrightarrow> d < 28) \<and> m' = 2 \<and> d' = d + 1
       else if d < month_length 1 m then m' = m \<and> d' = d + 1
       else m' = (if m = 12 then 1 else m + 1) \<and> d' = 1)) [0..364]"
  by code_simp

lemma month_length_fixed: "m \<noteq> 2 \<Longrightarrow> month_length y m = month_length 1 m"
  by (simp add: month_length_def)

lemma in_year_step:
  assumes "0 \<le> doy" and "doy < 364 \<or> doy = 364 \<and> leap_year (y + 1)"
  shows "in_year y (doy + 1) = next_day (in_year y doy)"
proof -
  obtain m d m' d' where md: "month_day doy = (m, d)" "month_day (doy + 1) = (m', d')" by fastforce
  from assms have "doy \<in> set [0..364]" by auto
  from bspec [OF month_day_steps [unfolded list_all_iff] this] md have st: "if m = 2 then d < 29 \<and> (doy < 364 \<longrightarrow> d < 28) \<and> m' = 2 \<and> d' = d + 1
       else if d < month_length 1 m then m' = m \<and> d' = d + 1
       else m' = (if m = 12 then 1 else m + 1) \<and> d' = 1"
    by simp
  have m12: "m \<le> 12"
    using md(1) assms by (auto simp: month_day_def Let_def split: if_splits)
  show ?thesis
  proof (cases "m = 2")
    case True
    with st assms show ?thesis by (auto simp: in_year_def md month_length_def)
  next
    case False
    then have "month_length y m = month_length 1 m" "month_length (y + 1) m = month_length 1 m"
      by (rule month_length_fixed)+
    with False st m12 show ?thesis by (auto simp: in_year_def md split: if_splits)
  qed
qed

lemma february_ends: "month_day 364 = (2, 28)" "month_day 365 = (2, 29)" "month_day 0 = (3, 1)"
  by code_simp+

lemma year_length:
  assumes "0 \<le> y" "y < 400"
  shows "year_end y - year_start y = (if leap_year (y + 1) then 366 else 365)"
  using assms year_of_ends by (auto simp: list_all_iff dest!: bspec [of _ _ y])

lemma leap_year_era: "leap_year (y + era * 400) = leap_year y"
proof -
  have "(y + era * 400) mod 4 = y mod 4" using mod_mult_self1 [of y "era * 100" 4] by (simp add: mult.commute)
  moreover have "(y + era * 400) mod 100 = y mod 100" using mod_mult_self1 [of y "era * 4" 100] by (simp add: mult.commute)
  ultimately show ?thesis by (simp add: leap_year_def)
qed

lemma in_year_ends:
  "\<not> leap_year (y + 1) \<Longrightarrow> next_day (in_year y 364) = in_year (y + 1) 0"
  "leap_year (y + 1) \<Longrightarrow> next_day (in_year y 365) = in_year (y + 1) 0"
  by (simp_all add: in_year_def february_ends month_length_def)

text \<open>The date without the narrowing of the year.\<close>

definition civil :: "int \<Rightarrow> int \<times> int \<times> int" where
  "civil z = (let doe = z mod 146097; yoe = year_of doe in in_year (yoe + z div 146097 * 400) (doe - year_start yoe))"

lemma civil_decomposed:
  assumes "0 \<le> y" "y < 400" "0 \<le> doy" "year_start y + doy < year_end y"
  shows "civil (era * 146097 + year_start y + doy) = in_year (y + era * 400) doy"
proof -
  have b: "0 \<le> year_start y + doy" "year_start y + doy < 146097"
    using year_start_less [OF assms(1,2)] assms(3,4) by linarith+
  have "(era * 146097 + year_start y + doy) mod 146097 = year_start y + doy"
    using b by (simp add: add.assoc)
  moreover have "(era * 146097 + year_start y + doy) div 146097 = era"
    using b by (simp add: add.assoc)
  moreover have "year_of (year_start y + doy) = y"
    using assms by (intro year_of_interval) simp_all
  ultimately show ?thesis by (simp add: civil_def)
qed

lemma civil_step: "civil (z + 1) = next_day (civil z)"
proof -
  define era where "era = z div 146097"
  have b: "0 \<le> z mod 146097" "z mod 146097 < 146097" by simp_all
  obtain y where y: "0 \<le> y" "y < 400" "year_start y \<le> z mod 146097" "z mod 146097 < year_end y"
    by (rule year_exists [OF b])
  define doy where "doy = z mod 146097 - year_start y"
  have z: "z = era * 146097 + year_start y + doy" unfolding era_def doy_def by simp
  have d: "0 \<le> doy" "year_start y + doy < year_end y" using y by (simp_all add: doy_def)
  have cz: "civil z = in_year (y + era * 400) doy" unfolding z by (rule civil_decomposed [OF y(1,2) d])
  have leap: "leap_year (y + era * 400 + 1) = leap_year (y + 1)"
    using leap_year_era [of "y + 1" era] by (simp add: algebra_simps)
  note len = year_length [OF y(1,2)]
  show ?thesis
  proof (cases "year_start y + (doy + 1) < year_end y")
    case True
    then have "civil (z + 1) = in_year (y + era * 400) (doy + 1)"
      using civil_decomposed [OF y(1,2), of "doy + 1" era] d by (simp add: z add.assoc)
    moreover have "doy < 364 \<or> doy = 364 \<and> leap_year (y + era * 400 + 1)"
      using True len by (auto simp: leap split: if_splits)
    ultimately show ?thesis using cz in_year_step [OF d(1)] by simp
  next
    case False
    then have e: "year_start y + doy + 1 = year_end y" using d by simp
    have "civil (z + 1) = in_year (y + era * 400 + 1) 0"
    proof (cases "y = 399")
      case True
      then have "z + 1 = (era + 1) * 146097 + year_start 0 + 0" using e by (simp add: z year_starts)
      moreover have "year_start 0 + 0 < year_end 0" by (simp add: year_starts year_start_def)
      ultimately show ?thesis using civil_decomposed [of 0 0 "era + 1"] True by (simp add: ac_simps)
    next
      case False
      then have "z + 1 = era * 146097 + year_start (y + 1) + 0" using e by (simp add: z year_starts)
      moreover have "year_start (y + 1) + 0 < year_end (y + 1)" using False y year_start_less [of "y + 1"] by simp
      ultimately show ?thesis using civil_decomposed [of "y + 1" 0 era] False y by (simp add: algebra_simps)
    qed
    moreover have "doy = (if leap_year (y + era * 400 + 1) then 365 else 364)"
      using e len by (simp add: leap split: if_splits)
    ultimately show ?thesis using cz in_year_ends [of "y + era * 400"] by (auto split: if_splits)
  qed
qed

lemma civil_iterated: "civil (int n + 719468) = (next_day ^^ n) (1970, 1, 1)"
proof (induction n)
  case 0
  show ?case by code_simp
next
  case (Suc n)
  then show ?case using civil_step [of "int n + 719468"] by (simp add: add.commute add.left_commute)
qed

lemma civil_from_days_narrow:
  assumes "0 \<le> days" and "days < 700000000000"
  shows "civil_from_days days = civil (days + 719468)"
proof -
  let ?doe = "(days + 719468) mod 146097" and ?era = "(days + 719468) div 146097"
  have "0 \<le> ?doe" "?doe < 146097" by simp_all
  then obtain y where y: "0 \<le> y" "y < 400" "year_of ?doe = y" by (metis year_exists year_of_interval)
  have "0 \<le> ?era" "?era < 5000000" using assms by auto
  with y have "i32_try_from (year_of ?doe + ?era * 400) = Some (year_of ?doe + ?era * 400)"
    by (simp add: i32_try_from_def)
  then have "unwrap_or 1970 (i32_try_from (year_of ?doe + ?era * 400)) = year_of ?doe + ?era * 400"
    by (simp add: unwrap_or_def)
  then show ?thesis
    by (simp only: civil_from_days_def civil_def Let_def in_year_def month_day_def prod.case
        year_of_def [symmetric] year_start_def [symmetric])
qed

text \<open>
  C39. The day arithmetic is the Gregorian calendar: for every millisecond count the formatted text is the
  date reached from 1970-01-01 by that many calendar successors, and the time of day, each field
  padded to its width. No conversion between integer widths falls back to its default.
\<close>

theorem iso8601_is_calendar:
  "format_iso8601_ms t =
     (let ms = uint t; tod = ms div 1000 mod 86400
      in case (next_day ^^ nat (ms div 86400000)) (1970, 1, 1) of (y, m, d) \<Rightarrow>
         zero_padded 4 y @ ''-'' @ zero_padded 2 m @ ''-'' @ zero_padded 2 d @ ''T''
         @ zero_padded 2 (tod div 3600) @ '':'' @ zero_padded 2 (tod div 60 mod 60) @ '':'' @ zero_padded 2 (tod mod 60) @ ''.''
         @ zero_padded 3 (ms mod 1000) @ ''Z'')"
proof -
  have u: "uint (t div 1000) = uint t div 1000" "uint (t mod 1000) = uint t mod 1000"
    by (simp_all add: uint_word_ariths uint_div uint_mod)
  have r: "0 \<le> uint t" "uint t < 2 ^ 64" using unsigned_less [of t] by simp_all
  then have "uint t < 18446744073709551616" by simp
  then have "uint t div 1000 < 9223372036854775808" "- 9223372036854775808 \<le> uint t div 1000" using r(1) by linarith+
  then have secs: "i64_try_from (uint t div 1000) = Some (uint t div 1000)" by (simp add: i64_try_from_def)
  have dd: "uint t div 1000 div 86400 = uint t div 86400000" by (simp flip: zdiv_zmult2_eq)
  have "civil_from_days (uint t div 86400000) = civil (uint t div 86400000 + 719468)"
  proof (rule civil_from_days_narrow)
    show "0 \<le> uint t div 86400000" using r(1) by (simp add: pos_imp_zdiv_nonneg_iff)
    have "uint t < 18446744073709551616" using r(2) by simp
    then show "uint t div 86400000 < 700000000000" by linarith
  qed
  also have "\<dots> = (next_day ^^ nat (uint t div 86400000)) (1970, 1, 1)"
    using civil_iterated [of "nat (uint t div 86400000)"] r(1) by (simp add: pos_imp_zdiv_nonneg_iff)
  finally have c: "civil_from_days (uint t div 86400000) = (next_day ^^ nat (uint t div 86400000)) (1970, 1, 1)" .
  have m: "x mod 3600 div 60 = x div 60 mod 60" for x :: int using zmod_zmult2_eq [of 60 x 60] by simp
  show ?thesis by (simp add: format_iso8601_ms_def Let_def u secs unwrap_or_def dd c m)
qed

end
