(* ===== verification/Miner_Parse.thy ===== *)
theory Miner_Parse
  imports Json Civil "HOL-Library.Option_ord" "HOL-Library.Product_Lexorder"
begin

text \<open>
  The parsers of the miner REST answers (\<open>miner/parse.rs\<close>): status, counters, submissions and their trails
  of attempts, the choice of the dispatch that is shown, and the URL of a peer. The properties are in
  Miner_Props.
\<close>

section \<open>Data\<close>

definition MAX_SAFE_INTEGER :: int where
  "MAX_SAFE_INTEGER = 9007199254740991"

datatype miner_category = Cpu | Gpu | Qpu | Other

fun category_str :: "miner_category \<Rightarrow> string" where
  "category_str Cpu = ''CPU''"
| "category_str Gpu = ''GPU''"
| "category_str Qpu = ''QPU''"
| "category_str Other = ''OTHER''"

record miner_handle =
  mh_id :: string
  mh_miner_type :: miner_category

record miner_info =
  mi_registered_at :: int
  mi_deposit :: string
  mi_proofs_submitted :: string
  mi_proofs_won :: string
  mi_rewards_earned :: string

record miner_stats =
  heads_observed :: int
  contexts_dispatched :: int
  results_received :: int
  proofs_submitted :: int
  stale_drops :: int
  submission_errors :: int
  duplicate_result_drops :: int

record mode_breakdown = miner_stats +
  mb_miners :: "miner_handle list"

record node_status =
  ns_ss58_address :: string
  ns_account_id_hex :: string
  ns_node_id :: string
  ns_is_mining :: bool
  ns_uptime_seconds :: int
  ns_chain_head_hash :: string
  ns_chain_head_number :: int
  ns_miner_registered :: bool
  ns_miner_info :: "miner_info option"
  ns_miners :: "miner_handle list"
  ns_modes :: "string \<rightharpoonup> mode_breakdown"

record mining_attempt =
  ma_iter :: int
  ma_best_energy_milli :: int
  ma_result_kind :: string
  ma_miner_type :: string
  ma_extra :: json_map

record mining_submission_record =
  ms_solution_number :: int
  ms_miner_id :: string
  ms_miner_type :: string
  ms_ts_ns :: string
  ms_energy_milli :: int
  ms_diversity_milli :: int
  ms_threshold_milli :: int
  ms_last_proof_block_hash :: string
  ms_extrinsic_hash :: "string option"
  ms_chain_block_hash :: "string option"
  ms_chain_block_number :: "string option"
  ms_pow_sequence :: "int option"
  ms_outcome :: string
  ms_attempt_count :: int
  ms_best_energy_milli :: int
  ms_num_valid :: int
  ms_qpu_access_time_us :: int
  ms_observed_at :: string

record mining_attempts_response =
  mr_submission :: mining_submission_record
  mr_attempts :: "mining_attempt list"

datatype dispatch_status = InFlight | Completed

record current_dispatch =
  cd_solution_number :: int
  cd_attempts :: "mining_attempt list"
  cd_status :: dispatch_status

record peer_host =
  ph_public_host :: "string option"
  ph_public_port :: "16 word option"

datatype miner_error = NotFound u64 | RateLimited | Unparsable string | UpstreamStatus "16 word" | Unreachable string
  | EnvelopeFailure string | MissingLocalUrl | BodyTooLarge usize | Http string | InvalidSolutionNumber

section \<open>Scalars\<close>

definition parse_decimal_i64 :: "string \<Rightarrow> int option" where
  "parse_decimal_i64 s =
     (let trimmed = trim s
      in if trimmed = [] then None
         else case parse_signed 128 trimmed of None \<Rightarrow> None | Some parsed \<Rightarrow>
           if MAX_SAFE_INTEGER < i128_abs parsed
           then if 2 ^ 63 - 1 < i128_abs parsed then None
                else (case i64_try_from parsed of None \<Rightarrow> None | Some n \<Rightarrow> if \<bar>n\<bar> \<le> MAX_SAFE_INTEGER then Some n else None)
           else i64_try_from parsed)"

fun json_to_i64 :: "json_lib \<Rightarrow> json option \<Rightarrow> int option" where
  "json_to_i64 lib (Some (JNumber n)) =
     (case number_i64 lib n of Some i \<Rightarrow> Some (sint i)
      | None \<Rightarrow> case number_u64 lib n of Some u \<Rightarrow> i64_try_from (uint u)
      | None \<Rightarrow> case number_f64 lib n of None \<Rightarrow> None
      | Some f \<Rightarrow> if \<not> is_finite f then None
          else if MAX_SAFE_INTEGER * f64_one < \<bar>f64_units f\<bar> then None
          else Some (f64_trunc f))"
| "json_to_i64 lib (Some (JString s)) = parse_decimal_i64 s"
| "json_to_i64 lib (Some (JBool True)) = Some 1"
| "json_to_i64 lib (Some (JBool False)) = Some 0"
| "json_to_i64 lib _ = None"

definition safe_number :: "json_lib \<Rightarrow> json option \<Rightarrow> int option" where
  "safe_number lib v = (case json_to_i64 lib v of None \<Rightarrow> None
     | Some n \<Rightarrow> if MAX_SAFE_INTEGER < \<bar>n\<bar> then None else Some n)"

definition numeric_extra :: "json_lib \<Rightarrow> json option \<Rightarrow> int option" where
  "numeric_extra lib v = (case v of Some (JNumber _) \<Rightarrow> safe_number lib v | Some (JString _) \<Rightarrow> safe_number lib v | _ \<Rightarrow> None)"

definition optional_num :: "json_lib \<Rightarrow> json option \<Rightarrow> int option" where
  "optional_num lib v = (case v of None \<Rightarrow> None | Some JNull \<Rightarrow> None | Some _ \<Rightarrow> numeric_extra lib v)"

definition json_to_string :: "json_lib \<Rightarrow> json option \<Rightarrow> string \<Rightarrow> string" where
  "json_to_string lib v dflt = (case v of
       Some (JString s) \<Rightarrow> s
     | Some (JNumber n) \<Rightarrow> number_text lib n
     | Some (JBool b) \<Rightarrow> if b then ''true'' else ''false''
     | _ \<Rightarrow> dflt)"

definition optional_string :: "json_lib \<Rightarrow> json option \<Rightarrow> string option" where
  "optional_string lib v = (case v of
       None \<Rightarrow> None
     | Some JNull \<Rightarrow> None
     | Some (JString s) \<Rightarrow> Some s
     | Some other \<Rightarrow> Some (json_to_string lib (Some other) ''''))"

fun json_truthy :: "json_lib \<Rightarrow> json option \<Rightarrow> bool" where
  "json_truthy lib None = False"
| "json_truthy lib (Some JNull) = False"
| "json_truthy lib (Some (JBool b)) = b"
| "json_truthy lib (Some (JNumber n)) =
     (case number_i64 lib n of Some i \<Rightarrow> i \<noteq> 0
      | None \<Rightarrow> case number_u64 lib n of Some u \<Rightarrow> u \<noteq> 0
      | None \<Rightarrow> case number_f64 lib n of None \<Rightarrow> False | Some f \<Rightarrow> \<not> f64_eq f 0)"
| "json_truthy lib (Some (JString s)) = (s \<noteq> [])"
| "json_truthy lib (Some (JArray a)) = (a \<noteq> [])"
| "json_truthy lib (Some (JObject _)) = True"

definition display_raw :: "json_lib \<Rightarrow> json option \<Rightarrow> string" where
  "display_raw lib v = (case v of None \<Rightarrow> ''undefined'' | Some JNull \<Rightarrow> ''null'' | Some other \<Rightarrow> to_text lib other)"

definition require_str :: "json option \<Rightarrow> string \<Rightarrow> miner_error + string" where
  "require_str v name = (case v of
       Some (JString s) \<Rightarrow> if s \<noteq> [] then Inr s else Inl (Unparsable (''missing string field `'' @ name @ ''`''))
     | _ \<Rightarrow> Inl (Unparsable (''missing string field `'' @ name @ ''`'')))"

definition require_num :: "json_lib \<Rightarrow> json option \<Rightarrow> string \<Rightarrow> miner_error + int" where
  "require_num lib v name = (case safe_number lib v of
       Some n \<Rightarrow> Inr n
     | None \<Rightarrow> Inl (Unparsable (''missing or out-of-range numeric field `'' @ name @ ''` (got '' @ display_raw lib v @ '')'')))"

section \<open>Status and counters\<close>

definition starts_with_ascii_alnum :: "string \<Rightarrow> bool" where
  "starts_with_ascii_alnum s = (case s of [] \<Rightarrow> False | c # _ \<Rightarrow> is_ascii_alphanumeric c)"

definition has_category :: "string \<Rightarrow> string \<Rightarrow> bool" where
  "has_category p upper = (case strip_prefix p upper of None \<Rightarrow> False | Some rest \<Rightarrow> rest = [] \<or> \<not> starts_with_ascii_alnum rest)"

definition narrow_miner_type :: "json_lib \<Rightarrow> json \<Rightarrow> miner_category" where
  "narrow_miner_type lib raw =
     (let text = (case raw of JNull \<Rightarrow> '''' | JString s \<Rightarrow> s | other \<Rightarrow> to_text lib other);
          upper = map ascii_upper text
      in if has_category ''CPU'' upper then Cpu
         else if has_category ''GPU'' upper then Gpu
         else if has_category ''QPU'' upper then Qpu
         else Other)"

definition controller_count :: "json_lib \<Rightarrow> json_map option \<Rightarrow> string \<Rightarrow> int" where
  "controller_count lib controller key = (case controller of None \<Rightarrow> 0
     | Some m \<Rightarrow> unwrap_or 0 (json_to_i64 lib (map_of m key)))"

definition parse_miner_stats_payload :: "json_lib \<Rightarrow> json \<Rightarrow> miner_stats" where
  "parse_miner_stats_payload lib raw =
     (let controller = Option.bind (get_key raw ''controller'') as_object
      in \<lparr>heads_observed = controller_count lib controller ''heads_observed'',
          contexts_dispatched = controller_count lib controller ''contexts_dispatched'',
          results_received = controller_count lib controller ''results_received'',
          proofs_submitted = controller_count lib controller ''proofs_submitted'',
          stale_drops = controller_count lib controller ''stale_drops'',
          submission_errors = controller_count lib controller ''submission_errors'',
          duplicate_result_drops = controller_count lib controller ''duplicate_result_drops''\<rparr>)"

definition miner_handle_of :: "json_lib \<Rightarrow> json_map \<Rightarrow> miner_handle" where
  "miner_handle_of lib obj = \<lparr>mh_id = json_to_string lib (map_of obj ''id'') '''',
     mh_miner_type = narrow_miner_type lib (unwrap_or JNull (map_of obj ''type''))\<rparr>"

definition parse_miner_handles :: "json_lib \<Rightarrow> json option \<Rightarrow> miner_handle list" where
  "parse_miner_handles lib raw = (case raw of
       Some (JArray items) \<Rightarrow> List.map_filter (\<lambda>item. map_option (miner_handle_of lib) (as_object item)) items
     | _ \<Rightarrow> [])"

definition mode_of :: "json_lib \<Rightarrow> json_map \<Rightarrow> mode_breakdown" where
  "mode_of lib v =
     (let ctrl = Option.bind (map_of v ''controller'') as_object
      in \<lparr>heads_observed = controller_count lib ctrl ''heads_observed'',
          contexts_dispatched = controller_count lib ctrl ''contexts_dispatched'',
          results_received = controller_count lib ctrl ''results_received'',
          proofs_submitted = controller_count lib ctrl ''proofs_submitted'',
          stale_drops = controller_count lib ctrl ''stale_drops'',
          submission_errors = controller_count lib ctrl ''submission_errors'',
          duplicate_result_drops = controller_count lib ctrl ''duplicate_result_drops'',
          mb_miners = parse_miner_handles lib (map_of v ''miners'')\<rparr>)"

definition parse_status_modes :: "json_lib \<Rightarrow> json option \<Rightarrow> (string \<rightharpoonup> mode_breakdown)" where
  "parse_status_modes lib raw = (case raw of
       Some (JObject m) \<Rightarrow> fold (\<lambda>(mode, value) out. case value of JObject v \<Rightarrow> out(mode \<mapsto> mode_of lib v) | _ \<Rightarrow> out) m Map.empty
     | _ \<Rightarrow> Map.empty)"

definition parse_status_primary_miner_id :: "json_lib \<Rightarrow> json \<Rightarrow> string option" where
  "parse_status_primary_miner_id lib raw =
     Option.bind (Option.bind (get_key raw ''miners'') as_array) (\<lambda>miners.
     case miners of [] \<Rightarrow> None | v # _ \<Rightarrow>
     Option.bind (as_object v) (\<lambda>first.
       let i = json_to_string lib (map_of first ''id'') '''' in if i = [] then None else Some i))"

definition miner_info_of :: "json_lib \<Rightarrow> json_map \<Rightarrow> miner_info" where
  "miner_info_of lib m =
     \<lparr>mi_registered_at = unwrap_or 0 (json_to_i64 lib (map_of m ''registered_at'')),
      mi_deposit = json_to_string lib (map_of m ''deposit'') ''0'',
      mi_proofs_submitted = json_to_string lib (map_of m ''proofs_submitted'') ''0'',
      mi_proofs_won = json_to_string lib (map_of m ''proofs_won'') ''0'',
      mi_rewards_earned = json_to_string lib (map_of m ''rewards_earned'') ''0''\<rparr>"

definition parse_node_status :: "json_lib \<Rightarrow> json \<Rightarrow> node_status" where
  "parse_node_status lib raw =
     (let chain = Option.bind (get_key raw ''chain'') as_object
      in \<lparr>ns_ss58_address = json_to_string lib (get_key raw ''ss58_address'') '''',
          ns_account_id_hex = json_to_string lib (get_key raw ''account_id_hex'') '''',
          ns_node_id = json_to_string lib (get_key raw ''node_id'') '''',
          ns_is_mining = json_truthy lib (get_key raw ''is_mining''),
          ns_uptime_seconds = unwrap_or 0 (json_to_i64 lib (get_key raw ''uptime_seconds'')),
          ns_chain_head_hash = (case Option.bind chain (\<lambda>c. map_of c ''head_hash'') of
             None \<Rightarrow> '''' | Some v \<Rightarrow> json_to_string lib (Some v) ''''),
          ns_chain_head_number = unwrap_or 0 (Option.bind chain (\<lambda>c. json_to_i64 lib (map_of c ''head_number''))),
          ns_miner_registered = json_truthy lib (get_key raw ''miner_registered''),
          ns_miner_info = (case get_key raw ''miner_info'' of Some (JObject m) \<Rightarrow> Some (miner_info_of lib m) | _ \<Rightarrow> None),
          ns_miners = parse_miner_handles lib (get_key raw ''miners''),
          ns_modes = parse_status_modes lib (get_key raw ''modes'')\<rparr>)"

definition envelope_failure :: "json_lib \<Rightarrow> json option \<Rightarrow> miner_error" where
  "envelope_failure lib e = EnvelopeFailure (json_to_string lib e ''envelope reported failure'')"

definition unwrap_envelope :: "json_lib \<Rightarrow> json \<Rightarrow> miner_error + json" where
  "unwrap_envelope lib raw = (case raw of
       JObject obj \<Rightarrow>
         if Option.bind (map_of obj ''success'') as_bool = Some False then Inl (envelope_failure lib (map_of obj ''error''))
         else (case map_of obj ''data'' of Some data \<Rightarrow> Inr data | None \<Rightarrow> Inr raw)
     | _ \<Rightarrow> Inr raw)"

section \<open>Attempts\<close>

definition nested_number :: "json_lib \<Rightarrow> json \<Rightarrow> string \<Rightarrow> int option" where
  "nested_number lib container key = (case container of JObject m \<Rightarrow> numeric_extra lib (map_of m key) | _ \<Rightarrow> None)"

definition fallback_num_valid :: "json_lib \<Rightarrow> json_map \<Rightarrow> int option" where
  "fallback_num_valid lib extra = (case numeric_extra lib (map_of extra ''n_unique_total'') of Some n \<Rightarrow> Some n
     | None \<Rightarrow> case numeric_extra lib (map_of extra ''num_valid'') of Some n \<Rightarrow> Some n
     | None \<Rightarrow> Option.bind (map_of extra ''solution_meta'') (\<lambda>meta. nested_number lib meta ''n_unique_total''))"

definition productivity_from_raw :: "json_lib \<Rightarrow> json_map \<Rightarrow> int option" where
  "productivity_from_raw lib r = (case nested_number lib (unwrap_or JNull (map_of r ''solution_meta'')) ''n_unique_total'' of
       Some n \<Rightarrow> Some n | None \<Rightarrow> numeric_extra lib (map_of r ''num_valid''))"

definition hoisted_keys :: "string list" where
  "hoisted_keys = [''type'', ''iter'', ''best_energy_milli'', ''result_kind'', ''miner_type'']"

definition string_field :: "json_map \<Rightarrow> string \<Rightarrow> string" where
  "string_field obj k = (case map_of obj k of Some (JString s) \<Rightarrow> s | _ \<Rightarrow> '''')"

definition parse_attempt :: "json_lib \<Rightarrow> json_map \<Rightarrow> mining_attempt option" where
  "parse_attempt lib obj =
     Option.bind (safe_number lib (map_of obj ''iter'')) (\<lambda>iter_n.
     Option.bind (safe_number lib (map_of obj ''best_energy_milli'')) (\<lambda>best_n.
     Some \<lparr>ma_iter = iter_n, ma_best_energy_milli = best_n,
       ma_result_kind = string_field obj ''result_kind'', ma_miner_type = string_field obj ''miner_type'',
       ma_extra = fold (\<lambda>(k, v) m. if k \<in> set hoisted_keys then m else insert_key k v m) obj []\<rparr>))"

record attempt_trail =
  at_count :: int
  at_best_energy_milli :: "int option"
  at_qpu_access_time_us :: int
  at_submitted_num_valid :: "int option"
  at_fallback_num_valid :: "int option"
  at_newest :: "mining_attempt list"

definition attempt_trail_default :: attempt_trail where
  "attempt_trail_default = \<lparr>at_count = 0, at_best_energy_milli = None, at_qpu_access_time_us = 0,
     at_submitted_num_valid = None, at_fallback_num_valid = None, at_newest = []\<rparr>"

definition ATTEMPT_TRAIL_LIMIT :: nat where
  "ATTEMPT_TRAIL_LIMIT = 500"

definition attempt_ts_ns :: "json_lib \<Rightarrow> mining_attempt \<Rightarrow> 128 word option" where
  "attempt_ts_ns lib a = (case map_of (ma_extra a) ''ts_ns'' of
       Some (JString raw) \<Rightarrow> parse_unsigned raw
     | Some (JNumber raw) \<Rightarrow> map_option ucast (number_u64 lib raw)
     | _ \<Rightarrow> None)"

definition attempt_key :: "json_lib \<Rightarrow> mining_attempt \<Rightarrow> 128 word option \<times> int" where
  "attempt_key lib a = (attempt_ts_ns lib a, ma_iter a)"

text \<open>\<open>sort_by_key\<close> is a stable sort, as \<open>sort_key\<close> is.\<close>

definition keep_newest_attempts :: "json_lib \<Rightarrow> mining_attempt list \<Rightarrow> mining_attempt list" where
  "keep_newest_attempts lib attempts =
     (if length attempts \<le> ATTEMPT_TRAIL_LIMIT then attempts
      else drop (length attempts - ATTEMPT_TRAIL_LIMIT) (sort_key (attempt_key lib) attempts))"

definition note_device_time :: "json_lib \<Rightarrow> json_map \<Rightarrow> attempt_trail \<Rightarrow> attempt_trail" where
  "note_device_time lib obj t = (case numeric_extra lib (map_of obj ''qpu_access_time_us'') of
       Some us \<Rightarrow> if 0 < us then t\<lparr>at_qpu_access_time_us := saturate_i64 (at_qpu_access_time_us t + us)\<rparr> else t
     | None \<Rightarrow> t)"

definition note_submitted :: "json_lib \<Rightarrow> json_map \<Rightarrow> attempt_trail \<Rightarrow> attempt_trail" where
  "note_submitted lib obj t =
     (let kind = map ascii_lower (unwrap_or '''' (Option.bind (map_of obj ''result_kind'') as_str_json))
      in if str_contains ''submit'' kind
         then (case productivity_from_raw lib obj of Some n \<Rightarrow> t\<lparr>at_submitted_num_valid := Some n\<rparr> | None \<Rightarrow> t)
         else t)"

definition note_attempt :: "json_lib \<Rightarrow> mining_attempt \<Rightarrow> attempt_trail \<Rightarrow> attempt_trail" where
  "note_attempt lib a t =
     (let newest = at_newest t @ [a]
      in t\<lparr>at_count := saturate_i64 (at_count t + 1),
          at_best_energy_milli := Some (case at_best_energy_milli t of None \<Rightarrow> ma_best_energy_milli a
            | Some best \<Rightarrow> min best (ma_best_energy_milli a)),
          at_fallback_num_valid := (case fallback_num_valid lib (ma_extra a) of Some n \<Rightarrow> Some n | None \<Rightarrow> at_fallback_num_valid t),
          at_newest := (if 2 * ATTEMPT_TRAIL_LIMIT \<le> length newest then keep_newest_attempts lib newest else newest)\<rparr>)"

definition push_attempt :: "json_lib \<Rightarrow> json \<Rightarrow> attempt_trail \<Rightarrow> attempt_trail" where
  "push_attempt lib raw t = (case as_object raw of None \<Rightarrow> t | Some obj \<Rightarrow>
     (let t = note_submitted lib obj (note_device_time lib obj t)
      in case parse_attempt lib obj of None \<Rightarrow> t | Some a \<Rightarrow> note_attempt lib a t))"

definition into_newest :: "json_lib \<Rightarrow> attempt_trail \<Rightarrow> mining_attempt list" where
  "into_newest lib t = keep_newest_attempts lib (at_newest t)"

definition from_raw :: "json_lib \<Rightarrow> json option \<Rightarrow> attempt_trail" where
  "from_raw lib raw = (case raw of
       Some (JArray items) \<Rightarrow> fold (push_attempt lib) items attempt_trail_default
     | _ \<Rightarrow> attempt_trail_default)"

definition num_valid_of :: "json_lib \<Rightarrow> json_map \<Rightarrow> attempt_trail \<Rightarrow> int" where
  "num_valid_of lib s trail = (case optional_num lib (map_of s ''num_valid'') of Some n \<Rightarrow> n
     | None \<Rightarrow> case at_submitted_num_valid trail of Some n \<Rightarrow> n
     | None \<Rightarrow> unwrap_or 0 (at_fallback_num_valid trail))"

definition mining_attempts_from_parts :: "json_lib \<Rightarrow> json option \<Rightarrow> attempt_trail \<Rightarrow> miner_error + mining_attempts_response" where
  "mining_attempts_from_parts lib submission trail = (case submission of
       Some (JObject s) \<Rightarrow>
         rbind (require_num lib (map_of s ''energy_milli'') ''energy_milli'') (\<lambda>energy_milli.
         rbind (require_num lib (map_of s ''solution_number'') ''solution_number'') (\<lambda>solution_number.
         rbind (require_str (map_of s ''miner_id'') ''miner_id'') (\<lambda>miner_id.
         rbind (require_num lib (map_of s ''diversity_milli'') ''diversity_milli'') (\<lambda>diversity_milli.
         rbind (require_num lib (map_of s ''threshold_milli'') ''threshold_milli'') (\<lambda>threshold_milli.
         rbind (require_str (map_of s ''last_proof_block_hash'') ''last_proof_block_hash'') (\<lambda>last_proof_block_hash.
         rbind (require_str (map_of s ''outcome'') ''outcome'') (\<lambda>outcome.
         Inr \<lparr>mr_submission = \<lparr>ms_solution_number = solution_number, ms_miner_id = miner_id,
               ms_miner_type = string_field s ''miner_type'',
               ms_ts_ns = json_to_string lib (map_of s ''ts_ns'') ''0'',
               ms_energy_milli = energy_milli, ms_diversity_milli = diversity_milli, ms_threshold_milli = threshold_milli,
               ms_last_proof_block_hash = last_proof_block_hash,
               ms_extrinsic_hash = optional_string lib (map_of s ''extrinsic_hash''),
               ms_chain_block_hash = optional_string lib (map_of s ''chain_block_hash''),
               ms_chain_block_number = (case map_of s ''chain_block_number'' of
                  None \<Rightarrow> None | Some JNull \<Rightarrow> None | Some v \<Rightarrow> Some (json_to_string lib (Some v) '''')),
               ms_pow_sequence = optional_num lib (map_of s ''pow_sequence''),
               ms_outcome = outcome, ms_attempt_count = at_count trail,
               ms_best_energy_milli = unwrap_or energy_milli (at_best_energy_milli trail),
               ms_num_valid = num_valid_of lib s trail,
               ms_qpu_access_time_us = at_qpu_access_time_us trail, ms_observed_at = ''''\<rparr>,
            mr_attempts = into_newest lib trail\<rparr>)))))))
     | _ \<Rightarrow> Inl (Unparsable ''missing `submission` field''))"

definition parse_mining_attempts_api_response :: "json_lib \<Rightarrow> json \<Rightarrow> miner_error + mining_attempts_response" where
  "parse_mining_attempts_api_response lib raw = (case raw of
       JObject env \<Rightarrow> mining_attempts_from_parts lib (map_of env ''submission'') (from_raw lib (map_of env ''attempts''))
     | _ \<Rightarrow> Inl (Unparsable ''response is not an object''))"

definition select_current_dispatch :: "int \<Rightarrow> mining_attempt list \<Rightarrow> mining_attempt list \<Rightarrow> current_dispatch option" where
  "select_current_dispatch solution current previous =
     (if current \<noteq> [] then Some \<lparr>cd_solution_number = solution, cd_attempts = current, cd_status = InFlight\<rparr>
      else if previous \<noteq> [] then Some \<lparr>cd_solution_number = saturate_i64 (solution - 1), cd_attempts = previous, cd_status = Completed\<rparr>
      else None)"

section \<open>The URL of a peer\<close>

definition with_port :: "string \<Rightarrow> 16 word option \<Rightarrow> string \<Rightarrow> string option" where
  "with_port scheme port without_scheme =
     (let trimmed = trim_end_matches (CHR ''/'') without_scheme
      in if trimmed = [] then None
         else case port of
           Some p \<Rightarrow> Some (scheme @ ''://'' @ trimmed @ '':'' @ unsigned_text p)
         | None \<Rightarrow> Some (scheme @ ''://'' @ trimmed))"

text \<open>\<open>len >= n && advertised[..n].eq_ignore_ascii_case(p)\<close>\<close>

definition prefix_ignore_case :: "nat \<Rightarrow> string \<Rightarrow> string \<Rightarrow> panic + bool" where
  "prefix_ignore_case n p advertised =
     (if n \<le> length advertised then rbind (slice_to advertised n) (\<lambda>h. Inr (eq_ignore_ascii_case h p)) else Inr False)"

definition split_scheme :: "string \<Rightarrow> 16 word option \<Rightarrow> panic + (string \<times> string)" where
  "split_scheme advertised port =
     (case strip_prefix ''https://'' advertised of Some rest \<Rightarrow> Inr (''https'', rest)
      | None \<Rightarrow> case strip_prefix ''http://'' advertised of Some rest \<Rightarrow> Inr (''http'', rest)
      | None \<Rightarrow>
        rbind (prefix_ignore_case 8 ''https://'' advertised) (\<lambda>https.
        if https then Inr (''https'', drop 8 advertised)
        else rbind (prefix_ignore_case 7 ''http://'' advertised) (\<lambda>http.
        if http then Inr (''http'', drop 7 advertised)
        else Inr (if port = Some 443 then ''https'' else ''http'', advertised))))"

definition resolve_peer_miner_rest_url :: "peer_host option \<Rightarrow> panic + string option" where
  "resolve_peer_miner_rest_url host = (case host of None \<Rightarrow> Inr None | Some host \<Rightarrow>
     (case ph_public_host host of None \<Rightarrow> Inr None | Some h \<Rightarrow>
       let advertised = trim h; port = ph_public_port host
       in if advertised = [] then Inr None
          else rbind (split_scheme advertised port) (\<lambda>(scheme, without_scheme). Inr (with_port scheme port without_scheme))))"

end
