(* ===== verification/Miner_Props.thy ===== *)
theory Miner_Props
  imports Miner_Parse "HOL-Library.Multiset"
begin

text \<open>
  Properties of the miner parsers: the bounded fold over a trail of attempts keeps what a sort of the
  whole trail would keep, numbers of an accepted submission are safe integers, decimal texts are read
  back, and which host names make the URL of a peer panic.
\<close>

section \<open>The last elements of a stable sort\<close>

definition newest_of :: "nat \<Rightarrow> ('a \<Rightarrow> 'k::linorder) \<Rightarrow> 'a list \<Rightarrow> 'a list" where
  "newest_of L k xs = drop (length xs - L) (sort_key k xs)"

lemma drop_insort_key:
  "L \<le> length (filter (\<lambda>y. k a \<le> k y) ss) \<Longrightarrow> drop (Suc (length ss) - L) (insort_key k a ss) = drop (length ss - L) ss"
proof (induction ss)
  case (Cons y ss)
  show ?case
  proof (cases "k a \<le> k y")
    case True
    have "L \<le> Suc (length ss)" using Cons.prems length_filter_le [of _ ss] by (simp add: True order_trans)
    with True show ?thesis by (simp add: Suc_diff_le)
  next
    case False
    with Cons.prems have L: "L \<le> length (filter (\<lambda>y. k a \<le> k y) ss)" by simp
    then have "L \<le> length ss" using length_filter_le order_trans by blast
    with False Cons.IH [OF L] show ?thesis by (simp add: Suc_diff_le)
  qed
qed simp

lemma length_filter_sort_key: "length (filter P (sort_key k xs)) = length (filter P xs)"
proof -
  have "mset (filter P (sort_key k xs)) = mset (filter P xs)" by (simp only: mset_filter mset_sort)
  then show ?thesis by (metis size_mset)
qed

lemma newest_of_skip:
  assumes "\<And>a. a \<in> set as \<Longrightarrow> L \<le> length (filter (\<lambda>y. k a \<le> k y) zs)"
  shows "newest_of L k (as @ zs) = newest_of L k zs"
  using assms
proof (induction as)
  case (Cons a as)
  have "L \<le> length (filter (\<lambda>y. k a \<le> k y) (as @ zs))" using Cons.prems [of a] by simp
  then have "newest_of L k (a # as @ zs) = newest_of L k (as @ zs)"
    using drop_insort_key [of L k a "sort_key k (as @ zs)"] by (simp add: newest_of_def length_filter_sort_key)
  with Cons show ?case by simp
qed simp

lemma sort_key_sorted_append: "sort_key k (xs @ ys) = sort_key k (sort_key k xs @ ys)"
proof (rule properties_for_sort_key [symmetric])
  have stable: "filter (\<lambda>x. k a = k x) (sort_key k zs) = filter (\<lambda>x. k a = k x) zs" for a zs
    using sort_key_stable [of k "k a" zs] by (simp add: eq_commute)
  show "mset (sort_key k (xs @ ys)) = mset (sort_key k xs @ ys)" by simp
  show "filter (\<lambda>x. k a = k x) (sort_key k (xs @ ys)) = filter (\<lambda>x. k a = k x) (sort_key k xs @ ys)"
    if "a \<in> set (sort_key k (xs @ ys))" for a
    by (simp add: stable)
qed simp

lemma newest_of_append:
  assumes "L \<le> length xs"
  shows "newest_of L k (newest_of L k xs @ ys) = newest_of L k (xs @ ys)"
proof -
  define s n where "s = sort_key k xs" and "n = length xs - L"
  have s: "s = take n s @ drop n s" and len: "length (drop n s) = L"
    using assms by (simp_all add: s_def n_def)
  have sorted: "sorted (map k (take n s @ drop n s))" by (simp add: s_def)
  have "L \<le> length (filter (\<lambda>y. k a \<le> k y) (drop n s @ ys))" if "a \<in> set (take n s)" for a
  proof -
    have "k a \<le> k b" if "b \<in> set (drop n s)" for b
      using sorted \<open>a \<in> _\<close> that unfolding map_append sorted_append by auto
    then have "filter (\<lambda>y. k a \<le> k y) (drop n s) = drop n s" by (simp add: filter_id_conv)
    with len show ?thesis by simp
  qed
  then have "newest_of L k (take n s @ drop n s @ ys) = newest_of L k (drop n s @ ys)" by (rule newest_of_skip)
  moreover have "newest_of L k (xs @ ys) = newest_of L k (s @ ys)"
    using sort_key_sorted_append [of k xs ys] by (simp add: newest_of_def s_def)
  moreover have "take n s @ drop n s @ ys = s @ ys" by simp
  moreover have "newest_of L k xs = drop n s" by (simp add: newest_of_def s_def n_def)
  ultimately show ?thesis by (simp only:)
qed

lemma length_newest_of: "length (newest_of L k xs) = min L (length xs)"
  by (simp add: newest_of_def)

section \<open>The trail\<close>

text \<open>The rows that count, and the device time a row reports.\<close>

definition parsed_attempts :: "json_lib \<Rightarrow> json list \<Rightarrow> mining_attempt list" where
  "parsed_attempts lib rows = List.map_filter (\<lambda>r. Option.bind (as_object r) (parse_attempt lib)) rows"

definition device_time :: "json_lib \<Rightarrow> json \<Rightarrow> int" where
  "device_time lib r = (case Option.bind (as_object r) (\<lambda>obj. numeric_extra lib (map_of obj ''qpu_access_time_us'')) of
     None \<Rightarrow> 0 | Some us \<Rightarrow> max 0 us)"

definition trail_ok :: "json_lib \<Rightarrow> mining_attempt list \<Rightarrow> mining_attempt list \<Rightarrow> bool" where
  "trail_ok lib ps newest \<longleftrightarrow> length newest < 2 * ATTEMPT_TRAIL_LIMIT \<and>
     (newest = ps \<or> (\<exists>qs rs. ps = qs @ rs \<and> newest = newest_of ATTEMPT_TRAIL_LIMIT (attempt_key lib) qs @ rs
        \<and> ATTEMPT_TRAIL_LIMIT < length qs))"

lemma keep_newest_is_newest_of:
  "ATTEMPT_TRAIL_LIMIT < length xs \<Longrightarrow> keep_newest_attempts lib xs = newest_of ATTEMPT_TRAIL_LIMIT (attempt_key lib) xs"
  by (simp add: keep_newest_attempts_def newest_of_def)

lemma trail_ok_keep:
  assumes "trail_ok lib ps newest" and "ATTEMPT_TRAIL_LIMIT < length newest"
  shows "keep_newest_attempts lib newest = newest_of ATTEMPT_TRAIL_LIMIT (attempt_key lib) ps"
  using assms(1) unfolding trail_ok_def
proof (elim conjE disjE exE)
  fix qs rs
  assume d: "ps = qs @ rs" "newest = newest_of ATTEMPT_TRAIL_LIMIT (attempt_key lib) qs @ rs" "ATTEMPT_TRAIL_LIMIT < length qs"
  have "keep_newest_attempts lib newest = newest_of ATTEMPT_TRAIL_LIMIT (attempt_key lib) newest"
    by (rule keep_newest_is_newest_of [OF assms(2)])
  also have "\<dots> = newest_of ATTEMPT_TRAIL_LIMIT (attempt_key lib) ps"
    unfolding d(1,2) by (rule newest_of_append) (use d(3) in simp)
  finally show ?thesis .
qed (use assms(2) in \<open>simp add: keep_newest_is_newest_of\<close>)

lemma trail_ok_finish:
  assumes "trail_ok lib ps newest"
  shows "keep_newest_attempts lib newest = keep_newest_attempts lib ps"
proof (cases "ATTEMPT_TRAIL_LIMIT < length newest")
  case True
  have "length newest \<le> length ps" using assms by (auto simp: trail_ok_def length_newest_of)
  with True have "ATTEMPT_TRAIL_LIMIT < length ps" by simp
  with trail_ok_keep [OF assms True] show ?thesis by (simp add: keep_newest_is_newest_of)
next
  case False
  then have keep: "keep_newest_attempts lib newest = newest" by (simp add: keep_newest_attempts_def)
  from assms consider "newest = ps" | qs rs where "ps = qs @ rs"
      "newest = newest_of ATTEMPT_TRAIL_LIMIT (attempt_key lib) qs @ rs" "ATTEMPT_TRAIL_LIMIT < length qs"
    by (auto simp: trail_ok_def)
  then show ?thesis
  proof cases
    case 2
    with False have "rs = []" by (cases rs) (auto simp: length_newest_of)
    with 2 keep show ?thesis by (simp add: keep_newest_is_newest_of)
  qed simp
qed

lemma trail_ok_step:
  assumes "trail_ok lib ps newest"
  shows "trail_ok lib (ps @ [a])
    (if 2 * ATTEMPT_TRAIL_LIMIT \<le> length (newest @ [a]) then keep_newest_attempts lib (newest @ [a]) else newest @ [a])"
proof -
  let ?ok = "\<lambda>n. n = ps @ [a] \<or> (\<exists>qs rs. ps @ [a] = qs @ rs
    \<and> n = newest_of ATTEMPT_TRAIL_LIMIT (attempt_key lib) qs @ rs \<and> ATTEMPT_TRAIL_LIMIT < length qs)"
  have appended: "?ok (newest @ [a])"
    using assms unfolding trail_ok_def
  proof (elim conjE disjE exE)
    fix qs rs
    assume "ps = qs @ rs" "newest = newest_of ATTEMPT_TRAIL_LIMIT (attempt_key lib) qs @ rs" "ATTEMPT_TRAIL_LIMIT < length qs"
    then show ?thesis by (intro disjI2 exI [of _ qs] exI [of _ "rs @ [a]"]) simp
  qed simp
  show ?thesis
  proof (cases "2 * ATTEMPT_TRAIL_LIMIT \<le> length (newest @ [a])")
    case True
    then have big: "ATTEMPT_TRAIL_LIMIT < length (newest @ [a])" by (simp add: ATTEMPT_TRAIL_LIMIT_def)
    have "keep_newest_attempts lib (newest @ [a]) = newest_of ATTEMPT_TRAIL_LIMIT (attempt_key lib) (ps @ [a])"
      unfolding keep_newest_is_newest_of [OF big]
      using appended newest_of_append [of ATTEMPT_TRAIL_LIMIT, OF less_imp_le] by auto
    moreover have "length newest \<le> length ps" using assms by (auto simp: trail_ok_def length_newest_of)
    with big have "ATTEMPT_TRAIL_LIMIT < length (ps @ [a])" by simp
    ultimately have "ps @ [a] = (ps @ [a]) @ [] \<and> keep_newest_attempts lib (newest @ [a])
        = newest_of ATTEMPT_TRAIL_LIMIT (attempt_key lib) (ps @ [a]) @ [] \<and> ATTEMPT_TRAIL_LIMIT < length (ps @ [a])"
      by simp
    moreover from this have "length (keep_newest_attempts lib (newest @ [a])) < 2 * ATTEMPT_TRAIL_LIMIT"
      by (simp add: length_newest_of ATTEMPT_TRAIL_LIMIT_def)
    ultimately show ?thesis using True unfolding trail_ok_def if_P [OF True] by blast
  next
    case False
    with appended show ?thesis by (auto simp: trail_ok_def)
  qed
qed

text \<open>What the trail holds after a list of rows.\<close>

definition trail_summary :: "json_lib \<Rightarrow> json list \<Rightarrow> attempt_trail \<Rightarrow> bool" where
  "trail_summary lib rows t \<longleftrightarrow> trail_ok lib (parsed_attempts lib rows) (at_newest t)
     \<and> at_count t = min (int (length (parsed_attempts lib rows))) (2 ^ 63 - 1)
     \<and> at_best_energy_milli t = (if parsed_attempts lib rows = [] then None
         else Some (Min (ma_best_energy_milli ` set (parsed_attempts lib rows))))
     \<and> at_qpu_access_time_us t = min (sum_list (map (device_time lib) rows)) (2 ^ 63 - 1)"

lemma parsed_attempts_simps:
  "parsed_attempts lib [] = []"
  "parsed_attempts lib (rows @ [r]) = parsed_attempts lib rows
     @ (case Option.bind (as_object r) (parse_attempt lib) of None \<Rightarrow> [] | Some a \<Rightarrow> [a])"
  by (simp_all add: parsed_attempts_def List.map_filter_def split: option.splits)

lemma device_time_nonneg: "0 \<le> device_time lib r"
  by (simp add: device_time_def split: option.splits)

lemma saturate_add_min: "0 \<le> d \<Longrightarrow> 0 \<le> s \<Longrightarrow> saturate_i64 (min s (2 ^ 63 - 1) + d) = min (s + d) (2 ^ 63 - 1)"
  by (auto simp: saturate_i64_def)

lemma sum_device_nonneg: "0 \<le> sum_list (map (device_time lib) rows)"
  by (rule sum_list_nonneg) (auto simp: device_time_nonneg)

lemma note_device_time_effect:
  assumes "at_qpu_access_time_us t = min s (2 ^ 63 - 1)" and "0 \<le> s" and "as_object r = Some obj"
  shows "note_device_time lib obj t = t\<lparr>at_qpu_access_time_us := min (s + device_time lib r) (2 ^ 63 - 1)\<rparr>"
proof (cases "numeric_extra lib (map_of obj ''qpu_access_time_us'')")
  case None
  with assms show ?thesis by (simp add: note_device_time_def device_time_def)
next
  case (Some us)
  with assms saturate_add_min [of us s] show ?thesis by (simp add: note_device_time_def device_time_def max_def)
qed

lemma note_submitted_frame:
  "at_count (note_submitted lib obj t) = at_count t" "at_best_energy_milli (note_submitted lib obj t) = at_best_energy_milli t"
  "at_qpu_access_time_us (note_submitted lib obj t) = at_qpu_access_time_us t" "at_newest (note_submitted lib obj t) = at_newest t"
  by (simp_all add: note_submitted_def Let_def split: option.splits)

lemma Min_snoc: "Some (case (if ps = [] then None else Some (Min (f ` set ps))) of None \<Rightarrow> f a | Some b \<Rightarrow> min b (f a))
    = Some (Min (f ` set (ps @ [a])))" for f :: "'a \<Rightarrow> int"
  by (auto simp: min.commute)

lemma push_attempt_summary:
  assumes "trail_summary lib rows t"
  shows "trail_summary lib (rows @ [r]) (push_attempt lib r t)"
proof (cases "as_object r")
  case None
  with assms show ?thesis by (simp add: trail_summary_def push_attempt_def parsed_attempts_simps device_time_def)
next
  case (Some obj)
  let ?t = "note_submitted lib obj (note_device_time lib obj t)"
  let ?s = "sum_list (map (device_time lib) rows)"
  note dev = note_device_time_effect [OF _ sum_device_nonneg Some, of t lib rows]
  from assms have s: "at_qpu_access_time_us t = min ?s (2 ^ 63 - 1)" by (simp add: trail_summary_def)
  have t: "at_newest ?t = at_newest t" "at_count ?t = at_count t" "at_best_energy_milli ?t = at_best_energy_milli t"
    "at_qpu_access_time_us ?t = min (?s + device_time lib r) (2 ^ 63 - 1)"
    by (simp_all add: note_submitted_frame dev [OF s])
  show ?thesis
  proof (cases "parse_attempt lib obj")
    case None
    with assms Some t show ?thesis by (simp add: trail_summary_def push_attempt_def parsed_attempts_simps Let_def)
  next
    case parsed: (Some a)
    have count: "saturate_i64 (min (int n) (2 ^ 63 - 1) + 1) = min (int n + 1) (2 ^ 63 - 1)" for n
      by (rule saturate_add_min) simp_all
    have ps: "parsed_attempts lib (rows @ [r]) = parsed_attempts lib rows @ [a]"
      using Some parsed by (simp add: parsed_attempts_simps)
    have push: "push_attempt lib r t = note_attempt lib a ?t" using Some parsed by (simp add: push_attempt_def Let_def)
    have newest: "at_newest (note_attempt lib a ?t) = (if 2 * ATTEMPT_TRAIL_LIMIT \<le> length (at_newest t @ [a])
        then keep_newest_attempts lib (at_newest t @ [a]) else at_newest t @ [a])"
      by (simp add: note_attempt_def Let_def t)
    have best: "at_best_energy_milli (note_attempt lib a ?t)
        = Some (case at_best_energy_milli t of None \<Rightarrow> ma_best_energy_milli a | Some best \<Rightarrow> min best (ma_best_energy_milli a))"
      and others: "at_count (note_attempt lib a ?t) = saturate_i64 (at_count t + 1)"
      "at_qpu_access_time_us (note_attempt lib a ?t) = at_qpu_access_time_us ?t"
      by (simp_all add: note_attempt_def Let_def t)
    from assms have inv: "trail_ok lib (parsed_attempts lib rows) (at_newest t)"
      "at_count t = min (int (length (parsed_attempts lib rows))) (2 ^ 63 - 1)"
      "at_best_energy_milli t = (if parsed_attempts lib rows = [] then None
         else Some (Min (ma_best_energy_milli ` set (parsed_attempts lib rows))))"
      unfolding trail_summary_def by blast+
    show ?thesis
      unfolding trail_summary_def push newest best others t(4) ps inv(2,3)
      using trail_ok_step [OF inv(1)] count Min_snoc [where ps = "parsed_attempts lib rows"] by (simp add: add.commute)
  qed
qed

lemma trail_of_rows: "trail_summary lib rows (fold (push_attempt lib) rows attempt_trail_default)"
proof (induction rows rule: rev_induct)
  case Nil
  show ?case by (simp add: trail_summary_def attempt_trail_default_def parsed_attempts_simps trail_ok_def ATTEMPT_TRAIL_LIMIT_def)
next
  case (snoc r rows)
  then show ?case by (simp add: push_attempt_summary)
qed

text \<open>
  C8. The bounded fold over a trail of any length equals the unbounded computation: it keeps fewer than
  1000 rows at any time, yet the rows it returns are those a stable sort of all parsed rows by time and
  iteration would put last (all of them, in arrival order, when there are at most 500), and the count,
  the best energy and the device time cover every row, saturating at the maximum of \<open>i64\<close>.
\<close>

theorem attempt_trail_exact:
  "let t = fold (push_attempt lib) rows attempt_trail_default; ps = parsed_attempts lib rows
   in length (at_newest t) < 1000
      \<and> into_newest lib t = (if length ps \<le> 500 then ps else drop (length ps - 500) (sort_key (attempt_key lib) ps))
      \<and> at_count t = min (int (length ps)) (2 ^ 63 - 1)
      \<and> at_best_energy_milli t = (if ps = [] then None else Some (Min (ma_best_energy_milli ` set ps)))
      \<and> at_qpu_access_time_us t = min (sum_list (map (device_time lib) rows)) (2 ^ 63 - 1)"
proof -
  let ?t = "fold (push_attempt lib) rows attempt_trail_default"
  note s = trail_of_rows [of lib rows, unfolded trail_summary_def]
  have "length (at_newest ?t) < 1000" using s by (simp add: trail_ok_def ATTEMPT_TRAIL_LIMIT_def)
  moreover have "into_newest lib ?t = keep_newest_attempts lib (parsed_attempts lib rows)"
    unfolding into_newest_def using s by (intro trail_ok_finish) simp
  ultimately show ?thesis using s by (simp add: Let_def keep_newest_attempts_def ATTEMPT_TRAIL_LIMIT_def)
qed

section \<open>Numbers\<close>

definition safe_int :: "int \<Rightarrow> bool" where
  "safe_int n \<longleftrightarrow> \<bar>n\<bar> \<le> 9007199254740991"

lemma safe_number_safe: "safe_number lib v = Some n \<Longrightarrow> safe_int n"
  by (auto simp: safe_number_def safe_int_def MAX_SAFE_INTEGER_def split: option.splits if_splits)

lemma numeric_extra_safe: "numeric_extra lib v = Some n \<Longrightarrow> safe_int n"
  by (auto simp: numeric_extra_def dest: safe_number_safe split: option.splits json.splits)

lemma optional_num_safe: "optional_num lib v = Some n \<Longrightarrow> safe_int n"
  by (auto simp: optional_num_def dest: numeric_extra_safe split: option.splits json.splits)

lemma nested_number_safe: "nested_number lib v k = Some n \<Longrightarrow> safe_int n"
  by (auto simp: nested_number_def dest: numeric_extra_safe split: json.splits)

lemma productivity_safe: "productivity_from_raw lib r = Some n \<Longrightarrow> safe_int n"
  by (auto simp: productivity_from_raw_def dest: numeric_extra_safe nested_number_safe split: option.splits)

lemma fallback_safe: "fallback_num_valid lib e = Some n \<Longrightarrow> safe_int n"
  by (auto simp: fallback_num_valid_def dest: numeric_extra_safe nested_number_safe
      split: option.splits Option.bind_splits)

lemma parse_attempt_safe: "parse_attempt lib obj = Some a \<Longrightarrow> safe_int (ma_iter a) \<and> safe_int (ma_best_energy_milli a)"
  by (auto simp: parse_attempt_def dest: safe_number_safe split: Option.bind_splits)

definition safe_attempt :: "mining_attempt \<Rightarrow> bool" where
  "safe_attempt a \<longleftrightarrow> safe_int (ma_iter a) \<and> safe_int (ma_best_energy_milli a)"

definition safe_trail :: "attempt_trail \<Rightarrow> bool" where
  "safe_trail t \<longleftrightarrow> list_all safe_attempt (at_newest t) \<and> pred_option safe_int (at_best_energy_milli t)
     \<and> pred_option safe_int (at_submitted_num_valid t) \<and> pred_option safe_int (at_fallback_num_valid t)"

lemma keep_newest_safe: "list_all safe_attempt xs \<Longrightarrow> list_all safe_attempt (keep_newest_attempts lib xs)"
  by (auto simp: keep_newest_attempts_def list_all_iff dest: in_set_dropD)

lemma push_attempt_safe: "safe_trail t \<Longrightarrow> safe_trail (push_attempt lib r t)"
proof -
  assume t: "safe_trail t"
  have dev: "safe_trail (note_device_time lib obj t)" for obj
    using t by (simp add: safe_trail_def note_device_time_def split: option.splits)
  have sub: "safe_trail (note_submitted lib obj u)" if "safe_trail u" for obj u
    using that by (auto simp: safe_trail_def note_submitted_def Let_def dest: productivity_safe split: option.splits)
  have att: "safe_trail (note_attempt lib a u)" if "safe_trail u" "safe_attempt a" for a u
  proof -
    have "list_all safe_attempt (at_newest u @ [a])" using that by (simp add: safe_trail_def)
    then show ?thesis using that keep_newest_safe [of "at_newest u @ [a]" lib]
      by (auto simp: safe_trail_def note_attempt_def Let_def safe_attempt_def min_def dest: fallback_safe split: option.splits)
  qed
  show ?thesis
    using t sub [OF dev] att [OF sub [OF dev]] parse_attempt_safe
    by (auto simp: push_attempt_def Let_def safe_attempt_def split: option.splits)
qed

lemma from_raw_safe: "safe_trail (from_raw lib raw)"
proof -
  have "safe_trail (fold (push_attempt lib) items t)" if "safe_trail t" for items t
    using that by (induction items arbitrary: t) (auto intro: push_attempt_safe)
  moreover have "safe_trail attempt_trail_default" by (simp add: safe_trail_def attempt_trail_default_def)
  ultimately show ?thesis by (auto simp: from_raw_def split: option.splits json.splits)
qed

lemma require_num_Inr: "(require_num lib v name = Inr n) = (safe_number lib v = Some n)"
  by (auto simp: require_num_def split: option.splits)

lemma require_str_Inr: "(require_str v name = Inr t) = (v = Some (JString t) \<and> t \<noteq> [])"
  by (auto simp: require_str_def split: option.splits json.splits if_splits)

lemmas require_Inr = require_num_Inr require_str_Inr rbind_Inr

text \<open>
  A submission is accepted exactly when its object is there, its four numbers are safe integers and
  its three texts are not empty. Device time and counts of the trail never make it fail.
\<close>

theorem submission_accepted_exactly:
  "(\<exists>r. parse_mining_attempts_api_response lib (JObject env) = Inr r)
   = (\<exists>s. map_of env ''submission'' = Some (JObject s)
      \<and> list_all (\<lambda>k. safe_number lib (map_of s k) \<noteq> None) [''energy_milli'', ''solution_number'', ''diversity_milli'', ''threshold_milli'']
      \<and> list_all (\<lambda>k. map_of s k \<in> {Some (JString t) | t. t \<noteq> []}) [''miner_id'', ''last_proof_block_hash'', ''outcome''])"
proof (cases "\<exists>s. map_of env ''submission'' = Some (JObject s)")
  case True
  then obtain s where s: "map_of env ''submission'' = Some (JObject s)" by blast
  show ?thesis
    by (simp add: parse_mining_attempts_api_response_def mining_attempts_from_parts_def s require_Inr)
      (auto intro: exI)
next
  case False
  then show ?thesis
    by (auto simp: parse_mining_attempts_api_response_def mining_attempts_from_parts_def split: option.splits json.splits)
qed


text \<open>A library that reads no numbers, and a submission whose numbers are texts.\<close>

definition sample_json_lib :: json_lib where
  "sample_json_lib = \<lparr>number_i64 = (\<lambda>_. None), number_u64 = (\<lambda>_. None), number_f64 = (\<lambda>_. None),
     number_text = (\<lambda>s. s), to_text = (\<lambda>_. ''?'')\<rparr>"

definition sample_submission :: json where
  "sample_submission = JObject [(''attempts'', JArray [JObject [(''best_energy_milli'', JString ''-7''), (''iter'', JString ''1'')]]),
     (''submission'', JObject [(''diversity_milli'', JString ''250''), (''energy_milli'', JString '' -42 ''),
        (''last_proof_block_hash'', JString ''0xab''), (''miner_id'', JString ''m''), (''outcome'', JString ''won''),
        (''solution_number'', JString ''9''), (''threshold_milli'', JString ''-40'')])]"

lemmas decimal_eval = safe_number_def parse_decimal_i64_def trim_def strip_all.simps strip_one_def whitespace_bytes_def
  parse_signed_def is_digit_of_char dec_val_def digit_val_def i128_abs_def i64_try_from_def MAX_SAFE_INTEGER_def

lemma sample_numbers:
  "safe_number lib (Some (JString '' -42 '')) = Some (- 42)" "safe_number lib (Some (JString ''-7'')) = Some (- 7)"
  "safe_number lib (Some (JString ''1'')) = Some 1" "safe_number lib (Some (JString ''9'')) = Some 9"
  "safe_number lib (Some (JString ''250'')) = Some 250" "safe_number lib (Some (JString ''-40'')) = Some (- 40)"
  by (simp_all add: decimal_eval)


lemma strip_all_visible:
  assumes "s \<noteq> []" and "\<And>w. w \<in> set ws \<Longrightarrow> w \<noteq> [] \<Longrightarrow> hd w \<noteq> hd s"
  shows "strip_all ws s = s"
proof -
  have "strip_one ws s = None"
    using assms by (force simp: strip_one_def find_None_iff hd_take split: option.splits
        dest: arg_cong [of _ _ hd])
  then show ?thesis by (subst strip_all.simps) simp
qed

lemma whitespace_edges:
  "list_all (\<lambda>w. (case w of [] \<Rightarrow> True | c # _ \<Rightarrow> \<not> is_digit c \<and> c \<noteq> CHR ''-'')
     \<and> (case rev w of [] \<Rightarrow> True | c # _ \<Rightarrow> \<not> is_digit c)) whitespace_bytes"
  by code_simp

lemma trim_visible:
  assumes "s \<noteq> []" and "is_digit (hd s) \<or> hd s = CHR ''-''" and "is_digit (last s)"
  shows "trim s = s"
proof -
  have "strip_all whitespace_bytes s = s"
  proof (rule strip_all_visible [OF assms(1)])
    fix w assume "w \<in> set whitespace_bytes" "w \<noteq> []"
    with whitespace_edges assms(2) show "hd w \<noteq> hd s" by (cases w) (auto simp: list_all_iff)
  qed
  moreover have "strip_all (map rev whitespace_bytes) (rev s) = rev s"
  proof (rule strip_all_visible)
    fix w assume w: "w \<in> set (map rev whitespace_bytes)" "w \<noteq> []"
    then obtain u where u: "u \<in> set whitespace_bytes" "w = rev u" by auto
    with whitespace_edges have "case w of [] \<Rightarrow> True | c # _ \<Rightarrow> \<not> is_digit c" by (auto simp: list_all_iff)
    then show "hd w \<noteq> hd (rev s)" using w(2) assms(1,3) by (cases w) (auto simp: hd_rev)
  qed (use assms(1) in simp)
  ultimately show ?thesis by (simp add: trim_def)
qed

lemma digits_not_sign: "list_all is_digit s \<Longrightarrow> s \<noteq> [] \<Longrightarrow> hd s \<noteq> CHR ''-'' \<and> hd s \<noteq> CHR ''+''"
  by (cases s) (auto simp: is_digit_of_char)

lemma parse_signed_int_text:
  "parse_signed w (int_text n) = (if - (2 ^ (w - 1)) \<le> n \<and> n < 2 ^ (w - 1) then Some n else None)"
proof (cases "n < 0")
  case True
  then show ?thesis
    using nat_text_digits [of "nat (- n)"] nat_text_nonempty [of "nat (- n)"]
    by (auto simp: parse_signed_def int_text_def Let_def)
next
  case False
  obtain c cs where t: "nat_text (nat n) = c # cs" using nat_text_nonempty [of "nat n"] by (cases "nat_text (nat n)") auto
  then have "dec_val (c # cs) = nat n" "list_all is_digit (c # cs)"
    using dec_val_nat_text [of "nat n"] nat_text_digits [of "nat n"] by simp_all
  with False digits_not_sign [of "c # cs"] show ?thesis by (auto simp: parse_signed_def int_text_def t Let_def)
qed

lemma trim_int_text: "trim (int_text n) = int_text n"
proof (rule trim_visible)
  have d: "list_all is_digit (nat_text k)" "nat_text k \<noteq> []" for k by (rule nat_text_digits nat_text_nonempty)+
  then have "is_digit (hd (nat_text k))" "is_digit (last (nat_text k))" for k
    by (metis list_all_iff list.set_sel(1), metis list_all_iff last_in_set)
  with d show "is_digit (hd (int_text n)) \<or> hd (int_text n) = CHR ''-''" "is_digit (last (int_text n))" "int_text n \<noteq> []"
    by (auto simp: int_text_def)
qed

text \<open>
  A decimal text is read as the integer it prints, when that integer is safe, and is refused
  otherwise, whatever its length.
\<close>

theorem decimal_text_read_back:
  "safe_number lib (Some (JString (int_text n))) = (if \<bar>n\<bar> \<le> 9007199254740991 then Some n else None)"
proof (cases "- (2 ^ 127) \<le> n \<and> n < 2 ^ 127")
  case True
  have "int_text n \<noteq> []" using nat_text_nonempty by (simp add: int_text_def)
  with True have "parse_decimal_i64 (int_text n) =
      (if MAX_SAFE_INTEGER < i128_abs n
       then if 2 ^ 63 - 1 < i128_abs n then None
            else (case i64_try_from n of None \<Rightarrow> None | Some n \<Rightarrow> if \<bar>n\<bar> \<le> MAX_SAFE_INTEGER then Some n else None)
       else i64_try_from n)"
    by (simp add: parse_decimal_i64_def trim_int_text parse_signed_int_text Let_def)
  also have "\<dots> = (if \<bar>n\<bar> \<le> 9007199254740991 then Some n else None)"
    by (auto simp: MAX_SAFE_INTEGER_def i128_abs_def i64_try_from_def)
  finally show ?thesis by (simp add: safe_number_def MAX_SAFE_INTEGER_def)
next
  case False
  then have "parse_signed 128 (int_text n) = None" by (auto simp: parse_signed_int_text)
  then have "parse_decimal_i64 (int_text n) = None"
    by (simp add: parse_decimal_i64_def trim_int_text Let_def)
  with False show ?thesis by (auto simp: safe_number_def)
qed

section \<open>The URL of a peer\<close>

lemma ascii_lower_slash: "ascii_lower c = CHR ''/'' \<Longrightarrow> of_char c = (47 :: nat)"
proof -
  assume "ascii_lower c = CHR ''/''"
  then have "(of_char (ascii_lower c) :: nat) = 47" by simp
  then show ?thesis by (auto simp: ascii_lower_def Let_def split: if_splits)
qed

lemma https_slash_boundary:
  assumes "eq_ignore_ascii_case (take 8 a) ''https://''" and "8 \<le> length a"
  shows "is_char_boundary a 7"
proof -
  from assms have "map ascii_lower (take 8 a) ! 7 = CHR ''/''" by (simp add: eq_ignore_ascii_case_def) (simp add: ascii_lower_def)
  with assms(2) have "ascii_lower (a ! 7) = CHR ''/''" by simp
  from ascii_lower_slash [OF this] assms(2) show ?thesis by (simp add: is_char_boundary_def Let_def)
qed

text \<open>
  Resolving a peer panics exactly when the trimmed host starts with neither scheme in lower case and
  its byte 7 or 8 continues a multi-byte character, so a host name from the chain can make it panic.
\<close>

theorem peer_url_panics_exactly:
  "(resolve_peer_miner_rest_url (Some \<lparr>ph_public_host = Some h, ph_public_port = port\<rparr>) = Inl SliceBoundary)
   = (let a = trim h
      in strip_prefix ''https://'' a = None \<and> strip_prefix ''http://'' a = None
         \<and> (7 < length a \<and> \<not> is_char_boundary a 7 \<or> 8 < length a \<and> \<not> is_char_boundary a 8))"
proof -
  have cut: "prefix_ignore_case n p a = (if n \<le> length a \<and> \<not> is_char_boundary a n then Inl SliceBoundary
      else Inr (n \<le> length a \<and> eq_ignore_ascii_case (take n a) p))" for n p a
    by (simp add: prefix_ignore_case_def slice_to_def)
  have inner: "(n \<le> length a \<and> \<not> is_char_boundary a n) = (n < length a \<and> \<not> is_char_boundary a n)" for n a
    by (auto simp: is_char_boundary_def)
  have empty: "trim h = [] \<Longrightarrow> \<not> 7 < length (trim h)" by simp
  show ?thesis
    using https_slash_boundary [of "trim h"] empty
    by (auto simp: resolve_peer_miner_rest_url_def split_scheme_def cut inner Let_def split: option.splits)
qed

text \<open>For instance a host of seven ASCII letters followed by a two-byte letter.\<close>

lemma peer_url_panic_example:
  "resolve_peer_miner_rest_url (Some \<lparr>ph_public_host = Some (''minhost'' @ [char_of (195 :: nat), char_of (169 :: nat)] @ ''.net''),
     ph_public_port = None\<rparr>) = Inl SliceBoundary"
  by code_simp

text \<open>The category prefix accepts an underscore where a word boundary would not.\<close>

lemma narrow_underscore: "narrow_miner_type sample_json_lib (JString ''cpu_pool'') = Cpu"
  by code_simp

end
