(* ===== verification/Qblock_Files.thy ===== *)
theory Qblock_Files
  imports Json Store_Types "HOL-Library.AList"
begin

text \<open>
  The file tree of the dashboard (\<open>qblock_path.rs\<close>, \<open>indexer/file_writer.rs\<close>): one merged JSON file per
  qblock, telemetry files per miner, a manifest of recent qblocks and one manifest per older day. A file
  tree maps paths (lists of components below the root) to files; directories are implied by the paths of
  their files. Every call to the operating system may fail as an environment decides, and a failed write
  may leave any contents behind.
\<close>

section \<open>The operating system\<close>

type_synonym path = "string list"

datatype io_error = IoNotFound | IoOther string

text \<open>Contents with the modification time in seconds since 1970, or a symbolic link.\<close>

datatype 'b entry = Regular 'b (entry_mtime: int) | Symlink string (entry_mtime: int)

type_synonym 'b fs = "(path \<times> 'b entry) list"

datatype io_op = CreateDirs path | WriteFile path | Rename path | ReadFile path | TryExists path | SetModified path
  | ReadDirs path | LinkMetadata path | MakeLink path

record 'b io_env =
  io_fail :: "io_op \<Rightarrow> io_error option"
  io_partial :: "path \<Rightarrow> 'b option"
  io_now :: int
  io_pid :: string
  io_cwd :: string

type_synonym ('b, 'a) io = "'b fs \<Rightarrow> (io_error + 'a) \<times> 'b fs"

definition io_return :: "'a \<Rightarrow> ('b, 'a) io" where
  "io_return x fs = (Inr x, fs)"

definition io_raise :: "io_error \<Rightarrow> ('b, 'a) io" where
  "io_raise e fs = (Inl e, fs)"

definition io_bind :: "('b, 'a) io \<Rightarrow> ('a \<Rightarrow> ('b, 'c) io) \<Rightarrow> ('b, 'c) io" where
  "io_bind m k fs = (case m fs of (Inl e, fs') \<Rightarrow> (Inl e, fs') | (Inr x, fs') \<Rightarrow> k x fs')"

definition io_lift :: "io_error + 'a \<Rightarrow> ('b, 'a) io" where
  "io_lift r fs = (r, fs)"

definition io_call :: "'b io_env \<Rightarrow> io_op \<Rightarrow> ('b, 'a) io \<Rightarrow> ('b, 'a) io" where
  "io_call env op m = (case io_fail env op of Some e \<Rightarrow> io_raise e | None \<Rightarrow> m)"

definition fs_write :: "'b io_env \<Rightarrow> path \<Rightarrow> 'b \<Rightarrow> ('b, unit) io" where
  "fs_write env p b fs = (case io_fail env (WriteFile p) of
       None \<Rightarrow> (Inr (), AList.update p (Regular b (io_now env)) fs)
     | Some e \<Rightarrow> (Inl e, case io_partial env p of None \<Rightarrow> fs | Some b' \<Rightarrow> AList.update p (Regular b' (io_now env)) fs))"

definition fs_rename :: "'b io_env \<Rightarrow> path \<Rightarrow> path \<Rightarrow> ('b, unit) io" where
  "fs_rename env src dst = io_call env (Rename dst) (\<lambda>fs. case map_of fs src of
     None \<Rightarrow> (Inl IoNotFound, fs) | Some f \<Rightarrow> (Inr (), AList.update dst f (AList.delete src fs)))"

definition fs_read :: "'b io_env \<Rightarrow> path \<Rightarrow> ('b, 'b) io" where
  "fs_read env p = io_call env (ReadFile p) (\<lambda>fs. case map_of fs p of
     Some (Regular b _) \<Rightarrow> (Inr b, fs) | _ \<Rightarrow> (Inl IoNotFound, fs))"

definition fs_present :: "path \<Rightarrow> 'b fs \<Rightarrow> bool" where
  "fs_present p fs = list_ex (\<lambda>(q, _). take (length p) q = p) fs"

section \<open>Paths\<close>

fun path_text :: "path \<Rightarrow> string" where
  "path_text [] = []"
| "path_text [c] = c"
| "path_text (c # cs) = c @ ''/'' @ path_text cs"

text \<open>Libraries: the digest, and \<open>serde_json\<close> between records, values and bytes; dates are \<open>chrono\<close>'s.\<close>

record 'b file_lib =
  sha256 :: "string \<Rightarrow> u8 list"
  winner_value :: "block_record \<Rightarrow> io_error + json"
  participant_value :: "participation_record \<Rightarrow> io_error + json"
  to_vec :: "json \<Rightarrow> io_error + 'b"
  from_slice :: "'b \<Rightarrow> json option"
  day_text :: "int \<Rightarrow> string option"

definition hex_byte :: "u8 \<Rightarrow> string" where
  "hex_byte b = (let d = (\<lambda>n. ''0123456789abcdef'' ! n) in [d (unat b div 16), d (unat b mod 16)])"

definition hash_prefix :: "'b file_lib \<Rightarrow> string \<Rightarrow> string \<times> string" where
  "hash_prefix lib i = (let hex = concat (map hex_byte (sha256 lib i)) in (take 4 hex, take 4 (drop 4 hex)))"

definition qblock_filename :: "string \<Rightarrow> string" where
  "qblock_filename i = i @ ''.json''"

text \<open>Ids are decimal, so that characters are bytes.\<close>

definition qblock_rel_path :: "'b file_lib \<Rightarrow> string \<Rightarrow> path" where
  "qblock_rel_path lib i =
     (let (a, b) = hash_prefix lib i; tail = (if length i < 8 then i else drop 8 i)
      in [a, b, tail @ ''.json''])"

definition dashboard_rel_path :: "string \<Rightarrow> path" where
  "dashboard_rel_path account = [''miners'', account]"

definition tmp_path :: "'b io_env \<Rightarrow> path \<Rightarrow> path" where
  "tmp_path env p = butlast p @ [''.'' @ last p @ ''.'' @ io_pid env @ ''.tmp'']"

definition atomic_write :: "'b io_env \<Rightarrow> path \<Rightarrow> 'b \<Rightarrow> ('b, unit) io" where
  "atomic_write env rel bytes =
     io_bind (io_call env (CreateDirs (butlast rel)) (io_return ())) (\<lambda>_.
     io_bind (fs_write env (tmp_path env rel) bytes) (\<lambda>_.
     fs_rename env (tmp_path env rel) rel))"

section \<open>The writer\<close>

definition MAX_MANIFEST_ENTRIES :: nat where
  "MAX_MANIFEST_ENTRIES = 10000"

definition write_value :: "'b file_lib \<Rightarrow> 'b io_env \<Rightarrow> path \<Rightarrow> json \<Rightarrow> ('b, unit) io" where
  "write_value lib env rel payload = io_bind (io_lift (to_vec lib payload)) (\<lambda>bytes. atomic_write env rel bytes)"

definition qblock_file :: "'b file_lib \<Rightarrow> string \<Rightarrow> path" where
  "qblock_file lib i = ''qblocks'' # qblock_rel_path lib i"

definition write_qblock :: "'b file_lib \<Rightarrow> 'b io_env \<Rightarrow> string \<Rightarrow> json \<Rightarrow> ('b, unit) io" where
  "write_qblock lib env i payload = write_value lib env (qblock_file lib i) payload"

definition write_miner_attempt :: "'b file_lib \<Rightarrow> 'b io_env \<Rightarrow> string \<Rightarrow> string \<Rightarrow> json \<Rightarrow> ('b, unit) io" where
  "write_miner_attempt lib env account i payload =
     write_value lib env ([''miners'', account, ''mining-attempts''] @ qblock_rel_path lib i) payload"

definition write_miner_doc :: "'b file_lib \<Rightarrow> 'b io_env \<Rightarrow> string \<Rightarrow> string \<Rightarrow> json \<Rightarrow> ('b, unit) io" where
  "write_miner_doc lib env account name payload = write_value lib env [''miners'', account, name @ ''.json''] payload"

definition write_miner_status :: "'b file_lib \<Rightarrow> 'b io_env \<Rightarrow> string \<Rightarrow> json \<Rightarrow> ('b, unit) io" where
  "write_miner_status lib env account payload = write_miner_doc lib env account ''status'' payload"

definition write_miner_stats :: "'b file_lib \<Rightarrow> 'b io_env \<Rightarrow> string \<Rightarrow> json \<Rightarrow> ('b, unit) io" where
  "write_miner_stats lib env account payload = write_miner_doc lib env account ''stats'' payload"

definition write_miner_current_dispatch :: "'b file_lib \<Rightarrow> 'b io_env \<Rightarrow> string \<Rightarrow> json \<Rightarrow> ('b, unit) io" where
  "write_miner_current_dispatch lib env account payload = write_miner_doc lib env account ''current-dispatch'' payload"

text \<open>A path is absolute when it starts with a slash.\<close>

definition symlink_miner_attempts :: "'b io_env \<Rightarrow> string \<Rightarrow> string \<Rightarrow> ('b, unit) io" where
  "symlink_miner_attempts env account source =
     (let target = [''miners'', account, ''mining-attempts'']
      in io_call env (LinkMetadata target) (\<lambda>fs.
         if fs_present target fs then (Inr (), fs)
         else io_call env (CreateDirs (butlast target)) (io_call env (MakeLink target) (\<lambda>fs.
           let source_abs = (if take 1 source = ''/'' then source else io_cwd env @ ''/'' @ source)
           in (Inr (), AList.update target (Symlink source_abs (io_now env)) fs))) fs))"

definition string_list :: "json \<Rightarrow> string \<Rightarrow> string list" where
  "string_list value key = (case Option.bind (get_key value key) as_array of
     None \<Rightarrow> [] | Some entries \<Rightarrow> List.map_filter as_str_json entries)"

definition manifest_path :: path where
  "manifest_path = [''qblocks'', ''metadata.json'']"

definition update_manifest :: "'b file_lib \<Rightarrow> 'b io_env \<Rightarrow> string list \<Rightarrow> string list \<Rightarrow> ('b, unit) io" where
  "update_manifest lib env recent older =
     write_value lib env manifest_path (JObject [(''history'', JArray (map JString older)), (''qblocks'', JArray (map JString recent))])"

definition prepend_new :: "string \<Rightarrow> string list \<Rightarrow> string list" where
  "prepend_new p current = (if p \<in> set current then current else p # current)"

definition read_manifest :: "'b file_lib \<Rightarrow> 'b io_env \<Rightarrow> ('b, json) io" where
  "read_manifest lib env fs = (case fs_read env manifest_path fs of
       (Inr bytes, fs') \<Rightarrow> (Inr (case from_slice lib bytes of Some v \<Rightarrow> v | None \<Rightarrow> JNull), fs')
     | (Inl IoNotFound, fs') \<Rightarrow> (Inr JNull, fs')
     | (Inl e, fs') \<Rightarrow> (Inl e, fs'))"

definition add_to_manifest :: "'b file_lib \<Rightarrow> 'b io_env \<Rightarrow> string list \<Rightarrow> ('b, unit) io" where
  "add_to_manifest lib env rel_paths =
     io_bind (read_manifest lib env) (\<lambda>existing.
       let current = fold prepend_new rel_paths (string_list existing ''qblocks'')
       in update_manifest lib env (take MAX_MANIFEST_ENTRIES current) (string_list existing ''history''))"

text \<open>The rows of a qblock file: those of the file, then the first new one of every account not seen.\<close>

definition row_account :: "json \<Rightarrow> string option" where
  "row_account r = Option.bind (get_key r ''account'') as_str_json"

fun merge_rows :: "'b file_lib \<Rightarrow> participation_record list \<Rightarrow> json list \<Rightarrow> string list \<Rightarrow> io_error + json list" where
  "merge_rows lib [] rows seen = Inr rows"
| "merge_rows lib (p # ps) rows seen =
     (if pr_account p \<in> set seen then merge_rows lib ps rows seen
      else rbind (participant_value lib p) (\<lambda>v. merge_rows lib ps (rows @ [v]) (seen @ [pr_account p])))"

definition merge_file :: "'b file_lib \<Rightarrow> string \<Rightarrow> block_record option \<Rightarrow> participation_record list \<Rightarrow> json \<Rightarrow> io_error + json" where
  "merge_file lib i w ps existing =
     (let rows = (case Option.bind (get_key existing ''participation'') as_array of Some rows \<Rightarrow> rows | None \<Rightarrow> [])
      in rbind (merge_rows lib ps rows (List.map_filter row_account rows)) (\<lambda>merged.
         case existing of JObject obj \<Rightarrow>
           (let obj = insert_key ''qblockId'' (JString i) obj
            in rbind (case w of
                  Some w \<Rightarrow> rbind (winner_value lib w) (\<lambda>v. Inr (insert_key ''winner'' v obj))
                | None \<Rightarrow> Inr (if map_of obj ''winner'' = None then insert_key ''winner'' JNull obj else obj)) (\<lambda>obj.
               Inr (JObject (insert_key ''participation'' (JArray merged) obj))))
         | _ \<Rightarrow> Inl (IoOther ''qblock payload is not an object'')))"

definition read_qblock :: "'b file_lib \<Rightarrow> 'b io_env \<Rightarrow> path \<Rightarrow> ('b, json) io" where
  "read_qblock lib env rel fs =
     (if io_fail env (TryExists rel) = None \<and> fs_present rel fs
      then io_bind (fs_read env rel) (\<lambda>bytes. io_return (case from_slice lib bytes of Some v \<Rightarrow> v | None \<Rightarrow> JObject [])) fs
      else (Inr (JObject []), fs))"

definition write_qblock_merged :: "'b file_lib \<Rightarrow> 'b io_env \<Rightarrow> string \<Rightarrow> block_record option \<Rightarrow> participation_record list \<Rightarrow> ('b, unit) io" where
  "write_qblock_merged lib env i w ps =
     io_bind (read_qblock lib env (qblock_file lib i)) (\<lambda>existing.
     io_bind (io_lift (merge_file lib i w ps existing)) (\<lambda>merged.
     write_value lib env (qblock_file lib i) merged))"

definition push_new :: "'a \<Rightarrow> 'a list \<Rightarrow> 'a list" where
  "push_new x xs = (if x \<in> set xs then xs else xs @ [x])"

definition batch_ids :: "block_record option \<Rightarrow> participation_record list \<Rightarrow> string list" where
  "batch_ids w ps = fold (\<lambda>p. push_new (as_str (pr_qblock_id p))) ps
     (case w of Some w \<Rightarrow> [as_str (br_qblock_id w)] | None \<Rightarrow> [])"

fun write_ids :: "'b file_lib \<Rightarrow> 'b io_env \<Rightarrow> block_record option \<Rightarrow> participation_record list \<Rightarrow> string list \<Rightarrow>
    'b fs \<Rightarrow> (string \<times> (io_error + unit)) list \<times> 'b fs" where
  "write_ids lib env w ps [] fs = ([], fs)"
| "write_ids lib env w ps (i # ids) fs =
     (let id_participation = filter (\<lambda>p. as_str (pr_qblock_id p) = i) ps;
          id_winner = (case w of Some w \<Rightarrow> if as_str (br_qblock_id w) = i then Some w else None | None \<Rightarrow> None);
          (r, fs) = write_qblock_merged lib env i id_winner id_participation fs;
          (rs, fs) = write_ids lib env w ps ids fs
      in ((i, r) # rs, fs))"

text \<open>A failure of the manifest is logged only.\<close>

definition write_batch :: "'b file_lib \<Rightarrow> 'b io_env \<Rightarrow> block_record option \<Rightarrow> participation_record list \<Rightarrow>
    'b fs \<Rightarrow> (string \<times> (io_error + unit)) list \<times> 'b fs" where
  "write_batch lib env w ps fs =
     (let ids = batch_ids w ps;
          (results, fs) = write_ids lib env w ps ids fs;
          written = fold (\<lambda>i. push_new (path_text (qblock_file lib i))) ids []
      in (results, if list_all (\<lambda>(_, r). r = Inr ()) results \<and> written \<noteq> []
           then snd (add_to_manifest lib env written fs) else fs))"

definition has_qblock :: "'b file_lib \<Rightarrow> 'b io_env \<Rightarrow> string \<Rightarrow> ('b, bool) io" where
  "has_qblock lib env i = io_call env (TryExists (qblock_file lib i)) (\<lambda>fs. (Inr (fs_present (qblock_file lib i) fs), fs))"

definition set_modified :: "'b io_env \<Rightarrow> path \<Rightarrow> int \<Rightarrow> ('b, unit) io" where
  "set_modified env p t = io_call env (SetModified p) (\<lambda>fs. case map_of fs p of
     Some (Regular b _) \<Rightarrow> (Inr (), AList.update p (Regular b t) fs) | _ \<Rightarrow> (Inl IoNotFound, fs))"

definition restore_qblock :: "'b file_lib \<Rightarrow> 'b io_env \<Rightarrow> block_record \<Rightarrow> participation_record list \<Rightarrow> ('b, bool) io" where
  "restore_qblock lib env w ps =
     (let i = as_str (br_qblock_id w)
      in io_bind (has_qblock lib env i) (\<lambda>exists.
         if exists then io_return False
         else io_bind (write_qblock_merged lib env i (Some w) ps) (\<lambda>_.
         io_bind (set_modified env (qblock_file lib i) (uint (br_timestamp w))) (\<lambda>_.
         io_return True))))"

section \<open>Manifests\<close>

text \<open>\<open>Path::extension\<close>: a name whose only dot is its first byte has none.\<close>

definition has_json_extension :: "string \<Rightarrow> bool" where
  "has_json_extension name \<longleftrightarrow> 5 < length name \<and> drop (length name - 5) name = ''.json''"

text \<open>The walk below \<open>qblocks\<close> leaves out the directory of day manifests and the manifest itself.\<close>

definition listed_path :: "path \<Rightarrow> bool" where
  "listed_path p \<longleftrightarrow> 2 \<le> length p \<and> take 1 p = [''qblocks''] \<and> take 2 p \<noteq> [''qblocks'', ''days'']
     \<and> has_json_extension (last p) \<and> last p \<noteq> ''metadata.json''"

type_synonym dated = "int \<times> string"

fun day_push :: "string \<Rightarrow> dated \<Rightarrow> (string \<times> dated list) list \<Rightarrow> (string \<times> dated list) list" where
  "day_push day x [] = [(day, [x])]"
| "day_push day x ((d, xs) # days) =
     (if day < d then (day, [x]) # (d, xs) # days else if day = d then (d, xs @ [x]) # days else (d, xs) # day_push day x days)"

definition file_under :: "'b file_lib \<Rightarrow> int \<Rightarrow> path \<times> 'b entry \<Rightarrow> dated list \<times> (string \<times> dated list) list
    \<Rightarrow> io_error + dated list \<times> (string \<times> dated list) list" where
  "file_under lib recent_since pe acc =
     (let (p, e) = pe; (recent, days) = acc; mtime = entry_mtime e; x = (mtime, path_text p)
      in if \<not> listed_path p then Inr acc
         else if mtime < 0 then Inr acc
         else if 2 ^ 63 \<le> mtime then Inl (IoOther ''out of range integral type conversion attempted'')
         else if recent_since \<le> mtime then Inr (recent @ [x], days)
         else (case day_text lib mtime of
             None \<Rightarrow> Inl (IoOther ''qblock mtime out of range'')
           | Some day \<Rightarrow> Inr (recent, day_push day x days)))"

definition newest_first :: "dated list \<Rightarrow> string list" where
  "newest_first xs = map snd (sort_key (\<lambda>x. - fst x) xs)"

definition day_manifest :: "string \<Rightarrow> path" where
  "day_manifest day = [''qblocks'', ''days'', day @ ''.json'']"

fun write_days :: "'b file_lib \<Rightarrow> 'b io_env \<Rightarrow> (string \<times> dated list) list \<Rightarrow> string list \<Rightarrow> ('b, string list) io" where
  "write_days lib env [] older fs = (Inr older, fs)"
| "write_days lib env ((day, entries) # days) older fs =
     io_bind (write_value lib env (day_manifest day) (JObject [(''qblocks'', JArray (map JString (newest_first entries)))]))
       (\<lambda>_. write_days lib env days (older @ [path_text (day_manifest day)])) fs"

definition rebuild_manifests :: "'b file_lib \<Rightarrow> 'b io_env \<Rightarrow> int \<Rightarrow> ('b, unit) io" where
  "rebuild_manifests lib env recent_since fs =
     (if io_fail env (TryExists [''qblocks'']) \<noteq> None \<or> \<not> fs_present [''qblocks''] fs then update_manifest lib env [] [] fs
      else io_bind (io_call env (ReadDirs [''qblocks'']) (io_lift (rfold (file_under lib recent_since) fs ([], [])))) (\<lambda>(recent, days).
           io_bind (write_days lib env (rev days) []) (\<lambda>older.
           update_manifest lib env (newest_first recent) older)) fs)"

section \<open>Restoring files from the store\<close>

definition RESTORE_MIN_AGE_SECS :: u64 where
  "RESTORE_MIN_AGE_SECS = 300"

text \<open>One winner: whether it was checked without an error; the rows come from the store.\<close>

definition restore_one :: "'b file_lib \<Rightarrow> 'b io_env \<Rightarrow> (string \<Rightarrow> string + participation_record list) \<Rightarrow> block_record
    \<Rightarrow> 'b fs \<Rightarrow> bool \<times> 'b fs" where
  "restore_one lib env rows w fs =
     (let i = as_str (br_qblock_id w)
      in case has_qblock lib env i fs of
           (Inr True, fs) \<Rightarrow> (True, fs)
         | (Inl _, fs) \<Rightarrow> (False, fs)
         | (Inr False, fs) \<Rightarrow>
             (case rows i of Inl _ \<Rightarrow> (False, fs)
              | Inr ps \<Rightarrow> (case restore_qblock lib env w ps fs of (Inr _, fs) \<Rightarrow> (True, fs) | (Inl _, fs) \<Rightarrow> (False, fs))))"

fun restore_all :: "'b file_lib \<Rightarrow> 'b io_env \<Rightarrow> (string \<Rightarrow> string + participation_record list) \<Rightarrow> block_record list
    \<Rightarrow> bool \<Rightarrow> 'b fs \<Rightarrow> bool \<times> 'b fs" where
  "restore_all lib env rows [] complete fs = (complete, fs)"
| "restore_all lib env rows (w # ws) complete fs =
     (case restore_one lib env rows w fs of (ok, fs) \<Rightarrow> restore_all lib env rows ws (complete \<and> ok) fs)"

definition restore_qblock_files :: "'b file_lib \<Rightarrow> 'b io_env \<Rightarrow> (int \<Rightarrow> string + block_record list)
    \<Rightarrow> (string \<Rightarrow> string + participation_record list) \<Rightarrow> int \<Rightarrow> 'b fs \<Rightarrow> bool \<times> 'b fs" where
  "restore_qblock_files lib env blocks_since rows since fs = (case blocks_since since of
       Inl _ \<Rightarrow> (False, fs)
     | Inr winners \<Rightarrow>
         (let settled = saturating_sub (if 0 \<le> io_now env \<and> io_now env < 2 ^ 64 then of_int (io_now env) else 0) RESTORE_MIN_AGE_SECS
          in restore_all lib env rows (filter (\<lambda>w. br_timestamp w \<le> settled) winners) True fs))"

text \<open>One pass of the hourly maintenance, shared by the indexer and the export task.\<close>

definition RECENT_DAYS :: int where
  "RECENT_DAYS = 14"

definition maintain_tick :: "'b file_lib \<Rightarrow> 'b io_env \<Rightarrow> (int \<Rightarrow> string + block_record list)
    \<Rightarrow> (string \<Rightarrow> string + participation_record list) \<Rightarrow> int \<times> 'b fs \<Rightarrow> int \<times> 'b fs" where
  "maintain_tick lib env blocks_since rows st =
     (let (restore_since, fs) = st;
          recent_since = io_now env - RECENT_DAYS * 86400;
          (complete, fs) = restore_qblock_files lib env blocks_since rows restore_since fs;
          restore_since = (if complete then recent_since else restore_since);
          (_, fs) = rebuild_manifests lib env recent_since fs
      in (restore_since, fs))"

end
