(* ===== verification/Qblock_Props.thy ===== *)
theory Qblock_Props
  imports Qblock_Files
begin

text \<open>
  Properties of the file tree: writes are all or nothing, merging keeps what earlier commits wrote,
  a rebuild lists every file once, and which ids the manifests miss.
\<close>

lemmas io_defs = io_bind_def io_return_def io_raise_def io_lift_def io_call_def

section \<open>Atomic writes\<close>

lemma tmp_path_neq: "tmp_path env p \<noteq> p"
proof
  assume "tmp_path env p = p"
  then have "last (tmp_path env p) = last p" by simp
  then have "length (''.'' @ last p @ ''.'' @ io_pid env @ ''.tmp'') = length (last p)" by (simp add: tmp_path_def)
  then show False by simp
qed

text \<open>What a write does, as one case distinction.\<close>

definition write_effect :: "'b io_env \<Rightarrow> path \<Rightarrow> 'b \<Rightarrow> 'b fs \<Rightarrow> (io_error + unit) \<times> 'b fs \<Rightarrow> bool" where
  "write_effect env p b fs out = (case out of (r, fs') \<Rightarrow>
     {q. map_of fs' q \<noteq> map_of fs q} \<subseteq> {p, tmp_path env p}
     \<and> (case r of Inr _ \<Rightarrow> map_of fs' p = Some (Regular b (io_now env)) \<and> map_of fs' (tmp_path env p) = None
        | Inl _ \<Rightarrow> map_of fs' p = map_of fs p))"

lemma atomic_write_effect: "write_effect env p b fs (atomic_write env p b fs)"
proof -
  note neq = tmp_path_neq [of env p]
  show ?thesis
  proof (cases "io_fail env (CreateDirs (butlast p))")
    case (Some e)
    then show ?thesis by (simp add: write_effect_def atomic_write_def io_defs)
  next
    case dirs: None
    show ?thesis
    proof (cases "io_fail env (WriteFile (tmp_path env p))")
      case (Some e)
      with dirs neq show ?thesis
        by (auto simp: write_effect_def atomic_write_def fs_write_def io_defs update_conv split: option.splits)
    next
      case None
      let ?fs = "AList.update (tmp_path env p) (Regular b (io_now env)) fs"
      have tmp: "map_of ?fs (tmp_path env p) = Some (Regular b (io_now env))" by (simp add: update_conv)
      show ?thesis
        using dirs None neq tmp
        by (auto simp: write_effect_def atomic_write_def fs_write_def fs_rename_def io_defs update_conv delete_conv
            split: option.splits)
    qed
  qed
qed

text \<open>
  C29. A write of a file is all or nothing, whatever call fails and whatever a failed write leaves behind:
  when it succeeds the target has exactly the new bytes and no temporary file remains, when it fails
  the target is untouched, and no other file changes.
\<close>

theorem atomic_write_all_or_nothing:
  "case atomic_write env p b fs of (r, fs') \<Rightarrow>
     {q. map_of fs' q \<noteq> map_of fs q} \<subseteq> {p, tmp_path env p}
     \<and> (case r of Inr _ \<Rightarrow> map_of fs' p = Some (Regular b (io_now env)) \<and> map_of fs' (tmp_path env p) = None
        | Inl _ \<Rightarrow> map_of fs' p = map_of fs p)"
  using atomic_write_effect [of env p b fs] by (simp add: write_effect_def)

lemma write_value_Inr:
  assumes "write_value lib env p v fs = (Inr x, fs')"
  obtains b where "to_vec lib v = Inr b" "map_of fs' p = Some (Regular b (io_now env))"
    "\<And>q. q \<noteq> p \<Longrightarrow> q \<noteq> tmp_path env p \<Longrightarrow> map_of fs' q = map_of fs q"
proof (cases "to_vec lib v")
  case (Inl e)
  with assms show thesis by (simp add: write_value_def io_defs)
next
  case (Inr b)
  with assms have "atomic_write env p b fs = (Inr x, fs')" by (simp add: write_value_def io_defs)
  with atomic_write_effect [of env p b fs] have "write_effect env p b fs (Inr x, fs')" by simp
  then show thesis by (intro that [OF Inr]) (auto simp: write_effect_def)
qed

section \<open>Merging\<close>

text \<open>What the sources rely on of \<open>serde\<close>: bytes of a value are read back, and a participation row has its account.\<close>

definition serde_ok :: "'b file_lib \<Rightarrow> bool" where
  "serde_ok lib \<longleftrightarrow> (\<forall>v b. to_vec lib v = Inr b \<longrightarrow> from_slice lib b = Some v)
     \<and> (\<forall>p v. participant_value lib p = Inr v \<longrightarrow> row_account v = Some (pr_account p))"

definition file_json :: "'b file_lib \<Rightarrow> 'b fs \<Rightarrow> path \<Rightarrow> json option" where
  "file_json lib fs p = (case map_of fs p of Some (Regular b _) \<Rightarrow> from_slice lib b | _ \<Rightarrow> None)"

lemma write_value_json:
  assumes "serde_ok lib" and "write_value lib env p v fs = (Inr x, fs')"
  shows "file_json lib fs' p = Some v"
  using assms by (auto simp: serde_ok_def file_json_def elim!: write_value_Inr)

lemma write_value_frame:
  assumes "write_value lib env p v fs = (Inr x, fs')" and "q \<noteq> p" and "q \<noteq> tmp_path env p"
  shows "file_json lib fs' q = file_json lib fs q"
  using assms by (auto simp: file_json_def elim!: write_value_Inr)

definition old_object :: "'b file_lib \<Rightarrow> 'b fs \<Rightarrow> path \<Rightarrow> json_map" where
  "old_object lib fs p = (case file_json lib fs p of Some (JObject m) \<Rightarrow> m | _ \<Rightarrow> [])"

definition object_rows :: "json_map \<Rightarrow> json list" where
  "object_rows m = (case Option.bind (map_of m ''participation'') as_array of Some rows \<Rightarrow> rows | None \<Rightarrow> [])"

text \<open>The first row of every account that is not in the list.\<close>

fun first_rows :: "participation_record list \<Rightarrow> string list \<Rightarrow> participation_record list" where
  "first_rows [] seen = []"
| "first_rows (p # ps) seen = (if pr_account p \<in> set seen then first_rows ps seen else p # first_rows ps (seen @ [pr_account p]))"

lemma merge_rows_Inr:
  "merge_rows lib ps rows seen = Inr merged \<Longrightarrow>
   \<exists>new. merged = rows @ new \<and> rmap_list (participant_value lib) (first_rows ps seen) = Inr new"
proof (induction lib ps rows seen arbitrary: merged rule: merge_rows.induct)
  case (2 lib p ps rows seen)
  then show ?case by (fastforce simp: rbind_Inr split: if_splits)
qed simp

lemma first_rows_accounts:
  "distinct (map pr_account (first_rows ps seen)) \<and> set (map pr_account (first_rows ps seen)) = pr_account ` set ps - set seen"
  by (induction ps seen rule: first_rows.induct) auto

text \<open>The object that a merge writes over an old one.\<close>

definition merges_to :: "'b file_lib \<Rightarrow> string \<Rightarrow> block_record option \<Rightarrow> participation_record list \<Rightarrow> json_map \<Rightarrow> json_map \<Rightarrow> bool" where
  "merges_to lib i w ps old m \<longleftrightarrow>
     map_of m ''qblockId'' = Some (JString i)
     \<and> (case w of Some w \<Rightarrow> Inr (the (map_of m ''winner'')) = winner_value lib w
        | None \<Rightarrow> map_of m ''winner'' = Some (case map_of old ''winner'' of Some v \<Rightarrow> v | None \<Rightarrow> JNull))
     \<and> (\<exists>new. map_of m ''participation'' = Some (JArray (object_rows old @ new))
          \<and> rmap_list (participant_value lib) (first_rows ps (List.map_filter row_account (object_rows old))) = Inr new)
     \<and> (\<forall>k. k \<notin> {''qblockId'', ''winner'', ''participation''} \<longrightarrow> map_of m k = map_of old k)"

lemma merge_file_Inr:
  assumes "merge_file lib i w ps (JObject old) = Inr v"
  shows "\<exists>m. v = JObject m \<and> merges_to lib i w ps old m"
proof -
  have rows: "(case Option.bind (get_key (JObject old) ''participation'') as_array of Some rows \<Rightarrow> rows | None \<Rightarrow> []) = object_rows old"
    by (simp add: object_rows_def get_key_def)
  from assms obtain merged obj where m: "merge_rows lib ps (object_rows old) (List.map_filter row_account (object_rows old)) = Inr merged"
    and obj: "(case w of Some w \<Rightarrow> rbind (winner_value lib w) (\<lambda>v. Inr (insert_key ''winner'' v (insert_key ''qblockId'' (JString i) old)))
        | None \<Rightarrow> Inr (if map_of (insert_key ''qblockId'' (JString i) old) ''winner'' = None
            then insert_key ''winner'' JNull (insert_key ''qblockId'' (JString i) old) else insert_key ''qblockId'' (JString i) old)) = Inr obj"
    and v: "v = JObject (insert_key ''participation'' (JArray merged) obj)"
    by (auto simp: merge_file_def rows Let_def rbind_Inr)
  obtain new where "merged = object_rows old @ new"
    "rmap_list (participant_value lib) (first_rows ps (List.map_filter row_account (object_rows old))) = Inr new"
    using merge_rows_Inr [OF m] by blast
  with obj v show ?thesis
    by (intro exI [of _ "insert_key ''participation'' (JArray merged) obj"])
      (auto simp: merges_to_def rbind_Inr split: option.splits if_splits)
qed

lemma merge_file_object: "merge_file lib i w ps v = Inr v' \<Longrightarrow> \<exists>m. v = JObject m"
  by (cases v) (auto simp: merge_file_def rbind_Inr Let_def)

lemma fs_present_file: "map_of fs p = Some f \<Longrightarrow> fs_present p fs"
  by (auto simp: fs_present_def list_ex_iff dest!: map_of_SomeD intro!: bexI [of _ "(p, f)"])

lemma read_qblock_Inr:
  assumes "read_qblock lib env p fs = (Inr v, fs')" and "io_fail env (TryExists p) = None"
  shows "fs' = fs \<and> v = (case file_json lib fs p of Some v \<Rightarrow> v | None \<Rightarrow> JObject [])"
  using assms fs_present_file [of fs p]
  by (auto simp: read_qblock_def fs_read_def file_json_def io_defs split: if_splits option.splits entry.splits)

text \<open>
  Committing a winner and participants to the file of a qblock only adds to it: the new file has the
  id, the new winner or else the old one, all old rows in their order followed by one row for each
  account that is new, and every other field of the old file.
\<close>

theorem merged_file_accumulates:
  assumes "serde_ok lib" and "io_fail env (TryExists (qblock_file lib i)) = None"
    and "write_qblock_merged lib env i w ps fs = (Inr (), fs')"
  shows "\<exists>m. file_json lib fs' (qblock_file lib i) = Some (JObject m)
    \<and> merges_to lib i w ps (old_object lib fs (qblock_file lib i)) m"
proof -
  let ?p = "qblock_file lib i"
  from assms(3) obtain v fs1 merged where rd: "read_qblock lib env ?p fs = (Inr v, fs1)"
    and mg: "merge_file lib i w ps v = Inr merged" and wr: "write_value lib env ?p merged fs1 = (Inr (), fs')"
    by (auto simp: write_qblock_merged_def io_defs split: prod.splits sum.splits)
  have v: "v = (case file_json lib fs ?p of Some v \<Rightarrow> v | None \<Rightarrow> JObject [])"
    using read_qblock_Inr [OF rd assms(2)] by simp
  obtain old where old: "v = JObject old" using merge_file_object [OF mg] by blast
  with v have "old_object lib fs ?p = old" by (auto simp: old_object_def split: option.splits)
  with merge_file_Inr [OF mg [unfolded old]] write_value_json [OF assms(1) wr] show ?thesis by auto
qed

text \<open>An environment without failures, and libraries that keep values as they are.\<close>

definition sample_io :: "json io_env" where
  "sample_io = \<lparr>io_fail = (\<lambda>_. None), io_partial = (\<lambda>_. None), io_now = 1000000, io_pid = ''7'', io_cwd = ''/data''\<rparr>"

definition sample_files :: "json file_lib" where
  "sample_files = \<lparr>sha256 = (\<lambda>_. replicate 32 171), winner_value = (\<lambda>w. Inr (JString (br_miner_id w))),
     participant_value = (\<lambda>p. Inr (JObject [(''account'', JString (pr_account p))])), to_vec = Inr, from_slice = Some,
     day_text = (\<lambda>t. Some (if t < 86400 then ''1970-01-01'' else ''1970-01-02''))\<rparr>"

definition sample_participant :: "string \<Rightarrow> participation_record" where
  "sample_participant a = \<lparr>pr_qblock_id = DecimalString ''42'', pr_account = a, pr_kind = ''Cpu'', pr_budget_seconds = None,
     pr_block_number = DecimalString ''9''\<rparr>"

lemma sample_serde: "serde_ok sample_files"
  by (auto simp: serde_ok_def sample_files_def row_account_def get_key_def)

text \<open>C22, when the file has a participant and one of the new ones is the same account.\<close>

theorem merged_file_accumulates_witness:
  "\<exists>fs' m. write_qblock_merged sample_files sample_io ''42'' None [sample_participant ''A'', sample_participant ''B'']
       [(qblock_file sample_files ''42'', Regular (JObject [(''participation'', JArray [JObject [(''account'', JString ''A'')]]), (''winner'', JString ''w'')]) 5)]
       = (Inr (), fs')
     \<and> file_json sample_files fs' (qblock_file sample_files ''42'') = Some (JObject m)
     \<and> map_of m ''winner'' = Some (JString ''w'')
     \<and> map_of m ''participation'' = Some (JArray [JObject [(''account'', JString ''A'')], JObject [(''account'', JString ''B'')]])"
proof -
  let ?old = "[(''participation'', JArray [JObject [(''account'', JString ''A'')]]), (''winner'', JString ''w'')]"
  let ?fs = "[(qblock_file sample_files ''42'', Regular (JObject ?old) 5)]"
  let ?run = "write_qblock_merged sample_files sample_io ''42'' None [sample_participant ''A'', sample_participant ''B''] ?fs"
  have "fst ?run = Inr ()" by code_simp
  then obtain fs' where run: "?run = (Inr (), fs')" by (cases ?run) auto
  have ok: "io_fail sample_io (TryExists p) = None" for p by (simp add: sample_io_def)
  have old: "old_object sample_files ?fs (qblock_file sample_files ''42'') = ?old"
    by (simp add: old_object_def file_json_def sample_files_def)
  from merged_file_accumulates [OF sample_serde ok run, unfolded old] obtain m where m:
    "file_json sample_files fs' (qblock_file sample_files ''42'') = Some (JObject m)"
    "merges_to sample_files ''42'' None [sample_participant ''A'', sample_participant ''B''] ?old m" by blast
  from m(2) have "map_of m ''winner'' = Some (JString ''w'')"
    "map_of m ''participation'' = Some (JArray [JObject [(''account'', JString ''A'')], JObject [(''account'', JString ''B'')]])"
    by (auto simp: merges_to_def object_rows_def row_account_def get_key_def List.map_filter_def sample_participant_def sample_files_def)
  with run m(1) show ?thesis by blast
qed

section \<open>Manifests\<close>

definition dated_entries :: "'b fs \<Rightarrow> dated list" where
  "dated_entries fs = map (\<lambda>(p, e). (entry_mtime e, path_text p)) (filter (\<lambda>(p, e). listed_path p \<and> 0 \<le> entry_mtime e) fs)"

definition day_of :: "'b file_lib \<Rightarrow> dated \<Rightarrow> string" where
  "day_of lib x = the (day_text lib (fst x))"

definition day_table :: "'b file_lib \<Rightarrow> dated list \<Rightarrow> (string \<times> dated list) list \<Rightarrow> (string \<times> dated list) list" where
  "day_table lib xs days = fold (\<lambda>x. day_push (day_of lib x) x) xs days"

lemma dated_entries_simps:
  "dated_entries [] = []"
  "dated_entries ((p, e) # fs) = (if listed_path p \<and> 0 \<le> entry_mtime e then [(entry_mtime e, path_text p)] else []) @ dated_entries fs"
  by (simp_all add: dated_entries_def)

lemma rfold_file_under:
  "rfold (file_under lib since) fs (recent, days) = Inr (recent', days') \<Longrightarrow>
   recent' = recent @ filter (\<lambda>x. since \<le> fst x) (dated_entries fs)
   \<and> days' = day_table lib (filter (\<lambda>x. fst x < since) (dated_entries fs)) days
   \<and> (\<forall>x\<in>set (dated_entries fs). fst x < since \<longrightarrow> day_text lib (fst x) \<noteq> None)"
proof (induction fs arbitrary: recent days)
  case Nil
  then show ?case by (simp add: dated_entries_simps day_table_def)
next
  case (Cons pe fs)
  obtain p e where pe: "pe = (p, e)" by fastforce
  from Cons.prems obtain acc where acc: "file_under lib since pe (recent, days) = Inr acc"
    "rfold (file_under lib since) fs acc = Inr (recent', days')" by (auto simp: rbind_Inr)
  obtain recent1 days1 where acc1: "acc = (recent1, days1)" by fastforce
  note ih = Cons.IH [OF acc(2) [unfolded acc1]]
  show ?case
    using acc(1) ih
    by (auto simp: pe acc1 file_under_def Let_def dated_entries_simps day_table_def day_of_def split: if_splits option.splits)
qed

lemma day_push_keys: "set (map fst (day_push d x days)) = insert d (set (map fst days))"
  by (induction d x days rule: day_push.induct) auto

lemma day_push_sorted: "sorted_wrt (<) (map fst days) \<Longrightarrow> sorted_wrt (<) (map fst (day_push d x days))"
proof (induction d x days rule: day_push.induct)
  case (2 day x d xs days)
  then show ?case using day_push_keys [of day x days] by (auto simp: list.set_map)
qed simp

lemma day_push_lookup:
  "sorted_wrt (<) (map fst days) \<Longrightarrow> map_of (day_push d x days) d' =
     (if d' = d then Some ((case map_of days d of None \<Rightarrow> [] | Some xs \<Rightarrow> xs) @ [x]) else map_of days d')"
proof (induction d x days rule: day_push.induct)
  case (2 day x d xs days)
  have "map_of days day = None" if "day < d"
    using 2 that by (force simp: map_of_eq_None_iff)
  with 2 show ?case by auto
qed simp

lemma day_table_lookup:
  assumes "sorted_wrt (<) (map fst days)"
  shows "sorted_wrt (<) (map fst (day_table lib xs days))
    \<and> set (map fst (day_table lib xs days)) = set (map fst days) \<union> day_of lib ` set xs
    \<and> (\<forall>d. map_of (day_table lib xs days) d =
        (if d \<in> set (map fst days) \<union> day_of lib ` set xs
         then Some ((case map_of days d of None \<Rightarrow> [] | Some ys \<Rightarrow> ys) @ filter (\<lambda>x. day_of lib x = d) xs) else None))"
  using assms
proof (induction xs arbitrary: days)
  case Nil
  then show ?case by (auto simp: day_table_def map_of_eq_None_iff split: option.splits)
next
  case (Cons x xs)
  let ?days = "day_push (day_of lib x) x days"
  have s: "sorted_wrt (<) (map fst ?days)" using Cons.prems by (rule day_push_sorted)
  have t: "day_table lib (x # xs) days = day_table lib xs ?days" by (simp add: day_table_def)
  show ?case
    using Cons.IH [OF s] day_push_lookup [OF Cons.prems, of "day_of lib x" x] day_push_keys [of "day_of lib x" x days]
    unfolding t by (auto split: option.splits)
qed

text \<open>Temporary files end in \<open>tmp\<close>, so they are neither manifests nor listed.\<close>

lemma tmp_path_last: "last (last (tmp_path env p)) = CHR ''p''" "length (tmp_path env p) = Suc (length p - 1)"
  by (simp_all add: tmp_path_def)

lemma json_extension_last: "has_json_extension n \<Longrightarrow> last n = CHR ''n''"
proof -
  assume a: "has_json_extension n"
  then have "last (drop (length n - 5) n) = last n" by (intro last_drop) (auto simp: has_json_extension_def)
  with a show ?thesis by (simp add: has_json_extension_def)
qed

lemma tmp_not_json: "\<not> listed_path (tmp_path env p)" "tmp_path env p \<noteq> day_manifest d" "tmp_path env p \<noteq> manifest_path"
proof -
  show "\<not> listed_path (tmp_path env p)"
    using json_extension_last [of "last (tmp_path env p)"] tmp_path_last(1) [of env p] by (auto simp: listed_path_def)
  show "tmp_path env p \<noteq> day_manifest d" "tmp_path env p \<noteq> manifest_path"
    using tmp_path_last(1) [of env p] by (auto simp: day_manifest_def manifest_path_def)
qed

lemma manifests_not_listed: "\<not> listed_path (day_manifest d)" "\<not> listed_path manifest_path" "day_manifest d \<noteq> manifest_path"
  by (simp_all add: listed_path_def day_manifest_def manifest_path_def)

lemma day_manifest_inj: "(day_manifest d = day_manifest d') = (d = d')"
  by (simp add: day_manifest_def)

definition list_value :: "string list \<Rightarrow> json" where
  "list_value xs = JArray (map JString xs)"

lemma string_list_value:
  "map_of m k = Some (list_value xs) \<Longrightarrow> string_list (JObject m) k = xs"
  by (simp add: string_list_def get_key_def list_value_def List.map_filter_def comp_def)

lemma write_days_Inr:
  assumes "serde_ok lib" and "write_days lib env days older fs = (Inr older', fs')" and "distinct (map fst days)"
  shows "older' = older @ map (\<lambda>d. path_text (day_manifest (fst d))) days
    \<and> (\<forall>d xs. (d, xs) \<in> set days \<longrightarrow> file_json lib fs' (day_manifest d) = Some (JObject [(''qblocks'', list_value (newest_first xs))]))
    \<and> (\<forall>q. (\<forall>d. q \<noteq> day_manifest d) \<and> (\<forall>p. q \<noteq> tmp_path env p) \<longrightarrow> map_of fs' q = map_of fs q)
    \<and> (\<forall>d. d \<notin> set (map fst days) \<longrightarrow> file_json lib fs' (day_manifest d) = file_json lib fs (day_manifest d))"
  using assms(2,3)
proof (induction days arbitrary: older fs)
  case Nil
  then show ?case by simp
next
  case (Cons de days)
  obtain d xs where de: "de = (d, xs)" by fastforce
  let ?v = "JObject [(''qblocks'', list_value (newest_first xs))]"
  from Cons.prems obtain fs1 where w1: "write_value lib env (day_manifest d) ?v fs = (Inr (), fs1)"
    and rest: "write_days lib env days (older @ [path_text (day_manifest d)]) fs1 = (Inr older', fs')"
    by (auto simp: de io_bind_def list_value_def split: prod.splits sum.splits)
  have new: "file_json lib fs1 (day_manifest d) = Some ?v" by (rule write_value_json [OF assms(1) w1])
  have keep: "map_of fs1 q = map_of fs q" if "q \<noteq> day_manifest d" "\<forall>p. q \<noteq> tmp_path env p" for q
    using w1 that by (auto elim!: write_value_Inr)
  have frame: "file_json lib fs1 (day_manifest d') = file_json lib fs (day_manifest d')" if "d' \<noteq> d" for d'
    using that tmp_not_json(2) by (intro write_value_frame [OF w1]) (auto simp: day_manifest_inj eq_commute)
  have "d \<notin> set (map fst days)" "distinct (map fst days)" using Cons.prems(2) by (simp_all add: de)
  then show ?case using Cons.IH [OF rest] new keep frame by (auto simp: de)
qed



section \<open>Which qblocks are listed\<close>

lemma hex_byte_chars: "set (hex_byte b) \<subseteq> set ''0123456789abcdef''"
proof -
  have "unat b < 2 ^ LENGTH(8)" by (rule unat_lt2p)
  then have "unat b div 16 < 16" "unat b mod 16 < 16" by (auto simp: less_mult_imp_div_less)
  then have "''0123456789abcdef'' ! (unat b div 16) \<in> set ''0123456789abcdef''" "''0123456789abcdef'' ! (unat b mod 16) \<in> set ''0123456789abcdef''"
    by (intro nth_mem; simp only: list.size)+
  then show ?thesis by (simp only: hex_byte_def Let_def list.set insert_subset empty_subsetI simp_thms)
qed

lemma hash_prefix_not_days: "fst (hash_prefix lib i) \<noteq> ''days''"
proof
  assume a: "fst (hash_prefix lib i) = ''days''"
  have "set (fst (hash_prefix lib i)) \<subseteq> set (concat (map hex_byte (sha256 lib i)))"
    by (simp only: hash_prefix_def Let_def fst_conv set_take_subset)
  also have "\<dots> \<subseteq> set ''0123456789abcdef''" using hex_byte_chars by (simp only: set_concat set_map) blast
  finally show False unfolding a by simp
qed

text \<open>
  The manifests list the file of a qblock exactly when its decimal id does not have eight digits: the
  path drops the first eight characters, and a file named only \<open>.json\<close> has no extension, so a rebuild
  skips it.
\<close>

theorem qblock_listed_unless_eight_digits:
  "listed_path (qblock_file lib (nat_text n)) = (length (nat_text n) \<noteq> 8)"
proof -
  let ?i = "nat_text n" and ?tail = "if length (nat_text n) < 8 then nat_text n else drop 8 (nat_text n)"
  have digits: "list_all is_digit ?tail" using nat_text_digits [of n] by (auto simp: list_all_iff dest: in_set_dropD)
  have "(?tail @ ''.json'' = ''metadata.json'') = (?tail @ ''.json'' = ''metadata'' @ ''.json'')" by simp
  also have "\<dots> = (?tail = ''metadata'')" by (rule append_same_eq)
  also have "\<not> \<dots>" using digits by (auto simp: is_digit_of_char)
  finally have meta: "?tail @ ''.json'' \<noteq> ''metadata.json''" .
  have "has_json_extension (?tail @ ''.json'') = (?tail \<noteq> [])" by (simp add: has_json_extension_def)
  moreover have "(?tail = []) = (length ?i = 8)" using nat_text_nonempty [of n] by auto
  moreover have "qblock_file lib ?i = [''qblocks'', fst (hash_prefix lib ?i), snd (hash_prefix lib ?i), ?tail @ ''.json'']"
    by (simp add: qblock_file_def qblock_rel_path_def split_beta Let_def)
  ultimately show ?thesis using meta hash_prefix_not_days [of lib ?i] by (simp add: listed_path_def)
qed

text \<open>New paths are put in front one by one, so a batch is listed in the reverse of its order.\<close>

lemma prepend_new_reverses:
  "distinct ps \<Longrightarrow> set ps \<inter> set current = {} \<Longrightarrow> fold prepend_new ps current = rev ps @ current"
  by (induction ps arbitrary: current) (auto simp: prepend_new_def)

end
