(* ===== verification/File_Race.thy ===== *)
theory File_Race
  imports Prelude
begin

text \<open>
  \<open>atomic_write\<close> (\<open>qblock_path.rs\<close>) as single system calls, for several tasks of one process that write the
  same file. The temporary name depends on the target and the process only, so the tasks share it. Names
  refer to inodes, and an open file refers to an inode whatever its name becomes.
\<close>

record disk =
  tmp_name :: "nat option"
  target_name :: "nat option"
  inodes :: "nat \<Rightarrow> string"
  next_inode :: nat

datatype task = Ready | Opened nat | Filled nat | Renamed | RenameFailed

definition content :: "disk \<Rightarrow> string option" where
  "content d = map_option (inodes d) (target_name d)"

text \<open>\<open>fs::write\<close> opens the file, which creates it or cuts it to length zero, and writes from its start.\<close>

definition open_tmp :: "disk \<Rightarrow> nat \<times> disk" where
  "open_tmp d = (case tmp_name d of
       Some i \<Rightarrow> (i, d\<lparr>inodes := (inodes d)(i := [])\<rparr>)
     | None \<Rightarrow> (next_inode d, d\<lparr>tmp_name := Some (next_inode d), inodes := (inodes d)(next_inode d := []), next_inode := Suc (next_inode d)\<rparr>))"

definition write_all :: "nat \<Rightarrow> string \<Rightarrow> disk \<Rightarrow> disk" where
  "write_all i b d = d\<lparr>inodes := (inodes d)(i := b @ drop (length b) (inodes d i))\<rparr>"

inductive write_step :: "(nat \<Rightarrow> string) \<Rightarrow> nat set \<Rightarrow> disk \<times> (nat \<Rightarrow> task) \<Rightarrow> disk \<times> (nat \<Rightarrow> task) \<Rightarrow> bool"
  for bytes tasks where
  opened: "k \<in> tasks \<Longrightarrow> ts k = Ready \<Longrightarrow> open_tmp d = (i, d') \<Longrightarrow> write_step bytes tasks (d, ts) (d', ts(k := Opened i))"
| filled: "k \<in> tasks \<Longrightarrow> ts k = Opened i \<Longrightarrow> write_step bytes tasks (d, ts) (write_all i (bytes k) d, ts(k := Filled i))"
| renamed: "k \<in> tasks \<Longrightarrow> ts k = Filled i \<Longrightarrow> tmp_name d = Some j \<Longrightarrow>
    write_step bytes tasks (d, ts) (d\<lparr>target_name := Some j, tmp_name := None\<rparr>, ts(k := Renamed))"
| missing: "k \<in> tasks \<Longrightarrow> ts k = Filled i \<Longrightarrow> tmp_name d = None \<Longrightarrow> write_step bytes tasks (d, ts) (d, ts(k := RenameFailed))"

inductive_cases write_stepE: "write_step bytes tasks (d, ts) (d', ts')"

text \<open>One task: before the rename the target is old, after it the target is new.\<close>

definition names_ok :: "disk \<Rightarrow> bool" where
  "names_ok d \<longleftrightarrow> pred_option (\<lambda>i. i < next_inode d) (target_name d) \<and> pred_option (\<lambda>i. i < next_inode d) (tmp_name d)
     \<and> (tmp_name d = None \<or> tmp_name d \<noteq> target_name d)"

fun task_ok :: "string option \<Rightarrow> string \<Rightarrow> disk \<Rightarrow> task \<Rightarrow> bool" where
  "task_ok old b d Ready = (content d = old)"
| "task_ok old b d (Opened i) = (content d = old \<and> tmp_name d = Some i \<and> inodes d i = [])"
| "task_ok old b d (Filled i) = (content d = old \<and> tmp_name d = Some i \<and> inodes d i = b)"
| "task_ok old b d Renamed = (content d = Some b)"
| "task_ok old b d RenameFailed = False"

lemma single_task_step:
  assumes "write_step bytes {k} (d, ts) (d', ts')" and "names_ok d" and "task_ok old (bytes k) d (ts k)"
  shows "names_ok d' \<and> task_ok old (bytes k) d' (ts' k)"
  using assms
  by (cases rule: write_step.cases; cases "target_name d")
    (auto simp: open_tmp_def write_all_def names_ok_def content_def
      split: option.splits if_splits)

lemma single_task_run:
  assumes "(write_step bytes {k})\<^sup>*\<^sup>* (d, \<lambda>_. Ready) (d', ts')" and "names_ok d"
  shows "names_ok d' \<and> task_ok (content d) (bytes k) d' (ts' k)"
  using assms(1)
proof (induction "(d', ts')" arbitrary: d' ts' rule: rtranclp_induct)
  case base
  then show ?case using assms(2) by simp
next
  case (step s)
  then show ?case using single_task_step by (cases s) blast
qed

text \<open>A single task never leaves the target in between.\<close>

lemma single_writer_atomic:
  assumes "(write_step bytes {k})\<^sup>*\<^sup>* (d, \<lambda>_. Ready) (d', ts')" and "names_ok d"
  shows "content d' = content d \<or> content d' = Some (bytes k)"
  using single_task_run [OF assms] by (cases "ts' k") auto

text \<open>
  Two tasks that write the same file can leave it empty: the second one cuts the temporary file that the
  first one has filled, and the first one renames it.
\<close>

lemma shared_temporary_file_tears:
  "\<exists>d'. (write_step (\<lambda>k. if k = 0 then ''new0'' else ''new1'') {0, 1})\<^sup>*\<^sup>*
      (\<lparr>tmp_name = None, target_name = Some 0, inodes = (\<lambda>_. ''old''), next_inode = 1\<rparr>, \<lambda>_. Ready)
      (d', (\<lambda>_. Ready)(0 := Renamed, 1 := Opened 1)) \<and> content d' = Some []"
proof -
  let ?b = "\<lambda>k :: nat. if k = 0 then ''new0'' else ''new1''" and ?r = "\<lambda>_ :: nat. Ready"
  let ?d = "\<lambda>t g f. \<lparr>tmp_name = t, target_name = g, inodes = f, next_inode = 2\<rparr>"
  let ?f = "\<lambda>s. (\<lambda>_ :: nat. ''old'')(1 := s)"
  have "write_step ?b {0, 1} (\<lparr>tmp_name = None, target_name = Some 0, inodes = (\<lambda>_. ''old''), next_inode = 1\<rparr>, ?r)
      (?d (Some 1) (Some 0) (?f []), ?r(0 := Opened 1))"
    by (rule write_step.opened) (simp_all add: open_tmp_def)
  moreover have "write_step ?b {0, 1} (?d (Some 1) (Some 0) (?f []), ?r(0 := Opened 1)) (?d (Some 1) (Some 0) (?f ''new0''), ?r(0 := Filled 1))"
    using write_step.filled [of 0 "{0, 1}" "?r(0 := Opened 1)" 1 ?b "?d (Some 1) (Some 0) (?f [])"] by (simp add: write_all_def)
  moreover have "write_step ?b {0, 1} (?d (Some 1) (Some 0) (?f ''new0''), ?r(0 := Filled 1)) (?d (Some 1) (Some 0) (?f []), ?r(0 := Filled 1, 1 := Opened 1))"
    by (rule write_step.opened) (simp_all add: open_tmp_def)
  moreover have "write_step ?b {0, 1} (?d (Some 1) (Some 0) (?f []), ?r(0 := Filled 1, 1 := Opened 1)) (?d None (Some 1) (?f []), ?r(0 := Renamed, 1 := Opened 1))"
    using write_step.renamed [of 0 "{0, 1}" "?r(0 := Filled 1, 1 := Opened 1)" 1 "?d (Some 1) (Some 0) (?f [])" 1 ?b] by (simp add: fun_upd_twist)
  ultimately have "(write_step ?b {0, 1})\<^sup>*\<^sup>* (\<lparr>tmp_name = None, target_name = Some 0, inodes = (\<lambda>_. ''old''), next_inode = 1\<rparr>, ?r)
      (?d None (Some 1) (?f []), ?r(0 := Renamed, 1 := Opened 1))"
    by (meson converse_rtranclp_into_rtranclp rtranclp.rtrancl_refl)
  moreover have "content (?d None (Some 1) (?f [])) = Some []" by (simp add: content_def)
  ultimately show ?thesis by (intro exI conjI)
qed

end
