(* ===== verification/Miner_Store.thy ===== *)
theory Miner_Store
  imports Store_Ops Json
begin

text \<open>
  The registry and telemetry tables of the store (\<open>dashboard-store/src/miners.rs\<close>, \<open>telemetry.rs\<close>):
  descriptors, hardware, mining submissions with their checkpoint, chain miners, epochs and authorities,
  the chain head, cached metadata, and the cutover of the authorship summary. The tables the indexing
  transactions use are the \<open>store\<close> inside; the accounts of descriptors and chain miners and the finalized
  head are kept there too, since binding a network reads them.
\<close>

section \<open>Rows\<close>

record node_descriptor_record =
  nr_account_id :: string
  nr_block_number :: decimal_string
  nr_block_hash :: block_hash
  nr_extrinsic_index :: u32
  nr_block_timestamp :: u64
  nr_first_block_timestamp :: u64
  nr_descriptor :: json
  nr_observed_at :: string

record descriptor_row = node_descriptor_record +
  nr_node_name :: "string option"

record hardware_record =
  hr_account_id :: string
  hr_node_id :: string
  hr_miners :: "(string \<times> string) list"
  hr_primary_type :: string
  hr_source :: string
  hr_observed_at :: string

record submission_record =
  sb_solution_number :: u64
  sb_miner_id :: string
  sb_miner_type :: string
  sb_ts_ns :: decimal_string
  sb_energy_milli :: int
  sb_diversity_milli :: int
  sb_threshold_milli :: int
  sb_last_proof_block_hash :: string
  sb_extrinsic_hash :: "block_hash option"
  sb_chain_block_hash :: "block_hash option"
  sb_chain_block_number :: "decimal_string option"
  sb_pow_sequence :: "u64 option"
  sb_outcome :: string
  sb_attempt_count :: u32
  sb_best_energy_milli :: int
  sb_num_valid :: u64
  sb_qpu_access_time_us :: u64
  sb_observed_at :: string

record chain_miner_record =
  cm_account_id :: string
  cm_deposit :: decimal_string
  cm_proofs_submitted :: decimal_string
  cm_proofs_won :: decimal_string
  cm_rewards_earned :: decimal_string

record runtime_version =
  rv_spec_name :: string
  rv_spec_version :: u32
  rv_transaction_version :: u32
  rv_impl_name :: string
  rv_last_runtime_upgrade :: "decimal_string option"

record chain_head_record =
  ch_best_block_number :: decimal_string
  ch_best_block_hash :: block_hash
  ch_finalized_block_number :: decimal_string
  ch_finalized_block_hash :: block_hash
  ch_finality_lag :: int
  ch_qblock_count :: "u64 option"
  ch_current_qblock_id :: "decimal_string option"
  ch_current_qblock_participants :: "u64 option"
  ch_runtime :: runtime_version
  ch_updated_at :: string

record babe_epoch_state =
  be_epoch_index :: u64
  be_current_slot :: decimal_string
  be_epoch_start_slot :: decimal_string
  be_slots_per_epoch :: u64
  be_current_slot_in_epoch :: u64
  be_authority_count :: u32

record epoch_row = babe_epoch_state +
  be_is_current :: bool
  be_updated_at :: string

record authority_row =
  au_display_name :: "string option"
  au_is_active :: bool
  au_updated_at :: string

record topology_record =
  tp_topology_hash :: block_hash
  tp_is_default :: bool
  tp_difficulty_energy :: f64
  tp_min_diversity :: f64
  tp_min_solutions :: u32
  tp_node_count :: u32
  tp_edge_count :: u32
  tp_curve_constant :: "f64 option"

record metadata_row =
  mt_spec_version :: u32
  mt_hash :: block_hash
  mt_bytes :: "u8 list"

record miner_db =
  md_store :: store
  md_descriptors :: "(string \<times> descriptor_row) list"
  md_hardware :: "(string \<times> hardware_record) list"
  md_submissions :: "((string \<times> u64) \<times> submission_record) list"
  md_chain_miners :: "(string \<times> chain_miner_record \<times> string) list"
  md_chain_head :: "chain_head_record option"
  md_epochs :: "(u64 \<times> epoch_row) list"
  md_authorities :: "((string \<times> u64) \<times> authority_row) list"
  md_topologies :: "topology_record list option"
  md_metadata :: "((string \<times> string) \<times> metadata_row) list"

section \<open>Transactions\<close>

type_synonym 'a mtx = "miner_db \<Rightarrow> store_error + 'a \<times> miner_db"

text \<open>\<open>Store::write\<close> with \<open>require_bound\<close>, as every transaction here starts.\<close>

definition bound_write :: "'a mtx \<Rightarrow> 'a mtx" where
  "bound_write f db = rbind (ensure_writable (md_store db)) (\<lambda>_. rbind (require_bound (md_store db)) (\<lambda>_. f db))"

text \<open>Upserts that update only some columns: the row becomes what \<open>f\<close> makes of the old one.\<close>

definition upsert_with :: "'k \<Rightarrow> 'v \<Rightarrow> ('v \<Rightarrow> bool) \<Rightarrow> ('v \<Rightarrow> 'v) \<Rightarrow> ('k \<times> 'v) list \<Rightarrow> ('k \<times> 'v) list" where
  "upsert_with k v cond f t = (case map_of t k of
     None \<Rightarrow> t @ [(k, v)] | Some old \<Rightarrow> if cond old then AList.update k (f old) t else t)"

definition set_descriptors :: "(string \<times> descriptor_row) list \<Rightarrow> miner_db \<Rightarrow> miner_db" where
  "set_descriptors rows db = db\<lparr>md_descriptors := rows, md_store := (md_store db)\<lparr>node_descriptors := map fst rows\<rparr>\<rparr>"

section \<open>Descriptors and hardware\<close>

definition newer_descriptor :: "'a node_descriptor_record_scheme \<Rightarrow> 'b node_descriptor_record_scheme \<Rightarrow> bool" where
  "newer_descriptor new old \<longleftrightarrow> decimal_gt (as_str (nr_block_number new)) (as_str (nr_block_number old))
     \<or> nr_block_number old = nr_block_number new \<and> nr_extrinsic_index old < nr_extrinsic_index new"

definition node_name_of :: "json \<Rightarrow> string option" where
  "node_name_of d = Option.bind (get_key d ''nodeName'') as_str_json"

definition row_of_descriptor :: "node_descriptor_record \<Rightarrow> u64 \<Rightarrow> string \<Rightarrow> string option \<Rightarrow> descriptor_row" where
  "row_of_descriptor r first_seen observed name =
     \<lparr>nr_account_id = nr_account_id r, nr_block_number = nr_block_number r, nr_block_hash = nr_block_hash r,
      nr_extrinsic_index = nr_extrinsic_index r, nr_block_timestamp = nr_block_timestamp r,
      nr_first_block_timestamp = first_seen, nr_descriptor = nr_descriptor r, nr_observed_at = observed, nr_node_name = name\<rparr>"

text \<open>The second statement sets the name of the account's row, whether or not the first one changed it.\<close>

definition upsert_node_descriptor :: "engine \<Rightarrow> node_descriptor_record \<Rightarrow> unit mtx" where
  "upsert_node_descriptor e r = bound_write (\<lambda>db.
     rbind (canonical_timestamp e (nr_observed_at r)) (\<lambda>observed.
     let rows = upsert_with (nr_account_id r) (row_of_descriptor r (nr_block_timestamp r) observed None)
           (\<lambda>old. newer_descriptor r old)
           (\<lambda>old. row_of_descriptor r (nr_first_block_timestamp old) observed (nr_node_name old)) (md_descriptors db);
         rows = map (\<lambda>(a, row). (a, if a = nr_account_id r then row\<lparr>nr_node_name := node_name_of (nr_descriptor row)\<rparr> else row)) rows
     in Inr ((), set_descriptors rows db)))"

text \<open>Times are stored as 64-bit signed integers.\<close>

definition backfill_node_descriptor_first_seen :: "string \<Rightarrow> u64 \<Rightarrow> unit mtx" where
  "backfill_node_descriptor_first_seen account t = bound_write (\<lambda>db.
     Inr ((), set_descriptors (map (\<lambda>(a, row). (a, if a = account \<and> t < nr_first_block_timestamp row
       then row\<lparr>nr_first_block_timestamp := t\<rparr> else row)) (md_descriptors db)) db))"

definition get_node_descriptor :: "string \<Rightarrow> miner_db \<Rightarrow> descriptor_row option" where
  "get_node_descriptor account db = map_of (md_descriptors db) account"

definition lift_store :: "(store \<Rightarrow> store_error + 'a \<times> store) \<Rightarrow> 'a mtx" where
  "lift_store f db = rbind (f (md_store db)) (\<lambda>(x, s). Inr (x, db\<lparr>md_store := s\<rparr>))"

definition set_descriptor_checkpoint :: "string \<Rightarrow> unit mtx" where
  "set_descriptor_checkpoint n = lift_store (set_monotonic ''descriptor_checkpoint'' n)"

definition upsert_miner_hardware :: "engine \<Rightarrow> hardware_record \<Rightarrow> unit mtx" where
  "upsert_miner_hardware e r = bound_write (\<lambda>db.
     rbind (canonical_timestamp e (hr_observed_at r)) (\<lambda>observed.
     let new = r\<lparr>hr_observed_at := observed\<rparr>
     in Inr ((), db\<lparr>md_hardware := snd (upsert (hr_account_id r) new
          (\<lambda>old. hr_node_id old \<noteq> hr_node_id r \<or> hr_miners old \<noteq> hr_miners r \<or> hr_primary_type old \<noteq> hr_primary_type r
             \<or> hr_source old \<noteq> hr_source r) (md_hardware db))\<rparr>)))"

section \<open>Mining submissions\<close>

definition write_submission :: "engine \<Rightarrow> (submission_record \<Rightarrow> store_error + unit) \<Rightarrow> submission_record \<Rightarrow> miner_db \<Rightarrow> store_error + miner_db" where
  "write_submission e accepts r db =
     rbind (canonical_timestamp e (sb_observed_at r)) (\<lambda>observed.
     rbind (accepts r) (\<lambda>_.
     Inr (db\<lparr>md_submissions := upsert_with (sb_miner_id r, sb_solution_number r) (r\<lparr>sb_observed_at := observed\<rparr>) (\<lambda>_. True)
       (\<lambda>old. r\<lparr>sb_observed_at := sb_observed_at old\<rparr>) (md_submissions db)\<rparr>)))"

definition insert_mining_submission :: "engine \<Rightarrow> (submission_record \<Rightarrow> store_error + unit) \<Rightarrow> submission_record \<Rightarrow> unit mtx" where
  "insert_mining_submission e accepts r = bound_write (\<lambda>db. rbind (write_submission e accepts r db) (\<lambda>db. Inr ((), db)))"

definition checkpoint_key :: "string \<Rightarrow> string" where
  "checkpoint_key miner = ''mining_checkpoint:'' @ miner"

text \<open>The keys of checkpoints never hold one of the two JSON values.\<close>

definition get_mining_checkpoint :: "string \<Rightarrow> miner_db \<Rightarrow> store_error + u64 option" where
  "get_mining_checkpoint miner db = (case get_meta (md_store db) (checkpoint_key miner) of
       Some (MetaText t) \<Rightarrow> (case parse_unsigned t of Some n \<Rightarrow> Inr (Some n) | None \<Rightarrow> Inl (Invalid ''checkpoint''))
     | Some _ \<Rightarrow> Inl (Invalid ''checkpoint'')
     | None \<Rightarrow> Inr None)"

definition set_mining_checkpoint :: "string \<Rightarrow> u64 \<Rightarrow> unit mtx" where
  "set_mining_checkpoint miner n = lift_store (set_monotonic (checkpoint_key miner) (unsigned_text n))"

definition commit_mining_submissions :: "engine \<Rightarrow> (submission_record \<Rightarrow> store_error + unit) \<Rightarrow> string \<Rightarrow> submission_record list
    \<Rightarrow> u64 \<Rightarrow> unit mtx" where
  "commit_mining_submissions e accepts miner records checkpoint = bound_write (\<lambda>db.
     rbind (rfold (\<lambda>r db. if sb_miner_id r \<noteq> miner \<or> checkpoint < sb_solution_number r
         then Inl (Invalid ''submission does not belong to checkpoint'') else write_submission e accepts r db) records db) (\<lambda>db.
     rbind (get_mining_checkpoint miner db) (\<lambda>found.
     let old = (case found of Some n \<Rightarrow> n | None \<Rightarrow> 0)
     in Inr ((), if old \<le> checkpoint
          then db\<lparr>md_store := set_meta (checkpoint_key miner) (MetaText (unsigned_text checkpoint)) (md_store db)\<rparr> else db))))"

definition reset_mining_history :: "string \<Rightarrow> unit mtx" where
  "reset_mining_history miner = bound_write (\<lambda>db.
     Inr ((), db\<lparr>md_submissions := filter (\<lambda>((m, _), _). m \<noteq> miner) (md_submissions db),
       md_store := delete_meta (checkpoint_key miner) (md_store db)\<rparr>))"

text \<open>The API list: the largest numbers first, at most a thousand.\<close>

definition get_recent_mining_submissions :: "string \<Rightarrow> u32 \<Rightarrow> miner_db \<Rightarrow> submission_record list" where
  "get_recent_mining_submissions miner limit db =
     take (unat (min limit 1000)) (rev (sort_key sb_solution_number (map snd (filter (\<lambda>((m, _), _). m = miner) (md_submissions db)))))"

definition count_mining_submissions_with_attempts :: "string \<Rightarrow> miner_db \<Rightarrow> nat" where
  "count_mining_submissions_with_attempts miner db =
     length (filter (\<lambda>((m, _), r). m = miner \<and> 0 < sb_attempt_count r) (md_submissions db))"

section \<open>The authorship summary\<close>

definition cutover_key :: string where
  "cutover_key = ''indexer.authorship.cutover''"

definition is_authorship_cutover :: "miner_db \<Rightarrow> bool" where
  "is_authorship_cutover db \<longleftrightarrow> get_meta (md_store db) cutover_key = Some (MetaText ''1'')"

definition recompute_authorship_summary :: "engine \<Rightarrow> unit mtx" where
  "recompute_authorship_summary e = bound_write (\<lambda>db. rbind (recompute e (md_store db)) (\<lambda>s. Inr ((), db\<lparr>md_store := s\<rparr>)))"

definition fresh_count :: "(string \<times> validator_row) list \<Rightarrow> string \<Rightarrow> nat" where
  "fresh_count items account = (case map_of items account of None \<Rightarrow> 0 | Some r \<Rightarrow> vr_blocks_authored r)"

definition try_authorship_cutover :: "engine \<Rightarrow> bool mtx" where
  "try_authorship_cutover e = bound_write (\<lambda>db.
     if is_authorship_cutover db then Inr (True, db)
     else rbind (fresh e (md_store db)) (\<lambda>items.
       if list_ex (\<lambda>(account, row). fresh_count items account < vr_blocks_authored row) (validator_authorship (md_store db)) then Inr (False, db)
       else rbind (recompute e (md_store db)) (\<lambda>s.
         Inr (True, db\<lparr>md_store := set_meta cutover_key (MetaText ''1'') s\<rparr>))))"

text \<open>What the API shows: the summary, and without the cutover the larger of the summary and the facts.\<close>

definition merge_authorship :: "validator_row \<Rightarrow> validator_row \<Rightarrow> store_error + validator_row" where
  "merge_authorship old r =
     (let r = r\<lparr>vr_blocks_authored := max (vr_blocks_authored r) (vr_blocks_authored old),
                vr_blocks_authored_with_pow := max (vr_blocks_authored_with_pow r) (vr_blocks_authored_with_pow old)\<rparr>
      in rbind (ok_or (Invalid ''last authored block'') (parse_unsigned (vr_last_authored_block r) :: u64 option)) (\<lambda>number.
         rbind (ok_or (Invalid ''last authored block'') (parse_unsigned (vr_last_authored_block old) :: u64 option)) (\<lambda>old_number.
         Inr (if number < old_number
              then r\<lparr>vr_last_authored_block := vr_last_authored_block old, vr_last_authored_at := vr_last_authored_at old\<rparr> else r))))"

definition get_validator_authorship :: "engine \<Rightarrow> miner_db \<Rightarrow> store_error + (string \<times> validator_row) list" where
  "get_validator_authorship e db =
     rbind (if is_authorship_cutover db then Inr [] else fresh e (md_store db)) (\<lambda>facts.
     rbind (rfold (\<lambda>(account, r) merged. case map_of merged account of
         Some old \<Rightarrow> rbind (merge_authorship old r) (\<lambda>r. Inr (AList.update account r merged))
       | None \<Rightarrow> Inr (merged @ [(account, r)])) (validator_authorship (md_store db) @ facts) []) (\<lambda>merged.
     Inr (sort_key (\<lambda>(_, r). - int (vr_blocks_authored r)) (sort_key fst merged))))"

definition count_authorship_blocks_in_range :: "string \<Rightarrow> string \<Rightarrow> miner_db \<Rightarrow> nat" where
  "count_authorship_blocks_in_range from through db =
     length (filter (\<lambda>((_, n), _). \<not> decimal_gt from n \<and> \<not> decimal_gt n through) (authorship_blocks (md_store db)))"

section \<open>Telemetry\<close>

text \<open>A null value reads as a missing key everywhere, so that storing null is deleting the key.\<close>

definition set_text :: "string \<Rightarrow> string option \<Rightarrow> unit mtx" where
  "set_text k v = bound_write (\<lambda>db. Inr ((), db\<lparr>md_store := (case v of
     None \<Rightarrow> delete_meta k (md_store db) | Some t \<Rightarrow> set_meta k (MetaText t) (md_store db))\<rparr>))"

definition set_self_address :: "string option \<Rightarrow> unit mtx" where
  "set_self_address = set_text ''self_address''"

definition get_self_address :: "miner_db \<Rightarrow> string option" where
  "get_self_address db = (case get_meta (md_store db) ''self_address'' of Some (MetaText t) \<Rightarrow> Some t | _ \<Rightarrow> None)"

definition same_head :: "chain_head_record \<Rightarrow> chain_head_record \<Rightarrow> bool" where
  "same_head a b \<longleftrightarrow> ch_best_block_number a = ch_best_block_number b \<and> ch_finalized_block_number a = ch_finalized_block_number b
     \<and> ch_qblock_count a = ch_qblock_count b \<and> ch_current_qblock_id a = ch_current_qblock_id b
     \<and> ch_current_qblock_participants a = ch_current_qblock_participants b
     \<and> rv_spec_version (ch_runtime a) = rv_spec_version (ch_runtime b)"

definition upsert_chain_head :: "engine \<Rightarrow> chain_head_record \<Rightarrow> unit mtx" where
  "upsert_chain_head e h = bound_write (\<lambda>db.
     rbind (canonical_timestamp e (ch_updated_at h)) (\<lambda>updated.
     if (case md_chain_head db of None \<Rightarrow> True | Some old \<Rightarrow> \<not> same_head old h)
     then Inr ((), db\<lparr>md_chain_head := Some (h\<lparr>ch_updated_at := updated\<rparr>),
            md_store := (md_store db)\<lparr>chain_head := Some (as_str (ch_finalized_block_number h), hash_to_string (ch_finalized_block_hash h))\<rparr>\<rparr>)
     else Inr ((), db)))"

definition upsert_babe_epoch :: "engine \<Rightarrow> babe_epoch_state \<Rightarrow> unit mtx" where
  "upsert_babe_epoch e ep = bound_write (\<lambda>db.
     rbind (canonical_timestamp e (now e)) (\<lambda>updated.
     let rows = map (\<lambda>(i, r). (i, if i \<noteq> be_epoch_index ep then r\<lparr>be_is_current := False\<rparr> else r)) (md_epochs db);
         row = \<lparr>be_epoch_index = be_epoch_index ep, be_current_slot = be_current_slot ep, be_epoch_start_slot = be_epoch_start_slot ep,
                be_slots_per_epoch = be_slots_per_epoch ep, be_current_slot_in_epoch = be_current_slot_in_epoch ep,
                be_authority_count = be_authority_count ep, be_is_current = True, be_updated_at = updated\<rparr>
     in Inr ((), db\<lparr>md_epochs := snd (upsert (be_epoch_index ep) row (\<lambda>_. True) rows)\<rparr>)))"

definition get_current_babe_epoch :: "miner_db \<Rightarrow> epoch_row option" where
  "get_current_babe_epoch db = map_option snd (find (\<lambda>(_, r). be_is_current r) (md_epochs db))"

definition upsert_babe_authorities :: "engine \<Rightarrow> u64 \<Rightarrow> (string \<times> string option) list \<Rightarrow> unit mtx" where
  "upsert_babe_authorities e epoch authorities = bound_write (\<lambda>db.
     rbind (canonical_timestamp e (now e)) (\<lambda>updated.
     let rows = map (\<lambda>((a, i), r). ((a, i), if i = epoch then r\<lparr>au_is_active := False\<rparr> else r)) (md_authorities db);
         rows = fold (\<lambda>(a, name) t. snd (upsert (a, epoch) \<lparr>au_display_name = name, au_is_active = True, au_updated_at = updated\<rparr> (\<lambda>_. True) t))
           authorities rows
     in Inr ((), db\<lparr>md_authorities := rows\<rparr>)))"

definition get_active_babe_authorities :: "miner_db \<Rightarrow> string list" where
  "get_active_babe_authorities db = (case find (\<lambda>(_, r). be_is_current r) (md_epochs db) of
       None \<Rightarrow> []
     | Some (i, _) \<Rightarrow> sort (map (fst \<circ> fst) (filter (\<lambda>((_, j), r). j = i \<and> au_is_active r) (md_authorities db))))"

definition upsert_chain_miners :: "engine \<Rightarrow> chain_miner_record list \<Rightarrow> unit mtx" where
  "upsert_chain_miners e miners = bound_write (\<lambda>db.
     rbind (rfold (\<lambda>m rows. rbind (canonical_timestamp e (now e)) (\<lambda>updated.
         Inr (snd (upsert (cm_account_id m) (m, updated) (\<lambda>(old, _). old \<noteq> m) rows)))) miners (md_chain_miners db)) (\<lambda>rows.
     Inr ((), db\<lparr>md_chain_miners := rows, md_store := (md_store db)\<lparr>chain_miners := map fst rows\<rparr>\<rparr>)))"

text \<open>The API list: by the reward as a number (longer texts are larger), largest first, then by account.\<close>

definition reward_before :: "chain_miner_record \<Rightarrow> chain_miner_record \<Rightarrow> bool" where
  "reward_before a b \<longleftrightarrow> decimal_gt (as_str (cm_rewards_earned a)) (as_str (cm_rewards_earned b))
     \<or> cm_rewards_earned a = cm_rewards_earned b \<and> cm_account_id a \<le> cm_account_id b"

fun insert_by_reward :: "chain_miner_record \<Rightarrow> chain_miner_record list \<Rightarrow> chain_miner_record list" where
  "insert_by_reward m [] = [m]"
| "insert_by_reward m (x # xs) = (if reward_before m x then m # x # xs else x # insert_by_reward m xs)"

definition get_chain_miners :: "miner_db \<Rightarrow> chain_miner_record list" where
  "get_chain_miners db = foldr insert_by_reward (map (fst \<circ> snd) (md_chain_miners db)) []"

definition set_mineable_topologies :: "topology_record list \<Rightarrow> unit mtx" where
  "set_mineable_topologies records = bound_write (\<lambda>db. Inr ((), db\<lparr>md_topologies := Some records\<rparr>))"

definition get_mineable_topologies :: "miner_db \<Rightarrow> topology_record list" where
  "get_mineable_topologies db = (case md_topologies db of Some ts \<Rightarrow> ts | None \<Rightarrow> [])"

definition put_metadata :: "block_hash \<Rightarrow> block_hash \<Rightarrow> u32 \<Rightarrow> block_hash \<Rightarrow> u8 list \<Rightarrow> unit mtx" where
  "put_metadata genesis state spec_version h bytes db =
     rbind (ensure_writable (md_store db)) (\<lambda>_.
     if 16 * 1024 * 1024 < length bytes then Inl (Invalid ''metadata exceeds response bound'')
     else rbind (require_bound (md_store db)) (\<lambda>bound.
       if bound \<noteq> MetaText (hash_to_string genesis) then Inl NetworkIdentity
       else Inr ((), db\<lparr>md_metadata := snd (upsert (hash_to_string genesis, hash_to_string state)
         \<lparr>mt_spec_version = spec_version, mt_hash = h, mt_bytes = bytes\<rparr> (\<lambda>_. True) (md_metadata db))\<rparr>)))"

definition get_metadata :: "block_hash \<Rightarrow> block_hash \<Rightarrow> miner_db \<Rightarrow> metadata_row option" where
  "get_metadata genesis state db = map_of (md_metadata db) (hash_to_string genesis, hash_to_string state)"

definition set_device_access_time_backfill_marker :: "string \<Rightarrow> unit mtx" where
  "set_device_access_time_backfill_marker v =
     (if v \<noteq> ''triggered'' \<and> v \<noteq> ''not-needed'' then (\<lambda>_. Inl (Invalid ''invalid backfill marker''))
      else set_text ''indexer.device_access_time.backfill'' (Some v))"

definition probe_device_access_time_data :: "miner_db \<Rightarrow> bool \<times> bool" where
  "probe_device_access_time_data db =
     (let bs = map snd (blocks (md_store db)) in (bs \<noteq> [], list_ex (\<lambda>b. br_device_access_time_us b \<noteq> None) bs))"

end
