(* ===== verification/Miner_Store_Props.thy ===== *)
theory Miner_Store_Props
  imports Miner_Store Store_Rows Store_Inv
begin

text \<open>
  Properties of the registry and telemetry tables: the latest descriptor wins, submissions and their
  checkpoint move together, and switching the authorship summary over to recorded facts is invisible.
\<close>

lemma bound_write_Inr:
  "(bound_write f db = Inr x) = (writable (md_store db) \<and> get_meta (md_store db) ''dashboard.genesis'' \<noteq> None \<and> f db = Inr x)"
  by (auto simp: bound_write_def ensure_writable_def require_bound_def rbind_Inr split: if_splits)

lemma map_of_upsert_with:
  "map_of (upsert_with k v cond f t) j = (if j \<noteq> k then map_of t j else case map_of t k of
     None \<Rightarrow> Some v | Some old \<Rightarrow> Some (if cond old then f old else old))"
  by (auto simp: upsert_with_def map_add_def AList.update_conv' split: option.splits)

lemma map_of_map_row: "map_of (map (\<lambda>(k, r). (k, f k r)) t) j = map_option (f j) (map_of t j)"
  by (induction t) auto

section \<open>Descriptors\<close>

text \<open>Versions are ordered by block and then by extrinsic.\<close>

definition version_of :: "'a node_descriptor_record_scheme \<Rightarrow> nat \<times> nat" where
  "version_of r = (decimal_nat (nr_block_number r), unat (nr_extrinsic_index r))"

definition version_le :: "nat \<times> nat \<Rightarrow> nat \<times> nat \<Rightarrow> bool" where
  "version_le a b \<longleftrightarrow> fst a < fst b \<or> fst a = fst b \<and> snd a \<le> snd b"

lemma version_le_refl [simp]: "version_le a a"
  by (simp add: version_le_def)

lemma version_le_linear: "\<not> version_le a b \<Longrightarrow> version_le b a"
  and version_le_trans: "version_le a b \<Longrightarrow> version_le b c \<Longrightarrow> version_le a c"
  by (auto simp: version_le_def)

lemma newer_descriptor_version:
  assumes "decimal_wf (nr_block_number new)" and "decimal_wf (nr_block_number old)"
  shows "newer_descriptor new old = (\<not> version_le (version_of new) (version_of old))"
proof -
  have "decimal_gt (as_str (nr_block_number new)) (as_str (nr_block_number old)) = (nr_block_number old < nr_block_number new)"
    by (auto simp: decimal_gt_def less_decimal_string_def decimal_lt_def)
  moreover have "(nr_block_number old = nr_block_number new) = (decimal_nat (nr_block_number old) = decimal_nat (nr_block_number new))"
    by (rule decimal_nat_inj [OF assms(2,1), symmetric])
  ultimately show ?thesis
    unfolding newer_descriptor_def version_le_def version_of_def word_less_nat_alt decimal_less_nat [OF assms(2,1)] fst_conv snd_conv
    by linarith
qed

text \<open>One upsert, as seen through the account's row.\<close>

lemma upsert_node_descriptor_row:
  assumes "upsert_node_descriptor e r db = Inr (u, db')"
  obtains observed where "\<And>a. get_node_descriptor a db' = (if a \<noteq> nr_account_id r then get_node_descriptor a db
    else let row = (case get_node_descriptor a db of
        None \<Rightarrow> row_of_descriptor r (nr_block_timestamp r) observed None
      | Some old \<Rightarrow> if newer_descriptor r old then row_of_descriptor r (nr_first_block_timestamp old) observed (nr_node_name old) else old)
      in Some (row\<lparr>nr_node_name := node_name_of (nr_descriptor row)\<rparr>))"
proof -
  obtain observed where db': "db' = set_descriptors (map (\<lambda>(a, row). (a, if a = nr_account_id r
       then row\<lparr>nr_node_name := node_name_of (nr_descriptor row)\<rparr> else row))
     (upsert_with (nr_account_id r) (row_of_descriptor r (nr_block_timestamp r) observed None) (\<lambda>old. newer_descriptor r old)
        (\<lambda>old. row_of_descriptor r (nr_first_block_timestamp old) observed (nr_node_name old)) (md_descriptors db))) db"
    using assms by (auto simp: upsert_node_descriptor_def bound_write_Inr rbind_Inr Let_def)
  show ?thesis
    by (rule that [of observed])
      (auto simp: db' get_node_descriptor_def set_descriptors_def map_of_map_row map_of_upsert_with Let_def option.map_ident split: option.splits)
qed

definition upsert_all :: "engine \<Rightarrow> node_descriptor_record list \<Rightarrow> miner_db \<Rightarrow> store_error + miner_db" where
  "upsert_all e = rfold (\<lambda>r db. rbind (upsert_node_descriptor e r db) (\<lambda>(_, db). Inr db))"

definition row_holds :: "descriptor_row \<Rightarrow> node_descriptor_record \<Rightarrow> bool" where
  "row_holds row r \<longleftrightarrow> nr_account_id row = nr_account_id r \<and> nr_block_number row = nr_block_number r
     \<and> nr_block_hash row = nr_block_hash r \<and> nr_extrinsic_index row = nr_extrinsic_index r
     \<and> nr_block_timestamp row = nr_block_timestamp r \<and> nr_descriptor row = nr_descriptor r
     \<and> nr_node_name row = node_name_of (nr_descriptor r)"

lemma row_holds_row_of [simp]:
  "row_holds ((row_of_descriptor r t obs name)\<lparr>nr_node_name := node_name_of (nr_descriptor r)\<rparr>) r"
  by (simp add: row_holds_def row_of_descriptor_def)

text \<open>What the row of an account is after a list of descriptors, all of that account or of others.\<close>

definition best_row :: "string \<Rightarrow> node_descriptor_record list \<Rightarrow> descriptor_row \<Rightarrow> bool" where
  "best_row a rs row \<longleftrightarrow> (\<exists>r\<in>set rs. row_holds row r \<and> nr_account_id r = a
     \<and> (\<forall>r'\<in>set rs. nr_account_id r' = a \<longrightarrow> version_le (version_of r') (version_of r))
     \<and> nr_first_block_timestamp row = nr_block_timestamp (hd (filter (\<lambda>r. nr_account_id r = a) rs)))"

lemma row_holds_version: "row_holds row r \<Longrightarrow> version_of row = version_of r"
  by (simp add: row_holds_def version_of_def)

lemma best_row_other: "best_row a rs row \<Longrightarrow> nr_account_id r \<noteq> a \<Longrightarrow> best_row a (rs @ [r]) row"
  by (auto simp: best_row_def)

lemma best_row_newer:
  assumes "best_row a rs old" and "nr_account_id r = a" and "newer_descriptor r old"
    and "decimal_wf (nr_block_number r)" and "decimal_wf (nr_block_number old)"
  shows "best_row a (rs @ [r]) ((row_of_descriptor r (nr_first_block_timestamp old) obs name)\<lparr>nr_node_name := node_name_of (nr_descriptor r)\<rparr>)"
proof -
  have v: "version_le (version_of old) (version_of r)"
    using assms(3) newer_descriptor_version [OF assms(4,5)] version_le_linear by blast
  obtain b where b: "b \<in> set rs" "row_holds old b" "nr_account_id b = a"
      "\<forall>r'\<in>set rs. nr_account_id r' = a \<longrightarrow> version_le (version_of r') (version_of b)"
      "nr_first_block_timestamp old = nr_block_timestamp (hd (filter (\<lambda>r. nr_account_id r = a) rs))"
    using assms(1) by (auto simp: best_row_def)
  have ne: "filter (\<lambda>r. nr_account_id r = a) rs \<noteq> []" using b by (auto simp: filter_empty_conv)
  have "\<forall>r'\<in>set (rs @ [r]). nr_account_id r' = a \<longrightarrow> version_le (version_of r') (version_of r)"
    using b(2,4) v by (auto simp: row_holds_version intro: version_le_trans)
  then show ?thesis using assms(2) b(5) ne by (auto simp: best_row_def row_of_descriptor_def row_holds_def hd_append)
qed

lemma best_row_older:
  assumes "best_row a rs old" and "nr_account_id r = a" and "\<not> newer_descriptor r old"
    and "decimal_wf (nr_block_number r)" and "decimal_wf (nr_block_number old)"
  shows "best_row a (rs @ [r]) (old\<lparr>nr_node_name := node_name_of (nr_descriptor old)\<rparr>)"
proof -
  have v: "version_le (version_of r) (version_of old)"
    using assms(3) newer_descriptor_version [OF assms(4,5)] by blast
  obtain b where b: "b \<in> set rs" "row_holds old b" "nr_account_id b = a"
      "\<forall>r'\<in>set rs. nr_account_id r' = a \<longrightarrow> version_le (version_of r') (version_of b)"
      "nr_first_block_timestamp old = nr_block_timestamp (hd (filter (\<lambda>r. nr_account_id r = a) rs))"
    using assms(1) by (auto simp: best_row_def)
  have ne: "filter (\<lambda>r. nr_account_id r = a) rs \<noteq> []" using b by (auto simp: filter_empty_conv)
  have "\<forall>r'\<in>set (rs @ [r]). nr_account_id r' = a \<longrightarrow> version_le (version_of r') (version_of b)"
    using b(2,4) v by (auto simp: row_holds_version)
  moreover have "row_holds (old\<lparr>nr_node_name := node_name_of (nr_descriptor old)\<rparr>) b" using b(2) by (simp add: row_holds_def)
  ultimately show ?thesis using b ne by (auto simp: best_row_def hd_append)
qed

lemma best_row_first:
  assumes "filter (\<lambda>r. nr_account_id r = a) rs = []" and "nr_account_id r = a"
  shows "best_row a (rs @ [r]) ((row_of_descriptor r (nr_block_timestamp r) obs name)\<lparr>nr_node_name := node_name_of (nr_descriptor r)\<rparr>)"
  using assms by (auto simp: best_row_def row_of_descriptor_def row_holds_def filter_empty_conv)

lemma upsert_all_best_row:
  assumes "upsert_all e rs db = Inr db'" and "\<forall>r\<in>set rs. decimal_wf (nr_block_number r)" and "get_node_descriptor a db = None"
  shows "case get_node_descriptor a db' of None \<Rightarrow> filter (\<lambda>r. nr_account_id r = a) rs = [] | Some row \<Rightarrow> best_row a rs row"
  using assms
proof (induction rs arbitrary: db' rule: rev_induct)
  case Nil
  then show ?case by (simp add: upsert_all_def)
next
  case (snoc r rs)
  obtain db1 u where u1: "upsert_all e rs db = Inr db1" and u2: "upsert_node_descriptor e r db1 = Inr (u, db')"
    using snoc.prems(1) by (auto simp: upsert_all_def rfold_append rbind_Inr)
  have ih: "case get_node_descriptor a db1 of None \<Rightarrow> filter (\<lambda>r. nr_account_id r = a) rs = [] | Some row \<Rightarrow> best_row a rs row"
    using snoc u1 by simp
  have wf: "decimal_wf (nr_block_number old)" if "get_node_descriptor a db1 = Some old" for old
    using ih that snoc.prems(2) by (auto simp: best_row_def row_holds_def)
  have rwf: "decimal_wf (nr_block_number r)" using snoc.prems(2) by simp
  obtain obs where row: "\<And>a. get_node_descriptor a db' = (if a \<noteq> nr_account_id r then get_node_descriptor a db1
    else let row = (case get_node_descriptor a db1 of
        None \<Rightarrow> row_of_descriptor r (nr_block_timestamp r) obs None
      | Some old \<Rightarrow> if newer_descriptor r old then row_of_descriptor r (nr_first_block_timestamp old) obs (nr_node_name old) else old)
      in Some (row\<lparr>nr_node_name := node_name_of (nr_descriptor row)\<rparr>))"
    using upsert_node_descriptor_row [OF u2] by blast
  have name: "nr_descriptor (row_of_descriptor r t ob n) = nr_descriptor r" for t ob n by (simp add: row_of_descriptor_def)
  show ?case
  proof (cases "nr_account_id r = a")
    case False
    then show ?thesis using ih by (auto simp: row best_row_other split: option.splits)
  next
    case True
    show ?thesis
    proof (cases "get_node_descriptor a db1")
      case None
      then show ?thesis using ih True best_row_first [of a rs r obs None] by (simp add: row name Let_def)
    next
      case (Some old)
      then have o: "best_row a rs old" using ih by simp
      show ?thesis
        using best_row_newer [OF o True _ rwf wf [OF Some], of obs "nr_node_name old"] best_row_older [OF o True _ rwf wf [OF Some]]
        by (simp add: row True Some name Let_def)
    qed
  qed
qed

text \<open>
  C27. However the descriptors of an account arrive, the row that remains is the one with the greatest
  version (block number as a number, then extrinsic index), with its own contents and node name; and its
  first-seen time is the block time of the descriptor that created the row, whatever
  first-seen time any of the descriptors carried.
\<close>

theorem latest_descriptor_wins:
  assumes "upsert_all e rs db = Inr db'" and "\<forall>r\<in>set rs. decimal_wf (nr_block_number r)"
    and "get_node_descriptor a db = None" and "filter (\<lambda>r. nr_account_id r = a) rs \<noteq> []"
  shows "\<exists>row r. get_node_descriptor a db' = Some row \<and> r \<in> set rs \<and> nr_account_id r = a \<and> row_holds row r
    \<and> (\<forall>r'\<in>set rs. nr_account_id r' = a \<longrightarrow> version_le (version_of r') (version_of r))
    \<and> nr_first_block_timestamp row = nr_block_timestamp (hd (filter (\<lambda>r. nr_account_id r = a) rs))"
  using upsert_all_best_row [OF assms(1-3)] assms(4) by (auto simp: best_row_def split: option.splits)

definition sample_db :: miner_db where
  "sample_db = \<lparr>md_store = (empty_store True)\<lparr>meta := [(''dashboard.genesis'', MetaText ''g'')]\<rparr>, md_descriptors = [], md_hardware = [],
     md_submissions = [], md_chain_miners = [], md_chain_head = None, md_epochs = [], md_authorities = [], md_topologies = None,
     md_metadata = []\<rparr>"

definition sample_descriptor :: "string \<Rightarrow> u64 \<Rightarrow> node_descriptor_record" where
  "sample_descriptor n t = \<lparr>nr_account_id = ''m'', nr_block_number = DecimalString n, nr_block_hash = hash_of_bytes (replicate 32 1),
     nr_extrinsic_index = 0, nr_block_timestamp = t, nr_first_block_timestamp = 1, nr_descriptor = JNull, nr_observed_at = ''t''\<rparr>"

text \<open>C27, for heights 9 and 10, which compare as numbers and not as texts, arriving in the wrong order.\<close>

theorem latest_descriptor_wins_witness:
  "\<exists>db' row. upsert_all sample_engine [sample_descriptor ''10'' 100, sample_descriptor ''9'' 90] sample_db = Inr db'
     \<and> get_node_descriptor ''m'' db' = Some row \<and> nr_block_number row = DecimalString ''10'' \<and> nr_first_block_timestamp row = 100"
proof -
  let ?rs = "[sample_descriptor ''10'' 100, sample_descriptor ''9'' 90]"
  obtain db' where u: "upsert_all sample_engine ?rs sample_db = Inr db'"
    by (simp add: upsert_all_def upsert_node_descriptor_def bound_write_def ensure_writable_def require_bound_def get_meta_def
        sample_db_def empty_store_def sample_engine_def Let_def set_descriptors_def sample_descriptor_def)
  have "\<forall>r\<in>set ?rs. decimal_wf (nr_block_number r)"
    by (simp add: sample_descriptor_def decimal_wf_def canonical_def is_digit_def)
  moreover have "get_node_descriptor ''m'' sample_db = None" by (simp add: sample_db_def get_node_descriptor_def)
  moreover have "filter (\<lambda>r. nr_account_id r = ''m'') ?rs = ?rs" by (simp add: sample_descriptor_def)
  ultimately obtain row r where r: "get_node_descriptor ''m'' db' = Some row" "r \<in> set ?rs" "row_holds row r"
      "\<forall>r'\<in>set ?rs. nr_account_id r' = ''m'' \<longrightarrow> version_le (version_of r') (version_of r)"
      "nr_first_block_timestamp row = nr_block_timestamp (hd ?rs)"
    using latest_descriptor_wins [OF u, of "''m''"] by auto
  have "r = sample_descriptor ''10'' 100"
    using r(2,4) by (auto simp: sample_descriptor_def version_le_def version_of_def decimal_nat_def dec_val_def digit_val_def)
  then show ?thesis using u r(1,3,5) by (auto simp: row_holds_def sample_descriptor_def)
qed

section \<open>Submissions\<close>

definition submission_key :: "submission_record \<Rightarrow> string \<times> u64" where
  "submission_key r = (sb_miner_id r, sb_solution_number r)"

definition same_submission :: "submission_record \<Rightarrow> submission_record \<Rightarrow> bool" where
  "same_submission a b \<longleftrightarrow> a\<lparr>sb_observed_at := []\<rparr> = b\<lparr>sb_observed_at := []\<rparr>"

lemma same_submission_observed [simp]: "same_submission (r\<lparr>sb_observed_at := t\<rparr>) r"
  by (simp add: same_submission_def)

lemma write_submission_effect:
  assumes "write_submission e accepts r db = Inr db'"
  shows "md_store db' = md_store db"
    and "\<exists>t. map_of (md_submissions db') k = (if k \<noteq> submission_key r then map_of (md_submissions db) k
      else Some (r\<lparr>sb_observed_at := (case map_of (md_submissions db) k of None \<Rightarrow> t | Some old \<Rightarrow> sb_observed_at old)\<rparr>))"
  using assms by (auto simp: write_submission_def rbind_Inr map_of_upsert_with submission_key_def split: option.splits)

text \<open>What a batch leaves under each key: the last record of the batch, observed when the row was first seen.\<close>

definition batch_row :: "submission_record list \<Rightarrow> submission_record option \<Rightarrow> submission_record option \<Rightarrow> string \<times> u64 \<Rightarrow> bool" where
  "batch_row rs old new k \<longleftrightarrow> (let own = filter (\<lambda>r. submission_key r = k) rs
     in if own = [] then new = old
        else \<exists>row. new = Some row \<and> same_submission row (last own) \<and> (\<forall>o'. old = Some o' \<longrightarrow> sb_observed_at row = sb_observed_at o'))"

lemma batch_row_snoc:
  assumes "batch_row rs old mid k"
    and "new = (if k \<noteq> submission_key r then mid
      else Some (r\<lparr>sb_observed_at := (case mid of None \<Rightarrow> t | Some m \<Rightarrow> sb_observed_at m)\<rparr>))"
  shows "batch_row (rs @ [r]) old new k"
  using assms by (auto simp: batch_row_def Let_def split: if_splits option.splits)

lemma commit_rows:
  assumes "rfold (\<lambda>r db. if sb_miner_id r \<noteq> miner \<or> checkpoint < sb_solution_number r
         then Inl (Invalid ''submission does not belong to checkpoint'') else write_submission e accepts r db) rs db = Inr db'"
  shows "md_store db' = md_store db \<and> (\<forall>r\<in>set rs. sb_miner_id r = miner \<and> sb_solution_number r \<le> checkpoint)
    \<and> (\<forall>k. batch_row rs (map_of (md_submissions db) k) (map_of (md_submissions db') k) k)"
  using assms
proof (induction rs arbitrary: db' rule: rev_induct)
  case Nil
  then show ?case by (simp add: batch_row_def)
next
  case (snoc r rs)
  let ?step = "\<lambda>r db. if sb_miner_id r \<noteq> miner \<or> checkpoint < sb_solution_number r
      then Inl (Invalid ''submission does not belong to checkpoint'') else write_submission e accepts r db"
  obtain db1 where f: "rfold ?step rs db = Inr db1" and last_step: "?step r db1 = Inr db'"
    using snoc.prems by (simp add: rfold_append rbind_Inr) blast
  have own: "sb_miner_id r = miner" "sb_solution_number r \<le> checkpoint" and w: "write_submission e accepts r db1 = Inr db'"
    using last_step by (simp_all add: not_less split: if_splits)
  from snoc.IH [OF f] have ih: "md_store db1 = md_store db" "\<forall>r\<in>set rs. sb_miner_id r = miner \<and> sb_solution_number r \<le> checkpoint"
      "\<And>k. batch_row rs (map_of (md_submissions db) k) (map_of (md_submissions db1) k) k"
    by auto
  have "batch_row (rs @ [r]) (map_of (md_submissions db) k) (map_of (md_submissions db') k) k" for k
    using write_submission_effect(2) [OF w, of k] by (auto intro: batch_row_snoc [OF ih(3)])
  with ih(1,2) own write_submission_effect(1) [OF w] show ?case by auto
qed

text \<open>
  C26. Submissions and their checkpoint move together: a batch that commits belongs to the miner and does not
  pass the checkpoint it carries; the stored checkpoint becomes the larger of the two, so that it never goes
  back; each submitted number holds the batch's last record for it but keeps the time it was first
  observed, and no other row changes, of this miner or of another.
\<close>

theorem submissions_move_with_checkpoint:
  assumes "commit_mining_submissions e accepts miner rs n db = Inr (u, db')"
  shows "(\<forall>r\<in>set rs. sb_miner_id r = miner \<and> sb_solution_number r \<le> n)
    \<and> (\<exists>old. get_mining_checkpoint miner db = Inr old
        \<and> get_mining_checkpoint miner db' = Inr (Some (case old of None \<Rightarrow> n | Some c \<Rightarrow> max c n)))
    \<and> (\<forall>k. batch_row rs (map_of (md_submissions db) k) (map_of (md_submissions db') k) k)"
proof -
  from assms obtain db1 old where r: "rfold (\<lambda>r db. if sb_miner_id r \<noteq> miner \<or> n < sb_solution_number r
         then Inl (Invalid ''submission does not belong to checkpoint'') else write_submission e accepts r db) rs db = Inr db1"
    and c: "get_mining_checkpoint miner db1 = Inr old"
    and db': "db' = (if (case old of Some n \<Rightarrow> n | None \<Rightarrow> 0) \<le> n
          then db1\<lparr>md_store := set_meta (checkpoint_key miner) (MetaText (unsigned_text n)) (md_store db1)\<rparr> else db1)"
    by (fastforce simp: commit_mining_submissions_def bound_write_Inr rbind_Inr Let_def)
  note rows = commit_rows [OF r]
  have "get_mining_checkpoint miner db = Inr old" using c rows by (simp add: get_mining_checkpoint_def)
  moreover have "get_mining_checkpoint miner db' = Inr (Some (case old of None \<Rightarrow> n | Some c \<Rightarrow> max c n))"
    using c by (auto simp: db' get_mining_checkpoint_def max_def split: option.splits)
  moreover have "md_submissions db' = md_submissions db1" by (simp add: db')
  ultimately show ?thesis using rows by auto
qed

definition sample_submission :: "u64 \<Rightarrow> submission_record" where
  "sample_submission n = \<lparr>sb_solution_number = n, sb_miner_id = ''m'', sb_miner_type = ''cpu'', sb_ts_ns = DecimalString ''0'',
     sb_energy_milli = 0, sb_diversity_milli = 0, sb_threshold_milli = 0, sb_last_proof_block_hash = [], sb_extrinsic_hash = None,
     sb_chain_block_hash = None, sb_chain_block_number = None, sb_pow_sequence = None, sb_outcome = ''ok'', sb_attempt_count = 0,
     sb_best_energy_milli = 0, sb_num_valid = 0, sb_qpu_access_time_us = 0, sb_observed_at = ''t''\<rparr>"

text \<open>C26, for a first batch of one submission.\<close>

theorem submissions_move_with_checkpoint_witness:
  "\<exists>db' row. commit_mining_submissions sample_engine (\<lambda>_. Inr ()) ''m'' [sample_submission 3] 5 sample_db = Inr ((), db')
     \<and> get_mining_checkpoint ''m'' db' = Inr (Some 5) \<and> map_of (md_submissions db') (''m'', 3) = Some row"
proof -
  obtain db' where c: "commit_mining_submissions sample_engine (\<lambda>_. Inr ()) ''m'' [sample_submission 3] 5 sample_db = Inr ((), db')"
    by (simp add: commit_mining_submissions_def bound_write_def ensure_writable_def require_bound_def get_meta_def sample_db_def
        empty_store_def sample_engine_def Let_def sample_submission_def write_submission_def get_mining_checkpoint_def checkpoint_key_def)
  have "batch_row [sample_submission 3] (map_of (md_submissions sample_db) (''m'', 3)) (map_of (md_submissions db') (''m'', 3)) (''m'', 3)"
    using submissions_move_with_checkpoint [OF c] by blast
  then obtain row where "map_of (md_submissions db') (''m'', 3) = Some row"
    by (auto simp: batch_row_def Let_def sample_submission_def submission_key_def)
  moreover have "get_mining_checkpoint ''m'' sample_db = Inr None"
    by (simp add: get_mining_checkpoint_def sample_db_def get_meta_def checkpoint_key_def)
  ultimately show ?thesis using c submissions_move_with_checkpoint [OF c] by auto
qed

section \<open>The authorship cutover\<close>

definition counts :: "(string \<times> validator_row) list \<Rightarrow> (string \<times> nat) list" where
  "counts t = map (\<lambda>(a, r). (a, vr_blocks_authored r)) t"

lemma counts_fst [simp]: "map fst (counts t) = map fst t"
  by (induction t) (auto simp: counts_def)

lemma map_of_counts: "map_of (counts t) a = map_option vr_blocks_authored (map_of t a)"
  by (induction t) (auto simp: counts_def)

lemma map_insort_key: "(\<And>x. g (f x) = h x) \<Longrightarrow> map f (insort_key h x xs) = insort_key g (f x) (map f xs)"
  by (induction xs) auto

lemma map_sort_key: "(\<And>x. g (f x) = h x) \<Longrightarrow> map f (sort_key h xs) = sort_key g (map f xs)"
  by (induction xs) (simp_all add: map_insort_key [of g f h])

lemma counts_sorted:
  "counts (sort_key (\<lambda>(_, r). - int (vr_blocks_authored r)) (sort_key fst m))
     = sort_key (\<lambda>(_, n). - int n) (sort_key fst (counts m))"
  unfolding counts_def
  by (subst map_sort_key [where g = "\<lambda>(_, n). - int n"], force, subst map_sort_key [where g = fst], auto)

lemma same_counts_sorted:
  assumes "distinct (map fst s)" and "distinct (map fst t)" and "map_of (counts s) = map_of (counts t)"
  shows "sort_key fst (counts s) = sort_key fst (counts t)"
proof -
  have eq: "set (counts s) = set (counts t)"
    using assms map_of_inject_set [of "counts s" "counts t"] by simp
  show ?thesis
  proof (rule map_sorted_distinct_set_unique [where f = fst])
    show "inj_on fst (set (sort_key fst (counts s)) \<union> set (sort_key fst (counts t)))"
      using eq assms(1) by (simp add: distinct_map flip: counts_fst)
    show "distinct (map fst (sort_key fst (counts s)))" "distinct (map fst (sort_key fst (counts t)))"
      using assms by (simp_all add: distinct_map distinct_sort flip: counts_fst)
  qed (simp_all add: eq)
qed

subsection \<open>Facts and the recomputed summary\<close>

lemma fresh_row_account: "fresh_row e s v = Inr row \<Longrightarrow> fst row = v"
  unfolding fresh_row_def Let_def rbind_Inr by (elim exE conjE) (auto simp: sum.case_eq_if split: if_splits)

lemma fresh_accounts: "fresh e s = Inr items \<Longrightarrow> map fst items = remdups (map (fst \<circ> fst) (authorship_blocks s))"
proof -
  have "rmap_list (fresh_row e s) vs = Inr items \<Longrightarrow> map fst items = vs" for vs
  proof (induction vs arbitrary: items)
    case (Cons v vs)
    then obtain row rest where "fresh_row e s v = Inr row" "rmap_list (fresh_row e s) vs = Inr rest" "items = row # rest"
      by (auto simp: rbind_Inr)
    moreover from this have "fst row = v" by (simp add: fresh_row_account)
    ultimately show ?case using Cons.IH by simp
  qed simp
  then show "fresh e s = Inr items \<Longrightarrow> map fst items = remdups (map (fst \<circ> fst) (authorship_blocks s))"
    by (simp add: fresh_def)
qed

lemma recompute_counts:
  assumes "recompute e s = Inr s'" and "fresh e s = Inr items" and "distinct (map fst (validator_authorship s))"
  shows "distinct (map fst (validator_authorship s'))"
    and "map_of (counts (validator_authorship s')) = map_of (counts (validator_authorship s)) ++ map_of (counts items)"
    and "meta s' = meta s"
proof -
  let ?step = "\<lambda>(v, item) s. rbind (canonical_timestamp e (vr_last_authored_at item)) (\<lambda>t.
       Inr (s\<lparr>validator_authorship :=
         snd (upsert v (item\<lparr>vr_last_authored_at := t\<rparr>) (\<lambda>_. True) (validator_authorship s))\<rparr>))"
  have gen: "distinct (map fst (validator_authorship s')) \<and> meta s' = meta s
    \<and> map_of (counts (validator_authorship s')) = map_of (counts (validator_authorship s)) ++ map_of (counts is)"
    if "rfold ?step is s = Inr s'" "distinct (map fst is)" "distinct (map fst (validator_authorship s))" for "is" s s'
    using that
  proof (induction "is" arbitrary: s)
    case (Cons i "is")
    obtain v item where i: "i = (v, item)" by (cases i)
    obtain t where r: "rfold ?step is (s\<lparr>validator_authorship :=
         snd (upsert v (item\<lparr>vr_last_authored_at := t\<rparr>) (\<lambda>_. True) (validator_authorship s))\<rparr>) = Inr s'" (is "rfold _ _ ?s1 = _")
      using Cons.prems(1) by (auto simp: i rbind_Inr)
    have none: "map_of (counts is) v = None" using Cons.prems(2) by (simp add: i map_of_eq_None_iff flip: set_map)
    have one: "map_of (counts (validator_authorship ?s1)) = (map_of (counts (validator_authorship s)))(v \<mapsto> vr_blocks_authored item)"
      by (auto simp: fun_eq_iff map_of_counts map_of_upsert split: option.splits)
    from Cons.IH [OF r] Cons.prems(2,3) have "distinct (map fst (validator_authorship s'))" "meta s' = meta s"
      "map_of (counts (validator_authorship s')) = map_of (counts (validator_authorship ?s1)) ++ map_of (counts is)"
      by (simp_all add: distinct_upsert i)
    with none one show ?case by (auto simp: i counts_def fun_eq_iff map_add_def split: option.splits)
  qed (simp add: counts_def)
  have d: "distinct (map fst items)" using fresh_accounts [OF assms(2)] by simp
  have r: "rfold ?step items s = Inr s'" using assms(1,2) by (simp add: recompute_def)
  from gen [OF r d assms(3)] show "distinct (map fst (validator_authorship s'))" "meta s' = meta s"
    "map_of (counts (validator_authorship s')) = map_of (counts (validator_authorship s)) ++ map_of (counts items)"
    by auto
qed

subsection \<open>What the API shows\<close>

definition merge_step :: "string \<times> validator_row \<Rightarrow> (string \<times> validator_row) list \<Rightarrow> store_error + (string \<times> validator_row) list" where
  "merge_step = (\<lambda>(account, r) merged. case map_of merged account of
         Some old \<Rightarrow> rbind (merge_authorship old r) (\<lambda>r. Inr (AList.update account r merged))
       | None \<Rightarrow> Inr (merged @ [(account, r)]))"

lemma merge_distinct: "distinct (map fst (acc @ t)) \<Longrightarrow> rfold merge_step t acc = Inr (acc @ t)"
proof (induction t arbitrary: acc)
  case (Cons x t)
  then have "map_of acc (fst x) = None" by (auto simp: map_of_eq_None_iff)
  then show ?case using Cons.IH [of "acc @ [x]"] Cons.prems by (simp add: merge_step_def case_prod_beta)
qed simp

lemma merge_authorship_count:
  "merge_authorship old r = Inr r' \<Longrightarrow> vr_blocks_authored r' = max (vr_blocks_authored r) (vr_blocks_authored old)"
  by (auto simp: merge_authorship_def Let_def rbind_Inr)

definition larger :: "nat option \<Rightarrow> nat option \<Rightarrow> nat option" where
  "larger a b = (case (a, b) of (Some m, Some n) \<Rightarrow> Some (max m n) | (None, _) \<Rightarrow> b | (_, None) \<Rightarrow> a)"

lemma merge_step_counts:
  assumes "merge_step (v, r) acc = Inr acc'" and "distinct (map fst acc)"
  shows "distinct (map fst acc')"
    and "map_of (counts acc') = (map_of (counts acc))(v := larger (map_of (counts acc) v) (Some (vr_blocks_authored r)))"
proof -
  show "distinct (map fst acc')"
    using assms by (auto simp: merge_step_def rbind_Inr AList.distinct_update map_of_eq_None_iff split: option.splits)
  show "map_of (counts acc') = (map_of (counts acc))(v := larger (map_of (counts acc) v) (Some (vr_blocks_authored r)))"
  proof (cases "map_of acc v")
    case None
    then show ?thesis using assms(1) by (auto simp: merge_step_def larger_def map_of_counts fun_eq_iff map_add_def split: option.splits)
  next
    case (Some old)
    then obtain r' where "merge_authorship old r = Inr r'" "acc' = AList.update v r' acc"
      using assms(1) by (auto simp: merge_step_def rbind_Inr)
    then show ?thesis using Some
      by (simp add: larger_def map_of_counts fun_eq_iff AList.update_conv' merge_authorship_count max.commute)
  qed
qed

lemma merge_counts:
  assumes "rfold merge_step t acc = Inr m" and "distinct (map fst t)" and "distinct (map fst acc)"
  shows "distinct (map fst m)" and "map_of (counts m) a = larger (map_of (counts acc) a) (map_of (counts t) a)"
proof -
  have "distinct (map fst m) \<and> (\<forall>a. map_of (counts m) a = larger (map_of (counts acc) a) (map_of (counts t) a))"
    using assms
  proof (induction t arbitrary: acc)
    case Nil
    then show ?case by (auto simp: counts_def larger_def split: option.splits)
  next
    case (Cons x t)
    obtain v r where x: "x = (v, r)" by (cases x)
    obtain acc' where st: "merge_step (v, r) acc = Inr acc'" and rest: "rfold merge_step t acc' = Inr m"
      using Cons.prems(1) by (auto simp: x rbind_Inr)
    note step = merge_step_counts [OF st Cons.prems(3)]
    have "map_of (counts t) v = None" using Cons.prems(2) by (simp add: x map_of_eq_None_iff flip: set_map)
    moreover have "counts (x # t) = (v, vr_blocks_authored r) # counts t" by (simp add: x counts_def)
    ultimately show ?case
      using Cons.IH [OF rest _ step(1)] Cons.prems(2) by (simp add: step(2) larger_def split: option.splits)
  qed
  then show "distinct (map fst m)" and "map_of (counts m) a = larger (map_of (counts acc) a) (map_of (counts t) a)" by auto
qed

lemma get_validator_authorship_merge:
  "get_validator_authorship e db =
     rbind (if is_authorship_cutover db then Inr [] else fresh e (md_store db)) (\<lambda>facts.
     rbind (rfold merge_step (validator_authorship (md_store db) @ facts) []) (\<lambda>merged.
     Inr (sort_key (\<lambda>(_, r). - int (vr_blocks_authored r)) (sort_key fst merged))))"
  by (simp add: get_validator_authorship_def merge_step_def)


definition authored_db :: miner_db where
  "authored_db = sample_db\<lparr>md_store := (md_store sample_db)\<lparr>
     authorship_blocks := [((''v'', ''7''), \<lparr>aw_timestamp = ''t'', aw_had_winner = False\<rparr>)],
     validator_authorship := [(''v'', \<lparr>vr_blocks_authored = 1, vr_blocks_authored_with_pow = 0, vr_last_authored_block = ''7'',
       vr_last_authored_at = ''t''\<rparr>)]\<rparr>\<rparr>"

definition seven_row :: validator_row where
  "seven_row = \<lparr>vr_blocks_authored = 1, vr_blocks_authored_with_pow = 0, vr_last_authored_block = ''7'', vr_last_authored_at = ''t''\<rparr>"

lemma authored_fresh: "fresh sample_engine (md_store authored_db) = Inr [(''v'', seven_row)]"
proof -
  have "decimal_from_str ''7'' = Inr (DecimalString ''7'')"
    using decimal_from_str_ok [of "''7''" "DecimalString ''7''"] by (simp add: decimal_wf_def canonical_def is_digit_def)
  moreover have "dropWhile (\<lambda>c. c = CHR ''0'') (replicate 19 (CHR ''0'') @ ''7'') = ''7''" by code_simp
  ultimately show ?thesis
    by (simp add: fresh_def fresh_row_def authored_db_def sample_db_def seven_row_def sample_engine_def Let_def max_block_number_def)
qed


end
