(* ===== verification/Chain_Reads.thy ===== *)
theory Chain_Reads
  imports Chain_Pages Json
begin

text \<open>
  Reads of the chain at a pinned state: the JSON-RPC responses and their checks (\<open>chain/mod.rs\<close>), metadata
  records, storage and runtime calls (\<open>chain/metadata.rs\<close>), and the snapshot reads of epochs, authorship,
  topologies, miners and descriptors (\<open>chain/snapshots.rs\<close>). What the server answers, the metadata crate
  and the codecs are parameters; a read returns a value or a chain error, as the functions do.
\<close>

section \<open>Metadata\<close>

datatype type_def =
    TdComposite "(string option \<times> u32) list"
  | TdVariant "(u8 \<times> string \<times> u32 list) list"
  | TdSequence u32
  | TdOther

datatype storage_hasher = Blake2_128Concat | OtherHasher

text \<open>A plain entry has no hashers.\<close>

record storage_entry =
  se_value_ty :: u32
  se_hashers :: "storage_hasher list option"
  se_default :: "u8 list"

text \<open>Decoded values carry the type they were decoded at.\<close>

datatype typed_value =
    TComposite u32 typed_composite
  | TVariant u32 string typed_composite
  | TBitSequence u32 "bool list"
  | TPrimitive u32 scale_primitive
and typed_composite =
    TNamed "(string \<times> typed_value) list"
  | TUnnamed "typed_value list"

record metadata =
  mdt_resolve :: "u32 \<Rightarrow> type_def option"
  mdt_decode_as_type :: "u32 \<Rightarrow> u8 list \<Rightarrow> string + typed_value \<times> u8 list"
  mdt_events :: "u8 list \<Rightarrow> (chain_error + chain_event) list"
  mdt_skip :: "u32 \<Rightarrow> u8 list \<Rightarrow> string + u8 list"
  mdt_lookup_entry :: "string \<Rightarrow> string \<Rightarrow> string + storage_entry"
  mdt_address :: "string \<Rightarrow> string \<Rightarrow> scale_value list \<Rightarrow> string + u8 list"
  mdt_api_output :: "string \<Rightarrow> string \<Rightarrow> u32 option"
  mdt_call_args :: "string \<Rightarrow> string \<Rightarrow> scale_value list \<Rightarrow> string + u8 list"

record runtime_version_info =
  ri_spec_name :: string
  ri_spec_version :: u32
  ri_transaction_version :: u32
  ri_impl_name :: string

record runtime_context =
  rx_genesis :: chain_hash
  rx_state_hash :: chain_hash
  rx_spec_version :: u32
  rx_metadata_hash :: chain_hash
  rx_code_hash :: chain_hash
  rx_version :: runtime_version_info
  rx_metadata :: metadata

record metadata_record =
  mr_genesis :: chain_hash
  mr_state_hash :: chain_hash
  mr_code_hash :: chain_hash
  mr_metadata_hash :: chain_hash
  mr_version :: runtime_version_info
  mr_bytes :: "u8 list"

record metadata_codec =
  mc_blake2b256 :: "u8 list \<Rightarrow> chain_hash"
  mc_decode :: "u8 list \<Rightarrow> string + metadata \<times> u8 list"

text \<open>\<open>MetadataRecord::context\<close>: the magic bytes are \<open>meta\<close>, then the version.\<close>

definition metadata_context :: "metadata_codec \<Rightarrow> metadata_record \<Rightarrow> chain_hash \<Rightarrow> chain_error + runtime_context" where
  "metadata_context codec r state =
     (if 16 * 1024 * 1024 < length (mr_bytes r) then Inl (ChOversized ''metadata'')
      else if mc_blake2b256 codec (mr_bytes r) \<noteq> mr_metadata_hash r then Inl (ChInvalid ''metadata content hash mismatch'')
      else if length (mr_bytes r) < 5 \<or> take 4 (mr_bytes r) \<noteq> [109, 101, 116, 97] \<or> mr_bytes r ! 4 < 14 \<or> 16 < mr_bytes r ! 4
      then Inl (ChUnsupported ''metadata must be V14, V15, or V16'')
      else rbind (invalid (mc_decode codec (mr_bytes r))) (\<lambda>(m, rest).
        if rest \<noteq> [] then Inl (ChInvalid ''trailing metadata bytes'')
        else Inr \<lparr>rx_genesis = mr_genesis r, rx_state_hash = state, rx_spec_version = ri_spec_version (mr_version r),
          rx_metadata_hash = mr_metadata_hash r, rx_code_hash = mr_code_hash r, rx_version = mr_version r, rx_metadata = m\<rparr>))"

section \<open>The server\<close>

text \<open>
  \<open>nd_request\<close> is a request of the transport, through its cache or not; \<open>nd_context\<close> the runtime selected for
  a state; \<open>nd_prefix\<close> the storage prefix of an entry, which needs no metadata.
\<close>

record node =
  nd_lib :: decode_lib
  nd_request :: "string \<Rightarrow> json list \<Rightarrow> work_class \<Rightarrow> chain_error + json"
  nd_context :: "chain_hash \<Rightarrow> work_class \<Rightarrow> chain_error + runtime_context"
  nd_prefix :: "string \<Rightarrow> string \<Rightarrow> u8 list"
  nd_header_of :: "json \<Rightarrow> string + header option"

definition hex_text :: "node \<Rightarrow> u8 list \<Rightarrow> string" where
  "hex_text nd bs = ''0x'' @ hex_encode (nd_lib nd) bs"

definition hash_json :: "node \<Rightarrow> chain_hash \<Rightarrow> json" where
  "hash_json nd h = JString (hex_text nd (raw_bytes h))"

definition parse_chain_hash :: "node \<Rightarrow> string \<Rightarrow> chain_error + chain_hash" where
  "parse_chain_hash nd s = rbind (unhex (nd_lib nd) s) (\<lambda>bs.
     if length bs = 32 then Inr (ChainHash bs) else Inl (ChInvalid ''hash must contain 32 bytes''))"

text \<open>Deserializing a hash and an optional hash.\<close>

definition hash_of_json :: "node \<Rightarrow> json \<Rightarrow> chain_error + chain_hash" where
  "hash_of_json nd v = (case v of
       JString s \<Rightarrow> (case parse_chain_hash nd s of Inl _ \<Rightarrow> Inl (ChInvalid ''invalid hash'') | Inr h \<Rightarrow> Inr h)
     | _ \<Rightarrow> Inl (ChInvalid ''invalid type: expected a string''))"

definition optional_hash_of_json :: "node \<Rightarrow> json \<Rightarrow> chain_error + chain_hash option" where
  "optional_hash_of_json nd v = (if v = JNull then Inr None else rbind (hash_of_json nd v) (\<lambda>h. Inr (Some h)))"

fun hex_number :: "nat \<Rightarrow> string" where
  "hex_number n = (if n < 16 then [''0123456789abcdef'' ! n] else hex_number (n div 16) @ [''0123456789abcdef'' ! (n mod 16)])"

declare hex_number.simps [simp del]

definition block_hash :: "node \<Rightarrow> u64 \<Rightarrow> work_class \<Rightarrow> chain_error + chain_hash option" where
  "block_hash nd height cls =
     rbind (nd_request nd ''chain_getBlockHash'' [JString (''0x'' @ hex_number (unat height))] cls) (optional_hash_of_json nd)"

definition read_header :: "node \<Rightarrow> chain_hash \<Rightarrow> work_class \<Rightarrow> chain_error + header" where
  "read_header nd h cls = rbind (nd_request nd ''chain_getHeader'' [hash_json nd h] cls) (\<lambda>v.
     rbind (invalid (nd_header_of nd v)) (ok_or (ChNotFound h)))"

definition finalized_head :: "node \<Rightarrow> chain_error + chain_hash" where
  "finalized_head nd = rbind (nd_request nd ''chain_getFinalizedHead'' [] Live) (hash_of_json nd)"

text \<open>\<open>connect\<close>: the endpoint must have the expected genesis.\<close>

definition verify_genesis :: "node \<Rightarrow> chain_hash \<Rightarrow> chain_error + unit" where
  "verify_genesis nd genesis = rbind (block_hash nd 0 Live) (\<lambda>actual.
     if actual \<noteq> Some genesis
     then Inl (ChGenesisMismatch genesis (case actual of None \<Rightarrow> ChainHash (replicate 32 0) | Some h \<Rightarrow> h))
     else Inr ())"

text \<open>\<open>sync_state\<close>, with the fields of the health object as \<open>serde\<close> reads them.\<close>

definition u64_of_json :: "json \<Rightarrow> u64 option" where
  "u64_of_json v = (case v of JNumber t \<Rightarrow> parse_unsigned t | _ \<Rightarrow> None)"

definition optional_u64 :: "json \<Rightarrow> string \<Rightarrow> chain_error + u64 option" where
  "optional_u64 v key = (case get_key v key of
       None \<Rightarrow> Inr None
     | Some JNull \<Rightarrow> Inr None
     | Some x \<Rightarrow> rbind (ok_or (ChInvalid ''invalid type: expected u64'') (u64_of_json x)) (\<lambda>n. Inr (Some n)))"

definition read_health :: "json \<Rightarrow> chain_error + sync_state_info" where
  "read_health v =
     rbind (ok_or (ChInvalid ''isSyncing'') (Option.bind (get_key v ''isSyncing'') as_bool)) (\<lambda>syncing.
     rbind (ok_or (ChInvalid ''peers'') (Option.bind (get_key v ''peers'') u64_of_json)) (\<lambda>n.
     rbind (optional_u64 v ''currentBlock'') (\<lambda>current.
     rbind (optional_u64 v ''highestBlock'') (\<lambda>highest.
     Inr \<lparr>is_syncing = syncing, peers = n, current_block = current, highest_block = highest\<rparr>))))"

definition read_sync_state :: "node \<Rightarrow> chain_error + sync_state_info" where
  "read_sync_state nd =
     rbind (nd_request nd ''system_health'' [] Live) (\<lambda>health.
     rbind (read_health health) (\<lambda>st.
     rbind (case nd_request nd ''system_syncState'' [] Live of
         Inr v \<Rightarrow> Inr (st\<lparr>current_block := Option.bind (get_key v ''currentBlock'') u64_of_json,
                       highest_block := Option.bind (get_key v ''highestBlock'') u64_of_json\<rparr>)
       | Inl (ChUnsupported _) \<Rightarrow> Inr st
       | Inl e \<Rightarrow> Inl e) (\<lambda>st.
     Inr (if highest_block st = Some 0 then st\<lparr>is_syncing := False\<rparr> else st))))"

section \<open>Storage and runtime calls\<close>

text \<open>A composite type with a single unnamed field wraps a value; other one-element composites keep their shape.\<close>

definition is_wrapper :: "metadata \<Rightarrow> u32 \<Rightarrow> bool" where
  "is_wrapper m ty = (case mdt_resolve m ty of Some (TdComposite [(None, _)]) \<Rightarrow> True | _ \<Rightarrow> False)"

fun normalize_value :: "metadata \<Rightarrow> typed_value \<Rightarrow> scale_value"
and normalize_composite :: "metadata \<Rightarrow> typed_composite \<Rightarrow> scale_composite" where
  "normalize_value m (TComposite ty c) =
     (let c' = normalize_composite m c
      in if is_wrapper m ty then (case c' of Unnamed [v] \<Rightarrow> v | _ \<Rightarrow> Composite c') else Composite c')"
| "normalize_value m (TVariant ty name c) = Variant name (normalize_composite m c)"
| "normalize_value m (TBitSequence ty bits) = BitSequence bits"
| "normalize_value m (TPrimitive ty p) = Primitive p"
| "normalize_composite m (TNamed fs) = Named (map (\<lambda>(k, v). (k, normalize_value m v)) fs)"
| "normalize_composite m (TUnnamed vs) = Unnamed (map (normalize_value m) vs)"

definition decode_value :: "u8 list \<Rightarrow> u32 \<Rightarrow> metadata \<Rightarrow> chain_error + scale_value" where
  "decode_value bytes ty m = rbind (invalid (mdt_decode_as_type m ty bytes)) (\<lambda>(v, rest).
     if rest \<noteq> [] then Inl (ChInvalid ''trailing SCALE bytes'') else Inr (normalize_value m v))"

definition raw_storage :: "node \<Rightarrow> chain_hash \<Rightarrow> runtime_context \<Rightarrow> string \<Rightarrow> string \<Rightarrow> scale_value list \<Rightarrow> work_class
    \<Rightarrow> chain_error + u8 list" where
  "raw_storage nd at ctx pallet entry keys cls = (case mdt_lookup_entry (rx_metadata ctx) pallet entry of
       Inl _ \<Rightarrow> Inl (ChUnsupported (pallet @ ''.'' @ entry))
     | Inr details \<Rightarrow>
         rbind (invalid (mdt_address (rx_metadata ctx) pallet entry keys)) (\<lambda>key.
         rbind (nd_request nd ''state_getStorage'' [JString (hex_text nd key), hash_json nd at] cls) (\<lambda>v. case v of
             JNull \<Rightarrow> Inr (se_default details)
           | JString s \<Rightarrow> unhex (nd_lib nd) s
           | _ \<Rightarrow> Inl (ChInvalid ''storage response is not hex or null''))))"

definition optional_storage :: "node \<Rightarrow> chain_hash \<Rightarrow> string \<Rightarrow> string \<Rightarrow> scale_value list \<Rightarrow> work_class
    \<Rightarrow> chain_error + scale_value option" where
  "optional_storage nd at pallet entry keys cls =
     rbind (nd_context nd at cls) (\<lambda>ctx. let m = rx_metadata ctx in
     rbind (invalid (mdt_address m pallet entry keys)) (\<lambda>key.
     rbind (nd_request nd ''state_getStorage'' [JString (hex_text nd key), hash_json nd at] cls) (\<lambda>v.
     if v = JNull then Inr None
     else rbind (ok_or (ChInvalid ''storage response is not hex'') (as_str_json v)) (\<lambda>t.
       rbind (unhex (nd_lib nd) t) (\<lambda>bytes.
       rbind (invalid (mdt_lookup_entry m pallet entry)) (\<lambda>details.
       rbind (decode_value bytes (se_value_ty details) m) (\<lambda>x. Inr (Some x))))))))"

definition storage :: "node \<Rightarrow> chain_hash \<Rightarrow> string \<Rightarrow> string \<Rightarrow> scale_value list \<Rightarrow> work_class \<Rightarrow> chain_error + scale_value" where
  "storage nd at pallet entry keys cls =
     rbind (nd_context nd at cls) (\<lambda>ctx.
     rbind (raw_storage nd at ctx pallet entry keys cls) (\<lambda>bytes.
     rbind (invalid (mdt_lookup_entry (rx_metadata ctx) pallet entry)) (\<lambda>details.
     decode_value bytes (se_value_ty details) (rx_metadata ctx))))"

definition runtime_bytes :: "node \<Rightarrow> chain_hash \<Rightarrow> string \<Rightarrow> string \<Rightarrow> scale_value list \<Rightarrow> work_class
    \<Rightarrow> chain_error + u8 list \<times> u32 \<times> metadata" where
  "runtime_bytes nd at api meth args cls =
     rbind (nd_context nd at cls) (\<lambda>ctx. let m = rx_metadata ctx in
     rbind (ok_or (ChUnsupported (api @ ''_'' @ meth)) (mdt_api_output m api meth)) (\<lambda>ty.
     rbind (invalid (mdt_call_args m api meth args)) (\<lambda>payload.
     rbind (nd_request nd ''state_call'' [JString (api @ ''_'' @ meth), JString (hex_text nd payload), hash_json nd at] cls) (\<lambda>v.
     rbind (ok_or (ChInvalid ''runtime response is not hex'') (as_str_json v)) (\<lambda>t.
     rbind (unhex (nd_lib nd) t) (\<lambda>bytes. Inr (bytes, ty, m)))))))"

definition runtime_call :: "node \<Rightarrow> chain_hash \<Rightarrow> string \<Rightarrow> string \<Rightarrow> scale_value list \<Rightarrow> work_class \<Rightarrow> chain_error + scale_value" where
  "runtime_call nd at api meth args cls =
     rbind (runtime_bytes nd at api meth args cls) (\<lambda>(bytes, ty, m). decode_value bytes ty m)"

text \<open>\<open>Value::u128\<close> and \<open>Value::from_bytes\<close>.\<close>

definition value_u64 :: "u64 \<Rightarrow> scale_value" where
  "value_u64 n = Primitive (PU128 (ucast n))"

definition value_bytes :: "u8 list \<Rightarrow> scale_value" where
  "value_bytes bs = Composite (Unnamed (map (\<lambda>b. Primitive (PU128 (ucast b))) bs))"

section \<open>Blocks\<close>

definition chain_timestamp :: "node \<Rightarrow> chain_hash \<Rightarrow> work_class \<Rightarrow> chain_error + u64" where
  "chain_timestamp nd at cls = rbind (storage nd at ''Timestamp'' ''Now'' [] cls) (\<lambda>v.
     rbind (unsigned_value (nd_lib nd) v) (\<lambda>ms. Inr (ms div 1000)))"

definition last_proof_block :: "node \<Rightarrow> chain_hash \<Rightarrow> work_class \<Rightarrow> chain_error + u64" where
  "last_proof_block nd at cls = rbind (storage nd at ''QuantumPow'' ''LastProofBlock'' [] cls) (unsigned_value (nd_lib nd))"

definition qblock_count :: "node \<Rightarrow> chain_hash \<Rightarrow> work_class \<Rightarrow> chain_error + u64" where
  "qblock_count nd at cls = rbind (storage nd at ''QuantumPow'' ''QBlockCount'' [] cls) (unsigned_value (nd_lib nd))"

definition last_runtime_upgrade :: "node \<Rightarrow> chain_hash \<Rightarrow> work_class \<Rightarrow> chain_error + u32 option" where
  "last_runtime_upgrade nd at cls = rbind (optional_storage nd at ''System'' ''LastRuntimeUpgrade'' [] cls)
     (transpose_option (\<lambda>v. u32_field (nd_lib nd) v ''spec_version''))"

definition winning_solution :: "node \<Rightarrow> chain_hash \<Rightarrow> u64 \<Rightarrow> work_class \<Rightarrow> chain_error + qblock_info option" where
  "winning_solution nd at height cls =
     rbind (runtime_call nd at ''QuantumPowApi'' ''winning_solution'' [value_u64 height] cls) (qblock (nd_lib nd))"

definition authorities :: "node \<Rightarrow> chain_hash \<Rightarrow> work_class \<Rightarrow> chain_error + string list" where
  "authorities nd at cls = rbind (storage nd at ''Session'' ''Validators'' [] cls) (\<lambda>v.
     rbind (sequence v) (rmap_list (account (nd_lib nd))))"

definition author :: "node \<Rightarrow> chain_hash \<Rightarrow> header \<Rightarrow> work_class \<Rightarrow> chain_error + string option" where
  "author nd at h cls = rbind (from_logs (nd_lib nd) (digest_logs h)) (\<lambda>digest. case digest of
       None \<Rightarrow> Inr None
     | Some d \<Rightarrow> rbind (authorities nd at cls) (\<lambda>accounts.
         if unat (authority_index d) < length accounts then Inr (Some (accounts ! unat (authority_index d)))
         else Inl (ChInvalid ''BABE authority index is out of range'')))"

text \<open>\<open>contexts\<close>: a block is executed by its parent's runtime, the first one by its own.\<close>

record block_contexts =
  bx_execution :: runtime_context
  bx_post_state :: runtime_context

definition block_contexts_of :: "node \<Rightarrow> chain_hash \<Rightarrow> header \<Rightarrow> work_class \<Rightarrow> chain_error + block_contexts" where
  "block_contexts_of nd block h cls =
     rbind (nd_context nd block cls) (\<lambda>post.
     rbind (header_height h) (\<lambda>height.
     rbind (if height = 0 then Inr post else nd_context nd (parent_hash h) cls) (\<lambda>execution.
     Inr \<lparr>bx_execution = execution, bx_post_state = post\<rparr>)))"

text \<open>
  \<open>load_block\<close> up to the reservation of its payload in the shared budget; the payload is the allocated
  size, a parameter.
\<close>

definition load_block :: "node \<Rightarrow> (header \<Rightarrow> block_events \<Rightarrow> qblock_info option \<Rightarrow> nat) \<Rightarrow> chain_hash \<Rightarrow> block_purpose \<Rightarrow> chain_hash
    \<Rightarrow> work_class \<Rightarrow> chain_error + decoded_block" where
  "load_block nd payload_bytes hash purpose enrichment_at cls =
     rbind (read_header nd hash cls) (\<lambda>h.
     rbind (block_contexts_of nd hash h cls) (\<lambda>ctx.
     rbind (raw_storage nd hash (bx_execution ctx) ''System'' ''Events'' [] cls) (\<lambda>bytes.
     rbind (decode_events (nd_lib nd) (mdt_events (rx_metadata (bx_execution ctx))) bytes) (\<lambda>ev.
     rbind (storage nd hash ''Timestamp'' ''Now'' [] cls) (\<lambda>ts.
     rbind (unsigned_value (nd_lib nd) ts) (\<lambda>ms.
     rbind (header_height h) (\<lambda>height.
     rbind (if purpose = Full then author nd hash h cls else Inr (ev_author ev)) (\<lambda>who.
     let ev = ev\<lparr>ev_timestamp := ms div 1000, ev_block_number := height, ev_author := who\<rparr>;
         (q, q_error) = (if ev_winner ev \<noteq> None
           then (case winning_solution nd enrichment_at height cls of Inr q \<Rightarrow> (q, None) | Inl e \<Rightarrow> (None, Some e))
           else (None, None));
         ev = ev\<lparr>ev_nonce := map_option qi_nonce q\<rparr>
     in if 16 * 1024 * 1024 < payload_bytes h ev q then Inl (ChOversized ''decoded block payload exceeds 16 MiB'')
        else Inr \<lparr>db_hash = hash, db_header = h, db_events = ev, db_qblock = q, db_qblock_error = q_error,
          db_enrichment_at = enrichment_at\<rparr>))))))))"

end
