(* ===== verification/Chain_Snapshots.thy ===== *)
theory Chain_Snapshots
  imports Chain_Reads
begin

text \<open>
  The snapshot reads of \<open>chain/snapshots.rs\<close>: participation counts, difficulty, the BABE epoch, topologies,
  and the paged miner registry and descriptors, with the projection of a descriptor to JSON.
\<close>

section \<open>Records\<close>

record babe_epoch_info =
  bi_epoch_index :: u64
  bi_current_slot :: u64
  bi_epoch_start_slot :: u64
  bi_slots_per_epoch :: u64
  bi_authorities :: "string list"

record chain_miner_info =
  ci_account_id :: string
  ci_deposit :: string
  ci_proofs_submitted :: u64
  ci_proofs_won :: u64
  ci_rewards_earned :: string

record miner_page =
  mp_at :: chain_hash
  mp_miners :: "chain_miner_info list"
  mp_continuation :: "winner_cursor option"
  mp_exhausted :: bool

record topology_info =
  ti_topology_hash :: chain_hash
  ti_node_count :: u32
  ti_edge_count :: u32
  ti_curve_constant :: "f64 option"

record mineable_topology_info =
  mi_topology :: topology_info
  mi_is_default :: bool
  mi_difficulty :: "difficulty_info option"

record descriptor_entry =
  de_account :: "u8 list"
  de_account_id :: string
  de_updated_at :: u64
  de_block_hash :: chain_hash
  de_timestamp :: u64
  de_descriptor :: json
  de_fields :: scale_value

section \<open>Single reads\<close>

definition participant_count :: "node \<Rightarrow> chain_hash \<Rightarrow> u64 \<Rightarrow> work_class \<Rightarrow> chain_error + u32" where
  "participant_count nd at qid cls =
     rbind (runtime_call nd at ''MinerRegistryApi'' ''participant_count_by_qblock'' [value_u64 qid] cls) (\<lambda>v.
     rbind (unsigned_value (nd_lib nd) v) try_from)"

definition current_difficulty :: "node \<Rightarrow> chain_hash \<Rightarrow> work_class \<Rightarrow> chain_error + difficulty_info" where
  "current_difficulty nd at cls =
     rbind (runtime_call nd at ''QuantumPowApi'' ''current_difficulty'' [] cls) (difficulty_value (nd_lib nd))"

definition default_topology :: "node \<Rightarrow> chain_hash \<Rightarrow> work_class \<Rightarrow> chain_error + chain_hash option" where
  "default_topology nd at cls =
     rbind (optional_storage nd at ''QuantumPow'' ''DefaultTopology'' [] cls) (transpose_option (hash_value (nd_lib nd)))"

definition babe_epoch :: "node \<Rightarrow> chain_hash \<Rightarrow> work_class \<Rightarrow> chain_error + babe_epoch_info" where
  "babe_epoch nd at cls = (let lib = nd_lib nd in
     rbind (runtime_call nd at ''BabeApi'' ''current_epoch'' [] cls) (\<lambda>epoch.
     rbind (rbind (storage nd at ''Babe'' ''CurrentSlot'' [] cls) (unsigned_value lib)) (\<lambda>current.
     rbind (rbind (field epoch ''epoch_index'') (unsigned_value lib)) (\<lambda>i.
     rbind (rbind (field epoch ''start_slot'') (unsigned_value lib)) (\<lambda>start.
     rbind (rbind (field epoch ''duration'') (unsigned_value lib)) (\<lambda>dur.
     rbind (authorities nd at cls) (\<lambda>accounts.
     Inr \<lparr>bi_epoch_index = i, bi_current_slot = current, bi_epoch_start_slot = start, bi_slots_per_epoch = dur,
       bi_authorities = accounts\<rparr>)))))))"

section \<open>Pages of a registry map\<close>

text \<open>\<open>key_page\<close> with the responses of the server.\<close>

definition node_keys :: "node \<Rightarrow> chain_hash \<Rightarrow> string \<Rightarrow> string \<Rightarrow> u8 list option \<Rightarrow> u32 \<Rightarrow> work_class \<Rightarrow> chain_error + u8 list list" where
  "node_keys nd at pallet entry start limit cls =
     rbind (nd_context nd at cls) (\<lambda>ctx.
     key_page (nd_lib nd)
       (case mdt_lookup_entry (rx_metadata ctx) pallet entry of
          Inl _ \<Rightarrow> Inl (ChUnsupported (pallet @ ''.'' @ entry)) | Inr _ \<Rightarrow> Inr ())
       (nd_prefix nd pallet entry)
       (\<lambda>start. rbind (nd_request nd ''state_getKeysPaged''
            [JString (hex_text nd (nd_prefix nd pallet entry)), JNumber (unsigned_text limit),
             (case start of None \<Rightarrow> JNull | Some k \<Rightarrow> JString (hex_text nd k)), hash_json nd at] cls)
          (\<lambda>v. Inr (map_option (map as_str_json) (as_array v))))
       start limit)"

definition blake_concat :: "storage_hasher list \<Rightarrow> bool" where
  "blake_concat hashers \<longleftrightarrow> hashers = [Blake2_128Concat]"

definition map_row :: "node \<Rightarrow> chain_hash \<Rightarrow> metadata \<Rightarrow> string \<Rightarrow> string \<Rightarrow> u32 \<Rightarrow> work_class \<Rightarrow> u8 list
    \<Rightarrow> chain_error + u8 list \<times> scale_value" where
  "map_row nd at m pallet entry value_ty cls key =
     (if length key \<noteq> 80 then Inl (ChUnsupported ''registry map key is not an AccountId32'')
      else
      rbind (invalid (mdt_address m pallet entry [value_bytes (drop 48 key)])) (\<lambda>expected.
      if expected \<noteq> key then Inl (ChInvalid ''registry map key hash mismatch'')
      else
      rbind (nd_request nd ''state_getStorage'' [JString (hex_text nd key), hash_json nd at] cls) (\<lambda>raw.
      rbind (ok_or (ChInvalid ''enumerated map value disappeared'') (as_str_json raw)) (\<lambda>t.
      rbind (unhex (nd_lib nd) t) (\<lambda>bytes.
      rbind (decode_value bytes value_ty m) (\<lambda>v. Inr (key, v)))))))"

definition map_page :: "node \<Rightarrow> chain_hash \<Rightarrow> string \<Rightarrow> string \<Rightarrow> u8 list option \<Rightarrow> u32 \<Rightarrow> work_class
    \<Rightarrow> chain_error + (u8 list \<times> scale_value) list" where
  "map_page nd at pallet entry cursor limit cls =
     rbind (nd_context nd at cls) (\<lambda>ctx. let m = rx_metadata ctx in
     rbind (node_keys nd at pallet entry cursor limit cls) (\<lambda>keys.
     rbind (invalid (mdt_lookup_entry m pallet entry)) (\<lambda>definition_of.
     case se_hashers definition_of of
       None \<Rightarrow> Inl (ChUnsupported (pallet @ ''.'' @ entry @ '' is not a map''))
     | Some hashers \<Rightarrow>
         if \<not> blake_concat hashers then Inl (ChUnsupported ''registry map requires Blake2_128Concat'')
         else rmap_list (map_row nd at m pallet entry (se_value_ty definition_of) cls) keys)))"

definition page_continuation :: "chain_hash \<Rightarrow> nat \<Rightarrow> (u8 list \<times> 'a) list \<Rightarrow> winner_cursor option" where
  "page_continuation at limit rows =
     (if length rows < limit \<or> rows = [] then None else Some \<lparr>wc_at = at, wc_key = fst (last rows)\<rparr>)"

section \<open>Miners\<close>

definition miner_info_of :: "decode_lib \<Rightarrow> u8 list \<Rightarrow> scale_value \<Rightarrow> chain_error + chain_miner_info" where
  "miner_info_of lib acc v =
     rbind (account_bytes lib acc) (\<lambda>a.
     rbind (rbind (field v ''deposit'') (decimal_value lib)) (\<lambda>deposit.
     rbind (rbind (field v ''proofs_submitted'') (unsigned_value lib)) (\<lambda>submitted.
     rbind (rbind (field v ''proofs_won'') (unsigned_value lib)) (\<lambda>won.
     rbind (rbind (field v ''rewards_earned'') (decimal_value lib)) (\<lambda>rewards.
     Inr \<lparr>ci_account_id = a, ci_deposit = deposit, ci_proofs_submitted = submitted, ci_proofs_won = won,
       ci_rewards_earned = rewards\<rparr>)))))"

definition read_miner_page :: "node \<Rightarrow> chain_hash \<Rightarrow> winner_cursor option \<Rightarrow> u32 \<Rightarrow> work_class \<Rightarrow> chain_error + miner_page" where
  "read_miner_page nd at cursor limit cls =
     rbind (page_limit limit) (\<lambda>_.
     if (case cursor of None \<Rightarrow> False | Some c \<Rightarrow> wc_at c \<noteq> at)
     then Inl (ChInvalid ''miner cursor belongs to another snapshot'')
     else
     rbind (map_page nd at ''QuantumPow'' ''Miners'' (map_option wc_key cursor) limit cls) (\<lambda>rows.
     rbind (rmap_list (\<lambda>(key, v). if length key < 48 then Inl (ChInvalid ''short registry key'')
         else miner_info_of (nd_lib nd) (drop 48 key) v) rows) (\<lambda>miners.
     Inr \<lparr>mp_at = at, mp_miners = miners, mp_continuation = page_continuation at (unat limit) rows,
       mp_exhausted = (length rows < unat limit)\<rparr>)))"

definition miner_at :: "node \<Rightarrow> chain_hash \<Rightarrow> u8 list \<Rightarrow> work_class \<Rightarrow> chain_error + chain_miner_info option" where
  "miner_at nd at acc cls =
     rbind (optional_storage nd at ''QuantumPow'' ''Miners'' [value_bytes acc] cls)
       (transpose_option (miner_info_of (nd_lib nd) acc))"

section \<open>Descriptors\<close>

text \<open>\<open>String::from_utf8\<close>: well-formed sequences without surrogates and overlong forms.\<close>

fun utf8_valid :: "nat list \<Rightarrow> bool" where
  "utf8_valid [] = True"
| "utf8_valid (b # bs) =
     (let cont = (\<lambda>x. 128 \<le> x \<and> x \<le> 191)
      in if b \<le> 127 then utf8_valid bs
         else (case bs of
           [] \<Rightarrow> False
         | c # cs \<Rightarrow>
             if 194 \<le> b \<and> b \<le> 223 then cont c \<and> utf8_valid cs
             else (case cs of
               [] \<Rightarrow> False
             | d # ds \<Rightarrow>
                 if 224 \<le> b \<and> b \<le> 239 then (if b = 224 then 160 \<le> c \<and> c \<le> 191 else if b = 237 then 128 \<le> c \<and> c \<le> 159 else cont c)
                   \<and> cont d \<and> utf8_valid ds
                 else (case ds of
                   [] \<Rightarrow> False
                 | f # fs \<Rightarrow>
                     240 \<le> b \<and> b \<le> 244 \<and> (if b = 240 then 144 \<le> c \<and> c \<le> 191 else if b = 244 then 128 \<le> c \<and> c \<le> 143 else cont c)
                     \<and> cont d \<and> cont f \<and> utf8_valid fs))))"

definition from_utf8 :: "u8 list \<Rightarrow> chain_error + string" where
  "from_utf8 bs = (if utf8_valid (map unat bs) then Inr (map char_of_byte bs) else Inl (ChInvalid ''invalid utf-8 sequence''))"

definition optional_value :: "scale_value \<Rightarrow> chain_error + scale_value option" where
  "optional_value v = (case unwrap v of
       Variant name _ \<Rightarrow> if name = ''Some'' \<or> name = ''None'' then scale_option v else Inr (Some v)
     | _ \<Rightarrow> Inr (Some v))"

definition optional_field :: "scale_value \<Rightarrow> string \<Rightarrow> chain_error + scale_value option" where
  "optional_field v name = (case maybe_field v name of None \<Rightarrow> Inr None | Some x \<Rightarrow> optional_value x)"

definition text_value :: "decode_lib \<Rightarrow> scale_value \<Rightarrow> chain_error + string option" where
  "text_value lib v = rbind (optional_value v) (\<lambda>o_v. case o_v of
       None \<Rightarrow> Inr None
     | Some x \<Rightarrow> rbind (bytes_value lib x) (\<lambda>bs. if bs = [] then Inr None else rbind (from_utf8 bs) (\<lambda>t. Inr (Some t))))"

definition variant_name :: "scale_value \<Rightarrow> chain_error + string" where
  "variant_name v = (case unwrap v of Variant name _ \<Rightarrow> Inr name | _ \<Rightarrow> Inl (ChInvalid ''expected enum variant''))"

definition put_string :: "decode_lib \<Rightarrow> scale_value \<Rightarrow> string \<times> string \<Rightarrow> json_map \<Rightarrow> chain_error + json_map" where
  "put_string lib v = (\<lambda>(source, target) ob. case maybe_field v source of
       None \<Rightarrow> Inr ob
     | Some x \<Rightarrow> rbind (text_value lib x) (\<lambda>t. Inr (case t of None \<Rightarrow> ob | Some s \<Rightarrow> insert_key target (JString s) ob)))"

definition strings :: "decode_lib \<Rightarrow> scale_value \<Rightarrow> (string \<times> string) list \<Rightarrow> json_map \<Rightarrow> chain_error + json_map" where
  "strings lib v names = rfold (put_string lib v) names"

definition put_number :: "decode_lib \<Rightarrow> scale_value \<Rightarrow> string \<times> string \<Rightarrow> json_map \<Rightarrow> chain_error + json_map" where
  "put_number lib v = (\<lambda>(source, target) ob. rbind (optional_field v source) (\<lambda>o_x. case o_x of
       None \<Rightarrow> Inr ob
     | Some x \<Rightarrow> rbind (unsigned_value lib x) (\<lambda>n. Inr (insert_key target (JNumber (unsigned_text n)) ob))))"

definition numbers :: "decode_lib \<Rightarrow> scale_value \<Rightarrow> (string \<times> string) list \<Rightarrow> json_map \<Rightarrow> chain_error + json_map" where
  "numbers lib v names = rfold (put_number lib v) names"

definition put_object :: "string \<Rightarrow> json_map \<Rightarrow> json_map \<Rightarrow> json_map" where
  "put_object key row ob = (if row = [] then ob else insert_key key (JObject row) ob)"

text \<open>One entry of the miner list, numbered from zero.\<close>

definition miner_category_of :: "string \<Rightarrow> string" where
  "miner_category_of kind =
     (if kind = ''Cpu'' then ''CPU'' else if kind = ''Gpu'' then ''GPU''
      else if kind \<in> set [''QpuDwave'', ''QpuIbm'', ''QpuIonq'', ''QpuPasqal''] then ''QPU'' else ''OTHER'')"

definition miner_row :: "decode_lib \<Rightarrow> nat \<times> scale_value \<Rightarrow> chain_error + string \<times> json_map" where
  "miner_row lib = (\<lambda>(i, miner).
     rbind (rbind (field miner ''kind'') variant_name) (\<lambda>kind. let category = miner_category_of kind in
     rbind (rbind (field miner ''label'') (text_value lib)) (\<lambda>o_label.
     let label = (case o_label of Some l \<Rightarrow> l | None \<Rightarrow> map ascii_lower category @ ''-'' @ nat_text (i + 1)) in
     rbind (rbind (field miner ''device_id'') (text_value lib)) (\<lambda>o_device.
     let device = (case o_device of Some d \<Rightarrow> d | None \<Rightarrow> label);
         row = insert_key ''minerId'' (JString device) (insert_key ''kind'' (JString category) []) in
     rbind (rbind (field miner ''backend'') (text_value lib)) (\<lambda>o_backend.
     Inr (label, case o_backend of
           None \<Rightarrow> row
         | Some b \<Rightarrow> if category = ''GPU'' then insert_key ''backend'' (JString b) row
             else if category = ''QPU'' then insert_key ''provider'' (JString b) row else row))))))"

definition put_miner :: "decode_lib \<Rightarrow> nat \<times> scale_value \<Rightarrow> json_map \<Rightarrow> chain_error + json_map" where
  "put_miner lib m ob = rbind (miner_row lib m) (\<lambda>(label, row). Inr (insert_key label (JObject row) ob))"

definition miners_object :: "decode_lib \<Rightarrow> scale_value \<Rightarrow> chain_error + json_map" where
  "miners_object lib v = rbind (rbind (field v ''miners'') sequence) (\<lambda>ms. rfold (put_miner lib) (enumerate 0 ms) [])"

definition runtime_object :: "decode_lib \<Rightarrow> scale_value \<Rightarrow> chain_error + json_map" where
  "runtime_object lib runtime =
     rbind (strings lib runtime [(''python'', ''python''), (''quip_version'', ''quipVersion''), (''docker_image'', ''dockerImage'')] []) (\<lambda>row.
     rbind (numbers lib runtime [(''protocol_version'', ''protocolVersion'')] row) (\<lambda>row.
     case maybe_field runtime ''in_docker'' of
       None \<Rightarrow> Inr row
     | Some v \<Rightarrow> (case unwrap v of
         Primitive (PBool b) \<Rightarrow> Inr (insert_key ''inDocker'' (JBool b) row)
       | _ \<Rightarrow> Inl (ChInvalid ''in_docker is not boolean''))))"

definition gpu_object :: "decode_lib \<Rightarrow> scale_value \<Rightarrow> chain_error + json_map" where
  "gpu_object lib gpu =
     rbind (strings lib gpu [(''vendor'', ''vendor''), (''name'', ''name'')] []) (\<lambda>row.
     numbers lib gpu [(''index'', ''index''), (''memory_mb'', ''memoryMb''), (''utilization_pct'', ''observedUtilizationPct'')] row)"

definition system_object :: "decode_lib \<Rightarrow> scale_value \<Rightarrow> chain_error + json_map" where
  "system_object lib system =
     rbind (field system ''os'') (\<lambda>os.
     rbind (strings lib os [(''system'', ''system''), (''release'', ''release''), (''machine'', ''machine'')] []) (\<lambda>os_row.
     let row = put_object ''os'' os_row [] in
     rbind (field system ''cpu'') (\<lambda>cpu.
     rbind (strings lib cpu [(''brand'', ''brand''), (''arch'', ''arch'')] []) (\<lambda>cpu_row.
     rbind (numbers lib cpu [(''logical_cores'', ''logicalCores''), (''physical_cores'', ''physicalCores'')] cpu_row) (\<lambda>cpu_row.
     let row = put_object ''cpu'' cpu_row row in
     rbind (numbers lib system [(''memory_mb'', ''memoryMb'')] row) (\<lambda>row.
     rbind (rbind (field system ''gpus'') sequence) (\<lambda>gpus.
     rbind (rmap_list (gpu_object lib) gpus) (\<lambda>gpu_rows.
     let gpu_values = map JObject (filter (\<lambda>r. r \<noteq> []) gpu_rows)
     in Inr (if gpu_values = [] then row else insert_key ''gpus'' (JArray gpu_values) row)))))))))"

definition descriptor_json :: "decode_lib \<Rightarrow> scale_value \<Rightarrow> chain_error + json" where
  "descriptor_json lib v =
     rbind (u32_field lib v ''schema_version'') (\<lambda>schema.
     if schema \<noteq> 1 \<and> schema \<noteq> 2 then Inl (ChUnsupported (''descriptor schema '' @ unsigned_text schema))
     else
     rbind (rbind (field v ''node_name'') (text_value lib)) (\<lambda>o_name.
     rbind (ok_or (ChInvalid ''empty descriptor node name'') o_name) (\<lambda>name.
     let ob = insert_key ''nodeName'' (JString name) (insert_key ''descriptorVersion'' (JNumber ''1'')
                (insert_key ''schema'' (JString ''quip.node_descriptor.v1'') [])) in
     rbind (strings lib v [(''public_host'', ''publicHost'')] ob) (\<lambda>ob.
     rbind (numbers lib v [(''public_port'', ''publicPort'')] ob) (\<lambda>ob.
     rbind (rbind (field v ''rpc_endpoints'') sequence) (\<lambda>vs.
     rbind (rmap_list (\<lambda>x. rbind (text_value lib x) (ok_or (ChInvalid ''empty RPC endpoint''))) vs) (\<lambda>endpoints.
     let ob = insert_key ''rpcEndpoints'' (JArray (map JString endpoints)) ob in
     rbind (rbind (field v ''log_level'') variant_name) (\<lambda>log.
     let ob = insert_key ''logLevel'' (JString log) ob in
     rbind (miners_object lib v) (\<lambda>miners.
     let ob = put_object ''miners'' miners ob in
     rbind (optional_field v ''runtime'') (\<lambda>o_runtime.
     rbind (case o_runtime of None \<Rightarrow> Inr ob
            | Some r \<Rightarrow> rbind (runtime_object lib r) (\<lambda>row. Inr (put_object ''runtime'' row ob))) (\<lambda>ob.
     rbind (optional_field v ''system_info'') (\<lambda>o_system.
     rbind (case o_system of None \<Rightarrow> Inr ob
            | Some sys \<Rightarrow> rbind (system_object lib sys) (\<lambda>row. Inr (put_object ''systemInfo'' row ob))) (\<lambda>ob.
     Inr (JObject ob))))))))))))))"

definition descriptor_present :: "node \<Rightarrow> chain_hash \<Rightarrow> u8 list \<Rightarrow> work_class \<Rightarrow> chain_error + bool" where
  "descriptor_present nd at acc cls =
     rbind (optional_storage nd at ''MinerRegistry'' ''NodeDescriptors'' [value_bytes acc] cls) (\<lambda>v. Inr (v \<noteq> None))"

text \<open>The block that last changed a descriptor and its time.\<close>

definition provenance_of :: "node \<Rightarrow> work_class \<Rightarrow> u64 \<Rightarrow> chain_error + chain_hash \<times> u64" where
  "provenance_of nd cls updated =
     rbind (block_hash nd updated cls) (\<lambda>found.
     rbind (ok_or (ChInvalid ''descriptor update block missing'') found) (\<lambda>h.
     rbind (chain_timestamp nd h cls) (\<lambda>t. Inr (h, t))))"

text \<open>In \<open>descriptor_at\<close> the account is encoded between the two reads of the provenance.\<close>

definition descriptor_at :: "node \<Rightarrow> chain_hash \<Rightarrow> u8 list \<Rightarrow> work_class \<Rightarrow> chain_error + descriptor_entry option" where
  "descriptor_at nd at acc cls =
     rbind (optional_storage nd at ''MinerRegistry'' ''NodeDescriptors'' [value_bytes acc] cls) (\<lambda>found. case found of
       None \<Rightarrow> Inr None
     | Some v \<Rightarrow>
         rbind (rbind (field v ''updated_at'') (unsigned_value (nd_lib nd))) (\<lambda>updated.
         rbind (rbind (block_hash nd updated cls) (ok_or (ChInvalid ''descriptor update block missing''))) (\<lambda>h.
         rbind (account_bytes (nd_lib nd) acc) (\<lambda>name.
         rbind (chain_timestamp nd h cls) (\<lambda>t.
         rbind (descriptor_json (nd_lib nd) v) (\<lambda>j.
         Inr (Some \<lparr>de_account = acc, de_account_id = name, de_updated_at = updated, de_block_hash = h, de_timestamp = t,
           de_descriptor = j, de_fields = v\<rparr>)))))))"

text \<open>The loop of \<open>descriptor_page\<close>; the state holds the provenance read so far, by height.\<close>

definition descriptor_row_of :: "node \<Rightarrow> work_class \<Rightarrow> u8 list \<times> scale_value \<Rightarrow> descriptor_entry list \<times> (u64 \<times> chain_hash \<times> u64) list
    \<Rightarrow> chain_error + descriptor_entry list \<times> (u64 \<times> chain_hash \<times> u64) list" where
  "descriptor_row_of nd cls = (\<lambda>(key, v) (entries, cache).
     rbind (rbind (field v ''updated_at'') (unsigned_value (nd_lib nd))) (\<lambda>updated.
     rbind (case map_of cache updated of
         Some cached \<Rightarrow> Inr (cached, cache)
       | None \<Rightarrow> rbind (provenance_of nd cls updated) (\<lambda>p. Inr (p, (updated, p) # cache))) (\<lambda>((h, t), cache).
     if length key < 48 then Inl (ChInvalid ''short descriptor key'')
     else if length (drop 48 key) \<noteq> 32 then Inl (ChInvalid ''could not convert slice to array'')
     else
     rbind (account_bytes (nd_lib nd) (drop 48 key)) (\<lambda>name.
     rbind (descriptor_json (nd_lib nd) v) (\<lambda>j.
     Inr (entries @ [\<lparr>de_account = drop 48 key, de_account_id = name, de_updated_at = updated, de_block_hash = h,
       de_timestamp = t, de_descriptor = j, de_fields = v\<rparr>], cache))))))"

definition descriptor_page :: "node \<Rightarrow> chain_hash \<Rightarrow> winner_cursor option \<Rightarrow> work_class
    \<Rightarrow> chain_error + descriptor_entry list \<times> winner_cursor option" where
  "descriptor_page nd at cursor cls =
     (if (case cursor of None \<Rightarrow> False | Some c \<Rightarrow> wc_at c \<noteq> at)
      then Inl (ChInvalid ''descriptor cursor belongs to another snapshot'')
      else
      rbind (map_page nd at ''MinerRegistry'' ''NodeDescriptors'' (map_option wc_key cursor) 1000 cls) (\<lambda>rows.
      rbind (rfold (descriptor_row_of nd cls) rows ([], [])) (\<lambda>(entries, _).
      Inr (entries, page_continuation at 1000 rows))))"

section \<open>Pages advance\<close>

lemma map_row_key: "map_row nd at m pallet entry ty cls key = Inr row \<Longrightarrow> fst row = key \<and> length key = 80"
  by (auto simp: map_row_def rbind_Inr split: if_splits)

lemma node_keys_sorted:
  assumes "node_keys nd at pallet entry start limit cls = Inr keys"
  shows "length keys \<le> unat limit" and "sorted_wrt (<) keys"
    and "key \<in> set keys \<Longrightarrow> take (length (nd_prefix nd pallet entry)) key = nd_prefix nd pallet entry
      \<and> (\<forall>p. start = Some p \<longrightarrow> p < key)"
proof -
  from assms obtain vs where vs: "\<not> unat limit < length vs"
    "ordered_keys (unhex (nd_lib nd)) (nd_prefix nd pallet entry) start vs = Inr keys"
    by (auto simp: node_keys_def key_page_def rbind_Inr split: if_splits)
  from ordered_keys_sorted [OF vs(2)] vs(1) show "length keys \<le> unat limit" "sorted_wrt (<) keys"
    and "key \<in> set keys \<Longrightarrow> take (length (nd_prefix nd pallet entry)) key = nd_prefix nd pallet entry
      \<and> (\<forall>p. start = Some p \<longrightarrow> p < key)"
    by auto
qed

lemma rmap_list_keys:
  assumes "rmap_list f keys = Inr rows" and "\<And>k r. f k = Inr r \<Longrightarrow> fst r = k \<and> P k"
  shows "map fst rows = keys \<and> (\<forall>k\<in>set keys. P k)"
  using assms(1)
proof (induction keys arbitrary: rows)
  case (Cons k keys)
  then obtain r rs where "f k = Inr r" "rmap_list f keys = Inr rs" "rows = r # rs" by (auto simp: rbind_Inr)
  with Cons.IH assms(2) show ?case by auto
qed simp

lemma map_page_keys:
  assumes "map_page nd at pallet entry cursor limit cls = Inr rows"
  shows "\<exists>keys. node_keys nd at pallet entry cursor limit cls = Inr keys \<and> map fst rows = keys \<and> (\<forall>k\<in>set keys. length k = 80)"
proof -
  from assms obtain m ty keys where k: "node_keys nd at pallet entry cursor limit cls = Inr keys"
    and r: "rmap_list (map_row nd at m pallet entry ty cls) keys = Inr rows"
    by (auto simp: map_page_def rbind_Inr Let_def split: option.splits if_splits)
  from rmap_list_keys [OF r, of "\<lambda>k. length k = 80"] map_row_key k show ?thesis by metis
qed

text \<open>The registry keys beyond a cursor are finitely many, and every continuation leaves fewer.\<close>

definition keys_beyond :: "winner_cursor option \<Rightarrow> u8 list set" where
  "keys_beyond cursor = {k. length k = 80 \<and> (\<forall>c. cursor = Some c \<longrightarrow> wc_key c < k)}"

lemma finite_keys_beyond [simp]: "finite (keys_beyond cursor)"
  using finite_lists_length_eq [of "UNIV :: u8 set" 80] by (auto simp: keys_beyond_def intro: finite_subset)

lemma continuation_advances:
  assumes "map_page nd at pallet entry (map_option wc_key cursor) limit cls = Inr rows"
    and "page_continuation at' n rows = Some c"
  shows "wc_key c \<in> keys_beyond cursor" and "card (keys_beyond (Some c)) < card (keys_beyond cursor)"
proof -
  obtain keys where k: "node_keys nd at pallet entry (map_option wc_key cursor) limit cls = Inr keys" "map fst rows = keys"
    "\<forall>k\<in>set keys. length k = 80" using map_page_keys [OF assms(1)] by auto
  have "rows \<noteq> []" "wc_key c = fst (last rows)"
    using assms(2) by (auto simp: page_continuation_def split: if_splits)
  then have "wc_key c \<in> set keys" using k(2) by (metis last_in_set list.set_map imageI)
  with node_keys_sorted(3) [OF k(1)] k(3) show mem: "wc_key c \<in> keys_beyond cursor" by (auto simp: keys_beyond_def)
  have "keys_beyond (Some c) \<subseteq> keys_beyond cursor" using mem by (auto simp: keys_beyond_def intro: less_trans)
  moreover have "wc_key c \<notin> keys_beyond (Some c)" by (simp add: keys_beyond_def)
  ultimately have "keys_beyond (Some c) \<subset> keys_beyond cursor" using mem by blast
  then show "card (keys_beyond (Some c)) < card (keys_beyond cursor)" by (intro psubset_card_mono) auto
qed

lemma miner_page_rows:
  assumes "read_miner_page nd at cursor limit cls = Inr page"
  obtains rows where "map_page nd at ''QuantumPow'' ''Miners'' (map_option wc_key cursor) limit cls = Inr rows"
    and "rmap_list (\<lambda>(key, v). if length key < 48 then Inl (ChInvalid ''short registry key'')
         else miner_info_of (nd_lib nd) (drop 48 key) v) rows = Inr (mp_miners page)"
    and "mp_continuation page = page_continuation at (unat limit) rows" and "mp_exhausted page = (length rows < unat limit)"
  using assms by (auto simp: read_miner_page_def rbind_Inr split: if_splits)

lemma miner_page_advances:
  assumes "read_miner_page nd at cursor limit cls = Inr page" and "mp_continuation page = Some c"
  shows "card (keys_beyond (Some c)) < card (keys_beyond cursor)"
  using assms by (elim miner_page_rows) (rule continuation_advances(2), assumption, simp)

lemma descriptor_page_rows:
  assumes "descriptor_page nd at cursor cls = Inr (entries, next_cursor)"
  obtains rows cache where "map_page nd at ''MinerRegistry'' ''NodeDescriptors'' (map_option wc_key cursor) 1000 cls = Inr rows"
    and "rfold (descriptor_row_of nd cls) rows ([], []) = Inr (entries, cache)" and "next_cursor = page_continuation at 1000 rows"
  using assms by (auto simp: descriptor_page_def rbind_Inr split: if_splits)

lemma descriptor_page_advances:
  assumes "descriptor_page nd at cursor cls = Inr (entries, Some c)"
  shows "card (keys_beyond (Some c)) < card (keys_beyond cursor)"
  using assms by (elim descriptor_page_rows) (rule continuation_advances(2), assumption, simp)

end
