(* ===== verification/Chain_Topology.thy ===== *)
theory Chain_Topology
  imports Chain_Snapshots "HOL-Library.AList"
begin

text \<open>
  Topologies (\<open>chain/snapshots.rs\<close>): the scalars read from the encoded graph without keeping it, the energy
  curve computed from them, and the bounded cache they are kept in (\<open>make_room\<close> of \<open>chain/mod.rs\<close>).
\<close>

section \<open>Floating point\<close>

text \<open>Operators on finite operands; a square root is rounded from its integer part with a sticky bit.\<close>

definition f64_neg :: "f64 \<Rightarrow> f64" where
  "f64_neg x = x XOR push_bit 63 1"

definition f64_abs :: "f64 \<Rightarrow> f64" where
  "f64_abs x = take_bit 63 x"

definition f64_add :: "f64 \<Rightarrow> f64 \<Rightarrow> f64" where
  "f64_add x y = (let s = f64_units x + f64_units y
     in f64_round (if s = 0 then f64_sign x \<and> f64_sign y else s < 0) (nat \<bar>s\<bar>) (2 ^ 1074))"

definition f64_sub :: "f64 \<Rightarrow> f64 \<Rightarrow> f64" where
  "f64_sub x y = f64_add x (f64_neg y)"

definition f64_le :: "f64 \<Rightarrow> f64 \<Rightarrow> bool" where
  "f64_le x y \<longleftrightarrow> f64_units x \<le> f64_units y"

fun isqrt :: "nat \<Rightarrow> nat" where
  "isqrt n = (if n = 0 then 0 else let r = 2 * isqrt (n div 4) in if (r + 1) * (r + 1) \<le> n then r + 1 else r)"

declare isqrt.simps [simp del]

definition f64_sqrt :: "f64 \<Rightarrow> f64" where
  "f64_sqrt x = (let n = nat (f64_units x) * 2 ^ 1074 * 2 ^ 128; r = isqrt n
     in f64_round False (2 * r + (if r * r = n then 0 else 1)) (2 ^ 1139))"

lemma isqrt_correct: "isqrt n * isqrt n \<le> n \<and> n < (isqrt n + 1) * (isqrt n + 1)"
proof (induction n rule: isqrt.induct)
  case (1 n)
  show ?case
  proof (cases "n = 0")
    case True
    then show ?thesis by (simp add: isqrt.simps [of 0])
  next
    case False
    let ?q = "isqrt (n div 4)"
    have q: "?q * ?q \<le> n div 4" "n div 4 < (?q + 1) * (?q + 1)" using 1 [OF False] by auto
    have "4 * (?q * ?q) \<le> n" using q(1) by linarith
    moreover have "n < 4 * ((?q + 1) * (?q + 1))" using q(2) by linarith
    ultimately show ?thesis
      using False by (simp add: isqrt.simps [of n] Let_def algebra_simps)
  qed
qed

section \<open>Allowed values\<close>

definition signed_i32 :: "decode_lib \<Rightarrow> scale_value \<Rightarrow> chain_error + f64" where
  "signed_i32 lib v = rbind (signed_value lib v) (\<lambda>n.
     if - (2 ^ 31) \<le> n \<and> n < 2 ^ 31 then Inr (f64_of_int n)
     else Inl (ChInvalid ''out of range integral type conversion attempted''))"

definition triangle :: "f64 \<Rightarrow> f64" where
  "triangle n = (if f64_le n 0 then 0 else f64_div (f64_mul n (f64_add n (f64_of_int 1))) (f64_of_int 2))"

definition range_mean :: "f64 \<Rightarrow> f64 \<Rightarrow> f64" where
  "range_mean lo hi =
     (let one = f64_of_int 1;
          total = (if f64_le 0 lo then f64_sub (triangle hi) (triangle (f64_sub lo one))
            else if f64_le hi 0 then f64_sub (triangle (f64_neg lo)) (triangle (f64_sub (f64_neg hi) one))
            else f64_add (triangle (f64_neg lo)) (triangle hi))
      in f64_div total (f64_add (f64_sub hi lo) one))"

definition mean_abs :: "decode_lib \<Rightarrow> scale_value \<Rightarrow> chain_error + f64 option" where
  "mean_abs lib v = (case unwrap v of
       Variant name c \<Rightarrow>
         (if name = ''Set'' then
            (case composite_values c of
               [] \<Rightarrow> Inl (ChInvalid ''empty Set payload'')
             | value # _ \<Rightarrow> rbind (sequence value) (\<lambda>vs.
                 if vs = [] then Inr None
                 else rbind (rfold (\<lambda>x total. rbind (signed_i32 lib x) (\<lambda>n.
                       Inr (f64_add total (f64_div (f64_abs n) (f64_of_int 1000))))) vs 0) (\<lambda>total.
                   if 2 ^ 32 \<le> length vs then Inl (ChInvalid ''out of range integral type conversion attempted'')
                   else Inr (Some (f64_div total (f64_of_int (int (length vs))))))))
          else
            rbind (rbind (field (Composite c) ''min'') (signed_i32 lib)) (\<lambda>lo.
            rbind (rbind (field (Composite c) ''max'') (signed_i32 lib)) (\<lambda>hi.
            if \<not> f64_le lo hi then Inl (ChInvalid ''allowed value range is reversed'')
            else if name = ''ContinuousRange'' then Inr (Some (f64_div (range_mean lo hi) (f64_of_int 1000)))
            else if name = ''IntegerRange'' then Inr (Some (range_mean lo hi))
            else Inl (ChUnsupported (''allowed value variant '' @ name)))))
     | _ \<Rightarrow> Inl (ChInvalid ''allowed value spec is not an enum''))"

section \<open>Encoded topologies\<close>

text \<open>The loop through the wrappers of a vector; not ending is \<open>None\<close>.\<close>

partial_function (option) vector_type :: "(u32 \<Rightarrow> type_def option) \<Rightarrow> u32 \<Rightarrow> (chain_error + unit) option" where
  "vector_type resolve i = (case resolve i of
       None \<Rightarrow> Some (Inl (ChInvalid ''missing topology vector type''))
     | Some td \<Rightarrow> (case td of
         TdSequence _ \<Rightarrow> Some (Inr ())
       | TdComposite fs \<Rightarrow> (case fs of
           [(_, j)] \<Rightarrow> vector_type resolve j
         | _ \<Rightarrow> Some (Inl (ChUnsupported ''topology graph field is not a vector'')))
       | _ \<Rightarrow> Some (Inl (ChUnsupported ''topology graph field is not a vector''))))"

record topology_scan =
  tz_input :: "u8 list"
  tz_nodes :: "u32 option"
  tz_edges :: "u32 option"
  tz_h :: "f64 option option"
  tz_j :: "f64 option option"

definition count_field :: "decode_lib \<Rightarrow> metadata \<Rightarrow> u32 \<Rightarrow> topology_scan \<Rightarrow> chain_error + u32 \<times> topology_scan" where
  "count_field lib m ty s =
     rbind (invalid (decode_compact_u32 lib (tz_input s))) (\<lambda>(count, _).
     rbind (invalid (mdt_skip m ty (tz_input s))) (\<lambda>rest. Inr (count, s\<lparr>tz_input := rest\<rparr>)))"

definition values_field :: "decode_lib \<Rightarrow> metadata \<Rightarrow> u32 \<Rightarrow> topology_scan \<Rightarrow> chain_error + f64 option \<times> topology_scan" where
  "values_field lib m ty s =
     rbind (invalid (mdt_decode_as_type m ty (tz_input s))) (\<lambda>(v, rest).
     rbind (mean_abs lib (normalize_value m v)) (\<lambda>mean. Inr (mean, s\<lparr>tz_input := rest\<rparr>)))"

definition scan_field :: "decode_lib \<Rightarrow> metadata \<Rightarrow> string option \<times> u32 \<Rightarrow> topology_scan \<Rightarrow> (chain_error + topology_scan) option" where
  "scan_field lib m = (\<lambda>(name, ty) s.
     if name = Some ''nodes'' \<or> name = Some ''edges'' then
       (case vector_type (mdt_resolve m) ty of
          None \<Rightarrow> None
        | Some (Inl e) \<Rightarrow> Some (Inl e)
        | Some (Inr _) \<Rightarrow> Some (rbind (count_field lib m ty s) (\<lambda>(count, s).
            Inr (if name = Some ''nodes'' then s\<lparr>tz_nodes := Some count\<rparr> else s\<lparr>tz_edges := Some count\<rparr>))))
     else if name = Some ''allowed_h_values'' \<or> name = Some ''allowed_j_values'' then
       Some (rbind (values_field lib m ty s) (\<lambda>(mean, s).
         Inr (if name = Some ''allowed_h_values'' then s\<lparr>tz_h := Some mean\<rparr> else s\<lparr>tz_j := Some mean\<rparr>)))
     else Some (rbind (invalid (mdt_skip m ty (tz_input s))) (\<lambda>rest. Inr (s\<lparr>tz_input := rest\<rparr>))))"

fun scan_fields :: "decode_lib \<Rightarrow> metadata \<Rightarrow> (string option \<times> u32) list \<Rightarrow> topology_scan \<Rightarrow> (chain_error + topology_scan) option" where
  "scan_fields lib m [] s = Some (Inr s)"
| "scan_fields lib m (f # fs) s = (case scan_field lib m f s of
       None \<Rightarrow> None | Some (Inl e) \<Rightarrow> Some (Inl e) | Some (Inr s') \<Rightarrow> scan_fields lib m fs s')"

definition finish_scan :: "topology_scan \<Rightarrow> chain_error + u32 \<times> u32 \<times> f64 option \<times> f64 option" where
  "finish_scan s =
     (if tz_input s \<noteq> [] then Inl (ChInvalid ''trailing topology bytes'')
      else rbind (ok_or (ChInvalid ''topology lacks nodes'') (tz_nodes s)) (\<lambda>n.
        rbind (ok_or (ChInvalid ''topology lacks edges'') (tz_edges s)) (\<lambda>e.
        rbind (ok_or (ChInvalid ''topology lacks h spec'') (tz_h s)) (\<lambda>h.
        rbind (ok_or (ChInvalid ''topology lacks j spec'') (tz_j s)) (\<lambda>j. Inr (n, e, h, j))))))"

text \<open>The fields of the struct inside the \<open>Some\<close> variant, and the input after the variant index.\<close>

definition topology_layout :: "decode_lib \<Rightarrow> u8 list \<Rightarrow> u32 \<Rightarrow> metadata \<Rightarrow> chain_error + (string option \<times> u32) list \<times> u8 list" where
  "topology_layout lib bytes ty m =
     rbind (invalid (decode_u8 lib bytes)) (\<lambda>(index, input).
     rbind (ok_or (ChInvalid ''missing topology Option type'') (mdt_resolve m ty)) (\<lambda>td. case td of
       TdVariant variants \<Rightarrow>
         rbind (ok_or (ChInvalid ''unknown topology Option variant'') (find (\<lambda>(i, _, _). i = index) variants)) (\<lambda>(_, name, tys).
         if name \<noteq> ''Some'' then Inl (ChInvalid ''mineable topology metadata is absent'')
         else (case tys of
           [some] \<Rightarrow> rbind (ok_or (ChInvalid ''missing topology type'') (mdt_resolve m some)) (\<lambda>td. case td of
               TdComposite fs \<Rightarrow> Inr (fs, input)
             | _ \<Rightarrow> Inl (ChInvalid ''topology is not a struct''))
         | _ \<Rightarrow> Inl (ChInvalid ''malformed topology Option'')))
     | _ \<Rightarrow> Inl (ChInvalid ''topology return type is not an Option'')))"

definition topology_scalars :: "decode_lib \<Rightarrow> u8 list \<Rightarrow> u32 \<Rightarrow> metadata \<Rightarrow> (chain_error + u32 \<times> u32 \<times> f64 option \<times> f64 option) option" where
  "topology_scalars lib bytes ty m = (case topology_layout lib bytes ty m of
       Inl e \<Rightarrow> Some (Inl e)
     | Inr (fs, input) \<Rightarrow>
         map_option (\<lambda>r. rbind r finish_scan)
           (scan_fields lib m fs \<lparr>tz_input = input, tz_nodes = None, tz_edges = None, tz_h = None, tz_j = None\<rparr>))"

definition curve_constant_of :: "u32 \<Rightarrow> u32 \<Rightarrow> f64 option \<Rightarrow> f64 option \<Rightarrow> f64 option" where
  "curve_constant_of nodes edges h j =
     (let n = f64_of_int (int (unat nodes));
          degree = (if 0 < nodes then f64_div (f64_mul (f64_of_int 2) (f64_of_int (int (unat edges)))) n else 0);
          root = f64_sqrt degree
      in if f64_gt_int degree 0 then
           (case (h, j) of
              (Some h, Some j) \<Rightarrow>
                let k = f64_add (f64_mul (f64_mul j root) n)
                          (f64_div (f64_mul (f64_mul (f64_round False 88 100) h) n) root)
                in if f64_gt_int k 0 then Some k else None
            | _ \<Rightarrow> None)
         else None)"

definition load_topology :: "node \<Rightarrow> chain_hash \<Rightarrow> chain_hash \<Rightarrow> work_class \<Rightarrow> (chain_error + topology_info) option" where
  "load_topology nd at h cls =
     (case runtime_bytes nd at ''QuantumPowApi'' ''topology_meta'' [value_bytes (raw_bytes h)] cls of
        Inl e \<Rightarrow> Some (Inl e)
      | Inr (bytes, ty, m) \<Rightarrow>
          map_option (\<lambda>r. rbind r (\<lambda>(nodes, edges, hv, jv). Inr \<lparr>ti_topology_hash = h, ti_node_count = nodes,
            ti_edge_count = edges, ti_curve_constant = curve_constant_of nodes edges hv jv\<rparr>))
            (topology_scalars (nd_lib nd) bytes ty m))"

section \<open>The cache\<close>

definition make_room :: "('k \<times> 'v) list \<Rightarrow> nat \<Rightarrow> ('v \<Rightarrow> bool) \<Rightarrow> chain_error + ('k \<times> 'v) list" where
  "make_room m limit removable =
     (if limit \<le> length m then
        (case find (\<lambda>(_, v). removable v) m of None \<Rightarrow> Inl ChBusy | Some (k, _) \<Rightarrow> Inr (AList.delete k m))
      else Inr m)"

text \<open>A cell holds a summary once it is loaded, and counts the callers that hold it besides the map.\<close>

record topology_cell =
  tc_value :: "topology_info option"
  tc_users :: nat

type_synonym topology_cache = "((chain_hash \<times> chain_hash) \<times> topology_cell) list"

definition import_topology :: "chain_hash \<Rightarrow> topology_info \<Rightarrow> topology_cache \<Rightarrow> chain_error + topology_cache" where
  "import_topology genesis v cache =
     (if (case ti_curve_constant v of None \<Rightarrow> False | Some k \<Rightarrow> \<not> is_finite k \<or> f64_lt_int k 0)
      then Inl (ChInvalid ''invalid cached curve constant'')
      else (let key = (genesis, ti_topology_hash v)
        in rbind (if map_of cache key = None then make_room cache 128 (\<lambda>c. tc_value c \<noteq> None) else Inr cache) (\<lambda>cache.
           Inr (AList.update key \<lparr>tc_value = Some v, tc_users = 0\<rparr> cache))))"

text \<open>What was inserted before an error stays.\<close>

fun import_all :: "chain_hash \<Rightarrow> topology_info list \<Rightarrow> topology_cache \<Rightarrow> (chain_error + unit) \<times> topology_cache" where
  "import_all genesis [] cache = (Inr (), cache)"
| "import_all genesis (v # vs) cache = (case import_topology genesis v cache of
       Inl e \<Rightarrow> (Inl e, cache) | Inr cache' \<Rightarrow> import_all genesis vs cache')"

definition import_topologies :: "chain_hash \<Rightarrow> chain_hash \<Rightarrow> topology_info list \<Rightarrow> topology_cache \<Rightarrow> (chain_error + unit) \<times> topology_cache" where
  "import_topologies own genesis vs cache =
     (if genesis \<noteq> own then (Inl (ChGenesisMismatch own genesis), cache) else import_all genesis vs cache)"

definition topology_records :: "topology_cache \<Rightarrow> topology_info list" where
  "topology_records cache = List.map_filter (tc_value \<circ> snd) cache"

text \<open>The three atomic parts of \<open>topology_summary\<close>: taking the cell, filling it, and letting it go.\<close>

definition enter_topology :: "chain_hash \<times> chain_hash \<Rightarrow> topology_cache \<Rightarrow> chain_error + topology_cache" where
  "enter_topology key cache =
     rbind (if map_of cache key = None then make_room cache 128 (\<lambda>c. tc_users c = 0) else Inr cache) (\<lambda>cache.
     let c = (case map_of cache key of None \<Rightarrow> \<lparr>tc_value = None, tc_users = 0\<rparr> | Some c \<Rightarrow> c)
     in Inr (AList.update key (c\<lparr>tc_users := tc_users c + 1\<rparr>) cache))"

definition update_cell :: "chain_hash \<times> chain_hash \<Rightarrow> (topology_cell \<Rightarrow> topology_cell) \<Rightarrow> topology_cache \<Rightarrow> topology_cache" where
  "update_cell key f cache = map (\<lambda>(k, c). (k, if k = key then f c else c)) cache"

definition fill_topology :: "chain_hash \<times> chain_hash \<Rightarrow> topology_info \<Rightarrow> topology_cache \<Rightarrow> topology_cache" where
  "fill_topology key v = update_cell key (\<lambda>c. c\<lparr>tc_value := Some v\<rparr>)"

definition leave_topology :: "chain_hash \<times> chain_hash \<Rightarrow> topology_cache \<Rightarrow> topology_cache" where
  "leave_topology key = update_cell key (\<lambda>c. c\<lparr>tc_users := tc_users c - 1\<rparr>)"

text \<open>\<open>topology_summary\<close> when nothing else runs: a loaded cell answers, a failed load leaves the cell empty.\<close>

definition topology_summary_of :: "node \<Rightarrow> chain_hash \<Rightarrow> chain_hash \<Rightarrow> chain_hash \<Rightarrow> work_class \<Rightarrow> topology_cache
    \<Rightarrow> ((chain_error + topology_info) \<times> topology_cache) option" where
  "topology_summary_of nd genesis at h cls cache = (let key = (genesis, h) in case enter_topology key cache of
       Inl e \<Rightarrow> Some (Inl e, cache)
     | Inr cache \<Rightarrow> (case Option.bind (map_of cache key) tc_value of
         Some v \<Rightarrow> Some (Inr v, leave_topology key cache)
       | None \<Rightarrow> (case load_topology nd at h cls of
           None \<Rightarrow> None
         | Some (Inl e) \<Rightarrow> Some (Inl e, leave_topology key cache)
         | Some (Inr v) \<Rightarrow> Some (Inr v, leave_topology key (fill_topology key v cache)))))"

text \<open>\<open>mineable_topologies\<close> with the topology reads as a function of the hash.\<close>

definition mineable_topology :: "node \<Rightarrow> chain_hash \<Rightarrow> work_class \<Rightarrow> (chain_hash \<Rightarrow> chain_error + topology_info) \<Rightarrow> chain_hash option \<Rightarrow> scale_value
    \<Rightarrow> chain_error + mineable_topology_info" where
  "mineable_topology nd at cls summary dflt v =
     rbind (hash_value (nd_lib nd) v) (\<lambda>h.
     rbind (runtime_call nd at ''QuantumPowApi'' ''difficulty_for'' [value_bytes (raw_bytes h)] cls) (\<lambda>raw.
     rbind (scale_option raw) (\<lambda>o_raw.
     rbind (transpose_option (difficulty_value (nd_lib nd)) o_raw) (\<lambda>diff.
     rbind (summary h) (\<lambda>t. Inr \<lparr>mi_topology = t, mi_is_default = (dflt = Some h), mi_difficulty = diff\<rparr>)))))"

definition mineable_topologies :: "node \<Rightarrow> chain_hash \<Rightarrow> work_class \<Rightarrow> (chain_hash \<Rightarrow> chain_error + topology_info) \<Rightarrow> chain_error + mineable_topology_info list" where
  "mineable_topologies nd at cls summary =
     rbind (runtime_call nd at ''QuantumPowApi'' ''mineable_topologies'' [] cls) (\<lambda>raw.
     rbind (sequence raw) (\<lambda>hashes.
     if 128 < length hashes then Inl (ChOversized ''mineable topology count exceeds 128'')
     else rbind (default_topology nd at cls) (\<lambda>dflt. rmap_list (mineable_topology nd at cls summary dflt) hashes)))"

end
