(* ===== verification/Chain_Props.thy ===== *)
theory Chain_Props
  imports Chain_Topology
begin

text \<open>
  Properties of the snapshot reads: which miners of a descriptor survive its projection, when reading a
  topology ends, and that the topology cache stays within its bound.
\<close>

section \<open>Miners of a descriptor\<close>

lemma insert_key_sorted: "sorted_wrt (<) (map fst m) \<Longrightarrow> sorted_wrt (<) (map fst (insert_key k v m))"
proof (induction k v m rule: insert_key.induct)
  case (2 k v k' v' m)
  have "fst ` set (insert_key k v m) \<subseteq> insert k (fst ` set m)" for k v and m :: json_map
    by (induction k v m rule: insert_key.induct) auto
  with 2 show ?case by (fastforce simp: not_less_iff_gr_or_eq)
qed simp

lemma put_miner_Inr: "(put_miner lib m ob = Inr ob') = (\<exists>l r. miner_row lib m = Inr (l, r) \<and> ob' = insert_key l (JObject r) ob)"
  by (auto simp: put_miner_def rbind_Inr)

lemma put_rows:
  assumes "rfold (put_miner lib) ms ob = Inr ob'"
  shows "\<exists>rows. rmap_list (miner_row lib) ms = Inr rows \<and> map_of ob' = map_of ob ++ map_of (rev (map (\<lambda>(l, r). (l, JObject r)) rows))
    \<and> (sorted_wrt (<) (map fst ob) \<longrightarrow> sorted_wrt (<) (map fst ob'))"
  using assms
proof (induction ms arbitrary: ob)
  case (Cons m ms)
  from Cons.prems obtain l r where r: "miner_row lib m = Inr (l, r)" "rfold (put_miner lib) ms (insert_key l (JObject r) ob) = Inr ob'"
    by (auto simp: rbind_Inr put_miner_Inr)
  from Cons.IH [OF r(2)] obtain rows where rows: "rmap_list (miner_row lib) ms = Inr rows"
    "map_of ob' = map_of (insert_key l (JObject r) ob) ++ map_of (rev (map (\<lambda>(l, r). (l, JObject r)) rows))"
    "sorted_wrt (<) (map fst (insert_key l (JObject r) ob)) \<longrightarrow> sorted_wrt (<) (map fst ob')" by blast
  show ?case
    using rows r(1) insert_key_sorted [of ob l "JObject r"]
    by (intro exI [of _ "(l, r) # rows"]) (simp add: fun_eq_iff map_add_def split: option.splits)
qed simp

text \<open>
  The projection of a descriptor keeps, for every label, the last of its miners with that label, under a
  missing label the one made of its category and position; so that it keeps all of them exactly
  when no two labels are the same.
\<close>

theorem miners_kept_by_label:
  assumes "field v ''miners'' = Inr list_value" and "sequence list_value = Inr ms" and "miners_object lib v = Inr ob"
  shows "\<exists>rows. rmap_list (miner_row lib) (enumerate 0 ms) = Inr rows
    \<and> map_of ob = map_of (rev (map (\<lambda>(l, r). (l, JObject r)) rows)) \<and> (length ob = length ms \<longleftrightarrow> distinct (map fst rows))"
proof -
  from assms have "rfold (put_miner lib) (enumerate 0 ms) [] = Inr ob" by (simp add: miners_object_def)
  from put_rows [OF this] obtain rows where rows: "rmap_list (miner_row lib) (enumerate 0 ms) = Inr rows"
    "map_of ob = map_of (rev (map (\<lambda>(l, r). (l, JObject r)) rows))" "sorted_wrt (<) (map fst ob)" by auto
  have "distinct (map fst ob)" using rows(3) strict_sorted_iff by blast
  then have "length ob = card (fst ` set ob)" using distinct_card [of "map fst ob"] by simp
  also have "fst ` set ob = fst ` set rows"
    using rows(2) by (metis (no_types, lifting) dom_map_of_conv_image_fst list.set_map set_rev image_image case_prod_beta' fst_conv image_cong)
  finally have "length ob = card (set (map fst rows))" by simp
  moreover have "length ms = length (map fst rows)" using rmap_list_length [OF rows(1)] by simp
  ultimately show ?thesis using rows distinct_card card_distinct by metis
qed

definition none_value :: scale_value where
  "none_value = Variant ''None'' (Unnamed [])"

definition cpu_miner :: "scale_value \<Rightarrow> scale_value" where
  "cpu_miner label = Composite (Named [(''kind'', Variant ''Cpu'' (Unnamed [])), (''label'', label), (''device_id'', none_value), (''backend'', none_value)])"

definition colliding_miners :: "scale_value list" where
  "colliding_miners = [cpu_miner (value_bytes [99, 112, 117, 45, 50]), cpu_miner none_value]"

lemma text_none: "text_value lib none_value = Inr None"
  by (simp add: text_value_def optional_value_def none_value_def scale_option_def)

lemma text_cpu2: "text_value sample_lib (value_bytes [99, 112, 117, 45, 50]) = Inr (Some ''cpu-2'')"
proof -
  have "bytes_value sample_lib (value_bytes [99, 112, 117, 45, 50]) = Inr [99, 112, 117, 45, 50]"
    by (simp add: bytes_value_def value_bytes_def sample_lib_def Let_def sequence_def unsigned_value_def try_from_def)
  moreover have "from_utf8 [99, 112, 117, 45, 50] = Inr ''cpu-2''"
    by (simp add: from_utf8_def char_of_byte_def char_of_def bit_0 bit_numeral_rec Let_def)
  moreover have "optional_value (value_bytes [99, 112, 117, 45, 50]) = Inr (Some (value_bytes [99, 112, 117, 45, 50]))"
    by (simp add: optional_value_def value_bytes_def)
  ultimately show ?thesis by (simp add: text_value_def)
qed

lemma default_label: "map ascii_lower ''CPU'' @ ''-'' @ nat_text 2 = ''cpu-2''"
  by (simp add: ascii_lower_def nat_text.simps digit_char_def char_of_def bit_0 bit_numeral_rec Let_def)

text \<open>For a labelled miner and one whose default label is the same: only one of them is kept.\<close>

theorem miners_kept_by_label_witness:
  "\<exists>ob. miners_object sample_lib (Composite (Named [(''miners'', Composite (Unnamed colliding_miners))])) = Inr ob \<and> length ob \<noteq> 2"
proof -
  let ?v = "Composite (Named [(''miners'', Composite (Unnamed colliding_miners))])"
  let ?row = "insert_key ''minerId'' (JString ''cpu-2'') (insert_key ''kind'' (JString ''CPU'') [])"
  have f: "field ?v ''miners'' = Inr (Composite (Unnamed colliding_miners))" "sequence (Composite (Unnamed colliding_miners)) = Inr colliding_miners"
    by (simp_all add: field_def maybe_field_def sequence_def)
  have r1: "miner_row sample_lib (0, cpu_miner (value_bytes [99, 112, 117, 45, 50])) = Inr (''cpu-2'', ?row)"
    by (simp add: miner_row_def cpu_miner_def field_def maybe_field_def variant_name_def text_none text_cpu2 miner_category_of_def Let_def
        del: insert_key.simps)
  have r2: "miner_row sample_lib (1, cpu_miner none_value) = Inr (''cpu-2'', ?row)"
    using default_label
    by (simp add: miner_row_def cpu_miner_def field_def maybe_field_def variant_name_def text_none miner_category_of_def Let_def
        numeral_2_eq_2 del: insert_key.simps)
  have rows: "rmap_list (miner_row sample_lib) (enumerate 0 colliding_miners) = Inr [(''cpu-2'', ?row), (''cpu-2'', ?row)]"
    using r1 r2 by (simp add: colliding_miners_def del: insert_key.simps)
  have "\<exists>ob. rfold (put_miner sample_lib) (enumerate 0 colliding_miners) [] = Inr ob"
    using r1 r2 by (simp add: put_miner_def colliding_miners_def del: insert_key.simps)
  then obtain ob where ob: "miners_object sample_lib ?v = Inr ob" by (auto simp: miners_object_def f)
  from miners_kept_by_label [OF f ob] rows have "length ob \<noteq> length colliding_miners" by auto
  then show ?thesis using ob by (auto simp: colliding_miners_def)
qed

section \<open>Vector types\<close>

definition wraps :: "(u32 \<Rightarrow> type_def option) \<Rightarrow> u32 \<Rightarrow> u32 \<Rightarrow> bool" where
  "wraps resolve i j \<longleftrightarrow> (\<exists>name. resolve i = Some (TdComposite [(name, j)]))"

lemma vector_type_wraps: "wraps resolve i j \<Longrightarrow> vector_type resolve i = vector_type resolve j"
  by (subst vector_type.simps) (auto simp: wraps_def)

lemma vector_type_None: "vector_type resolve i = None \<Longrightarrow> \<exists>j. wraps resolve i j \<and> vector_type resolve j = None"
  by (subst (asm) vector_type.simps) (auto simp: wraps_def split: option.splits type_def.splits list.splits prod.splits)

lemma vector_type_ends:
  assumes "vector_type resolve i = Some y"
  shows "\<forall>c. c 0 = i \<longrightarrow> (\<exists>n. \<not> wraps resolve (c n) (c (Suc n)))"
proof (rule vector_type.raw_induct [where P = "\<lambda>resolve i y. \<forall>c. c 0 = i \<longrightarrow> (\<exists>n. \<not> wraps resolve (c n) (c (Suc n)))", OF _ assms])
  fix f :: "(u32 \<Rightarrow> type_def option) \<Rightarrow> u32 \<Rightarrow> (chain_error + unit) option" and resolve :: "u32 \<Rightarrow> type_def option" and i y
  assume ih: "\<And>r i y. f r i = Some y \<Longrightarrow> \<forall>c. c 0 = i \<longrightarrow> (\<exists>n. \<not> wraps r (c n) (c (Suc n)))"
    and body: "(case resolve i of
       None \<Rightarrow> Some (Inl (ChInvalid ''missing topology vector type''))
     | Some td \<Rightarrow> (case td of
         TdComposite fs \<Rightarrow> (case fs of
           [] \<Rightarrow> Some (Inl (ChUnsupported ''topology graph field is not a vector''))
         | [(_, j)] \<Rightarrow> f resolve j
         | (_, j) # a # lista \<Rightarrow> Some (Inl (ChUnsupported ''topology graph field is not a vector'')))
       | TdVariant _ \<Rightarrow> Some (Inl (ChUnsupported ''topology graph field is not a vector''))
       | TdSequence _ \<Rightarrow> Some (Inr ())
       | TdOther \<Rightarrow> Some (Inl (ChUnsupported ''topology graph field is not a vector'')))) = Some y"
  show "\<forall>c. c 0 = i \<longrightarrow> (\<exists>n. \<not> wraps resolve (c n) (c (Suc n)))"
  proof (intro allI impI)
    fix c :: "nat \<Rightarrow> u32" assume c: "c 0 = i"
    show "\<exists>n. \<not> wraps resolve (c n) (c (Suc n))"
    proof (cases "wraps resolve (c 0) (c 1)")
      case True
      then have "f resolve (c 1) = Some y" using body c by (auto simp: wraps_def)
      from ih [OF this, rule_format, of "c \<circ> Suc"] show ?thesis by auto
    qed auto
  qed
qed

text \<open>
  The loop that looks for the vector inside the wrappers of a topology field runs forever exactly when
  the metadata has an endless chain of wrappers, such as a type that wraps itself.
\<close>

theorem vector_type_hangs_exactly:
  "vector_type resolve i = None \<longleftrightarrow> (\<exists>c. c 0 = i \<and> (\<forall>n. wraps resolve (c n) (c (Suc n))))"
proof
  assume none: "vector_type resolve i = None"
  have "\<exists>c. \<forall>n. (vector_type resolve (c n) = None \<and> (n = 0 \<longrightarrow> c n = i)) \<and> wraps resolve (c n) (c (Suc n))"
    by (rule dependent_nat_choice) (use none vector_type_None in auto)
  then show "\<exists>c. c 0 = i \<and> (\<forall>n. wraps resolve (c n) (c (Suc n)))" by blast
next
  assume "\<exists>c. c 0 = i \<and> (\<forall>n. wraps resolve (c n) (c (Suc n)))"
  then show "vector_type resolve i = None" using vector_type_ends by fastforce
qed

section \<open>The topology cache\<close>

inductive topology_step :: "topology_cache \<Rightarrow> topology_cache \<Rightarrow> bool" where
  step_import: "import_topologies own genesis vs cache = (r, cache') \<Longrightarrow> topology_step cache cache'"
| step_enter: "enter_topology key cache = Inr cache' \<Longrightarrow> topology_step cache cache'"
| step_fill: "topology_step cache (fill_topology key v cache)"
| step_leave: "topology_step cache (leave_topology key cache)"

definition cache_ok :: "topology_cache \<Rightarrow> bool" where
  "cache_ok cache \<longleftrightarrow> distinct (map fst cache) \<and> length cache \<le> 128"

lemma length_delete_less: "map_of m k \<noteq> None \<Longrightarrow> length (AList.delete k m) < length m"
  by (induction m) (auto simp: AList.length_delete_le le_imp_less_Suc less_SucI)

lemma make_room_ok:
  assumes "make_room m limit f = Inr m'" and "distinct (map fst m)" and "length m \<le> limit"
  shows "distinct (map fst m') \<and> length m' < limit \<and> (\<forall>k. map_of m k = None \<longrightarrow> map_of m' k = None)"
proof (cases "limit \<le> length m")
  case True
  then obtain k v where kv: "find (\<lambda>(_, v). f v) m = Some (k, v)" "m' = AList.delete k m"
    using assms(1) by (auto simp: make_room_def split: option.splits)
  then have "map_of m k \<noteq> None" by (auto simp: find_Some_iff map_of_eq_None_iff) (metis nth_mem fst_conv imageI)
  then show ?thesis using kv assms(2,3) length_delete_less [of m k]
    by (auto simp: AList.distinct_delete AList.delete_conv' restrict_map_def)
qed (use assms in \<open>auto simp: make_room_def\<close>)

lemma length_update: "length (AList.update k v m) = (if map_of m k = None then Suc (length m) else length m)"
  by (induction m) auto

lemma cache_ok_insert:
  assumes "cache_ok cache" and "(if map_of cache key = None then make_room cache 128 f else Inr cache) = Inr cache1"
  shows "cache_ok (AList.update key c cache1)"
proof (cases "map_of cache key = None")
  case True
  with assms have "make_room cache 128 f = Inr cache1" by simp
  from make_room_ok [OF this] assms(1) have "distinct (map fst cache1)" "length cache1 < 128" by (simp_all add: cache_ok_def)
  then show ?thesis by (simp add: cache_ok_def AList.distinct_update length_update)
next
  case False
  then have "cache1 = cache" using assms(2) by (simp only: if_False sum.inject)
  moreover have "length (AList.update key c cache) = length cache" unfolding length_update using False by (simp only: if_False)
  ultimately show ?thesis using assms(1) by (simp add: cache_ok_def AList.distinct_update)
qed

lemma cache_ok_update_cell: "cache_ok cache \<Longrightarrow> cache_ok (update_cell key f cache)"
  by (simp add: cache_ok_def update_cell_def comp_def case_prod_beta)

lemma cache_ok_import: "import_all genesis vs cache = (r, cache') \<Longrightarrow> cache_ok cache \<Longrightarrow> cache_ok cache'"
proof (induction genesis vs cache rule: import_all.induct)
  case (2 genesis v vs cache)
  show ?case
  proof (cases "import_topology genesis v cache")
    case (Inr cache1)
    then have "cache_ok cache1"
      using "2.prems"(2) by (auto simp: import_topology_def Let_def rbind_Inr split: if_splits intro: cache_ok_insert)
    with 2 Inr show ?thesis by simp
  qed (use 2 in simp)
qed simp

lemma cache_ok_step: "topology_step cache cache' \<Longrightarrow> cache_ok cache \<Longrightarrow> cache_ok cache'"
proof (induction rule: topology_step.induct)
  case (step_import own genesis vs cache r cache')
  then show ?case by (auto simp: import_topologies_def cache_ok_import split: if_splits)
next
  case (step_enter key cache cache')
  then obtain cache1 c where "(if map_of cache key = None then make_room cache 128 (\<lambda>c. tc_users c = 0) else Inr cache) = Inr cache1"
    "cache' = AList.update key c cache1" by (auto simp: enter_topology_def rbind_Inr Let_def)
  then show ?case using cache_ok_insert [OF step_enter.prems] by blast
qed (simp_all add: fill_topology_def leave_topology_def cache_ok_update_cell)

text \<open>
  However reads and imports of topologies interleave, the cache has one cell for each topology and at
  most 128 cells.
\<close>

theorem topology_cache_bounded:
  "topology_step\<^sup>*\<^sup>* [] cache \<Longrightarrow> length cache \<le> 128 \<and> distinct (map fst cache)"
proof -
  assume "topology_step\<^sup>*\<^sup>* [] cache"
  moreover have "cache_ok []" by (simp add: cache_ok_def)
  ultimately have "cache_ok cache" by (induction rule: rtranclp_induct) (auto intro: cache_ok_step)
  then show ?thesis by (simp add: cache_ok_def)
qed

text \<open>For a cell that is being loaded.\<close>

theorem topology_cache_bounded_witness:
  "\<exists>cache. topology_step\<^sup>*\<^sup>* [] cache \<and> cache \<noteq> [] \<and> length cache \<le> 128 \<and> distinct (map fst cache)"
proof -
  let ?key = "(ChainHash [], ChainHash [])"
  have "topology_step [] [(?key, \<lparr>tc_value = None, tc_users = 1\<rparr>)]"
    by (rule step_enter [of ?key]) (simp add: enter_topology_def make_room_def Let_def)
  then have r: "topology_step\<^sup>*\<^sup>* [] [(?key, \<lparr>tc_value = None, tc_users = 1\<rparr>)]" by blast
  from topology_cache_bounded [OF r] r show ?thesis by blast
qed

end
