(* ===== verification/Reconcile.thy ===== *)
theory Reconcile
  imports Chain_Topology Live_Worker Miner_Store
begin

text \<open>
  The reconciler (\<open>indexer/reconcile.rs\<close>): the per-head snapshot of epoch, topologies, difficulty and chain
  head, the snapshot of the whole miner registry every fifteen minutes, the targeted refresh after registry
  events, and the reconstruction of first-seen times by a binary search over history. Jobs are those of
  the indexer, over the registry tables; the server may answer differently at every call.
\<close>

section \<open>The world of the reconciler\<close>

record reg_world =
  rw_db :: miner_db
  rw_best :: "u64 option"
  rw_tick :: nat

text \<open>
  \<open>ru_summary\<close>: topology summaries through the shared cache. \<open>ru_parse_descriptor\<close>: reading a descriptor document
  into its record and back, which \<open>serde\<close> derives. \<open>ru_clock\<close>: seconds.
\<close>

record reg_upstream =
  ru_up :: upstream
  ru_node :: "nat \<Rightarrow> node"
  ru_interfere :: "nat \<Rightarrow> reg_world \<Rightarrow> reg_world"
  ru_summary :: "nat \<Rightarrow> chain_hash \<Rightarrow> chain_error + topology_info"
  ru_parse_descriptor :: "json \<Rightarrow> string + json"
  ru_clock :: "nat \<Rightarrow> nat"

type_synonym 'a rjob = "(reg_world, 'a) sjob"

definition rawait :: "reg_upstream \<Rightarrow> reg_world \<Rightarrow> reg_world" where
  "rawait ru w = (ru_interfere ru (rw_tick w) w)\<lparr>rw_tick := Suc (rw_tick w)\<rparr>"

definition rpause :: "reg_upstream \<Rightarrow> unit rjob" where
  "rpause ru w = (Inr (), rawait ru w)"

definition rask :: "reg_upstream \<Rightarrow> (node \<Rightarrow> chain_error + 'a) \<Rightarrow> 'a rjob" where
  "rask ru f w = ((case f (ru_node ru (rw_tick w)) of Inl e \<Rightarrow> Inl (IxChain e) | Inr x \<Rightarrow> Inr x), rawait ru w)"

definition rtransact :: "reg_upstream \<Rightarrow> 'a mtx \<Rightarrow> 'a rjob" where
  "rtransact ru f w0 = (let w = rawait ru w0 in case f (rw_db w) of
       Inl e \<Rightarrow> (Inl (IxStore e), w) | Inr (x, db) \<Rightarrow> (Inr x, w\<lparr>rw_db := db\<rparr>))"

definition rquery :: "reg_upstream \<Rightarrow> (miner_db \<Rightarrow> 'a) \<Rightarrow> 'a rjob" where
  "rquery ru q w0 = (let w = rawait ru w0 in (Inr (q (rw_db w)), w))"

section \<open>Per-head snapshot\<close>

definition epoch_state_of :: "babe_epoch_info \<Rightarrow> indexer_error + babe_epoch_state" where
  "epoch_state_of ep =
     (if 2 ^ 32 \<le> length (bi_authorities ep) then Inl (IxInvalid ''out of range integral type conversion attempted'')
      else Inr \<lparr>be_epoch_index = bi_epoch_index ep, be_current_slot = decimal_of_u64 (bi_current_slot ep),
        be_epoch_start_slot = decimal_of_u64 (bi_epoch_start_slot ep), be_slots_per_epoch = bi_slots_per_epoch ep,
        be_current_slot_in_epoch = saturating_sub (bi_current_slot ep) (bi_epoch_start_slot ep),
        be_authority_count = of_nat (length (bi_authorities ep))\<rparr>)"

definition epoch_snapshot :: "reg_upstream \<Rightarrow> chain_hash \<Rightarrow> unit rjob" where
  "epoch_snapshot ru at =
     bindj (rask ru (\<lambda>nd. babe_epoch nd at Live)) (\<lambda>ep.
     bindj (liftj (epoch_state_of ep)) (\<lambda>st.
     bindj (rtransact ru (upsert_babe_epoch (up_engine (ru_up ru)) st)) (\<lambda>_.
     rtransact ru (upsert_babe_authorities (up_engine (ru_up ru)) (bi_epoch_index ep) (map (\<lambda>a. (a, None)) (bi_authorities ep))))))"

definition topology_record_of :: "mineable_topology_info \<Rightarrow> indexer_error + topology_record" where
  "topology_record_of t = (case mi_difficulty t of
       None \<Rightarrow> Inl (IxInvalid ''mineable topology has no difficulty'')
     | Some d \<Rightarrow> Inr \<lparr>tp_topology_hash = model_hash (ti_topology_hash (mi_topology t)), tp_is_default = mi_is_default t,
         tp_difficulty_energy = milli_energy (max_energy_milli d), tp_min_diversity = milli_diversity (min_diversity_milli d),
         tp_min_solutions = min_solutions d, tp_node_count = ti_node_count (mi_topology t),
         tp_edge_count = ti_edge_count (mi_topology t), tp_curve_constant = ti_curve_constant (mi_topology t)\<rparr>)"

definition topologies_snapshot :: "reg_upstream \<Rightarrow> chain_hash \<Rightarrow> unit rjob" where
  "topologies_snapshot ru at =
     bindj (\<lambda>w. rask ru (\<lambda>nd. mineable_topologies nd at Live (ru_summary ru (rw_tick w))) w) (\<lambda>ts.
     bindj (liftj (rmap_list topology_record_of ts)) (\<lambda>records.
     rtransact ru (set_mineable_topologies records)))"

definition difficulty_poll :: "reg_upstream \<Rightarrow> target \<Rightarrow> u64 rjob" where
  "difficulty_poll ru tg = (let at = tg_hash tg in
     bindj (rask ru (\<lambda>nd. current_difficulty nd at Live)) (\<lambda>d.
     bindj (rask ru (\<lambda>nd. default_topology nd at Live)) (\<lambda>topology.
     bindj (rask ru (\<lambda>nd. chain_timestamp nd at Live)) (\<lambda>t.
     bindj (liftj (iso_timestamp (ru_up ru) t)) (\<lambda>iso.
     bindj (rtransact ru (lift_store (insert_difficulty_snapshot (up_engine (ru_up ru))
       \<lparr>dr_observed_at_block = decimal_of_u64 (tg_height tg), dr_difficulty_energy = milli_energy (max_energy_milli d),
        dr_min_diversity = milli_diversity (min_diversity_milli d), dr_min_solutions = min_solutions d, dr_observed_at = iso,
        dr_topology_hash = map_option model_hash topology, dr_source = PollSource\<rparr>))) (\<lambda>_.
     returnj t))))))"

definition current_participants :: "reg_upstream \<Rightarrow> chain_hash \<Rightarrow> u64 \<Rightarrow> u64 option rjob" where
  "current_participants ru at current = matchj (rask ru (\<lambda>nd. participant_count nd at current Live))
     (\<lambda>e. case e of IxChain (ChUnsupported _) \<Rightarrow> returnj None | _ \<Rightarrow> failj e) (\<lambda>n. returnj (Some (ucast n)))"

definition head_snapshot :: "reg_upstream \<Rightarrow> target \<Rightarrow> u64 \<Rightarrow> unit rjob" where
  "head_snapshot ru tg t = (let at = tg_hash tg; height = tg_height tg in
     bindj (rask ru (\<lambda>nd. nd_context nd at Live)) (\<lambda>ctx.
     bindj (rask ru (\<lambda>nd. qblock_count nd at Live)) (\<lambda>qblocks.
     bindj (liftj (ok_or (IxInvalid ''qblock count overflow'') (checked_add qblocks 1))) (\<lambda>current.
     bindj (current_participants ru at current) (\<lambda>participants.
     bindj (\<lambda>w. (Inr (max (case rw_best w of None \<Rightarrow> height | Some b \<Rightarrow> b) height), w)) (\<lambda>best.
     bindj (rask ru (\<lambda>nd. block_hash nd best Live)) (\<lambda>found.
     bindj (liftj (ok_or (IxInvalid ''best head hash unavailable'') found)) (\<lambda>best_hash.
     bindj (liftj (if 2 ^ 63 \<le> unat (best - height) then Inl (IxInvalid ''out of range integral type conversion attempted'')
                   else Inr (uint (best - height)))) (\<lambda>lag.
     bindj (rask ru (\<lambda>nd. last_runtime_upgrade nd at Live)) (\<lambda>upgrade.
     bindj (liftj (iso_timestamp (ru_up ru) t)) (\<lambda>iso.
     rtransact ru (upsert_chain_head (up_engine (ru_up ru))
       \<lparr>ch_best_block_number = decimal_of_u64 best, ch_best_block_hash = model_hash best_hash,
        ch_finalized_block_number = decimal_of_u64 height, ch_finalized_block_hash = model_hash at, ch_finality_lag = lag,
        ch_qblock_count = Some qblocks, ch_current_qblock_id = Some (decimal_of_u64 current),
        ch_current_qblock_participants = participants,
        ch_runtime = \<lparr>rv_spec_name = ri_spec_name (rx_version ctx), rv_spec_version = ri_spec_version (rx_version ctx),
          rv_transaction_version = ri_transaction_version (rx_version ctx), rv_impl_name = ri_impl_name (rx_version ctx),
          rv_last_runtime_upgrade = map_option (\<lambda>n. decimal_of_u64 (ucast n)) upgrade\<rparr>,
        ch_updated_at = iso\<rparr>))))))))))))"

definition dynamic_snapshot :: "reg_upstream \<Rightarrow> target \<Rightarrow> unit rjob" where
  "dynamic_snapshot ru tg =
     bindj (epoch_snapshot ru (tg_hash tg)) (\<lambda>_.
     bindj (topologies_snapshot ru (tg_hash tg)) (\<lambda>_.
     bindj (difficulty_poll ru tg) (head_snapshot ru tg)))"

section \<open>Registry\<close>

definition miner_record :: "chain_miner_info \<Rightarrow> indexer_error + chain_miner_record" where
  "miner_record m =
     rbind (decimal_text (ci_deposit m)) (\<lambda>deposit.
     rbind (decimal_text (ci_rewards_earned m)) (\<lambda>rewards.
     Inr \<lparr>cm_account_id = ci_account_id m, cm_deposit = deposit, cm_proofs_submitted = decimal_of_u64 (ci_proofs_submitted m),
       cm_proofs_won = decimal_of_u64 (ci_proofs_won m), cm_rewards_earned = rewards\<rparr>))"

definition store_miners :: "reg_upstream \<Rightarrow> chain_miner_info list \<Rightarrow> unit rjob" where
  "store_miners ru ms = bindj (liftj (rmap_list miner_record ms)) (\<lambda>records.
     rtransact ru (upsert_chain_miners (up_engine (ru_up ru)) records))"

text \<open>The loop over miner pages ends: each continuation is beyond the last.\<close>

function miner_pages :: "reg_upstream \<Rightarrow> chain_hash \<Rightarrow> winner_cursor option \<Rightarrow> unit rjob" where
  "miner_pages ru at cursor w = (case read_miner_page (ru_node ru (rw_tick w)) at cursor PAGE_SIZE Backfill of
       Inl e \<Rightarrow> (Inl (IxChain e), rawait ru w)
     | Inr page \<Rightarrow> (case store_miners ru (mp_miners page) (rawait ru w) of
         (Inl e, w1) \<Rightarrow> (Inl e, w1)
       | (Inr _, w1) \<Rightarrow>
           if mp_exhausted page then (Inr (), w1)
           else (case mp_continuation page of
             None \<Rightarrow> (Inl (IxInvalid ''miner page lacks continuation''), w1)
           | Some c \<Rightarrow> miner_pages ru at (Some c) (rawait ru w1))))"
  by pat_completeness auto
termination
  by (relation "measure (\<lambda>(ru, at, cursor, w). card (keys_beyond cursor))") (auto dest: miner_page_advances)

declare miner_pages.simps [simp del]

definition descriptor_record_of :: "reg_upstream \<Rightarrow> descriptor_entry \<Rightarrow> u64 option \<Rightarrow> indexer_error + node_descriptor_record" where
  "descriptor_record_of ru entry first_seen = (case ru_parse_descriptor ru (de_descriptor entry) of
       Inl e \<Rightarrow> Inl (IxInvalid e)
     | Inr doc \<Rightarrow> rbind (iso_timestamp (ru_up ru) (de_timestamp entry)) (\<lambda>iso.
         Inr \<lparr>nr_account_id = de_account_id entry, nr_block_number = decimal_of_u64 (de_updated_at entry),
           nr_block_hash = model_hash (de_block_hash entry), nr_extrinsic_index = 0, nr_block_timestamp = de_timestamp entry,
           nr_first_block_timestamp = (case first_seen of None \<Rightarrow> de_timestamp entry | Some t \<Rightarrow> min t (de_timestamp entry)),
           nr_descriptor = doc, nr_observed_at = iso\<rparr>))"

definition store_descriptor :: "reg_upstream \<Rightarrow> u64 option \<Rightarrow> descriptor_entry \<Rightarrow> unit rjob" where
  "store_descriptor ru first_seen entry = bindj (liftj (descriptor_record_of ru entry first_seen)) (\<lambda>r.
     rtransact ru (upsert_node_descriptor (up_engine (ru_up ru)) r))"

function descriptor_pages :: "reg_upstream \<Rightarrow> chain_hash \<Rightarrow> winner_cursor option \<Rightarrow> unit rjob" where
  "descriptor_pages ru at cursor w = (case descriptor_page (ru_node ru (rw_tick w)) at cursor Backfill of
       Inl e \<Rightarrow> (Inl (IxChain e), rawait ru w)
     | Inr (entries, next_cursor) \<Rightarrow> (case foldj (\<lambda>entry _. store_descriptor ru None entry) entries () (rawait ru w) of
         (Inl e, w1) \<Rightarrow> (Inl e, w1)
       | (Inr _, w1) \<Rightarrow> (case next_cursor of
           None \<Rightarrow> (Inr (), w1)
         | Some c \<Rightarrow> descriptor_pages ru at (Some c) (rawait ru w1))))"
  by pat_completeness auto
termination
  by (relation "measure (\<lambda>(ru, at, cursor, w). card (keys_beyond cursor))") (auto dest: descriptor_page_advances)

declare descriptor_pages.simps [simp del]

definition registry_snapshot :: "reg_upstream \<Rightarrow> unit rjob" where
  "registry_snapshot ru =
     bindj (rpause ru) (\<lambda>_.
     bindj (rask ru finalized_head) (\<lambda>at.
     bindj (rask ru (\<lambda>nd. rbind (read_header nd at Backfill) header_height)) (\<lambda>height.
     bindj (miner_pages ru at None) (\<lambda>_.
     bindj (descriptor_pages ru at None) (\<lambda>_.
     rtransact ru (set_descriptor_checkpoint (unsigned_text height)))))))"

definition refresh_descriptor :: "reg_upstream \<Rightarrow> chain_hash \<Rightarrow> u64 \<Rightarrow> registry_change \<Rightarrow> unit \<Rightarrow> unit rjob" where
  "refresh_descriptor ru at block_time change _ =
     bindj (rask ru (\<lambda>nd. descriptor_at nd at (rg_account change) Live)) (\<lambda>found. case found of
       None \<Rightarrow> returnj ()
     | Some entry \<Rightarrow> store_descriptor ru (if rg_event change = ''DescriptorUpdated'' then Some block_time else None) entry)"

definition refresh_miner :: "reg_upstream \<Rightarrow> chain_hash \<Rightarrow> u8 list \<Rightarrow> unit \<Rightarrow> unit rjob" where
  "refresh_miner ru at acc _ =
     bindj (rask ru (\<lambda>nd. miner_at nd at acc Live)) (\<lambda>found. case found of
       None \<Rightarrow> returnj () | Some m \<Rightarrow> store_miners ru [m])"

definition refresh_registry :: "reg_upstream \<Rightarrow> decoded_block \<Rightarrow> unit rjob" where
  "refresh_registry ru b = (let ev = db_events b in
     if ev_registry_changes ev = [] \<and> ev_miner_changes ev = [] then returnj ()
     else
     bindj (rpause ru) (\<lambda>_.
     bindj (rask ru finalized_head) (\<lambda>at.
     bindj (foldj (refresh_descriptor ru at (ev_timestamp ev)) (ev_registry_changes ev) ()) (\<lambda>_.
     foldj (refresh_miner ru at) (sort (remdups (map rg_account (ev_registry_changes ev) @ ev_miner_changes ev))) ()))))"

section \<open>First-seen times\<close>

text \<open>The binary search of one account; the interval gets smaller whatever the server answers.\<close>

function first_seen_search :: "reg_upstream \<Rightarrow> u8 list \<Rightarrow> u64 \<Rightarrow> u64 \<Rightarrow> u64 rjob" where
  "first_seen_search ru acc lo hi w =
     (if lo < hi then
        (let middle = lo + (hi - lo) div 2
         in case bindj (rask ru (\<lambda>nd. block_hash nd middle Backfill)) (\<lambda>found.
                 bindj (liftj (ok_or (IxInvalid ''descriptor history block hash missing'') found)) (\<lambda>h.
                 rask ru (\<lambda>nd. descriptor_present nd h acc Backfill))) w of
              (Inl e, w1) \<Rightarrow> (Inl e, w1)
            | (Inr present, w1) \<Rightarrow>
                if present then first_seen_search ru acc lo middle w1 else first_seen_search ru acc (middle + 1) hi w1)
      else (Inr lo, w))"
  by pat_completeness auto

lemma word_middle:
  assumes "lo < (hi :: u64)"
  shows "unat (lo + (hi - lo) div 2) = unat lo + (unat hi - unat lo) div 2"
    and "lo \<le> lo + (hi - lo) div 2" and "lo + (hi - lo) div 2 < hi"
proof -
  have d: "unat (hi - lo) = unat hi - unat lo" using assms by (simp add: unat_sub order.strict_implies_order)
  have l: "unat lo < unat hi" using assms by (simp add: word_less_nat_alt)
  have h: "unat hi < 2 ^ 64" using unat_lt2p [of hi] by simp
  have "unat lo + (unat hi - unat lo) div 2 < 2 ^ 64" using l h by linarith
  then show u: "unat (lo + (hi - lo) div 2) = unat lo + (unat hi - unat lo) div 2"
    by (simp add: unat_word_ariths unat_div d)
  show "lo \<le> lo + (hi - lo) div 2" unfolding word_le_nat_alt u by simp
  show "lo + (hi - lo) div 2 < hi" unfolding word_less_nat_alt u using l by linarith
qed

termination first_seen_search
proof (relation "measure (\<lambda>(ru, acc, lo, hi, w). unat hi - unat lo)", goal_cases)
  case (2 ru acc lo hi w middle)
  then show ?case using word_middle [of lo hi] by (simp add: word_less_nat_alt word_le_nat_alt)
next
  case (3 ru acc lo hi w middle)
  have "unat (middle + 1) = unat middle + 1"
    unfolding 3(2) by (simp only: unat_add1_less [OF word_middle(3) [OF 3(1)]] Suc_eq_plus1)
  then show ?case using word_middle [OF 3(1)] 3(2) by (simp add: word_less_nat_alt) linarith
qed simp

declare first_seen_search.simps [simp del]

definition reconstruct_entry :: "reg_upstream \<Rightarrow> u64 \<Rightarrow> descriptor_entry \<Rightarrow> u64 \<Rightarrow> u64 rjob" where
  "reconstruct_entry ru head entry processed =
     bindj (rquery ru (get_node_descriptor (de_account_id entry))) (\<lambda>row.
     if row = None then returnj processed
     else
     bindj (first_seen_search ru (de_account entry) 1 head) (\<lambda>first.
     bindj (rask ru (\<lambda>nd. block_hash nd first Backfill)) (\<lambda>found.
     bindj (liftj (ok_or (IxInvalid ''first descriptor block hash missing'') found)) (\<lambda>h.
     bindj (rask ru (\<lambda>nd. chain_timestamp nd h Backfill)) (\<lambda>t.
     bindj (rtransact ru (backfill_node_descriptor_first_seen (de_account_id entry) t)) (\<lambda>_.
     bindj (liftj (ok_or (IxInvalid ''descriptor count overflow'') (checked_add processed 1))) (\<lambda>processed.
     bindj (rpause ru) (\<lambda>_. returnj processed))))))))"

function reconstruct_pages :: "reg_upstream \<Rightarrow> chain_hash \<Rightarrow> u64 \<Rightarrow> winner_cursor option \<Rightarrow> u64 \<Rightarrow> u64 rjob" where
  "reconstruct_pages ru at head cursor processed w =
     (case descriptor_page (ru_node ru (rw_tick w)) at cursor Backfill of
        Inl e \<Rightarrow> (Inl (IxChain e), rawait ru w)
      | Inr (entries, next_cursor) \<Rightarrow> (case foldj (reconstruct_entry ru head) entries processed (rawait ru w) of
          (Inl e, w1) \<Rightarrow> (Inl e, w1)
        | (Inr n, w1) \<Rightarrow> (case next_cursor of
            None \<Rightarrow> (Inr n, w1)
          | Some c \<Rightarrow> reconstruct_pages ru at head (Some c) n w1)))"
  by pat_completeness auto
termination
  by (relation "measure (\<lambda>(ru, at, head, cursor, processed, w). card (keys_beyond cursor))") (auto dest: descriptor_page_advances)

declare reconstruct_pages.simps [simp del]

definition reconstruct_first_seen :: "reg_upstream \<Rightarrow> u64 rjob" where
  "reconstruct_first_seen ru =
     bindj (rask ru finalized_head) (\<lambda>at.
     bindj (rask ru (\<lambda>nd. rbind (read_header nd at Backfill) header_height)) (\<lambda>head.
     if head = 0 then returnj 0 else reconstruct_pages ru at head None 0))"

section \<open>The loop\<close>

text \<open>One round of \<open>reconcile\<close>; the result is when the registry is due next.\<close>

definition reconcile_round :: "reg_upstream \<Rightarrow> target \<Rightarrow> nat \<Rightarrow> nat rjob" where
  "reconcile_round ru tg due =
     bindj (dynamic_snapshot ru tg) (\<lambda>_ w.
       if due \<le> ru_clock ru (rw_tick w)
       then bindj (registry_snapshot ru) (\<lambda>_ w. (Inr (ru_clock ru (rw_tick w) + 15 * 60), w)) w
       else (Inr due, w))"

end
