(* ===== verification/Reconcile_Props.thy ===== *)
theory Reconcile_Props
  imports Reconcile Miner_Store_Props Replay
begin

text \<open>
  Properties of the reconciler: the search for the block in which a descriptor appeared, what the
  reconstruction writes, and that a snapshot of the registry reaches every registered miner.
\<close>

section \<open>First-seen times\<close>

text \<open>A server that knows the block at every height up to the head, and where an account has a descriptor.\<close>

definition history_known :: "reg_upstream \<Rightarrow> u8 list \<Rightarrow> u64 \<Rightarrow> (u64 \<Rightarrow> chain_hash) \<Rightarrow> (u64 \<Rightarrow> bool) \<Rightarrow> bool" where
  "history_known ru acc head hash_at present \<longleftrightarrow> (\<forall>n h. 1 \<le> h \<and> h \<le> head \<longrightarrow>
     block_hash (ru_node ru n) h Backfill = Inr (Some (hash_at h))
     \<and> descriptor_present (ru_node ru n) (hash_at h) acc Backfill = Inr (present h))"

lemma probe_known:
  assumes "history_known ru acc head hash_at present" and "1 \<le> m" and "m \<le> head"
  shows "bindj (rask ru (\<lambda>nd. block_hash nd m Backfill)) (\<lambda>found.
      bindj (liftj (ok_or (IxInvalid t) found)) (\<lambda>h. rask ru (\<lambda>nd. descriptor_present nd h acc Backfill))) w
    = (Inr (present m), rawait ru (rawait ru w))"
  using assms by (simp add: history_known_def bindj_def rask_def liftj_def returnj_def)

lemma search_finds:
  assumes "history_known ru acc head hash_at present" and "1 \<le> lo" and "lo \<le> hi" and "hi \<le> head" and "present hi"
    and "\<forall>h h'. present h \<and> h \<le> h' \<and> h' \<le> head \<longrightarrow> present h'" and "\<forall>h. 1 \<le> h \<and> h < lo \<longrightarrow> \<not> present h"
  shows "\<exists>first. fst (first_seen_search ru acc lo hi w) = Inr first \<and> lo \<le> first \<and> first \<le> hi \<and> present first
    \<and> (\<forall>h. 1 \<le> h \<and> h < first \<longrightarrow> \<not> present h)"
  using assms
proof (induction ru acc lo hi w rule: first_seen_search.induct)
  case (1 ru acc lo hi w)
  note known = "1.prems"(1) and mono = "1.prems"(6)
  show ?case
  proof (cases "lo < hi")
    case False
    then show ?thesis using "1.prems" by (subst first_seen_search.simps) auto
  next
    case True
    define m where "m = lo + (hi - lo) div 2"
    note mid = word_middle(2,3) [OF True, folded m_def]
    have m: "1 \<le> m" "m \<le> head" using mid "1.prems"(2,4) by auto
    let ?w1 = "rawait ru (rawait ru w)"
    have run: "first_seen_search ru acc lo hi w =
        (if present m then first_seen_search ru acc lo m ?w1 else first_seen_search ru acc (m + 1) hi ?w1)"
      using True by (subst first_seen_search.simps) (simp add: probe_known [OF known m] flip: m_def)
    have least: "\<forall>h. 1 \<le> h \<and> h < lo \<longrightarrow> \<not> present h" by (rule "1.prems"(7))
    show ?thesis
    proof (cases "present m")
      case True
      have "\<exists>first. fst (first_seen_search ru acc lo m ?w1) = Inr first \<and> lo \<le> first \<and> first \<le> m \<and> present first
          \<and> (\<forall>h. 1 \<le> h \<and> h < first \<longrightarrow> \<not> present h)"
        by (rule "1.IH"(1) [OF \<open>lo < hi\<close> m_def probe_known [OF known m, symmetric] refl True known "1.prems"(2) mid(1) m(2) True mono least])
      with True mid show ?thesis by (auto simp: run intro: order.trans less_imp_le)
    next
      case False
      have step: "lo \<le> m + 1" "m + 1 \<le> hi" "1 \<le> m + 1" and lt: "\<And>h. (h < m + 1) = (h \<le> m)"
        using mid order.trans [OF _ less_imp_le [OF word_less_succ [OF mid(2)]]] m(1)
        by (simp_all add: word_add1_le [OF mid(2)] word_less_add1 [OF mid(2)])
      have absent: "\<forall>h. 1 \<le> h \<and> h < m + 1 \<longrightarrow> \<not> present h"
        using mono m False by (auto simp: lt)
      have "\<exists>first. fst (first_seen_search ru acc (m + 1) hi ?w1) = Inr first \<and> m + 1 \<le> first \<and> first \<le> hi \<and> present first
          \<and> (\<forall>h. 1 \<le> h \<and> h < first \<longrightarrow> \<not> present h)"
        by (rule "1.IH"(2) [OF \<open>lo < hi\<close> m_def probe_known [OF known m, symmetric] refl False known step(3,2) "1.prems"(4,5) mono absent])
      with False step(1) show ?thesis by (auto simp: run intro: order.trans)
    qed
  qed
qed

text \<open>Nothing else runs, and the store accepts writes.\<close>

definition undisturbed :: "reg_upstream \<Rightarrow> bool" where
  "undisturbed ru \<longleftrightarrow> ru_interfere ru = (\<lambda>_ w. w)"

definition bound_db :: "miner_db \<Rightarrow> bool" where
  "bound_db db \<longleftrightarrow> writable (md_store db) \<and> get_meta (md_store db) ''dashboard.genesis'' \<noteq> None"

lemma bound_write_bound: "bound_db db \<Longrightarrow> bound_write f db = f db"
  by (auto simp: bound_write_def bound_db_def ensure_writable_def require_bound_def)

lemma rawait_db [simp]: "undisturbed ru \<Longrightarrow> rw_db (rawait ru w) = rw_db w"
  by (simp add: undisturbed_def rawait_def)

lemma search_db: "undisturbed ru \<Longrightarrow> rw_db (snd (first_seen_search ru acc lo hi w)) = rw_db w"
proof (induction ru acc lo hi w rule: first_seen_search.induct)
  case (1 ru acc lo hi w)
  show ?case
  proof (cases "lo < hi")
    case True
    let ?m = "lo + (hi - lo) div 2"
    obtain r w1 where p: "bindj (rask ru (\<lambda>nd. block_hash nd ?m Backfill)) (\<lambda>found.
        bindj (liftj (ok_or (IxInvalid ''descriptor history block hash missing'') found)) (\<lambda>h.
        rask ru (\<lambda>nd. descriptor_present nd h acc Backfill))) w = (r, w1)" by fastforce
    then have w1: "rw_db w1 = rw_db w"
      using "1.prems" by (auto simp: bindj_def rask_def liftj_def returnj_def failj_def split: sum.splits option.splits prod.splits)
    show ?thesis
      using True p w1 "1.IH" [OF True refl p [symmetric]] "1.prems"
      by (subst first_seen_search.simps) (auto simp: Let_def split: sum.splits)
  qed (subst first_seen_search.simps, simp)
qed

text \<open>
  C24. Reconstructing when an account was first seen: on a chain where a descriptor, once there, stays, and
  which answers for every height up to the head, the account's row gets the time of the first block that has the
  descriptor, unless it already has an earlier time; no other row and no other field changes, and the
  account is counted.
\<close>

theorem first_seen_reconstructed:
  assumes "undisturbed ru" and "bound_db (rw_db w)" and "history_known ru (de_account entry) head hash_at present"
    and "1 \<le> head" and "present head" and "\<forall>h h'. present h \<and> h \<le> h' \<and> h' \<le> head \<longrightarrow> present h'"
    and "\<forall>n h. 1 \<le> h \<and> h \<le> head \<longrightarrow> chain_timestamp (ru_node ru n) (hash_at h) Backfill = Inr (time_at h)"
    and "get_node_descriptor (de_account_id entry) (rw_db w) = Some row" and "processed < max_word"
  shows "\<exists>first w'. reconstruct_entry ru head entry processed w = (Inr (processed + 1), w')
    \<and> 1 \<le> first \<and> first \<le> head \<and> present first \<and> (\<forall>h. 1 \<le> h \<and> h < first \<longrightarrow> \<not> present h)
    \<and> (\<forall>a. get_node_descriptor a (rw_db w') = (if a = de_account_id entry
         then Some (row\<lparr>nr_first_block_timestamp := min (nr_first_block_timestamp row) (time_at first)\<rparr>)
         else get_node_descriptor a (rw_db w)))"
proof -
  let ?w0 = "rawait ru w"
  obtain first w1 where s: "first_seen_search ru (de_account entry) 1 head ?w0 = (Inr first, w1)"
    and first: "1 \<le> first" "first \<le> head" "present first" "\<forall>h. 1 \<le> h \<and> h < first \<longrightarrow> \<not> present h"
    using search_finds [OF assms(3) order.refl assms(4) order.refl assms(5,6), of ?w0] by (auto simp: prod_eq_iff)
  have w1: "rw_db w1 = rw_db w" using search_db [OF assms(1), of "de_account entry" 1 head ?w0] s assms(1) by simp
  let ?w2 = "rawait ru (rawait ru (rawait ru w1))"
  let ?db = "set_descriptors (map (\<lambda>(a, r). (a, if a = de_account_id entry \<and> time_at first < nr_first_block_timestamp r
      then r\<lparr>nr_first_block_timestamp := time_at first\<rparr> else r)) (md_descriptors (rw_db w))) (rw_db w)"
  have b: "backfill_node_descriptor_first_seen (de_account_id entry) (time_at first) (rw_db ?w2) = Inr ((), ?db)"
    using assms(1,2) w1 by (simp add: backfill_node_descriptor_first_seen_def bound_write_bound)
  have bh: "block_hash (ru_node ru n) first Backfill = Inr (Some (hash_at first))" for n
    using assms(3) first by (simp add: history_known_def)
  have ct: "chain_timestamp (ru_node ru n) (hash_at first) Backfill = Inr (time_at first)" for n
    using assms(7) first by simp
  have cnt: "checked_add processed 1 = Some (processed + 1)" using assms(9) by (simp add: checked_add1_Some)
  have "reconstruct_entry ru head entry processed w = (Inr (processed + 1), rawait ru (?w2\<lparr>rw_db := ?db\<rparr>))"
    using b assms(1,8) w1
    by (simp add: reconstruct_entry_def bindj_def rquery_def s rask_def liftj_def returnj_def bh ct cnt rtransact_def rpause_def Let_def)
  moreover have "get_node_descriptor a ?db = (if a = de_account_id entry
      then Some (row\<lparr>nr_first_block_timestamp := min (nr_first_block_timestamp row) (time_at first)\<rparr>)
      else get_node_descriptor a (rw_db w))" for a
    using assms(8)
    by (auto simp: get_node_descriptor_def set_descriptors_def map_of_map_row min_def option.map_ident not_less)
  ultimately show ?thesis using first assms(1) by auto
qed

text \<open>A server where every block has the same hash and every stored value is the number 5000.\<close>

definition sample_metadata :: metadata where
  "sample_metadata = \<lparr>mdt_resolve = (\<lambda>_. None), mdt_decode_as_type = (\<lambda>_ _. Inr (TPrimitive 0 (PU128 5000), [])),
     mdt_events = (\<lambda>_. []), mdt_skip = (\<lambda>_ _. Inr []),
     mdt_lookup_entry = (\<lambda>_ _. Inr \<lparr>se_value_ty = 0, se_hashers = Some [Blake2_128Concat], se_default = []\<rparr>),
     mdt_address = (\<lambda>_ _ _. Inr []), mdt_api_output = (\<lambda>_ _. None), mdt_call_args = (\<lambda>_ _ _. Inr [])\<rparr>"

definition sample_context :: runtime_context where
  "sample_context = \<lparr>rx_genesis = ChainHash [], rx_state_hash = ChainHash [], rx_spec_version = 0, rx_metadata_hash = ChainHash [],
     rx_code_hash = ChainHash [], rx_version = \<lparr>ri_spec_name = [], ri_spec_version = 0, ri_transaction_version = 0, ri_impl_name = []\<rparr>,
     rx_metadata = sample_metadata\<rparr>"

definition sample_node :: node where
  "sample_node = \<lparr>nd_lib = sample_lib\<lparr>hex_decode := (\<lambda>_. Inr (replicate 32 0))\<rparr>,
     nd_request = (\<lambda>_ _ _. Inr (JString ''0x'')), nd_context = (\<lambda>_ _. Inr sample_context), nd_prefix = (\<lambda>_ _. []),
     nd_header_of = (\<lambda>_. Inr None)\<rparr>"

definition sample_reg :: reg_upstream where
  "sample_reg = \<lparr>ru_up = sample_upstream\<lparr>up_format_time := (\<lambda>_. Some ''t'')\<rparr>, ru_node = (\<lambda>_. sample_node), ru_interfere = (\<lambda>_ w. w), ru_summary = (\<lambda>_ _. Inl ChBusy),
     ru_parse_descriptor = Inr, ru_clock = (\<lambda>n. n)\<rparr>"

definition described_world :: reg_world where
  "described_world = \<lparr>rw_db = sample_db\<lparr>md_descriptors := [(''m'', row_of_descriptor (sample_descriptor ''10'' 100) 100 ''t'' None)]\<rparr>,
     rw_best = None, rw_tick = 0\<rparr>"

definition sample_entry :: descriptor_entry where
  "sample_entry = \<lparr>de_account = replicate 32 1, de_account_id = ''m'', de_updated_at = 10, de_block_hash = ChainHash (replicate 32 0),
     de_timestamp = 100, de_descriptor = JNull, de_fields = Primitive (PU128 0)\<rparr>"

lemma sample_node_reads:
  "block_hash sample_node h cls = Inr (Some (ChainHash (replicate 32 0)))"
  "optional_storage sample_node at p entry ks cls = Inr (Some (Primitive (PU128 5000)))"
  "storage sample_node at p entry ks cls = Inr (Primitive (PU128 5000))"
  by (simp_all add: block_hash_def sample_node_def optional_hash_of_json_def hash_of_json_def parse_chain_hash_def unhex_def
      invalid_def optional_storage_def storage_def raw_storage_def decode_value_def sample_context_def sample_metadata_def Let_def)

lemma sample_timestamp: "chain_timestamp sample_node at cls = Inr 5"
proof -
  have "unsigned_value (nd_lib sample_node) (Primitive (PU128 5000)) = Inr 5000"
    by (simp add: unsigned_value_def try_from_def sample_node_def sample_lib_def)
  then show ?thesis by (simp add: chain_timestamp_def sample_node_reads)
qed

text \<open>C24, with a descriptor present in both blocks of a chain of height two, written down as seen later.\<close>

theorem first_seen_reconstructed_witness:
  "\<exists>w' row. reconstruct_entry sample_reg 2 sample_entry 0 described_world = (Inr 1, w')
     \<and> get_node_descriptor ''m'' (rw_db w') = Some row \<and> nr_first_block_timestamp row = 5"
proof -
  let ?row = "row_of_descriptor (sample_descriptor ''10'' 100) 100 ''t'' None"
  have u: "undisturbed sample_reg" by (simp add: undisturbed_def sample_reg_def)
  have b: "bound_db (rw_db described_world)"
    by (simp add: bound_db_def described_world_def sample_db_def empty_store_def get_meta_def)
  have k: "history_known sample_reg (de_account sample_entry) 2 (\<lambda>_. ChainHash (replicate 32 0)) (\<lambda>_. True)"
    by (simp add: history_known_def sample_reg_def sample_node_reads descriptor_present_def)
  have t: "\<forall>n (h :: u64). 1 \<le> h \<and> h \<le> 2 \<longrightarrow> chain_timestamp (ru_node sample_reg n) (ChainHash (replicate 32 0)) Backfill = Inr 5"
    by (simp add: sample_reg_def sample_timestamp)
  have row: "get_node_descriptor (de_account_id sample_entry) (rw_db described_world) = Some ?row"
    by (simp add: get_node_descriptor_def described_world_def sample_entry_def)
  have p: "(0 :: u64) < max_word" by (simp add: word_less_nat_alt unat_max_word)
  from first_seen_reconstructed [OF u b k _ _ _ t row p] obtain w' where
    w': "reconstruct_entry sample_reg 2 sample_entry 0 described_world = (Inr (0 + 1), w')"
    "\<forall>a. get_node_descriptor a (rw_db w') = (if a = de_account_id sample_entry
       then Some (?row\<lparr>nr_first_block_timestamp := min (nr_first_block_timestamp ?row) 5\<rparr>)
       else get_node_descriptor a (rw_db described_world))"
    by auto
  then have "get_node_descriptor ''m'' (rw_db w') = Some (?row\<lparr>nr_first_block_timestamp := 5\<rparr>)"
    by (simp add: sample_entry_def row_of_descriptor_def)
  with w'(1) show ?thesis by simp
qed

section \<open>The registry\<close>

text \<open>What the server holds under a key of the miner map.\<close>

definition holds_miner :: "node \<Rightarrow> chain_hash \<Rightarrow> u8 list \<Rightarrow> chain_miner_record \<Rightarrow> bool" where
  "holds_miner nd at key r \<longleftrightarrow> (\<exists>ctx details v m. nd_context nd at Backfill = Inr ctx
     \<and> mdt_lookup_entry (rx_metadata ctx) ''QuantumPow'' ''Miners'' = Inr details
     \<and> map_row nd at (rx_metadata ctx) ''QuantumPow'' ''Miners'' (se_value_ty details) Backfill key = Inr (key, v)
     \<and> miner_info_of (nd_lib nd) (drop 48 key) v = Inr m \<and> miner_record m = Inr r)"

definition miner_stored :: "miner_db \<Rightarrow> chain_miner_record \<Rightarrow> bool" where
  "miner_stored db r \<longleftrightarrow> (\<exists>t. map_of (md_chain_miners db) (cm_account_id r) = Some (r, t))"

lemma holds_miner_fun: "holds_miner nd at key r \<Longrightarrow> holds_miner nd at key r' \<Longrightarrow> r = r'"
  by (auto simp: holds_miner_def)

text \<open>Different keys hold different accounts: the key is the address of its account, and Base58 is injective.\<close>

lemma map_row_address:
  "map_row nd at m pallet entry ty cls key = Inr row \<Longrightarrow> mdt_address m pallet entry [value_bytes (drop 48 key)] = Inr key"
  by (auto simp: map_row_def rbind_Inr invalid_def split: if_splits sum.splits)

lemma miner_info_account: "miner_info_of lib acc v = Inr m \<Longrightarrow> account_bytes lib acc = Inr (ci_account_id m)"
  by (auto simp: miner_info_of_def rbind_Inr)

lemma miner_record_account: "miner_record m = Inr r \<Longrightarrow> cm_account_id r = ci_account_id m"
  by (auto simp: miner_record_def rbind_Inr)

lemma account_bytes_inj:
  assumes "inj (bs58_encode lib)" and "account_bytes lib a = Inr t" and "account_bytes lib b = Inr t"
  shows "a = b"
proof -
  have len: "length a = 32" "length b = 32" using assms(2,3) by (auto simp: account_bytes_def Let_def split: if_splits)
  then have "bs58_encode lib (42 # a @ take 2 (blake2b512 lib (ss58_context @ 42 # a)))
      = bs58_encode lib (42 # b @ take 2 (blake2b512 lib (ss58_context @ 42 # b)))"
    using assms(2,3) by (simp add: account_bytes_def Let_def)
  from injD [OF assms(1) this] len show ?thesis by simp
qed

lemma holds_miner_account:
  assumes "inj (bs58_encode (nd_lib nd))" and "holds_miner nd at key r" and "holds_miner nd at key' r'"
    and "cm_account_id r = cm_account_id r'"
  shows "key = key'"
proof -
  have acc: "account_bytes (nd_lib nd) (drop 48 k) = Inr (cm_account_id q)
      \<and> (\<exists>ctx. nd_context nd at Backfill = Inr ctx \<and> mdt_address (rx_metadata ctx) ''QuantumPow'' ''Miners'' [value_bytes (drop 48 k)] = Inr k)"
    if "holds_miner nd at k q" for k q
  proof -
    from that obtain ctx ty v m where h: "nd_context nd at Backfill = Inr ctx"
      "map_row nd at (rx_metadata ctx) ''QuantumPow'' ''Miners'' ty Backfill k = Inr (k, v)"
      "miner_info_of (nd_lib nd) (drop 48 k) v = Inr m" "miner_record m = Inr q"
      unfolding holds_miner_def by blast
    show ?thesis using h(1) map_row_address [OF h(2)] miner_info_account [OF h(3)] miner_record_account [OF h(4)] by simp
  qed
  have "drop 48 key = drop 48 key'"
    using account_bytes_inj [OF assms(1)] acc [OF assms(2)] acc [OF assms(3)] assms(4) by metis
  with acc [OF assms(2)] acc [OF assms(3)] show ?thesis by auto
qed

lemma upsert_miners_stored:
  assumes "upsert_chain_miners e rs db = Inr (u, db')"
  shows "r \<in> set rs \<Longrightarrow> (\<And>r'. r' \<in> set rs \<Longrightarrow> cm_account_id r' = cm_account_id r \<Longrightarrow> r' = r) \<Longrightarrow> miner_stored db' r"
    and "miner_stored db r \<Longrightarrow> (\<And>r'. r' \<in> set rs \<Longrightarrow> cm_account_id r' = cm_account_id r \<Longrightarrow> r' = r) \<Longrightarrow> miner_stored db' r"
proof -
  let ?step = "\<lambda>m rows. rbind (canonical_timestamp e (now e)) (\<lambda>updated.
      Inr (snd (upsert (cm_account_id m) (m, updated) (\<lambda>(old, _). old \<noteq> m) rows)))"
  let ?st = "\<lambda>rows r. \<exists>t :: string. map_of rows (cm_account_id r) = Some (r, t)"
  have keep: "?st rows' r" if "rfold ?step ms rows = Inr rows'" "?st rows r" "\<And>r'. r' \<in> set ms \<Longrightarrow> cm_account_id r' = cm_account_id r \<Longrightarrow> r' = r"
    for ms rows rows' and r :: chain_miner_record
    using that
  proof (induction ms arbitrary: rows)
    case (Cons m ms)
    from Cons.prems(1) obtain t where t: "rfold ?step ms (snd (upsert (cm_account_id m) (m, t) (\<lambda>(old, _). old \<noteq> m) rows)) = Inr rows'"
      by (auto simp: rbind_Inr)
    have "?st (snd (upsert (cm_account_id m) (m, t) (\<lambda>(old, _). old \<noteq> m) rows)) r"
      using Cons.prems(2) Cons.prems(3) [of m] by (cases "cm_account_id m = cm_account_id r") (auto simp: map_of_upsert split: option.splits)
    from Cons.IH [OF t this] Cons.prems(3) show ?case by auto
  qed simp
  have put: "?st rows' r" if "rfold ?step ms rows = Inr rows'" "r \<in> set ms" "\<And>r'. r' \<in> set ms \<Longrightarrow> cm_account_id r' = cm_account_id r \<Longrightarrow> r' = r"
    for ms rows rows' and r :: chain_miner_record
    using that
  proof (induction ms arbitrary: rows)
    case (Cons m ms)
    from Cons.prems(1) obtain t where t: "rfold ?step ms (snd (upsert (cm_account_id m) (m, t) (\<lambda>(old, _). old \<noteq> m) rows)) = Inr rows'"
      by (auto simp: rbind_Inr)
    have "?st (snd (upsert (cm_account_id m) (m, t) (\<lambda>(old, _). old \<noteq> m) rows)) m"
      by (auto simp: map_of_upsert split: option.splits)
    with Cons t keep [OF t, of r] show ?case by (cases "r \<in> set ms") auto
  qed simp
  from assms obtain rows where r: "rfold ?step rs (md_chain_miners db) = Inr rows" "md_chain_miners db' = rows"
    by (auto simp: upsert_chain_miners_def bound_write_Inr rbind_Inr)
  show "r \<in> set rs \<Longrightarrow> (\<And>r'. r' \<in> set rs \<Longrightarrow> cm_account_id r' = cm_account_id r \<Longrightarrow> r' = r) \<Longrightarrow> miner_stored db' r"
    using put [OF r(1)] by (simp add: miner_stored_def r(2))
  show "miner_stored db r \<Longrightarrow> (\<And>r'. r' \<in> set rs \<Longrightarrow> cm_account_id r' = cm_account_id r \<Longrightarrow> r' = r) \<Longrightarrow> miner_stored db' r"
    using keep [OF r(1)] by (simp add: miner_stored_def r(2))
qed

text \<open>The server lists the keys of the miner map in order, a page at a time.\<close>

definition after :: "u8 list option \<Rightarrow> u8 list \<Rightarrow> bool" where
  "after start k = (case start of None \<Rightarrow> True | Some s \<Rightarrow> s < k)"

definition lists_keys :: "node \<Rightarrow> chain_hash \<Rightarrow> u8 list list \<Rightarrow> bool" where
  "lists_keys nd at ks \<longleftrightarrow> sorted_wrt (<) ks \<and> (\<forall>start. start = None \<or> start \<in> Some ` set ks \<longrightarrow>
     node_keys nd at ''QuantumPow'' ''Miners'' start PAGE_SIZE Backfill = Inr (take (unat PAGE_SIZE) (filter (after start) ks)))"

lemma take_or_beyond:
  assumes "sorted_wrt (<) xs" and "k \<in> set xs" and "k \<notin> set (take n xs)" and "0 < n"
  shows "last (take n xs) < (k :: 'a::linorder)"
proof -
  have k: "k \<in> set (drop n xs)" using assms(2,3) by (metis Un_iff append_take_drop_id set_append)
  have "xs \<noteq> []" using assms(2) by auto
  then have "last (take n xs) \<in> set (take n xs)" using assms(4) by (intro last_in_set) simp
  moreover have "sorted_wrt (<) (take n xs @ drop n xs)" using assms(1) by simp
  ultimately show ?thesis using k by (auto simp: sorted_wrt_append simp del: append_take_drop_id)
qed

lemma rmap_list_zip: "rmap_list f xs = Inr ys \<Longrightarrow> list_all2 (\<lambda>x y. f x = Inr y) xs ys"
  by (induction xs arbitrary: ys) (auto simp: rbind_Inr)

text \<open>One page: the records written are those the server holds under the keys of the page.\<close>

lemma page_records:
  assumes "read_miner_page nd at cursor PAGE_SIZE Backfill = Inr page" and "rmap_list miner_record (mp_miners page) = Inr rs"
  obtains keys and rows :: "(u8 list \<times> scale_value) list" where "node_keys nd at ''QuantumPow'' ''Miners'' (map_option wc_key cursor) PAGE_SIZE Backfill = Inr keys"
    and "list_all2 (holds_miner nd at) keys rs" and "mp_exhausted page = (length keys < unat PAGE_SIZE)"
    and "keys = map fst rows" and "mp_continuation page = page_continuation at (unat PAGE_SIZE) rows"
proof -
  let ?info = "\<lambda>(key, v). if length key < 48 then Inl (ChInvalid ''short registry key'') else miner_info_of (nd_lib nd) (drop 48 key) v"
  obtain rows where rows: "map_page nd at ''QuantumPow'' ''Miners'' (map_option wc_key cursor) PAGE_SIZE Backfill = Inr rows"
      "rmap_list ?info rows = Inr (mp_miners page)" "mp_continuation page = page_continuation at (unat PAGE_SIZE) rows"
      "mp_exhausted page = (length rows < unat PAGE_SIZE)"
    using miner_page_rows [OF assms(1)] .
  from rows(1) obtain ctx details keys where k: "nd_context nd at Backfill = Inr ctx"
      "node_keys nd at ''QuantumPow'' ''Miners'' (map_option wc_key cursor) PAGE_SIZE Backfill = Inr keys"
      "mdt_lookup_entry (rx_metadata ctx) ''QuantumPow'' ''Miners'' = Inr details"
      "rmap_list (map_row nd at (rx_metadata ctx) ''QuantumPow'' ''Miners'' (se_value_ty details) Backfill) keys = Inr rows"
    by (auto simp: map_page_def rbind_Inr Let_def invalid_def split: option.splits if_splits sum.splits)
  have fst: "map fst rows = keys" using rmap_list_keys [OF k(4), of "\<lambda>_. True"] map_row_key by blast
  note z = rmap_list_zip [OF k(4)] rmap_list_zip [OF rows(2)] rmap_list_zip [OF assms(2)]
  have "list_all2 (holds_miner nd at) keys rs"
  proof (rule list_all2_all_nthI)
    show "length keys = length rs" using z [THEN list_all2_lengthD] by simp
    fix i assume i: "i < length keys"
    then have il: "i < length rows" "i < length (mp_miners page)" using z [THEN list_all2_lengthD] by simp_all
    have "fst (rows ! i) = keys ! i" using fst il(1) by auto
    then have row: "rows ! i = (keys ! i, snd (rows ! i))" by (metis prod.collapse)
    have "map_row nd at (rx_metadata ctx) ''QuantumPow'' ''Miners'' (se_value_ty details) Backfill (keys ! i) = Inr (keys ! i, snd (rows ! i))"
      using list_all2_nthD [OF z(1) i] row by simp
    moreover have "?info (rows ! i) = Inr (mp_miners page ! i)" using list_all2_nthD [OF z(2) il(1)] .
    then have "miner_info_of (nd_lib nd) (drop 48 (keys ! i)) (snd (rows ! i)) = Inr (mp_miners page ! i)"
      by (subst (asm) row) (simp split: if_splits)
    moreover have "miner_record (mp_miners page ! i) = Inr (rs ! i)" using list_all2_nthD [OF z(3) il(2)] .
    ultimately show "holds_miner nd at (keys ! i) (rs ! i)" using k(1,3) unfolding holds_miner_def by blast
  qed
  then show ?thesis using that [OF k(2) _ _ fst [symmetric] rows(3)] rows(4) fst by (metis length_map)
qed

lemma list_all2_unique:
  assumes "list_all2 P ks rs" and "\<And>k k' r r'. P k r \<Longrightarrow> P k' r' \<Longrightarrow> f r = f r' \<Longrightarrow> r = r'" and "r \<in> set rs \<or> (\<exists>k. P k r)"
    and "r' \<in> set rs" and "f r' = f r"
  shows "r' = r"
proof -
  have "\<exists>k. P k q" if "q \<in> set rs" for q using assms(1) that by (auto simp: list_all2_conv_all_nth in_set_conv_nth)
  with assms(2-5) show ?thesis by metis
qed

lemma store_miners_stored:
  assumes "store_miners ru ms w = (Inr u, w')" and "undisturbed ru"
  obtains rs where "rmap_list miner_record ms = Inr rs" and "upsert_chain_miners (up_engine (ru_up ru)) rs (rw_db w) = Inr (u, rw_db w')"
  using assms by (auto simp: store_miners_def bindj_def liftj_def returnj_def failj_def rtransact_def Let_def split: sum.splits prod.splits)

lemma miner_pages_complete:
  assumes "undisturbed ru" and "ru_node ru = (\<lambda>_. nd)" and "inj (bs58_encode (nd_lib nd))" and "lists_keys nd at ks"
    and "map_option wc_key cursor = None \<or> map_option wc_key cursor \<in> Some ` set ks" and "miner_pages ru at cursor w = (Inr u, w')"
  shows "(\<forall>k\<in>set ks. after (map_option wc_key cursor) k \<longrightarrow> (\<exists>r. holds_miner nd at k r \<and> miner_stored (rw_db w') r))
    \<and> (\<forall>k r. holds_miner nd at k r \<and> miner_stored (rw_db w) r \<longrightarrow> miner_stored (rw_db w') r)"
  using assms
proof (induction ru at cursor w rule: miner_pages.induct)
  case (1 ru at cursor w)
  let ?start = "map_option wc_key cursor" and ?n = "unat PAGE_SIZE"
  note quiet = "1.prems"(1) and run = "1.prems"(6)
  have n: "0 < ?n" by (simp add: PAGE_SIZE_def)
  from run "1.prems"(2) obtain page w1 u1 where page: "read_miner_page nd at cursor PAGE_SIZE Backfill = Inr page"
    and st: "store_miners ru (mp_miners page) (rawait ru w) = (Inr u1, w1)"
    and rest: "if mp_exhausted page then w' = w1 else (\<exists>c. mp_continuation page = Some c \<and> miner_pages ru at (Some c) (rawait ru w1) = (Inr u, w'))"
    by (subst (asm) miner_pages.simps) (auto split: sum.splits prod.splits if_splits option.splits)
  obtain rs where rs: "rmap_list miner_record (mp_miners page) = Inr rs"
    "upsert_chain_miners (up_engine (ru_up ru)) rs (rw_db w) = Inr (u1, rw_db w1)"
    using store_miners_stored [OF st quiet] quiet by auto
  obtain keys and rows :: "(u8 list \<times> scale_value) list" where keys: "node_keys nd at ''QuantumPow'' ''Miners'' ?start PAGE_SIZE Backfill = Inr keys"
    "list_all2 (holds_miner nd at) keys rs" "mp_exhausted page = (length keys < ?n)" "keys = map fst rows"
    "mp_continuation page = page_continuation at ?n rows"
    using page_records [OF page rs(1)] .
  have sorted: "sorted_wrt (<) ks" and eq: "keys = take ?n (filter (after ?start) ks)"
    using keys(1) "1.prems"(4,5) by (auto simp: lists_keys_def)
  have same: "r = r'" if "holds_miner nd at k r" "holds_miner nd at k' r'" "cm_account_id r = cm_account_id r'" for k k' r r'
    using holds_miner_account [OF "1.prems"(3) that] that holds_miner_fun by blast
  have put: "\<exists>r. holds_miner nd at k r \<and> miner_stored (rw_db w1) r" if "k \<in> set keys" for k
  proof -
    from that obtain i where i: "i < length keys" "keys ! i = k" by (auto simp: in_set_conv_nth)
    then obtain r where r: "r \<in> set rs" "holds_miner nd at k r"
      using list_all2_nthD [OF keys(2) i(1)] list_all2_lengthD [OF keys(2)] by (metis nth_mem)
    from upsert_miners_stored(1) [OF rs(2) r(1)] list_all2_unique [OF keys(2), of cm_account_id r] same r show ?thesis by blast
  qed
  have keep: "miner_stored (rw_db w1) r" if "holds_miner nd at k r" "miner_stored (rw_db w) r" for k r
    using upsert_miners_stored(2) [OF rs(2) that(2)] list_all2_unique [OF keys(2), of cm_account_id r] same that(1) by blast
  show ?case
  proof (cases "mp_exhausted page")
    case True
    then have "keys = filter (after ?start) ks" using keys(3) eq by (simp add: min_def split: if_splits)
    with True rest put keep show ?thesis by auto
  next
    case False
    then obtain c where c: "mp_continuation page = Some c" "miner_pages ru at (Some c) (rawait ru w1) = (Inr u, w')" using rest by auto
    have ck: "wc_key c = last keys" "keys \<noteq> []"
      using c(1) keys(4,5) by (auto simp: page_continuation_def last_map split: if_splits)
    have mem: "wc_key c \<in> set ks" using ck last_in_set [OF ck(2)] eq in_set_takeD by fastforce
    have page': "read_miner_page (ru_node ru (rw_tick w)) at cursor PAGE_SIZE Backfill = Inr page" using page "1.prems"(2) by simp
    have ih: "(\<forall>k\<in>set ks. after (map_option wc_key (Some c)) k \<longrightarrow> (\<exists>r. holds_miner nd at k r \<and> miner_stored (rw_db w') r))
      \<and> (\<forall>k r. holds_miner nd at k r \<and> miner_stored (rw_db (rawait ru w1)) r \<longrightarrow> miner_stored (rw_db w') r)"
      using "1.IH" [OF page' st [symmetric] refl False c(1)]
        "1.prems"(1-4) mem c(2) by simp blast
    have "\<exists>r. holds_miner nd at k r \<and> miner_stored (rw_db w') r" if k: "k \<in> set ks" "after ?start k" for k
    proof (cases "k \<in> set keys")
      case True
      then show ?thesis using put ih quiet by fastforce
    next
      case False
      have "last keys < k"
        unfolding eq by (rule take_or_beyond) (use sorted k False eq n in \<open>auto simp: sorted_wrt_filter\<close>)
      then show ?thesis using ih k(1) ck(1) by (auto simp: after_def)
    qed
    then show ?thesis using ih keep quiet by auto
  qed
qed

subsection \<open>Writing descriptors leaves the miners alone\<close>

definition keeps_miners :: "'a rjob \<Rightarrow> bool" where
  "keeps_miners j \<longleftrightarrow> (\<forall>w. md_chain_miners (rw_db (snd (j w))) = md_chain_miners (rw_db w))"

lemma keeps_miners_bindj: "keeps_miners m \<Longrightarrow> (\<And>x. keeps_miners (k x)) \<Longrightarrow> keeps_miners (bindj m k)"
  by (auto simp: keeps_miners_def bindj_def split: prod.splits sum.splits) (metis snd_conv)+

lemma keeps_miners_foldj: "(\<And>x b. keeps_miners (f x b)) \<Longrightarrow> keeps_miners (foldj f xs b)"
proof (induction xs arbitrary: b)
  case Nil
  show ?case by (simp add: keeps_miners_def returnj_def)
qed (simp add: keeps_miners_bindj)

lemma keeps_miners_store_descriptor:
  assumes "undisturbed ru"
  shows "keeps_miners (store_descriptor ru first_seen entry)"
  unfolding store_descriptor_def
proof (rule keeps_miners_bindj)
  show "keeps_miners (liftj (descriptor_record_of ru entry first_seen))"
    by (simp add: keeps_miners_def liftj_def failj_def returnj_def split: sum.splits)
  show "keeps_miners (rtransact ru (upsert_node_descriptor (up_engine (ru_up ru)) r))" for r
    using assms
    by (auto simp: keeps_miners_def rtransact_def Let_def upsert_node_descriptor_def bound_write_Inr rbind_Inr set_descriptors_def
        split: sum.splits)
qed

lemma descriptor_pages_keep: "undisturbed ru \<Longrightarrow> md_chain_miners (rw_db (snd (descriptor_pages ru at cursor w))) = md_chain_miners (rw_db w)"
proof (induction ru at cursor w rule: descriptor_pages.induct)
  case (1 ru at cursor w)
  have f: "md_chain_miners (rw_db (snd (foldj (\<lambda>entry _. store_descriptor ru None entry) es () w1))) = md_chain_miners (rw_db w1)" for es w1
    using keeps_miners_foldj [of "\<lambda>entry _. store_descriptor ru None entry"] keeps_miners_store_descriptor [OF "1.prems"]
    by (simp add: keeps_miners_def)
  show ?case
  proof (cases "descriptor_page (ru_node ru (rw_tick w)) at cursor Backfill")
    case (Inl e)
    then show ?thesis using "1.prems" by (subst descriptor_pages.simps) simp
  next
    case (Inr p)
    obtain es next_cursor where p: "p = (es, next_cursor)" by (cases p)
    obtain r w1 where r: "foldj (\<lambda>entry _. store_descriptor ru None entry) es () (rawait ru w) = (r, w1)" by fastforce
    have w1: "md_chain_miners (rw_db w1) = md_chain_miners (rw_db w)" using f [of es "rawait ru w"] r "1.prems" by simp
    show ?thesis
      using Inr p r w1 "1.IH" [OF Inr p [symmetric] r [symmetric]] "1.prems"
      by (subst descriptor_pages.simps) (auto split: sum.splits option.splits)
  qed
qed

text \<open>
  C16. A snapshot of the registry is complete: when it succeeds against a server that lists its miners in key
  order and nothing else writes, then every miner the server has at the finalized head is in the
  database with exactly the counters the server holds, however many pages that took.
\<close>

theorem registry_snapshot_complete:
  assumes "registry_snapshot ru w = (Inr (), w')" and "undisturbed ru" and "ru_node ru = (\<lambda>_. nd)" and "inj (bs58_encode (nd_lib nd))"
    and "finalized_head nd = Inr at" and "lists_keys nd at ks" and "k \<in> set ks"
  shows "\<exists>r t. holds_miner nd at k r \<and> map_of (md_chain_miners (rw_db w')) (cm_account_id r) = Some (r, t)"
proof -
  let ?w1 = "rawait ru (rawait ru (rawait ru w))"
  from assms(1,3,5) obtain height w2 w3 where m: "miner_pages ru at None ?w1 = (Inr (), w2)"
    and d: "descriptor_pages ru at None w2 = (Inr (), w3)"
    and c: "rtransact ru (set_descriptor_checkpoint (unsigned_text (height :: u64))) w3 = (Inr (), w')"
    by (auto simp: registry_snapshot_def bindj_def rask_def rpause_def split: sum.splits prod.splits)
  have "\<exists>r. holds_miner nd at k r \<and> miner_stored (rw_db w2) r"
    using miner_pages_complete [OF assms(2-4,6) _ m] assms(7) by (simp add: after_def)
  moreover have "md_chain_miners (rw_db w3) = md_chain_miners (rw_db w2)"
    using descriptor_pages_keep [OF assms(2), of at None w2] d by simp
  moreover have "md_chain_miners (rw_db w') = md_chain_miners (rw_db w3)"
    using c assms(2) by (auto simp: rtransact_def Let_def set_descriptor_checkpoint_def lift_store_def rbind_Inr split: sum.splits)
  ultimately show ?thesis by (simp add: miner_stored_def)
qed

text \<open>A server with one miner.\<close>

definition miner_key :: "u8 list" where
  "miner_key = replicate 80 1"

definition one_miner_metadata :: metadata where
  "one_miner_metadata = sample_metadata\<lparr>mdt_address := (\<lambda>_ _ _. Inr miner_key), mdt_decode_as_type := (\<lambda>_ _. Inr (TComposite 0 (TNamed
     (map (\<lambda>n. (n, TPrimitive 0 (PU128 1))) [''deposit'', ''proofs_submitted'', ''proofs_won'', ''rewards_earned''])), []))\<rparr>"

definition one_miner_node :: node where
  "one_miner_node = \<lparr>nd_lib = sample_lib\<lparr>hex_decode := (\<lambda>t. Inr (map byte_of_char t))\<rparr>,
     nd_request = (\<lambda>meth ps _.
       if meth = ''chain_getFinalizedHead'' then Inr (JString (''0x'' @ replicate 32 (char_of_byte 7)))
       else if meth = ''state_getKeysPaged'' then
         Inr (JArray (if ps ! 2 = JNull \<and> ps ! 0 = JString [CHR ''0'', CHR ''x'', char_of_byte 1] then [JString (''0x'' @ map char_of_byte miner_key)] else []))
       else Inr (JString ''0x'')),
     nd_context = (\<lambda>_ _. Inr (sample_context\<lparr>rx_metadata := one_miner_metadata\<rparr>)),
     nd_prefix = (\<lambda>_ entry. if entry = ''Miners'' then [1] else [2]),
     nd_header_of = (\<lambda>_. Inr (Some \<lparr>parent_hash = ChainHash [], number = ''0x5'', digest_logs = []\<rparr>))\<rparr>"

definition one_miner_reg :: reg_upstream where
  "one_miner_reg = sample_reg\<lparr>ru_node := (\<lambda>_. one_miner_node)\<rparr>"

definition one_miner :: chain_miner_record where
  "one_miner = \<lparr>cm_account_id = map char_of_byte (42 # replicate 32 1), cm_deposit = DecimalString ''1'', cm_proofs_submitted = DecimalString ''1'',
     cm_proofs_won = DecimalString ''1'', cm_rewards_earned = DecimalString ''1''\<rparr>"

definition plain_world :: reg_world where
  "plain_world = \<lparr>rw_db = sample_db, rw_best = None, rw_tick = 0\<rparr>"

lemma one_miner_hex [simp]:
  "unhex (nd_lib one_miner_node) (CHR ''0'' # CHR ''x'' # map char_of_byte bs) = Inr bs"
  by (simp add: unhex_def one_miner_node_def invalid_def comp_def)

lemma one_miner_context [simp]: "nd_context one_miner_node at cls = Inr (sample_context\<lparr>rx_metadata := one_miner_metadata\<rparr>)"
  by (simp add: one_miner_node_def)

lemma one_miner_entry [simp]:
  "mdt_lookup_entry one_miner_metadata p q = Inr \<lparr>se_value_ty = 0, se_hashers = Some [Blake2_128Concat], se_default = []\<rparr>"
  by (simp add: one_miner_metadata_def sample_metadata_def)

lemma one_miner_keys:
  "node_keys one_miner_node at ''QuantumPow'' ''Miners'' None PAGE_SIZE cls = Inr [miner_key]"
  "node_keys one_miner_node at ''QuantumPow'' ''Miners'' (Some miner_key) PAGE_SIZE cls = Inr []"
  "node_keys one_miner_node at ''MinerRegistry'' ''NodeDescriptors'' None 1000 cls = Inr []"
proof -
  have pre: "nd_prefix one_miner_node ''QuantumPow'' ''Miners'' = [1]" "nd_prefix one_miner_node ''MinerRegistry'' ''NodeDescriptors'' = [2]"
    by (simp_all add: one_miner_node_def)
  have hx: "hex_text one_miner_node [b] = [CHR ''0'', CHR ''x'', char_of_byte b]" for b
    by (simp add: hex_text_def one_miner_node_def sample_lib_def)
  have "byte_of_char (char_of_byte 1) \<noteq> byte_of_char (char_of_byte 2)" unfolding byte_of_char_of_byte by simp
  then have c12: "char_of_byte 1 \<noteq> char_of_byte 2" by metis
  have t: "take 1 miner_key = [1]" by (simp add: miner_key_def numeral_eq_Suc)
  have req: "nd_request one_miner_node ''state_getKeysPaged'' ps cls = Inr (JArray (if ps ! 2 = JNull \<and> ps ! 0 = JString [CHR ''0'', CHR ''x'', char_of_byte 1]
      then [JString (''0x'' @ map char_of_byte miner_key)] else []))" for ps
    by (simp add: one_miner_node_def)
  show "node_keys one_miner_node at ''QuantumPow'' ''Miners'' None PAGE_SIZE cls = Inr [miner_key]"
    using t by (simp add: node_keys_def key_page_def pre hx req PAGE_SIZE_def)
  show "node_keys one_miner_node at ''QuantumPow'' ''Miners'' (Some miner_key) PAGE_SIZE cls = Inr []"
    using t by (simp add: node_keys_def key_page_def pre hx req PAGE_SIZE_def)
  show "node_keys one_miner_node at ''MinerRegistry'' ''NodeDescriptors'' None 1000 cls = Inr []"
    using c12 by (simp add: node_keys_def key_page_def pre hx req)
qed

lemma one_miner_value:
  "decode_value bs 0 one_miner_metadata = Inr (Composite (Named
     (map (\<lambda>n. (n, Primitive (PU128 1))) [''deposit'', ''proofs_submitted'', ''proofs_won'', ''rewards_earned''])))"
  by (simp add: decode_value_def one_miner_metadata_def sample_metadata_def invalid_def is_wrapper_def)

lemma one_miner_row:
  "map_row one_miner_node at one_miner_metadata p q 0 cls miner_key = Inr (miner_key, Composite (Named
     (map (\<lambda>n. (n, Primitive (PU128 1))) [''deposit'', ''proofs_submitted'', ''proofs_won'', ''rewards_earned''])))"
proof -
  have "mdt_address one_miner_metadata p q ks = Inr miner_key" for ks by (simp add: one_miner_metadata_def)
  moreover have "nd_request one_miner_node ''state_getStorage'' ps cls = Inr (JString ''0x'')" for ps by (simp add: one_miner_node_def)
  moreover have "unhex (nd_lib one_miner_node) ''0x'' = Inr []" using one_miner_hex [of "[]"] by simp
  moreover have "length miner_key = 80" by (simp add: miner_key_def)
  ultimately show ?thesis by (simp add: map_row_def invalid_def one_miner_value)
qed

lemma one_miner_info:
  "\<exists>m. miner_info_of (nd_lib one_miner_node) (drop 48 miner_key) (Composite (Named
     (map (\<lambda>n. (n, Primitive (PU128 1))) [''deposit'', ''proofs_submitted'', ''proofs_won'', ''rewards_earned'']))) = Inr m
     \<and> miner_record m = Inr one_miner"
proof -
  let ?lib = "nd_lib one_miner_node"
  have u: "as_u128 ?lib (Primitive (PU128 1)) = Some 1" by (simp add: one_miner_node_def sample_lib_def)
  have n: "unsigned_value ?lib (Primitive (PU128 1)) = Inr 1" "decimal_value ?lib (Primitive (PU128 1)) = Inr (unsigned_text (1 :: 128 word))"
    by (simp_all add: unsigned_value_def try_from_def decimal_value_def u)
  have a: "account_bytes ?lib (drop 48 miner_key) = Inr (map char_of_byte (42 # replicate 32 1))"
    by (simp add: account_bytes_def miner_key_def one_miner_node_def sample_lib_def Let_def)
  have t: "unsigned_text (1 :: 128 word) = ''1''" "unsigned_text (1 :: u64) = ''1''"
    by (simp_all add: unsigned_text_def digit_char_def nat_text.simps char_of_def bit_0)
  have d: "decimal_text ''1'' = Inr (DecimalString ''1'')"
    using decimal_from_str_ok [of "''1''" "DecimalString ''1''"] by (simp add: decimal_text_def canonical_def is_digit_def)
  show ?thesis
    by (simp add: miner_info_of_def a field_def maybe_field_def n t miner_record_def d one_miner_def decimal_of_u64_def)
qed

lemma one_miner_page:
  "\<exists>page m. read_miner_page one_miner_node at None PAGE_SIZE Backfill = Inr page \<and> mp_miners page = [m] \<and> miner_record m = Inr one_miner
     \<and> mp_exhausted page"
proof -
  obtain m where m: "miner_info_of (nd_lib one_miner_node) (drop 48 miner_key) (Composite (Named
     (map (\<lambda>n. (n, Primitive (PU128 1))) [''deposit'', ''proofs_submitted'', ''proofs_won'', ''rewards_earned'']))) = Inr m"
     "miner_record m = Inr one_miner" using one_miner_info by blast
  have len: "length miner_key = 80" by (simp add: miner_key_def)
  have rows: "map_page one_miner_node at ''QuantumPow'' ''Miners'' None PAGE_SIZE Backfill = Inr [(miner_key, Composite (Named
     (map (\<lambda>n. (n, Primitive (PU128 1))) [''deposit'', ''proofs_submitted'', ''proofs_won'', ''rewards_earned''])))]"
    by (simp add: map_page_def one_miner_keys invalid_def blake_concat_def one_miner_row del: list.map)
  show ?thesis
    using m len by (simp add: read_miner_page_def page_limit_def PAGE_SIZE_def rows [unfolded PAGE_SIZE_def] del: list.map)
qed

lemma one_miner_head: "finalized_head one_miner_node = Inr (ChainHash (replicate 32 7))"
proof -
  have "nd_request one_miner_node ''chain_getFinalizedHead'' [] Live = Inr (JString (CHR ''0'' # CHR ''x'' # map char_of_byte (replicate 32 7)))"
    by (simp add: one_miner_node_def)
  moreover have "parse_chain_hash one_miner_node (CHR ''0'' # CHR ''x'' # map char_of_byte (replicate 32 7)) = Inr (ChainHash (replicate 32 7))"
    by (simp only: parse_chain_hash_def one_miner_hex rbind_simps) simp
  ultimately show ?thesis by (simp add: finalized_head_def hash_of_json_def)
qed

lemma one_miner_snapshot: "\<exists>w'. registry_snapshot one_miner_reg plain_world = (Inr (), w')"
proof -
  let ?ru = one_miner_reg and ?at = "ChainHash (replicate 32 7)"
  have q: "undisturbed ?ru" and nd: "ru_node ?ru = (\<lambda>_. one_miner_node)"
    by (simp_all add: undisturbed_def one_miner_reg_def sample_reg_def)
  have eng: "up_engine (ru_up ?ru) = sample_engine" by (simp add: one_miner_reg_def sample_reg_def sample_upstream_def Let_def)
  note head = one_miner_head
  have height: "rbind (read_header one_miner_node ?at Backfill) header_height = Inr 5"
    by (simp add: read_header_def one_miner_node_def invalid_def header_height_def parse_hex_u64_def hex_value_def strip_plus_def is_digit_def digit_val_def Let_def)
  obtain page m where page: "read_miner_page one_miner_node ?at None PAGE_SIZE Backfill = Inr page" "mp_miners page = [m]"
      "miner_record m = Inr one_miner" "mp_exhausted page" using one_miner_page by blast
  have bound: "bound_db (rw_db plain_world)"
    by (simp add: plain_world_def bound_db_def sample_db_def empty_store_def get_meta_def)
  have miners: "\<exists>w1. miner_pages ?ru ?at None w = (Inr (), w1) \<and> bound_db (rw_db w1)" if "bound_db (rw_db w)" for w
    using that page q
    by (subst miner_pages.simps)
      (simp add: nd store_miners_def bindj_def liftj_def returnj_def rtransact_def Let_def upsert_chain_miners_def bound_write_bound eng
        sample_engine_def, simp add: bound_db_def get_meta_def)
  have descs: "\<exists>w1. descriptor_pages ?ru ?at None w = (Inr (), w1) \<and> bound_db (rw_db w1)" if "bound_db (rw_db w)" for w
    using that q
    by (subst descriptor_pages.simps)
      (simp add: nd descriptor_page_def map_page_def one_miner_keys invalid_def blake_concat_def page_continuation_def returnj_def)
  have check: "\<exists>w1. rtransact ?ru (set_descriptor_checkpoint (unsigned_text (5 :: u64))) w = (Inr (), w1)" if "bound_db (rw_db w)" for w
  proof -
    obtain d where "decimal_from_str (unsigned_text (5 :: u64)) = Inr d" using decimal_from_str_ok by auto
    then show ?thesis using that q
      by (simp add: rtransact_def Let_def set_descriptor_checkpoint_def lift_store_def set_monotonic_def bound_db_def ensure_writable_def
          require_bound_def ok_or_def split: option.splits)
  qed
  let ?w = "rawait ?ru (rawait ?ru (rawait ?ru plain_world))"
  obtain w1 where w1: "miner_pages ?ru ?at None ?w = (Inr (), w1)" "bound_db (rw_db w1)" using miners [of ?w] bound q by auto
  obtain w2 where w2: "descriptor_pages ?ru ?at None w1 = (Inr (), w2)" "bound_db (rw_db w2)" using descs [OF w1(2)] by auto
  obtain w3 where w3: "rtransact ?ru (set_descriptor_checkpoint (unsigned_text (5 :: u64))) w2 = (Inr (), w3)" using check [OF w2(2)] by auto
  show ?thesis
    by (simp add: registry_snapshot_def bindj_def rpause_def rask_def nd head height w1(1) w2(1) w3)
qed

text \<open>C16, for a server with one miner.\<close>

theorem registry_snapshot_complete_witness:
  "\<exists>w' r t. registry_snapshot one_miner_reg plain_world = (Inr (), w') \<and> holds_miner one_miner_node (ChainHash (replicate 32 7)) miner_key r
     \<and> map_of (md_chain_miners (rw_db w')) (cm_account_id r) = Some (r, t)"
proof -
  obtain w' where w': "registry_snapshot one_miner_reg plain_world = (Inr (), w')" using one_miner_snapshot by blast
  have q: "undisturbed one_miner_reg" and nd: "ru_node one_miner_reg = (\<lambda>_. one_miner_node)"
    by (simp_all add: undisturbed_def one_miner_reg_def sample_reg_def)
  have "inj (map char_of_byte)" by (rule inj_mapI, rule inj_on_inverseI [of _ byte_of_char]) simp
  then have i: "inj (bs58_encode (nd_lib one_miner_node))" by (simp add: one_miner_node_def sample_lib_def)
  have l: "lists_keys one_miner_node at [miner_key]" for at
    by (auto simp: lists_keys_def one_miner_keys after_def PAGE_SIZE_def one_miner_keys [unfolded PAGE_SIZE_def])
  from registry_snapshot_complete [OF w' q nd i one_miner_head l, of miner_key] w' show ?thesis by auto
qed

end
