(* ===== verification/Supervisor_Logs.thy ===== *)
theory Supervisor_Logs
  imports Prelude
begin

text \<open>
  Log forwarding of the container's supervisor (\<open>quip-dashboard/src/supervisor.rs\<close>): the readers that
  cut the output of a child into lines, the framing of a line, the datagram to the collector, the bounded
  queue to the thread that writes stderr, and the counters. The socket and stderr answer as arguments say.
\<close>

section \<open>Counters and messages\<close>

definition MAX_LINE :: nat where
  "MAX_LINE = 64 * 1024"

definition MAX_DATAGRAM :: nat where
  "MAX_DATAGRAM = 65507"

record log_counters =
  oversized_lines :: u64
  stderr_dropped_lines :: u64
  stderr_pending_lines :: u64
  udp_dropped_lines :: u64
  read_errors :: u64

definition bytes_of_text :: "string \<Rightarrow> u8 list" where
  "bytes_of_text s = map (\<lambda>c. word_of_nat (of_char c)) s"

definition newline :: u8 where
  "newline = 10"

definition log_tag :: "string \<Rightarrow> string" where
  "log_tag role = (if role = ''backend'' then ''quip-dashboard'' else if role = ''caddy'' then ''caddy'' else ''syslog-ng'')"

definition is_ascii_control :: "u8 \<Rightarrow> bool" where
  "is_ascii_control b \<longleftrightarrow> b < 32 \<or> b = 127"

definition log_message :: "string \<Rightarrow> u8 list \<Rightarrow> u8 list" where
  "log_message role line = bytes_of_text ''<14>'' @ bytes_of_text (log_tag role) @ bytes_of_text '': ''
     @ map (\<lambda>b. if is_ascii_control b \<and> b \<noteq> 9 then 32 else b) line"

text \<open>A child cannot forge a second line: whatever bytes its line has, the message holds no newline.\<close>

lemma log_message_single_line: "newline \<notin> set (log_message role line)"
proof -
  have "newline \<notin> set (bytes_of_text t)" if "t \<in> {''<14>'', ''quip-dashboard'', ''caddy'', ''syslog-ng'', '': ''}" for t
    using that by (auto simp: bytes_of_text_def newline_def)
  then have "newline \<notin> set (bytes_of_text ''<14>'') \<union> set (bytes_of_text (log_tag role)) \<union> set (bytes_of_text '': '')"
    by (simp add: log_tag_def)
  then show ?thesis by (auto simp: log_message_def newline_def is_ascii_control_def split: if_splits)
qed

text \<open>
  The forwarding side: the counters, the datagrams sent, the channel to the writer thread with its
  capacity. \<open>send\<close> says whether the nonblocking socket takes a datagram.
\<close>

record logs =
  counters :: log_counters
  datagrams :: "u8 list list"
  channel :: "u8 list list"
  slots :: nat

definition forward_udp :: "(u8 list \<Rightarrow> bool) \<Rightarrow> string \<Rightarrow> u8 list \<Rightarrow> logs \<Rightarrow> logs" where
  "forward_udp send role message l =
     (if role = ''collector'' then l
      else if MAX_DATAGRAM < length message \<or> \<not> send message
      then l\<lparr>counters := (counters l)\<lparr>udp_dropped_lines := udp_dropped_lines (counters l) + 1\<rparr>\<rparr>
      else l\<lparr>datagrams := datagrams l @ [message]\<rparr>)"

definition add_pending :: "u64 \<Rightarrow> logs \<Rightarrow> logs" where
  "add_pending n l = l\<lparr>counters := (counters l)\<lparr>stderr_pending_lines := stderr_pending_lines (counters l) + n\<rparr>\<rparr>"

definition sub_pending :: "logs \<Rightarrow> logs" where
  "sub_pending l = l\<lparr>counters := (counters l)\<lparr>stderr_pending_lines := stderr_pending_lines (counters l) - 1\<rparr>\<rparr>"

definition count_dropped :: "logs \<Rightarrow> logs" where
  "count_dropped l = l\<lparr>counters := (counters l)\<lparr>stderr_dropped_lines := stderr_dropped_lines (counters l) + 1\<rparr>\<rparr>"

definition try_send :: "u8 list \<Rightarrow> logs \<Rightarrow> bool \<times> logs" where
  "try_send m l = (if length (channel l) < slots l then (True, l\<lparr>channel := channel l @ [m]\<rparr>) else (False, l))"

definition log_line :: "(u8 list \<Rightarrow> bool) \<Rightarrow> string \<Rightarrow> u8 list \<Rightarrow> logs \<Rightarrow> logs" where
  "log_line send role line l =
     (let message = log_message role line;
          l = add_pending 1 (forward_udp send role message l)
      in case try_send (message @ [newline]) l of
           (True, l) \<Rightarrow> l
         | (False, l) \<Rightarrow> count_dropped (sub_pending l))"

section \<open>Reading a pipe\<close>

definition count_oversized :: "logs \<Rightarrow> logs" where
  "count_oversized l = l\<lparr>counters := (counters l)\<lparr>oversized_lines := oversized_lines (counters l) + 1\<rparr>\<rparr>"

definition count_read_error :: "logs \<Rightarrow> logs" where
  "count_read_error l = l\<lparr>counters := (counters l)\<lparr>read_errors := read_errors (counters l) + 1\<rparr>\<rparr>"

text \<open>The line so far, whether it is being discarded, and the shared state.\<close>

type_synonym read_state = "u8 list \<times> bool \<times> logs"

fun read_byte :: "(u8 list \<Rightarrow> bool) \<Rightarrow> string \<Rightarrow> u8 \<Rightarrow> read_state \<Rightarrow> read_state" where
  "read_byte send role b (line, oversized, l) =
     (if b = newline then ([], False, if oversized then l else log_line send role line l)
      else if oversized then (line, oversized, l)
      else if length line = MAX_LINE then ([], True, count_oversized l)
      else (line @ [b], oversized, l))"

text \<open>What a read of the pipe returns: some bytes, the end (no bytes) or an error.\<close>

datatype pipe_read = Data "u8 list" | ReadFailed

fun read_chunks :: "(u8 list \<Rightarrow> bool) \<Rightarrow> string \<Rightarrow> pipe_read list \<Rightarrow> read_state \<Rightarrow> read_state" where
  "read_chunks send role [] s = s"
| "read_chunks send role (ReadFailed # rs) (line, oversized, l) = (line, oversized, count_read_error l)"
| "read_chunks send role (Data bytes # rs) s =
     (if bytes = [] then s else read_chunks send role rs (fold (read_byte send role) bytes s))"

definition read_pipe :: "(u8 list \<Rightarrow> bool) \<Rightarrow> string \<Rightarrow> pipe_read list \<Rightarrow> logs \<Rightarrow> logs" where
  "read_pipe send role rs l = (case read_chunks send role rs ([], False, l) of
     (line, oversized, l) \<Rightarrow> if \<not> oversized \<and> line \<noteq> [] then log_line send role line l else l)"

subsection \<open>Reference: the lines of a byte string\<close>

text \<open>The pieces between newlines; the last one is what follows the last newline.\<close>

fun pieces :: "u8 list \<Rightarrow> u8 list list" where
  "pieces [] = [[]]"
| "pieces (b # bs) = (if b = newline then [] # pieces bs else (b # hd (pieces bs)) # tl (pieces bs))"

datatype delivery = Deliver "u8 list" | Discard

definition deliver_piece :: "u8 list \<Rightarrow> delivery" where
  "deliver_piece p = (if length p \<le> MAX_LINE then Deliver p else Discard)"

definition deliveries :: "u8 list \<Rightarrow> delivery list" where
  "deliveries bs = map deliver_piece (butlast (pieces bs) @ (if last (pieces bs) = [] then [] else [last (pieces bs)]))"

fun deliver :: "(u8 list \<Rightarrow> bool) \<Rightarrow> string \<Rightarrow> delivery \<Rightarrow> logs \<Rightarrow> logs" where
  "deliver send role (Deliver line) l = log_line send role line l"
| "deliver send role Discard l = count_oversized l"

text \<open>The bytes read before the end or the first error, and whether an error ended the reading.\<close>

fun received :: "pipe_read list \<Rightarrow> u8 list \<times> bool" where
  "received [] = ([], False)"
| "received (ReadFailed # rs) = ([], True)"
| "received (Data bytes # rs) = (if bytes = [] then ([], False) else (bytes @ fst (received rs), snd (received rs)))"

lemma pieces_nonempty [simp]: "pieces bs \<noteq> []"
  by (cases bs) auto

text \<open>The reader's state in terms of the bytes it has consumed: everything before the last newline is delivered.\<close>

definition read_spec :: "(u8 list \<Rightarrow> bool) \<Rightarrow> string \<Rightarrow> u8 list \<Rightarrow> logs \<Rightarrow> read_state" where
  "read_spec send role bs l =
     (let l' = fold (deliver send role) (map deliver_piece (butlast (pieces bs))) l
      in if length (last (pieces bs)) \<le> MAX_LINE then (last (pieces bs), False, l') else ([], True, count_oversized l'))"

lemma pieces_snoc_newline: "pieces (bs @ [newline]) = pieces bs @ [[]]"
  by (induction bs) auto

lemma pieces_snoc: "b \<noteq> newline \<Longrightarrow> pieces (bs @ [b]) = butlast (pieces bs) @ [last (pieces bs) @ [b]]"
proof (induction bs)
  case (Cons c bs)
  obtain p ps where "pieces bs = p # ps" using pieces_nonempty by (metis list.exhaust)
  with Cons show ?case by (cases ps) simp_all
qed simp

lemma read_byte_spec: "read_byte send role b (read_spec send role bs l) = read_spec send role (bs @ [b]) l"
proof (cases "b = newline")
  case True
  have "map deliver_piece (pieces bs) = map deliver_piece (butlast (pieces bs)) @ [deliver_piece (last (pieces bs))]"
    by (metis append_butlast_last_id list.simps(8,9) map_append pieces_nonempty)
  then show ?thesis
    using True by (simp add: read_spec_def Let_def pieces_snoc_newline deliver_piece_def)
next
  case False
  then show ?thesis by (auto simp: read_spec_def Let_def pieces_snoc)
qed

lemma fold_read_byte: "fold (read_byte send role) cs (read_spec send role bs l) = read_spec send role (bs @ cs) l"
  by (induction cs arbitrary: bs) (simp_all add: read_byte_spec)

lemma read_chunks_spec:
  "read_chunks send role rs (read_spec send role bs l) =
     (case read_spec send role (bs @ fst (received rs)) l of
        (line, oversized, l') \<Rightarrow> (line, oversized, if snd (received rs) then count_read_error l' else l'))"
proof (induction rs arbitrary: bs)
  case Nil
  then show ?case by (simp add: case_prod_beta)
next
  case (Cons r rs)
  show ?case
  proof (cases r)
    case (Data bytes)
    then show ?thesis using Cons [of "bs @ bytes"] by (auto simp: fold_read_byte split: prod.splits)
  next
    case ReadFailed
    then show ?thesis by (cases "read_spec send role bs l") auto
  qed
qed

lemma count_read_error_line: "log_line send role line (count_read_error l) = count_read_error (log_line send role line l)"
  by (simp add: log_line_def count_read_error_def forward_udp_def add_pending_def try_send_def sub_pending_def
      count_dropped_def Let_def)

text \<open>
  C15. However the output of a child is cut into reads, the reader hands on exactly the lines of the bytes
  it received: every line of at most 64 KiB once and in order, an unfinished last line included, and
  one count for every longer line, plus one read error if an error ended the reading.
\<close>

theorem read_delivers_lines:
  "read_pipe send role rs l =
     (if snd (received rs) then count_read_error else id) (fold (deliver send role) (deliveries (fst (received rs))) l)"
proof -
  have start: "([], False, l) = read_spec send role [] l" by (simp add: read_spec_def MAX_LINE_def)
  show ?thesis
    unfolding read_pipe_def start read_chunks_spec
    by (auto simp: read_spec_def Let_def deliveries_def deliver_piece_def count_read_error_line)
qed

section \<open>The writer thread and the queue\<close>

text \<open>
  Readers run in parallel with the thread that writes stderr. A reader's \<open>line\<close> is four atomic accesses:
  the pending counter is raised (after the datagram), the channel is tried, and when it is full
  the pending counter is lowered and the dropped counter raised. The thread takes a message from the
  channel, writes it, counts a failed write and lowers the pending counter.
\<close>

datatype stderr_writer = Waiting | Writing "u8 list" | Written

text \<open>
  The readers at each point of \<open>line\<close>: with a message announced, with one the channel refused, and with one
  already taken off the pending counter. \<open>handed\<close> counts the lines so far and \<open>stderr_taken\<close> holds what stderr took.
\<close>

record log_world =
  shared :: logs
  announced :: "u8 list list"
  refused :: nat
  retracted :: nat
  thread :: stderr_writer
  stderr_taken :: "u8 list list"
  handed :: nat

definition busy_readers :: "log_world \<Rightarrow> nat" where
  "busy_readers w = length (announced w) + refused w + retracted w"

inductive log_step :: "nat \<Rightarrow> log_world \<Rightarrow> log_world \<Rightarrow> bool" for readers where
  announce: "busy_readers w < readers \<Longrightarrow> log_step readers w
    (w\<lparr>shared := add_pending 1 (forward_udp send role (log_message role line) (shared w)),
       announced := announced w @ [log_message role line @ [newline]], handed := handed w + 1\<rparr>)"
| offered: "announced w = ms @ m # ns \<Longrightarrow> try_send m (shared w) = (True, l) \<Longrightarrow>
    log_step readers w (w\<lparr>shared := l, announced := ms @ ns\<rparr>)"
| full: "announced w = ms @ m # ns \<Longrightarrow> try_send m (shared w) = (False, l) \<Longrightarrow>
    log_step readers w (w\<lparr>shared := l, announced := ms @ ns, refused := refused w + 1\<rparr>)"
| retract: "refused w = Suc n \<Longrightarrow>
    log_step readers w (w\<lparr>shared := sub_pending (shared w), refused := n, retracted := retracted w + 1\<rparr>)"
| count_drop: "retracted w = Suc n \<Longrightarrow> log_step readers w (w\<lparr>shared := count_dropped (shared w), retracted := n\<rparr>)"
| receive: "thread w = Waiting \<Longrightarrow> channel (shared w) = m # ms \<Longrightarrow>
    log_step readers w (w\<lparr>shared := (shared w)\<lparr>channel := ms\<rparr>, thread := Writing m\<rparr>)"
| wrote: "thread w = Writing m \<Longrightarrow> log_step readers w (w\<lparr>thread := Written, stderr_taken := stderr_taken w @ [m]\<rparr>)"
| failed: "thread w = Writing m \<Longrightarrow> log_step readers w (w\<lparr>thread := Written, shared := count_dropped (shared w)\<rparr>)"
| settle: "thread w = Written \<Longrightarrow> log_step readers w (w\<lparr>thread := Waiting, shared := sub_pending (shared w)\<rparr>)"

inductive_cases log_stepE: "log_step readers w w'"

definition no_logs :: "nat \<Rightarrow> log_world" where
  "no_logs capacity = \<lparr>shared = \<lparr>counters = \<lparr>oversized_lines = 0, stderr_dropped_lines = 0, stderr_pending_lines = 0,
       udp_dropped_lines = 0, read_errors = 0\<rparr>, datagrams = [], channel = [], slots = capacity\<rparr>,
     announced = [], refused = 0, retracted = 0, thread = Waiting, stderr_taken = [], handed = 0\<rparr>"

text \<open>\<open>Logs::drain\<close> returns that nothing is late when it reads zero.\<close>

definition log_drained :: "log_world \<Rightarrow> bool" where
  "log_drained w \<longleftrightarrow> stderr_pending_lines (counters (shared w)) = 0"

definition in_flight :: "log_world \<Rightarrow> nat" where
  "in_flight w = length (announced w) + refused w + length (channel (shared w)) + (if thread w = Waiting then 0 else 1)"

definition log_inv :: "nat \<Rightarrow> nat \<Rightarrow> log_world \<Rightarrow> bool" where
  "log_inv readers capacity w \<longleftrightarrow>
     slots (shared w) = capacity \<and> length (channel (shared w)) \<le> capacity \<and> busy_readers w \<le> readers
     \<and> stderr_pending_lines (counters (shared w)) = of_nat (in_flight w)
     \<and> (\<exists>d. stderr_dropped_lines (counters (shared w)) = of_nat d
         \<and> handed w = length (announced w) + refused w + retracted w + length (channel (shared w))
             + (case thread w of Writing _ \<Rightarrow> 1 | _ \<Rightarrow> 0) + length (stderr_taken w) + d)"

lemmas log_access_defs = add_pending_def sub_pending_def count_dropped_def try_send_def forward_udp_def busy_readers_def in_flight_def

lemma log_step_inv: "log_step readers w w' \<Longrightarrow> log_inv readers capacity w \<Longrightarrow> log_inv readers capacity w'"
proof (induction rule: log_step.induct)
  case (count_drop w n)
  then obtain d where d: "stderr_dropped_lines (counters (shared w)) = of_nat d" and
    "handed w = length (announced w) + refused w + retracted w + length (channel (shared w))
       + (case thread w of Writing _ \<Rightarrow> 1 | _ \<Rightarrow> 0) + length (stderr_taken w) + d"
    by (auto simp: log_inv_def)
  with count_drop show ?case
    by (auto simp: log_inv_def log_access_defs intro!: exI [of _ "Suc d"])
next
  case (failed w m)
  then obtain d where d: "stderr_dropped_lines (counters (shared w)) = of_nat d" and
    "handed w = length (announced w) + refused w + retracted w + length (channel (shared w)) + 1 + length (stderr_taken w) + d"
    by (auto simp: log_inv_def)
  with failed show ?case
    by (auto simp: log_inv_def log_access_defs intro!: exI [of _ "Suc d"])
qed (auto simp: log_inv_def log_access_defs split: if_splits)

interpretation logging: history "log_step readers" "log_inv readers capacity" "\<lambda>w w'. handed w \<le> handed w'"
  by unfold_locales (auto intro: log_step_inv elim: log_stepE)



end
