(* ===== verification/Supervisor.thy ===== *)
theory Supervisor
  imports Prelude
begin

text \<open>
  Child supervision in the combined container (\<open>quip-dashboard/src/supervisor.rs\<close>): starting the collector,
  the backend and Caddy, watching them, and stopping them within one budget. The kernel is a state:
  the process behind each id and the group signals delivered. What the kernel, the timers and the pipe
  readers answer is part of that state or an argument. Forwarding of log lines is in \<open>Supervisor_Logs\<close>.
\<close>

section \<open>Errors and reasons\<close>

datatype errno = ENOENT | ETXTBSY | ECHILD | ESRCH | EPERM | OtherErrno int

datatype io_error = Errno errno | OtherIo string | TimedOut string | InvalidInput string

datatype signal = SIGTERM | SIGINT | SIGKILL

datatype wait_status = StillAlive | Exited int | Signaled signal

datatype exit_reason =
    SignalReason signal
  | ChildExited string wait_status
  | CollectorExited wait_status
  | SpawnFailed string io_error
  | Internal io_error

record report =
  reason :: exit_reason
  timed_out :: bool

definition exit_code :: "report \<Rightarrow> nat" where
  "exit_code r = (case reason r of
       SignalReason _ \<Rightarrow> if timed_out r then 124 else 0
     | ChildExited _ _ \<Rightarrow> 1
     | CollectorExited _ \<Rightarrow> 70
     | SpawnFailed _ error \<Rightarrow> if error = Errno ENOENT then 127 else 126
     | Internal _ \<Rightarrow> 71)"

section \<open>The kernel\<close>

text \<open>
  A process id is a live child, a child that ended and is not reaped, or no child of this process: then
  the id is free or names someone else's process. \<open>refusal\<close> is how the kernel refuses group
  signals, if it does; \<open>reaping\<close> is how waiting for a child until its deadline ends, and what changes meanwhile.
\<close>

type_synonym pid = int

datatype process = Alive | Zombie wait_status | NotOurs

text \<open>What happens to processes while the supervisor awaits something: some end, some are reaped by others.\<close>

type_synonym change = "(pid \<times> process) list"

datatype reap_result = Reaped | ReapFailed errno | ReapLate

record kernel =
  procs :: "pid \<Rightarrow> process"
  refusal :: "pid \<Rightarrow> errno option"
  reaping :: "pid \<Rightarrow> reap_result \<times> change"
  delivered :: "(pid \<times> signal \<times> process) list"

text \<open>A process that ended does not come back to life, and a reaped child does not become ours again.\<close>

fun change_process :: "process \<Rightarrow> process \<Rightarrow> process" where
  "change_process Alive s = s"
| "change_process (Zombie status) s = (if s = NotOurs then NotOurs else Zombie status)"
| "change_process NotOurs s = NotOurs"

definition apply_change :: "change \<Rightarrow> kernel \<Rightarrow> kernel" where
  "apply_change ch k = k\<lparr>procs := fold (\<lambda>(p, s) m. m(p := change_process (m p) s)) ch (procs k)\<rparr>"

text \<open>\<open>waitid\<close> with \<open>WNOHANG\<close> and \<open>WNOWAIT\<close>: interrupted calls are repeated, the child is not reaped.\<close>

definition waitid :: "pid \<Rightarrow> kernel \<Rightarrow> io_error + wait_status" where
  "waitid p k = (case procs k p of Alive \<Rightarrow> Inr StillAlive | Zombie status \<Rightarrow> Inr status | NotOurs \<Rightarrow> Inl (Errno ECHILD))"

definition killpg :: "pid \<Rightarrow> signal \<Rightarrow> kernel \<Rightarrow> errno option \<times> kernel" where
  "killpg p sig k = (case refusal k p of
       Some e \<Rightarrow> (Some e, k)
     | None \<Rightarrow> (None, k\<lparr>delivered := delivered k @ [(p, sig, procs k p)]\<rparr>))"

section \<open>Owned children\<close>

datatype reader_fate = ReaderDone | ReaderPanicked | ReaderLate

record owned_child =
  oc_role :: string
  oc_pid :: pid
  oc_group :: "pid option"
  oc_readers :: "reader_fate list"

definition child_status :: "kernel \<Rightarrow> owned_child \<Rightarrow> io_error + wait_status" where
  "child_status k c = (case oc_group c of None \<Rightarrow> Inl (OtherIo ''child already released'') | Some g \<Rightarrow> waitid g k)"

definition send_signal :: "signal \<Rightarrow> owned_child \<Rightarrow> kernel \<Rightarrow> (io_error + unit) \<times> owned_child \<times> kernel" where
  "send_signal sig c k = (case child_status k c of
       Inl error \<Rightarrow> (Inl error, c\<lparr>oc_group := None\<rparr>, k)
     | Inr _ \<Rightarrow> (case oc_group c of
           None \<Rightarrow> (Inr (), c, k)
         | Some g \<Rightarrow> (case killpg g sig k of
               (None, k) \<Rightarrow> (Inr (), c, k)
             | (Some ESRCH, k) \<Rightarrow> (Inr (), c, k)
             | (Some e, k) \<Rightarrow> (Inl (Errno e), c, k))))"

text \<open>Waiting for the direct child reaps it; afterwards its id may be reused.\<close>

definition wait_child :: "pid \<Rightarrow> kernel \<Rightarrow> reap_result \<times> kernel" where
  "wait_child p k = (case reaping k p of (r, ch) \<Rightarrow>
     let k = apply_change ch k in (r, if r = Reaped then k\<lparr>procs := (procs k)(p := NotOurs)\<rparr> else k))"

definition kill_and_reap :: "owned_child \<Rightarrow> kernel \<Rightarrow> (io_error + unit) \<times> owned_child \<times> kernel" where
  "kill_and_reap c k = (case send_signal SIGKILL c k of
     (result, c, k) \<Rightarrow> (let c = c\<lparr>oc_group := None\<rparr> in case wait_child (oc_pid c) k of
         (ReapLate, k) \<Rightarrow> (Inl (TimedOut ''child reap deadline''), c, k)
       | (ReapFailed e, k) \<Rightarrow> (rbind result (\<lambda>_. Inl (Errno e)), c, k)
       | (Reaped, k) \<Rightarrow> (result, c, k)))"

text \<open>Dropping the guard.\<close>

definition drop_child :: "owned_child \<Rightarrow> kernel \<Rightarrow> kernel" where
  "drop_child c k = (if oc_group c \<noteq> None then snd (snd (send_signal SIGKILL c k)) else k)"

section \<open>Starting a child\<close>

definition SPAWN_BUSY_ATTEMPTS :: nat where
  "SPAWN_BUSY_ATTEMPTS = 10"

text \<open>The answers of the successive attempts: an error, or a child with its id, if it has one, and its readers.\<close>

type_synonym spawn_answer = "io_error + u32 option \<times> reader_fate list"

function spawn_loop :: "(nat \<Rightarrow> spawn_answer) \<Rightarrow> nat \<Rightarrow> nat \<times> spawn_answer" where
  "spawn_loop answer attempt = (case answer attempt of
       Inr child \<Rightarrow> (attempt, Inr child)
     | Inl error \<Rightarrow>
         if error \<noteq> Errno ETXTBSY \<or> SPAWN_BUSY_ATTEMPTS \<le> attempt + 1 then (attempt, Inl error)
         else spawn_loop answer (attempt + 1))"
  by pat_completeness auto
termination
  by (relation "measure (\<lambda>(_, attempt). SPAWN_BUSY_ATTEMPTS - attempt)") (auto simp: SPAWN_BUSY_ATTEMPTS_def)

declare spawn_loop.simps [simp del]

definition spawn_child :: "(nat \<Rightarrow> spawn_answer) \<Rightarrow> string \<Rightarrow> io_error + owned_child" where
  "spawn_child answer role =
     rbind (snd (spawn_loop answer 0)) (\<lambda>(found, readers).
     rbind (ok_or (OtherIo ''spawned child has no pid'') found) (\<lambda>p.
     if unat p < 2 ^ 31
     then Inr \<lparr>oc_role = role, oc_pid = uint p, oc_group = Some (uint p), oc_readers = readers\<rparr>
     else Inl (OtherIo ''out of range integral type conversion attempted'')))"

section \<open>Watching and stopping\<close>

fun unexpected :: "kernel \<Rightarrow> owned_child list \<Rightarrow> exit_reason option" where
  "unexpected k [] = None"
| "unexpected k (c # cs) = (case child_status k c of
       Inr StillAlive \<Rightarrow> unexpected k cs
     | Inr status \<Rightarrow> Some (if oc_role c = ''collector'' then CollectorExited status else ChildExited (oc_role c) status)
     | Inl error \<Rightarrow> Some (Internal error))"

fun signal_all :: "signal \<Rightarrow> owned_child list \<Rightarrow> kernel \<Rightarrow> bool \<times> owned_child list \<times> kernel" where
  "signal_all sig [] k = (False, [], k)"
| "signal_all sig (c # cs) k = (case send_signal sig c k of (r, c, k) \<Rightarrow>
     case signal_all sig cs k of (failed, cs, k) \<Rightarrow> (isl r \<or> failed, c # cs, k))"

definition is_running :: "kernel \<Rightarrow> owned_child \<Rightarrow> bool" where
  "is_running k c \<longleftrightarrow> child_status k c = Inr StillAlive"

definition status_lost :: "kernel \<Rightarrow> owned_child \<Rightarrow> bool" where
  "status_lost k c \<longleftrightarrow> (case child_status k c of Inl _ \<Rightarrow> True | Inr _ \<Rightarrow> False)"

text \<open>The changes that arrive before the graceful deadline, one notification at a time.\<close>

fun await_exit :: "owned_child list \<Rightarrow> change list \<Rightarrow> bool \<Rightarrow> kernel \<Rightarrow> bool \<times> kernel" where
  "await_exit cs changes failed k =
     (let failed = failed \<or> list_ex (status_lost k) cs
      in if \<not> list_ex (is_running k) cs then (failed, k)
         else case changes of
             [] \<Rightarrow> (True, k)
           | ch # changes \<Rightarrow> await_exit cs changes failed (apply_change ch k))"

declare await_exit.simps [simp del]

fun reap_all :: "owned_child list \<Rightarrow> kernel \<Rightarrow> bool \<times> owned_child list \<times> kernel" where
  "reap_all [] k = (False, [], k)"
| "reap_all (c # cs) k = (case kill_and_reap c k of (r, c, k) \<Rightarrow>
     case reap_all cs k of (failed, cs, k) \<Rightarrow> (isl r \<or> failed, c # cs, k))"

definition stop_children :: "owned_child list \<Rightarrow> change list \<Rightarrow> kernel \<Rightarrow> bool \<times> owned_child list \<times> kernel" where
  "stop_children cs changes k = (case signal_all SIGTERM cs k of (failed, cs, k) \<Rightarrow>
     case await_exit cs changes failed k of (failed, k) \<Rightarrow>
     case reap_all cs k of (failed', cs, k) \<Rightarrow> (failed \<or> failed', cs, k))"

text \<open>Joining the pipe readers; a late one is aborted.\<close>

definition drain_readers :: "owned_child list \<Rightarrow> bool \<times> owned_child list" where
  "drain_readers cs = (list_ex (\<lambda>c. list_ex (\<lambda>r. r \<noteq> ReaderDone) (oc_readers c)) cs, map (\<lambda>c. c\<lparr>oc_readers := []\<rparr>) cs)"

section \<open>The supervisor\<close>

record supervisor_config =
  shutdown_timeout_ns :: nat
  log_capacity :: nat

definition config_valid :: "supervisor_config \<Rightarrow> bool" where
  "config_valid c \<longleftrightarrow> shutdown_timeout_ns c \<noteq> 0 \<and> shutdown_timeout_ns c \<le> 20 * 10 ^ 9
     \<and> 1 \<le> log_capacity c \<and> log_capacity c \<le> 1024"

text \<open>
  What happens around one run: errors of the setup, the answers to the spawns of each role
  (a new child's process is entered into the kernel) and what changes meanwhile, the wake-ups of the main
  loop, the changes that arrive while services stop and are drained and while the collector stops, and whether the stderr writer is late at its two deadlines.
\<close>

datatype wake = Terminated | Interrupted | Changed change

record surroundings =
  setup_error :: "io_error option"
  spawns :: "string \<Rightarrow> nat \<Rightarrow> spawn_answer"
  spawn_change :: "string \<Rightarrow> change"
  wakes :: "wake list"
  service_changes :: "change list"
  drain_change :: change
  collector_changes :: "change list"
  log_late :: bool
  writer_late :: bool

fun spawn_all :: "surroundings \<Rightarrow> string list \<Rightarrow> kernel \<Rightarrow> exit_reason option \<times> owned_child list \<times> kernel" where
  "spawn_all w [] k = (None, [], k)"
| "spawn_all w (role # roles) k = (case spawn_child (spawns w role) role of
       Inl error \<Rightarrow> (Some (SpawnFailed role error), [], k)
     | Inr c \<Rightarrow> (case spawn_all w roles (apply_change (spawn_change w role) (k\<lparr>procs := (procs k)(oc_pid c := Alive)\<rparr>)) of
           (failure, cs, k) \<Rightarrow> (failure, c # cs, k)))"

text \<open>The main loop; without a further wake-up it is still waiting.\<close>

fun watch :: "owned_child list \<Rightarrow> wake list \<Rightarrow> kernel \<Rightarrow> (exit_reason \<times> kernel) option" where
  "watch cs ws k = (case unexpected k cs of
       Some r \<Rightarrow> Some (r, k)
     | None \<Rightarrow> (case ws of
           [] \<Rightarrow> None
         | Terminated # _ \<Rightarrow> Some (SignalReason SIGTERM, k)
         | Interrupted # _ \<Rightarrow> Some (SignalReason SIGINT, k)
         | Changed ch # ws \<Rightarrow> watch cs ws (apply_change ch k)))"

declare watch.simps [simp del]

definition stop_services :: "surroundings \<Rightarrow> owned_child list \<Rightarrow> kernel \<Rightarrow> bool \<times> owned_child list \<times> kernel" where
  "stop_services w cs k = (case cs of
       [] \<Rightarrow> (False, [], k)
     | c # services \<Rightarrow> (case stop_children services (service_changes w) k of (late, services, k) \<Rightarrow>
         case drain_readers services of (late', services) \<Rightarrow> (late \<or> late' \<or> log_late w, c # services, apply_change (drain_change w) k)))"

text \<open>An operator's signal gives way to a collector that ended on its own meanwhile.\<close>

definition final_reason :: "owned_child list \<Rightarrow> exit_reason \<Rightarrow> kernel \<Rightarrow> exit_reason" where
  "final_reason cs r k = (case r of
       SignalReason _ \<Rightarrow> (case cs of [] \<Rightarrow> r | c # _ \<Rightarrow> (case unexpected k [c] of None \<Rightarrow> r | Some r' \<Rightarrow> r'))
     | _ \<Rightarrow> r)"

definition stop_collector :: "surroundings \<Rightarrow> owned_child list \<Rightarrow> kernel \<Rightarrow> bool \<times> owned_child list \<times> kernel" where
  "stop_collector w cs k = (case cs of
       [] \<Rightarrow> (False, [], k)
     | c # services \<Rightarrow> (case stop_children [c] (collector_changes w) k of (late, cs, k) \<Rightarrow>
         case drain_readers cs of (late', cs) \<Rightarrow> (late \<or> late', cs @ services, k)))"

definition shut_down :: "surroundings \<Rightarrow> owned_child list \<Rightarrow> exit_reason \<Rightarrow> kernel \<Rightarrow> report \<times> owned_child list \<times> kernel" where
  "shut_down w cs r k = (case stop_services w cs k of (late, cs, k) \<Rightarrow>
     let r = final_reason cs r k
     in case stop_collector w cs k of (late', cs, k) \<Rightarrow>
        (\<lparr>reason = r, timed_out = late \<or> late' \<or> writer_late w\<rparr>, cs, fold drop_child cs k))"

definition roles :: "string list" where
  "roles = [''collector'', ''backend'', ''caddy'']"

text \<open>\<open>None\<close> is a supervisor still at work.\<close>

definition supervise :: "supervisor_config \<Rightarrow> surroundings \<Rightarrow> kernel \<Rightarrow> (io_error + report \<times> owned_child list \<times> kernel) option" where
  "supervise cfg w k =
     (if \<not> config_valid cfg then Some (Inl (InvalidInput ''shutdown timeout must be 1..=20000 ms and log capacity 1..=1024''))
      else case setup_error w of
          Some e \<Rightarrow> Some (Inl e)
        | None \<Rightarrow> (case spawn_all w roles k of
              (Some r, cs, k) \<Rightarrow> Some (Inr (shut_down w cs r k))
            | (None, cs, k) \<Rightarrow> map_option (\<lambda>(r, k). Inr (shut_down w cs r k)) (watch cs (wakes w) k)))"

section \<open>What a run does to processes\<close>

text \<open>
  How the kernel may develop under operations that start nothing: the signals delivered meanwhile satisfy
  \<open>P\<close>, what ended stays ended and what is not ours stays so.
\<close>

definition develops :: "(pid \<times> signal \<times> process \<Rightarrow> bool) \<Rightarrow> kernel \<Rightarrow> kernel \<Rightarrow> bool" where
  "develops P k k' \<longleftrightarrow> (\<exists>ds. delivered k' = delivered k @ ds \<and> list_all P ds)
     \<and> (\<forall>p. procs k p = NotOurs \<longrightarrow> procs k' p = NotOurs) \<and> (\<forall>p. procs k p \<noteq> Alive \<longrightarrow> procs k' p \<noteq> Alive)"

lemma develops_refl [simp]: "develops P k k"
  by (simp add: develops_def)

lemma develops_trans: "develops P k k' \<Longrightarrow> develops P k' k'' \<Longrightarrow> develops P k k''"
  by (auto simp: develops_def)

lemma develops_weaken: "develops P k k' \<Longrightarrow> (\<And>d. P d \<Longrightarrow> Q d) \<Longrightarrow> develops Q k k'"
  unfolding develops_def by (metis list.pred_mono_strong)

lemma develops_not_ours: "develops P k k' \<Longrightarrow> procs k p = NotOurs \<Longrightarrow> procs k' p = NotOurs"
  by (simp add: develops_def)

lemma develops_delivered: "develops P k k' \<Longrightarrow> \<exists>ds. delivered k' = delivered k @ ds \<and> list_all P ds"
  by (simp add: develops_def)

lemma develops_dead: "develops P k k' \<Longrightarrow> procs k p \<noteq> Alive \<Longrightarrow> procs k' p \<noteq> Alive"
  by (simp add: develops_def)

lemma apply_change_develops [simp]: "develops P k (apply_change ch k)"
proof -
  have "(m p = NotOurs \<longrightarrow> fold (\<lambda>(p, s) m. m(p := change_process (m p) s)) ch m p = NotOurs)
    \<and> (m p \<noteq> Alive \<longrightarrow> fold (\<lambda>(p, s) m. m(p := change_process (m p) s)) ch m p \<noteq> Alive)" for m :: "pid \<Rightarrow> process" and p
  proof (induction ch arbitrary: m)
    case (Cons x ch)
    obtain q s where x: "x = (q, s)" by (cases x)
    have "change_process NotOurs s = NotOurs" "m q \<noteq> Alive \<Longrightarrow> change_process (m q) s \<noteq> Alive"
      by (cases "m q"; simp)+
    then show ?case using Cons [of "m(q := change_process (m q) s)"] by (auto simp: x split: if_splits)
  qed simp
  then show ?thesis by (auto simp: develops_def apply_change_def)
qed

lemma wait_child_develops: "wait_child p k = (r, k') \<Longrightarrow> develops P k k' \<and> (r = Reaped \<longrightarrow> procs k' p = NotOurs)"
proof -
  assume w: "wait_child p k = (r, k')"
  obtain r0 ch where rc: "reaping k p = (r0, ch)" by (cases "reaping k p")
  have "develops P (apply_change ch k) (if r0 = Reaped then (apply_change ch k)\<lparr>procs := (procs (apply_change ch k))(p := NotOurs)\<rparr> else apply_change ch k)"
    by (simp add: develops_def)
  then show ?thesis using w rc develops_trans [OF apply_change_develops] by (auto simp: wait_child_def Let_def)
qed

subsection \<open>Signals go to owned groups\<close>

text \<open>The cached group of a child is its own id, until it is given up.\<close>

definition child_ok :: "owned_child \<Rightarrow> bool" where
  "child_ok c \<longleftrightarrow> oc_group c = None \<or> oc_group c = Some (oc_pid c)"

definition owned :: "pid set \<Rightarrow> pid \<times> signal \<times> process \<Rightarrow> bool" where
  "owned ids d \<longleftrightarrow> (case d of (p, _, st) \<Rightarrow> p \<in> ids \<and> st \<noteq> NotOurs)"

text \<open>A signal to a child that is still alive when told to end is a request, not a kill.\<close>

definition gentle :: "pid \<times> signal \<times> process \<Rightarrow> bool" where
  "gentle d \<longleftrightarrow> (case d of (_, sig, st) \<Rightarrow> sig = SIGKILL \<longrightarrow> st \<noteq> Alive)"

lemma send_signal_effect:
  assumes "send_signal sig c k = (r, c', k')" and "child_ok c"
  shows "develops (\<lambda>d. owned {oc_pid c} d \<and> fst (snd d) = sig \<and> snd (snd d) = procs k (oc_pid c)) k k'"
    and "oc_pid c' = oc_pid c \<and> oc_role c' = oc_role c" and "oc_readers c' = oc_readers c" and "child_ok c'" and "procs k' = procs k"
    and "\<not> isl r \<Longrightarrow> oc_group c = Some (oc_pid c) \<and> c' = c \<and> procs k (oc_pid c) \<noteq> NotOurs"
  using assms
  by (auto simp: send_signal_def child_status_def waitid_def killpg_def child_ok_def develops_def owned_def
      split: option.splits process.splits errno.splits prod.splits)

lemma kill_and_reap_effect:
  assumes "kill_and_reap c k = (r, c', k')" and "child_ok c"
  shows "develops (\<lambda>d. owned {oc_pid c} d \<and> (procs k (oc_pid c) \<noteq> Alive \<longrightarrow> gentle d)) k k'"
    and "oc_pid c' = oc_pid c \<and> oc_role c' = oc_role c" and "oc_readers c' = oc_readers c" and "oc_group c' = None"
    and "\<not> isl r \<Longrightarrow> procs k' (oc_pid c) = NotOurs"
proof -
  obtain r1 c1 k1 where s: "send_signal SIGKILL c k = (r1, c1, k1)" by (metis prod_cases3)
  note eff = send_signal_effect [OF s assms(2)]
  obtain r2 where w: "wait_child (oc_pid c) k1 = (r2, k')" and c': "c' = c1\<lparr>oc_group := None\<rparr>"
    and r: "r = (case r2 of ReapLate \<Rightarrow> Inl (TimedOut ''child reap deadline'') | ReapFailed e \<Rightarrow> rbind r1 (\<lambda>_. Inl (Errno e)) | Reaped \<Rightarrow> r1)"
    using assms(1) eff(2) by (auto simp: kill_and_reap_def s Let_def split: prod.splits reap_result.splits)
  have "develops (\<lambda>d. owned {oc_pid c} d \<and> (procs k (oc_pid c) \<noteq> Alive \<longrightarrow> gentle d)) k k1"
    using eff(1) by (rule develops_weaken) (auto simp: gentle_def)
  then show "develops (\<lambda>d. owned {oc_pid c} d \<and> (procs k (oc_pid c) \<noteq> Alive \<longrightarrow> gentle d)) k k'"
    using wait_child_develops [OF w] develops_trans by blast
  show "oc_pid c' = oc_pid c \<and> oc_role c' = oc_role c" "oc_readers c' = oc_readers c" "oc_group c' = None" using eff by (simp_all add: c')
  assume "\<not> isl r"
  then have "r2 = Reaped" using r by (cases r2; cases r1) auto
  then show "procs k' (oc_pid c) = NotOurs" using wait_child_develops [OF w] by blast
qed

subsection \<open>Groups of children\<close>

definition same_children :: "owned_child list \<Rightarrow> owned_child list \<Rightarrow> bool" where
  "same_children cs cs' \<longleftrightarrow> map oc_pid cs' = map oc_pid cs \<and> map oc_role cs' = map oc_role cs
     \<and> map oc_readers cs' = map oc_readers cs"

definition pids :: "owned_child list \<Rightarrow> pid set" where
  "pids cs = set (map oc_pid cs)"

lemma signal_all_effect:
  assumes "signal_all SIGTERM cs k = (failed, cs', k')" and "list_all child_ok cs"
  shows "develops (\<lambda>d. owned (pids cs) d \<and> gentle d) k k' \<and> procs k' = procs k \<and> same_children cs cs' \<and> list_all child_ok cs'"
  using assms
proof (induction cs arbitrary: k failed cs' k')
  case Nil
  then show ?case by (simp add: same_children_def)
next
  case (Cons c cs)
  obtain r c1 k1 where s: "send_signal SIGTERM c k = (r, c1, k1)" by (metis prod_cases3)
  obtain f2 cs2 k2 where rest: "signal_all SIGTERM cs k1 = (f2, cs2, k2)" by (metis prod_cases3)
  have ok: "child_ok c" "list_all child_ok cs" using Cons.prems(2) by auto
  note eff = send_signal_effect [OF s ok(1)] and ih = Cons.IH [OF rest ok(2)]
  have "develops (\<lambda>d. owned (pids (c # cs)) d \<and> gentle d) k k1"
    using eff(1) by (rule develops_weaken) (auto simp: pids_def gentle_def owned_def)
  moreover have "develops (\<lambda>d. owned (pids (c # cs)) d \<and> gentle d) k1 k2"
    by (rule develops_weaken [OF ih [THEN conjunct1]]) (auto simp: pids_def owned_def)
  ultimately have "develops (\<lambda>d. owned (pids (c # cs)) d \<and> gentle d) k k2" by (rule develops_trans)
  then show ?case using Cons.prems(1) s rest eff ih by (auto simp: same_children_def)
qed

lemma await_exit_effect:
  "await_exit cs changes failed k = (late, k') \<Longrightarrow>
     develops P k k' \<and> (\<not> late \<longrightarrow> list_all (\<lambda>c. \<not> is_running k' c) cs)"
proof (induction changes arbitrary: failed k)
  case Nil
  then show ?case by (subst (asm) await_exit.simps) (auto simp: Let_def list_ex_iff list_all_iff split: if_splits)
next
  case (Cons ch changes)
  from Cons.prems consider "\<not> list_ex (is_running k) cs" "k' = k"
    | failed' where "await_exit cs changes failed' (apply_change ch k) = (late, k')"
    by (subst (asm) await_exit.simps) (auto simp: Let_def split: if_splits)
  then show ?case
  proof cases
    case 1
    then show ?thesis by (auto simp: list_ex_iff list_all_iff)
  next
    case 2
    then show ?thesis using Cons.IH develops_trans [OF apply_change_develops] by blast
  qed
qed

lemma reap_all_effect:
  assumes "reap_all cs k = (failed, cs', k')" and "list_all child_ok cs"
  shows "develops (\<lambda>d. owned (pids cs) d \<and> ((\<forall>c\<in>set cs. oc_group c \<noteq> None \<longrightarrow> procs k (oc_pid c) \<noteq> Alive) \<longrightarrow> gentle d)) k k'
    \<and> same_children cs cs' \<and> list_all (\<lambda>c. oc_group c = None) cs'
    \<and> (\<not> failed \<longrightarrow> (\<forall>c\<in>set cs. procs k' (oc_pid c) = NotOurs))"
  using assms
proof (induction cs arbitrary: k failed cs' k')
  case Nil
  then show ?case by (simp add: same_children_def)
next
  case (Cons c cs)
  obtain r c1 k1 where s: "kill_and_reap c k = (r, c1, k1)" by (metis prod_cases3)
  obtain f2 cs2 k2 where rest: "reap_all cs k1 = (f2, cs2, k2)" by (metis prod_cases3)
  have ok: "child_ok c" "list_all child_ok cs" using Cons.prems(2) by auto
  note eff = kill_and_reap_effect [OF s ok(1)] and ih = Cons.IH [OF rest ok(2)]
  let ?P = "\<lambda>d. owned (pids (c # cs)) d \<and> ((\<forall>c\<in>set (c # cs). oc_group c \<noteq> None \<longrightarrow> procs k (oc_pid c) \<noteq> Alive) \<longrightarrow> gentle d)"
  have "develops ?P k k1"
  proof (cases "oc_group c")
    case None
    then have "send_signal SIGKILL c k = (Inl (OtherIo ''child already released''), c, k)"
      by (cases c) (simp add: send_signal_def child_status_def)
    then have "wait_child (oc_pid c) k = (fst (wait_child (oc_pid c) k), k1)"
      using s None by (auto simp: kill_and_reap_def Let_def split: prod.splits reap_result.splits)
    then show ?thesis using wait_child_develops by blast
  next
    case (Some g)
    show ?thesis using eff(1) by (rule develops_weaken) (auto simp: Some pids_def owned_def)
  qed
  moreover have "develops ?P k1 k2"
  proof (rule develops_weaken [OF ih [THEN conjunct1]])
    fix d
    assume "owned (pids cs) d \<and> ((\<forall>c\<in>set cs. oc_group c \<noteq> None \<longrightarrow> procs k1 (oc_pid c) \<noteq> Alive) \<longrightarrow> gentle d)"
    then show "?P d" using develops_dead [OF eff(1)] by (auto simp: pids_def owned_def)
  qed
  ultimately have "develops ?P k k2" by (rule develops_trans)
  moreover have "procs k2 (oc_pid c) = NotOurs" if "\<not> isl r"
    using ih [THEN conjunct1] eff(5) [OF that] by (rule develops_not_ours)
  ultimately show ?case using Cons.prems(1) s rest eff ih by (auto simp: same_children_def)
qed

text \<open>Stopping children: the groups are given up, and when nothing was late all of them ended by themselves and are reaped.\<close>

lemma stop_children_effect:
  assumes "stop_children cs changes k = (late, cs', k')" and "list_all child_ok cs"
  shows "develops (\<lambda>d. owned (pids cs) d \<and> (\<not> late \<longrightarrow> gentle d)) k k' \<and> same_children cs cs'
    \<and> list_all (\<lambda>c. oc_group c = None) cs' \<and> (\<not> late \<longrightarrow> (\<forall>c\<in>set cs. procs k' (oc_pid c) = NotOurs))"
proof -
  obtain f1 cs1 k1 where s1: "signal_all SIGTERM cs k = (f1, cs1, k1)" by (metis prod_cases3)
  obtain f2 k2 where s2: "await_exit cs1 changes f1 k1 = (f2, k2)" by (metis prod.exhaust)
  obtain f3 where s3: "reap_all cs1 k2 = (f3, cs', k')" and late: "late = (f2 \<or> f3)"
    using assms(1) by (auto simp: stop_children_def s1 s2 split: prod.splits)
  note e1 = signal_all_effect [OF s1 assms(2)]
  then have ok: "list_all child_ok cs1" and same: "same_children cs cs1" by auto
  note e2 = await_exit_effect [OF s2, of "\<lambda>d. owned (pids cs) d \<and> (\<not> late \<longrightarrow> gentle d)"] and e3 = reap_all_effect [OF s3 ok]
  have ids: "pids cs1 = pids cs" using same by (simp add: same_children_def pids_def)
  have dead: "procs k2 (oc_pid c) \<noteq> Alive" if "\<not> late" "c \<in> set cs1" "oc_group c \<noteq> None" for c
  proof -
    have "\<not> is_running k2 c" using e2 that by (simp add: late list_all_iff)
    moreover have "oc_group c = Some (oc_pid c)" using ok that by (auto simp: list_all_iff child_ok_def)
    ultimately show ?thesis by (auto simp: is_running_def child_status_def waitid_def)
  qed
  have "develops (\<lambda>d. owned (pids cs) d \<and> (\<not> late \<longrightarrow> gentle d)) k k1"
    by (rule develops_weaken [OF e1 [THEN conjunct1]]) auto
  moreover have "develops (\<lambda>d. owned (pids cs) d \<and> (\<not> late \<longrightarrow> gentle d)) k2 k'"
    by (rule develops_weaken [OF e3 [THEN conjunct1]]) (use dead in \<open>auto simp: ids\<close>)
  ultimately have "develops (\<lambda>d. owned (pids cs) d \<and> (\<not> late \<longrightarrow> gentle d)) k k'"
    using e2 develops_trans by blast
  moreover have "oc_pid ` set cs = oc_pid ` set cs1" using ids by (simp add: pids_def)
  then have "\<forall>c\<in>set cs. procs k' (oc_pid c) = NotOurs" if "\<not> late"
    using e3 that late by (metis (no_types, lifting) imageE imageI)
  ultimately show ?thesis using e3 same by (auto simp: same_children_def)
qed

subsection \<open>A whole run\<close>

lemma drain_readers_effect:
  "drain_readers cs = (late, cs') \<Longrightarrow> map oc_pid cs' = map oc_pid cs \<and> map oc_role cs' = map oc_role cs
     \<and> map oc_group cs' = map oc_group cs \<and> list_all (\<lambda>c. oc_readers c = []) cs'"
  by (auto simp: drain_readers_def list_all_iff)

lemma spawn_child_ok: "spawn_child answer role = Inr c \<Longrightarrow> child_ok c \<and> oc_role c = role"
  by (auto simp: spawn_child_def rbind_Inr child_ok_def split: if_splits prod.splits)

lemma spawn_all_effect:
  "spawn_all w rs k = (failure, cs, k') \<Longrightarrow> list_all child_ok cs \<and> delivered k' = delivered k
     \<and> (failure = None \<longrightarrow> map oc_role cs = rs)"
proof (induction rs arbitrary: k failure cs k')
  case (Cons role rs)
  show ?case
  proof (cases "spawn_child (spawns w role) role")
    case (Inl error)
    then show ?thesis using Cons.prems by auto
  next
    case (Inr c)
    obtain cs' where rest: "spawn_all w rs (apply_change (spawn_change w role) (k\<lparr>procs := (procs k)(oc_pid c := Alive)\<rparr>)) = (failure, cs', k')"
      and cs: "cs = c # cs'" using Cons.prems by (auto simp: Inr split: prod.splits)
    show ?thesis using Cons.IH [OF rest] spawn_child_ok [OF Inr] by (simp add: cs apply_change_def)
  qed
qed simp

lemma spawn_all_failure: "spawn_all w rs k = (Some r, cs, k') \<Longrightarrow> \<exists>role error. r = SpawnFailed role error"
  by (induction rs arbitrary: k cs) (auto split: sum.splits prod.splits)

lemma watch_effect: "watch cs ws k = Some (r, k') \<Longrightarrow> delivered k' = delivered k"
proof (induction ws arbitrary: k)
  case Nil
  then show ?case by (subst (asm) watch.simps) (auto split: option.splits)
next
  case (Cons v ws)
  from Cons.prems show ?case
    by (subst (asm) watch.simps) (auto split: option.splits wake.splits dest!: Cons.IH simp: apply_change_def)
qed

lemma drop_released: "list_all (\<lambda>c. oc_group c = None) cs \<Longrightarrow> fold drop_child cs k = k"
  by (induction cs) (simp_all add: drop_child_def)

lemma map_list_all: "map f cs' = map f cs \<Longrightarrow> list_all (\<lambda>c. P (f c)) cs' = list_all (\<lambda>c. P (f c)) cs"
  by (metis (no_types, lifting) image_iff list.set_map list_all_iff)

text \<open>Stopping a group of children and joining their readers, as both phases of the shutdown do.\<close>

lemma stop_and_drain:
  assumes "stop_children cs changes k = (late, cs1, k')" and "drain_readers cs1 = (late', cs')" and "list_all child_ok cs"
  shows "develops (\<lambda>d. owned (pids cs) d \<and> (\<not> late \<longrightarrow> gentle d)) k k'"
    and "map oc_pid cs' = map oc_pid cs \<and> map oc_role cs' = map oc_role cs"
    and "list_all (\<lambda>c. oc_group c = None \<and> oc_readers c = []) cs'"
    and "\<not> late \<Longrightarrow> \<forall>p\<in>pids cs. procs k' p = NotOurs"
proof -
  note e = stop_children_effect [OF assms(1,3)] and d = drain_readers_effect [OF assms(2)]
  show "develops (\<lambda>d. owned (pids cs) d \<and> (\<not> late \<longrightarrow> gentle d)) k k'" using e by blast
  show "map oc_pid cs' = map oc_pid cs \<and> map oc_role cs' = map oc_role cs" using e d by (simp add: same_children_def)
  have "list_all (\<lambda>c. oc_group c = None) cs'" using e map_list_all [of oc_group cs' cs1 "\<lambda>g. g = None"] d by simp
  then show "list_all (\<lambda>c. oc_group c = None \<and> oc_readers c = []) cs'" using d by (simp add: list_all_iff)
  show "\<forall>p\<in>pids cs. procs k' p = NotOurs" if "\<not> late" using e that by (simp add: pids_def)
qed

text \<open>The services are stopped first; the collector gets its signals after them.\<close>

lemma shut_down_effect:
  assumes "shut_down w cs r k = (rep, cs', k')" and "list_all child_ok cs"
  shows "(\<exists>k1. develops (\<lambda>d. owned (pids (tl cs)) d \<and> (\<not> timed_out rep \<longrightarrow> gentle d)) k k1
      \<and> develops (\<lambda>d. owned (pids (take 1 cs)) d \<and> (\<not> timed_out rep \<longrightarrow> gentle d)) k1 k')
    \<and> map oc_pid cs' = map oc_pid cs \<and> map oc_role cs' = map oc_role cs
    \<and> list_all (\<lambda>c. oc_group c = None \<and> oc_readers c = []) cs'
    \<and> (\<not> timed_out rep \<longrightarrow> (\<forall>p\<in>pids cs. procs k' p = NotOurs))"
proof (cases cs)
  case Nil
  then show ?thesis using assms(1)
    by (auto simp: shut_down_def stop_services_def stop_collector_def Let_def pids_def intro: exI [of _ k])
next
  case (Cons c services)
  obtain l1 cs1 k1 where s1: "stop_children services (service_changes w) k = (l1, cs1, k1)" by (metis prod_cases3)
  obtain l2 cs2 where s2: "drain_readers cs1 = (l2, cs2)" by (metis prod.exhaust)
  let ?k1 = "apply_change (drain_change w) k1"
  obtain l3 cs3 k3 where s3: "stop_children [c] (collector_changes w) ?k1 = (l3, cs3, k3)" by (metis prod_cases3)
  obtain l4 cs4 where s4: "drain_readers cs3 = (l4, cs4)" by (metis prod.exhaust)
  have ok: "list_all child_ok services" "list_all child_ok [c]" using assms(2) by (simp_all add: Cons)
  note a = stop_and_drain [OF s1 s2 ok(1)] and b = stop_and_drain [OF s3 s4 ok(2)]
  have released: "list_all (\<lambda>c. oc_group c = None \<and> oc_readers c = []) (cs4 @ cs2)" using a(3) b(3) by simp
  then have "fold drop_child (cs4 @ cs2) k3 = k3" by (intro drop_released) (simp add: list_all_iff)
  then have out: "cs' = cs4 @ cs2" "k' = k3" "timed_out rep = ((l1 \<or> l2 \<or> log_late w) \<or> (l3 \<or> l4) \<or> writer_late w)"
    using assms(1) by (auto simp: shut_down_def stop_services_def stop_collector_def Cons s1 s2 s3 s4 Let_def)
  have "develops (\<lambda>d. owned (pids (tl cs)) d \<and> (\<not> timed_out rep \<longrightarrow> gentle d)) k ?k1"
    by (rule develops_trans [OF develops_weaken [OF a(1)]]) (auto simp: Cons out)
  moreover have late: "develops (\<lambda>d. owned (pids (take 1 cs)) d \<and> (\<not> timed_out rep \<longrightarrow> gentle d)) ?k1 k'"
    unfolding out(2) by (rule develops_weaken [OF b(1)]) (auto simp: Cons out)
  moreover have "\<forall>p\<in>pids cs. procs k' p = NotOurs" if "\<not> timed_out rep"
  proof -
    have "\<forall>p\<in>pids services. procs ?k1 p = NotOurs" using a(4) that develops_not_ours [OF apply_change_develops] by (simp add: out(3))
    then show ?thesis using b(4) that develops_not_ours [OF late] by (simp add: out Cons pids_def)
  qed
  ultimately show ?thesis using a(2) b(2) released by (auto simp: Cons out)
qed

lemma shut_down_signal: "shut_down w cs r k = (rep, cs', k') \<Longrightarrow> reason rep = SignalReason sig \<Longrightarrow> r = SignalReason sig"
  by (auto simp: shut_down_def final_reason_def Let_def split: prod.splits exit_reason.splits list.splits option.splits if_splits sum.splits wait_status.splits)

text \<open>
  C9. Whatever children, kernel and timers do, a run that ends signals only process groups led by
  its own children that nobody has reaped, the collector only after every service, and gives up every
  group and reader; and when it exits with code 0 it was told to stop, it had started all three, each
  ended by itself before it was killed, and each is reaped.
\<close>

theorem supervisor_cleans_up:
  assumes "supervise cfg w k = Some (Inr (rep, cs, k'))"
  shows "\<exists>ds es. delivered k' = delivered k @ ds @ es
      \<and> list_all (owned (pids (tl cs))) ds \<and> list_all (owned (pids (take 1 cs))) es
      \<and> list_all (\<lambda>c. oc_group c = None \<and> oc_readers c = []) cs
      \<and> (exit_code rep = 0 \<longrightarrow> (\<exists>sig. reason rep = SignalReason sig) \<and> map oc_role cs = roles
           \<and> list_all gentle (ds @ es) \<and> (\<forall>p\<in>pids cs. procs k' p = NotOurs))"
proof -
  obtain failure cs0 k0 where sp: "spawn_all w roles k = (failure, cs0, k0)" by (metis prod_cases3)
  note spawned = spawn_all_effect [OF sp]
  obtain r k1 where down: "shut_down w cs0 r k1 = (rep, cs, k')" and d1: "delivered k1 = delivered k"
    and sig: "\<And>sig. r = SignalReason sig \<Longrightarrow> failure = None"
  proof (cases failure)
    case None
    then obtain r k1 where "watch cs0 (wakes w) k0 = Some (r, k1)" "shut_down w cs0 r k1 = (rep, cs, k')"
      using assms by (auto simp: supervise_def sp split: if_splits option.splits)
    then show ?thesis using that spawned watch_effect None by metis
  next
    case (Some r)
    have "shut_down w cs0 r k0 = (rep, cs, k')" "\<And>sig. r \<noteq> SignalReason sig"
      using assms spawn_all_failure [OF sp [unfolded Some]] by (auto simp: supervise_def sp Some split: if_splits option.splits)
    then show ?thesis using that spawned by metis
  qed
  note eff = shut_down_effect [OF down spawned [THEN conjunct1]]
  then obtain k2 where e: "develops (\<lambda>d. owned (pids (tl cs0)) d \<and> (\<not> timed_out rep \<longrightarrow> gentle d)) k1 k2"
    "develops (\<lambda>d. owned (pids (take 1 cs0)) d \<and> (\<not> timed_out rep \<longrightarrow> gentle d)) k2 k'" by (elim conjE exE)
  obtain ds where ds: "delivered k2 = delivered k1 @ ds"
    "list_all (\<lambda>d. owned (pids (tl cs0)) d \<and> (\<not> timed_out rep \<longrightarrow> gentle d)) ds" using develops_delivered [OF e(1)] by (elim exE conjE)
  obtain es where es: "delivered k' = delivered k2 @ es"
    "list_all (\<lambda>d. owned (pids (take 1 cs0)) d \<and> (\<not> timed_out rep \<longrightarrow> gentle d)) es" using develops_delivered [OF e(2)] by (elim exE conjE)
  from ds(1) es(1) have del: "delivered k' = delivered k @ ds @ es" by (simp add: d1)
  have ids: "pids (tl cs) = pids (tl cs0)" "pids (take 1 cs) = pids (take 1 cs0)" "pids cs = pids cs0"
    using eff by (simp_all add: pids_def map_tl take_map [symmetric])
  have zero: "(\<exists>sig. reason rep = SignalReason sig) \<and> \<not> timed_out rep" if "exit_code rep = 0"
    using that by (auto simp: exit_code_def split: exit_reason.splits if_splits)
  have "map oc_role cs = roles" if "reason rep = SignalReason sig" for sig
    using shut_down_signal [OF down that] sig spawned eff by auto
  with zero have "exit_code rep = 0 \<longrightarrow> (\<exists>sig. reason rep = SignalReason sig) \<and> map oc_role cs = roles
      \<and> list_all gentle (ds @ es) \<and> (\<forall>p\<in>pids cs. procs k' p = NotOurs)"
    using ds(2) es(2) eff ids(3) by (auto simp: list_all_iff)
  moreover have "list_all (owned (pids (tl cs))) ds" "list_all (owned (pids (take 1 cs))) es"
    using ds(2) es(2) unfolding ids(1,2) by (simp_all add: list_all_iff)
  moreover have "list_all (\<lambda>c. oc_group c = None \<and> oc_readers c = []) cs" using eff by blast
  ultimately show ?thesis using del by - (rule exI [of _ ds], rule exI [of _ es], simp)
qed

definition calm_world :: surroundings where
  "calm_world = \<lparr>setup_error = None,
     spawns = (\<lambda>role n. if n = 0 then Inl (Errno ETXTBSY)
       else Inr (Some (if role = ''collector'' then 11 else if role = ''backend'' then 12 else 13), [ReaderDone, ReaderDone])),
     spawn_change = (\<lambda>_. []), wakes = [Changed [], Terminated],
     service_changes = [[(12, Zombie (Exited 0))], [(13, Zombie (Exited 0))]], drain_change = [],
     collector_changes = [[(11, Zombie (Signaled SIGTERM))]], log_late = False, writer_late = False\<rparr>"

definition fresh_kernel :: kernel where
  "fresh_kernel = \<lparr>procs = (\<lambda>_. NotOurs), refusal = (\<lambda>_. None), reaping = (\<lambda>_. (Reaped, [])), delivered = []\<rparr>"

definition usual_config :: supervisor_config where
  "usual_config = \<lparr>shutdown_timeout_ns = 20 * 10 ^ 9, log_capacity = 128\<rparr>"

lemma calm_spawn: "spawn_child (spawns calm_world role) role =
    Inr \<lparr>oc_role = role, oc_pid = (if role = ''collector'' then 11 else if role = ''backend'' then 12 else 13),
      oc_group = Some (if role = ''collector'' then 11 else if role = ''backend'' then 12 else 13), oc_readers = [ReaderDone, ReaderDone]\<rparr>"
  by (simp add: spawn_child_def calm_world_def spawn_loop.simps SPAWN_BUSY_ATTEMPTS_def)

lemma calm_fields:
  "setup_error calm_world = None" "spawn_change calm_world role = []" "wakes calm_world = [Changed [], Terminated]"
  "service_changes calm_world = [[(12, Zombie (Exited 0))], [(13, Zombie (Exited 0))]]" "drain_change calm_world = []"
  "collector_changes calm_world = [[(11, Zombie (Signaled SIGTERM))]]" "\<not> log_late calm_world" "\<not> writer_late calm_world"
  by (simp_all add: calm_world_def)

lemmas run_defs = watch.simps child_status_def waitid_def apply_change_def shut_down_def stop_services_def stop_collector_def
  stop_children_def send_signal_def killpg_def await_exit.simps is_running_def status_lost_def kill_and_reap_def wait_child_def
  drain_readers_def final_reason_def drop_child_def exit_code_def Let_def

text \<open>C9, for a stop by SIGTERM after every program was busy at its first start.\<close>

theorem supervisor_cleans_up_witness:
  "\<exists>rep cs k'. supervise usual_config calm_world fresh_kernel = Some (Inr (rep, cs, k')) \<and> exit_code rep = 0
     \<and> map oc_role cs = roles \<and> length (delivered k') = 6 \<and> (\<forall>p\<in>{11, 12, 13}. procs k' p = NotOurs)"
proof -
  have run: "map_option (map_sum id (\<lambda>(rep, cs, k'). (exit_code rep, map oc_pid cs, length (delivered k'))))
      (supervise usual_config calm_world fresh_kernel) = Some (Inr (0, [11, 12, 13], 6))"
    by (simp add: supervise_def config_valid_def usual_config_def calm_spawn calm_fields roles_def fresh_kernel_def run_defs)
  then obtain z where z: "supervise usual_config calm_world fresh_kernel = Some z"
    "map_sum id (\<lambda>(rep, cs, k'). (exit_code rep, map oc_pid cs, length (delivered k'))) z = Inr (0, [11, 12, 13], 6)"
    by auto
  then obtain rep cs k' where s: "supervise usual_config calm_world fresh_kernel = Some (Inr (rep, cs, k'))"
    and zero: "exit_code rep = 0" and ids: "map oc_pid cs = [11, 12, 13]" and n: "length (delivered k') = 6"
    by (cases z) auto
  have "set (map oc_pid cs) = {11, 12, 13}" using ids by auto
  then have "pids cs = {11, 12, 13}" by (simp add: pids_def)
  then show ?thesis using supervisor_cleans_up [OF s] s zero n by auto
qed

section \<open>Attempts to start a program\<close>

text \<open>
  A program is tried at most ten times, and again only after the kernel said that its file is busy;
  the child or error reported is that of the last attempt.
\<close>

theorem spawn_attempts_bounded:
  "\<exists>n < 10. spawn_loop answer 0 = (n, answer n) \<and> (\<forall>i < n. answer i = Inl (Errno ETXTBSY))
     \<and> (answer n = Inl (Errno ETXTBSY) \<longrightarrow> n = 9)"
proof -
  have "\<exists>n < 10. spawn_loop answer a = (n, answer n) \<and> (\<forall>i < n. answer i = Inl (Errno ETXTBSY)) \<and> (answer n = Inl (Errno ETXTBSY) \<longrightarrow> n = 9)"
    if "a < 10" "\<forall>i < a. answer i = Inl (Errno ETXTBSY)" for a
    using that
  proof (induction answer a rule: spawn_loop.induct)
    case (1 answer a)
    show ?case
    proof (cases "answer a = Inl (Errno ETXTBSY) \<and> a + 1 < 10")
      case True
      then have "spawn_loop answer a = spawn_loop answer (a + 1)" by (subst spawn_loop.simps) (simp add: SPAWN_BUSY_ATTEMPTS_def)
      moreover have "\<forall>i < a + 1. answer i = Inl (Errno ETXTBSY)" using 1 True by (auto simp: less_Suc_eq)
      ultimately show ?thesis using 1 True by (simp add: SPAWN_BUSY_ATTEMPTS_def)
    next
      case False
      then have "spawn_loop answer a = (a, answer a)"
        by (subst spawn_loop.simps) (auto simp: SPAWN_BUSY_ATTEMPTS_def split: sum.splits)
      then show ?thesis using 1 False by (intro exI [of _ a]) auto
    qed
  qed
  then show ?thesis by simp
qed

end
