(* ===== verification/Task_Supervisor.thy ===== *)
theory Task_Supervisor
  imports Prelude
begin

text \<open>
  The supervisor of the backend's required tasks (\<open>TaskSupervisor\<close> in \<open>quip-dashboard/src/lifecycle.rs\<close>): it waits for
  a signal or for a task to end, cancels all, drains them, aborts what is late, and closes the store,
  all before one deadline. Times are nanoseconds; when tasks and the store finish is an argument.
\<close>

section \<open>Tasks\<close>

text \<open>How a task ends: with its result, by a panic, or cancelled, the last two with the text of the join error.\<close>

datatype task_end = Returned "string + unit" | Panicked string | Cancelled string

text \<open>A task ends by itself at a time, or some delay after it is aborted.\<close>

record task =
  tk_name :: string
  tk_end :: task_end
  tk_at :: nat
  tk_abort_delay :: nat

text \<open>The message of an ended task, and the names handed to \<open>on_exit\<close>.\<close>

definition task_failure :: "bool \<Rightarrow> task \<Rightarrow> string \<times> string list" where
  "task_failure unexpected t = (case tk_end t of
       Returned (Inr _) \<Rightarrow> (''required task '' @ tk_name t @ '' exited unexpectedly'', [tk_name t])
     | Returned (Inl e) \<Rightarrow> (''required task '' @ tk_name t @ '' failed: '' @ e, [tk_name t])
     | Panicked e \<Rightarrow> (''required task '' @ tk_name t @ '' could not be joined: '' @ e, [tk_name t])
     | Cancelled e \<Rightarrow> (''required task '' @ tk_name t @ '' could not be joined: '' @ e, if unexpected then [tk_name t] else []))"

definition get_or_insert :: "string option \<Rightarrow> string \<Rightarrow> string option" where
  "get_or_insert failure m = (case failure of Some f \<Rightarrow> Some f | None \<Rightarrow> Some m)"

section \<open>Waiting and draining\<close>

text \<open>What ends the wait: a task, preferred over the signal, or the signal.\<close>

datatype first_event = TaskEnded task | SignalEnded "string + unit"

definition wait_first :: "first_event \<Rightarrow> string option \<times> string list" where
  "wait_first ev = (case ev of
       TaskEnded t \<Rightarrow> (case task_failure True t of (m, exits) \<Rightarrow> (Some m, exits))
     | SignalEnded (Inl e) \<Rightarrow> (Some e, [])
     | SignalEnded (Inr _) \<Rightarrow> (None, []))"

fun drain_tasks :: "task list \<Rightarrow> string option \<times> string list \<Rightarrow> string option \<times> string list" where
  "drain_tasks [] s = s"
| "drain_tasks (t # ts) (failure, exits) = (case tk_end t of
       Returned (Inr _) \<Rightarrow> drain_tasks ts (failure, exits)
     | _ \<Rightarrow> (case task_failure False t of (m, new) \<Rightarrow> drain_tasks ts (get_or_insert failure m, exits @ new)))"

definition reserve_time :: "nat \<Rightarrow> nat" where
  "reserve_time budget = min (budget div 4) (2 * 10 ^ 9)"

text \<open>The store: how long closing takes and what it returns.\<close>

record closing =
  cl_takes :: nat
  cl_result :: "string + unit"

record shutdown =
  sd_failure :: "string option"
  sd_exits :: "string list"
  sd_close_started :: "nat option"
  sd_finished :: nat

definition close_store :: "nat \<Rightarrow> nat \<Rightarrow> closing \<Rightarrow> string option \<Rightarrow> string list \<Rightarrow> shutdown" where
  "close_store at deadline c failure exits =
     (if at + cl_takes c \<le> deadline
      then \<lparr>sd_failure = (case cl_result c of Inr _ \<Rightarrow> failure | Inl e \<Rightarrow> get_or_insert failure (''store close: '' @ e)),
        sd_exits = exits, sd_close_started = Some at, sd_finished = at + cl_takes c\<rparr>
      else \<lparr>sd_failure = get_or_insert failure ''store close exceeded shutdown deadline'',
        sd_exits = exits, sd_close_started = Some at, sd_finished = deadline\<rparr>)"

definition last_time :: "nat \<Rightarrow> nat list \<Rightarrow> nat" where
  "last_time start ts = fold max ts start"

text \<open>
  \<open>run\<close>, from the cancellation at time \<open>start\<close>; \<open>tasks\<close> are those that have not ended. They are joined in the order
  in which they end, until the drain's limit; the others are aborted and joined until the deadline.
\<close>

definition run_shutdown :: "first_event \<Rightarrow> task list \<Rightarrow> nat \<Rightarrow> nat \<Rightarrow> closing \<Rightarrow> shutdown" where
  "run_shutdown ev tasks start budget c =
     (let deadline = start + budget; limit = deadline - reserve_time budget;
          joined = filter (\<lambda>t. tk_at t \<le> limit) (sort_key tk_at tasks);
          late = filter (\<lambda>t. limit < tk_at t) tasks;
          (failure, exits) = drain_tasks joined (wait_first ev)
      in if late = [] then close_store (last_time start (map tk_at joined)) deadline c failure exits
         else let failure = get_or_insert failure ''required task drain exceeded shutdown deadline'';
                  aborted = last_time limit (map (\<lambda>t. limit + tk_abort_delay t) late)
              in if deadline < aborted
                 then \<lparr>sd_failure = failure, sd_exits = exits, sd_close_started = None, sd_finished = deadline\<rparr>
                 else close_store aborted deadline c failure exits)"

section \<open>Reference\<close>

text \<open>All failures of a shutdown, in the order in which they are seen.\<close>

definition first_messages :: "first_event \<Rightarrow> string list" where
  "first_messages ev = (case fst (wait_first ev) of None \<Rightarrow> [] | Some m \<Rightarrow> [m])"

definition bad_end :: "task \<Rightarrow> bool" where
  "bad_end t \<longleftrightarrow> tk_end t \<noteq> Returned (Inr ())"

definition task_messages :: "task list \<Rightarrow> string list" where
  "task_messages ts = map (\<lambda>t. fst (task_failure False t)) (filter bad_end ts)"

definition first_of :: "string list \<Rightarrow> string option" where
  "first_of ms = (case ms of [] \<Rightarrow> None | m # _ \<Rightarrow> Some m)"

lemma get_or_insert_first: "get_or_insert (first_of ms) m = first_of (ms @ [m])"
  by (cases ms) (simp_all add: get_or_insert_def first_of_def)

lemma first_of_append: "first_of (ms @ ns) = (case first_of ms of Some m \<Rightarrow> Some m | None \<Rightarrow> first_of ns)"
  by (cases ms) (simp_all add: first_of_def)

lemma drain_step:
  "drain_tasks (t # ts) (failure, exits) =
     (if bad_end t then drain_tasks ts (get_or_insert failure (fst (task_failure False t)), exits @ snd (task_failure False t))
      else drain_tasks ts (failure, exits))"
  by (auto simp: bad_end_def split: task_end.splits sum.splits prod.splits)

lemma drain_tasks_spec:
  "drain_tasks ts (first_of ms, exits) =
     (first_of (ms @ task_messages ts), exits @ concat (map (\<lambda>t. snd (task_failure False t)) (filter bad_end ts)))"
proof (induction ts arbitrary: ms exits)
  case (Cons t ts)
  show ?case
    by (subst drain_step) (simp add: get_or_insert_first Cons.IH task_messages_def)
qed (simp add: task_messages_def)

lemma wait_first_spec: "wait_first ev = (first_of (first_messages ev), snd (wait_first ev))"
  by (auto simp: first_messages_def first_of_def split: option.splits) (metis prod.collapse)+

lemma last_time_ge: "start \<le> last_time start ts \<and> (\<forall>t\<in>set ts. t \<le> last_time start ts)"
  unfolding last_time_def by (induction ts arbitrary: start) force+

lemma last_time_le: "start \<le> b \<Longrightarrow> (\<And>t. t \<in> set ts \<Longrightarrow> t \<le> b) \<Longrightarrow> last_time start ts \<le> b"
  unfolding last_time_def by (induction ts arbitrary: start) auto

lemma close_store_spec:
  assumes "at \<le> deadline"
  shows "sd_finished (close_store at deadline c failure exits) \<le> deadline"
    and "sd_close_started (close_store at deadline c failure exits) = Some at"
    and "(sd_failure (close_store at deadline c failure exits) = None)
      = (failure = None \<and> cl_result c = Inr () \<and> at + cl_takes c \<le> deadline)"
    and "failure = Some m \<Longrightarrow> sd_failure (close_store at deadline c failure exits) = Some m"
    and "sd_exits (close_store at deadline c failure exits) = exits"
  using assms by (auto simp: close_store_def get_or_insert_def split: sum.splits option.splits)

lemma reserve_le: "reserve_time budget \<le> budget"
  by (simp add: reserve_time_def)

lemma last_time_set: "set ts = set us \<Longrightarrow> last_time start ts = last_time start us"
  by (metis last_time_ge last_time_le order_antisym)

text \<open>The failures seen before the drain ends, and what the drain reports.\<close>

definition seen_failures :: "first_event \<Rightarrow> task list \<Rightarrow> nat \<Rightarrow> string list" where
  "seen_failures ev tasks limit = first_messages ev @ task_messages (filter (\<lambda>t. tk_at t \<le> limit) (sort_key tk_at tasks))"

lemma seen_failures_None:
  "(seen_failures ev tasks limit = []) \<longleftrightarrow> ev = SignalEnded (Inr ()) \<and> (\<forall>t\<in>set tasks. tk_at t \<le> limit \<longrightarrow> \<not> bad_end t)"
proof -
  have "(first_messages ev = []) \<longleftrightarrow> ev = SignalEnded (Inr ())"
    by (auto simp: first_messages_def wait_first_def split: first_event.splits sum.splits prod.splits option.splits)
  then show ?thesis by (auto simp: seen_failures_def task_messages_def filter_empty_conv)
qed

lemma drained:
  "drain_tasks (filter (\<lambda>t. tk_at t \<le> limit) (sort_key tk_at tasks)) (wait_first ev) =
     (first_of (seen_failures ev tasks limit), snd (drain_tasks (filter (\<lambda>t. tk_at t \<le> limit) (sort_key tk_at tasks)) (wait_first ev)))"
  by (subst (1 2) wait_first_spec) (simp add: drain_tasks_spec seen_failures_def)

text \<open>
  C11. A shutdown ends within its budget whatever tasks and store do, the store is closed only when every
  task was joined, and the first failure seen is the one reported: the process stops without an error
  exactly when it was told to, every task returned without an error before the drain's limit, and the
  store closed in time.
\<close>

theorem shutdown_keeps_deadline:
  fixes ev tasks start budget c
  defines "r \<equiv> run_shutdown ev tasks start budget c" and "limit \<equiv> start + budget - reserve_time budget"
  shows "sd_finished r \<le> start + budget
    \<and> (case sd_close_started r of
         Some t \<Rightarrow> t \<le> start + budget \<and> (\<forall>k\<in>set tasks. tk_at k \<le> t \<or> limit + tk_abort_delay k \<le> t)
       | None \<Rightarrow> sd_failure r \<noteq> None)
    \<and> (seen_failures ev tasks limit \<noteq> [] \<longrightarrow> sd_failure r = Some (hd (seen_failures ev tasks limit)))
    \<and> (sd_failure r = None \<longleftrightarrow> ev = SignalEnded (Inr ())
         \<and> (\<forall>k\<in>set tasks. tk_end k = Returned (Inr ()) \<and> tk_at k \<le> limit)
         \<and> cl_result c = Inr () \<and> last_time start (map tk_at tasks) + cl_takes c \<le> start + budget)"
proof -
  let ?joined = "filter (\<lambda>t. tk_at t \<le> limit) (sort_key tk_at tasks)" and ?late = "filter (\<lambda>t. limit < tk_at t) tasks"
  let ?d = "start + budget" and ?seen = "seen_failures ev tasks limit"
  obtain exits where dr: "drain_tasks ?joined (wait_first ev) = (first_of ?seen, exits)" using drained by (metis prod.collapse)
  have limit: "start \<le> limit" "limit \<le> ?d" using reserve_le [of budget] by (simp_all add: limit_def)
  have hd: "first_of ?seen = Some (hd ?seen)" if "?seen \<noteq> []" using that by (cases ?seen) (simp_all add: first_of_def)
  have none: "(first_of ?seen = None) = (?seen = [])" by (cases ?seen) (simp_all add: first_of_def)
  show ?thesis
  proof (cases "?late = []")
    case True
    let ?at = "last_time start (map tk_at ?joined)"
    have all: "\<forall>k\<in>set tasks. tk_at k \<le> limit" using True by (auto simp: filter_empty_conv not_less)
    then have "filter (\<lambda>t. tk_at t \<le> limit) (sort_key tk_at tasks) = sort_key tk_at tasks" by (simp add: filter_True)
    then have at: "?at = last_time start (map tk_at tasks)" by (simp add: last_time_set)
    have "?at \<le> limit" unfolding at by (rule last_time_le [OF limit(1)]) (use all in auto)
    then have le: "?at \<le> ?d" using limit(2) by simp
    have r: "r = close_store ?at ?d c (first_of ?seen) exits"
      using True dr by (simp add: r_def run_shutdown_def limit_def Let_def)
    have "\<forall>k\<in>set tasks. tk_at k \<le> ?at" using last_time_ge [of start "map tk_at tasks"] unfolding at by simp
    then show ?thesis
      using close_store_spec [OF le, where c = c and failure = "first_of ?seen" and exits = exits] le all hd none seen_failures_None [of ev tasks limit]
      unfolding r at by (auto simp: bad_end_def)
  next
    case False
    let ?fail = "get_or_insert (first_of ?seen) ''required task drain exceeded shutdown deadline''"
    let ?at = "last_time limit (map (\<lambda>t. limit + tk_abort_delay t) ?late)"
    obtain m where m: "?fail = Some m" and seen: "?seen \<noteq> [] \<Longrightarrow> m = hd ?seen"
      using hd by (cases "first_of ?seen") (auto simp: get_or_insert_def none)
    have notall: "\<not> (\<forall>k\<in>set tasks. tk_at k \<le> limit)" using False by (auto simp: filter_empty_conv not_less)
    have r: "r = (if ?d < ?at then \<lparr>sd_failure = Some m, sd_exits = exits, sd_close_started = None, sd_finished = ?d\<rparr>
        else close_store ?at ?d c (Some m) exits)"
      using False dr m by (simp add: r_def run_shutdown_def limit_def Let_def)
    have joined: "tk_at k \<le> ?at \<or> limit + tk_abort_delay k \<le> ?at" if "k \<in> set tasks" for k
      using that last_time_ge [of limit "map (\<lambda>t. limit + tk_abort_delay t) ?late"] by (cases "limit < tk_at k") auto
    show ?thesis
    proof (cases "?d < ?at")
      case True
      then show ?thesis using notall seen unfolding r by auto
    next
      case False
      then have le: "?at \<le> ?d" by simp
      have "sd_failure r = Some m" using close_store_spec(4) [OF le] False by (simp add: r)
      moreover have "sd_close_started r = Some ?at" "sd_finished r \<le> ?d" using close_store_spec(1,2) [OF le] False by (simp_all add: r)
      ultimately show ?thesis using notall seen le joined by auto
    qed
  qed
qed

text \<open>C11, for a task that hangs and is aborted, and one that ended by itself.\<close>

theorem shutdown_keeps_deadline_witness:
  "sd_failure (run_shutdown (TaskEnded \<lparr>tk_name = ''http'', tk_end = Returned (Inr ()), tk_at = 5, tk_abort_delay = 0\<rparr>)
      [\<lparr>tk_name = ''miner'', tk_end = Returned (Inr ()), tk_at = 1000, tk_abort_delay = 3\<rparr>] 10 100 \<lparr>cl_takes = 2, cl_result = Inr ()\<rparr>)
   = Some ''required task http exited unexpectedly''"
proof -
  let ?ev = "TaskEnded \<lparr>tk_name = ''http'', tk_end = Returned (Inr ()), tk_at = 5, tk_abort_delay = 0\<rparr>"
  let ?ts = "[\<lparr>tk_name = ''miner'', tk_end = Returned (Inr ()), tk_at = 1000, tk_abort_delay = 3\<rparr>]"
  have seen: "seen_failures ?ev ?ts n = [''required task http exited unexpectedly'']" for n
    by (simp add: seen_failures_def first_messages_def wait_first_def task_failure_def task_messages_def bad_end_def)
  show ?thesis
    using shutdown_keeps_deadline [of ?ev ?ts 10 100 "\<lparr>cl_takes = 2, cl_result = Inr ()\<rparr>"] by (simp only: seen) simp
qed

end
