(* ===== verification/Lifecycle.thy ===== *)
theory Lifecycle
  imports Jobs Miner_Store Miner_Parse
begin

text \<open>
  The backend's lifecycle (\<open>quip-dashboard/src/lifecycle.rs\<close>): what a poll of the local miner persists, the
  catch-up of mining submissions, the one-time device-access backfill, the coverage summary, and the
  supervisor of the required tasks. Jobs are those of the indexer, over the registry tables and the
  observability snapshot; at every await another task may change them.
\<close>

section \<open>The observability snapshot\<close>

datatype backfill_decision = Triggered | NotNeeded

record plugin_coverage =
  pc_low :: "decimal_string option"
  pc_high :: "decimal_string option"
  pc_gap_blocks :: u64
  pc_pruned_floor :: "decimal_string option"
  pc_generation :: u64

record backfill_progress =
  bp_queue_depth :: u64
  bp_coverage :: "(string \<times> plugin_coverage) list"
  bp_difficulty_data_start_block :: "decimal_string option"

text \<open>Counters of a miner as the model has them: 64-bit words.\<close>

record stats_record =
  st_heads_observed :: u64
  st_contexts_dispatched :: u64
  st_results_received :: u64
  st_proofs_submitted :: u64
  st_stale_drops :: u64
  st_submission_errors :: u64
  st_duplicate_result_drops :: u64

record mode_record = stats_record +
  mo_miners :: "(string \<times> string) list"

record observability =
  ob_chain_head_from_node :: "decimal_string option"
  ob_last_status_fetch_at :: string
  ob_last_block_insert_at :: "string option"
  ob_last_substrate_event_at :: "string option"
  ob_best_block_height :: "decimal_string option"
  ob_finalized_block_height :: "decimal_string option"
  ob_chain_connected :: bool
  ob_node_syncing :: "bool option"
  ob_node_sync_current_block :: "decimal_string option option"
  ob_node_sync_highest_block :: "decimal_string option option"
  ob_self_identified :: "bool option"
  ob_miner_stats :: "stats_record option"
  ob_modes :: "(string \<times> mode_record) list option"
  ob_indexer :: "backfill_progress option"
  ob_device_access_time_backfill :: "backfill_decision option"

definition new_observability :: observability where
  "new_observability = \<lparr>ob_chain_head_from_node = None, ob_last_status_fetch_at = [], ob_last_block_insert_at = None,
     ob_last_substrate_event_at = None, ob_best_block_height = None, ob_finalized_block_height = None,
     ob_chain_connected = False, ob_node_syncing = None, ob_node_sync_current_block = None, ob_node_sync_highest_block = None,
     ob_self_identified = Some False, ob_miner_stats = None, ob_modes = None, ob_indexer = None,
     ob_device_access_time_backfill = None\<rparr>"

text \<open>The stored document: one that reads back, one of an older format, or one that exceeds the bounds of the API.\<close>

datatype 'a document = Readable 'a | Malformed | Refused store_error

section \<open>Jobs of the lifecycle\<close>

datatype persist_error = PStore store_error | PInvalid | PUpstream miner_error

record life_world =
  lw_db :: miner_db
  lw_observability :: "observability document option"
  lw_tick :: nat

record life_env =
  le_engine :: engine
  le_accepts :: "submission_record \<Rightarrow> store_error + unit"
  le_interfere :: "nat \<Rightarrow> life_world \<Rightarrow> life_world"

type_synonym 'a ljob = "(life_world, persist_error, 'a) ejob"

definition lawait :: "life_env \<Rightarrow> life_world \<Rightarrow> life_world" where
  "lawait env w = (le_interfere env (lw_tick w) w)\<lparr>lw_tick := Suc (lw_tick w)\<rparr>"

definition ltransact :: "life_env \<Rightarrow> 'a mtx \<Rightarrow> 'a ljob" where
  "ltransact env f w0 = (let w = lawait env w0 in case f (lw_db w) of
       Inl e \<Rightarrow> (Inl (PStore e), w) | Inr (x, db) \<Rightarrow> (Inr x, w\<lparr>lw_db := db\<rparr>))"

definition lquery :: "life_env \<Rightarrow> (miner_db \<Rightarrow> store_error + 'a) \<Rightarrow> 'a ljob" where
  "lquery env q w0 = (let w = lawait env w0 in ((case q (lw_db w) of Inl e \<Rightarrow> Inl (PStore e) | Inr x \<Rightarrow> Inr x), w))"

text \<open>A value of the model that may not fit is an error of the projection.\<close>

definition projected :: "'a option \<Rightarrow> 'a ljob" where
  "projected v = liftj (ok_or PInvalid v)"

definition get_indexer_observability :: "life_env \<Rightarrow> observability option ljob" where
  "get_indexer_observability env w0 = (let w = lawait env w0 in case lw_observability w of
       None \<Rightarrow> (Inr None, w)
     | Some (Readable v) \<Rightarrow> (Inr (Some v), w)
     | Some Malformed \<Rightarrow> (Inr None, w)
     | Some (Refused e) \<Rightarrow> (Inl (PStore e), w))"

definition set_indexer_observability :: "life_env \<Rightarrow> observability \<Rightarrow> unit ljob" where
  "set_indexer_observability env v w0 = (case ltransact env (bound_write (\<lambda>db. Inr ((), db))) w0 of
       (Inl e, w) \<Rightarrow> (Inl e, w)
     | (Inr _, w) \<Rightarrow> (Inr (), w\<lparr>lw_observability := Some (Readable v)\<rparr>))"

section \<open>Projections of the miner's answers\<close>

text \<open>
  The parser keeps 64-bit signed numbers and unchecked texts; the model has unsigned numbers, decimals
  and hashes. The projection goes through JSON, so a number keeps its value or is refused.
\<close>

definition project_u64 :: "int \<Rightarrow> u64 option" where
  "project_u64 n = (if 0 \<le> n \<and> n < 2 ^ 64 then Some (word_of_int n) else None)"

definition project_u32 :: "int \<Rightarrow> u32 option" where
  "project_u32 n = (if 0 \<le> n \<and> n < 2 ^ 32 then Some (word_of_int n) else None)"

definition project_decimal :: "string \<Rightarrow> decimal_string option" where
  "project_decimal s = (case decimal_from_str s of Inl _ \<Rightarrow> None | Inr d \<Rightarrow> Some d)"

definition project_hash :: "string \<Rightarrow> block_hash option" where
  "project_hash s = (case hash_from_str s of Inl _ \<Rightarrow> None | Inr h \<Rightarrow> Some h)"

definition project_opt :: "('a \<Rightarrow> 'b option) \<Rightarrow> 'a option \<Rightarrow> 'b option option" where
  "project_opt f v = (case v of None \<Rightarrow> Some None | Some x \<Rightarrow> map_option Some (f x))"

definition stats_numbers :: "'a miner_stats_scheme \<Rightarrow> int list" where
  "stats_numbers s = [heads_observed s, contexts_dispatched s, results_received s, proofs_submitted s, stale_drops s,
     submission_errors s, duplicate_result_drops s]"

definition project_stats :: "'a miner_stats_scheme \<Rightarrow> stats_record option" where
  "project_stats s =
     Option.bind (project_u64 (heads_observed s)) (\<lambda>heads.
     Option.bind (project_u64 (contexts_dispatched s)) (\<lambda>contexts.
     Option.bind (project_u64 (results_received s)) (\<lambda>results.
     Option.bind (project_u64 (proofs_submitted s)) (\<lambda>proofs.
     Option.bind (project_u64 (stale_drops s)) (\<lambda>stale.
     Option.bind (project_u64 (submission_errors s)) (\<lambda>errors.
     Option.bind (project_u64 (duplicate_result_drops s)) (\<lambda>duplicates.
     Some \<lparr>st_heads_observed = heads, st_contexts_dispatched = contexts, st_results_received = results,
       st_proofs_submitted = proofs, st_stale_drops = stale, st_submission_errors = errors,
       st_duplicate_result_drops = duplicates\<rparr>)))))))"

definition project_handle :: "miner_handle \<Rightarrow> string \<times> string" where
  "project_handle h = (mh_id h, category_str (mh_miner_type h))"

definition project_mode :: "mode_breakdown \<Rightarrow> mode_record option" where
  "project_mode m = map_option (\<lambda>s. stats_record.extend s \<lparr>mo_miners = map project_handle (mb_miners m)\<rparr>) (project_stats m)"

text \<open>The modes are a hash map; \<open>order\<close> is the order in which it yields its keys.\<close>

fun project_modes :: "string list \<Rightarrow> (string \<rightharpoonup> mode_breakdown) \<Rightarrow> (string \<times> mode_record) list option" where
  "project_modes [] m = Some []"
| "project_modes (k # order) m = (case m k of
       None \<Rightarrow> project_modes order m
     | Some v \<Rightarrow> Option.bind (project_mode v) (\<lambda>r. map_option ((#) (k, r)) (project_modes order m)))"

definition project_submission :: "mining_submission_record \<Rightarrow> submission_record option" where
  "project_submission s =
     Option.bind (project_u64 (ms_solution_number s)) (\<lambda>number.
     Option.bind (project_decimal (ms_ts_ns s)) (\<lambda>ts.
     Option.bind (project_opt project_hash (ms_extrinsic_hash s)) (\<lambda>extrinsic.
     Option.bind (project_opt project_hash (ms_chain_block_hash s)) (\<lambda>block.
     Option.bind (project_opt project_decimal (ms_chain_block_number s)) (\<lambda>height.
     Option.bind (project_opt project_u64 (ms_pow_sequence s)) (\<lambda>sequence.
     Option.bind (project_u32 (ms_attempt_count s)) (\<lambda>attempts.
     Option.bind (project_u64 (ms_num_valid s)) (\<lambda>valid.
     Option.bind (project_u64 (ms_qpu_access_time_us s)) (\<lambda>access.
     Some \<lparr>sb_solution_number = number, sb_miner_id = ms_miner_id s, sb_miner_type = ms_miner_type s, sb_ts_ns = ts,
       sb_energy_milli = ms_energy_milli s, sb_diversity_milli = ms_diversity_milli s,
       sb_threshold_milli = ms_threshold_milli s, sb_last_proof_block_hash = ms_last_proof_block_hash s,
       sb_extrinsic_hash = extrinsic, sb_chain_block_hash = block, sb_chain_block_number = height,
       sb_pow_sequence = sequence, sb_outcome = ms_outcome s, sb_attempt_count = attempts,
       sb_best_energy_milli = ms_best_energy_milli s, sb_num_valid = valid, sb_qpu_access_time_us = access,
       sb_observed_at = ms_observed_at s\<rparr>)))))))))"

section \<open>One poll of the local miner\<close>

definition primary_type :: "miner_handle list \<Rightarrow> miner_category" where
  "primary_type miners = (case find (\<lambda>category. list_ex (\<lambda>m. mh_miner_type m = category) miners) [Gpu, Qpu, Cpu] of
     Some category \<Rightarrow> category | None \<Rightarrow> Other)"

definition hardware_of :: "node_status \<Rightarrow> string \<Rightarrow> hardware_record" where
  "hardware_of status observed_at = \<lparr>hr_account_id = ns_ss58_address status, hr_node_id = ns_node_id status,
     hr_miners = map project_handle (ns_miners status), hr_primary_type = category_str (primary_type (ns_miners status)),
     hr_source = ''self'', hr_observed_at = observed_at\<rparr>"

definition confirm_identity :: "life_env \<Rightarrow> string list \<Rightarrow> node_status option \<Rightarrow> string \<Rightarrow> observability
    \<Rightarrow> (observability \<times> string option) ljob" where
  "confirm_identity env order status observed_at ob = (case status of
       None \<Rightarrow> returnj (ob, None)
     | Some s \<Rightarrow>
         if trim (ns_ss58_address s) = [] then returnj (ob, None)
         else bindj (projected (project_decimal (int_text (ns_chain_head_number s)))) (\<lambda>head.
           bindj (projected (project_modes order (ns_modes s))) (\<lambda>modes.
           bindj (ltransact env (upsert_miner_hardware (le_engine env) (hardware_of s observed_at))) (\<lambda>_.
           bindj (ltransact env (set_self_address (Some (ns_ss58_address s)))) (\<lambda>_.
           returnj (ob\<lparr>ob_self_identified := Some True, ob_chain_head_from_node := Some head, ob_modes := Some modes\<rparr>,
             Some (ns_ss58_address s)))))))"

definition persist_miner_poll :: "life_env \<Rightarrow> string list \<Rightarrow> node_status option \<Rightarrow> miner_stats option \<Rightarrow> string
    \<Rightarrow> string option ljob" where
  "persist_miner_poll env order status stats observed_at =
     bindj (get_indexer_observability env) (\<lambda>found.
     let ob = (case found of Some ob \<Rightarrow> ob | None \<Rightarrow> new_observability);
         ob = ob\<lparr>ob_last_status_fetch_at := observed_at, ob_self_identified := Some False\<rparr>
     in bindj (confirm_identity env order status observed_at ob) (\<lambda>(ob, identity).
        bindj (case stats of None \<Rightarrow> returnj ob
               | Some s \<Rightarrow> bindj (projected (project_stats s)) (\<lambda>r. returnj (ob\<lparr>ob_miner_stats := Some r\<rparr>))) (\<lambda>ob.
        bindj (set_indexer_observability env ob) (\<lambda>_.
        returnj identity))))"

section \<open>Catch-up of mining submissions\<close>

definition mining_catchup_range :: "life_env \<Rightarrow> string \<Rightarrow> u64 \<Rightarrow> u64 list ljob" where
  "mining_catchup_range env miner highest_completed =
     bindj (lquery env (get_mining_checkpoint miner)) (\<lambda>found.
     let checkpoint = (case found of Some n \<Rightarrow> n | None \<Rightarrow> 0);
         bottom = saturating_sub highest_completed 200
     in bindj (if checkpoint < bottom
               then bindj (ltransact env (set_mining_checkpoint miner bottom)) (\<lambda>_. returnj bottom)
               else returnj checkpoint) (\<lambda>checkpoint.
        if highest_completed \<le> checkpoint then returnj []
        else let through = min (saturating_add checkpoint 25) highest_completed
             in returnj (map of_nat [Suc (unat checkpoint)..<Suc (unat through)])))"

text \<open>What becomes of an answer: rows to write, with the checkpoint advanced, or an error that leaves it.\<close>

definition attempt_rows :: "string \<Rightarrow> u64 \<Rightarrow> string \<Rightarrow> miner_error + mining_submission_record
    \<Rightarrow> persist_error + submission_record list" where
  "attempt_rows miner solution observed_at result = (case result of
       Inr submission \<Rightarrow> (case project_submission submission of
           Some row \<Rightarrow> if sb_solution_number row = solution
             then Inr [row\<lparr>sb_miner_id := miner, sb_observed_at := observed_at\<rparr>] else Inr []
         | None \<Rightarrow> Inr [])
     | Inl (NotFound _) \<Rightarrow> Inr []
     | Inl (Unparsable _) \<Rightarrow> Inr []
     | Inl error \<Rightarrow> Inl (PUpstream error))"

definition persist_mining_attempt :: "life_env \<Rightarrow> string \<Rightarrow> u64 \<Rightarrow> string \<Rightarrow> miner_error + mining_submission_record \<Rightarrow> unit ljob" where
  "persist_mining_attempt env miner solution observed_at result =
     bindj (liftj (attempt_rows miner solution observed_at result)) (\<lambda>records.
     ltransact env (commit_mining_submissions (le_engine env) (le_accepts env) miner records solution))"

text \<open>
  The loop of the poll over these numbers (\<open>poll_miner\<close> in \<open>bin/quip-dashboard.rs\<close>): a database error ends the
  poll, any other error ends the loop until the next one. \<open>fetch\<close> is the miner's answer at a given await.
\<close>

fun catch_up_loop :: "life_env \<Rightarrow> (nat \<Rightarrow> u64 \<Rightarrow> miner_error + mining_submission_record) \<Rightarrow> string \<Rightarrow> string \<Rightarrow> u64 list \<Rightarrow> unit ljob" where
  "catch_up_loop env fetch miner at_time [] = returnj ()"
| "catch_up_loop env fetch miner at_time (solution # rest) = (\<lambda>w.
     matchj (persist_mining_attempt env miner solution at_time (fetch (lw_tick w) solution))
       (\<lambda>e. case e of PStore _ \<Rightarrow> failj e | _ \<Rightarrow> returnj ())
       (\<lambda>_. catch_up_loop env fetch miner at_time rest) w)"

definition catch_up :: "life_env \<Rightarrow> (nat \<Rightarrow> u64 \<Rightarrow> miner_error + mining_submission_record) \<Rightarrow> string \<Rightarrow> string \<Rightarrow> u64 \<Rightarrow> unit ljob" where
  "catch_up env fetch miner at_time highest =
     bindj (mining_catchup_range env miner highest) (catch_up_loop env fetch miner at_time)"

section \<open>The device-access backfill\<close>

definition backfill_key :: string where
  "backfill_key = ''indexer.device_access_time.backfill''"

definition get_device_access_time_backfill_marker :: "miner_db \<Rightarrow> store_error + string option" where
  "get_device_access_time_backfill_marker db = (case get_meta (md_store db) backfill_key of
       None \<Rightarrow> Inr None
     | Some (MetaText t) \<Rightarrow> Inr (Some t)
     | Some _ \<Rightarrow> Inl (Invalid ''backfill marker''))"

definition decide_backfill :: "life_env \<Rightarrow> backfill_decision ljob" where
  "decide_backfill env =
     bindj (lquery env get_device_access_time_backfill_marker) (\<lambda>marker. case marker of
         Some m \<Rightarrow> returnj (if m = ''not-needed'' then NotNeeded else Triggered)
       | None \<Rightarrow> bindj (lquery env (\<lambda>db. Inr (probe_device_access_time_data db))) (\<lambda>(has_blocks, has_reported).
           if \<not> has_blocks \<or> has_reported
           then bindj (ltransact env (set_device_access_time_backfill_marker ''not-needed'')) (\<lambda>_. returnj NotNeeded)
           else bindj (ltransact env (set_device_access_time_backfill_marker ''triggered'')) (\<lambda>_.
             bindj (ltransact env (lift_store (reindex [Winners]))) (\<lambda>_. returnj Triggered))))"

definition ensure_device_access_time_backfill :: "life_env \<Rightarrow> backfill_decision option ljob" where
  "ensure_device_access_time_backfill env =
     bindj (decide_backfill env) (\<lambda>decision.
     bindj (get_indexer_observability env) (\<lambda>found.
     let ob = (case found of Some ob \<Rightarrow> ob | None \<Rightarrow> new_observability)
     in bindj (set_indexer_observability env (ob\<lparr>ob_device_access_time_backfill := Some decision\<rparr>)) (\<lambda>_.
        returnj (Some decision))))"

section \<open>The coverage summary\<close>

definition gap_count :: "(u64 \<times> u64) list \<Rightarrow> store_error + u64" where
  "gap_count gs = rfold (\<lambda>(from, through) total.
     ok_or (Invalid ''coverage gap count exceeds u64'')
       (Option.bind (checked_sub through from) (\<lambda>count.
        Option.bind (checked_add count 1) (\<lambda>count. checked_add total count)))) gs 0"

definition summarize :: "life_env \<Rightarrow> indexable \<Rightarrow> backfill_progress \<Rightarrow> backfill_progress ljob" where
  "summarize env i p =
     bindj (lquery env (\<lambda>db. store_coverage i (md_store db))) (\<lambda>stored.
     bindj (lquery env (\<lambda>db. Inr (generation (md_store db) i))) (\<lambda>g.
     bindj (liftj (case stored of None \<Rightarrow> Inr 0
                   | Some c \<Rightarrow> (case gap_count (gaps c) of Inl e \<Rightarrow> Inl (PStore e) | Inr n \<Rightarrow> Inr n))) (\<lambda>missing.
     returnj (p\<lparr>bp_coverage := bp_coverage p @ [(indexable_name i,
         \<lparr>pc_low = Option.bind stored (\<lambda>c. map_option decimal_of_u64 (low c)),
          pc_high = Option.bind stored (\<lambda>c. map_option decimal_of_u64 (high c)), pc_gap_blocks = missing,
          pc_pruned_floor = Option.bind stored (\<lambda>c. map_option decimal_of_u64 (pruned_floor c)), pc_generation = g\<rparr>)],
       bp_difficulty_data_start_block := (case stored of
           Some c \<Rightarrow> if i = Difficulty then Some (decimal_of_u64 (cov_start c)) else bp_difficulty_data_start_block p
         | None \<Rightarrow> bp_difficulty_data_start_block p)\<rparr>))))"

definition coverage_progress :: "life_env \<Rightarrow> u64 \<Rightarrow> backfill_progress ljob" where
  "coverage_progress env queued =
     foldj (summarize env) DOMAINS \<lparr>bp_queue_depth = queued, bp_coverage = [], bp_difficulty_data_start_block = None\<rparr>"

end
