(* ===== verification/Lifecycle_Props.thy ===== *)
theory Lifecycle_Props
  imports Lifecycle Miner_Store_Props Miner_Props Retry
begin

text \<open>
  Properties of the lifecycle: the catch-up of submissions reaches the chain, which answers of the local
  miner a poll persists, what the one-time backfill decides, and what the coverage summary counts.
\<close>

section \<open>Quiet runs\<close>

text \<open>No other task changes the world between two calls.\<close>

definition quiet_life :: "life_env \<Rightarrow> bool" where
  "quiet_life env \<longleftrightarrow> le_interfere env = (\<lambda>_ w. w)"

lemma quiet_lawait: "quiet_life env \<Longrightarrow> lawait env w = w\<lparr>lw_tick := Suc (lw_tick w)\<rparr>"
  by (simp add: lawait_def quiet_life_def)

lemma ljob_simps [simp]:
  "bindj m k w = (case m w of (Inl e, w') \<Rightarrow> (Inl e, w') | (Inr x, w') \<Rightarrow> k x w')"
  "returnj x w = (Inr x, w)" "failj e w = (Inl e, w)" "liftj (Inr x) = returnj x" "liftj (Inl e) = failj e"
  "projected (Some x) = returnj x" "projected None = failj PInvalid"
  by (simp_all add: bindj_def returnj_def failj_def liftj_def projected_def fun_eq_iff)

lemma quiet_lquery:
  "quiet_life env \<Longrightarrow> lquery env q w = ((case q (lw_db w) of Inl e \<Rightarrow> Inl (PStore e) | Inr x \<Rightarrow> Inr x), w\<lparr>lw_tick := Suc (lw_tick w)\<rparr>)"
  by (simp add: lquery_def quiet_lawait Let_def)

lemma quiet_ltransact:
  "quiet_life env \<Longrightarrow> ltransact env f w = (case f (lw_db w) of
     Inl e \<Rightarrow> (Inl (PStore e), w\<lparr>lw_tick := Suc (lw_tick w)\<rparr>)
   | Inr (x, db) \<Rightarrow> (Inr x, w\<lparr>lw_db := db, lw_tick := Suc (lw_tick w)\<rparr>))"
  by (auto simp: ltransact_def quiet_lawait Let_def split: sum.splits)

section \<open>Catch-up\<close>

text \<open>A database that takes writes, with the checkpoint of a miner.\<close>

definition takes_writes :: "miner_db \<Rightarrow> bool" where
  "takes_writes db \<longleftrightarrow> writable (md_store db) \<and> get_meta (md_store db) ''dashboard.genesis'' \<noteq> None"

definition at_checkpoint :: "string \<Rightarrow> u64 \<Rightarrow> miner_db \<Rightarrow> bool" where
  "at_checkpoint miner n db \<longleftrightarrow> takes_writes db
     \<and> (get_meta (md_store db) (checkpoint_key miner) = Some (MetaText (unsigned_text n))
        \<or> get_meta (md_store db) (checkpoint_key miner) = None \<and> n = 0)"

text \<open>The miner answers with submissions or proven gaps, and the database takes the rows.\<close>

definition answers_settled :: "life_env \<Rightarrow> (nat \<Rightarrow> u64 \<Rightarrow> miner_error + mining_submission_record) \<Rightarrow> string \<Rightarrow> string \<Rightarrow> bool" where
  "answers_settled env fetch miner at_time \<longleftrightarrow>
     (\<forall>k n. \<exists>rows. attempt_rows miner n at_time (fetch k n) = Inr rows)
     \<and> (\<exists>t. canonical_timestamp (le_engine env) at_time = Inr t) \<and> (\<forall>r. le_accepts env r = Inr ())"

lemma bound_write_takes: "takes_writes db \<Longrightarrow> bound_write f db = f db"
  by (auto simp: bound_write_def ensure_writable_def require_bound_def takes_writes_def)

lemma checkpoint_read: "at_checkpoint miner n db \<Longrightarrow> get_mining_checkpoint miner db = Inr (if get_meta (md_store db) (checkpoint_key miner) = None then None else Some n)"
  by (auto simp: at_checkpoint_def get_mining_checkpoint_def)

lemma checkpoint_not_genesis [simp]: "checkpoint_key miner \<noteq> ''dashboard.genesis''" "''dashboard.genesis'' \<noteq> checkpoint_key miner"
  by (auto simp: checkpoint_key_def)

lemma at_checkpoint_set:
  "at_checkpoint miner c db \<Longrightarrow>
     at_checkpoint miner n (db\<lparr>md_store := set_meta (checkpoint_key miner) (MetaText (unsigned_text n)) (md_store db)\<rparr>)"
  by (auto simp: at_checkpoint_def takes_writes_def set_meta_def get_meta_def AList.update_conv')

lemma raise_checkpoint:
  assumes "at_checkpoint miner c db" and "c < n"
  shows "\<exists>db'. set_mining_checkpoint miner n db = Inr ((), db') \<and> at_checkpoint miner n db'"
proof -
  have "decimal_from_str (unsigned_text n) = Inr (DecimalString (unsigned_text n))" by (simp add: decimal_from_str_ok)
  then have "set_mining_checkpoint miner n db
      = Inr ((), db\<lparr>md_store := set_meta (checkpoint_key miner) (MetaText (unsigned_text n)) (md_store db)\<rparr>)"
    using assms by (auto simp: set_mining_checkpoint_def lift_store_def set_monotonic_def ensure_writable_def require_bound_def
        at_checkpoint_def takes_writes_def decimal_gt_text)
  then show ?thesis using at_checkpoint_set [OF assms(1)] by blast
qed

lemma attempt_rows_own:
  "attempt_rows miner n t answer = Inr rows \<Longrightarrow>
     rows = [] \<or> (\<exists>r. rows = [r] \<and> sb_miner_id r = miner \<and> sb_solution_number r = n \<and> sb_observed_at r = t)"
  by (auto simp: attempt_rows_def split: sum.splits option.splits if_splits miner_error.splits)

lemma attempt_settles:
  assumes "quiet_life env" and "answers_settled env fetch miner t" and "at_checkpoint miner c (lw_db w)" and "c \<le> n"
  shows "\<exists>w'. persist_mining_attempt env miner n t (fetch k n) w = (Inr (), w') \<and> at_checkpoint miner n (lw_db w')"
proof -
  let ?step = "\<lambda>r db. if sb_miner_id r \<noteq> miner \<or> n < sb_solution_number r
      then Inl (Invalid ''submission does not belong to checkpoint'') else write_submission (le_engine env) (le_accepts env) r db"
  obtain rows where rows: "attempt_rows miner n t (fetch k n) = Inr rows" using assms(2) unfolding answers_settled_def by blast
  obtain db1 where db1: "rfold ?step rows (lw_db w) = Inr db1"
    using attempt_rows_own [OF rows] assms(2) by (auto simp: answers_settled_def write_submission_def)
  then have same: "md_store db1 = md_store (lw_db w)" using commit_rows by blast
  then have cp: "at_checkpoint miner c db1" using assms(3) by (simp add: at_checkpoint_def takes_writes_def)
  have "commit_mining_submissions (le_engine env) (le_accepts env) miner rows n (lw_db w)
      = Inr ((), db1\<lparr>md_store := set_meta (checkpoint_key miner) (MetaText (unsigned_text n)) (md_store db1)\<rparr>)"
    using assms(3,4) db1 checkpoint_read [OF cp]
    by (simp add: commit_mining_submissions_def at_checkpoint_def bound_write_takes Let_def)
  moreover have "at_checkpoint miner n (db1\<lparr>md_store := set_meta (checkpoint_key miner) (MetaText (unsigned_text n)) (md_store db1)\<rparr>)"
    using cp by (rule at_checkpoint_set)
  ultimately show ?thesis using assms(1) rows by (simp add: persist_mining_attempt_def quiet_ltransact)
qed

lemma catch_up_loop_settles:
  assumes "quiet_life env" and "answers_settled env fetch miner t" and "at_checkpoint miner (of_nat a) (lw_db w)"
    and "a \<le> b" and "b < 2 ^ 64"
  shows "\<exists>w'. catch_up_loop env fetch miner t (map of_nat [Suc a..<Suc b]) w = (Inr (), w') \<and> at_checkpoint miner (of_nat b) (lw_db w')"
  using assms(3-5)
proof (induction "b - a" arbitrary: a w)
  case 0
  then show ?case by simp
next
  case (Suc d)
  then have "(of_nat a :: u64) \<le> of_nat (Suc a)"
    unfolding word_le_nat_alt by (simp only: unat_of_nat) (simp add: take_bit_nat_eq_self)
  from attempt_settles [OF assms(1,2) Suc.prems(1) this, of "lw_tick w"] obtain w1
    where w1: "persist_mining_attempt env miner (of_nat (Suc a)) t (fetch (lw_tick w) (of_nat (Suc a))) w = (Inr (), w1)"
      and cp: "at_checkpoint miner (of_nat (Suc a)) (lw_db w1)" by blast
  have "\<exists>w'. catch_up_loop env fetch miner t (map of_nat [Suc (Suc a)..<Suc b]) w1 = (Inr (), w') \<and> at_checkpoint miner (of_nat b) (lw_db w')"
    using Suc.hyps(1) [OF _ cp] Suc.hyps(2) Suc.prems by simp
  moreover have "map of_nat [Suc a..<Suc b] = (of_nat (Suc a) :: u64) # map of_nat [Suc (Suc a)..<Suc b]"
    using Suc.hyps(2) by (subst upt_conv_Cons) simp_all
  ultimately show ?case using w1 by (simp add: matchj_def del: of_nat_Suc upt_Suc)
qed

text \<open>One pass moves the checkpoint by at most twenty-five, from no lower than two hundred below the chain.\<close>

definition next_checkpoint :: "nat \<Rightarrow> nat \<Rightarrow> nat" where
  "next_checkpoint h c = (if h \<le> c then c else min h (max c (h - 200) + 25))"

lemma catch_up_pass:
  assumes "quiet_life env" and "answers_settled env fetch miner t" and "at_checkpoint miner c (lw_db w)"
  shows "\<exists>w'. catch_up env fetch miner t h w = (Inr (), w')
    \<and> at_checkpoint miner (of_nat (next_checkpoint (unat h) (unat c))) (lw_db w')"
proof -
  let ?bottom = "saturating_sub h 200" and ?w1 = "w\<lparr>lw_tick := Suc (lw_tick w)\<rparr>"
  have bottom: "unat ?bottom = unat h - 200"
  proof (cases "200 \<le> h")
    case True
    then show ?thesis by (simp add: saturating_sub_def unat_sub)
  next
    case False
    then show ?thesis by (simp add: saturating_sub_def word_le_nat_alt)
  qed
  have read: "(case get_mining_checkpoint miner (lw_db w) of Inr (Some n) \<Rightarrow> n | _ \<Rightarrow> 0) = c"
    using checkpoint_read [OF assms(3)] assms(3) by (auto simp: at_checkpoint_def)
  obtain c1 w2 where raised: "(if c < ?bottom then bindj (ltransact env (set_mining_checkpoint miner ?bottom)) (\<lambda>_. returnj ?bottom)
        else returnj c) ?w1 = (Inr c1, w2)"
    and cp: "at_checkpoint miner c1 (lw_db w2)" and c1: "unat c1 = max (unat c) (unat h - 200)"
  proof (cases "c < ?bottom")
    case True
    then obtain db' where "set_mining_checkpoint miner ?bottom (lw_db w) = Inr ((), db')" "at_checkpoint miner ?bottom db'"
      using raise_checkpoint [OF assms(3)] by blast
    then show ?thesis using True bottom assms(1) by (intro that) (auto simp: quiet_ltransact word_less_nat_alt)
  next
    case False
    then show ?thesis using bottom assms(3) by (intro that [of c ?w1]) (auto simp: word_less_nat_alt)
  qed
  have start: "catch_up env fetch miner t h w =
      (if h \<le> c1 then (Inr (), w2) else catch_up_loop env fetch miner t
        (map of_nat [Suc (unat c1)..<Suc (unat (min (saturating_add c1 25) h))]) w2)"
    using raised checkpoint_read [OF assms(3)] read assms(1)
    by (auto simp: catch_up_def mining_catchup_range_def quiet_lquery Let_def split: if_splits)
  show ?thesis
  proof (cases "h \<le> c1")
    case True
    then have "next_checkpoint (unat h) (unat c) = unat c1"
      using c1 by (auto simp: word_le_nat_alt next_checkpoint_def max_def split: if_splits)
    then show ?thesis using start True cp by simp
  next
    case False
    let ?b = "unat (min (saturating_add c1 25) h)"
    have b: "?b = min (unat c1 + 25) (unat h)"
      using unat_lt2p [of h] by (auto simp: min_def word_le_nat_alt unat_saturating_add)
    have "\<exists>w'. catch_up_loop env fetch miner t (map of_nat [Suc (unat c1)..<Suc ?b]) w2 = (Inr (), w') \<and> at_checkpoint miner (of_nat ?b) (lw_db w')"
      using False cp b unat_lt2p [of h] by (intro catch_up_loop_settles [OF assms(1,2)]) (auto simp: word_le_nat_alt)
    moreover have "next_checkpoint (unat h) (unat c) = ?b"
      using False b c1 by (auto simp: word_le_nat_alt next_checkpoint_def min.commute)
    ultimately show ?thesis using start False by simp
  qed
qed

text \<open>
  C12. Undisturbed, while the miner answers every number with a submission or a proven gap, each poll
  succeeds and eight polls bring the checkpoint of a miner up to the chain's completed solutions,
  however far behind it was.
\<close>

theorem catch_up_reaches_chain:
  assumes "quiet_life env" and "answers_settled env fetch miner t" and "at_checkpoint miner c (lw_db w)" and "c \<le> h"
  shows "at_checkpoint miner h (lw_db (((\<lambda>w. snd (catch_up env fetch miner t h w)) ^^ 8) w))
    \<and> fst (catch_up env fetch miner t h w) = Inr ()"
proof -
  let ?pass = "\<lambda>w. snd (catch_up env fetch miner t h w)"
  have "\<exists>n. at_checkpoint miner n (lw_db ((?pass ^^ k) w)) \<and> n \<le> h \<and> (k = 0 \<or> min (unat h) (unat h - 200 + 25 * k) \<le> unat n)" for k
  proof (induction k)
    case 0
    then show ?case using assms(3,4) by auto
  next
    case (Suc k)
    then obtain n where n: "at_checkpoint miner n (lw_db ((?pass ^^ k) w))" "n \<le> h"
      "k = 0 \<or> min (unat h) (unat h - 200 + 25 * k) \<le> unat n" by blast
    let ?n' = "next_checkpoint (unat h) (unat n)"
    have "?n' < 2 ^ 64" using unat_lt2p [of h] unat_lt2p [of n] by (auto simp: next_checkpoint_def)
    then have u: "unat (of_nat ?n' :: u64) = ?n'" by (simp add: unat_of_nat take_bit_nat_eq_self)
    have "at_checkpoint miner (of_nat ?n') (lw_db ((?pass ^^ Suc k) w))"
      using catch_up_pass [OF assms(1,2) n(1), of h] by auto
    moreover have "(of_nat ?n' :: u64) \<le> h" using n(2) unfolding word_le_nat_alt u by (auto simp: next_checkpoint_def)
    moreover have "min (unat h) (unat h - 200 + 25 * Suc k) \<le> unat (of_nat ?n' :: u64)"
      using n(3) unfolding u by (auto simp: next_checkpoint_def)
    ultimately show ?case by blast
  qed
  from this [of 8] obtain n where n: "at_checkpoint miner n (lw_db ((?pass ^^ 8) w))" "n \<le> h" "min (unat h) (unat h - 200 + 25 * 8) \<le> unat n"
    by auto
  then have "n = h" unfolding word_le_nat_alt by (simp add: word_unat_eq_iff min_def split: if_splits)
  with n(1) show ?thesis using catch_up_pass [OF assms(1-3), of h] by auto
qed

definition sample_life :: "life_env" where
  "sample_life = \<lparr>le_engine = sample_engine, le_accepts = (\<lambda>_. Inr ()), le_interfere = (\<lambda>_ w. w)\<rparr>"

definition sample_life_world :: life_world where
  "sample_life_world = \<lparr>lw_db = sample_db, lw_observability = None, lw_tick = 0\<rparr>"

lemma sample_takes_writes: "takes_writes sample_db"
  by (simp add: takes_writes_def sample_db_def get_meta_def empty_store_def)

text \<open>C12, for a miner that has submitted nothing yet and a chain of ten thousand solutions.\<close>

theorem catch_up_reaches_chain_witness:
  "at_checkpoint ''m'' 10000 (lw_db (((\<lambda>w. snd (catch_up sample_life (\<lambda>_ n. Inl (NotFound n)) ''m'' ''t'' 10000 w)) ^^ 8) sample_life_world))"
proof -
  have "answers_settled sample_life (\<lambda>_ n. Inl (NotFound n)) ''m'' ''t''"
    by (simp add: answers_settled_def attempt_rows_def sample_life_def sample_engine_def)
  moreover have "at_checkpoint ''m'' 0 (lw_db sample_life_world)"
    using sample_takes_writes
    by (simp add: at_checkpoint_def sample_life_world_def) (simp add: sample_db_def get_meta_def checkpoint_key_def)
  ultimately show ?thesis
    using catch_up_reaches_chain [of sample_life "\<lambda>_ n. Inl (NotFound n)" "''m''" "''t''" 0 sample_life_world 10000]
    by (simp add: quiet_life_def) (simp add: sample_life_def)
qed

section \<open>One poll\<close>

definition fits :: "int \<Rightarrow> bool" where
  "fits n \<longleftrightarrow> 0 \<le> n \<and> n < 2 ^ 64"

definition stats_fit :: "'a miner_stats_scheme \<Rightarrow> bool" where
  "stats_fit s \<longleftrightarrow> list_all fits (stats_numbers s)"

text \<open>The numbers of a status that the poll persists; a status without an address is not read.\<close>

definition status_fits :: "string list \<Rightarrow> node_status \<Rightarrow> bool" where
  "status_fits order s \<longleftrightarrow> trim (ns_ss58_address s) = []
     \<or> 0 \<le> ns_chain_head_number s \<and> list_all (\<lambda>k. case ns_modes s k of None \<Rightarrow> True | Some m \<Rightarrow> stats_fit m) order"

lemma project_u64_None: "(project_u64 n = None) = (\<not> fits n)"
  by (simp add: project_u64_def fits_def)

lemma project_stats_None: "(project_stats s = None) = (\<not> stats_fit s)"
proof -
  have p: "project_u64 n = (if fits n then Some (word_of_int n) else None)" for n by (simp add: project_u64_def fits_def)
  show ?thesis by (simp add: project_stats_def stats_fit_def stats_numbers_def p)
qed

lemma project_modes_None:
  "(project_modes order m = None) = (\<not> list_all (\<lambda>k. case m k of None \<Rightarrow> True | Some v \<Rightarrow> stats_fit v) order)"
proof (induction order)
  case (Cons k order)
  show ?case
  proof (cases "m k")
    case (Some v)
    then show ?thesis using Cons project_stats_None [of v] by (cases "project_stats v") (auto simp: project_mode_def)
  qed (simp add: Cons)
qed simp

lemma project_head_None: "(project_decimal (int_text n) = None) = (n < 0)"
proof (cases "n < 0")
  case True
  then have "\<not> canonical (int_text n)" by (simp add: int_text_def canonical_def is_digit_def less_eq_char_def)
  then show ?thesis using True decimal_from_str_ok [of "int_text n"] by (auto simp: project_decimal_def split: sum.splits)
next
  case False
  then have "decimal_from_str (int_text n) = Inr (DecimalString (int_text n))" by (simp add: decimal_from_str_ok int_text_def)
  then show ?thesis using False by (simp add: project_decimal_def)
qed

text \<open>A database and snapshot that a poll can read and write.\<close>

definition poll_ready :: "life_env \<Rightarrow> string \<Rightarrow> life_world \<Rightarrow> bool" where
  "poll_ready env t w \<longleftrightarrow> quiet_life env \<and> takes_writes (lw_db w) \<and> (\<exists>u. canonical_timestamp (le_engine env) t = Inr u)
     \<and> (\<forall>e. lw_observability w \<noteq> Some (Refused e))"

lemma takes_writes_self: "takes_writes db \<Longrightarrow> \<exists>db'. set_self_address a db = Inr ((), db') \<and> takes_writes db'"
  by (auto simp: set_self_address_def set_text_def bound_write_takes takes_writes_def split: option.splits)

lemma observability_read:
  assumes "quiet_life env" and "\<forall>e. lw_observability w \<noteq> Some (Refused e)"
  shows "\<exists>found. get_indexer_observability env w = (Inr found, w\<lparr>lw_tick := Suc (lw_tick w)\<rparr>)"
proof (cases "lw_observability w")
  case (Some d)
  then show ?thesis using assms by (cases d) (simp_all add: get_indexer_observability_def quiet_lawait)
qed (simp add: get_indexer_observability_def quiet_lawait assms)

lemma observability_write:
  "quiet_life env \<Longrightarrow> takes_writes (lw_db w) \<Longrightarrow>
     set_indexer_observability env v w = (Inr (), w\<lparr>lw_tick := Suc (lw_tick w), lw_observability := Some (Readable v)\<rparr>)"
  by (simp add: set_indexer_observability_def quiet_ltransact bound_write_takes)

lemma confirm_identity_result:
  assumes "poll_ready env t w"
  shows "case confirm_identity env order status t ob w of
      (Inl e, w') \<Rightarrow> e = PInvalid \<and> (\<exists>s. status = Some s \<and> \<not> status_fits order s)
    | (Inr (ob', identity), w') \<Rightarrow> poll_ready env t w' \<and> (\<forall>s. status = Some s \<longrightarrow> status_fits order s)
        \<and> identity = Option.bind status (\<lambda>s. if trim (ns_ss58_address s) = [] then None else Some (ns_ss58_address s))"
proof (cases "\<exists>s. status = Some s \<and> trim (ns_ss58_address s) \<noteq> []")
  case False
  then show ?thesis using assms by (auto simp: confirm_identity_def status_fits_def split: option.splits)
next
  case True
  then obtain s where s: "status = Some s" "trim (ns_ss58_address s) \<noteq> []" by blast
  have q: "quiet_life env" and tw: "takes_writes (lw_db w)" using assms by (simp_all add: poll_ready_def)
  obtain u where u: "canonical_timestamp (le_engine env) t = Inr u" using assms by (auto simp: poll_ready_def)
  show ?thesis
  proof (cases "project_decimal (int_text (ns_chain_head_number s))")
    case None
    then show ?thesis using s project_head_None [of "ns_chain_head_number s"] by (simp add: confirm_identity_def status_fits_def)
  next
    case (Some head)
    show ?thesis
    proof (cases "project_modes order (ns_modes s)")
      case None
      then have "\<not> status_fits order s" using s project_modes_None [of order "ns_modes s"] by (simp add: status_fits_def)
      then show ?thesis using None s Some by (simp add: confirm_identity_def)
    next
      case modes: (Some modes)
      have fits: "status_fits order s"
        using s Some modes project_head_None [of "ns_chain_head_number s"] project_modes_None [of order "ns_modes s"]
        by (simp add: status_fits_def)
      obtain db1 where db1: "upsert_miner_hardware (le_engine env) (hardware_of s t) (lw_db w) = Inr ((), db1)" "takes_writes db1"
        using tw u by (simp add: upsert_miner_hardware_def bound_write_takes hardware_of_def Let_def) (simp add: takes_writes_def)
      obtain db2 where db2: "set_self_address (Some (ns_ss58_address s)) db1 = Inr ((), db2)" "takes_writes db2"
        using takes_writes_self [OF db1(2)] by blast
      show ?thesis
        using assms s Some modes fits db1 db2 by (simp add: confirm_identity_def quiet_ltransact [OF q] poll_ready_def)
    qed
  qed
qed

text \<open>
  C13. Undisturbed and on a database that takes writes, a poll fails exactly when a number it persists does
  not fit: a negative chain head, or a negative counter of the stats or of a mode. Then it fails as
  invalid, and otherwise it returns the address of the status, if there is one.
\<close>

theorem poll_fails_exactly:
  assumes "poll_ready env t w"
  shows "fst (persist_miner_poll env order status stats t w) =
    (if (\<forall>s. status = Some s \<longrightarrow> status_fits order s) \<and> (\<forall>s. stats = Some s \<longrightarrow> stats_fit s)
     then Inr (Option.bind status (\<lambda>s. if trim (ns_ss58_address s) = [] then None else Some (ns_ss58_address s)))
     else Inl PInvalid)"
proof -
  let ?w1 = "w\<lparr>lw_tick := Suc (lw_tick w)\<rparr>"
  have q: "quiet_life env" using assms by (simp add: poll_ready_def)
  obtain found where found: "get_indexer_observability env w = (Inr found, ?w1)"
    using observability_read [OF q] assms unfolding poll_ready_def by blast
  have ready: "poll_ready env t ?w1" using assms by (simp add: poll_ready_def)
  let ?ob = "(case found of Some ob \<Rightarrow> ob | None \<Rightarrow> new_observability)\<lparr>ob_last_status_fetch_at := t, ob_self_identified := Some False\<rparr>"
  note ident = confirm_identity_result [OF ready, where order = order and status = status and ob = ?ob]
  show ?thesis
  proof (cases "confirm_identity env order status t ?ob ?w1")
    case (Pair r w2)
    show ?thesis
    proof (cases r)
      case (Inl e)
      then show ?thesis using Pair ident found by (auto simp: persist_miner_poll_def Let_def)
    next
      case (Inr x)
      obtain ob' identity where x: "x = (ob', identity)" by (cases x)
      have w2: "poll_ready env t w2" "\<forall>s. status = Some s \<longrightarrow> status_fits order s"
        "identity = Option.bind status (\<lambda>s. if trim (ns_ss58_address s) = [] then None else Some (ns_ss58_address s))"
        using ident Pair Inr x by auto
      have set: "\<exists>w3. set_indexer_observability env v w2 = (Inr (), w3)" for v
        using w2(1) observability_write [OF q] by (simp add: poll_ready_def)
      show ?thesis
      proof (cases "\<exists>s. stats = Some s \<and> \<not> stats_fit s")
        case True
        then obtain st where st: "stats = Some st" "\<not> stats_fit st" by blast
        then have "project_stats st = None" by (simp add: project_stats_None)
        then show ?thesis using Pair Inr x found st by (auto simp: persist_miner_poll_def Let_def)
      next
        case False
        then obtain ob2 where "(case stats of None \<Rightarrow> returnj ob'
               | Some s \<Rightarrow> bindj (projected (project_stats s)) (\<lambda>r. returnj (ob'\<lparr>ob_miner_stats := Some r\<rparr>))) w2 = (Inr ob2, w2)"
          using project_stats_None by (cases stats) fastforce+
        moreover obtain w3 where "set_indexer_observability env ob2 w2 = (Inr (), w3)" using set by blast
        ultimately show ?thesis using Pair Inr x found w2 False by (auto simp: persist_miner_poll_def Let_def)
      qed
    qed
  qed
qed

text \<open>The parser lets such a number through: a miner that reports a count of minus one.\<close>

lemma negative_count_parsed:
  "heads_observed (parse_miner_stats_payload lib (JObject [(''controller'', JObject [(''heads_observed'', JString (int_text (- 1)))])])) = - 1"
proof -
  have "json_to_i64 lib (Some (JString (int_text (- 1)))) = Some (- 1)"
    using decimal_text_read_back [of lib "- 1"] by (simp add: safe_number_def split: option.splits if_splits)
  then show ?thesis by (simp add: parse_miner_stats_payload_def controller_count_def unwrap_or_def get_key_def Let_def)
qed

definition zero_stats :: "int \<Rightarrow> miner_stats" where
  "zero_stats n = \<lparr>heads_observed = n, contexts_dispatched = 0, results_received = 0, proofs_submitted = 0, stale_drops = 0,
     submission_errors = 0, duplicate_result_drops = 0\<rparr>"

text \<open>C13, for stats with one negative counter and for the same stats without it.\<close>

theorem poll_fails_exactly_witness:
  "fst (persist_miner_poll sample_life [] None (Some (zero_stats (- 1))) ''t'' sample_life_world) = Inl PInvalid
   \<and> fst (persist_miner_poll sample_life [] None (Some (zero_stats 1)) ''t'' sample_life_world) = Inr None"
proof -
  have ready: "poll_ready sample_life ''t'' sample_life_world"
    using sample_takes_writes by (simp add: poll_ready_def quiet_life_def sample_life_world_def) (simp add: sample_life_def sample_engine_def)
  then show ?thesis
    by (simp add: poll_fails_exactly [OF ready] stats_fit_def stats_numbers_def zero_stats_def fits_def)
qed

section \<open>The device-access backfill\<close>

lemma backfill_stored:
  assumes "quiet_life env" and "takes_writes (lw_db w)" and "\<forall>e. lw_observability w \<noteq> Some (Refused e)"
    and "get_device_access_time_backfill_marker (lw_db w) = Inr (Some m)"
  shows "\<exists>w'. ensure_device_access_time_backfill env w = (Inr (Some (if m = ''not-needed'' then NotNeeded else Triggered)), w')
    \<and> lw_db w' = lw_db w"
proof -
  let ?w1 = "w\<lparr>lw_tick := Suc (lw_tick w)\<rparr>"
  obtain found where "get_indexer_observability env ?w1 = (Inr found, ?w1\<lparr>lw_tick := Suc (lw_tick ?w1)\<rparr>)"
    using observability_read [OF assms(1), of ?w1] assms(3) by auto
  then show ?thesis
    using assms(2,4) by (simp add: ensure_device_access_time_backfill_def decide_backfill_def quiet_lquery [OF assms(1)]
        observability_write [OF assms(1)] Let_def)
qed

lemma backfill_key_other: "backfill_key \<noteq> generation_key i" "backfill_key \<noteq> ''dashboard.genesis''"
  by (simp_all add: backfill_key_def generation_key_def)

text \<open>
  C14. A process that stops after it stored that the backfill is triggered, and before the reindex, has lost
  it: at the next start the stored marker is reported as the decision, no table changes, no
  generation is bumped, and the winner rows still have no device time.
\<close>

theorem backfill_lost_after_marker:
  assumes "quiet_life env" and "takes_writes (lw_db w)" and "\<forall>e. lw_observability w \<noteq> Some (Refused e)"
    and "probe_device_access_time_data (lw_db w) = (True, False)"
    and "set_device_access_time_backfill_marker ''triggered'' (lw_db w) = Inr ((), db)"
  shows "\<exists>w'. ensure_device_access_time_backfill env (w\<lparr>lw_db := db\<rparr>) = (Inr (Some Triggered), w') \<and> lw_db w' = db
    \<and> (\<forall>i. generation (md_store db) i = generation (md_store (lw_db w)) i) \<and> probe_device_access_time_data db = (True, False)"
proof -
  have db: "db = (lw_db w)\<lparr>md_store := set_meta backfill_key (MetaText ''triggered'') (md_store (lw_db w))\<rparr>"
    using assms(2,5) by (simp add: set_device_access_time_backfill_marker_def set_text_def bound_write_takes backfill_key_def)
  then have "takes_writes db" "get_device_access_time_backfill_marker db = Inr (Some ''triggered'')"
    using assms(2) by (simp_all add: takes_writes_def get_device_access_time_backfill_marker_def backfill_key_other)
  then obtain w' where "ensure_device_access_time_backfill env (w\<lparr>lw_db := db\<rparr>) = (Inr (Some Triggered), w')" "lw_db w' = db"
    using backfill_stored [OF assms(1), of "w\<lparr>lw_db := db\<rparr>" "''triggered''"] assms(3) by auto
  moreover have "probe_device_access_time_data db = (True, False)"
    using assms(4) by (simp add: db probe_device_access_time_data_def)
  moreover have "generation (md_store db) i = generation (md_store (lw_db w)) i" for i
    using generation_set_other [of backfill_key] by (simp add: db backfill_key_other)
  ultimately show ?thesis by blast
qed

definition unreported_world :: life_world where
  "unreported_world = sample_life_world\<lparr>lw_db := sample_db\<lparr>md_store := (md_store sample_db)\<lparr>blocks := [(''b'', sample_winner)]\<rparr>\<rparr>\<rparr>"

text \<open>C14, for a store with one winner without a device time.\<close>

theorem backfill_lost_after_marker_witness:
  "\<exists>db w'. set_device_access_time_backfill_marker ''triggered'' (lw_db unreported_world) = Inr ((), db)
     \<and> ensure_device_access_time_backfill sample_life (unreported_world\<lparr>lw_db := db\<rparr>) = (Inr (Some Triggered), w')
     \<and> generation (md_store (lw_db w')) Winners = generation (md_store (lw_db unreported_world)) Winners"
proof -
  have tw: "takes_writes (lw_db unreported_world)"
    using sample_takes_writes by (simp add: unreported_world_def takes_writes_def get_meta_def)
  have probe: "probe_device_access_time_data (lw_db unreported_world) = (True, False)"
    by (simp add: unreported_world_def probe_device_access_time_data_def sample_winner_def)
  obtain db where db: "set_device_access_time_backfill_marker ''triggered'' (lw_db unreported_world) = Inr ((), db)"
    by (simp add: set_device_access_time_backfill_marker_def set_text_def bound_write_takes [OF tw])
  have "\<forall>e. lw_observability unreported_world \<noteq> Some (Refused e)" by (simp add: unreported_world_def sample_life_world_def)
  then show ?thesis
    using backfill_lost_after_marker [of sample_life, OF _ tw _ probe db] db by (auto simp: quiet_life_def sample_life_def)
qed

section \<open>The coverage summary\<close>

lemma card_words: "a \<le> b \<Longrightarrow> card {a..b :: u64} = unat b - unat a + 1"
proof -
  assume "a \<le> b"
  have "unat ` {a..b} = {unat a..unat b}"
  proof (rule set_eqI, rule iffI)
    fix n
    assume n: "n \<in> {unat a..unat b}"
    then have "n < 2 ^ 64" using unat_lt2p [of b] by auto
    then have "unat (of_nat n :: u64) = n" by (simp add: unat_of_nat take_bit_nat_eq_self)
    with n show "n \<in> unat ` {a..b}" by (intro image_eqI [of _ _ "of_nat n"]) (auto simp: word_le_nat_alt)
  qed (auto simp: word_le_nat_alt)
  moreover have "card (unat ` {a..b}) = card {a..b}" by (intro card_image inj_onI) (simp add: word_unat_eq_iff)
  ultimately show "card {a..b} = unat b - unat a + 1" using \<open>a \<le> b\<close> by (simp add: word_le_nat_alt)
qed

lemma gap_fold_counts:
  assumes "gap_list gs" and "unat acc + card {z. in_gaps z gs} < 2 ^ 64"
  shows "\<exists>n. rfold (\<lambda>(from, through) acc. ok_or (Invalid ''coverage gap count exceeds u64'')
       (Option.bind (checked_sub through from) (\<lambda>count.
        Option.bind (checked_add count 1) (\<lambda>count. checked_add acc count)))) gs acc = Inr n
     \<and> unat n = unat acc + card {z. in_gaps z gs}"
  using assms
proof (induction gs arbitrary: acc)
  case Nil
  then show ?case by (simp add: in_gaps_def)
next
  case (Cons g gs)
  obtain a b where g: "g = (a, b)" by (cases g)
  have gl: "gap_list gs" "a \<le> b" "\<forall>q\<in>set gs. b < fst q" using Cons.prems(1) sep_less [of g] by (auto simp: gap_list_Cons g)
  have split: "{z. in_gaps z (g # gs)} = {a..b} \<union> {z. in_gaps z gs}" by (auto simp: in_gaps_Cons g)
  have "{a..b} \<inter> {z. in_gaps z gs} = {}" using gl(3) by (fastforce simp: in_gaps_iff)
  then have card: "card {z. in_gaps z (g # gs)} = (unat b - unat a + 1) + card {z. in_gaps z gs}"
    unfolding split by (simp add: card_Un_disjoint card_words [OF gl(2)])
  have u: "unat (b - a) = unat b - unat a" using gl(2) by (simp add: unat_sub)
  have "unat (b - a) + 1 < 2 ^ 64" using Cons.prems(2) card u by linarith
  then have c1: "checked_add (b - a) 1 = Some (b - a + 1)" and u1: "unat (b - a + 1) = unat b - unat a + 1"
    using u by (simp_all add: checked_add_def unat_word_ariths)
  have "unat acc + unat (b - a + 1) < 2 ^ 64" using Cons.prems(2) card u1 by linarith
  then have c2: "checked_add acc (b - a + 1) = Some (acc + (b - a + 1))"
    and u2: "unat (acc + (b - a + 1)) = unat acc + (unat b - unat a + 1)"
    unfolding checked_add_def using u1 by (simp_all add: unat_word_ariths)
  have "unat (acc + (b - a + 1)) + card {z. in_gaps z gs} < 2 ^ 64" using Cons.prems(2) card u2 by linarith
  from Cons.IH [OF gl(1) this] c1 c2 u2 card gl(2) show ?case by (simp add: g checked_sub_def algebra_simps)
qed

lemma gap_count_exact:
  assumes "coverage_wf c"
  shows "\<exists>n. gap_count (gaps c) = Inr n \<and> unat n = card {z. in_gaps z (gaps c)}"
proof -
  have gl: "gap_list (gaps c)" using assms by (auto simp: coverage_wf_iff gap_list_def within_def)
  have "0 \<notin> {z. in_gaps z (gaps c)}"
    using assms by (auto simp: coverage_wf_iff in_gaps_iff within_def)
  then have "{z. in_gaps z (gaps c)} \<subset> UNIV" by blast
  then have "card {z. in_gaps z (gaps c)} < card (UNIV :: u64 set)" by (intro psubset_card_mono) simp_all
  then have "unat (0 :: u64) + card {z. in_gaps z (gaps c)} < 2 ^ 64" by (simp add: card_word)
  from gap_fold_counts [OF gl this] show ?thesis by (simp add: gap_count_def)
qed

definition completed_span :: "store \<Rightarrow> indexable \<Rightarrow> u64 set" where
  "completed_span s i = {n. \<exists>a\<in>domain_points s i. \<exists>b\<in>domain_points s i. a \<le> n \<and> n \<le> b}"

lemma gaps_are_missing:
  assumes "coverage_wf c" and "get_meta s (coverage_key i) = Some (MetaCoverage c)"
  shows "{z. in_gaps z (gaps c)} = completed_span s i - domain_points s i"
proof -
  have dp: "domain_points s i = covered c" using assms(2) by (simp add: domain_points_def)
  consider "low c = None" "gaps c = []" | l h where "low c = Some l" "high c = Some h" "l \<le> h" "\<forall>g\<in>set (gaps c). within l h g"
    using assms(1) by (auto simp: coverage_wf_iff)
  then show ?thesis
  proof cases
    case 1
    then have "covered c = {}" by (simp add: covered_def contains_def)
    then show ?thesis using 1 by (simp add: dp completed_span_def in_gaps_def)
  next
    case 2
    have cov: "z \<in> covered c \<longleftrightarrow> l \<le> z \<and> z \<le> h \<and> \<not> in_gaps z (gaps c)" for z
      using 2 by (auto simp: covered_def contains_def in_gaps_def list_ex_iff)
    have inside: "in_gaps z (gaps c) \<Longrightarrow> l < z \<and> z < h" for z using 2(4) by (fastforce simp: in_gaps_iff within_def)
    have "l \<in> covered c" "h \<in> covered c" using 2(3) cov inside by blast+
    then have span: "completed_span s i = {l..h}" by (auto simp: completed_span_def dp cov)
    have "l \<le> z \<and> z \<le> h" if "in_gaps z (gaps c)" for z using inside [OF that] by (simp add: less_imp_le)
    then show ?thesis unfolding span dp using cov by auto
  qed
qed

text \<open>The summary of one domain: its generation and the heights missing between its completed ones.\<close>

definition counts_missing :: "store \<Rightarrow> backfill_progress \<Rightarrow> indexable \<Rightarrow> bool" where
  "counts_missing s p i \<longleftrightarrow> (\<exists>pc. map_of (bp_coverage p) (indexable_name i) = Some pc
     \<and> unat (pc_gap_blocks pc) = card (completed_span s i - domain_points s i) \<and> pc_generation pc = generation s i)"

lemma summarize_counts:
  assumes "quiet_life env" and "cov_inv (md_store (lw_db w))" and "map_of (bp_coverage p) (indexable_name i) = None"
  shows "\<exists>p' w'. summarize env i p w = (Inr p', w') \<and> lw_db w' = lw_db w \<and> counts_missing (md_store (lw_db w)) p' i
    \<and> (\<forall>n. n \<noteq> indexable_name i \<longrightarrow> map_of (bp_coverage p') n = map_of (bp_coverage p) n)"
proof -
  let ?s = "md_store (lw_db w)"
  show ?thesis
  proof (cases "get_meta ?s (coverage_key i)")
    case None
    then have "domain_points ?s i = {}" by (simp add: domain_points_def)
    then have "completed_span ?s i - domain_points ?s i = {}" by (simp add: completed_span_def)
    then show ?thesis using None assms(3)
      by (simp add: summarize_def quiet_lquery [OF assms(1)] store_coverage_def counts_missing_def map_add_def split: option.splits)
  next
    case (Some v)
    then obtain c where c: "get_meta ?s (coverage_key i) = Some (MetaCoverage c)" "coverage_wf c"
      using assms(2) unfolding cov_inv_def sound_coverage_def by metis
    obtain n where n: "gap_count (gaps c) = Inr n" "unat n = card (completed_span ?s i - domain_points ?s i)"
      using gap_count_exact [OF c(2)] gaps_are_missing [OF c(2,1)] by auto
    show ?thesis using c(1) n assms(3)
      by (simp add: summarize_def quiet_lquery [OF assms(1)] store_coverage_def counts_missing_def map_add_def split: option.splits)
  qed
qed

text \<open>
  Undisturbed, on a store whose coverage is sound, the summary of the indexer never fails: it lists all four
  domains with their generation, and their gap counts are the heights missing between the lowest and
  the highest completed one, counted without overflow.
\<close>

theorem progress_counts_missing:
  assumes "quiet_life env" and "cov_inv (md_store (lw_db w))"
  shows "\<exists>p w'. coverage_progress env queued w = (Inr p, w') \<and> (\<forall>i. counts_missing (md_store (lw_db w)) p i)"
proof -
  let ?s = "md_store (lw_db w)"
  have fold: "\<exists>p' w'. foldj (summarize env) is p v = (Inr p', w') \<and> lw_db w' = lw_db w
      \<and> (\<forall>i\<in>set is. counts_missing ?s p' i) \<and> (\<forall>n. n \<notin> indexable_name ` set is \<longrightarrow> map_of (bp_coverage p') n = map_of (bp_coverage p) n)"
    if "lw_db v = lw_db w" "distinct is" "\<forall>i\<in>set is. map_of (bp_coverage p) (indexable_name i) = None" for "is" p v
    using that
  proof (induction "is" arbitrary: p v)
    case (Cons i "is")
    obtain p1 w1 where one: "summarize env i p v = (Inr p1, w1)" "lw_db w1 = lw_db w" "counts_missing ?s p1 i"
      "\<forall>n. n \<noteq> indexable_name i \<longrightarrow> map_of (bp_coverage p1) n = map_of (bp_coverage p) n"
      using summarize_counts [OF assms(1), of v p i] assms(2) Cons.prems by auto
    have "\<forall>j\<in>set is. map_of (bp_coverage p1) (indexable_name j) = None"
    proof
      fix j
      assume j: "j \<in> set is"
      then have "indexable_name j \<noteq> indexable_name i" using Cons.prems(2) by auto
      then show "map_of (bp_coverage p1) (indexable_name j) = None" using one(4) Cons.prems(3) j by simp
    qed
    from Cons.IH [OF one(2) _ this] Cons.prems(2) obtain p' w' where rest: "foldj (summarize env) is p1 w1 = (Inr p', w')"
      "lw_db w' = lw_db w" "\<forall>j\<in>set is. counts_missing ?s p' j"
      "\<forall>n. n \<notin> indexable_name ` set is \<longrightarrow> map_of (bp_coverage p') n = map_of (bp_coverage p1) n"
      by auto
    have "indexable_name i \<notin> indexable_name ` set is" using Cons.prems(2) by auto
    then have "counts_missing ?s p' i" using one(3) rest(4) by (simp add: counts_missing_def)
    then show ?case using one rest by simp
  qed simp
  obtain p' w' where "foldj (summarize env) DOMAINS \<lparr>bp_queue_depth = queued, bp_coverage = [], bp_difficulty_data_start_block = None\<rparr> w
      = (Inr p', w')" "\<forall>i\<in>set DOMAINS. counts_missing ?s p' i"
    using fold [of w DOMAINS "\<lparr>bp_queue_depth = queued, bp_coverage = [], bp_difficulty_data_start_block = None\<rparr>"]
    by (auto simp: DOMAINS_def)
  moreover have "i \<in> set DOMAINS" for i by (cases i) (simp_all add: DOMAINS_def)
  ultimately show ?thesis unfolding coverage_progress_def by blast
qed

text \<open>C15, for a bound store with nothing completed.\<close>

theorem progress_counts_missing_witness:
  "\<exists>p w'. coverage_progress sample_life 0 sample_life_world = (Inr p, w') \<and> counts_missing (md_store sample_db) p Winners"
proof -
  have "cov_inv (md_store (lw_db sample_life_world))"
    by (simp add: cov_inv_def sample_life_world_def sample_db_def get_meta_def coverage_key_def)
  then show ?thesis
    using progress_counts_missing [of sample_life sample_life_world 0] by (auto simp: quiet_life_def sample_life_def sample_life_world_def)
qed

end
