(* ===== verification/Config.thy ===== *)
theory Config
  imports Json
begin

text \<open>
  The configuration of the backend (\<open>quip-dashboard/src/config.rs\<close>): the parser of the environment, with its
  checks in the order of the code. \<open>url::Url::parse\<close> is an argument: what it says of a text is its scheme and
  its host, or that it is not a URL. Paths are texts.
\<close>

section \<open>Data\<close>

datatype url_value = UrlValue (url_str: string)

definition url_debug :: "url_value \<Rightarrow> string" where
  "url_debug u = ''***''"

datatype database_backend = Turso string | Postgres url_value u32

record limits =
  admitted_block_work :: u64
  live_reserved :: u64
  live_decodes :: u64
  backfill_decodes :: u64
  backfill_blocks_per_sec :: u64
  backfill_concurrency :: u64
  rpc_in_flight :: u64
  rpc_backfill_slots :: u64
  rpc_response_max_bytes :: u64
  miner_response_max_bytes :: u64
  cache_storage_bytes :: u64
  peer_probes :: u64
  miner_poll_interval_sec :: u64
  peer_cache_ttl_sec :: u64
  peer_failure_ttl_sec :: u64
  rpc_timeout_ms :: u64
  reconnect_max_backoff_ms :: u64
  shutdown_deadline_sec :: u64
  stale_progress_sec :: u64
  startup_deadline_sec :: u64

record dashboard_config =
  cfg_database :: database_backend
  run_indexer :: bool
  listen_port :: "16 word"
  validator_rpc_urls :: "url_value list"
  miner_rest_url :: url_value
  operator_account :: "string option"
  geoip_db_path :: "string option"
  data_dir :: string
  miner_colocated :: bool
  miner_attempts_dir :: "string option"
  cfg_limits :: limits

record config_error =
  ce_key :: string
  ce_reason :: string

definition config_error_text :: "config_error \<Rightarrow> string" where
  "config_error_text e = ce_key e @ '': '' @ ce_reason e"

text \<open>What the code reads of a parsed URL.\<close>

record parsed_url =
  url_scheme :: string
  url_host :: "string option"

type_synonym url_lib = "string \<Rightarrow> parsed_url option"

section \<open>Parsers of single settings\<close>

definition config_fail :: "string \<Rightarrow> string \<Rightarrow> config_error + 'a" where
  "config_fail k r = Inl \<lparr>ce_key = k, ce_reason = r\<rparr>"

text \<open>The collected map of the pairs, where a later pair replaces an earlier one, and its trimmed non-empty values.\<close>

definition config_get :: "(string \<times> string) list \<Rightarrow> string \<Rightarrow> string option" where
  "config_get pairs k = (case map_of (rev pairs) k of None \<Rightarrow> None
     | Some v \<Rightarrow> if trim v = [] then None else Some (trim v))"

definition validated_url :: "url_lib \<Rightarrow> string \<Rightarrow> string \<Rightarrow> string list \<Rightarrow> config_error + url_value" where
  "validated_url parse raw key schemes = (case parse raw of
       None \<Rightarrow> config_fail key ''invalid URL''
     | Some u \<Rightarrow> if url_scheme u \<notin> set schemes \<or> url_host u = None
         then config_fail key ''unsupported URL scheme or missing host'' else Inr (UrlValue raw))"

definition config_number :: "string option \<Rightarrow> string \<Rightarrow> u64 \<Rightarrow> u64 \<Rightarrow> u64 \<Rightarrow> config_error + u64" where
  "config_number raw key dflt lowest highest =
     rbind (case raw of None \<Rightarrow> Inr dflt | Some s \<Rightarrow>
       (case parse_unsigned s of None \<Rightarrow> config_fail key ''expected an unsigned integer'' | Some v \<Rightarrow> Inr v))
     (\<lambda>v. if lowest \<le> v \<and> v \<le> highest then Inr v else config_fail key ''value exceeds the supported limits'')"

definition database :: "url_lib \<Rightarrow> string option \<Rightarrow> string option \<Rightarrow> string option \<Rightarrow> config_error + database_backend" where
  "database parse raw pool path = (case raw of
       Some value \<Rightarrow> rbind (validated_url parse value ''DATABASE_URL'' [''postgres'', ''postgresql'']) (\<lambda>url.
         let max_connections = (case Option.bind pool parse_unsigned of
               Some n \<Rightarrow> if 0 < n then n else 10 | None \<Rightarrow> 10)
         in if 64 < max_connections then config_fail ''DATABASE_POOL_MAX'' ''must be at most 64''
            else Inr (Postgres url max_connections))
     | None \<Rightarrow> Inr (Turso (case path of Some p \<Rightarrow> p | None \<Rightarrow> ''/data/dashboard.db'')))"

definition config_flag :: "string option \<Rightarrow> string \<Rightarrow> string \<Rightarrow> config_error + bool" where
  "config_flag raw key dflt =
     (let v = map ascii_lower (case raw of Some s \<Rightarrow> s | None \<Rightarrow> dflt)
      in if v = ''true'' \<or> v = ''1'' then Inr True
         else if v = ''false'' \<or> v = ''0'' then Inr False
         else config_fail key ''expected true, false, 1, or 0'')"

definition default_limits :: "u64 \<Rightarrow> limits" where
  "default_limits poll = \<lparr>
     admitted_block_work = 64, live_reserved = 8, live_decodes = 1, backfill_decodes = 1,
     backfill_blocks_per_sec = 1, backfill_concurrency = 1, rpc_in_flight = 4, rpc_backfill_slots = 2,
     rpc_response_max_bytes = 16 * 1024 * 1024, miner_response_max_bytes = 4 * 1024 * 1024,
     cache_storage_bytes = 32 * 1024 * 1024, peer_probes = 2, miner_poll_interval_sec = poll,
     peer_cache_ttl_sec = 5, peer_failure_ttl_sec = 60, rpc_timeout_ms = 15000,
     reconnect_max_backoff_ms = 30000, shutdown_deadline_sec = 20, stale_progress_sec = 90,
     startup_deadline_sec = 60\<rparr>"

section \<open>The environment\<close>

definition validator_urls :: "url_lib \<Rightarrow> string option \<Rightarrow> config_error + url_value list" where
  "validator_urls parse raw =
     rbind (rmap_list (\<lambda>v. validated_url parse (trim_end_matches (CHR ''/'') v) ''QUIP_VALIDATOR_RPC_URLS'' [''ws'', ''wss''])
              (filter (\<lambda>s. s \<noteq> []) (map trim (split_on (CHR '','')
                 (case raw of Some s \<Rightarrow> s | None \<Rightarrow> ''ws://quip-validator:9944'')))))
     (\<lambda>urls. if urls = [] then config_fail ''QUIP_VALIDATOR_RPC_URLS'' ''at least one endpoint is required''
        else Inr urls)"

definition fixed_settings :: "(string \<times> u64) list" where
  "fixed_settings = [
     (''QUIP_VALIDATOR_BACKFILL_BLOCKS_PER_SEC'', 1),
     (''QUIP_VALIDATOR_BACKFILL_CONCURRENCY'', 1),
     (''QUIP_VALIDATOR_RPC_TIMEOUT_MS'', 15000),
     (''QUIP_VALIDATOR_RECONNECT_MAX_BACKOFF_MS'', 30000)]"

definition removed_settings :: "string list" where
  "removed_settings = [''QUIP_VALIDATOR_BABE_POLL_SEC'', ''QUIP_VALIDATOR_CHAIN_POLL_SEC'',
     ''NODES_REFRESH_SEC'', ''STALL_WARN_AFTER_SEC'']"

definition base58_digits :: string where
  "base58_digits = ''123456789ABCDEFGHJKLMNPQRSTUVWXYZabcdefghijkmnopqrstuvwxyz''"

definition check_account :: "string option \<Rightarrow> config_error + unit" where
  "check_account acct = (case acct of None \<Rightarrow> Inr ()
     | Some a \<Rightarrow> if \<not> (46 \<le> length a \<and> length a \<le> 50) \<or> \<not> list_all (\<lambda>b. b \<in> set base58_digits) a
         then config_fail ''QUIP_OPERATOR_ACCOUNT'' ''expected an SS58 account with 46 to 50 base58 characters''
         else Inr ())"

text \<open>Without its workers the process needs a database that another process fills.\<close>

definition check_mode :: "database_backend \<Rightarrow> bool \<Rightarrow> config_error + unit" where
  "check_mode db indexer = (case db of
       Turso _ \<Rightarrow> if \<not> indexer then config_fail ''RUN_INDEXER'' ''API-only mode requires PostgreSQL'' else Inr ()
     | Postgres _ _ \<Rightarrow> Inr ())"

definition port_u16 :: "u64 \<Rightarrow> config_error + 16 word" where
  "port_u16 port = (if unat port < 2 ^ 16 then Inr (ucast port) else config_fail ''PORT'' ''invalid port'')"

definition removed_reason :: string where
  "removed_reason = ''removed setting: reconciliation follows finalized heads and health uses progress''"

definition from_pairs :: "url_lib \<Rightarrow> (string \<times> string) list \<Rightarrow> config_error + dashboard_config" where
  "from_pairs parse pairs = (let get = config_get pairs in
     rbind (database parse (get ''DATABASE_URL'') (get ''DATABASE_POOL_MAX'') (get ''QUIP_EMBEDDED_DB_PATH'')) (\<lambda>db.
     rbind (config_flag (get ''RUN_INDEXER'') ''RUN_INDEXER'' ''true'') (\<lambda>indexer.
     rbind (check_mode db indexer) (\<lambda>_.
     rbind (validator_urls parse (get ''QUIP_VALIDATOR_RPC_URLS'')) (\<lambda>urls.
     rbind (validated_url parse (trim_end_matches (CHR ''/'')
              (case get ''QUIP_MINER_REST_URL'' of Some s \<Rightarrow> s | None \<Rightarrow> ''http://quip-miner:8086''))
              ''QUIP_MINER_REST_URL'' [''http'', ''https'']) (\<lambda>rest.
     rbind (config_number (get ''PORT'') ''PORT'' 3001 1 65535) (\<lambda>port.
     rbind (config_number (get ''POLL_INTERVAL_SEC'') ''POLL_INTERVAL_SEC'' 8 8 60) (\<lambda>poll.
     rbind (rmap_list (\<lambda>(k, v). config_number (get k) k v v v) fixed_settings) (\<lambda>_.
     rbind (rmap_list (\<lambda>k. case get k of Some _ \<Rightarrow> config_fail k removed_reason | None \<Rightarrow> Inr ())
              removed_settings) (\<lambda>_.
     rbind (config_flag (get ''QUIP_MINER_COLOCATED'') ''QUIP_MINER_COLOCATED'' ''false'') (\<lambda>colocated.
     rbind (check_account (get ''QUIP_OPERATOR_ACCOUNT'')) (\<lambda>_.
     rbind (port_u16 port) (\<lambda>port16.
     Inr \<lparr>cfg_database = db, run_indexer = indexer, listen_port = port16, validator_rpc_urls = urls,
          miner_rest_url = rest, operator_account = get ''QUIP_OPERATOR_ACCOUNT'',
          geoip_db_path = get ''GEOIP_DB_PATH'',
          data_dir = (case get ''QUIP_DATA_DIR'' of Some d \<Rightarrow> d | None \<Rightarrow> ''/data''),
          miner_colocated = colocated,
          miner_attempts_dir = (case get ''QUIP_MINER_ATTEMPTS_DIR'' of Some d \<Rightarrow> Some d
            | None \<Rightarrow> if colocated then Some ''data/attempts'' else None),
          cfg_limits = default_limits poll\<rparr>)))))))))))))"

definition is_api_only :: "dashboard_config \<Rightarrow> bool" where
  "is_api_only c \<longleftrightarrow> \<not> run_indexer c"

section \<open>What an accepted value satisfies\<close>

lemma config_fail_neq [simp]: "config_fail k r \<noteq> Inr x"
  by (simp add: config_fail_def)

lemma config_fail_Inl [simp]: "(config_fail k r = Inl e) = (e = \<lparr>ce_key = k, ce_reason = r\<rparr>)"
  by (auto simp: config_fail_def)

text \<open>A URL with one of the schemes and a host.\<close>

definition usable_url :: "url_lib \<Rightarrow> string list \<Rightarrow> string \<Rightarrow> bool" where
  "usable_url parse schemes s \<longleftrightarrow> (case parse s of None \<Rightarrow> False
     | Some u \<Rightarrow> url_scheme u \<in> set schemes \<and> url_host u \<noteq> None)"

lemma validated_url_Inr:
  "(validated_url parse raw key schemes = Inr u) = (u = UrlValue raw \<and> usable_url parse schemes raw)"
  by (auto simp: validated_url_def usable_url_def split: option.splits)

lemma config_number_Inr:
  "(config_number raw key d lo hi = Inr v) =
   ((case raw of None \<Rightarrow> v = d | Some s \<Rightarrow> parse_unsigned s = Some v) \<and> lo \<le> v \<and> v \<le> hi)"
  by (auto simp: config_number_def rbind_Inr split: option.splits)

lemma config_flag_Inr:
  "(config_flag raw key d = Inr b) =
   (let v = map ascii_lower (case raw of Some s \<Rightarrow> s | None \<Rightarrow> d)
    in (if b then v = ''true'' \<or> v = ''1'' else v = ''false'' \<or> v = ''0''))"
  by (auto simp: config_flag_def Let_def)

text \<open>The pool limit: what parses as a positive number, and ten otherwise.\<close>

definition pool_size :: "string option \<Rightarrow> u32" where
  "pool_size pool = (case Option.bind pool parse_unsigned of Some n \<Rightarrow> if 0 < n then n else 10 | None \<Rightarrow> 10)"

lemma pool_size_positive: "1 \<le> pool_size pool"
  by (auto simp: pool_size_def word_le_nat_alt word_less_nat_alt Suc_le_eq split: option.splits)

lemma database_Inr:
  "(database parse raw pool path = Inr db) = (case raw of
     None \<Rightarrow> db = Turso (case path of Some p \<Rightarrow> p | None \<Rightarrow> ''/data/dashboard.db'')
   | Some s \<Rightarrow> usable_url parse [''postgres'', ''postgresql''] s \<and> pool_size pool \<le> 64
       \<and> db = Postgres (UrlValue s) (pool_size pool))"
  unfolding database_def Let_def pool_size_def [symmetric]
  by (auto simp: rbind_Inr validated_url_Inr not_less split: option.splits if_splits)

lemma trim_end_matches_last: "trim_end_matches c s = [] \<or> last (trim_end_matches c s) \<noteq> c"
  using hd_dropWhile [of "\<lambda>d. d = c" "rev s"]
  by (cases "dropWhile (\<lambda>d. d = c) (rev s)") (auto simp: trim_end_matches_def)

text \<open>The endpoints a list of validators names, in its order.\<close>

definition endpoint_texts :: "string \<Rightarrow> string list" where
  "endpoint_texts s = map (trim_end_matches (CHR ''/'')) (filter (\<lambda>p. p \<noteq> []) (map trim (split_on (CHR '','') s)))"

lemma urls_of_texts:
  "list_all2 (\<lambda>v u. u = UrlValue (f v) \<and> P (f v)) vs us \<Longrightarrow> us = map UrlValue (map f vs) \<and> (\<forall>u\<in>set us. P (url_str u))"
  by (induction rule: list_all2_induct) auto

lemma validator_urls_Inr:
  assumes "validator_urls parse raw = Inr urls"
  shows "urls \<noteq> []"
    and "urls = map UrlValue (endpoint_texts (case raw of Some s \<Rightarrow> s | None \<Rightarrow> ''ws://quip-validator:9944''))"
    and "\<forall>u\<in>set urls. usable_url parse [''ws'', ''wss''] (url_str u)"
proof -
  show "urls \<noteq> []" using assms by (auto simp: validator_urls_def rbind_Inr split: if_splits)
  show "urls = map UrlValue (endpoint_texts (case raw of Some s \<Rightarrow> s | None \<Rightarrow> ''ws://quip-validator:9944''))"
    and "\<forall>u\<in>set urls. usable_url parse [''ws'', ''wss''] (url_str u)"
    using assms unfolding validator_urls_def rbind_Inr rmap_list_Inr validated_url_Inr endpoint_texts_def
    by (auto dest!: urls_of_texts split: if_splits)
qed

lemma fixed_settings_kept:
  assumes "rmap_list (\<lambda>(k, v). config_number (get k) k v v v) fixed_settings = Inr vs"
    and "(k, v) \<in> set fixed_settings" and "get k = Some s"
  shows "parse_unsigned s = Some v"
proof -
  have "\<exists>y. config_number (get k) k v v v = Inr y"
    using assms(1,2) unfolding rmap_list_Inr by (auto simp: list_all2_conv_all_nth in_set_conv_nth)
  then show ?thesis using assms(3) by (auto simp: config_number_Inr)
qed

lemma removed_settings_unset:
  assumes "rmap_list (\<lambda>k. case get k of Some _ \<Rightarrow> config_fail k removed_reason | None \<Rightarrow> Inr ()) removed_settings = Inr vs"
    and "k \<in> set removed_settings"
  shows "get k = None"
  using assms unfolding rmap_list_Inr
  by (auto simp: list_all2_conv_all_nth in_set_conv_nth) (metis config_fail_neq option.case_eq_if)

lemma check_account_Inr:
  "check_account a = Inr x \<Longrightarrow> a = Some t \<Longrightarrow> 46 \<le> length t \<and> length t \<le> 50 \<and> set t \<subseteq> set base58_digits"
  by (auto simp: check_account_def list_all_iff split: if_splits)

lemma port_ucast:
  fixes p :: u64
  assumes "1 \<le> p" and "p \<le> 65535"
  shows "uint (ucast p :: 16 word) = uint p"
proof -
  have "uint p \<le> 65535" using assms(2) by (simp add: word_le_def)
  then show ?thesis by (simp add: uint_up_ucast unsigned_ucast_eq take_bit_eq_mod)
qed

lemma from_pairs_cases:
  assumes "from_pairs parse pairs = Inr c"
  obtains port poll vs ws where
    "database parse (config_get pairs ''DATABASE_URL'') (config_get pairs ''DATABASE_POOL_MAX'')
       (config_get pairs ''QUIP_EMBEDDED_DB_PATH'') = Inr (cfg_database c)"
    "config_flag (config_get pairs ''RUN_INDEXER'') ''RUN_INDEXER'' ''true'' = Inr (run_indexer c)"
    "check_mode (cfg_database c) (run_indexer c) = Inr ()"
    "validator_urls parse (config_get pairs ''QUIP_VALIDATOR_RPC_URLS'') = Inr (validator_rpc_urls c)"
    "validated_url parse (trim_end_matches (CHR ''/'')
       (case config_get pairs ''QUIP_MINER_REST_URL'' of Some s \<Rightarrow> s | None \<Rightarrow> ''http://quip-miner:8086''))
       ''QUIP_MINER_REST_URL'' [''http'', ''https''] = Inr (miner_rest_url c)"
    "config_number (config_get pairs ''PORT'') ''PORT'' 3001 1 65535 = Inr port"
    "port_u16 port = Inr (listen_port c)"
    "config_number (config_get pairs ''POLL_INTERVAL_SEC'') ''POLL_INTERVAL_SEC'' 8 8 60
       = Inr poll" "cfg_limits c = default_limits poll"
    "rmap_list (\<lambda>(k, v). config_number (config_get pairs k) k v v v) fixed_settings = Inr vs"
    "rmap_list (\<lambda>k. case config_get pairs k of Some _ \<Rightarrow> config_fail k removed_reason | None \<Rightarrow> Inr ())
       removed_settings = Inr ws"
    "config_flag (config_get pairs ''QUIP_MINER_COLOCATED'') ''QUIP_MINER_COLOCATED'' ''false'' = Inr (miner_colocated c)"
    "check_account (config_get pairs ''QUIP_OPERATOR_ACCOUNT'') = Inr ()"
    "operator_account c = config_get pairs ''QUIP_OPERATOR_ACCOUNT''"
  using assms unfolding from_pairs_def Let_def rbind_Inr
  apply (elim exE conjE)
  apply (unfold sum.inject unit_eq)
  apply hypsubst
  apply (rule that)
  apply (simp_all only: dashboard_config.simps unit_eq)
  apply (simp_all add: unit_eq)
  done

text \<open>What the checks of the other settings promise of an accepted configuration.\<close>

definition config_sound :: "url_lib \<Rightarrow> (string \<times> string) list \<Rightarrow> dashboard_config \<Rightarrow> bool" where
  "config_sound parse pairs c \<longleftrightarrow>
     (is_api_only c \<longrightarrow> (case cfg_database c of Postgres _ _ \<Rightarrow> True | Turso _ \<Rightarrow> False))
   \<and> 1 \<le> uint (listen_port c)
   \<and> 8 \<le> miner_poll_interval_sec (cfg_limits c) \<and> miner_poll_interval_sec (cfg_limits c) \<le> 60
   \<and> usable_url parse [''http'', ''https''] (url_str (miner_rest_url c))
   \<and> (case operator_account c of None \<Rightarrow> True
      | Some a \<Rightarrow> 46 \<le> length a \<and> length a \<le> 50 \<and> set a \<subseteq> set base58_digits)
   \<and> list_all (\<lambda>k. config_get pairs k = None) removed_settings
   \<and> list_all (\<lambda>(k, v). case config_get pairs k of None \<Rightarrow> True | Some s \<Rightarrow> parse_unsigned s = Some v) fixed_settings"

definition demo_urls :: url_lib where
  "demo_urls s = (if take 6 s = ''wss://'' then Some \<lparr>url_scheme = ''wss'', url_host = Some (drop 6 s)\<rparr>
     else if take 5 s = ''ws://'' then Some \<lparr>url_scheme = ''ws'', url_host = Some (drop 5 s)\<rparr>
     else if take 7 s = ''http://'' then Some \<lparr>url_scheme = ''http'', url_host = Some (drop 7 s)\<rparr>
     else if take 11 s = ''postgres://'' then Some \<lparr>url_scheme = ''postgres'', url_host = Some (drop 11 s)\<rparr> else None)"

definition demo_pairs :: "(string \<times> string) list" where
  "demo_pairs = [(''PORT'', ''70000''), (''PORT'', '' 8080 ''), (''RUN_INDEXER'', ''False''),
     (''DATABASE_URL'', ''postgres://db/q''), (''DATABASE_POOL_MAX'', ''none''),
     (''QUIP_VALIDATOR_RPC_URLS'', ''ws://a:1/, ,wss://b''), (''QUIP_VALIDATOR_RPC_TIMEOUT_MS'', ''15000'')]"

lemma decimal_8080: "parse_unsigned ''8080'' = Some (8080 :: u64)"
  by (simp add: parse_unsigned_def strip_plus_def is_digit_def dec_val_def digit_val_def)

lemma decimal_15000: "parse_unsigned ''15000'' = Some (15000 :: u64)"
  by (simp add: parse_unsigned_def strip_plus_def is_digit_def dec_val_def digit_val_def)

lemma demo_gets:
  "config_get demo_pairs ''PORT'' = Some ''8080''"
  "config_get demo_pairs ''RUN_INDEXER'' = Some ''False''"
  "config_get demo_pairs ''DATABASE_URL'' = Some ''postgres://db/q''"
  "config_get demo_pairs ''DATABASE_POOL_MAX'' = Some ''none''"
  "config_get demo_pairs ''QUIP_VALIDATOR_RPC_URLS'' = Some ''ws://a:1/, ,wss://b''"
  "config_get demo_pairs ''QUIP_VALIDATOR_RPC_TIMEOUT_MS'' = Some ''15000''"
  "config_get demo_pairs ''QUIP_EMBEDDED_DB_PATH'' = None"
  "config_get demo_pairs ''QUIP_MINER_REST_URL'' = None"
  "config_get demo_pairs ''POLL_INTERVAL_SEC'' = None"
  "config_get demo_pairs ''QUIP_MINER_COLOCATED'' = None"
  "config_get demo_pairs ''QUIP_OPERATOR_ACCOUNT'' = None"
  by code_simp+

lemma demo_endpoint_texts:
  "rmap_list (\<lambda>(k, v). config_number (config_get demo_pairs k) k v v v) fixed_settings = Inr [1, 1, 15000, 30000]"
  "rmap_list (\<lambda>k. case config_get demo_pairs k of Some _ \<Rightarrow> config_fail k removed_reason | None \<Rightarrow> Inr ())
              removed_settings = Inr [(), (), (), ()]"
  "database demo_urls (Some ''postgres://db/q'') (Some ''none'') None = Inr (Postgres (UrlValue ''postgres://db/q'') 10)"
  "config_flag (Some ''False'') ''RUN_INDEXER'' ''true'' = Inr False"
  "config_flag None ''QUIP_MINER_COLOCATED'' ''false'' = Inr False"
  "validator_urls demo_urls (Some ''ws://a:1/, ,wss://b'') = Inr [UrlValue ''ws://a:1'', UrlValue ''wss://b'']"
  "validated_url demo_urls (trim_end_matches (CHR ''/'') ''http://quip-miner:8086'') ''QUIP_MINER_REST_URL''
     [''http'', ''https''] = Inr (UrlValue ''http://quip-miner:8086'')"
  subgoal by (simp add: fixed_settings_def config_number_def demo_gets decimal_15000) (code_simp)
  subgoal by code_simp
  subgoal by code_simp
  subgoal by code_simp
  subgoal by code_simp
  subgoal by code_simp
  subgoal by code_simp
  done

lemma demo_numbers:
  "config_number (Some ''8080'') ''PORT'' 3001 1 65535 = Inr 8080"
  "config_number None ''POLL_INTERVAL_SEC'' 8 8 60 = Inr 8"
  by (simp_all add: config_number_def decimal_8080)

lemma listen_port_positive:
  assumes "config_number raw key d 1 65535 = Inr port" and "port_u16 port = Inr p"
  shows "1 \<le> uint p"
  using assms port_ucast [of port]
  by (auto simp: config_number_Inr port_u16_def word_le_def split: if_splits)

lemma from_pairs_sound:
  assumes "from_pairs parse pairs = Inr c"
  shows "config_sound parse pairs c"
  unfolding config_sound_def
proof (intro conjI)
  from assms obtain port poll vs ws where
    m: "check_mode (cfg_database c) (run_indexer c) = Inr ()"
    and r: "validated_url parse (trim_end_matches (CHR ''/'')
       (case config_get pairs ''QUIP_MINER_REST_URL'' of Some s \<Rightarrow> s | None \<Rightarrow> ''http://quip-miner:8086''))
       ''QUIP_MINER_REST_URL'' [''http'', ''https''] = Inr (miner_rest_url c)"
    and p: "config_number (config_get pairs ''PORT'') ''PORT'' 3001 1 65535 = Inr port"
      "port_u16 port = Inr (listen_port c)"
    and i: "config_number (config_get pairs ''POLL_INTERVAL_SEC'') ''POLL_INTERVAL_SEC'' 8 8 60 = Inr poll"
      "cfg_limits c = default_limits poll"
    and f: "rmap_list (\<lambda>(k, v). config_number (config_get pairs k) k v v v) fixed_settings = Inr vs"
    and g: "rmap_list (\<lambda>k. case config_get pairs k of Some _ \<Rightarrow> config_fail k removed_reason | None \<Rightarrow> Inr ())
       removed_settings = Inr ws"
    and a: "check_account (operator_account c) = Inr ()"
    by (rule from_pairs_cases) simp
  show "is_api_only c \<longrightarrow> (case cfg_database c of Postgres _ _ \<Rightarrow> True | Turso _ \<Rightarrow> False)"
    using m by (auto simp: check_mode_def is_api_only_def split: database_backend.splits if_splits)
  show "1 \<le> uint (listen_port c)" using p by (rule listen_port_positive)
  show "8 \<le> miner_poll_interval_sec (cfg_limits c)" and "miner_poll_interval_sec (cfg_limits c) \<le> 60"
    using i by (simp_all add: config_number_Inr default_limits_def)
  show "usable_url parse [''http'', ''https''] (url_str (miner_rest_url c))"
    using r by (auto simp: validated_url_Inr)
  show "case operator_account c of None \<Rightarrow> True
      | Some t \<Rightarrow> 46 \<le> length t \<and> length t \<le> 50 \<and> set t \<subseteq> set base58_digits"
    using check_account_Inr [OF a] by (auto split: option.splits)
  show "list_all (\<lambda>k. config_get pairs k = None) removed_settings"
    using removed_settings_unset [OF g] by (simp add: list_all_iff)
  show "list_all (\<lambda>(k, v). case config_get pairs k of None \<Rightarrow> True | Some s \<Rightarrow> parse_unsigned s = Some v) fixed_settings"
    using fixed_settings_kept [OF f] by (auto simp: list_all_iff split: option.splits)
qed

lemma database_never_falls_back:
  assumes "from_pairs parse pairs = Inr c"
  shows "case config_get pairs ''DATABASE_URL'' of None \<Rightarrow> (\<exists>p. cfg_database c = Turso p)
    | Some s \<Rightarrow> usable_url parse [''postgres'', ''postgresql''] s
        \<and> (\<exists>n. cfg_database c = Postgres (UrlValue s) n \<and> 1 \<le> n \<and> n \<le> 64)"
  using assms by (rule from_pairs_cases) (auto simp: database_Inr pool_size_positive split: option.splits)

lemma endpoints_in_order:
  assumes "from_pairs parse pairs = Inr c"
  shows "validator_rpc_urls c \<noteq> []"
    and "map url_str (validator_rpc_urls c) = endpoint_texts
      (case config_get pairs ''QUIP_VALIDATOR_RPC_URLS'' of Some s \<Rightarrow> s | None \<Rightarrow> ''ws://quip-validator:9944'')"
    and "\<forall>u\<in>set (validator_rpc_urls c). usable_url parse [''ws'', ''wss''] (url_str u)"
  using assms by (rule from_pairs_cases, auto dest: validator_urls_Inr simp: comp_def)+

text \<open>
  C19. An accepted configuration never replaces a given database URL by the embedded database, keeps the pool
  within 1 to 64, lists the validators' endpoints in their order, at least one and each a WebSocket URL with a
  host, and satisfies every other check: API-only only on Postgres, a port from 1, a poll of 8 to 60 seconds, a
  miner URL with a host, an account of 46 to 50 base58 digits, no removed setting and no changed fixed one.
\<close>

theorem accepted_config_sound:
  assumes "from_pairs parse pairs = Inr c"
  shows "(case config_get pairs ''DATABASE_URL'' of None \<Rightarrow> (\<exists>p. cfg_database c = Turso p)
       | Some s \<Rightarrow> usable_url parse [''postgres'', ''postgresql''] s
           \<and> (\<exists>n. cfg_database c = Postgres (UrlValue s) n \<and> 1 \<le> n \<and> n \<le> 64))
    \<and> validator_rpc_urls c \<noteq> []
    \<and> map url_str (validator_rpc_urls c) = endpoint_texts
        (case config_get pairs ''QUIP_VALIDATOR_RPC_URLS'' of Some s \<Rightarrow> s | None \<Rightarrow> ''ws://quip-validator:9944'')
    \<and> (\<forall>u\<in>set (validator_rpc_urls c). usable_url parse [''ws'', ''wss''] (url_str u))
    \<and> config_sound parse pairs c"
  using database_never_falls_back [OF assms] endpoints_in_order [OF assms] from_pairs_sound [OF assms] by blast

text \<open>C19 for an environment with a port and two endpoints.\<close>

theorem accepted_config_sound_witness:
  "\<exists>c. from_pairs demo_urls demo_pairs = Inr c \<and> uint (listen_port c) = 8080
     \<and> map url_str (validator_rpc_urls c) = [''ws://a:1'', ''wss://b'']
     \<and> cfg_database c = Postgres (UrlValue ''postgres://db/q'') 10 \<and> config_sound demo_urls demo_pairs c"
proof -
  obtain c where eq: "from_pairs demo_urls demo_pairs = Inr c" and "listen_port c = 8080"
    and "validator_rpc_urls c = [UrlValue ''ws://a:1'', UrlValue ''wss://b'']"
    and "cfg_database c = Postgres (UrlValue ''postgres://db/q'') 10"
    by (simp add: from_pairs_def Let_def demo_gets demo_endpoint_texts demo_numbers
        check_mode_def check_account_def port_u16_def)
  with accepted_config_sound [OF eq] show ?thesis by simp
qed

section \<open>Messages\<close>

text \<open>All keys and reasons a configuration error can have. The list does not depend on the environment.\<close>

definition config_messages :: "(string \<times> string) list" where
  "config_messages =
     [(k, r). k \<leftarrow> [''DATABASE_URL'', ''QUIP_VALIDATOR_RPC_URLS'', ''QUIP_MINER_REST_URL''],
              r \<leftarrow> [''invalid URL'', ''unsupported URL scheme or missing host'']]
   @ [(k, r). k \<leftarrow> [''PORT'', ''POLL_INTERVAL_SEC''] @ map fst fixed_settings,
              r \<leftarrow> [''expected an unsigned integer'', ''value exceeds the supported limits'']]
   @ [(k, ''expected true, false, 1, or 0''). k \<leftarrow> [''RUN_INDEXER'', ''QUIP_MINER_COLOCATED'']]
   @ [(k, removed_reason). k \<leftarrow> removed_settings]
   @ [(''DATABASE_POOL_MAX'', ''must be at most 64''), (''RUN_INDEXER'', ''API-only mode requires PostgreSQL''),
      (''QUIP_VALIDATOR_RPC_URLS'', ''at least one endpoint is required''), (''PORT'', ''invalid port''),
      (''QUIP_OPERATOR_ACCOUNT'', ''expected an SS58 account with 46 to 50 base58 characters'')]"

definition known_error :: "config_error \<Rightarrow> bool" where
  "known_error e \<longleftrightarrow> (ce_key e, ce_reason e) \<in> set config_messages"

lemma rmap_list_Inl: "rmap_list f xs = Inl e \<Longrightarrow> \<exists>x\<in>set xs. f x = Inl e"
  by (induction xs) (auto simp: rbind_Inl)

lemma validated_url_Inl:
  "validated_url parse raw k ss = Inl e \<Longrightarrow> k \<in> {''DATABASE_URL'', ''QUIP_VALIDATOR_RPC_URLS'', ''QUIP_MINER_REST_URL''}
    \<Longrightarrow> known_error e"
  by (auto simp: validated_url_def known_error_def config_messages_def split: option.splits if_splits)

lemma config_number_Inl:
  "config_number raw k d lo hi = Inl e \<Longrightarrow> k \<in> {''PORT'', ''POLL_INTERVAL_SEC''} \<union> fst ` set fixed_settings \<Longrightarrow> known_error e"
  by (auto simp: config_number_def rbind_Inl known_error_def config_messages_def split: option.splits if_splits)

lemma config_flag_Inl:
  "config_flag raw k d = Inl e \<Longrightarrow> k \<in> {''RUN_INDEXER'', ''QUIP_MINER_COLOCATED''} \<Longrightarrow> known_error e"
  by (auto simp: config_flag_def Let_def known_error_def config_messages_def split: if_splits)

lemma database_Inl: "database parse raw pool path = Inl e \<Longrightarrow> known_error e"
  by (auto simp: database_def Let_def rbind_Inl dest: validated_url_Inl split: option.splits if_splits)
    (auto simp: known_error_def config_messages_def)

lemma other_checks_Inl:
  "check_mode db b = Inl e \<Longrightarrow> known_error e"
  "check_account a = Inl e \<Longrightarrow> known_error e"
  "port_u16 p = Inl e \<Longrightarrow> known_error e"
  by (auto simp: check_mode_def check_account_def port_u16_def known_error_def config_messages_def
      split: database_backend.splits option.splits if_splits)

lemma validator_urls_Inl: "validator_urls parse raw = Inl e \<Longrightarrow> known_error e"
  by (auto simp: validator_urls_def rbind_Inl dest!: rmap_list_Inl dest: validated_url_Inl split: if_splits)
    (auto simp: known_error_def config_messages_def)

lemma fixed_settings_Inl:
  assumes "rmap_list (\<lambda>(k, v). config_number (get k) k v v v) fixed_settings = Inl e"
  shows "known_error e"
proof -
  from rmap_list_Inl [OF assms] obtain k v where "(k, v) \<in> set fixed_settings"
    and "config_number (get k) k v v v = Inl e" by auto
  then show ?thesis by (intro config_number_Inl) (auto intro: rev_image_eqI)
qed

lemma removed_settings_Inl:
  assumes "rmap_list (\<lambda>k. case get k of Some _ \<Rightarrow> config_fail k removed_reason | None \<Rightarrow> Inr ()) removed_settings = Inl e"
  shows "known_error e"
proof -
  from rmap_list_Inl [OF assms] obtain k where "k \<in> set removed_settings"
    and "e = \<lparr>ce_key = k, ce_reason = removed_reason\<rparr>" by (auto split: option.splits)
  then show ?thesis by (auto simp: known_error_def config_messages_def)
qed

text \<open>
  Whatever the environment holds, a refusal is one of finitely many fixed messages, so no value of a setting
  reaches the text of an error.
\<close>

theorem config_errors_hide_values:
  assumes "from_pairs parse pairs = Inl e"
  shows "config_error_text e \<in> set (map (\<lambda>(k, r). k @ '': '' @ r) config_messages)"
proof -
  have "known_error e"
    using assms unfolding from_pairs_def Let_def rbind_Inl
    by (elim disjE exE conjE)
      (erule database_Inl config_flag_Inl other_checks_Inl validator_urls_Inl validated_url_Inl config_number_Inl
        fixed_settings_Inl removed_settings_Inl, simp?)+
  then show ?thesis by (force simp: known_error_def config_error_text_def)
qed

end
