(* ===== verification/Geo.thy ===== *)
theory Geo
  imports Json Float64
begin

text \<open>
  The offline city lookup of the nodes document (\<open>quip-dashboard/src/http/geo.rs\<close>): which published hosts may
  reach the resolver, which addresses may reach the database, and the cache of answers between them. The
  resolver and the city database are arguments. Addresses are their bytes or segments; their parser and their
  text are those of the standard library.
\<close>

unbundle bit_operations_syntax

section \<open>Addresses\<close>

type_synonym u16 = "16 word"

datatype ip_addr = V4 u8 u8 u8 u8 | V6 u16 u16 u16 u16 u16 u16 u16 u16

definition high_byte :: "u16 \<Rightarrow> u8" where
  "high_byte s = ucast (drop_bit 8 s)"

definition low_byte :: "u16 \<Rightarrow> u8" where
  "low_byte s = ucast s"

fun to_canonical :: "ip_addr \<Rightarrow> ip_addr" where
  "to_canonical (V4 a b c d) = V4 a b c d"
| "to_canonical (V6 a b c d e f g h) =
     (if a = 0 \<and> b = 0 \<and> c = 0 \<and> d = 0 \<and> e = 0 \<and> f = 0xffff
      then V4 (high_byte g) (low_byte g) (high_byte h) (low_byte h) else V6 a b c d e f g h)"

text \<open>\<open>IpAddr::from_str\<close>: a parser reads a prefix and returns the rest.\<close>

type_synonym 'a reader = "string \<Rightarrow> ('a \<times> string) option"

definition hex_digit_val :: "char \<Rightarrow> nat option" where
  "hex_digit_val ch = (let n = of_char ch :: nat in
     if 48 \<le> n \<and> n \<le> 57 then Some (n - 48)
     else if 97 \<le> n \<and> n \<le> 102 then Some (n - 87)
     else if 65 \<le> n \<and> n \<le> 70 then Some (n - 55) else None)"

definition radix_digit :: "nat \<Rightarrow> char \<Rightarrow> nat option" where
  "radix_digit radix ch = (case hex_digit_val ch of None \<Rightarrow> None | Some d \<Rightarrow> if d < radix then Some d else None)"

definition read_number :: "nat \<Rightarrow> nat \<Rightarrow> bool \<Rightarrow> nat \<Rightarrow> nat reader" where
  "read_number radix max_digits allow_zero_prefix max_value s =
     (let ds = takeWhile (\<lambda>ch. radix_digit radix ch \<noteq> None) s;
          v = foldl (\<lambda>n ch. n * radix + the (radix_digit radix ch)) 0 ds
      in if ds = [] \<or> max_digits < length ds \<or> \<not> allow_zero_prefix \<and> hd ds = CHR ''0'' \<and> 1 < length ds
            \<or> max_value < v then None
         else Some (v, drop (length ds) s))"

definition read_given_char :: "char \<Rightarrow> unit reader" where
  "read_given_char c s = (case s of [] \<Rightarrow> None | d # t \<Rightarrow> if d = c then Some ((), t) else None)"

definition read_separator :: "char \<Rightarrow> nat \<Rightarrow> 'a reader \<Rightarrow> 'a reader" where
  "read_separator sep i inner s =
     (if 0 < i then Option.bind (read_given_char sep s) (\<lambda>(_, t). inner t) else inner s)"

fun read_octets :: "nat \<Rightarrow> nat \<Rightarrow> u8 list reader" where
  "read_octets i 0 s = Some ([], s)"
| "read_octets i (Suc n) s =
     (case read_separator (CHR ''.'') i (read_number 10 3 False 255) s of None \<Rightarrow> None
      | Some (v, t) \<Rightarrow> (case read_octets (Suc i) n t of None \<Rightarrow> None
         | Some (vs, u) \<Rightarrow> Some (of_nat v # vs, u)))"

definition be16 :: "u8 \<Rightarrow> u8 \<Rightarrow> u16" where
  "be16 hi lo = ucast hi * 256 + ucast lo"

text \<open>Up to \<open>limit\<close> groups; the flag says that the last two came from an embedded IPv4 address.\<close>

function read_groups :: "nat \<Rightarrow> nat \<Rightarrow> string \<Rightarrow> (u16 list \<times> bool) \<times> string" where
  "read_groups limit i s =
     (if limit \<le> i then (([], False), s)
      else case (if i + 1 < limit then read_separator (CHR '':'') i (read_octets 0 4) s else None) of
        Some (vs, t) \<Rightarrow> (([be16 (vs ! 0) (vs ! 1), be16 (vs ! 2) (vs ! 3)], True), t)
      | None \<Rightarrow> (case read_separator (CHR '':'') i (read_number 16 4 True 65535) s of
          None \<Rightarrow> (([], False), s)
        | Some (v, t) \<Rightarrow> (case read_groups limit (Suc i) t of
            ((gs, v4), u) \<Rightarrow> ((of_nat v # gs, v4), u))))"
  by pat_completeness auto
termination
  by (relation "measure (\<lambda>(limit, i, s). limit - i)") auto

declare read_groups.simps [simp del]

definition v6_of_list :: "u16 list \<Rightarrow> ip_addr" where
  "v6_of_list g = V6 (g ! 0) (g ! 1) (g ! 2) (g ! 3) (g ! 4) (g ! 5) (g ! 6) (g ! 7)"

definition read_ipv4_addr :: "ip_addr reader" where
  "read_ipv4_addr s = (case read_octets 0 4 s of None \<Rightarrow> None
     | Some (vs, t) \<Rightarrow> Some (V4 (vs ! 0) (vs ! 1) (vs ! 2) (vs ! 3), t))"

definition read_ipv6_addr :: "ip_addr reader" where
  "read_ipv6_addr s = (case read_groups 8 0 s of ((head, head_v4), t) \<Rightarrow>
     if length head = 8 then Some (v6_of_list head, t)
     else if head_v4 then None
     else Option.bind (read_given_char (CHR '':'') t) (\<lambda>(_, t).
          Option.bind (read_given_char (CHR '':'') t) (\<lambda>(_, t).
          case read_groups (8 - (length head + 1)) 0 t of ((tail, _), u) \<Rightarrow>
            Some (v6_of_list (head @ replicate (8 - length head - length tail) 0 @ tail), u))))"

definition parse_ip :: "string \<Rightarrow> ip_addr option" where
  "parse_ip s = (case (case read_ipv4_addr s of Some r \<Rightarrow> Some r | None \<Rightarrow> read_ipv6_addr s) of
     Some (ip, []) \<Rightarrow> Some ip | _ \<Rightarrow> None)"

text \<open>\<open>Display\<close> of addresses: the longest run of two or more zero segments, the first of equals, is \<open>::\<close>.\<close>

definition hex_char :: "nat \<Rightarrow> char" where
  "hex_char d = (if d < 10 then char_of (48 + d) else char_of (87 + d))"

fun segment_hex :: "nat \<Rightarrow> string" where
  "segment_hex n = (if n < 16 then [hex_char n] else segment_hex (n div 16) @ [hex_char (n mod 16)])"

declare segment_hex.simps [simp del]

fun join_text :: "string \<Rightarrow> string list \<Rightarrow> string" where
  "join_text sep [] = []"
| "join_text sep [s] = s"
| "join_text sep (s # t # ts) = s @ sep @ join_text sep (t # ts)"

fun zero_run :: "nat \<Rightarrow> u16 list \<Rightarrow> nat \<times> nat \<Rightarrow> nat \<times> nat \<Rightarrow> nat \<times> nat" where
  "zero_run i [] current longest = longest"
| "zero_run i (s # ss) (start, n) longest =
     (if s = 0
      then let current = (if n = 0 then i else start, n + 1)
           in zero_run (Suc i) ss current (if snd longest < n + 1 then current else longest)
      else zero_run (Suc i) ss (0, 0) longest)"

definition groups_text :: "u16 list \<Rightarrow> string" where
  "groups_text ss = join_text '':'' (map (\<lambda>s. segment_hex (unat s)) ss)"

definition v4_text :: "u8 \<Rightarrow> u8 \<Rightarrow> u8 \<Rightarrow> u8 \<Rightarrow> string" where
  "v4_text a b c d = join_text ''.'' (map (\<lambda>q. nat_text (unat q)) [a, b, c, d])"

fun ip_text :: "ip_addr \<Rightarrow> string" where
  "ip_text (V4 a b c d) = v4_text a b c d"
| "ip_text (V6 a b c d e f g h) =
     (case to_canonical (V6 a b c d e f g h) of
        V4 w x y z \<Rightarrow> ''::ffff:'' @ v4_text w x y z
      | _ \<Rightarrow> let ss = [a, b, c, d, e, f, g, h] in
          (case zero_run 0 ss (0, 0) (0, 0) of (start, n) \<Rightarrow>
             if 1 < n then groups_text (take start ss) @ ''::'' @ groups_text (drop (start + n) ss)
             else groups_text ss))"

section \<open>Which hosts and addresses are looked up\<close>

datatype host_candidate = Ip ip_addr | Name string

definition strip_root :: "string \<Rightarrow> string" where
  "strip_root s = (if s \<noteq> [] \<and> last s = CHR ''.'' then butlast s else s)"

definition is_ascii_alphabetic :: "char \<Rightarrow> bool" where
  "is_ascii_alphabetic c = (let n = of_char c :: nat in 65 \<le> n \<and> n \<le> 90 \<or> 97 \<le> n \<and> n \<le> 122)"

definition valid_label :: "string \<Rightarrow> bool" where
  "valid_label l \<longleftrightarrow> l \<noteq> [] \<and> length l \<le> 63 \<and> hd l \<noteq> CHR ''-'' \<and> last l \<noteq> CHR ''-''
     \<and> list_all (\<lambda>b. is_ascii_alphanumeric b \<or> b = CHR ''-'') l"

definition candidate :: "string \<Rightarrow> host_candidate option" where
  "candidate host =
     (let host = strip_root (map ascii_lower (trim host))
      in if host = [] \<or> 253 < length host then None
         else case parse_ip host of Some ip \<Rightarrow> Some (Ip (to_canonical ip))
         | None \<Rightarrow> (let labels = split_on (CHR ''.'') host
             in if length labels < 2 then None
                else if \<not> list_all valid_label labels then None
                else if \<not> list_ex is_ascii_alphabetic (last labels) then None
                else Some (Name host)))"

definition is_private :: "u8 \<Rightarrow> u8 \<Rightarrow> bool" where
  "is_private a b \<longleftrightarrow> a = 10 \<or> a = 172 \<and> 16 \<le> b \<and> b \<le> 31 \<or> a = 192 \<and> b = 168"

definition is_documentation :: "u8 \<Rightarrow> u8 \<Rightarrow> u8 \<Rightarrow> bool" where
  "is_documentation a b c \<longleftrightarrow> a = 192 \<and> b = 0 \<and> c = 2 \<or> a = 198 \<and> b = 51 \<and> c = 100 \<or> a = 203 \<and> b = 0 \<and> c = 113"

definition public_v4 :: "u8 \<Rightarrow> u8 \<Rightarrow> u8 \<Rightarrow> u8 \<Rightarrow> bool" where
  "public_v4 first second third fourth =
     (let shared = (first = 100 \<and> 64 \<le> second \<and> second \<le> 127);
          benchmarking = (first = 198 \<and> second AND 0xfe = 18)
      in \<not> (is_private first second
           \<or> first = 127
           \<or> first = 169 \<and> second = 254
           \<or> 224 \<le> first \<and> first \<le> 239
           \<or> is_documentation first second third
           \<or> first = 0
           \<or> 240 \<le> first
           \<or> benchmarking
           \<or> shared))"

definition public_v6 :: "u16 \<Rightarrow> u16 \<Rightarrow> u16 \<Rightarrow> u16 \<Rightarrow> u16 \<Rightarrow> u16 \<Rightarrow> u16 \<Rightarrow> u16 \<Rightarrow> bool" where
  "public_v6 first second third d e f g h =
     (let documentation = (first = 0x2001 \<and> second = 0x0db8 \<or> first = 0x3fff \<and> second AND 0xf000 = 0);
          benchmarking = (first = 0x2001 \<and> second = 0x0002 \<and> third = 0)
      in \<not> ([first, second, third, d, e, f, g, h] = [0, 0, 0, 0, 0, 0, 0, 1]
           \<or> [first, second, third, d, e, f, g, h] = [0, 0, 0, 0, 0, 0, 0, 0]
           \<or> first AND 0xfe00 = 0xfc00
           \<or> first AND 0xffc0 = 0xfe80
           \<or> first AND 0xff00 = 0xff00
           \<or> documentation
           \<or> benchmarking))"

definition is_public :: "ip_addr \<Rightarrow> bool" where
  "is_public ip = (case to_canonical ip of
       V4 a b c d \<Rightarrow> public_v4 a b c d
     | V6 a b c d e f g h \<Rightarrow> public_v6 a b c d e f g h)"

definition absolute_name :: "string \<Rightarrow> string" where
  "absolute_name name = strip_root name @ ''.''"

section \<open>Resolver and database\<close>

text \<open>What the resolver does with an absolute name before the time limit.\<close>

datatype dns_outcome = Addresses "ip_addr list" | DnsFailed | DnsTimedOut

type_synonym dns = "string \<Rightarrow> dns_outcome"

definition resolve :: "dns \<Rightarrow> string \<Rightarrow> ip_addr option" where
  "resolve dns name = (case dns (absolute_name name) of Addresses (a # _) \<Rightarrow> Some a | _ \<Rightarrow> None)"

record city_record =
  cr_country :: "string option"
  cr_registered_country :: "string option"
  cr_names :: "(string \<times> string) list"
  cr_latitude :: "f64 option"
  cr_longitude :: "f64 option"

record node_location =
  nl_country :: string
  nl_city :: "string option"
  nl_lat :: f64
  nl_lng :: f64

type_synonym city_db = "ip_addr \<Rightarrow> string + city_record option"

definition decode_city :: "city_db \<Rightarrow> ip_addr \<Rightarrow> city_record option" where
  "decode_city reader ip = (case reader ip of Inr record \<Rightarrow> record | Inl _ \<Rightarrow> None)"

definition project_city :: "city_record \<Rightarrow> node_location option" where
  "project_city r = Option.bind (cr_latitude r) (\<lambda>lat. Option.bind (cr_longitude r) (\<lambda>lng.
     Some \<lparr>nl_country = (case cr_country r of Some c \<Rightarrow> c | None \<Rightarrow>
             (case cr_registered_country r of Some c \<Rightarrow> c | None \<Rightarrow> ''??'')),
           nl_city = map_of (cr_names r) ''en'', nl_lat = lat, nl_lng = lng\<rparr>))"

section \<open>Lookup\<close>

definition CACHE_ENTRIES :: nat where
  "CACHE_ENTRIES = 4096"

definition CACHE_TTL :: int where
  "CACHE_TTL = 300 * 10 ^ 9"

text \<open>Entries of a \<open>BTreeMap\<close>, in the order of the keys.\<close>

fun btree_insert :: "'k::linorder \<Rightarrow> 'v \<Rightarrow> ('k \<times> 'v) list \<Rightarrow> ('k \<times> 'v) list" where
  "btree_insert k v [] = [(k, v)]"
| "btree_insert k v ((k', v') # m) =
     (if k < k' then (k, v) # (k', v') # m else if k = k' then (k, v) # m else (k', v') # btree_insert k v m)"

type_synonym geo_cache = "(string \<times> int \<times> node_location option) list"

record geo_ip =
  geo_reader :: "city_db option"
  geo_cache :: geo_cache

definition from_reader :: "city_db option \<Rightarrow> geo_ip" where
  "from_reader r = \<lparr>geo_reader = r, geo_cache = []\<rparr>"

text \<open>\<open>GeoIp::new\<close> with the outcome of opening the file.\<close>

definition new_geo :: "(string + city_db) option \<Rightarrow> geo_ip" where
  "new_geo opened = (case opened of Some (Inr r) \<Rightarrow> from_reader (Some r) | _ \<Rightarrow> from_reader None)"

definition candidate_key :: "host_candidate \<Rightarrow> string" where
  "candidate_key c = (case c of Ip ip \<Rightarrow> ip_text ip | Name n \<Rightarrow> n)"

text \<open>\<open>retain\<close> reads the clock once for each entry; the n-th reading of a call is \<open>clock n\<close>.\<close>

fun retain_fresh :: "(nat \<Rightarrow> int) \<Rightarrow> nat \<Rightarrow> geo_cache \<Rightarrow> geo_cache" where
  "retain_fresh clock i [] = []"
| "retain_fresh clock i ((k, expiry, loc) # m) =
     (if clock i < expiry then (k, expiry, loc) # retain_fresh clock (Suc i) m else retain_fresh clock (Suc i) m)"

text \<open>What leaves the process: names to the resolver and addresses to the database.\<close>

datatype geo_effect = Query string | Read ip_addr

definition address_of :: "dns \<Rightarrow> host_candidate \<Rightarrow> ip_addr option \<times> geo_effect list" where
  "address_of dns c = (case c of Ip ip \<Rightarrow> (Some ip, []) | Name n \<Rightarrow> (resolve dns n, [Query (absolute_name n)]))"

definition location_of :: "city_db \<Rightarrow> ip_addr option \<Rightarrow> node_location option \<times> geo_effect list" where
  "location_of reader ip = (case ip of None \<Rightarrow> (None, []) | Some ip \<Rightarrow>
     if is_public ip then (Option.bind (decode_city reader ip) project_city, [Read ip]) else (None, []))"

definition geo_lookup :: "(nat \<Rightarrow> int) \<Rightarrow> dns \<Rightarrow> string \<Rightarrow> geo_ip \<Rightarrow> node_location option \<times> geo_ip \<times> geo_effect list" where
  "geo_lookup clock dns host geo = (case geo_reader geo of None \<Rightarrow> (None, geo, [])
   | Some reader \<Rightarrow> (case candidate host of None \<Rightarrow> (None, geo, [])
   | Some c \<Rightarrow> (let key = candidate_key c; cache = retain_fresh clock 0 (geo_cache geo) in
       case map_of cache key of Some (_, loc) \<Rightarrow> (loc, geo\<lparr>geo_cache := cache\<rparr>, [])
       | None \<Rightarrow> (case address_of dns c of (ip, queries) \<Rightarrow> case location_of reader ip of (loc, reads) \<Rightarrow>
           let cache = (if CACHE_ENTRIES \<le> length cache then tl cache else cache);
               expiry = clock (length (geo_cache geo)) + CACHE_TTL
           in (loc, geo\<lparr>geo_cache := btree_insert key (expiry, loc) cache\<rparr>, queries @ reads)))))"

record inspection =
  in_host :: string
  in_candidate :: "string option"
  in_ip :: "ip_addr option"
  in_public :: bool
  in_country :: "string option"
  in_registered_country :: "string option"
  in_city :: "string option"
  in_lat :: "f64 option"
  in_lng :: "f64 option"

definition inspect :: "dns \<Rightarrow> string \<Rightarrow> geo_ip \<Rightarrow> inspection \<times> geo_effect list" where
  "inspect dns host geo =
     (let out = \<lparr>in_host = host, in_candidate = None, in_ip = None, in_public = False, in_country = None,
            in_registered_country = None, in_city = None, in_lat = None, in_lng = None\<rparr> in
      case candidate host of None \<Rightarrow> (out, [])
      | Some c \<Rightarrow> (let out = out\<lparr>in_candidate := Some (candidate_key c)\<rparr> in
          case address_of dns c of (None, queries) \<Rightarrow> (out, queries)
          | (Some ip, queries) \<Rightarrow> (let out = out\<lparr>in_ip := Some ip, in_public := is_public ip\<rparr> in
              if \<not> is_public ip then (out, queries)
              else case geo_reader geo of None \<Rightarrow> (out, queries)
              | Some reader \<Rightarrow> (case decode_city reader ip of None \<Rightarrow> (out, queries @ [Read ip])
                | Some r \<Rightarrow> (out\<lparr>in_country := cr_country r, in_registered_country := cr_registered_country r,
                    in_city := map_of (cr_names r) ''en'', in_lat := cr_latitude r, in_lng := cr_longitude r\<rparr>,
                    queries @ [Read ip])))))"

end
