(* ===== verification/Geo_Props.thy ===== *)
theory Geo_Props
  imports Geo
begin

text \<open>
  What the city lookup guarantees: which address blocks never reach the database, what may leave the process
  for a published host, how large the cache gets and how old its answers are.
\<close>

section \<open>Address blocks\<close>

text \<open>Membership in a block written as a prefix of some length, on the numeric value of an address.\<close>

definition in_block :: "nat \<Rightarrow> int \<Rightarrow> int \<times> nat \<Rightarrow> bool" where
  "in_block bits n b \<longleftrightarrow> n div 2 ^ (bits - snd b) = fst b div 2 ^ (bits - snd b)"

definition dotted :: "int \<Rightarrow> int \<Rightarrow> int \<Rightarrow> int \<Rightarrow> int" where
  "dotted a b c d = a * 2 ^ 24 + b * 2 ^ 16 + c * 2 ^ 8 + d"

definition segments :: "int list \<Rightarrow> int" where
  "segments ss = foldl (\<lambda>n s. n * 2 ^ 16 + s) 0 ss"

definition special_v4 :: "(int \<times> nat) list" where
  "special_v4 = [(dotted 0 0 0 0, 8), (dotted 10 0 0 0, 8), (dotted 100 64 0 0, 10), (dotted 127 0 0 0, 8),
     (dotted 169 254 0 0, 16), (dotted 172 16 0 0, 12), (dotted 192 0 2 0, 24), (dotted 192 168 0 0, 16),
     (dotted 198 18 0 0, 15), (dotted 198 51 100 0, 24), (dotted 203 0 113 0, 24), (dotted 224 0 0 0, 4),
     (dotted 240 0 0 0, 4)]"

definition special_v6 :: "(int \<times> nat) list" where
  "special_v6 = [(segments [0, 0, 0, 0, 0, 0, 0, 0], 128), (segments [0, 0, 0, 0, 0, 0, 0, 1], 128),
     (segments [0xfc00, 0, 0, 0, 0, 0, 0, 0], 7), (segments [0xfe80, 0, 0, 0, 0, 0, 0, 0], 10),
     (segments [0xff00, 0, 0, 0, 0, 0, 0, 0], 8), (segments [0x2001, 0x0db8, 0, 0, 0, 0, 0, 0], 32),
     (segments [0x3fff, 0, 0, 0, 0, 0, 0, 0], 20), (segments [0x2001, 2, 0, 0, 0, 0, 0, 0], 48)]"

definition outside_blocks :: "ip_addr \<Rightarrow> bool" where
  "outside_blocks ip = (case ip of
       V4 a b c d \<Rightarrow> list_all (\<lambda>blk. \<not> in_block 32 (dotted (uint a) (uint b) (uint c) (uint d)) blk) special_v4
     | V6 a b c d e f g h \<Rightarrow> list_all (\<lambda>blk. \<not> in_block 128 (segments (map uint [a, b, c, d, e, f, g, h])) blk) special_v6)"

lemma uint_and_not_mask: "uint (x AND NOT (mask n)) = uint (x :: 'a::len word) div 2 ^ n * 2 ^ n"
proof -
  have "uint (x AND NOT (mask n)) = uint x AND NOT (mask n)"
    by (intro bit_eqI) (auto simp: bit_simps dest: bit_imp_le_length)
  also have "\<dots> = push_bit n (drop_bit n (uint x))"
    by (intro bit_eqI) (auto simp: bit_simps)
  finally show ?thesis by (simp add: push_bit_eq_mult drop_bit_eq_div)
qed

lemma masked_eq:
  fixes x :: "'a::len word"
  assumes "m = NOT (mask n)" and "uint v mod 2 ^ n = 0"
  shows "(x AND m = v) = (uint x div 2 ^ n = uint v div 2 ^ n)"
proof -
  have v: "uint v = uint v div 2 ^ n * 2 ^ n" using assms(2) by (metis add.right_neutral div_mult_mod_eq)
  have "(x AND m = v) = (uint x div 2 ^ n * 2 ^ n = uint v div 2 ^ n * 2 ^ n)"
    using v unfolding assms(1) word_uint_eq_iff uint_and_not_mask by simp
  then show ?thesis by simp
qed

lemma masked_octet: "(x AND 0xfe = (18 :: u8)) = (uint x div 2 = 9)"
  by (subst masked_eq [where n = 1]) (auto simp: mask_eq_decr_exp)

lemma masked_segment:
  "((y :: u16) AND 0xf000 = 0) = (uint y div 2 ^ 12 = 0)"
  "((y :: u16) AND 0xfe00 = 0xfc00) = (uint y div 2 ^ 9 = 126)"
  "((y :: u16) AND 0xffc0 = 0xfe80) = (uint y div 2 ^ 6 = 1018)"
  "((y :: u16) AND 0xff00 = 0xff00) = (uint y div 2 ^ 8 = 255)"
  subgoal by (subst masked_eq [where n = 12]) (auto simp: mask_eq_decr_exp)
  subgoal by (subst masked_eq [where n = 9]) (auto simp: mask_eq_decr_exp)
  subgoal by (subst masked_eq [where n = 6]) (auto simp: mask_eq_decr_exp)
  subgoal by (subst masked_eq [where n = 8]) (auto simp: mask_eq_decr_exp)
  done

text \<open>A prefix ends inside the leading groups \<open>h\<close>, so the groups after them do not matter.\<close>

lemma prefix_div:
  fixes h low :: int
  assumes "0 \<le> low" and "low < 2 ^ k"
  shows "(h * 2 ^ k + low) div 2 ^ (k + j) = h div 2 ^ j"
proof -
  have "(h * 2 ^ k + low) div 2 ^ (k + j) = (h * 2 ^ k + low) div 2 ^ k div 2 ^ j"
    by (simp add: power_add zdiv_zmult2_eq)
  also have "(h * 2 ^ k + low) div 2 ^ k = h" using assms by simp
  finally show ?thesis .
qed

lemma octet_range: "0 \<le> uint (a :: u8)" "uint (a :: u8) < 256"
  using uint_bounded [of a] by simp_all

lemma segment_range: "0 \<le> uint (a :: u16)" "uint (a :: u16) < 65536"
  using uint_bounded [of a] by simp_all

lemma dotted_prefix:
  assumes "0 \<le> b" "b < 256" "0 \<le> c" "c < 256" "0 \<le> d" "d < 256"
  shows "dotted a b c d div 2 ^ (24 + j) = a div 2 ^ j"
    and "dotted a b c d div 2 ^ (16 + j) = (a * 256 + b) div 2 ^ j"
    and "dotted a b c d div 2 ^ (8 + j) = (a * 65536 + b * 256 + c) div 2 ^ j"
proof -
  have "dotted a b c d = a * 2 ^ 24 + (b * 65536 + c * 256 + d)" by (simp add: dotted_def)
  then show "dotted a b c d div 2 ^ (24 + j) = a div 2 ^ j"
    by (simp only:) (intro prefix_div; use assms in simp)
  have "dotted a b c d = (a * 256 + b) * 2 ^ 16 + (c * 256 + d)" by (simp add: dotted_def)
  then show "dotted a b c d div 2 ^ (16 + j) = (a * 256 + b) div 2 ^ j"
    by (simp only:) (intro prefix_div; use assms in simp)
  have "dotted a b c d = (a * 65536 + b * 256 + c) * 2 ^ 8 + d" by (simp add: dotted_def)
  then show "dotted a b c d div 2 ^ (8 + j) = (a * 65536 + b * 256 + c) div 2 ^ j"
    by (simp only:) (intro prefix_div; use assms in simp)
qed

lemma group_eq:
  fixes x y r q p :: int
  assumes "0 \<le> y" "y < p" "0 \<le> q" "q < p"
  shows "(x * p + y = r * p + q) = (x = r \<and> y = q)"
proof
  assume "x * p + y = r * p + q"
  moreover have "(x * p + y) div p = x" "(r * p + q) div p = r" using assms by simp_all
  ultimately show "x = r \<and> y = q" by simp
qed simp

lemma group_div:
  fixes x y p q :: int
  assumes "0 < q"
  shows "(x * (p * q) + y) div q = x * p + y div q"
proof -
  have "(x * (p * q) + y) div q = (y + x * p * q) div q" by (simp add: ac_simps)
  then show ?thesis using assms by simp
qed

lemma div_eq_range:
  fixes x k q :: int
  assumes "0 < k"
  shows "(x div k = q) = (q * k \<le> x \<and> x < (q + 1) * k)"
proof
  assume "x div k = q"
  then have "q * k + x mod k = x" using div_mult_mod_eq [of x k] by simp
  moreover have "0 \<le> x mod k" and "x mod k < k" using assms by simp_all
  ultimately show "q * k \<le> x \<and> x < (q + 1) * k" unfolding distrib_right by linarith
next
  assume "q * k \<le> x \<and> x < (q + 1) * k"
  then show "x div k = q"
    using assms by (intro int_div_pos_eq [where r = "x - q * k"]) (auto simp: algebra_simps)
qed

lemma v4_blocks:
  assumes "0 \<le> a" "a < 256" "0 \<le> b" "b < 256" "0 \<le> c" "c < 256" "0 \<le> d" "d < 256"
  shows "list_ex (in_block 32 (dotted a b c d)) special_v4 =
    (a = 0 \<or> a = 10 \<or> a = 100 \<and> 64 \<le> b \<and> b \<le> 127 \<or> a = 127 \<or> a = 169 \<and> b = 254 \<or> a = 172 \<and> 16 \<le> b \<and> b \<le> 31
     \<or> a = 192 \<and> b = 0 \<and> c = 2 \<or> a = 192 \<and> b = 168 \<or> a = 198 \<and> b div 2 = 9 \<or> a = 198 \<and> b = 51 \<and> c = 100
     \<or> a = 203 \<and> b = 0 \<and> c = 113 \<or> 224 \<le> a \<and> a \<le> 239 \<or> 240 \<le> a)"
proof -
  note d = dotted_prefix [OF assms(3-8)]
  have e: "dotted a b c d div 268435456 = a div 16" "dotted a b c d div 16777216 = a"
    "dotted a b c d div 4194304 = (a * 256 + b) div 64" "dotted a b c d div 1048576 = (a * 256 + b) div 16"
    "dotted a b c d div 131072 = (a * 256 + b) div 2" "dotted a b c d div 65536 = a * 256 + b"
    "dotted a b c d div 256 = a * 65536 + b * 256 + c"
    subgoal using d(1) [of a 4] by simp
    subgoal using d(1) [of a 0] by simp
    subgoal using d(2) [of a 6] by simp
    subgoal using d(2) [of a 4] by simp
    subgoal using d(2) [of a 1] by simp
    subgoal using d(2) [of a 0] by simp
    subgoal using d(3) [of a 0] by simp
    done
  have g: "(a * 256 + b) div 64 = a * 4 + b div 64" "(a * 256 + b) div 16 = a * 16 + b div 16"
    "(a * 256 + b) div 2 = a * 128 + b div 2"
    using group_div [of 64 a 4 b] group_div [of 16 a 16 b] group_div [of 2 a 128 b] by simp_all
  have h: "(a * 4 + b div 64 = 401) = (a = 100 \<and> b div 64 = 1)" "(a * 16 + b div 16 = 2753) = (a = 172 \<and> b div 16 = 1)"
    "(a * 128 + b div 2 = 25353) = (a = 198 \<and> b div 2 = 9)"
    "(a * 256 + b = 43518) = (a = 169 \<and> b = 254)" "(a * 256 + b = 49320) = (a = 192 \<and> b = 168)"
    using assms group_eq [of "b div 64" 4 1 a 100] group_eq [of "b div 16" 16 1 a 172] group_eq [of "b div 2" 128 9 a 198]
      group_eq [of b 256 254 a 169] group_eq [of b 256 168 a 192]
    by (simp_all add: div_less_iff_less_mult pos_imp_zdiv_nonneg_iff)
  have t: "(a * 65536 + b * 256 + c = u * 65536 + v * 256 + w) = (a = u \<and> b = v \<and> c = w)"
    if "0 \<le> v" "v < 256" "0 \<le> w" "w < 256" for u v w
    using assms that group_eq [of "b * 256 + c" 65536 "v * 256 + w" a u] group_eq [of c 256 w b v] by (simp add: add.assoc)
  have k: "(a * 65536 + b * 256 + c = 12582914) = (a = 192 \<and> b = 0 \<and> c = 2)"
    "(a * 65536 + b * 256 + c = 12989284) = (a = 198 \<and> b = 51 \<and> c = 100)"
    "(a * 65536 + b * 256 + c = 13303921) = (a = 203 \<and> b = 0 \<and> c = 113)"
    using t [of 0 2 192] t [of 51 100 198] t [of 0 113 203] by simp_all
  have r: "(b div 64 = 1) = (64 \<le> b \<and> b \<le> 127)" "(b div 16 = 1) = (16 \<le> b \<and> b \<le> 31)"
    "(a div 16 = 14) = (224 \<le> a \<and> a \<le> 239)" "(a div 16 = 15) = (240 \<le> a)"
    using assms by (auto simp: div_eq_range)
  show ?thesis
    unfolding special_v4_def in_block_def
    by (simp add: e g h k r dotted_def [of 0 0] dotted_def [of 10] dotted_def [of 100] dotted_def [of 127] dotted_def [of 169]
        dotted_def [of 172] dotted_def [of 192] dotted_def [of 198] dotted_def [of 203] dotted_def [of 224] dotted_def [of 240])
qed

lemma octet_numerals:
  "uint (0 :: u8) = 0"
  "uint (2 :: u8) = 2"
  "uint (10 :: u8) = 10"
  "uint (16 :: u8) = 16"
  "uint (31 :: u8) = 31"
  "uint (51 :: u8) = 51"
  "uint (64 :: u8) = 64"
  "uint (100 :: u8) = 100"
  "uint (113 :: u8) = 113"
  "uint (127 :: u8) = 127"
  "uint (168 :: u8) = 168"
  "uint (169 :: u8) = 169"
  "uint (172 :: u8) = 172"
  "uint (192 :: u8) = 192"
  "uint (198 :: u8) = 198"
  "uint (203 :: u8) = 203"
  "uint (224 :: u8) = 224"
  "uint (239 :: u8) = 239"
  "uint (240 :: u8) = 240"
  "uint (254 :: u8) = 254"
  by simp_all

lemma public_v4_exact: "public_v4 a b c d = outside_blocks (V4 a b c d)"
proof -
  have "outside_blocks (V4 a b c d) = (\<not> list_ex (in_block 32 (dotted (uint a) (uint b) (uint c) (uint d))) special_v4)"
    by (simp add: outside_blocks_def list_all_iff list_ex_iff)
  also have "\<dots> = public_v4 a b c d"
    unfolding v4_blocks [OF octet_range octet_range octet_range octet_range] public_v4_def Let_def masked_octet
      is_private_def is_documentation_def
    unfolding word_le_def word_uint_eq_iff octet_numerals
    by argo
  finally show ?thesis by simp
qed

lemma segments_snoc: "segments (ss @ [s]) = segments ss * 2 ^ 16 + s"
  by (simp add: segments_def)

definition in_range16 :: "int list \<Rightarrow> bool" where
  "in_range16 ss \<longleftrightarrow> list_all (\<lambda>s. 0 \<le> s \<and> s < 2 ^ 16) ss"

lemma segments_append: "segments (xs @ ys) = segments xs * 2 ^ (16 * length ys) + segments ys"
proof (induction ys rule: rev_induct)
  case Nil
  then show ?case by (simp add: segments_def)
next
  case (snoc y ys)
  have "segments (xs @ ys @ [y]) = (segments xs * 2 ^ (16 * length ys) + segments ys) * 2 ^ 16 + y"
    using snoc segments_snoc [of "xs @ ys" y] by simp
  then show ?case by (simp add: segments_snoc algebra_simps power_add)
qed

lemma segments_bound:
  assumes "in_range16 ss"
  shows "0 \<le> segments ss \<and> segments ss < 2 ^ (16 * length ss)"
  using assms
proof (induction ss rule: rev_induct)
  case Nil
  then show ?case by (simp add: segments_def)
next
  case (snoc s ss)
  then have h: "0 \<le> segments ss" "segments ss + 1 \<le> 2 ^ (16 * length ss)" "0 \<le> s" "s < 2 ^ 16"
    by (auto simp: in_range16_def)
  then have "(segments ss + 1) * 2 ^ 16 \<le> 2 ^ (16 * length ss) * 2 ^ 16" by (intro mult_right_mono) auto
  then show ?case using h by (simp add: segments_snoc power_add)
qed

lemma segments_inj:
  assumes "length xs = length ys" "in_range16 xs" "in_range16 ys"
  shows "(segments xs = segments ys) = (xs = ys)"
  using assms
proof (induction xs arbitrary: ys rule: rev_induct)
  case Nil
  then show ?case by simp
next
  case (snoc x xs)
  then obtain y zs where ys: "ys = zs @ [y]" by (metis length_0_conv rev_exhaust snoc_eq_iff_butlast)
  with snoc.prems have "0 \<le> x" "x < 2 ^ 16" "0 \<le> y" "y < 2 ^ 16" "in_range16 xs" "in_range16 zs" "length xs = length zs"
    by (simp_all add: in_range16_def)
  then show ?case using snoc.IH [of zs] ys by (simp add: segments_snoc group_eq)
qed

text \<open>A block whose prefix ends inside the groups \<open>xs\<close> looks at these groups only.\<close>

lemma block_prefix:
  assumes "in_range16 ys" "in_range16 zs" "length ys = n" "length zs = n" "bits - len = 16 * n + j"
  shows "in_block bits (segments (xs @ ys)) (segments (bs @ zs), len) = (segments xs div 2 ^ j = segments bs div 2 ^ j)"
proof -
  have "segments (xs @ ys) div 2 ^ (16 * n + j) = segments xs div 2 ^ j"
    unfolding segments_append assms(3) using segments_bound [OF assms(1)] assms(3) by (intro prefix_div) auto
  moreover have "segments (bs @ zs) div 2 ^ (16 * n + j) = segments bs div 2 ^ j"
    unfolding segments_append assms(4) using segments_bound [OF assms(2)] assms(4) by (intro prefix_div) auto
  ultimately show ?thesis by (simp add: in_block_def assms(5))
qed

lemma v6_blocks:
  assumes r: "in_range16 [a, b, c, d, e, f, g, h]"
  shows "list_ex (in_block 128 (segments [a, b, c, d, e, f, g, h])) special_v6 =
    ([a, b, c, d, e, f, g, h] = [0, 0, 0, 0, 0, 0, 0, 0] \<or> [a, b, c, d, e, f, g, h] = [0, 0, 0, 0, 0, 0, 0, 1]
     \<or> a div 2 ^ 9 = 126 \<or> a div 2 ^ 6 = 1018 \<or> a div 2 ^ 8 = 255 \<or> a = 0x2001 \<and> b = 0x0db8
     \<or> a = 0x3fff \<and> b div 2 ^ 12 = 0 \<or> a = 0x2001 \<and> b = 2 \<and> c = 0)"
proof -
  let ?n = "segments [a, b, c, d, e, f, g, h]"
  have z: "in_range16 [0, 0, 0, 0, 0, 0, 0]" "in_range16 [0, 0, 0, 0, 0, 0]" "in_range16 [0, 0, 0, 0, 0]"
    by (simp_all add: in_range16_def)
  have t: "in_range16 [b, c, d, e, f, g, h]" "in_range16 [c, d, e, f, g, h]" "in_range16 [d, e, f, g, h]"
    using r by (simp_all add: in_range16_def)
  have one: "in_block 128 ?n (segments (x # [0, 0, 0, 0, 0, 0, 0]), len) = (a div 2 ^ j = x div 2 ^ j)"
    if "128 - len = 112 + j" for x len j
    using block_prefix [OF t(1) z(1), of 7 128 len j "[a]" "[x]"] that by (simp add: segments_def)
  have two: "in_block 128 ?n (segments (x # y # [0, 0, 0, 0, 0, 0]), len) = ((a * 65536 + b) div 2 ^ j = (x * 65536 + y) div 2 ^ j)"
    if "128 - len = 96 + j" for x y len j
    using block_prefix [OF t(2) z(2), of 6 128 len j "[a, b]" "[x, y]"] that by (simp add: segments_def)
  have three: "in_block 128 ?n (segments [0x2001, 2, 0, 0, 0, 0, 0, 0], 48) = (a = 0x2001 \<and> b = 2 \<and> c = 0)"
  proof -
    have "in_block 128 ?n (segments [0x2001, 2, 0, 0, 0, 0, 0, 0], 48) = (segments [a, b, c] = segments [0x2001, 2, 0])"
      using block_prefix [OF t(3) z(3), of 5 128 48 0 "[a, b, c]" "[0x2001, 2, 0]"] by simp
    also have "\<dots> = ([a, b, c] = [0x2001, 2, 0])"
      using r by (intro segments_inj) (auto simp: in_range16_def)
    finally show ?thesis by simp
  qed
  have whole: "in_block 128 ?n (segments [0, 0, 0, 0, 0, 0, 0, x], 128) = ([a, b, c, d, e, f, g, h] = [0, 0, 0, 0, 0, 0, 0, x])"
    if "0 \<le> x" "x < 2 ^ 16" for x
    unfolding in_block_def using segments_inj [of "[a, b, c, d, e, f, g, h]" "[0, 0, 0, 0, 0, 0, 0, x]"] r that
    by (simp add: in_range16_def)
  have doc: "((a * 65536 + b) div 2 ^ 0 = (0x2001 * 65536 + 0x0db8) div 2 ^ 0) = (a = 0x2001 \<and> b = 0x0db8)"
    using group_eq [of b 65536 "0x0db8" a "0x2001"] r by (simp add: in_range16_def)
  have "b div 2 ^ 12 < 16" using r zdiv_mono1 [of b 65535 "2 ^ 12"] by (simp add: in_range16_def)
  then have doc2: "((a * 65536 + b) div 2 ^ 12 = (0x3fff * 65536 + 0) div 2 ^ 12) = (a = 0x3fff \<and> b div 2 ^ 12 = 0)"
    using group_div [of "2 ^ 12" a 16 b] group_eq [of "b div 2 ^ 12" 16 0 a "0x3fff"] r
    by (simp add: in_range16_def pos_imp_zdiv_nonneg_iff)
  show ?thesis
    unfolding special_v6_def
    using one [of 7 9 "0xfc00"] one [of 10 6 "0xfe80"] one [of 8 8 "0xff00"]
      two [of 32 0 "0x2001" "0x0db8"] two [of 20 12 "0x3fff" 0] whole [of 0] whole [of 1] three doc doc2
    by simp
qed

lemma segment_numerals:
  "uint (0 :: u16) = 0" "uint (1 :: u16) = 1" "uint (2 :: u16) = 2" "uint (0x2001 :: u16) = 0x2001"
  "uint (0x0db8 :: u16) = 0x0db8" "uint (0x3fff :: u16) = 0x3fff"
  by simp_all

lemma public_v6_exact: "public_v6 a b c d e f g h = outside_blocks (V6 a b c d e f g h)"
proof -
  have r: "in_range16 (map uint [a, b, c, d, e, f, g, h])"
    using segment_range by (simp add: in_range16_def)
  have "outside_blocks (V6 a b c d e f g h)
      = (\<not> list_ex (in_block 128 (segments [uint a, uint b, uint c, uint d, uint e, uint f, uint g, uint h])) special_v6)"
    by (simp add: outside_blocks_def list_all_iff list_ex_iff)
  also have "\<dots> = public_v6 a b c d e f g h"
    unfolding v6_blocks [OF r [unfolded list.map]] public_v6_def Let_def masked_segment list.inject
    unfolding word_uint_eq_iff segment_numerals
    by argo
  finally show ?thesis by simp
qed

text \<open>
  An address is public exactly when, after an IPv4-mapped address is taken as its IPv4 address, it lies in
  none of the special-purpose blocks: 13 IPv4 blocks and 8 IPv6 blocks, given by prefix and length.
\<close>

theorem is_public_exact: "is_public ip = outside_blocks (to_canonical ip)"
  by (cases "to_canonical ip") (simp_all add: is_public_def public_v4_exact public_v6_exact)

section \<open>The cache\<close>

definition strictly_sorted :: "('k::linorder \<times> 'v) list \<Rightarrow> bool" where
  "strictly_sorted m \<longleftrightarrow> sorted_wrt (<) (map fst m)"

lemma btree_insert_keys: "fst ` set (btree_insert k v m) = insert k (fst ` set m)"
  by (induction k v m rule: btree_insert.induct) auto

lemma btree_insert_set: "e \<in> set (btree_insert k v m) \<Longrightarrow> e = (k, v) \<or> e \<in> set m"
  by (induction k v m rule: btree_insert.induct) (auto split: if_splits)

lemma btree_insert_length: "length (btree_insert k v m) \<le> Suc (length m)"
  by (induction k v m rule: btree_insert.induct) auto

lemma btree_insert_sorted: "strictly_sorted m \<Longrightarrow> strictly_sorted (btree_insert k v m)"
proof (induction k v m rule: btree_insert.induct)
  case (2 k v k' v' m)
  then show ?case
    using btree_insert_keys [of k v m]
    by (fastforce simp: strictly_sorted_def simp flip: set_map)
qed (simp add: strictly_sorted_def)

lemma retain_fresh_sublist:
  "strictly_sorted m \<Longrightarrow> strictly_sorted (retain_fresh clock i m)" "length (retain_fresh clock i m) \<le> length m"
  "set (retain_fresh clock i m) \<subseteq> set m"
proof -
  have s: "set (retain_fresh clock i m) \<subseteq> set m" for m i
    by (induction clock i m rule: retain_fresh.induct) auto
  then show "set (retain_fresh clock i m) \<subseteq> set m" .
  show "length (retain_fresh clock i m) \<le> length m"
    by (induction clock i m rule: retain_fresh.induct) auto
  show "strictly_sorted m \<Longrightarrow> strictly_sorted (retain_fresh clock i m)"
    using s by (induction clock i m rule: retain_fresh.induct) (fastforce simp: strictly_sorted_def)+
qed

lemma retain_fresh_expiry:
  "mono clock \<Longrightarrow> (k, expiry, loc) \<in> set (retain_fresh clock i m) \<Longrightarrow> clock 0 < expiry"
  by (induction clock i m rule: retain_fresh.induct)
    (auto split: if_splits intro: le_less_trans [OF monoD])

section \<open>Histories of lookups\<close>

text \<open>One call: the readings of its clock, what the resolver would answer, and the published host.\<close>

record geo_call =
  gc_clock :: "nat \<Rightarrow> int"
  gc_dns :: dns
  gc_host :: string

definition run_call :: "geo_call \<Rightarrow> geo_ip \<Rightarrow> node_location option \<times> geo_ip \<times> geo_effect list" where
  "run_call c geo = geo_lookup (gc_clock c) (gc_dns c) (gc_host c) geo"

definition geo_after :: "city_db \<Rightarrow> geo_call list \<Rightarrow> geo_ip" where
  "geo_after reader calls = foldl (\<lambda>geo c. fst (snd (run_call c geo))) (new_geo (Some (Inr reader))) calls"

text \<open>What a call would answer without a cache, for the key of its host.\<close>

definition fresh_answer :: "city_db \<Rightarrow> geo_call \<Rightarrow> string \<Rightarrow> node_location option \<Rightarrow> bool" where
  "fresh_answer reader c key loc \<longleftrightarrow> (case candidate (gc_host c) of None \<Rightarrow> False
     | Some d \<Rightarrow> candidate_key d = key \<and> loc = fst (location_of reader (fst (address_of (gc_dns c) d))))"

text \<open>A name for the resolver: valid labels under an alphabetic top label, with exactly one root dot.\<close>

definition resolvable :: "string \<Rightarrow> bool" where
  "resolvable q \<longleftrightarrow> (let labels = split_on (CHR ''.'') q in
     last q = CHR ''.'' \<and> length q \<le> 254 \<and> last labels = [] \<and> 3 \<le> length labels
     \<and> list_all valid_label (butlast labels) \<and> list_ex is_ascii_alphabetic (last (butlast labels)))"

fun effect_allowed :: "geo_effect \<Rightarrow> bool" where
  "effect_allowed (Query q) = resolvable q"
| "effect_allowed (Read ip) = outside_blocks (to_canonical ip)"

lemma split_on_nonempty [simp]: "split_on c s \<noteq> []"
  by (cases s) (auto split: list.splits)

lemma split_on_snoc: "split_on c (s @ [c]) = split_on c s @ [[]]"
proof (induction s)
  case (Cons d s)
  show ?case
  proof (cases "split_on c s")
    case (Cons p ps)
    then show ?thesis using Cons.IH by simp
  qed simp
qed simp

lemma split_on_last: "s \<noteq> [] \<Longrightarrow> last s = c \<Longrightarrow> last (split_on c s) = []"
  by (metis append_butlast_last_id last_snoc split_on_snoc)

lemma candidate_name_resolvable:
  assumes "candidate host = Some (Name n)"
  shows "resolvable (absolute_name n)"
proof -
  let ?h = "strip_root (map ascii_lower (trim host))"
  have n: "n = ?h" and len: "length n \<le> 253" "n \<noteq> []" and l: "2 \<le> length (split_on (CHR ''.'') n)"
    "list_all valid_label (split_on (CHR ''.'') n)" "list_ex is_ascii_alphabetic (last (split_on (CHR ''.'') n))"
    using assms by (auto simp: candidate_def Let_def split: if_splits option.splits)
  have "last (split_on (CHR ''.'') n) \<noteq> []" using l(3) by auto
  then have "last n \<noteq> CHR ''.''" using split_on_last len(2) by metis
  then have "absolute_name n = n @ [CHR ''.'']" by (simp add: absolute_name_def strip_root_def)
  then show ?thesis using len l by (simp add: resolvable_def split_on_snoc)
qed

lemma lookup_effects_allowed:
  "list_all effect_allowed (snd (snd (geo_lookup clock dns host geo)))"
  by (auto simp: geo_lookup_def Let_def address_of_def location_of_def candidate_name_resolvable is_public_exact
      split: option.splits prod.splits host_candidate.splits if_splits)

definition cache_sourced :: "city_db \<Rightarrow> geo_call list \<Rightarrow> geo_cache \<Rightarrow> bool" where
  "cache_sourced reader calls m \<longleftrightarrow> (\<forall>(k, expiry, loc)\<in>set m. \<exists>c\<in>set calls. fresh_answer reader c k loc
     \<and> expiry \<le> gc_clock c CACHE_ENTRIES + CACHE_TTL)"

definition geo_inv :: "city_db \<Rightarrow> geo_call list \<Rightarrow> geo_ip \<Rightarrow> bool" where
  "geo_inv reader calls geo \<longleftrightarrow> geo_reader geo = Some reader \<and> length (geo_cache geo) \<le> CACHE_ENTRIES
     \<and> strictly_sorted (geo_cache geo) \<and> cache_sourced reader calls (geo_cache geo)"

lemma cache_sourced_mono:
  "cache_sourced reader calls m \<Longrightarrow> set m' \<subseteq> set m \<Longrightarrow> set calls \<subseteq> set calls' \<Longrightarrow> cache_sourced reader calls' m'"
  unfolding cache_sourced_def by fast

lemma pop_first_room:
  fixes m :: geo_cache
  defines "m' \<equiv> (if CACHE_ENTRIES \<le> length m then tl m else m)"
  assumes "length m \<le> CACHE_ENTRIES" "strictly_sorted m"
  shows "length m' < CACHE_ENTRIES" "strictly_sorted m'" "set m' \<subseteq> set m"
  using assms by (cases m; auto simp: m'_def CACHE_ENTRIES_def strictly_sorted_def)+

text \<open>A call on a sound cache: its answer has a source that is recent, and the cache stays sound.\<close>

lemma lookup_step:
  assumes inv: "geo_inv reader calls geo" and mono: "mono (gc_clock c)"
    and run: "run_call c geo = (loc, geo', effects)"
  shows "geo_inv reader (calls @ [c]) geo'"
    and "candidate (gc_host c) = Some d \<Longrightarrow>
      fresh_answer reader c (candidate_key d) loc
      \<or> (\<exists>b\<in>set calls. fresh_answer reader b (candidate_key d) loc \<and> gc_clock c 0 < gc_clock b CACHE_ENTRIES + CACHE_TTL)"
proof -
  let ?m = "retain_fresh (gc_clock c) 0 (geo_cache geo)"
  have r: "geo_reader geo = Some reader" using inv by (simp add: geo_inv_def)
  have m: "length ?m \<le> CACHE_ENTRIES" "strictly_sorted ?m" "cache_sourced reader (calls @ [c]) ?m" "cache_sourced reader calls ?m"
    using inv retain_fresh_sublist [where m = "geo_cache geo" and clock = "gc_clock c" and i = 0]
    by (auto simp: geo_inv_def intro: cache_sourced_mono)
  have "geo_inv reader (calls @ [c]) geo' \<and> (candidate (gc_host c) = Some d \<longrightarrow>
      fresh_answer reader c (candidate_key d) loc
      \<or> (\<exists>b\<in>set calls. fresh_answer reader b (candidate_key d) loc \<and> gc_clock c 0 < gc_clock b CACHE_ENTRIES + CACHE_TTL))"
  proof (cases "candidate (gc_host c)")
    case None
    then have "geo' = geo" using run r by (simp add: run_call_def geo_lookup_def)
    then show ?thesis using inv None by (auto simp: geo_inv_def intro: cache_sourced_mono)
  next
    case (Some e)
    show ?thesis
    proof (cases "map_of ?m (candidate_key e)")
      case (Some hit)
      then obtain expiry where hit: "hit = (expiry, loc)" and geo': "geo' = geo\<lparr>geo_cache := ?m\<rparr>"
        using run r \<open>candidate (gc_host c) = Some e\<close> by (cases hit) (auto simp: run_call_def geo_lookup_def Let_def)
      then have "(candidate_key e, expiry, loc) \<in> set ?m" using Some by (auto dest: map_of_SomeD)
      moreover from this obtain b where "b \<in> set calls" "fresh_answer reader b (candidate_key e) loc"
        "expiry \<le> gc_clock b CACHE_ENTRIES + CACHE_TTL" using m(4) by (fastforce simp: cache_sourced_def)
      ultimately show ?thesis
        using retain_fresh_expiry [OF mono] geo' m r \<open>candidate (gc_host c) = Some e\<close>
        by (fastforce simp: geo_inv_def)
    next
      case None
      let ?p = "if CACHE_ENTRIES \<le> length ?m then tl ?m else ?m"
      let ?t = "gc_clock c (length (geo_cache geo)) + CACHE_TTL"
      have loc: "loc = fst (location_of reader (fst (address_of (gc_dns c) e)))"
        and geo': "geo' = geo\<lparr>geo_cache := btree_insert (candidate_key e) (?t, loc) ?p\<rparr>"
        using run r None \<open>candidate (gc_host c) = Some e\<close>
        by (auto simp: run_call_def geo_lookup_def Let_def split: prod.splits)
      have f: "fresh_answer reader c (candidate_key e) loc"
        using loc \<open>candidate (gc_host c) = Some e\<close> by (simp add: fresh_answer_def)
      have "?t \<le> gc_clock c CACHE_ENTRIES + CACHE_TTL" using inv monoD [OF mono] by (simp add: geo_inv_def)
      then have "cache_sourced reader (calls @ [c]) (btree_insert (candidate_key e) (?t, loc) ?p)"
        using f m(3) pop_first_room(3) [OF m(1,2)] unfolding cache_sourced_def by (fastforce dest!: btree_insert_set)
      then show ?thesis
        using f geo' r pop_first_room [OF m(1,2)] btree_insert_sorted btree_insert_length [of "candidate_key e" "(?t, loc)" ?p]
          \<open>candidate (gc_host c) = Some e\<close>
        by (auto simp: geo_inv_def)
    qed
  qed
  then show "geo_inv reader (calls @ [c]) geo'"
    and "candidate (gc_host c) = Some d \<Longrightarrow>
      fresh_answer reader c (candidate_key d) loc
      \<or> (\<exists>b\<in>set calls. fresh_answer reader b (candidate_key d) loc \<and> gc_clock c 0 < gc_clock b CACHE_ENTRIES + CACHE_TTL)"
    by auto
qed

lemma geo_after_inv:
  assumes "list_all (\<lambda>c. mono (gc_clock c)) calls"
  shows "geo_inv reader calls (geo_after reader calls)"
  using assms
proof (induction calls rule: rev_induct)
  case Nil
  then show ?case
    by (simp add: geo_after_def new_geo_def from_reader_def geo_inv_def cache_sourced_def strictly_sorted_def)
next
  case (snoc c calls)
  obtain loc geo' effects where run: "run_call c (geo_after reader calls) = (loc, geo', effects)" by (cases "run_call c (geo_after reader calls)")
  then have "geo_after reader (calls @ [c]) = geo'" by (simp add: geo_after_def)
  then show ?case using lookup_step(1) [OF _ _ run] snoc by simp
qed

text \<open>
  C20. Whatever hosts operators publish, whatever the resolver answers and however time passes: a lookup sends
  only absolute names of valid labels to the resolver and reads only addresses outside the special-purpose
  blocks; the cache keeps at most 4096 hosts; and the answer for a well-formed host is what this call or an
  earlier one for the same key found, the earlier one less than 300 seconds before.
\<close>

theorem geo_lookup_sound:
  assumes "list_all (\<lambda>c. mono (gc_clock c)) (calls @ [c])"
    and "run_call c (geo_after reader calls) = (loc, geo', effects)"
  shows "list_all effect_allowed effects \<and> length (geo_cache geo') \<le> CACHE_ENTRIES
    \<and> (case candidate (gc_host c) of
        None \<Rightarrow> loc = None \<and> geo' = geo_after reader calls \<and> effects = []
      | Some d \<Rightarrow> fresh_answer reader c (candidate_key d) loc
          \<or> (\<exists>b\<in>set calls. fresh_answer reader b (candidate_key d) loc
              \<and> gc_clock c 0 < gc_clock b CACHE_ENTRIES + CACHE_TTL))"
proof (intro conjI)
  have inv: "geo_inv reader calls (geo_after reader calls)" and m: "mono (gc_clock c)"
    using assms(1) geo_after_inv by auto
  show "list_all effect_allowed effects"
    using assms(2) lookup_effects_allowed [of "gc_clock c" "gc_dns c" "gc_host c" "geo_after reader calls"]
    by (simp add: run_call_def)
  show "length (geo_cache geo') \<le> CACHE_ENTRIES"
    using lookup_step(1) [OF inv m assms(2)] by (simp add: geo_inv_def)
  show "case candidate (gc_host c) of
        None \<Rightarrow> loc = None \<and> geo' = geo_after reader calls \<and> effects = []
      | Some d \<Rightarrow> fresh_answer reader c (candidate_key d) loc
          \<or> (\<exists>b\<in>set calls. fresh_answer reader b (candidate_key d) loc
              \<and> gc_clock c 0 < gc_clock b CACHE_ENTRIES + CACHE_TTL)"
    using lookup_step(2) [OF inv m assms(2)] assms(2) inv
    by (auto simp: run_call_def geo_lookup_def geo_inv_def split: option.splits)
qed

text \<open>Two lookups of one name a second apart, between which its address leaves the database.\<close>

definition demo_city :: city_db where
  "demo_city ip = (if ip = V4 89 160 20 128
     then Inr (Some \<lparr>cr_country = Some ''SE'', cr_registered_country = None, cr_names = [], cr_latitude = Some 1, cr_longitude = Some 2\<rparr>)
     else Inr None)"

definition demo_call :: "int \<Rightarrow> dns_outcome \<Rightarrow> geo_call" where
  "demo_call t answer = \<lparr>gc_clock = (\<lambda>_. t), gc_dns = (\<lambda>_. answer), gc_host = '' Node.Example. ''\<rparr>"

lemma demo_candidate: "candidate '' Node.Example. '' = Some (Name ''node.example'')"
proof -
  have h: "strip_root (map ascii_lower (trim '' Node.Example. '')) = ''node.example''" by code_simp
  have ip: "parse_ip ''node.example'' = None"
    using read_octets.simps(2) [of 0 3 "''node.example''"]
    by (simp add: parse_ip_def read_ipv4_addr_def read_ipv6_addr_def read_groups.simps [of 8 0] read_separator_def
        read_number_def radix_digit_def hex_digit_val_def read_given_char_def)
  have "split_on (CHR ''.'') ''node.example'' = [''node'', ''example'']" by simp
  moreover have "list_all valid_label [''node'', ''example'']" and "list_ex is_ascii_alphabetic ''example''" by code_simp+
  ultimately show ?thesis unfolding candidate_def Let_def h ip by simp
qed

lemma demo_public: "is_public (V4 89 160 20 128)"
  by (simp add: is_public_def public_v4_def is_private_def is_documentation_def)

lemmas demo_lookup = run_call_def geo_lookup_def demo_call_def demo_candidate candidate_key_def Let_def address_of_def
  location_of_def resolve_def demo_public decode_city_def demo_city_def project_city_def CACHE_ENTRIES_def CACHE_TTL_def

text \<open>C20 for a lookup one second after another one: the answer is the earlier one, although the resolver fails.\<close>

theorem geo_lookup_sound_witness:
  "\<exists>loc geo'. run_call (demo_call (10 ^ 9) DnsFailed)
       (geo_after demo_city [demo_call 0 (Addresses [V4 89 160 20 128])]) = (Some loc, geo', [])
     \<and> length (geo_cache geo') \<le> CACHE_ENTRIES \<and> nl_country loc = ''SE''
     \<and> fresh_answer demo_city (demo_call 0 (Addresses [V4 89 160 20 128])) ''node.example'' (Some loc)"
proof -
  let ?calls = "[demo_call 0 (Addresses [V4 89 160 20 128])]"
  let ?c = "demo_call (10 ^ 9) DnsFailed"
  obtain loc geo' where run: "run_call ?c (geo_after demo_city ?calls) = (Some loc, geo', [])" and se: "nl_country loc = ''SE''"
    by (simp add: geo_after_def new_geo_def from_reader_def demo_lookup)
  have "list_all (\<lambda>c. mono (gc_clock c)) (?calls @ [?c])" by (simp add: demo_call_def mono_def)
  from geo_lookup_sound [OF this run]
  have "length (geo_cache geo') \<le> CACHE_ENTRIES"
    and "fresh_answer demo_city ?c ''node.example'' (Some loc) \<or> fresh_answer demo_city (hd ?calls) ''node.example'' (Some loc)"
    by (auto simp: demo_call_def demo_candidate candidate_key_def)
  moreover have "\<not> fresh_answer demo_city ?c ''node.example'' (Some loc)"
    by (simp add: fresh_answer_def demo_lookup)
  ultimately show ?thesis using run se by auto
qed

text \<open>
  The inspection command reports for every host what an uncached lookup would show, and causes the same
  queries and reads.
\<close>

theorem inspect_matches_lookup:
  assumes "inspect dns host (from_reader (Some reader)) = (out, effects)"
  shows "\<exists>geo'. geo_lookup clock dns host (from_reader (Some reader)) =
    (Option.bind (in_lat out) (\<lambda>lat. Option.bind (in_lng out) (\<lambda>lng. Some
      \<lparr>nl_country = (case in_country out of Some c \<Rightarrow> c | None \<Rightarrow> (case in_registered_country out of Some c \<Rightarrow> c | None \<Rightarrow> ''??'')),
       nl_city = in_city out, nl_lat = lat, nl_lng = lng\<rparr>)), geo', effects)"
  using assms
  by (auto simp: inspect_def geo_lookup_def from_reader_def location_of_def decode_city_def project_city_def Let_def CACHE_ENTRIES_def
      split: option.splits prod.splits if_splits sum.splits)

end
