(* ===== verification/Nodes.thy ===== *)
theory Nodes
  imports Geo_Props Qblock_Files Miner_Parse
begin

text \<open>
  The public nodes document (\<open>quip-dashboard/src/nodes.rs\<close>) and the descriptor types it projects
  (\<open>dashboard-model/src/node.rs\<close>). The rows of the store and the serializer are arguments.
\<close>

section \<open>Descriptors\<close>

record node_system_cpu =
  cpu_logical_cores :: "u32 option"
  cpu_physical_cores :: "u32 option"
  cpu_brand :: "string option"
  cpu_arch :: "string option"

record node_system_os =
  os_system :: "string option"
  os_release :: "string option"
  os_machine :: "string option"

record node_system_gpu =
  gpu_index :: "u32 option"
  gpu_vendor :: "string option"
  gpu_name :: "string option"
  gpu_memory_mb :: "u64 option"
  gpu_observed_utilization_pct :: "f64 option"

record node_system_info =
  sys_os :: "node_system_os option"
  sys_cpu :: "node_system_cpu option"
  sys_memory_mb :: "u64 option"
  sys_gpus :: "node_system_gpu list option"

record node_runtime =
  rt_python :: "string option"
  rt_quip_version :: "string option"
  rt_protocol_version :: "u32 option"
  rt_in_docker :: "bool option"
  rt_docker_image :: "string option"

record node_miner_entry =
  me_kind :: miner_category
  me_miner_id :: string
  me_num_cpus :: "u32 option"
  me_backend :: "string option"
  me_device_index :: "u32 option"
  me_utilization :: "f64 option"
  me_provider :: "string option"
  me_solver :: "string option"
  me_daily_budget :: "string option"

text \<open>The schema has one value, so the descriptor does not carry it.\<close>

record node_descriptor =
  nd_descriptor_version :: u8
  nd_node_name :: string
  nd_public_host :: "string option"
  nd_public_port :: "u16 option"
  nd_rpc_endpoints :: "string list option"
  nd_log_level :: "string option"
  nd_runtime :: "node_runtime option"
  nd_miners :: "(string \<times> node_miner_entry) list option"
  nd_system_info :: "node_system_info option"

text \<open>A stored row, with its descriptor decoded.\<close>

record descriptor_source =
  ds_account_id :: string
  ds_block_number :: decimal_string
  ds_block_hash :: block_hash
  ds_extrinsic_index :: u32
  ds_block_timestamp :: u64
  ds_first_block_timestamp :: u64
  ds_descriptor :: node_descriptor
  ds_observed_at :: string

record node_info =
  ni_address :: string
  ni_status :: string
  ni_first_seen :: u64
  ni_last_seen :: u64
  ni_last_heartbeat :: "u64 option"
  ni_ecdsa_public_key_hex :: "string option"
  ni_node_name :: "string option"
  ni_public_host :: "string option"
  ni_public_port :: "u16 option"
  ni_log_level :: "string option"
  ni_runtime :: "node_runtime option"
  ni_miners :: "(string \<times> node_miner_entry) list option"
  ni_system_info :: "node_system_info option"
  ni_location :: "node_location option"

record nodes_snapshot =
  sn_updated_at :: string
  sn_node_count :: u32
  sn_active_count :: u32
  sn_nodes :: "(string \<times> node_info) list"

record nodes_document =
  doc_nodes :: "nodes_snapshot option"
  doc_descriptors :: "descriptor_source list"

section \<open>Projection\<close>

text \<open>The clock and the resolver during the lookup of a row.\<close>

type_synonym lookup_env = "(nat \<Rightarrow> int) \<times> dns"

definition locate_host :: "lookup_env \<Rightarrow> string option \<Rightarrow> geo_ip \<Rightarrow> node_location option \<times> geo_ip" where
  "locate_host env host geo = (case host of None \<Rightarrow> (None, geo)
     | Some h \<Rightarrow> (case geo_lookup (fst env) (snd env) h geo of (loc, geo', _) \<Rightarrow> (loc, geo')))"

definition node_of :: "descriptor_source \<Rightarrow> node_location option \<Rightarrow> node_info" where
  "node_of r loc = (let d = ds_descriptor r in
     \<lparr>ni_address = ds_account_id r, ni_status = ''active'', ni_first_seen = ds_first_block_timestamp r,
      ni_last_seen = ds_block_timestamp r, ni_last_heartbeat = None, ni_ecdsa_public_key_hex = None,
      ni_node_name = Some (nd_node_name d), ni_public_host = nd_public_host d, ni_public_port = nd_public_port d,
      ni_log_level = nd_log_level d, ni_runtime = nd_runtime d, ni_miners = nd_miners d,
      ni_system_info = nd_system_info d, ni_location = loc\<rparr>)"

fun project_rows :: "(descriptor_source \<times> lookup_env) list \<Rightarrow> geo_ip \<Rightarrow> (string \<times> node_info) list \<Rightarrow> string
    \<Rightarrow> geo_ip \<times> (string \<times> node_info) list \<times> string" where
  "project_rows [] geo nodes updated = (geo, nodes, updated)"
| "project_rows ((r, env) # rs) geo nodes updated =
     (case locate_host env (nd_public_host (ds_descriptor r)) geo of (loc, geo') \<Rightarrow>
       project_rows rs geo' (btree_insert (ds_account_id r) (node_of r loc) nodes)
         (if updated < ds_observed_at r then ds_observed_at r else updated))"

definition project_nodes :: "(descriptor_source \<times> lookup_env) list \<Rightarrow> geo_ip \<Rightarrow> nodes_document \<times> geo_ip" where
  "project_nodes rows geo = (case project_rows rows geo [] [] of (geo', nodes, updated) \<Rightarrow>
     let count = (if length nodes < 2 ^ 32 then of_nat (length nodes) else max_word)
     in (\<lparr>doc_nodes = (if nodes = [] then None
            else Some \<lparr>sn_updated_at = updated, sn_node_count = count, sn_active_count = count, sn_nodes = nodes\<rparr>),
          doc_descriptors = map fst rows\<rparr>, geo'))"

definition build_nodes_document :: "'e + (descriptor_source \<times> lookup_env) list \<Rightarrow> geo_ip \<Rightarrow> 'e + nodes_document \<times> geo_ip" where
  "build_nodes_document rows geo = rbind rows (\<lambda>rs. Inr (project_nodes rs geo))"

definition write_nodes_document :: "(nodes_document \<Rightarrow> io_error + 'b) \<Rightarrow> 'b io_env \<Rightarrow> nodes_document \<Rightarrow> ('b, unit) io" where
  "write_nodes_document ser env doc = io_bind (io_lift (ser doc)) (\<lambda>bytes.
     atomic_write env [''nodes'', ''snapshot.json''] bytes)"

section \<open>The document\<close>

lemma map_of_btree_insert: "strictly_sorted m \<Longrightarrow> map_of (btree_insert k v m) = (map_of m)(k \<mapsto> v)"
  by (induction k v m rule: btree_insert.induct) (auto simp: strictly_sorted_def)

lemma strictly_sorted_distinct: "strictly_sorted m \<Longrightarrow> distinct (map fst m)"
  unfolding strictly_sorted_def by (simp add: strict_sorted_iff)

text \<open>The node of a row, up to its location.\<close>

definition shows_row :: "descriptor_source \<Rightarrow> node_info \<Rightarrow> bool" where
  "shows_row r n \<longleftrightarrow> n\<lparr>ni_location := None\<rparr> = node_of r None"

lemma shows_node_of [simp]: "shows_row r (node_of r loc)"
  by (simp add: shows_row_def node_of_def Let_def)

definition last_row :: "descriptor_source list \<Rightarrow> string \<Rightarrow> descriptor_source option" where
  "last_row rs a = map_of (rev (map (\<lambda>r. (ds_account_id r, r)) rs)) a"

definition latest_time :: "descriptor_source list \<Rightarrow> string" where
  "latest_time rs = Max (insert [] (ds_observed_at ` set rs))"

lemma project_rows_exact:
  assumes "project_rows rs geo nodes updated = (geo', nodes', updated')" "strictly_sorted nodes"
  shows "strictly_sorted nodes'"
    and "updated' = Max (insert updated (ds_observed_at ` set (map fst rs)))"
    and "case last_row (map fst rs) a of Some x \<Rightarrow> (\<exists>n. map_of nodes' a = Some n \<and> shows_row x n) | None \<Rightarrow> map_of nodes' a = map_of nodes a"
proof -
  have "strictly_sorted nodes' \<and> updated' = Max (insert updated (ds_observed_at ` set (map fst rs)))
    \<and> (case last_row (map fst rs) a of Some x \<Rightarrow> (\<exists>n. map_of nodes' a = Some n \<and> shows_row x n) | None \<Rightarrow> map_of nodes' a = map_of nodes a)"
    using assms
  proof (induction rs geo nodes updated rule: project_rows.induct)
    case (1 geo nodes updated)
    then show ?case by (simp add: last_row_def)
  next
    case (2 r env rs geo nodes updated)
    obtain loc g where l: "locate_host env (nd_public_host (ds_descriptor r)) geo = (loc, g)"
      by (cases "locate_host env (nd_public_host (ds_descriptor r)) geo")
    let ?n = "btree_insert (ds_account_id r) (node_of r loc) nodes"
    let ?u = "if updated < ds_observed_at r then ds_observed_at r else updated"
    from 2 l have ih: "strictly_sorted nodes' \<and> updated' = Max (insert ?u (ds_observed_at ` set (map fst rs)))
      \<and> (case last_row (map fst rs) a of Some x \<Rightarrow> (\<exists>n. map_of nodes' a = Some n \<and> shows_row x n) | None \<Rightarrow> map_of nodes' a = map_of ?n a)"
      by (simp add: btree_insert_sorted)
    have u: "?u = max updated (ds_observed_at r)" by (auto simp: max_def)
    have "Max (insert ?u (ds_observed_at ` set (map fst rs))) = Max (insert updated (ds_observed_at ` set (map fst ((r, env) # rs))))"
      unfolding u by (cases "rs = []") (simp_all add: max.assoc max.left_commute)
    moreover have "last_row (map fst ((r, env) # rs)) a = (case last_row (map fst rs) a of Some x \<Rightarrow> Some x
        | None \<Rightarrow> if a = ds_account_id r then Some r else None)"
      by (auto simp: last_row_def map_add_def split: option.splits)
    ultimately show ?case using ih 2(3)
      by (auto simp: map_of_btree_insert split: option.splits)
  qed
  then show "strictly_sorted nodes'"
    and "updated' = Max (insert updated (ds_observed_at ` set (map fst rs)))"
    and "case last_row (map fst rs) a of Some x \<Rightarrow> (\<exists>n. map_of nodes' a = Some n \<and> shows_row x n) | None \<Rightarrow> map_of nodes' a = map_of nodes a" by blast+
qed

text \<open>
  The nodes document has a snapshot exactly when there are rows. It lists each account that has a row once,
  in the order of the accounts, with the values of its last row; both counts are the number of accounts, the
  time is the latest of the rows, and the rows are kept as they are.
\<close>

theorem nodes_document_exact:
  assumes "project_nodes rows geo = (doc, geo')" "length rows < 2 ^ 32"
  shows "doc_descriptors doc = map fst rows \<and> (doc_nodes doc = None) = (rows = [])
    \<and> (case doc_nodes doc of None \<Rightarrow> True | Some s \<Rightarrow>
        sorted_wrt (<) (map fst (sn_nodes s)) \<and> set (map fst (sn_nodes s)) = ds_account_id ` set (map fst rows)
      \<and> (\<forall>a. rel_option shows_row (last_row (map fst rows) a) (map_of (sn_nodes s) a))
      \<and> unat (sn_node_count s) = card (ds_account_id ` set (map fst rows)) \<and> sn_active_count s = sn_node_count s
      \<and> sn_updated_at s = latest_time (map fst rows))"
proof -
  obtain g nodes updated where p: "project_rows rows geo [] [] = (g, nodes, updated)"
    by (cases "project_rows rows geo [] []")
  have srt: "strictly_sorted ([] :: (string \<times> node_info) list)" by (simp add: strictly_sorted_def)
  note e = project_rows_exact [OF p srt]
  have rel: "rel_option shows_row (last_row (map fst rows) a) (map_of nodes a)" for a
    using e(3) [of a] by (auto split: option.splits)
  have keys: "set (map fst nodes) = ds_account_id ` set (map fst rows)"
  proof -
    have "(a \<in> set (map fst nodes)) = (last_row (map fst rows) a \<noteq> None)" for a
      using rel [of a] map_of_eq_None_iff [of nodes a] by (cases "map_of nodes a") (auto simp: option_rel_Some2)
    moreover have "(last_row (map fst rows) a \<noteq> None) = (a \<in> ds_account_id ` set (map fst rows))" for a
      unfolding last_row_def map_of_eq_None_iff by force
    ultimately show ?thesis by blast
  qed
  have card: "length nodes = card (ds_account_id ` set (map fst rows))"
    using distinct_card [OF strictly_sorted_distinct [OF e(1)]] keys by simp
  have "length nodes \<le> length rows"
    using card card_image_le [of "set (map fst rows)" ds_account_id] card_length [of "map fst rows"] by simp
  then have cnt: "unat (of_nat (length nodes) :: u32) = length nodes" and small: "length nodes < 2 ^ 32"
    using assms(2) by (auto simp: unat_of_nat)
  have "nodes = [] \<longleftrightarrow> rows = []" using keys by (metis image_is_empty list.set(1) map_is_Nil_conv set_empty)
  then show ?thesis
    using assms(1) p small cnt card keys rel e(1) e(2)
    by (auto simp: project_nodes_def Let_def strictly_sorted_def latest_time_def)
qed

end
