(* ===== verification/Miner_Cache.thy ===== *)
theory Miner_Cache
  imports Miner_Parse
begin

text \<open>
  The bounded single-flight caches of miner answers (\<open>quip-dashboard/src/miner/cache.rs\<close>). Six caches draw on
  one pool of permits. Tasks interleave between the points where they wait: for the table of a cache, for a
  slot, for the fetch and, when the pool is short, for the table again. A step is what happens between two such
  points. \<open>Arc\<close> owners are counted: a slot lives while the table or a task owns it, an observation while a slot or
  a consumer owns it, and its permits return when the last owner is gone. Times are nanoseconds.
\<close>

section \<open>Charges and errors\<close>

definition CACHE_BYTES :: nat where
  "CACHE_BYTES = 6 * 1024 * 1024"

definition ENTRIES :: nat where
  "ENTRIES = 32"

text \<open>A JSON tree with the capacities of its allocations.\<close>

datatype sized_value = SNull | SBool bool | SNumber string | SString (capacity: usize)
  | SArray "sized_value list" usize | SObject "(usize \<times> sized_value) list"

fun retained_bytes :: "usize \<Rightarrow> sized_value \<Rightarrow> usize" where
  "retained_bytes sz v = saturating_add sz (case v of
       SNull \<Rightarrow> 0 | SBool _ \<Rightarrow> 0 | SNumber n \<Rightarrow> of_nat (length n) | SString cap \<Rightarrow> cap
     | SArray vs cap \<Rightarrow> saturating_add (sum_list (map (retained_bytes sz) vs))
         (saturating_sub cap (of_nat (length vs)) * sz)
     | SObject kvs \<Rightarrow> sum_list (map (\<lambda>(k, v). saturating_add (saturating_add k (retained_bytes sz v)) 96) kvs))"

fun floor_char_boundary :: "string \<Rightarrow> nat \<Rightarrow> nat" where
  "floor_char_boundary s i = (if length s \<le> i then length s else if i = 0 \<or> is_char_boundary s i then i
     else floor_char_boundary s (i - 1))"

declare floor_char_boundary.simps [simp del]

definition bound_message :: "string \<Rightarrow> string" where
  "bound_message m = (if 512 < length m then take (floor_char_boundary m 512) m else m)"

definition bounded_error :: "miner_error \<Rightarrow> miner_error" where
  "bounded_error e = (case e of Unparsable m \<Rightarrow> Unparsable (bound_message m) | Unreachable m \<Rightarrow> Unreachable (bound_message m)
     | EnvelopeFailure m \<Rightarrow> EnvelopeFailure (bound_message m) | Http m \<Rightarrow> Http (bound_message m) | _ \<Rightarrow> e)"

text \<open>Sizes the compiler fixes, and the tree of a value or the message of the serializer.\<close>

record 'a cache_lib =
  cl_value_size :: usize
  cl_observed_size :: usize
  cl_to_value :: "'a \<Rightarrow> string + sized_value"

definition too_large :: miner_error where
  "too_large = BodyTooLarge (of_nat CACHE_BYTES)"

text \<open>The permits an observation needs.\<close>

definition charge :: "'a cache_lib \<Rightarrow> 'a \<Rightarrow> miner_error + nat" where
  "charge lib x = (case cl_to_value lib x of Inl m \<Rightarrow> Inl (Unparsable m)
     | Inr v \<Rightarrow> (let bytes = saturating_add (retained_bytes (cl_value_size lib) v) (cl_observed_size lib + 64)
         in if of_nat CACHE_BYTES < bytes then Inl too_large else Inr (unat bytes)))"

section \<open>State\<close>

type_synonym cache_id = nat
type_synonym slot_id = nat
type_synonym obs_id = nat
type_synonym task_id = nat

record 'a observed =
  ob_data :: 'a
  ob_observed_at :: string
  ob_charge :: nat

record cache_entry =
  en_expires :: int
  en_result :: "miner_error + obs_id"

text \<open>
  Where a task waits: for its slot, for the fetch with the slot locked, or for the table with the slot locked
  and fetched data that did not fit. It knows its cache, key, slot and whether it asks for a peer.
\<close>

datatype 'a phase = Waiting | Fetching | Crowded 'a nat

record 'a task_state =
  tk_cache :: cache_id
  tk_key :: string
  tk_slot :: slot_id
  tk_peer :: bool
  tk_phase :: "'a phase"

record 'a caches =
  ca_entries :: "(cache_id \<times> string \<times> int \<times> slot_id) list"
  ca_slots :: "slot_id \<Rightarrow> cache_entry option"
  ca_tasks :: "(task_id \<times> 'a task_state) list"
  ca_observed :: "(obs_id \<times> 'a observed) list"
  ca_held :: "obs_id list"
  ca_available :: nat
  ca_next :: nat

definition new_caches :: "'a caches" where
  "new_caches = \<lparr>ca_entries = [], ca_slots = (\<lambda>_. None), ca_tasks = [], ca_observed = [], ca_held = [],
     ca_available = CACHE_BYTES, ca_next = 0\<rparr>"

section \<open>Owners\<close>

text \<open>A slot is idle when only the table owns it.\<close>

definition idle :: "'a caches \<Rightarrow> slot_id \<Rightarrow> bool" where
  "idle s i \<longleftrightarrow> \<not> list_ex (\<lambda>(_, t). tk_slot t = i) (ca_tasks s)"

definition holds_lock :: "'a task_state \<Rightarrow> bool" where
  "holds_lock t \<longleftrightarrow> (case tk_phase t of Waiting \<Rightarrow> False | _ \<Rightarrow> True)"

definition slot_locked :: "'a caches \<Rightarrow> slot_id \<Rightarrow> bool" where
  "slot_locked s i \<longleftrightarrow> list_ex (\<lambda>(_, t). tk_slot t = i \<and> holds_lock t) (ca_tasks s)"

definition slot_alive :: "'a caches \<Rightarrow> slot_id \<Rightarrow> bool" where
  "slot_alive s i \<longleftrightarrow> list_ex (\<lambda>(_, _, _, j). j = i) (ca_entries s) \<or> \<not> idle s i"

definition slot_owns :: "'a caches \<Rightarrow> obs_id \<Rightarrow> slot_id \<Rightarrow> bool" where
  "slot_owns s x i \<longleftrightarrow> (case ca_slots s i of Some e \<Rightarrow> en_result e = Inr x | None \<Rightarrow> False)"

definition obs_owned :: "'a caches \<Rightarrow> obs_id \<Rightarrow> bool" where
  "obs_owned s x \<longleftrightarrow> x \<in> set (ca_held s)
     \<or> list_ex (\<lambda>(_, _, _, i). slot_owns s x i) (ca_entries s) \<or> list_ex (\<lambda>(_, t). slot_owns s x (tk_slot t)) (ca_tasks s)"

text \<open>Observations without an owner are dropped and return their permits.\<close>

definition release :: "'a caches \<Rightarrow> 'a caches" where
  "release s = s\<lparr>ca_observed := filter (\<lambda>(x, _). obs_owned s x) (ca_observed s),
     ca_available := ca_available s + sum_list (map (ob_charge \<circ> snd) (filter (\<lambda>(x, _). \<not> obs_owned s x) (ca_observed s)))\<rparr>"

definition drop_task :: "task_id \<Rightarrow> 'a caches \<Rightarrow> 'a caches" where
  "drop_task t s = s\<lparr>ca_tasks := filter (\<lambda>(u, _). u \<noteq> t) (ca_tasks s)\<rparr>"

definition set_task :: "task_id \<Rightarrow> 'a task_state \<Rightarrow> 'a caches \<Rightarrow> 'a caches" where
  "set_task t st s = s\<lparr>ca_tasks := (t, st) # filter (\<lambda>(u, _). u \<noteq> t) (ca_tasks s)\<rparr>"

section \<open>Steps\<close>

definition find_entry :: "'a caches \<Rightarrow> cache_id \<Rightarrow> string \<Rightarrow> (int \<times> slot_id) option" where
  "find_entry s c k = map_of (map (\<lambda>(d, j, v). ((d, j), v)) (ca_entries s)) (c, k)"

definition entries_of :: "'a caches \<Rightarrow> cache_id \<Rightarrow> (string \<times> int \<times> slot_id) list" where
  "entries_of s c = map snd (filter (\<lambda>(d, _). d = c) (ca_entries s))"

definition remove_entry :: "cache_id \<Rightarrow> string \<Rightarrow> 'a caches \<Rightarrow> 'a caches" where
  "remove_entry c k s = s\<lparr>ca_entries := filter (\<lambda>(d, j, _). \<not> (d = c \<and> j = k)) (ca_entries s)\<rparr>"

definition add_slot :: "task_id \<Rightarrow> cache_id \<Rightarrow> string \<Rightarrow> bool \<Rightarrow> int \<Rightarrow> 'a caches \<Rightarrow> 'a caches" where
  "add_slot t c k peer now s = (let i = ca_next s in
     set_task t \<lparr>tk_cache = c, tk_key = k, tk_slot = i, tk_peer = peer, tk_phase = Waiting\<rparr>
       (s\<lparr>ca_entries := (c, k, now, i) # ca_entries s, ca_slots := (ca_slots s)(i := None), ca_next := Suc i\<rparr>))"

text \<open>
  The part of \<open>get\<close> under the table's lock. The victim is any of the idle entries used least recently; a table
  full of busy entries refuses the request.
\<close>

definition enter :: "task_id \<Rightarrow> cache_id \<Rightarrow> string \<Rightarrow> bool \<Rightarrow> int \<Rightarrow> string \<Rightarrow> 'a caches \<Rightarrow> (miner_error + 'a caches) option" where
  "enter t c k peer now victim s =
     (if t \<in> fst ` set (ca_tasks s) then None
      else case find_entry s c k of
        Some (_, i) \<Rightarrow> Some (Inr (set_task t \<lparr>tk_cache = c, tk_key = k, tk_slot = i, tk_peer = peer, tk_phase = Waiting\<rparr>
          (s\<lparr>ca_entries := map (\<lambda>(d, j, u, v). if d = c \<and> j = k then (d, j, now, v) else (d, j, u, v)) (ca_entries s)\<rparr>)))
      | None \<Rightarrow>
        if length (entries_of s c) < ENTRIES then Some (Inr (add_slot t c k peer now s))
        else let free = filter (\<lambda>(_, _, i). idle s i) (entries_of s c) in
          if free = [] then Some (Inl (Http ''miner resource capacity exhausted''))
          else if list_ex (\<lambda>(j, u, _). j = victim \<and> list_all (\<lambda>(_, w, _). u \<le> w) free) free
          then Some (Inr (add_slot t c k peer now (release (remove_entry c victim s))))
          else None)"

definition ttl_seconds :: "bool \<Rightarrow> miner_error + obs_id \<Rightarrow> int" where
  "ttl_seconds peer r = (if \<not> peer then 8 else case r of Inr _ \<Rightarrow> 5 | Inl _ \<Rightarrow> 60)"

text \<open>Store a result in the locked slot, hand it to the caller and end the task.\<close>

definition finish :: "task_id \<Rightarrow> 'a task_state \<Rightarrow> int \<Rightarrow> miner_error + obs_id \<Rightarrow> 'a caches \<Rightarrow> 'a caches" where
  "finish t st now r s = drop_task t
     (s\<lparr>ca_slots := (ca_slots s)(tk_slot st := Some \<lparr>en_expires = now + ttl_seconds (tk_peer st) r * 10 ^ 9, en_result = r\<rparr>),
        ca_held := (case r of Inr x \<Rightarrow> x # ca_held s | Inl _ \<Rightarrow> ca_held s)\<rparr>)"

text \<open>Reserve permits and observe; the system clock may be before 1970, and then the permits return.\<close>

definition reserve :: "task_id \<Rightarrow> 'a task_state \<Rightarrow> int \<Rightarrow> string + u64 \<Rightarrow> 'a \<Rightarrow> nat \<Rightarrow> 'a caches \<Rightarrow> 'a caches" where
  "reserve t st now clock x n s = (case clock of Inl m \<Rightarrow> finish t st now (Inl (Http m)) s
     | Inr ms \<Rightarrow> (let i = ca_next s in
         finish t st now (Inr i) (s\<lparr>ca_observed := (i, \<lparr>ob_data = x, ob_observed_at = format_iso8601_ms ms, ob_charge = n\<rparr>) # ca_observed s,
           ca_available := ca_available s - n, ca_next := Suc i\<rparr>)))"

definition evict_idle :: "cache_id \<Rightarrow> 'a caches \<Rightarrow> 'a caches" where
  "evict_idle c s = release (s\<lparr>ca_entries := filter (\<lambda>(d, _, _, i). d = c \<longrightarrow> \<not> idle s i) (ca_entries s)\<rparr>)"

definition prune_expired :: "cache_id \<Rightarrow> int \<Rightarrow> 'a caches \<Rightarrow> 'a caches" where
  "prune_expired c now s = release (s\<lparr>ca_entries := filter (\<lambda>(d, _, _, i). d = c \<and> idle s i \<longrightarrow>
     (case ca_slots s i of Some e \<Rightarrow> now < en_expires e | None \<Rightarrow> False)) (ca_entries s)\<rparr>)"

datatype 'a cache_event =
    Enter task_id cache_id string bool int string
  | Lock task_id int
  | Fetched task_id "miner_error + 'a" int "string + u64"
  | Retry task_id int "string + u64"
  | Cancel task_id
  | Prune cache_id int
  | DropHandle obs_id

fun cache_step :: "'a cache_lib \<Rightarrow> 'a cache_event \<Rightarrow> 'a caches \<Rightarrow> 'a caches option" where
  "cache_step lib (Enter t c k peer now victim) s = (case enter t c k peer now victim s of None \<Rightarrow> None
     | Some (Inl _) \<Rightarrow> Some s | Some (Inr s') \<Rightarrow> Some s')"
| "cache_step lib (Lock t now) s = (case map_of (ca_tasks s) t of None \<Rightarrow> None
     | Some st \<Rightarrow> (case tk_phase st of Waiting \<Rightarrow>
         if slot_locked s (tk_slot st) then None
         else (case ca_slots s (tk_slot st) of
             Some e \<Rightarrow> if now < en_expires e
               then Some (drop_task t (s\<lparr>ca_held := (case en_result e of Inr x \<Rightarrow> x # ca_held s | Inl _ \<Rightarrow> ca_held s)\<rparr>))
               else Some (release (set_task t (st\<lparr>tk_phase := Fetching\<rparr>) (s\<lparr>ca_slots := (ca_slots s)(tk_slot st := None)\<rparr>)))
           | None \<Rightarrow> Some (set_task t (st\<lparr>tk_phase := Fetching\<rparr>) s))
       | _ \<Rightarrow> None))"
| "cache_step lib (Fetched t r now clock) s = (case map_of (ca_tasks s) t of None \<Rightarrow> None
     | Some st \<Rightarrow> (case tk_phase st of Fetching \<Rightarrow> (case r of
           Inl e \<Rightarrow> Some (finish t st now (Inl (bounded_error e)) s)
         | Inr x \<Rightarrow> (case charge lib x of
               Inl e \<Rightarrow> Some (finish t st now (Inl e) s)
             | Inr n \<Rightarrow> if n \<le> ca_available s then Some (reserve t st now clock x n s)
                 else Some (set_task t (st\<lparr>tk_phase := Crowded x n\<rparr>) s)))
       | _ \<Rightarrow> None))"
| "cache_step lib (Retry t now clock) s = (case map_of (ca_tasks s) t of None \<Rightarrow> None
     | Some st \<Rightarrow> (case tk_phase st of Crowded x n \<Rightarrow>
         (let s = evict_idle (tk_cache st) s in
          if n \<le> ca_available s then Some (reserve t st now clock x n s)
          else Some (finish t st now (Inl too_large) s))
       | _ \<Rightarrow> None))"
| "cache_step lib (Cancel t) s = (if t \<in> fst ` set (ca_tasks s) then Some (release (drop_task t s)) else None)"
| "cache_step lib (Prune c now) s = Some (prune_expired c now s)"
| "cache_step lib (DropHandle x) s = (if x \<in> set (ca_held s) then Some (release (s\<lparr>ca_held := remove1 x (ca_held s)\<rparr>)) else None)"

fun cache_run :: "'a cache_lib \<Rightarrow> 'a cache_event list \<Rightarrow> 'a caches \<Rightarrow> 'a caches option" where
  "cache_run lib [] s = Some s"
| "cache_run lib (e # es) s = (case cache_step lib e s of None \<Rightarrow> None | Some s' \<Rightarrow> cache_run lib es s')"

end
