(* ===== verification/Miner_Cache_Props.thy ===== *)
theory Miner_Cache_Props
  imports Miner_Cache
begin

text \<open>
  What the miner caches keep however their tasks interleave: one fetch per key, bounded tables, and permits
  that are exactly the charges of the observations someone still owns.
\<close>

section \<open>The invariant\<close>

definition slot_of :: "cache_id \<times> string \<times> int \<times> slot_id \<Rightarrow> slot_id" where
  "slot_of e = snd (snd (snd e))"

definition key_of :: "cache_id \<times> string \<times> int \<times> slot_id \<Rightarrow> cache_id \<times> string" where
  "key_of e = (fst e, fst (snd e))"

text \<open>Tables and tasks: one entry per key and slot, at most 32 per cache, and an entry for every task.\<close>

definition tables_ok :: "'a caches \<Rightarrow> bool" where
  "tables_ok s \<longleftrightarrow> distinct (map fst (ca_tasks s)) \<and> distinct (map key_of (ca_entries s)) \<and> distinct (map slot_of (ca_entries s))
     \<and> (\<forall>e\<in>set (ca_entries s). slot_of e < ca_next s) \<and> (\<forall>c. length (entries_of s c) \<le> ENTRIES)
     \<and> (\<forall>(t, st)\<in>set (ca_tasks s). \<exists>e\<in>set (ca_entries s). key_of e = (tk_cache st, tk_key st) \<and> slot_of e = tk_slot st)"

text \<open>A locked slot has one owner and is empty.\<close>

definition locks_ok :: "'a caches \<Rightarrow> bool" where
  "locks_ok s \<longleftrightarrow> (\<forall>(t, st)\<in>set (ca_tasks s). holds_lock st \<longrightarrow> ca_slots s (tk_slot st) = None
     \<and> (\<forall>(t', st')\<in>set (ca_tasks s). holds_lock st' \<and> tk_slot st' = tk_slot st \<longrightarrow> t' = t))"

definition charged :: "(obs_id \<times> 'a observed) list \<Rightarrow> nat" where
  "charged obs = sum_list (map (ob_charge \<circ> snd) obs)"

definition pool_ok :: "'a caches \<Rightarrow> bool" where
  "pool_ok s \<longleftrightarrow> distinct (map fst (ca_observed s)) \<and> (\<forall>x\<in>fst ` set (ca_observed s). x < ca_next s)
     \<and> ca_available s + charged (ca_observed s) = CACHE_BYTES"

definition obs_ids :: "'a caches \<Rightarrow> obs_id set" where
  "obs_ids s = fst ` set (ca_observed s)"

text \<open>What a consumer or a slot of the table refers to.\<close>

definition referenced :: "'a caches \<Rightarrow> obs_id set" where
  "referenced s = set (ca_held s) \<union> {x. \<exists>e\<in>set (ca_entries s). slot_owns s x (slot_of e)}"

definition caches_ok :: "'a caches \<Rightarrow> bool" where
  "caches_ok s \<longleftrightarrow> tables_ok s \<and> locks_ok s \<and> pool_ok s \<and> referenced s \<subseteq> obs_ids s"

lemma task_entry:
  assumes "tables_ok s" and "(t, st) \<in> set (ca_tasks s)"
  obtains e where "e \<in> set (ca_entries s)" "key_of e = (tk_cache st, tk_key st)" "slot_of e = tk_slot st"
proof -
  have "\<forall>(t, st)\<in>set (ca_tasks s). \<exists>e\<in>set (ca_entries s). key_of e = (tk_cache st, tk_key st) \<and> slot_of e = tk_slot st"
    using assms(1) by (simp add: tables_ok_def)
  from bspec [OF this assms(2)] show thesis by (auto simp only: prod.case intro: that)
qed

lemma length_filter_filter: "length (filter Q (filter P xs)) \<le> length (filter Q xs)"
  by (induction xs) auto

lemma obs_owned_iff:
  assumes "tables_ok s"
  shows "obs_owned s x = (x \<in> referenced s)"
proof -
  have "\<exists>e\<in>set (ca_entries s). slot_owns s x (slot_of e)"
    if "(t, st) \<in> set (ca_tasks s)" "slot_owns s x (tk_slot st)" for t st
    using task_entry [OF assms that(1)] that(2) by metis
  then show ?thesis
    by (fastforce simp: obs_owned_def referenced_def list_ex_iff slot_of_def)
qed

lemma charged_filter: "charged (filter P obs) + charged (filter (\<lambda>o'. \<not> P o') obs) = charged obs"
  by (induction obs) (auto simp: charged_def)

lemma release_simps [simp]:
  "ca_entries (release s) = ca_entries s" "ca_slots (release s) = ca_slots s" "ca_tasks (release s) = ca_tasks s"
  "ca_held (release s) = ca_held s" "ca_next (release s) = ca_next s" "referenced (release s) = referenced s"
  "tables_ok (release s) = tables_ok s" "locks_ok (release s) = locks_ok s"
  by (simp_all add: release_def referenced_def slot_owns_def tables_ok_def locks_ok_def entries_of_def)

lemma release_ok:
  assumes "caches_ok s"
  shows "caches_ok (release s)" and "obs_ids (release s) = referenced (release s)"
proof -
  have t: "tables_ok s" using assms by (simp add: caches_ok_def)
  have ids: "obs_ids (release s) = referenced s"
    using assms by (force simp: caches_ok_def obs_ids_def release_def obs_owned_iff [OF t])
  then show "obs_ids (release s) = referenced (release s)" by simp
  have "ca_available (release s) + charged (ca_observed (release s)) = CACHE_BYTES"
    using assms charged_filter [of "\<lambda>(x, _). obs_owned s x" "ca_observed s"]
    by (simp add: release_def caches_ok_def pool_ok_def charged_def case_prod_beta')
  moreover have "distinct (map fst (ca_observed (release s)))"
    using assms by (simp add: release_def caches_ok_def pool_ok_def distinct_map_filter)
  moreover have "\<forall>x\<in>fst ` set (ca_observed (release s)). x < ca_next s"
    using assms by (fastforce simp: release_def caches_ok_def pool_ok_def)
  ultimately show "caches_ok (release s)" using assms ids by (simp add: caches_ok_def pool_ok_def)
qed

section \<open>Changes of tables and tasks\<close>

text \<open>Entries that no task uses may be removed.\<close>

lemma shrink_ok:
  assumes "caches_ok s" and idle: "\<And>e. e \<in> set (ca_entries s) \<Longrightarrow> \<not> P e \<Longrightarrow> idle s (slot_of e)"
  shows "caches_ok (s\<lparr>ca_entries := filter P (ca_entries s)\<rparr>)"
proof -
  let ?s = "s\<lparr>ca_entries := filter P (ca_entries s)\<rparr>"
  have t: "tables_ok s" using assms by (simp add: caches_ok_def)
  have "length (entries_of ?s c) \<le> length (entries_of s c)" for c
    using length_filter_filter by (simp add: entries_of_def del: filter_filter)
  then have len: "length (entries_of ?s c) \<le> ENTRIES" for c using t order_trans unfolding tables_ok_def by blast
  have "\<exists>e\<in>set (filter P (ca_entries s)). key_of e = (tk_cache st, tk_key st) \<and> slot_of e = tk_slot st"
    if "(u, st) \<in> set (ca_tasks s)" for u st
  proof -
    from task_entry [OF t that] obtain e where e: "e \<in> set (ca_entries s)" "key_of e = (tk_cache st, tk_key st)"
      "slot_of e = tk_slot st" .
    with that have "\<not> idle s (slot_of e)" by (fastforce simp: idle_def list_ex_iff)
    with e idle [of e] show ?thesis by (intro bexI [of _ e]) auto
  qed
  then have "tables_ok ?s" using t len by (auto simp: tables_ok_def distinct_map_filter)
  moreover have "referenced ?s \<subseteq> referenced s" by (auto simp: referenced_def slot_owns_def)
  ultimately show ?thesis
    using assms(1) by (auto simp: caches_ok_def locks_ok_def pool_ok_def obs_ids_def)
qed

lemma drop_task_ok:
  assumes "caches_ok s"
  shows "caches_ok (drop_task t s)"
proof -
  have "tables_ok (drop_task t s)"
    using assms by (auto simp: caches_ok_def tables_ok_def drop_task_def entries_of_def distinct_map_filter)
  moreover have "locks_ok (drop_task t s)"
    using assms by (fastforce simp: caches_ok_def locks_ok_def drop_task_def)
  moreover have "referenced (drop_task t s) = referenced s"
    by (simp add: referenced_def drop_task_def slot_owns_def)
  ultimately show ?thesis using assms by (simp add: caches_ok_def pool_ok_def drop_task_def obs_ids_def)
qed

lemma set_task_ok:
  assumes "caches_ok s" and "\<exists>e\<in>set (ca_entries s). key_of e = (tk_cache st, tk_key st) \<and> slot_of e = tk_slot st"
    and lock: "holds_lock st \<Longrightarrow> ca_slots s (tk_slot st) = None
      \<and> (\<forall>(u, x)\<in>set (ca_tasks s). u \<noteq> t \<and> holds_lock x \<longrightarrow> tk_slot x \<noteq> tk_slot st)"
  shows "caches_ok (set_task t st s)"
proof -
  have "tables_ok (set_task t st s)"
    using assms(1,2) by (auto simp: caches_ok_def tables_ok_def set_task_def entries_of_def distinct_map_filter)
  moreover have "locks_ok (set_task t st s)"
    using assms(1) lock unfolding caches_ok_def locks_ok_def set_task_def by fastforce
  moreover have "referenced (set_task t st s) = referenced s"
    by (simp add: referenced_def set_task_def slot_owns_def)
  ultimately show ?thesis using assms(1) by (simp add: caches_ok_def pool_ok_def set_task_def obs_ids_def)
qed

lemma touch_ok:
  assumes "caches_ok s"
  shows "caches_ok (s\<lparr>ca_entries := map (\<lambda>(d, j, u, v). if d = c \<and> j = k then (d, j, now, v) else (d, j, u, v)) (ca_entries s)\<rparr>)"
    (is "caches_ok (s\<lparr>ca_entries := map ?f _\<rparr>)")
proof -
  let ?s = "s\<lparr>ca_entries := map ?f (ca_entries s)\<rparr>"
  have k: "key_of \<circ> ?f = key_of" "slot_of \<circ> ?f = slot_of" by (auto simp: key_of_def slot_of_def)
  have f: "key_of (?f e) = key_of e" "slot_of (?f e) = slot_of e" "fst (?f e) = fst e" for e
    by (auto simp: key_of_def slot_of_def split: prod.splits)
  have len: "length (entries_of ?s d) = length (entries_of s d)" for d
    using f(3) by (simp add: entries_of_def filter_map comp_def case_prod_beta')
  have "tables_ok ?s"
    using assms by (simp add: caches_ok_def tables_ok_def len f k)
  moreover have "referenced ?s = referenced s" by (simp add: referenced_def slot_owns_def f)
  ultimately show ?thesis using assms by (simp add: caches_ok_def locks_ok_def pool_ok_def obs_ids_def)
qed

lemma find_entry_Some:
  "find_entry s c k = Some (u, i) \<Longrightarrow> (c, k, u, i) \<in> set (ca_entries s)"
  by (auto simp: find_entry_def dest!: map_of_SomeD)

lemma find_entry_None_iff: "find_entry s c k = None \<longleftrightarrow> (c, k) \<notin> key_of ` set (ca_entries s)"
proof -
  have "fst ` set (map (\<lambda>(d, j, v). ((d, j), v)) (ca_entries s)) = key_of ` set (ca_entries s)"
    by (force simp: key_of_def)
  then show ?thesis by (simp add: find_entry_def map_of_eq_None_iff)
qed

lemma add_slot_ok:
  assumes "caches_ok s" "find_entry s c k = None" "length (entries_of s c) < ENTRIES"
  shows "caches_ok (add_slot t c k peer now s)"
proof -
  let ?i = "ca_next s"
  let ?s = "s\<lparr>ca_entries := (c, k, now, ?i) # ca_entries s, ca_slots := (ca_slots s)(?i := None), ca_next := Suc ?i\<rparr>"
  have t: "tables_ok s" using assms(1) by (simp add: caches_ok_def)
  have old: "slot_of e \<noteq> ?i" if "e \<in> set (ca_entries s)" for e using t that by (auto simp: tables_ok_def)
  have busy: "tk_slot st \<noteq> ?i" if "(u, st) \<in> set (ca_tasks s)" for u st
    using task_entry [OF t that] old by metis
  have len: "length (entries_of ?s d) \<le> ENTRIES" for d
    using t assms(3) by (cases "d = c") (auto simp: entries_of_def tables_ok_def Suc_le_eq)
  have "(c, k) \<notin> set (map key_of (ca_entries s))" unfolding set_map
    using assms(2) by (simp add: find_entry_None_iff)
  moreover have "?i \<notin> set (map slot_of (ca_entries s))" unfolding set_map by (rule notI, erule imageE) (use old in metis)
  moreover have "key_of (c, k, now, ?i) = (c, k)" "slot_of (c, k, now, ?i) = ?i" by (simp_all add: key_of_def slot_of_def)
  ultimately have "tables_ok ?s" using t len by (auto simp: tables_ok_def less_Suc_eq)
  moreover have "locks_ok ?s" using assms(1) busy by (fastforce simp: caches_ok_def locks_ok_def)
  moreover have "referenced ?s = referenced s"
    using old by (auto simp: referenced_def slot_owns_def slot_of_def split: option.splits)
  ultimately have "caches_ok ?s" using assms(1) by (auto simp: caches_ok_def pool_ok_def obs_ids_def)
  then show ?thesis
    unfolding add_slot_def Let_def by (intro set_task_ok) (auto simp: key_of_def slot_of_def holds_lock_def)
qed

lemma remove_entry_eq: "remove_entry c k s = s\<lparr>ca_entries := filter (\<lambda>e. key_of e \<noteq> (c, k)) (ca_entries s)\<rparr>"
  by (simp add: remove_entry_def key_of_def case_prod_beta')

lemma remove_entry_ok:
  assumes "caches_ok s" and v: "(c, k, u, i) \<in> set (ca_entries s)" "idle s i"
  shows "caches_ok (remove_entry c k s)" and "length (entries_of (remove_entry c k s) c) < ENTRIES"
proof -
  have t: "tables_ok s" using assms(1) by (simp add: caches_ok_def)
  have only: "e = (c, k, u, i)" if "e \<in> set (ca_entries s)" "key_of e = (c, k)" for e
  proof -
    have "inj_on key_of (set (ca_entries s))" using t by (simp add: tables_ok_def distinct_map)
    moreover have "key_of e = key_of (c, k, u, i)" using that(2) by (simp add: key_of_def)
    ultimately show ?thesis using that(1) v(1) by (rule inj_onD)
  qed
  show "caches_ok (remove_entry c k s)"
    unfolding remove_entry_eq using only v(2) by (intro shrink_ok [OF assms(1)]) (auto simp: slot_of_def)
  have "(k, u, i) \<in> set (entries_of s c)" using v(1) by (force simp: entries_of_def)
  moreover have "entries_of (remove_entry c k s) c = filter (\<lambda>(j, _). j \<noteq> k) (entries_of s c)"
    by (simp add: entries_of_def remove_entry_def filter_map comp_def case_prod_beta' conj_commute) (meson)
  ultimately have "length (entries_of (remove_entry c k s) c) < length (entries_of s c)"
    by (auto intro!: length_filter_less)
  then show "length (entries_of (remove_entry c k s) c) < ENTRIES" using t less_le_trans by (fastforce simp: tables_ok_def)
qed

section \<open>Results\<close>

text \<open>Nothing is kept that nobody owns.\<close>

definition cache_inv :: "'a caches \<Rightarrow> bool" where
  "cache_inv s \<longleftrightarrow> caches_ok s \<and> obs_ids s = referenced s"

lemma release_inv: "caches_ok s \<Longrightarrow> cache_inv (release s)"
  using release_ok [of s] by (simp add: cache_inv_def)

lemma lock_facts:
  assumes "caches_ok s" "(t, st) \<in> set (ca_tasks s)" "holds_lock st"
  shows "ca_slots s (tk_slot st) = None"
    and "(u, x) \<in> set (ca_tasks s) \<Longrightarrow> holds_lock x \<Longrightarrow> tk_slot x = tk_slot st \<Longrightarrow> u = t"
proof -
  have "\<forall>(t, st)\<in>set (ca_tasks s). holds_lock st \<longrightarrow> ca_slots s (tk_slot st) = None
     \<and> (\<forall>(t', st')\<in>set (ca_tasks s). holds_lock st' \<and> tk_slot st' = tk_slot st \<longrightarrow> t' = t)"
    using assms(1) by (simp add: caches_ok_def locks_ok_def)
  from bspec [OF this assms(2)] assms(3) show "ca_slots s (tk_slot st) = None"
    and "(u, x) \<in> set (ca_tasks s) \<Longrightarrow> holds_lock x \<Longrightarrow> tk_slot x = tk_slot st \<Longrightarrow> u = t" by auto
qed

lemma finish_inv:
  assumes "caches_ok s" "(t, st) \<in> set (ca_tasks s)" "holds_lock st"
    and r: "\<And>x. r = Inr x \<Longrightarrow> x \<in> obs_ids s" and kept: "obs_ids s \<subseteq> referenced s \<union> {x. r = Inr x}"
  shows "cache_inv (finish t st now r s)"
proof -
  let ?s = "finish t st now r s"
  have sel: "ca_entries ?s = ca_entries s" "ca_observed ?s = ca_observed s" "ca_available ?s = ca_available s"
    "ca_next ?s = ca_next s" "ca_tasks ?s = filter (\<lambda>(u, _). u \<noteq> t) (ca_tasks s)"
    "set (ca_held ?s) = set (ca_held s) \<union> {x. r = Inr x}"
    by (auto simp: finish_def drop_task_def split: sum.splits)
  have slots: "ca_slots ?s i = (if i = tk_slot st
      then Some \<lparr>en_expires = now + ttl_seconds (tk_peer st) r * 10 ^ 9, en_result = r\<rparr> else ca_slots s i)" for i
    by (simp add: finish_def drop_task_def)
  note lock = lock_facts [OF assms(1-3)]
  have t: "tables_ok ?s"
    using assms(1) sel by (auto simp: caches_ok_def tables_ok_def entries_of_def distinct_map_filter)
  have l: "locks_ok ?s"
    unfolding locks_ok_def sel slots using assms(1) lock(2) by (fastforce simp: caches_ok_def locks_ok_def)
  have own: "slot_owns ?s x i = (if i = tk_slot st then r = Inr x else slot_owns s x i)" for x i
    using slots [of i] by (simp add: slot_owns_def)
  have "slot_owns s x i \<Longrightarrow> slot_owns ?s x i" for x i
    using lock(1) own [of x i] by (cases "i = tk_slot st") (auto simp: slot_owns_def)
  then have "referenced s \<union> {x. r = Inr x} \<subseteq> referenced ?s" by (auto simp: referenced_def sel)
  moreover have "referenced ?s \<subseteq> referenced s \<union> {x. r = Inr x}"
    using own by (auto simp: referenced_def sel split: if_splits)
  moreover have "obs_ids ?s = obs_ids s" by (simp add: obs_ids_def sel)
  moreover have "referenced s \<subseteq> obs_ids s" using assms(1) by (simp add: caches_ok_def)
  ultimately have "obs_ids ?s = referenced ?s" using r kept by blast
  moreover have "pool_ok ?s" using assms(1) by (simp add: caches_ok_def pool_ok_def sel)
  ultimately show ?thesis using t l by (simp add: cache_inv_def caches_ok_def)
qed

lemma finish_error_inv:
  assumes "cache_inv s" "(t, st) \<in> set (ca_tasks s)" "holds_lock st"
  shows "cache_inv (finish t st now (Inl e) s)"
  by (rule finish_inv) (use assms in \<open>auto simp: cache_inv_def\<close>)

lemma reserve_inv:
  assumes "cache_inv s" "(t, st) \<in> set (ca_tasks s)" "holds_lock st" "n \<le> ca_available s"
  shows "cache_inv (reserve t st now clock x n s)"
proof (cases clock)
  case (Inl m)
  then show ?thesis using finish_error_inv [OF assms(1-3)] by (simp add: reserve_def)
next
  case (Inr ms)
  let ?i = "ca_next s"
  let ?o = "\<lparr>ob_data = x, ob_observed_at = format_iso8601_ms ms, ob_charge = n\<rparr>"
  let ?s = "s\<lparr>ca_observed := (?i, ?o) # ca_observed s, ca_available := ca_available s - n, ca_next := Suc ?i\<rparr>"
  have ok: "caches_ok s" and ids: "obs_ids s = referenced s" using assms(1) by (simp_all add: cache_inv_def)
  have ref: "referenced ?s = referenced s" by (simp add: referenced_def slot_owns_def)
  have new: "?i \<notin> fst ` set (ca_observed s)" using ok by (auto simp: caches_ok_def pool_ok_def)
  have "pool_ok ?s" using ok new assms(4) by (auto simp: caches_ok_def pool_ok_def charged_def)
  moreover have "tables_ok ?s" using ok by (auto simp: caches_ok_def tables_ok_def entries_of_def less_Suc_eq)
  moreover have "locks_ok ?s" using ok by (simp add: caches_ok_def locks_ok_def)
  moreover have o: "obs_ids ?s = insert ?i (obs_ids s)" by (simp add: obs_ids_def)
  ultimately have "caches_ok ?s" using ids ref by (auto simp: caches_ok_def)
  then have "cache_inv (finish t st now (Inr ?i) ?s)"
    by (rule finish_inv) (use assms(2,3) ids ref o in auto)
  then show ?thesis using Inr by (simp add: reserve_def Let_def)
qed

section \<open>Steps\<close>

text \<open>Steps that change neither observations nor references keep the invariant with the tables.\<close>

lemma same_refs_inv:
  "cache_inv s \<Longrightarrow> caches_ok s' \<Longrightarrow> obs_ids s' = obs_ids s \<Longrightarrow> referenced s' = referenced s \<Longrightarrow> cache_inv s'"
  by (simp add: cache_inv_def)

lemma set_task_refs [simp]: "obs_ids (set_task t st s) = obs_ids s" "referenced (set_task t st s) = referenced s"
  by (simp_all add: obs_ids_def set_task_def referenced_def slot_owns_def)

lemma drop_task_refs [simp]: "obs_ids (drop_task t s) = obs_ids s" "referenced (drop_task t s) = referenced s"
  by (simp_all add: obs_ids_def drop_task_def referenced_def slot_owns_def)

lemma add_slot_refs:
  assumes "tables_ok s"
  shows "obs_ids (add_slot t c k peer now s) = obs_ids s" "referenced (add_slot t c k peer now s) = referenced s"
proof -
  have "slot_of e \<noteq> ca_next s" if "e \<in> set (ca_entries s)" for e using assms that by (auto simp: tables_ok_def)
  then show "obs_ids (add_slot t c k peer now s) = obs_ids s" "referenced (add_slot t c k peer now s) = referenced s"
    unfolding add_slot_def Let_def set_task_refs
    by (auto simp: obs_ids_def referenced_def slot_owns_def slot_of_def split: option.splits)
qed

lemma enter_hit_inv:
  assumes "cache_inv s" "find_entry s c k = Some (u, i)"
  shows "cache_inv (set_task t \<lparr>tk_cache = c, tk_key = k, tk_slot = i, tk_peer = peer, tk_phase = Waiting\<rparr>
    (s\<lparr>ca_entries := map (\<lambda>(d, j, u, v). if d = c \<and> j = k then (d, j, now, v) else (d, j, u, v)) (ca_entries s)\<rparr>))"
    (is "cache_inv (set_task t ?st (s\<lparr>ca_entries := map ?f _\<rparr>))")
proof -
  let ?s = "s\<lparr>ca_entries := map ?f (ca_entries s)\<rparr>"
  have f: "slot_of (?f e) = slot_of e" for e by (auto simp: slot_of_def split: prod.splits)
  have ok: "caches_ok ?s" using assms(1) touch_ok [of s c k now] by (simp add: cache_inv_def)
  have "?f (c, k, u, i) \<in> set (map ?f (ca_entries s))"
    unfolding set_map by (intro imageI find_entry_Some) (rule assms(2))
  then have "\<exists>e\<in>set (ca_entries ?s). key_of e = (c, k) \<and> slot_of e = i"
    unfolding caches.simps by (intro bexI) (auto simp: key_of_def slot_of_def)
  then have "caches_ok (set_task t ?st ?s)"
    by (intro set_task_ok [OF ok]) (simp_all only: task_state.simps holds_lock_def phase.case)
  then show ?thesis
    by (rule same_refs_inv [OF assms(1)]; unfold set_task_refs) (simp_all add: obs_ids_def referenced_def slot_owns_def f)
qed

lemma enter_new_inv:
  assumes "cache_inv s" "find_entry s c k = None" "length (entries_of s c) < ENTRIES"
  shows "cache_inv (add_slot t c k peer now s)"
  using assms add_slot_ok add_slot_refs same_refs_inv by (metis cache_inv_def caches_ok_def)

lemma enter_inv:
  assumes "cache_inv s" "enter t c k peer now victim s = Some (Inr s')"
  shows "cache_inv s'"
proof (cases "find_entry s c k")
  case (Some v)
  then show ?thesis using assms enter_hit_inv [OF assms(1), of c k] by (cases v) (auto simp: enter_def split: if_splits)
next
  case None
  show ?thesis
  proof (cases "length (entries_of s c) < ENTRIES")
    case True
    then show ?thesis using assms None enter_new_inv [OF assms(1) None] by (auto simp: enter_def split: if_splits)
  next
    case False
    with assms None have "\<exists>u i. (victim, u, i) \<in> set (entries_of s c) \<and> idle s i"
      and s': "s' = add_slot t c k peer now (release (remove_entry c victim s))"
      by (auto simp: enter_def Let_def list_ex_iff split: if_splits)
    then obtain u i where "(c, victim, u, i) \<in> set (ca_entries s)" "idle s i" by (auto simp: entries_of_def)
    note r = remove_entry_ok [OF _ this]
    have "find_entry (release (remove_entry c victim s)) c k = None"
      using None unfolding find_entry_None_iff remove_entry_eq by auto
    moreover have "length (entries_of (release (remove_entry c victim s)) c) < ENTRIES"
      using r(2) assms(1) by (simp add: entries_of_def cache_inv_def)
    moreover have "cache_inv (release (remove_entry c victim s))"
      using r(1) assms(1) by (intro release_inv) (simp add: cache_inv_def)
    ultimately show ?thesis unfolding s' by (intro enter_new_inv)
  qed
qed

lemma lock_inv:
  assumes "cache_inv s" "map_of (ca_tasks s) t = Some st" "tk_phase st = Waiting" "\<not> slot_locked s (tk_slot st)"
  shows "cache_inv (release (set_task t (st\<lparr>tk_phase := Fetching\<rparr>) (s\<lparr>ca_slots := (ca_slots s)(tk_slot st := None)\<rparr>)))"
    and "ca_slots s (tk_slot st) = None \<Longrightarrow> cache_inv (set_task t (st\<lparr>tk_phase := Fetching\<rparr>) s)"
    and "ca_slots s (tk_slot st) = Some e \<Longrightarrow>
      cache_inv (drop_task t (s\<lparr>ca_held := (case en_result e of Inr x \<Rightarrow> x # ca_held s | Inl _ \<Rightarrow> ca_held s)\<rparr>))"
proof -
  let ?s = "s\<lparr>ca_slots := (ca_slots s)(tk_slot st := None)\<rparr>"
  have ok: "caches_ok s" and tab: "tables_ok s" and ids: "obs_ids s = referenced s"
    using assms(1) by (simp_all add: cache_inv_def caches_ok_def)
  have task: "(t, st) \<in> set (ca_tasks s)" using assms(2) by (rule map_of_SomeD)
  obtain e0 where e0: "e0 \<in> set (ca_entries s)" "key_of e0 = (tk_cache st, tk_key st)" "slot_of e0 = tk_slot st"
    using task_entry [OF tab task] .
  have free: "\<forall>(u, x)\<in>set (ca_tasks s). u \<noteq> t \<and> holds_lock x \<longrightarrow> tk_slot x \<noteq> tk_slot st"
    using assms(4) by (auto simp: slot_locked_def list_ex_iff)
  have "referenced ?s \<subseteq> referenced s" by (auto simp: referenced_def slot_owns_def split: if_splits)
  moreover have "locks_ok ?s" using ok unfolding caches_ok_def locks_ok_def by fastforce
  ultimately have "caches_ok ?s" using ok by (auto simp: caches_ok_def tables_ok_def pool_ok_def obs_ids_def entries_of_def)
  then show "cache_inv (release (set_task t (st\<lparr>tk_phase := Fetching\<rparr>) ?s))"
    by (intro release_inv set_task_ok) (use e0 free in auto)
  show "cache_inv (set_task t (st\<lparr>tk_phase := Fetching\<rparr>) s)" if "ca_slots s (tk_slot st) = None"
    by (rule same_refs_inv [OF assms(1)], rule set_task_ok [OF ok]) (use e0 free that in auto)
  assume e: "ca_slots s (tk_slot st) = Some e"
  let ?h = "s\<lparr>ca_held := (case en_result e of Inr x \<Rightarrow> x # ca_held s | Inl _ \<Rightarrow> ca_held s)\<rparr>"
  have "x \<in> referenced s" if "en_result e = Inr x" for x
    using e e0 that by (force simp: referenced_def slot_owns_def)
  then have "referenced ?h = referenced s" by (auto simp: referenced_def slot_owns_def split: sum.splits)
  moreover from this have "caches_ok ?h"
    using ok by (simp add: caches_ok_def tables_ok_def locks_ok_def pool_ok_def obs_ids_def entries_of_def)
  ultimately show "cache_inv (drop_task t ?h)"
    by (intro same_refs_inv [OF assms(1)] drop_task_ok) (simp_all add: obs_ids_def drop_task_def referenced_def slot_owns_def)
qed

lemma evict_idle_inv:
  assumes "cache_inv s"
  shows "cache_inv (evict_idle c s)" and "ca_tasks (evict_idle c s) = ca_tasks s"
proof -
  have "(\<lambda>(d, _, _, i). d = c \<longrightarrow> \<not> idle s i) = (\<lambda>e. fst e = c \<longrightarrow> \<not> idle s (slot_of e))"
    by (auto simp: slot_of_def)
  then show "cache_inv (evict_idle c s)"
    unfolding evict_idle_def using assms by (intro release_inv) (auto simp: cache_inv_def intro!: shrink_ok)
  show "ca_tasks (evict_idle c s) = ca_tasks s" by (simp add: evict_idle_def)
qed

lemma prune_inv:
  assumes "cache_inv s"
  shows "cache_inv (prune_expired c now s)"
  unfolding prune_expired_def using assms
  by (intro release_inv shrink_ok) (auto simp: cache_inv_def slot_of_def split: option.splits)

lemma drop_handle_inv:
  assumes "cache_inv s"
  shows "cache_inv (release (s\<lparr>ca_held := remove1 x (ca_held s)\<rparr>))"
proof (intro release_inv)
  have "referenced (s\<lparr>ca_held := remove1 x (ca_held s)\<rparr>) \<subseteq> referenced s"
    using set_remove1_subset [of x "ca_held s"] by (auto simp: referenced_def slot_owns_def)
  then show "caches_ok (s\<lparr>ca_held := remove1 x (ca_held s)\<rparr>)"
    using assms by (auto simp: cache_inv_def caches_ok_def tables_ok_def locks_ok_def pool_ok_def obs_ids_def entries_of_def)
qed

lemma fetching_lock: "tk_phase st = Fetching \<Longrightarrow> holds_lock st" "tk_phase st = Crowded x n \<Longrightarrow> holds_lock st"
  by (simp_all add: holds_lock_def)

lemma crowd_inv:
  assumes "cache_inv s" "(t, st) \<in> set (ca_tasks s)" "holds_lock st"
  shows "cache_inv (set_task t (st\<lparr>tk_phase := Crowded x n\<rparr>) s)"
proof -
  have ok: "caches_ok s" using assms(1) by (simp add: cache_inv_def)
  obtain e where "e \<in> set (ca_entries s)" "key_of e = (tk_cache st, tk_key st)" "slot_of e = tk_slot st"
    using task_entry assms(2) ok unfolding caches_ok_def by metis
  then show ?thesis
    by (intro same_refs_inv [OF assms(1)] set_task_ok [OF ok]) (use lock_facts [OF ok assms(2,3)] in auto)
qed

lemma cache_step_inv:
  assumes "cache_inv s" "cache_step lib e s = Some s'"
  shows "cache_inv s'"
proof (cases e)
  case (Enter t c k peer now victim)
  then show ?thesis using assms enter_inv [OF assms(1)] by (auto split: option.splits sum.splits)
next
  case (Lock t now)
  then obtain st where st: "map_of (ca_tasks s) t = Some st" "tk_phase st = Waiting" "\<not> slot_locked s (tk_slot st)"
    using assms(2) by (auto split: option.splits phase.splits if_splits)
  show ?thesis
    using assms(2) Lock st lock_inv [OF assms(1) st] by (auto split: option.splits if_splits)
next
  case (Fetched t r now clock)
  then obtain st where st: "map_of (ca_tasks s) t = Some st" "tk_phase st = Fetching"
    using assms(2) by (auto split: option.splits phase.splits)
  note h = assms(1) map_of_SomeD [OF st(1)] fetching_lock(1) [OF st(2)]
  show ?thesis
    using assms(2) Fetched st finish_error_inv [OF h] reserve_inv [OF h] crowd_inv [OF h]
    by (auto split: sum.splits if_splits)
next
  case (Retry t now clock)
  then obtain st x n where st: "map_of (ca_tasks s) t = Some st" "tk_phase st = Crowded x n"
    using assms(2) by (auto split: option.splits phase.splits)
  let ?s = "evict_idle (tk_cache st) s"
  have h: "cache_inv ?s" "(t, st) \<in> set (ca_tasks ?s)" "holds_lock st"
    using evict_idle_inv [OF assms(1)] map_of_SomeD [OF st(1)] fetching_lock(2) [OF st(2)] by auto
  show ?thesis
    using assms(2) Retry st finish_error_inv [OF h] reserve_inv [OF h] by (auto simp: Let_def split: if_splits)
next
  case (Cancel t)
  then show ?thesis
    using assms drop_task_ok [of s t] by (auto simp: cache_inv_def split: if_splits dest: release_ok)
next
  case (Prune c now)
  then show ?thesis using assms prune_inv by auto
next
  case (DropHandle x)
  then show ?thesis using assms drop_handle_inv by (auto split: if_splits)
qed

lemma new_caches_inv: "cache_inv new_caches"
  by (simp add: cache_inv_def caches_ok_def tables_ok_def locks_ok_def pool_ok_def obs_ids_def referenced_def new_caches_def
      entries_of_def charged_def)

lemma cache_run_inv: "cache_inv s \<Longrightarrow> cache_run lib es s = Some s' \<Longrightarrow> cache_inv s'"
  by (induction es arbitrary: s) (auto split: option.splits intro: cache_step_inv)

lemma same_key_same_slot:
  assumes "tables_ok s" "(t, st) \<in> set (ca_tasks s)" "(u, st') \<in> set (ca_tasks s)" "tk_cache st = tk_cache st'" "tk_key st = tk_key st'"
  shows "tk_slot st = tk_slot st'"
proof -
  obtain e where e: "e \<in> set (ca_entries s)" "key_of e = (tk_cache st, tk_key st)" "slot_of e = tk_slot st"
    using task_entry [OF assms(1,2)] .
  obtain f where f: "f \<in> set (ca_entries s)" "key_of f = (tk_cache st', tk_key st')" "slot_of f = tk_slot st'"
    using task_entry [OF assms(1,3)] .
  have "inj_on key_of (set (ca_entries s))" using assms(1) by (simp add: tables_ok_def distinct_map)
  then have "e = f" by (rule inj_onD) (use e f assms(4,5) in auto)
  then show ?thesis using e f by simp
qed

text \<open>Two tasks of one cache and key share their slot, and only one of them fetches.\<close>

definition single_flight :: "'a caches \<Rightarrow> bool" where
  "single_flight s \<longleftrightarrow> list_all (\<lambda>(t, st). list_all (\<lambda>(u, st'). tk_cache st = tk_cache st' \<and> tk_key st = tk_key st' \<longrightarrow>
     tk_slot st = tk_slot st' \<and> (holds_lock st \<and> holds_lock st' \<longrightarrow> t = u)) (ca_tasks s)) (ca_tasks s)"

lemma single_flight_inv:
  assumes "cache_inv s"
  shows "single_flight s"
proof -
  have ok: "caches_ok s" and t: "tables_ok s" using assms by (simp_all add: cache_inv_def caches_ok_def)
  have "tk_slot st = tk_slot st' \<and> (holds_lock st \<and> holds_lock st' \<longrightarrow> v = u)"
    if "(v, st) \<in> set (ca_tasks s)" "(u, st') \<in> set (ca_tasks s)" "tk_cache st = tk_cache st'" "tk_key st = tk_key st'"
    for v u st st'
    using same_key_same_slot [OF t that] lock_facts(2) [OF ok that(1) _ that(2)] by auto
  then show ?thesis unfolding single_flight_def list_all_iff by blast
qed

text \<open>
  C17. However requests, fetches, cancellations, evictions and consumers interleave: a cache has at most 32
  entries; the permits in use are exactly the charges of the observations some slot or consumer still owns, so
  that no more than 6 MiB are ever charged and nothing is charged that nobody owns; and for each key of a cache
  at most one fetch runs.
\<close>

theorem caches_bounded_single_flight:
  assumes "cache_run lib events new_caches = Some s"
  shows "length (entries_of s c) \<le> ENTRIES \<and> ca_available s + charged (ca_observed s) = CACHE_BYTES
    \<and> obs_ids s = {x. obs_owned s x} \<and> single_flight s"
proof -
  have inv: "cache_inv s" using cache_run_inv [OF new_caches_inv assms] .
  then have ok: "tables_ok s" "pool_ok s" "obs_ids s = referenced s" by (simp_all add: cache_inv_def caches_ok_def)
  have "length (entries_of s c) \<le> ENTRIES" using ok(1) by (simp add: tables_ok_def)
  moreover have "ca_available s + charged (ca_observed s) = CACHE_BYTES" using ok(2) by (simp add: pool_ok_def)
  moreover have "obs_ids s = {x. obs_owned s x}" using ok(3) obs_owned_iff [OF ok(1)] by auto
  ultimately show ?thesis using single_flight_inv [OF inv] by blast
qed

text \<open>Two requests for one key: the second waits for the fetch of the first and shares its observation.\<close>

definition demo_cache_lib :: "unit cache_lib" where
  "demo_cache_lib = \<lparr>cl_value_size = 32, cl_observed_size = 104, cl_to_value = (\<lambda>_. Inr SNull)\<rparr>"

definition demo_events :: "unit cache_event list" where
  "demo_events = [Enter 1 0 ''a'' False 0 [], Enter 2 0 ''a'' False 1 [], Lock 1 2, Fetched 1 (Inr ()) 3 (Inr 0), Lock 2 4]"

text \<open>C17 for two requests that share one fetch.\<close>

theorem caches_bounded_single_flight_witness:
  "\<exists>s. cache_run demo_cache_lib demo_events new_caches = Some s \<and> ca_held s = [1, 1] \<and> ca_available s = CACHE_BYTES - 200
     \<and> length (entries_of s 0) \<le> ENTRIES \<and> ca_available s + charged (ca_observed s) = CACHE_BYTES \<and> single_flight s"
proof -
  have sz: "charge demo_cache_lib () = Inr 200"
    by (simp add: charge_def demo_cache_lib_def saturating_add_def CACHE_BYTES_def Let_def)
  obtain s where run: "cache_run demo_cache_lib demo_events new_caches = Some s" and "ca_held s = [1, 1]"
    and "ca_available s = CACHE_BYTES - 200"
    by (simp add: demo_events_def new_caches_def enter_def find_entry_def entries_of_def ENTRIES_def add_slot_def set_task_def
        slot_locked_def holds_lock_def sz CACHE_BYTES_def reserve_def finish_def drop_task_def ttl_seconds_def Let_def)
  with caches_bounded_single_flight [OF run, of 0] show ?thesis by blast
qed

text \<open>A cached error message is at most 512 bytes of the message, cut between characters.\<close>

lemma floor_char_boundary_props:
  "is_char_boundary m (floor_char_boundary m i) \<and> floor_char_boundary m i \<le> i"
  if "i \<le> length m"
  using that
proof (induction i)
  case 0
  then show ?case by (simp add: floor_char_boundary.simps [of m 0] is_char_boundary_def)
next
  case (Suc i)
  then show ?case by (auto simp: floor_char_boundary.simps [of m "Suc i"] is_char_boundary_def)
qed

lemma bound_message_props:
  "length (bound_message m) \<le> 512 \<and> (\<exists>i. is_char_boundary m i \<and> bound_message m = take i m)"
proof (cases "512 < length m")
  case True
  then show ?thesis using floor_char_boundary_props [of 512 m] by (auto simp: bound_message_def)
next
  case False
  then show ?thesis by (auto simp: bound_message_def is_char_boundary_def intro: exI [of _ "length m"])
qed

end
