(* ===== verification/Miner_Stream.thy ===== *)
theory Miner_Stream
  imports Miner_Parse
begin

text \<open>
  The streaming decoder of attempts bodies (\<open>quip-dashboard/src/miner/stream.rs\<close>) and its agreement with the
  parser of whole values. A body is the tree of its text: fields and rows in the order and number of the text,
  each with the bytes the reader took while it was parsed, and \<open>DBad\<close> where the text stops being JSON.
\<close>

section \<open>Documents\<close>

datatype doc = DNull | DBool bool | DNumber string | DString string | DArray "(nat \<times> doc) list" nat
  | DObject "(string \<times> nat \<times> doc) list" | DBad string

definition VALUE_BYTES :: nat where
  "VALUE_BYTES = 4 * 1024 * 1024"

text \<open>What \<open>serde\<close> says of a value of the wrong type.\<close>

type_synonym type_message = "doc \<Rightarrow> string"

datatype stream_error = Oversized | Syntax string

text \<open>Materializing a value: later fields of an object replace earlier ones.\<close>

fun value_of :: "doc \<Rightarrow> stream_error + json" and values_of :: "(nat \<times> doc) list \<Rightarrow> stream_error + json list"
  and fields_of :: "(string \<times> nat \<times> doc) list \<Rightarrow> json_map \<Rightarrow> stream_error + json_map" where
  "value_of DNull = Inr JNull"
| "value_of (DBool b) = Inr (JBool b)"
| "value_of (DNumber n) = Inr (JNumber n)"
| "value_of (DString s) = Inr (JString s)"
| "value_of (DArray ds n) = rbind (values_of ds) (\<lambda>vs. Inr (JArray vs))"
| "value_of (DObject fs) = rbind (fields_of fs []) (\<lambda>m. Inr (JObject m))"
| "value_of (DBad m) = Inl (Syntax m)"
| "values_of [] = Inr []"
| "values_of ((n, d) # ds) = rbind (value_of d) (\<lambda>v. rbind (values_of ds) (\<lambda>vs. Inr (v # vs)))"
| "fields_of [] m = Inr m"
| "fields_of ((k, n, d) # fs) m = rbind (value_of d) (\<lambda>v. fields_of fs (insert_key k v m))"

section \<open>The decoder\<close>

text \<open>A value read under the cap.\<close>

definition guarded_value :: "nat \<Rightarrow> doc \<Rightarrow> stream_error + json" where
  "guarded_value n d = (if VALUE_BYTES < n then Inl Oversized else value_of d)"

datatype level = Level (lv_success: "bool option") (lv_error: "json option") (lv_data: "level option") (lv_submission: "json option")

definition default_level :: level where
  "default_level = Level None None None None"

fun visit_rows :: "json_lib \<Rightarrow> (nat \<times> doc) list \<Rightarrow> nat \<Rightarrow> attempt_trail \<Rightarrow> stream_error + attempt_trail" where
  "visit_rows lib [] n t = (if VALUE_BYTES < n then Inl Oversized else Inr t)"
| "visit_rows lib ((k, d) # ds) n t = rbind (guarded_value k d) (\<lambda>row. visit_rows lib ds n (push_attempt lib row t))"

definition visit_attempts :: "json_lib \<Rightarrow> doc \<Rightarrow> attempt_trail \<Rightarrow> stream_error + attempt_trail" where
  "visit_attempts lib d t = (case d of DArray ds n \<Rightarrow> visit_rows lib ds n t
     | _ \<Rightarrow> rbind (value_of d) (\<lambda>_. Inr t))"

fun visit_level :: "json_lib \<Rightarrow> type_message \<Rightarrow> doc \<Rightarrow> attempt_trail \<Rightarrow> stream_error + level \<times> attempt_trail"
  and visit_fields :: "json_lib \<Rightarrow> type_message \<Rightarrow> (string \<times> nat \<times> doc) list \<Rightarrow> level \<Rightarrow> attempt_trail
    \<Rightarrow> stream_error + level \<times> attempt_trail" where
  "visit_level lib tm DNull t = Inr (default_level, t)"
| "visit_level lib tm (DObject fs) t = visit_fields lib tm fs default_level t"
| "visit_level lib tm (DBad m) t = Inl (Syntax m)"
| "visit_level lib tm (DBool b) t = Inl (Syntax (tm (DBool b)))"
| "visit_level lib tm (DNumber n) t = Inl (Syntax (tm (DNumber n)))"
| "visit_level lib tm (DString s) t = Inl (Syntax (tm (DString s)))"
| "visit_level lib tm (DArray ds n) t = Inl (Syntax (tm (DArray ds n)))"
| "visit_fields lib tm [] (Level su er da sb) t = Inr (Level su er da sb, t)"
| "visit_fields lib tm ((k, n, d) # fs) (Level su er da sb) t =
     (if k = ''success'' then rbind (guarded_value n d) (\<lambda>v. visit_fields lib tm fs (Level (as_bool v) er da sb) t)
      else if k = ''error'' then rbind (guarded_value n d) (\<lambda>v. visit_fields lib tm fs (Level su (Some v) da sb) t)
      else if k = ''submission'' then rbind (guarded_value n d) (\<lambda>v. visit_fields lib tm fs (Level su er da (Some v)) t)
      else if k = ''data'' then rbind (visit_level lib tm d t) (\<lambda>(l, t). visit_fields lib tm fs (Level su er (Some l) sb) t)
      else if k = ''attempts'' then rbind (visit_attempts lib d t) (\<lambda>t. visit_fields lib tm fs (Level su er da sb) t)
      else rbind (value_of d) (\<lambda>_. visit_fields lib tm fs (Level su er da sb) t))"

record attempts_body =
  ab_submission :: "json option"
  ab_trail :: attempt_trail

text \<open>\<open>trailing\<close> is what follows the document, if it is not white space.\<close>

definition decode_attempts :: "json_lib \<Rightarrow> type_message \<Rightarrow> doc \<Rightarrow> string option \<Rightarrow> miner_error + attempts_body" where
  "decode_attempts lib tm d trailing =
     (case rbind (visit_level lib tm d attempt_trail_default)
        (\<lambda>r. case trailing of None \<Rightarrow> Inr r | Some m \<Rightarrow> Inl (Syntax m)) of
      Inl Oversized \<Rightarrow> Inl (BodyTooLarge (of_nat VALUE_BYTES))
    | Inl (Syntax m) \<Rightarrow> Inl (Unparsable m)
    | Inr (outer, trail) \<Rightarrow>
        if lv_success outer = Some False then Inl (envelope_failure lib (lv_error outer))
        else Inr \<lparr>ab_submission = (case lv_data outer of None \<Rightarrow> lv_submission outer | Some l \<Rightarrow> lv_submission l), ab_trail = trail\<rparr>)"

definition streamed_response :: "json_lib \<Rightarrow> type_message \<Rightarrow> doc \<Rightarrow> miner_error + mining_attempts_response" where
  "streamed_response lib tm d = rbind (decode_attempts lib tm d None)
     (\<lambda>b. mining_attempts_from_parts lib (ab_submission b) (ab_trail b))"

section \<open>Agreement with the parser of whole values\<close>

definition whole_response :: "json_lib \<Rightarrow> doc \<Rightarrow> miner_error + mining_attempts_response" where
  "whole_response lib d = (case value_of d of Inl Oversized \<Rightarrow> Inl (BodyTooLarge (of_nat VALUE_BYTES))
     | Inl (Syntax m) \<Rightarrow> Inl (Unparsable m)
     | Inr v \<Rightarrow> rbind (unwrap_envelope lib v) (parse_mining_attempts_api_response lib))"

text \<open>Fields and rows within the cap; names once.\<close>

definition small_fields :: "(string \<times> nat \<times> doc) list \<Rightarrow> bool" where
  "small_fields fs \<longleftrightarrow> distinct (map fst fs) \<and> list_all (\<lambda>(_, n, d). n \<le> VALUE_BYTES \<and>
     (case d of DArray ds m \<Rightarrow> m \<le> VALUE_BYTES \<and> list_all (\<lambda>(k, _). k \<le> VALUE_BYTES) ds | _ \<Rightarrow> True)) fs"

text \<open>An envelope around an object with the attempts, or the object itself.\<close>

definition data_object :: "doc \<Rightarrow> bool" where
  "data_object d = (case d of DObject gs \<Rightarrow> small_fields gs \<and> map_of gs ''data'' = None | _ \<Rightarrow> False)"

definition regular_body :: "doc \<Rightarrow> bool" where
  "regular_body d = (case d of DObject fs \<Rightarrow> small_fields fs \<and>
       (case map_of fs ''data'' of None \<Rightarrow> True | Some (_, g) \<Rightarrow> data_object g \<and> map_of fs ''attempts'' = None)
     | _ \<Rightarrow> False)"

text \<open>The level and the trail that the fields read so far stand for.\<close>

definition rows_trail :: "json_lib \<Rightarrow> attempt_trail \<Rightarrow> json_map \<Rightarrow> attempt_trail" where
  "rows_trail lib t m = (case map_of m ''attempts'' of Some (JArray items) \<Rightarrow> fold (push_attempt lib) items t | _ \<Rightarrow> t)"

definition inner_level :: "json_map \<Rightarrow> level" where
  "inner_level m = Level (Option.bind (map_of m ''success'') as_bool) (map_of m ''error'') None (map_of m ''submission'')"

definition outer_level :: "json_map \<Rightarrow> level" where
  "outer_level m = Level (Option.bind (map_of m ''success'') as_bool) (map_of m ''error'')
     (case map_of m ''data'' of Some (JObject g) \<Rightarrow> Some (inner_level g) | _ \<Rightarrow> None) (map_of m ''submission'')"

definition outer_trail :: "json_lib \<Rightarrow> attempt_trail \<Rightarrow> json_map \<Rightarrow> attempt_trail" where
  "outer_trail lib t m = (case map_of m ''data'' of Some (JObject g) \<Rightarrow> rows_trail lib t g | _ \<Rightarrow> rows_trail lib t m)"

lemma visit_rows_small:
  "list_all (\<lambda>(k, _). k \<le> VALUE_BYTES) ds \<Longrightarrow> n \<le> VALUE_BYTES \<Longrightarrow>
    visit_rows lib ds n t = rbind (values_of ds) (\<lambda>vs. Inr (fold (push_attempt lib) vs t))"
proof (induction ds arbitrary: t)
  case (Cons kd ds)
  obtain k d where "kd = (k, d)" by (cases kd)
  with Cons show ?case by (cases "value_of d"; cases "values_of ds") (auto simp: guarded_value_def)
qed simp

lemma visit_attempts_small:
  assumes "case d of DArray ds m \<Rightarrow> m \<le> VALUE_BYTES \<and> list_all (\<lambda>(k, _). k \<le> VALUE_BYTES) ds | _ \<Rightarrow> True"
  shows "visit_attempts lib d t = rbind (value_of d) (\<lambda>v. Inr (case v of JArray items \<Rightarrow> fold (push_attempt lib) items t | _ \<Rightarrow> t))"
proof (cases d)
  case (DArray ds n)
  then show ?thesis using assms by (cases "values_of ds") (simp_all add: visit_attempts_def visit_rows_small)
next
  case (DObject fs)
  then show ?thesis by (cases "fields_of fs []") (simp_all add: visit_attempts_def)
qed (simp_all add: visit_attempts_def)

lemma small_fields_Cons:
  "small_fields ((k, n, d) # fs) \<longleftrightarrow> k \<notin> fst ` set fs \<and> n \<le> VALUE_BYTES \<and> small_fields fs
    \<and> (case d of DArray ds m \<Rightarrow> m \<le> VALUE_BYTES \<and> list_all (\<lambda>(k, _). k \<le> VALUE_BYTES) ds | _ \<Rightarrow> True)"
  by (auto simp: small_fields_def)

text \<open>The object with the attempts.\<close>

definition small_doc :: "doc \<Rightarrow> bool" where
  "small_doc d = (case d of DArray ds m \<Rightarrow> m \<le> VALUE_BYTES \<and> list_all (\<lambda>(k, _). k \<le> VALUE_BYTES) ds | _ \<Rightarrow> True)"

lemma visit_inner_field:
  assumes "n \<le> VALUE_BYTES" "small_doc d" "k \<noteq> ''data''" "map_of m k = None"
  shows "visit_fields lib tm ((k, n, d) # fs) (inner_level m) (rows_trail lib t m)
    = rbind (value_of d) (\<lambda>v. visit_fields lib tm fs (inner_level (insert_key k v m)) (rows_trail lib t (insert_key k v m)))"
proof -
  have g: "guarded_value n d = value_of d" using assms(1) by (simp add: guarded_value_def)
  have a: "visit_attempts lib d t = rbind (value_of d) (\<lambda>v. Inr (case v of JArray items \<Rightarrow> fold (push_attempt lib) items t | _ \<Rightarrow> t))"
    using visit_attempts_small assms(2) by (simp add: small_doc_def)
  consider "k = ''success''" | "k = ''error''" | "k = ''submission''" | "k = ''attempts''"
    | "k \<notin> {''success'', ''error'', ''submission'', ''attempts''}" by blast
  then show ?thesis
  proof cases
    case 4
    with assms(4) have "rows_trail lib t m = t" by (simp add: rows_trail_def)
    with 4 show ?thesis by (cases "value_of d") (simp_all add: inner_level_def a rows_trail_def)
  next
    case 5
    then have "''success'' \<noteq> k" "''error'' \<noteq> k" "''submission'' \<noteq> k" "''attempts'' \<noteq> k" by auto
    with assms(3) show ?thesis by (cases "value_of d") (simp_all add: inner_level_def rows_trail_def)
  qed (cases "value_of d", simp_all add: inner_level_def g rows_trail_def)+
qed

lemma visit_inner:
  assumes "small_fields fs" "map_of fs ''data'' = None" "\<forall>k\<in>fst ` set fs. map_of m k = None"
  shows "visit_fields lib tm fs (inner_level m) (rows_trail lib t m)
    = rbind (fields_of fs m) (\<lambda>m. Inr (inner_level m, rows_trail lib t m))"
  using assms
proof (induction fs arbitrary: m)
  case Nil
  then show ?case by (simp add: inner_level_def)
next
  case (Cons f fs)
  obtain k n d where f: "f = (k, n, d)" by (cases f)
  have sm: "n \<le> VALUE_BYTES" "small_doc d" "small_fields fs" "k \<notin> fst ` set fs"
    using Cons.prems(1) unfolding f small_fields_Cons by (simp_all add: small_doc_def)
  have k: "map_of m k = None" "k \<noteq> ''data''" "map_of fs ''data'' = None" using Cons.prems f by (auto split: if_splits)
  have nk: "\<forall>j\<in>fst ` set fs. map_of (insert_key k v m) j = None" for v using Cons.prems(3) sm(4) f by auto
  have "visit_fields lib tm fs (inner_level (insert_key k v m)) (rows_trail lib t (insert_key k v m))
      = rbind (fields_of fs (insert_key k v m)) (\<lambda>m. Inr (inner_level m, rows_trail lib t m))" for v
    by (rule Cons.IH [OF sm(3) k(3) nk])
  then show ?case
    unfolding f visit_inner_field [OF sm(1,2) k(2,1)] by (cases "value_of d") simp_all
qed

text \<open>The envelope: without its own attempts when it has data.\<close>

lemma rows_trail_other [simp]: "k \<noteq> ''attempts'' \<Longrightarrow> rows_trail lib t (insert_key k v m) = rows_trail lib t m"
  by (auto simp: rows_trail_def)

lemma outer_trail_other [simp]:
  "k \<noteq> ''attempts'' \<Longrightarrow> k \<noteq> ''data'' \<Longrightarrow> outer_trail lib t (insert_key k v m) = outer_trail lib t m"
  by (auto simp: outer_trail_def split: option.splits json.splits)

lemma visit_outer_field:
  assumes "n \<le> VALUE_BYTES" "small_doc d" "map_of m k = None"
    and "k = ''data'' \<Longrightarrow> data_object d \<and> map_of m ''attempts'' = None" "k = ''attempts'' \<Longrightarrow> map_of m ''data'' = None"
  shows "visit_fields lib tm ((k, n, d) # fs) (outer_level m) (outer_trail lib t m)
    = rbind (value_of d) (\<lambda>v. visit_fields lib tm fs (outer_level (insert_key k v m)) (outer_trail lib t (insert_key k v m)))"
proof -
  have g: "guarded_value n d = value_of d" using assms(1) by (simp add: guarded_value_def)
  have a: "visit_attempts lib d t = rbind (value_of d) (\<lambda>v. Inr (case v of JArray items \<Rightarrow> fold (push_attempt lib) items t | _ \<Rightarrow> t))"
    using visit_attempts_small assms(2) by (simp add: small_doc_def)
  consider "k = ''success''" | "k = ''error''" | "k = ''submission''" | "k = ''attempts''" | "k = ''data''"
    | "k \<notin> {''success'', ''error'', ''submission'', ''attempts'', ''data''}" by blast
  then show ?thesis
  proof cases
    case 4
    with assms(3,5) have "outer_trail lib t m = t" by (simp add: outer_trail_def rows_trail_def)
    with 4 assms(5) show ?thesis by (cases "value_of d") (simp_all add: outer_level_def a outer_trail_def rows_trail_def)
  next
    case 5
    with assms(3,4) have t: "outer_trail lib t m = t" by (simp add: outer_trail_def rows_trail_def)
    from 5 assms(4) obtain gs where gs: "d = DObject gs" "small_fields gs" "map_of gs ''data'' = None"
      by (auto simp: data_object_def split: doc.splits)
    have "visit_level lib tm d t = rbind (fields_of gs []) (\<lambda>g. Inr (inner_level g, rows_trail lib t g))"
      using visit_inner [OF gs(2,3), of "[]" lib tm t] by (simp add: gs(1) inner_level_def default_level_def rows_trail_def)
    then show ?thesis using 5 gs(1) t
      by (cases "fields_of gs []") (simp_all add: outer_level_def outer_trail_def)
  next
    case 6
    then have "''success'' \<noteq> k" "''error'' \<noteq> k" "''submission'' \<noteq> k" "''attempts'' \<noteq> k" "''data'' \<noteq> k" by auto
    then show ?thesis by (cases "value_of d") (simp_all add: outer_level_def)
  qed (cases "value_of d", simp_all add: outer_level_def g)+
qed

lemma visit_outer:
  assumes "small_fields fs" "\<forall>k\<in>fst ` set fs. map_of m k = None"
    and "\<And>n d. map_of fs ''data'' = Some (n, d) \<Longrightarrow> data_object d \<and> map_of fs ''attempts'' = None \<and> map_of m ''attempts'' = None"
    and "map_of m ''data'' \<noteq> None \<Longrightarrow> map_of fs ''attempts'' = None"
  shows "visit_fields lib tm fs (outer_level m) (outer_trail lib t m)
    = rbind (fields_of fs m) (\<lambda>m. Inr (outer_level m, outer_trail lib t m))"
  using assms
proof (induction fs arbitrary: m)
  case Nil
  then show ?case by (simp add: outer_level_def)
next
  case (Cons f fs)
  obtain k n d where f: "f = (k, n, d)" by (cases f)
  have sm: "n \<le> VALUE_BYTES" "small_doc d" "small_fields fs" "k \<notin> fst ` set fs"
    using Cons.prems(1) unfolding f small_fields_Cons by (simp_all add: small_doc_def)
  have k: "map_of m k = None" "k = ''data'' \<Longrightarrow> data_object d \<and> map_of m ''attempts'' = None"
    "k = ''attempts'' \<Longrightarrow> map_of m ''data'' = None"
    using Cons.prems(2,3) f Cons.prems(4) by (auto split: if_splits) (cases "map_of m ''data''", auto)
  have none: "map_of fs j = None" if "j = k" for j using sm(4) that by (simp add: map_of_eq_None_iff)
  have "visit_fields lib tm fs (outer_level (insert_key k v m)) (outer_trail lib t (insert_key k v m))
      = rbind (fields_of fs (insert_key k v m)) (\<lambda>m. Inr (outer_level m, outer_trail lib t m))" for v
  proof (rule Cons.IH [OF sm(3)])
    show "\<forall>j\<in>fst ` set fs. map_of (insert_key k v m) j = None" using Cons.prems(2) sm(4) f by auto
    show "data_object d' \<and> map_of fs ''attempts'' = None \<and> map_of (insert_key k v m) ''attempts'' = None"
      if "map_of fs ''data'' = Some (n', d')" for n' d'
    proof -
      have "''data'' \<noteq> k" using that none by auto
      then show ?thesis using Cons.prems(3) [of n' d'] that f by (auto split: if_splits)
    qed
    show "map_of fs ''attempts'' = None" if "map_of (insert_key k v m) ''data'' \<noteq> None"
      using Cons.prems(3,4) that f none [of "''attempts''"] by (auto split: if_splits)
  qed
  moreover have "visit_fields lib tm ((k, n, d) # fs) (outer_level m) (outer_trail lib t m)
      = rbind (value_of d) (\<lambda>v. visit_fields lib tm fs (outer_level (insert_key k v m)) (outer_trail lib t (insert_key k v m)))"
    by (rule visit_outer_field) (use sm k in auto)
  ultimately show ?case unfolding f by (cases "value_of d") (simp_all only: rbind_simps fields_of.simps)
qed

lemma fields_of_lookup:
  assumes "fields_of fs m = Inr r" "distinct (map fst fs)"
  shows "map_of r k = (case map_of fs k of None \<Rightarrow> map_of m k | Some (_, d) \<Rightarrow> Some (projr (value_of d)))"
  using assms
proof (induction fs arbitrary: m)
  case (Cons f fs)
  obtain j n d where f: "f = (j, n, d)" by (cases f)
  from Cons.prems(1) f obtain v where v: "value_of d = Inr v" and "fields_of fs (insert_key j v m) = Inr r"
    by (auto simp: rbind_Inr)
  then have "map_of r k = (case map_of fs k of None \<Rightarrow> map_of (insert_key j v m) k | Some (_, d) \<Rightarrow> Some (projr (value_of d)))"
    using Cons.IH Cons.prems(2) by simp
  moreover have "map_of fs j = None" using Cons.prems(2) f by (simp add: map_of_eq_None_iff)
  ultimately show ?case using v f by (auto split: option.splits)
qed simp

lemma fields_of_value_ok: "fields_of fs m = Inr r \<Longrightarrow> (k, n, d) \<in> set fs \<Longrightarrow> \<exists>v. value_of d = Inr v"
  by (induction fs arbitrary: m) (auto simp: rbind_Inr)

text \<open>
  C18. For a body that is an object with the submission and its attempts, or an envelope around one, the
  streaming decoder gives exactly the answer of the parser of whole values, errors of the text and of the
  envelope included, whatever the order of the fields, as long as no value exceeds the cap.
\<close>

theorem streaming_agrees:
  assumes "regular_body d"
  shows "streamed_response lib tm d = whole_response lib d"
proof -
  obtain fs where d: "d = DObject fs" and sm: "small_fields fs"
    and data: "\<And>n g. map_of fs ''data'' = Some (n, g) \<Longrightarrow> data_object g \<and> map_of fs ''attempts'' = None"
    using assms by (auto simp: regular_body_def split: doc.splits option.splits)
  let ?t = attempt_trail_default
  have "visit_level lib tm d ?t = visit_fields lib tm fs (outer_level []) (outer_trail lib ?t [])"
    by (simp add: d outer_level_def outer_trail_def rows_trail_def default_level_def)
  also have "\<dots> = rbind (fields_of fs []) (\<lambda>m. Inr (outer_level m, outer_trail lib ?t m))"
    by (rule visit_outer [OF sm]) (use data in auto)
  finally have v: "visit_level lib tm d ?t = rbind (fields_of fs []) (\<lambda>m. Inr (outer_level m, outer_trail lib ?t m))" .
  show ?thesis
  proof (cases "fields_of fs []")
    case (Inl e)
    then show ?thesis using v
      by (cases e) (simp_all add: streamed_response_def decode_attempts_def whole_response_def d)
  next
    case (Inr m)
    have obj: "\<exists>g. v = JObject g" if mv: "map_of m ''data'' = Some v" for v
    proof -
      have look: "map_of m ''data'' = (case map_of fs ''data'' of None \<Rightarrow> None | Some (_, d) \<Rightarrow> Some (projr (value_of d)))"
        using fields_of_lookup [OF Inr, of "''data''"] sm by (simp add: small_fields_def split: option.splits)
      then obtain n g where g: "map_of fs ''data'' = Some (n, g)" and pv: "v = projr (value_of g)"
        using mv by (auto split: option.splits)
      from data [OF g] obtain gs where "g = DObject gs" by (auto simp: data_object_def split: doc.splits)
      moreover obtain w where "value_of g = Inr w" using fields_of_value_ok [OF Inr map_of_SomeD [OF g]] by blast
      ultimately show ?thesis using pv by (auto simp: rbind_Inr)
    qed
    show ?thesis
    proof (cases "Option.bind (map_of m ''success'') as_bool = Some False")
      case True
      then show ?thesis using v Inr
        by (simp add: streamed_response_def decode_attempts_def whole_response_def d unwrap_envelope_def outer_level_def)
    next
      case False
      then show ?thesis using v Inr obj
        by (cases "map_of m ''data''")
          (auto simp: streamed_response_def decode_attempts_def whole_response_def d unwrap_envelope_def outer_level_def
            inner_level_def outer_trail_def rows_trail_def from_raw_def parse_mining_attempts_api_response_def
            split: json.splits option.splits)
    qed
  qed
qed

definition demo_json_lib :: json_lib where
  "demo_json_lib = \<lparr>number_i64 = (\<lambda>_. Some 7), number_u64 = (\<lambda>_. Some 7), number_f64 = (\<lambda>_. None),
     number_text = id, to_text = (\<lambda>_. [])\<rparr>"

text \<open>An envelope whose success comes after its data.\<close>

definition demo_body :: doc where
  "demo_body = DObject [
     (''data'', 90, DObject [(''attempts'', 40, DArray [(30, DObject [(''qpu_access_time_us'', 1, DNumber ''7'')])] 1),
       (''submission'', 9, DNull)]),
     (''success'', 4, DBool True)]"

text \<open>C18 for that envelope, whose submission is null.\<close>

theorem streaming_agrees_witness:
  "regular_body demo_body \<and> streamed_response demo_json_lib (\<lambda>_. []) demo_body = whole_response demo_json_lib demo_body
     \<and> whole_response demo_json_lib demo_body = Inl (Unparsable ''missing `submission` field'')"
proof (intro conjI)
  have v: "VALUE_BYTES = 4194304" by (simp add: VALUE_BYTES_def)
  show r: "regular_body demo_body"
    by (simp add: regular_body_def demo_body_def small_fields_def data_object_def v)
  show "streamed_response demo_json_lib (\<lambda>_. []) demo_body = whole_response demo_json_lib demo_body"
    by (rule streaming_agrees [OF r])
  show "whole_response demo_json_lib demo_body = Inl (Unparsable ''missing `submission` field'')"
    by (simp add: whole_response_def demo_body_def unwrap_envelope_def parse_mining_attempts_api_response_def
        mining_attempts_from_parts_def)
qed

section \<open>Bodies on which they differ\<close>

text \<open>Attempts beside the data of an envelope are folded too; the parser of whole values ignores them.\<close>

theorem envelope_rows_merge:
  assumes "value_of r1 = Inr v1" "value_of r2 = Inr v2" "n1 \<le> VALUE_BYTES" "n2 \<le> VALUE_BYTES"
  shows "map_option ab_trail (case decode_attempts lib tm
      (DObject [(''attempts'', 0, DArray [(n1, r1)] 0), (''data'', 0, DObject [(''attempts'', 0, DArray [(n2, r2)] 0)])]) None
      of Inr b \<Rightarrow> Some b | Inl _ \<Rightarrow> None) = Some (push_attempt lib v2 (push_attempt lib v1 attempt_trail_default))"
  using assms by (simp add: decode_attempts_def visit_attempts_def guarded_value_def default_level_def)

text \<open>A failed envelope whose data is a text is reported as unparsable; the parser of whole values reports its error.\<close>

theorem failed_envelope_masked:
  "streamed_response lib tm (DObject [(''success'', 0, DBool False), (''error'', 0, DString e), (''data'', 0, DString x)])
     = Inl (Unparsable (tm (DString x)))"
  "whole_response lib (DObject [(''success'', 0, DBool False), (''error'', 0, DString e), (''data'', 0, DString x)])
     = Inl (EnvelopeFailure (json_to_string lib (Some (JString e)) ''envelope reported failure''))"
  by (simp_all add: streamed_response_def decode_attempts_def whole_response_def unwrap_envelope_def envelope_failure_def
      guarded_value_def default_level_def)

end
