(* ===== verification/Miner_Service.thy ===== *)
theory Miner_Service
  imports Miner_Cache_Props Miner_Stream
begin

text \<open>
  The miner client (\<open>quip-dashboard/src/miner/client.rs\<close>) and service (\<open>quip-dashboard/src/miner/mod.rs\<close>): what a
  request asks for, how an answer becomes an observation or an error, and the translation between chain ids and
  the numbers of the miner. URL parsing, the HTTP exchange and the JSON parser are arguments.
\<close>

section \<open>Transport\<close>

definition RESPONSE_BYTES :: nat where
  "RESPONSE_BYTES = 4 * 1024 * 1024"

definition ATTEMPTS_RESPONSE_BYTES :: nat where
  "ATTEMPTS_RESPONSE_BYTES = 64 * 1024 * 1024"

text \<open>\<open>chars().take(n)\<close> on UTF-8 bytes.\<close>

definition starts_char :: "char \<Rightarrow> bool" where
  "starts_char ch = (let n = of_char ch :: nat in n < 128 \<or> 192 \<le> n)"

fun take_chars :: "nat \<Rightarrow> string \<Rightarrow> string" where
  "take_chars n [] = []"
| "take_chars n (ch # s) = (if starts_char ch then (case n of 0 \<Rightarrow> [] | Suc k \<Rightarrow> ch # take_chars k s) else ch # take_chars n s)"

definition transport_error :: "string \<Rightarrow> miner_error" where
  "transport_error m = Unreachable (take_chars 256 m)"

text \<open>The body arrives in chunks; \<open>Inl\<close> is a failed read.\<close>

record response =
  rs_status :: "16 word"
  rs_content_length :: "u64 option"
  rs_chunks :: "(string + string) list"

text \<open>The URL parser with the query appended, the exchange, and the JSON parsers of a body.\<close>

record http_lib =
  hl_url :: "string \<Rightarrow> (string \<times> string) list \<Rightarrow> string + string"
  hl_exchange :: "string \<Rightarrow> nat \<Rightarrow> string + response"
  hl_json :: json_lib
  hl_value :: "string \<Rightarrow> string + json"
  hl_doc :: "string \<Rightarrow> doc \<times> string option"
  hl_type_message :: type_message

definition is_success :: "16 word \<Rightarrow> bool" where
  "is_success s \<longleftrightarrow> 200 \<le> s \<and> s < 300"

definition status_error :: "(string \<times> string) list \<Rightarrow> 16 word \<Rightarrow> miner_error" where
  "status_error query s =
     (if s = 404 then (case Option.bind (map_of query ''solution_number'') parse_unsigned of
          Some n \<Rightarrow> NotFound n | None \<Rightarrow> UpstreamStatus 404)
      else if s = 429 then RateLimited else UpstreamStatus s)"

definition http_send :: "http_lib \<Rightarrow> string \<Rightarrow> string \<Rightarrow> (string \<times> string) list \<Rightarrow> nat \<Rightarrow> nat \<Rightarrow> miner_error + response" where
  "http_send lib base path query cap deadline =
     (case hl_url lib (trim_end_matches (CHR ''/'') base @ path) query of Inl m \<Rightarrow> Inl (Http m)
      | Inr url \<Rightarrow> (case hl_exchange lib url deadline of Inl m \<Rightarrow> Inl (transport_error m)
      | Inr r \<Rightarrow> if \<not> is_success (rs_status r) then Inl (status_error query (rs_status r))
          else if (case rs_content_length r of Some n \<Rightarrow> cap < unat n | None \<Rightarrow> False) then Inl (BodyTooLarge (of_nat cap))
          else Inr r))"

fun body_chunks :: "nat \<Rightarrow> (string + string) list \<Rightarrow> string \<Rightarrow> miner_error + string" where
  "body_chunks cap [] acc = Inr acc"
| "body_chunks cap (Inl m # cs) acc = Inl (transport_error m)"
| "body_chunks cap (Inr c # cs) acc =
     (if cap < length acc + length c then Inl (BodyTooLarge (of_nat cap)) else body_chunks cap cs (acc @ c))"

definition RESPONSE_DEADLINE :: nat where
  "RESPONSE_DEADLINE = 10"

definition ATTEMPTS_DEADLINE :: nat where
  "ATTEMPTS_DEADLINE = 25"

definition read_value :: "http_lib \<Rightarrow> string \<Rightarrow> string \<Rightarrow> (string \<times> string) list \<Rightarrow> miner_error + json" where
  "read_value lib base path query =
     rbind (http_send lib base path query RESPONSE_BYTES RESPONSE_DEADLINE) (\<lambda>r.
     rbind (body_chunks RESPONSE_BYTES (rs_chunks r) []) (\<lambda>bytes.
     case hl_value lib bytes of Inl m \<Rightarrow> Inl (Unparsable m) | Inr v \<Rightarrow> unwrap_envelope (hl_json lib) v))"

text \<open>
  The transfer to the decoder: it stops at the cap, at a failed read, or when the decoder has closed the
  channel, which it does after \<open>closed\<close> chunks when its text is malformed.
\<close>

fun transfer :: "nat \<Rightarrow> nat option \<Rightarrow> (string + string) list \<Rightarrow> nat \<Rightarrow> string \<Rightarrow> miner_error option \<times> string" where
  "transfer cap closed [] len sent = (None, sent)"
| "transfer cap closed (Inl m # cs) len sent = (Some (transport_error m), sent)"
| "transfer cap closed (Inr c # cs) len sent =
     (if cap < len + length c then (Some (BodyTooLarge (of_nat cap)), sent)
      else case closed of
        Some 0 \<Rightarrow> (None, sent)
      | Some (Suc k) \<Rightarrow> transfer cap (Some k) cs (len + length c) (sent @ c)
      | None \<Rightarrow> transfer cap None cs (len + length c) (sent @ c))"

definition read_attempts :: "http_lib \<Rightarrow> nat option \<Rightarrow> string \<Rightarrow> (string \<times> string) list \<Rightarrow> miner_error + attempts_body" where
  "read_attempts lib closed base query =
     rbind (http_send lib base ''/api/v1/mining/attempts'' query ATTEMPTS_RESPONSE_BYTES ATTEMPTS_DEADLINE) (\<lambda>r.
     case transfer ATTEMPTS_RESPONSE_BYTES closed (rs_chunks r) 0 [] of
       (Some e, _) \<Rightarrow> Inl e
     | (None, bytes) \<Rightarrow> (case hl_doc lib bytes of (d, trailing) \<Rightarrow>
         decode_attempts (hl_json lib) (hl_type_message lib) d trailing))"

text \<open>The decoder's end of the channel: chunks not yet received, the current chunk and the offset in it.\<close>

record channel =
  ch_queue :: "string list"
  ch_chunk :: string
  ch_offset :: nat

function channel_read :: "nat \<Rightarrow> channel \<Rightarrow> string \<times> channel" where
  "channel_read n r = (if ch_offset r < length (ch_chunk r)
     then let got = take n (drop (ch_offset r) (ch_chunk r)) in (got, r\<lparr>ch_offset := ch_offset r + length got\<rparr>)
     else case ch_queue r of [] \<Rightarrow> ([], r)
       | c # cs \<Rightarrow> channel_read n (r\<lparr>ch_queue := cs, ch_chunk := c, ch_offset := 0\<rparr>))"
  by pat_completeness auto
termination
  by (relation "measure (\<lambda>(n, r). length (ch_queue r))") auto

declare channel_read.simps [simp del]

section \<open>Failures of peers\<close>

type_synonym failures = "(string \<times> int \<times> miner_error) list"

definition FAILURES :: nat where
  "FAILURES = 128"

text \<open>Before a request of a peer: the remembered failure, a full table, or the request. Times are nanoseconds.\<close>

definition guard_enter :: "(nat \<Rightarrow> int) \<Rightarrow> string \<Rightarrow> bool \<Rightarrow> failures \<Rightarrow> (miner_error + unit) \<times> failures" where
  "guard_enter clock base peer fs =
     (if \<not> peer then (Inr (), fs)
      else let fs = map snd (filter (\<lambda>(i, _, expires, _). clock i < expires) (enumerate 0 fs)) in
        case map_of fs base of Some (_, e) \<Rightarrow> (Inl e, fs)
        | None \<Rightarrow> if FAILURES \<le> length fs then (Inl (Http ''peer failure cache capacity exhausted''), fs) else (Inr (), fs))"

definition guard_exit :: "int \<Rightarrow> string \<Rightarrow> bool \<Rightarrow> miner_error + 'a \<Rightarrow> failures \<Rightarrow> failures" where
  "guard_exit now base peer r fs = (case r of
       Inl (Unreachable m) \<Rightarrow> if peer \<and> length fs < FAILURES
         then (base, now + 60 * 10 ^ 9, Unreachable m) # filter (\<lambda>(b, _). b \<noteq> base) fs else fs
     | _ \<Rightarrow> fs)"

section \<open>Chain ids and miner numbers\<close>

definition miner_solution_number :: "u64 \<Rightarrow> miner_error + u64" where
  "miner_solution_number q = ok_or (NotFound q) (Option.bind (checked_sub q 1) (\<lambda>n. if 0 < n then Some n else None))"

definition chain_number_attempts :: "u64 \<Rightarrow> mining_attempt list \<Rightarrow> mining_attempt list" where
  "chain_number_attempts q = map (\<lambda>a. case map_of (ma_extra a) ''solution_number'' of None \<Rightarrow> a
     | Some _ \<Rightarrow> a\<lparr>ma_extra := insert_key ''solution_number'' (JNumber (unsigned_text q)) (ma_extra a)\<rparr>)"

definition chain_numbered :: "u64 \<Rightarrow> miner_error + 'a \<Rightarrow> miner_error + 'a" where
  "chain_numbered q r = (case r of Inl (NotFound _) \<Rightarrow> Inl (NotFound q) | _ \<Rightarrow> r)"

definition cache_key :: "string \<Rightarrow> bool \<Rightarrow> string" where
  "cache_key base peer = (if peer then ''true'' else ''false'') @ '':'' @ base"

section \<open>Fetches\<close>

text \<open>The URL of a peer is cut inside a character of some hosts, which panics.\<close>

definition fetch_endpoint :: "miner_error + peer_host option \<Rightarrow> panic + (miner_error + string)" where
  "fetch_endpoint resolved = (case resolved of Inl e \<Rightarrow> Inr (Inl e)
     | Inr host \<Rightarrow> rbind (resolve_peer_miner_rest_url host) (\<lambda>url. Inr (case url of
         Some u \<Rightarrow> if length u \<le> 2048 then Inr u else Inl (Unreachable ''peer descriptor has no REST host'')
       | None \<Rightarrow> Inl (Unreachable ''peer descriptor has no REST host''))))"

definition endpoint_request :: "string \<Rightarrow> miner_error + string" where
  "endpoint_request acct = (if 256 < length acct then Inl (Http ''account identifier too long'') else Inr acct)"

definition fetch_stats :: "http_lib \<Rightarrow> string \<Rightarrow> miner_error + miner_stats" where
  "fetch_stats lib base = rbind (read_value lib base ''/api/v1/stats'' []) (\<lambda>raw. Inr (parse_miner_stats_payload (hl_json lib) raw))"

definition fetch_status :: "http_lib \<Rightarrow> string \<Rightarrow> miner_error + node_status" where
  "fetch_status lib base = rbind (read_value lib base ''/api/v1/status'' []) (\<lambda>raw. Inr (parse_node_status (hl_json lib) raw))"

definition fetch_attempts :: "http_lib \<Rightarrow> nat option \<Rightarrow> string + u64 \<Rightarrow> string \<Rightarrow> u64 \<Rightarrow> u64 \<Rightarrow> miner_error + mining_attempts_response" where
  "fetch_attempts lib closed clock base solution miner_solution =
     rbind (chain_numbered solution (read_attempts lib closed base [(''solution_number'', unsigned_text miner_solution)])) (\<lambda>body.
     rbind (mining_attempts_from_parts (hl_json lib) (ab_submission body) (ab_trail body)) (\<lambda>parsed.
     if ms_solution_number (mr_submission parsed) \<noteq> unwrap_or (2 ^ 63 - 1) (i64_try_from (uint miner_solution))
     then Inl (Unparsable ''miner returned a different solution number'')
     else case clock of Inl m \<Rightarrow> Inl (Http m)
     | Inr ms \<Rightarrow> Inr (parsed\<lparr>
         mr_submission := (mr_submission parsed)\<lparr>ms_solution_number := unwrap_or (2 ^ 63 - 1) (i64_try_from (uint solution)),
           ms_observed_at := format_iso8601_ms ms\<rparr>,
         mr_attempts := chain_number_attempts solution (mr_attempts parsed)\<rparr>)))"

definition MAX_SOLUTION :: nat where
  "MAX_SOLUTION = 9007199254740991"

text \<open>\<open>attempts\<close>: the checks, then the cache with this key and fetch.\<close>

definition attempts_request :: "string \<Rightarrow> u64 \<Rightarrow> bool \<Rightarrow> miner_error + string \<times> u64" where
  "attempts_request base solution peer =
     (if solution = 0 \<or> MAX_SOLUTION < unat solution then Inl InvalidSolutionNumber
      else rbind (miner_solution_number solution) (\<lambda>n. Inr (cache_key base peer @ '':'' @ unsigned_text solution, n)))"

definition fetch_dispatch_attempts :: "http_lib \<Rightarrow> nat option \<Rightarrow> string \<Rightarrow> string \<Rightarrow> u64 \<Rightarrow> u64 \<Rightarrow> miner_error + mining_attempt list" where
  "fetch_dispatch_attempts lib closed base miner_id solution miner_solution =
     rbind (chain_numbered solution (read_attempts lib closed base
       [(''miner_id'', miner_id), (''solution_number'', unsigned_text miner_solution)])) (\<lambda>body.
     Inr (chain_number_attempts solution (into_newest (hl_json lib) (ab_trail body))))"

definition dispatch_attempts_request :: "string \<Rightarrow> string \<Rightarrow> int \<Rightarrow> bool \<Rightarrow> miner_error + string \<times> u64 \<times> u64" where
  "dispatch_attempts_request base miner_id solution peer =
     (if solution < 0 then Inl InvalidSolutionNumber
      else let q = word_of_int solution in rbind (miner_solution_number q) (\<lambda>n.
        Inr (cache_key base peer @ '':'' @ miner_id @ '':'' @ unsigned_text q, q, n)))"

text \<open>
  \<open>dispatch\<close> with the answers of the two probes: the attempts of the solution and, from the second solution on,
  of the one before.
\<close>

definition previous_probe :: "int \<Rightarrow> (int \<Rightarrow> miner_error + mining_attempt list) \<Rightarrow> miner_error + mining_attempt list option" where
  "previous_probe solution probe = (if 1 < solution then rbind (probe (solution - 1)) (\<lambda>p. Inr (Some p)) else Inr None)"

definition choose_dispatch :: "int \<Rightarrow> miner_error + mining_attempt list \<Rightarrow> miner_error + mining_attempt list option
    \<Rightarrow> miner_error + current_dispatch option" where
  "choose_dispatch solution current previous =
     (case current of Inr (a # as) \<Rightarrow> Inr (select_current_dispatch solution (a # as) [])
      | _ \<Rightarrow> (case previous of Inr (Some (a # as)) \<Rightarrow> Inr (select_current_dispatch solution [] (a # as))
        | _ \<Rightarrow> rbind current (\<lambda>_. rbind previous (\<lambda>_. Inr None))))"

definition fetch_dispatch :: "string \<Rightarrow> int \<Rightarrow> (int \<Rightarrow> miner_error + mining_attempt list) \<Rightarrow> miner_error + current_dispatch option" where
  "fetch_dispatch miner_id solution probe =
     (if miner_id = [] then Inr None
      else choose_dispatch solution (probe solution) (previous_probe solution probe))"

definition dispatch_request :: "string \<Rightarrow> int \<Rightarrow> bool \<Rightarrow> miner_error + node_status \<Rightarrow> miner_error + string \<times> string" where
  "dispatch_request base solution peer status =
     (if solution \<le> 0 \<or> int MAX_SOLUTION < solution then Inl InvalidSolutionNumber
      else rbind status (\<lambda>st. let miner_id = (case ns_miners st of [] \<Rightarrow> [] | m # _ \<Rightarrow> mh_id m)
        in Inr (miner_id, cache_key base peer @ '':'' @ nat_text (nat solution) @ '':'' @ miner_id)))"

record 'o miner_snapshot =
  sp_status :: "miner_error + 'o"
  sp_stats :: "miner_error + 'o"

definition unavailable :: "miner_error \<Rightarrow> 'o miner_snapshot" where
  "unavailable e = \<lparr>sp_status = Inl e, sp_stats = Inl e\<rparr>"

definition local_url_of :: "string option \<Rightarrow> string option" where
  "local_url_of url = (case url of Some u \<Rightarrow> if trim u = [] then None else Some u | None \<Rightarrow> None)"

section \<open>Properties\<close>

lemma miner_solution_number_Inr: "(miner_solution_number q = Inr n) = (1 < q \<and> n = q - 1)"
proof -
  have "(1 \<le> q \<and> 0 < q - 1) = (1 < q)"
    by (cases "1 \<le> q") (auto simp: word_less_nat_alt word_le_nat_alt unat_sub)
  then show ?thesis by (auto simp: miner_solution_number_def checked_sub_def split: if_splits)
qed

lemma chain_numbered_Inr [simp]: "(chain_numbered q r = Inr x) = (r = Inr x)"
  by (auto simp: chain_numbered_def split: sum.splits miner_error.splits)

text \<open>The rows of a solution carry its chain id wherever they carry a number.\<close>

definition rows_numbered :: "u64 \<Rightarrow> mining_attempt list \<Rightarrow> bool" where
  "rows_numbered q = list_all (\<lambda>a. case map_of (ma_extra a) ''solution_number'' of None \<Rightarrow> True
     | Some v \<Rightarrow> v = JNumber (unsigned_text q))"

lemma chain_number_attempts_numbered: "rows_numbered q (chain_number_attempts q as)"
  by (induction as) (auto simp: rows_numbered_def chain_number_attempts_def split: option.splits)

lemma chain_number_attempts_only:
  "list_all2 (\<lambda>a b. b\<lparr>ma_extra := []\<rparr> = a\<lparr>ma_extra := []\<rparr>
     \<and> (\<forall>k. k \<noteq> ''solution_number'' \<longrightarrow> map_of (ma_extra b) k = map_of (ma_extra a) k)) as (chain_number_attempts q as)"
  by (induction as) (auto simp: chain_number_attempts_def split: option.splits)

lemma attempts_request_Inr:
  assumes "attempts_request base q peer = Inr (key, n)"
  shows "uint n = uint q - 1" and "i64_try_from (uint q) = Some (uint q)" and "i64_try_from (uint n) = Some (uint n)"
proof -
  have q: "unat q \<le> MAX_SOLUTION" "1 < q" "n = q - 1"
    using assms by (auto simp: attempts_request_def rbind_Inr miner_solution_number_Inr split: if_splits)
  then have "unat n = unat q - 1" "1 < unat q" by (auto simp: unat_sub word_less_nat_alt word_le_nat_alt)
  then have "int (unat n) = int (unat q) - 1" by linarith
  then show u: "uint n = uint q - 1" by simp
  have "int (unat q) \<le> int MAX_SOLUTION" using q(1) by linarith
  then have "uint q \<le> int MAX_SOLUTION" by simp
  then show "i64_try_from (uint q) = Some (uint q)" and "i64_try_from (uint n) = Some (uint n)"
    using u order_trans [OF _ uint_ge_0 [of q], of "- (2 ^ 63)"] less_le_trans [OF _ uint_ge_0 [of q], of "- (2 ^ 63)"]
    by (auto simp: i64_try_from_def MAX_SOLUTION_def)
qed

text \<open>
  C21. An accepted request for the attempts of a chain qblock asks the miner for the number before it, takes the
  answer only under that number, and returns it under the chain id: the submission and every row that has a
  number show the chain id, and nothing else of the rows changes.
\<close>

theorem attempts_chain_numbered:
  assumes "attempts_request base q peer = Inr (key, n)" "fetch_attempts lib closed clock base q n = Inr r"
  shows "ms_solution_number (mr_submission r) = uint q \<and> rows_numbered q (mr_attempts r)
    \<and> (\<exists>body parsed. read_attempts lib closed base [(''solution_number'', unsigned_text n)] = Inr body
       \<and> mining_attempts_from_parts (hl_json lib) (ab_submission body) (ab_trail body) = Inr parsed
       \<and> ms_solution_number (mr_submission parsed) = uint q - 1
       \<and> mr_attempts r = chain_number_attempts q (mr_attempts parsed))"
proof -
  note a = attempts_request_Inr [OF assms(1)]
  have "i64_try_from (uint q - 1) = Some (uint q - 1)" using a by simp
  then show ?thesis
    using assms(2) chain_number_attempts_numbered
    by (auto simp: fetch_attempts_def rbind_Inr a unwrap_or_def split: if_splits sum.splits)
qed

text \<open>A miner that answers for number 6 when chain qblock 7 is asked for.\<close>

definition demo_submission :: doc where
  "demo_submission = DObject [(''submission'', 0, DObject [
     (''energy_milli'', 0, DNumber ''0''), (''solution_number'', 0, DString ''6''), (''miner_id'', 0, DString ''m''),
     (''diversity_milli'', 0, DNumber ''0''), (''threshold_milli'', 0, DNumber ''0''),
     (''last_proof_block_hash'', 0, DString ''h''), (''outcome'', 0, DString ''won'')])]"

definition demo_http :: http_lib where
  "demo_http = \<lparr>hl_url = (\<lambda>u _. Inr u), hl_exchange = (\<lambda>_ _. Inr \<lparr>rs_status = 200, rs_content_length = None, rs_chunks = []\<rparr>),
     hl_json = \<lparr>number_i64 = (\<lambda>_. Some 7), number_u64 = (\<lambda>_. Some 7), number_f64 = (\<lambda>_. None), number_text = id, to_text = (\<lambda>_. [])\<rparr>,
     hl_value = (\<lambda>_. Inr JNull), hl_doc = (\<lambda>_. (demo_submission, None)), hl_type_message = (\<lambda>_. [])\<rparr>"

definition demo_value :: json where
  "demo_value = JObject [(''diversity_milli'', JNumber ''0''), (''energy_milli'', JNumber ''0''),
      (''last_proof_block_hash'', JString ''h''), (''miner_id'', JString ''m''), (''outcome'', JString ''won''),
      (''solution_number'', JString ''6''), (''threshold_milli'', JNumber ''0'')]"

lemma demo_request: "attempts_request ''u'' 7 False = Inr (''false:u:7'', 6)"
proof -
  have "unsigned_text (7 :: u64) = ''7''" by code_simp
  then show ?thesis
    by (simp add: attempts_request_def MAX_SOLUTION_def miner_solution_number_def checked_sub_def cache_key_def)
qed

lemma demo_read: "read_attempts demo_http None ''u'' q = Inr \<lparr>ab_submission = Some demo_value, ab_trail = attempt_trail_default\<rparr>"
proof -
  have v: "value_of (snd (snd (hd (case demo_submission of DObject fs \<Rightarrow> fs)))) = Inr demo_value" by code_simp
  then show ?thesis
    by (simp add: read_attempts_def http_send_def demo_http_def is_success_def decode_attempts_def demo_submission_def default_level_def guarded_value_def)
qed

lemma demo_parts: "\<exists>p. mining_attempts_from_parts (hl_json demo_http) (Some demo_value) attempt_trail_default = Inr p
    \<and> ms_solution_number (mr_submission p) = 6"
proof -
  let ?r = "mining_attempts_from_parts (hl_json demo_http) (Some demo_value) attempt_trail_default"
  have "\<not> isl ?r" by code_simp
  moreover have "ms_solution_number (mr_submission (projr ?r)) = 6" by code_simp
  ultimately show ?thesis by (cases ?r) auto
qed

text \<open>C21 for that answer.\<close>

theorem attempts_chain_numbered_witness:
  "\<exists>r. attempts_request ''u'' 7 False = Inr (''false:u:7'', 6) \<and> fetch_attempts demo_http None (Inr 0) ''u'' 7 6 = Inr r
     \<and> ms_solution_number (mr_submission r) = 7 \<and> rows_numbered 7 (mr_attempts r)"
proof -
  obtain p where p: "mining_attempts_from_parts (hl_json demo_http) (Some demo_value) attempt_trail_default = Inr p"
    "ms_solution_number (mr_submission p) = 6" using demo_parts by blast
  have n: "i64_try_from 6 = Some 6" by (simp add: i64_try_from_def)
  then obtain r where "fetch_attempts demo_http None (Inr 0) ''u'' 7 6 = Inr r"
    by (simp add: fetch_attempts_def chain_numbered_def demo_read p unwrap_or_def)
  with attempts_chain_numbered [OF demo_request this] demo_request show ?thesis by auto
qed

text \<open>
  A dispatch shows the attempts of the solution if there are any, else those of the solution before; it is
  empty only when the miner has no id or every probe answered without attempts, so a failed probe is never
  cached as an empty dispatch.
\<close>

theorem dispatch_exact:
  "fetch_dispatch miner_id solution probe =
     (if miner_id = [] then Inr None
      else case probe solution of
        Inr (a # as) \<Rightarrow> Inr (Some \<lparr>cd_solution_number = solution, cd_attempts = a # as, cd_status = InFlight\<rparr>)
      | current \<Rightarrow> (case (if 1 < solution then probe (solution - 1) else Inr []) of
          Inr (b # bs) \<Rightarrow> Inr (Some \<lparr>cd_solution_number = saturate_i64 (solution - 1), cd_attempts = b # bs, cd_status = Completed\<rparr>)
        | Inr [] \<Rightarrow> rbind current (\<lambda>_. Inr None)
        | Inl e \<Rightarrow> (case current of Inl e' \<Rightarrow> Inl e' | Inr _ \<Rightarrow> Inl e)))"
  by (auto simp: fetch_dispatch_def choose_dispatch_def previous_probe_def select_current_dispatch_def rbind_def
      split: sum.splits list.splits)

section \<open>Bounds of bodies\<close>

lemma body_chunks_bounded: "body_chunks cap cs acc = Inr s \<Longrightarrow> length acc \<le> cap \<Longrightarrow> length s \<le> cap"
  by (induction cap cs acc rule: body_chunks.induct) (auto split: if_splits)

lemma transfer_bounded: "length sent \<le> len \<Longrightarrow> len \<le> cap \<Longrightarrow> length (snd (transfer cap closed cs len sent)) \<le> cap"
  by (induction cap closed cs len sent rule: transfer.induct) (auto split: option.splits nat.splits)

text \<open>The bytes the decoder has not yet seen.\<close>

definition channel_rest :: "channel \<Rightarrow> string" where
  "channel_rest r = drop (ch_offset r) (ch_chunk r) @ concat (ch_queue r)"

lemma channel_read_exact:
  assumes "channel_read n r = (got, r')" "0 < n"
  shows "got @ channel_rest r' = channel_rest r \<and> length got \<le> n \<and> (got = [] \<longrightarrow> channel_rest r = [])"
  using assms
proof (induction n r rule: channel_read.induct)
  case (1 n r)
  show ?case
  proof (cases "ch_offset r < length (ch_chunk r)")
    case True
    let ?d = "drop (ch_offset r) (ch_chunk r)"
    from True 1(2) have r: "got = take n ?d" "r' = r\<lparr>ch_offset := ch_offset r + length got\<rparr>"
      by (auto simp: channel_read.simps [of n r] Let_def)
    have "got @ drop (ch_offset r + length got) (ch_chunk r) = take n ?d @ drop (length (take n ?d)) ?d"
      using r(1) by (simp add: add.commute)
    also have "\<dots> = ?d" by (cases "n \<le> length ?d") (simp_all del: drop_drop)
    finally show ?thesis using r True 1(3) by (simp add: channel_rest_def)
  next
    case False
    with 1 show ?thesis
      by (cases "ch_queue r") (auto simp: channel_read.simps [of n r] channel_rest_def)
  qed
qed

lemma failures_bounded:
  "length fs \<le> FAILURES \<Longrightarrow> length (snd (guard_enter clock base peer fs)) \<le> FAILURES"
  "length fs \<le> FAILURES \<Longrightarrow> length (guard_exit now base peer r fs) \<le> FAILURES"
proof -
  assume h: "length fs \<le> FAILURES"
  have "length (filter P (enumerate 0 fs)) \<le> length fs" for P
    by (metis length_enumerate length_filter_le)
  then show "length (snd (guard_enter clock base peer fs)) \<le> FAILURES"
    using h order_trans by (fastforce simp: guard_enter_def Let_def split: option.splits)
  have "Suc (length (filter P fs)) \<le> FAILURES" if "length fs < FAILURES" for P
    using le_less_trans [OF length_filter_le that] by (simp add: Suc_le_eq)
  then show "length (guard_exit now base peer r fs) \<le> FAILURES"
    using h by (auto simp: guard_exit_def split: sum.splits miner_error.splits)
qed

end
