(* ===== verification/Http_Api.thy ===== *)
theory Http_Api
  imports Health Miner_Parse Store_Types
begin

text \<open>
  The parts of the HTTP API that decide without waiting (\<open>http/routes.rs\<close>, \<open>http/response.rs\<close>, \<open>http/mod.rs\<close>): the
  numbers of a request, the answer for every error, the capped encoder, and the pool a path draws from. The
  floating point parser is that of the standard library. The waiting parts are in \<open>Http_Budget\<close>.
\<close>

section \<open>Numbers of a request\<close>

text \<open>\<open>f64::from_str\<close>: a sign, then digits with a point and an exponent, or a name.\<close>

definition strip_sign :: "string \<Rightarrow> bool \<times> string" where
  "strip_sign s = (case s of [] \<Rightarrow> (False, []) | c # t \<Rightarrow>
     if c = CHR ''-'' then (True, t) else if c = CHR ''+'' then (False, t) else (False, s))"

definition exponent_part :: "string \<Rightarrow> int option" where
  "exponent_part s = (case s of [] \<Rightarrow> Some 0 | c # t \<Rightarrow>
     if c = CHR ''e'' \<or> c = CHR ''E''
     then (case strip_sign t of (neg, ds) \<Rightarrow> if ds = [] \<or> \<not> list_all is_digit ds then None
       else Some (if neg then - int (dec_val ds) else int (dec_val ds)))
     else None)"

definition decimal_parts :: "string \<Rightarrow> (string \<times> string \<times> int) option" where
  "decimal_parts s =
     (let ints = takeWhile is_digit s; t = dropWhile is_digit s;
          point = (t \<noteq> [] \<and> hd t = CHR ''.'');
          fracs = (if point then takeWhile is_digit (tl t) else []);
          rest = (if point then dropWhile is_digit (tl t) else t)
      in if ints = [] \<and> fracs = [] then None
         else case exponent_part rest of None \<Rightarrow> None | Some e \<Rightarrow> Some (ints, fracs, e))"

definition decimal_f64 :: "bool \<Rightarrow> string \<Rightarrow> string \<Rightarrow> int \<Rightarrow> f64" where
  "decimal_f64 neg ints fracs e =
     (let m = dec_val (ints @ fracs); x = e - int (length fracs)
      in if 0 \<le> x then f64_round neg (m * 10 ^ nat x) 1 else f64_round neg m (10 ^ nat (- x)))"

definition f64_infinity :: "bool \<Rightarrow> f64" where
  "f64_infinity neg = of_nat (2047 * 2 ^ 52 + (if neg then 2 ^ 63 else 0))"

definition f64_nan :: "bool \<Rightarrow> f64" where
  "f64_nan neg = of_nat (2047 * 2 ^ 52 + 2 ^ 51 + (if neg then 2 ^ 63 else 0))"

definition parse_f64 :: "string \<Rightarrow> f64 option" where
  "parse_f64 s = (case strip_sign s of (neg, t) \<Rightarrow>
     (case decimal_parts t of Some (ints, fracs, e) \<Rightarrow> Some (decimal_f64 neg ints fracs e)
      | None \<Rightarrow> if eq_ignore_ascii_case t ''inf'' \<or> eq_ignore_ascii_case t ''infinity'' then Some (f64_infinity neg)
          else if eq_ignore_ascii_case t ''nan'' then Some (f64_nan neg) else None))"

text \<open>\<open>as u64\<close> of an integral value.\<close>

definition int_as_u64 :: "int \<Rightarrow> u64" where
  "int_as_u64 v = word_of_int (max 0 (min (2 ^ 64 - 1) v))"

definition page_number :: "string option \<Rightarrow> u64 \<Rightarrow> u64 \<Rightarrow> u64 \<Rightarrow> u64" where
  "page_number value dflt lowest highest = (case value of None \<Rightarrow> dflt
   | Some raw \<Rightarrow> (let number = (if trim raw = [] then 0
         else case parse_f64 raw of Some x \<Rightarrow> x | None \<Rightarrow> f64_nan False)
       in if is_finite number
          then int_as_u64 (max (f64_to_int (f64_of_int (uint lowest))) (min (f64_to_int (f64_of_int (uint highest))) (f64_trunc number)))
          else dflt))"

definition positive_integer :: "string \<Rightarrow> u64 option" where
  "positive_integer raw = (case parse_f64 raw of None \<Rightarrow> None
   | Some v \<Rightarrow> if \<not> is_finite v \<or> \<not> f64_gt_int v 0 \<or> \<not> f64_integral v \<or> f64_gt_int v 9007199254740991 then None
       else Some (int_as_u64 (f64_to_int v)))"

text \<open>The limit, as 32 bits, and the offset of a page of blocks.\<close>

definition blocks_query :: "string option \<Rightarrow> string option \<Rightarrow> u32 \<times> u64" where
  "blocks_query limit offset =
     (let l = page_number limit 100 1 500
      in (if unat l < 2 ^ 32 then ucast l else 100, page_number offset 0 0 (2 ^ 63 - 1)))"

text \<open>The time of a \<open>since\<close> parameter; \<open>parse\<close> is the calendar library with both formats, and its UTC text.\<close>

definition since_query :: "(string \<Rightarrow> string option) \<Rightarrow> string option \<Rightarrow> (string \<times> string) option" where
  "since_query parse raw = Option.bind raw (\<lambda>r. Option.bind (parse r) (\<lambda>t. Some (r, t)))"

section \<open>Answers\<close>

record api_error =
  ae_status :: nat
  ae_body :: json_map

definition error_body :: "string \<Rightarrow> json_map" where
  "error_body m = [(''error'', JString m)]"

definition detail_body :: "string \<Rightarrow> string \<Rightarrow> json_map" where
  "detail_body m d = insert_key ''detail'' (JString d) (error_body m)"

definition since_error :: api_error where
  "since_error = \<lparr>ae_status = 400, ae_body = error_body ''query parameter `since` must be an ISO 8601 timestamp''\<rparr>"

definition capacity_answer :: api_error where
  "capacity_answer = \<lparr>ae_status = 503, ae_body = error_body ''response capacity exceeded''\<rparr>"

definition internal_error :: api_error where
  "internal_error = \<lparr>ae_status = 500, ae_body = error_body ''internal server error''\<rparr>"

definition store_answer :: "store_error \<Rightarrow> api_error" where
  "store_answer e = (case e of Capacity \<Rightarrow> capacity_answer | _ \<Rightarrow> internal_error)"

definition miner_answer :: "miner_error \<Rightarrow> api_error" where
  "miner_answer e = (case e of
       NotFound _ \<Rightarrow> \<lparr>ae_status = 404, ae_body = error_body ''not found''\<rparr>
     | MissingLocalUrl \<Rightarrow> \<lparr>ae_status = 503, ae_body = error_body ''miner REST endpoint not resolvable yet''\<rparr>
     | Unparsable d \<Rightarrow> \<lparr>ae_status = 502, ae_body = detail_body ''upstream parse failed'' (''mining-attempts: '' @ d)\<rparr>
     | Unreachable d \<Rightarrow> \<lparr>ae_status = 502, ae_body = detail_body ''upstream unreachable'' d\<rparr>
     | miner_error.Http d \<Rightarrow> \<lparr>ae_status = 502, ae_body = detail_body ''upstream unreachable'' d\<rparr>
     | EnvelopeFailure m \<Rightarrow> \<lparr>ae_status = 502, ae_body = error_body m\<rparr>
     | UpstreamStatus s \<Rightarrow> \<lparr>ae_status = 502, ae_body = error_body (''upstream '' @ nat_text (unat s))\<rparr>
     | RateLimited \<Rightarrow> \<lparr>ae_status = 502, ae_body = error_body ''upstream 429''\<rparr>
     | BodyTooLarge cap \<Rightarrow> \<lparr>ae_status = 502, ae_body = detail_body ''upstream parse failed''
         (''response exceeded '' @ nat_text (unat cap) @ '' bytes'')\<rparr>
     | InvalidSolutionNumber \<Rightarrow> \<lparr>ae_status = 400, ae_body = error_body ''invalid solution_number''\<rparr>)"

text \<open>The health routes.\<close>

definition health_route :: "health_snapshot \<Rightarrow> nat \<times> health_snapshot" where
  "health_route s = (if ready s then 200 else 503, s)"

definition live_route :: "health_snapshot \<Rightarrow> nat \<times> health_snapshot" where
  "live_route s = (if live s then 200 else 503, s\<lparr>ok := live s\<rparr>)"

text \<open>An optional observation: its value, and null for an error of the miner.\<close>

definition best_effort :: "('a \<Rightarrow> string + json) \<Rightarrow> miner_error + 'a \<Rightarrow> api_error + json" where
  "best_effort to_value r = (case r of Inr x \<Rightarrow> (case to_value x of Inr v \<Rightarrow> Inr v | Inl _ \<Rightarrow> Inl internal_error)
     | Inl _ \<Rightarrow> Inr JNull)"

section \<open>Encoding\<close>

definition BYTES :: nat where
  "BYTES = 2 * 1024 * 1024"

text \<open>\<open>CappedWriter\<close>: the text arrives in pieces, and a piece that does not fit fails.\<close>

fun capped_write :: "string list \<Rightarrow> string \<Rightarrow> api_error + string" where
  "capped_write [] w = Inr w"
| "capped_write (b # bs) w = (if BYTES < length w + length b then Inl capacity_answer else capped_write bs (w @ b))"

text \<open>The pieces a serializer writes, and how it ends.\<close>

definition serialize :: "string list \<times> bool \<Rightarrow> api_error + string" where
  "serialize pieces = (case pieces of (bs, fine) \<Rightarrow>
     rbind (capped_write bs []) (\<lambda>w. if fine then Inr w else Inl internal_error))"

lemma capped_write_exact:
  "length w \<le> BYTES \<Longrightarrow> capped_write bs w =
     (if length w + length (concat bs) \<le> BYTES then Inr (w @ concat bs) else Inl capacity_answer)"
  by (induction bs w rule: capped_write.induct) auto

section \<open>Pools\<close>

datatype pool = DataPool | HealthPool | ProxyPool

definition prefix_of :: "string \<Rightarrow> string \<Rightarrow> bool" where
  "prefix_of p s \<longleftrightarrow> take (length p) s = p"

definition suffix_of :: "string \<Rightarrow> string \<Rightarrow> bool" where
  "suffix_of p s \<longleftrightarrow> prefix_of (rev p) (rev s)"

definition pool_of_path :: "string \<Rightarrow> pool" where
  "pool_of_path path = (if path = ''/api/live'' \<or> path = ''/api/health'' then HealthPool
     else if prefix_of ''/api/node/'' path \<and> suffix_of ''/live'' path then ProxyPool else DataPool)"

primrec pool_slots :: "pool \<Rightarrow> nat" where
  "pool_slots DataPool = 8" | "pool_slots HealthPool = 2" | "pool_slots ProxyPool = 4"

end
