(* ===== verification/Http_Props.thy ===== *)
theory Http_Props
  imports Http_Api Miner_Props
begin

text \<open>
  What the numbers of a request mean: which texts are solution numbers, and which pages a query can ask for.
\<close>

section \<open>Digits\<close>

lemma takeWhile_digits:
  assumes "list_all is_digit ds"
  shows "takeWhile is_digit ds = ds" and "dropWhile is_digit ds = []"
  using assms by (simp_all add: list_all_iff)

lemma strip_sign_digits: "list_all is_digit ds \<Longrightarrow> strip_sign ds = (False, ds)"
  by (cases ds) (auto simp: strip_sign_def is_digit_def less_eq_char_def)

lemma parse_f64_digits: "parse_f64 (nat_text n) = Some (f64_of_int (int n))"
proof -
  have d: "list_all is_digit (nat_text n)" "nat_text n \<noteq> []" by (simp_all add: nat_text_digits nat_text_nonempty)
  have "decimal_parts (nat_text n) = Some (nat_text n, [], 0)"
    unfolding decimal_parts_def Let_def takeWhile_digits [OF d(1)] using d(2) by (simp add: exponent_part_def)
  then show ?thesis
    using strip_sign_digits [OF d(1)] by (simp add: parse_f64_def decimal_f64_def f64_of_int_def)
qed

section \<open>Rounding of large integers\<close>

lemma f64_of_nat_fields:
  assumes "x < 2 ^ 63"
  shows "f64_exponent (of_nat x) = x div 2 ^ 52 mod 2 ^ 11" and "f64_fraction (of_nat x) = x mod 2 ^ 52"
    and "\<not> f64_sign (of_nat x)"
proof -
  have u: "unat (of_nat x :: f64) = x" using assms by (simp add: unat_of_nat)
  show "f64_exponent (of_nat x) = x div 2 ^ 52 mod 2 ^ 11"
    unfolding f64_exponent_def unsigned_take_bit_eq unat_drop_bit_eq u by (simp only: take_bit_eq_mod drop_bit_eq_div)
  show "f64_fraction (of_nat x) = x mod 2 ^ 52"
    unfolding f64_fraction_def unsigned_take_bit_eq u by (simp only: take_bit_eq_mod)
  have "unat (drop_bit 63 (of_nat x :: f64)) = 0"
    unfolding unat_drop_bit_eq u using assms by (simp add: drop_bit_eq_div)
  then have "drop_bit 63 (of_nat x :: f64) = 0" by (simp only: unat_eq_0)
  then show "\<not> f64_sign (of_nat x)" unfolding f64_sign_def bit_iff_odd_drop_bit by simp
qed

text \<open>From \<open>2 ^ 53\<close> on, an integer becomes a float of at least \<open>2 ^ 53\<close> or infinity.\<close>

lemma f64_of_large_int:
  assumes "2 ^ 53 \<le> n" "is_finite (f64_of_int (int n))"
  shows "2 ^ 53 * f64_one \<le> f64_units (f64_of_int (int n))"
proof -
  have "n \<noteq> 0" using assms(1) by auto
  note b = bit_length_bounds [OF this] bit_length_shift [OF this, of 1074]
  define L where "L = bit_length n"
  have L: "54 \<le> L"
  proof (rule ccontr)
    assume "\<not> 54 \<le> L"
    then have "(2 :: nat) ^ L \<le> 2 ^ 53" by (intro power_increasing) auto
    then show False using assms(1) b(1) by (simp add: L_def)
  qed
  define k where "k = L + 1021"
  have k: "bit_length (n * 2 ^ 1074 div 1) - 53 = k" using L b(2) by (simp add: k_def L_def)
  have "52 + k = (L - 1) + 1074" using L by (simp add: k_def)
  then have "(2 :: nat) ^ 52 * 2 ^ k = 2 ^ (L - 1) * 2 ^ 1074" by (simp only: flip: power_add)
  also have "\<dots> \<le> n * 2 ^ 1074" using b(1) by (simp add: L_def)
  finally have "2 ^ 52 \<le> n * 2 ^ 1074 div (1 * 2 ^ k)" by (simp add: less_eq_div_iff_mult_less_eq)
  then have h: "2 ^ 52 \<le> half_even (n * 2 ^ 1074) (1 * 2 ^ k)" by (simp add: half_even_def Let_def)
  define X where "X = min (k * 2 ^ 52 + half_even (n * 2 ^ 1074) (1 * 2 ^ k)) (2047 * 2 ^ 52)"
  have eq: "f64_of_int (int n) = of_nat X"
    by (simp only: f64_of_int_def f64_round_def Let_def k nat_int abs_of_nat X_def) simp
  have small: "X < 2 ^ 63" by (simp add: X_def)
  have "1075 * 2 ^ 52 \<le> k * 2 ^ 52" using L by (simp add: k_def)
  then have lower: "1076 * 2 ^ 52 \<le> X" using h by (simp add: X_def)
  define e where "e = X div 2 ^ 52"
  have e: "1076 \<le> e" "e \<le> 2047" using lower by (simp_all add: e_def X_def less_eq_div_iff_mult_less_eq div_le_mono)
  note fields = f64_of_nat_fields [OF small]
  have ex: "f64_exponent (of_nat X) = e" using fields(1) e by (simp add: e_def)
  then have "e \<noteq> 2047" using assms(2) by (simp add: is_finite_def eq)
  have "(2 :: nat) ^ 53 * 2 ^ 1074 = 2 ^ 52 * 2 ^ 1075" by (simp flip: power_add)
  also have "\<dots> \<le> (2 ^ 52 + X mod 2 ^ 52) * 2 ^ (e - 1)" using e by (intro mult_mono power_increasing) auto
  finally have "int (2 ^ 53 * 2 ^ 1074) \<le> int ((2 ^ 52 + X mod 2 ^ 52) * 2 ^ (e - 1))" by (rule of_nat_mono)
  moreover have "f64_units (of_nat X) = int ((2 ^ 52 + X mod 2 ^ 52) * 2 ^ (e - 1))"
    unfolding f64_units_def ex fields(2) Let_def using fields(3) e by simp
  ultimately show ?thesis unfolding eq f64_one_def by simp
qed

section \<open>Solution numbers\<close>

lemma f64_small:
  assumes "n < 2 ^ 53"
  shows "f64_units (f64_of_int (int n)) = int n * f64_one" and "is_finite (f64_of_int (int n))"
  using f64_of_small_int [OF assms] by simp_all

lemma f64_one_neq [simp]: "f64_one \<noteq> 0"
  using f64_one_pos by linarith

lemma f64_one_abs [simp]: "\<bar>f64_one\<bar> = f64_one"
  using f64_one_pos by linarith

lemma int_as_u64_nat: "int n < 2 ^ 64 \<Longrightarrow> int_as_u64 (int n) = of_nat n"
  by (simp add: int_as_u64_def)

lemma positive_integer_small:
  assumes "n < 2 ^ 53"
  shows "positive_integer (nat_text n) = (if 0 < n then Some (of_nat n) else None)"
proof -
  have "f64_to_int (f64_of_int (int n)) = int n" by (simp add: f64_to_int_def f64_small [OF assms])
  moreover have "int n < 2 ^ 64" using assms by simp
  ultimately show ?thesis
    using assms f64_small [OF assms] int_as_u64_nat [of n]
    by (auto simp: positive_integer_def parse_f64_digits f64_gt_int_def f64_integral_def)
qed

lemma positive_integer_large:
  assumes "2 ^ 53 \<le> n"
  shows "positive_integer (nat_text n) = None"
proof (cases "is_finite (f64_of_int (int n))")
  case True
  have "9007199254740991 * f64_one < 2 ^ 53 * f64_one" by simp
  also have "\<dots> \<le> f64_units (f64_of_int (int n))" by (rule f64_of_large_int [OF assms True])
  finally show ?thesis by (simp add: positive_integer_def parse_f64_digits f64_gt_int_def)
qed (simp add: positive_integer_def parse_f64_digits)

lemma positive_integer_sound:
  assumes "positive_integer raw = Some q"
  shows "0 < q \<and> uint q \<le> 9007199254740991 \<and> (\<exists>x. parse_f64 raw = Some x \<and> f64_units x = uint q * f64_one)"
proof -
  obtain x where p: "parse_f64 raw = Some x" and v: "f64_gt_int x 0" "f64_integral x" "\<not> f64_gt_int x 9007199254740991"
    and q: "q = int_as_u64 (f64_to_int x)"
    using assms by (auto simp: positive_integer_def split: option.splits if_splits)
  have "\<not> f64_lt_int x 1"
  proof
    assume "f64_lt_int x 1"
    then have "0 < f64_units x" "f64_units x < f64_one" using v(1) by (simp_all add: f64_gt_int_def f64_lt_int_def)
    then show False using v(2) by (simp add: f64_integral_def)
  qed
  from f64_int_range [OF v(2) this v(3)]
  have r: "f64_units x = f64_to_int x * f64_one" "1 \<le> f64_to_int x" "f64_to_int x \<le> 9007199254740991" by auto
  then have "uint q = f64_to_int x" by (simp add: q int_as_u64_def unsigned_of_int take_bit_int_eq_self)
  moreover from this r(2) have "0 < uint q" by linarith
  then have "0 < q" by (simp add: word_less_alt)
  ultimately show ?thesis using p r by simp
qed

section \<open>Pages\<close>

lemma f64_trunc_small: "n < 2 ^ 53 \<Longrightarrow> f64_trunc (f64_of_int (int n)) = int n"
  unfolding f64_trunc_def by (subst (1 2) f64_small(1)) (cases "n = 0"; simp add: abs_mult sgn_mult)+

lemma bound_small: "n < 2 ^ 53 \<Longrightarrow> f64_to_int (f64_of_int (int n)) = int n"
  by (simp add: f64_to_int_def f64_small)

lemma half_even_scale: "0 < c \<Longrightarrow> half_even (a * c) (b * c) = half_even a b"
  by (simp add: half_even_def Let_def mult_mod_left flip: mult.assoc)

text \<open>The largest offset of the code, \<open>i64::MAX\<close>, is not a float: it rounds up.\<close>

lemma offset_bound:
  shows "f64_units (f64_of_int (2 ^ 63 - 1)) = 2 ^ 63 * f64_one" and "is_finite (f64_of_int (2 ^ 63 - 1))"
proof -
  let ?n = "2 ^ 63 - 1 :: nat"
  have n0: "?n \<noteq> 0" and lo: "2 ^ 62 \<le> ?n" and hi: "?n < 2 ^ 63" by simp_all
  have "bit_length ?n = 63"
  proof (rule antisym)
    show "bit_length ?n \<le> 63" by (rule bit_length_le [OF hi])
    show "63 \<le> bit_length ?n"
    proof (rule ccontr)
      assume "\<not> 63 \<le> bit_length ?n"
      then have "(2 :: nat) ^ bit_length ?n \<le> 2 ^ 62" by (intro power_increasing) auto
      then show False using bit_length_bounds [OF n0] lo by linarith
    qed
  qed
  then have k: "bit_length (?n * 2 ^ 1074 div 1) - 53 = 1084" using bit_length_shift [OF n0, of 1074] by simp
  have "(1 * 2 ^ 1084 :: nat) = 2 ^ 10 * 2 ^ 1074" by (simp only: mult_1 flip: power_add) simp
  then have "half_even (?n * 2 ^ 1074) (1 * 2 ^ 1084) = half_even ?n (2 ^ 10)" by (simp only: half_even_scale zero_less_power zero_less_numeral)
  also have "\<dots> = 2 ^ 53" by (simp add: half_even_def)
  finally have h: "half_even (?n * 2 ^ 1074) (1 * 2 ^ 1084) = 2 ^ 53" .
  have eq: "f64_of_int (2 ^ 63 - 1) = of_nat (1086 * 2 ^ 52)"
  proof -
    have "(2 ^ 63 - 1 :: int) = int ?n" by simp
    then have "f64_of_int (2 ^ 63 - 1) = f64_round False ?n 1" by (simp only: f64_of_int_def nat_int abs_of_nat) simp
    also have "\<dots> = of_nat (1086 * 2 ^ 52)" unfolding f64_round_def Let_def k h by simp
    finally show ?thesis .
  qed
  have small: "(1086 * 2 ^ 52 :: nat) < 2 ^ 63" by simp
  note fields = f64_of_nat_fields [OF small]
  show "f64_units (f64_of_int (2 ^ 63 - 1)) = 2 ^ 63 * f64_one"
    unfolding f64_units_def eq fields(1,2) Let_def f64_one_def using fields(3) by simp
  show "is_finite (f64_of_int (2 ^ 63 - 1))"
    unfolding is_finite_def eq fields(1) by simp
qed

lemma trim_nat_text [simp]: "trim (nat_text n) = nat_text n"
  using trim_int_text [of "int n"] by (simp add: int_text_def)

lemma page_number_digits:
  assumes "is_finite (f64_of_int (int n))"
  shows "page_number (Some (nat_text n)) dflt lowest highest =
    int_as_u64 (max (f64_to_int (f64_of_int (uint lowest))) (min (f64_to_int (f64_of_int (uint highest))) (f64_trunc (f64_of_int (int n)))))"
  using assms by (simp add: page_number_def parse_f64_digits nat_text_nonempty)

lemma limit_bounds: "f64_to_int (f64_of_int 1) = 1" "f64_to_int (f64_of_int 500) = 500" "f64_to_int (f64_of_int 0) = 0"
  using bound_small [of 1] bound_small [of 500] bound_small [of 0] by simp_all

lemma uint_int_as_u64: "0 \<le> v \<Longrightarrow> v < 2 ^ 64 \<Longrightarrow> uint (int_as_u64 v) = v"
  by (simp add: int_as_u64_def unsigned_of_int take_bit_int_eq_self)

lemma limit_range: "1 \<le> uint (page_number v 100 1 500) \<and> uint (page_number v 100 1 500) \<le> 500"
proof -
  have "1 \<le> uint (int_as_u64 (max 1 (min 500 t))) \<and> uint (int_as_u64 (max 1 (min 500 t))) \<le> 500" for t
    using uint_int_as_u64 [of "max 1 (min 500 t)"] by auto
  then show ?thesis by (auto simp: page_number_def limit_bounds Let_def split: option.splits)
qed

lemma offset_range: "uint (page_number v 0 0 (2 ^ 63 - 1)) \<le> 2 ^ 63"
proof -
  have "uint (int_as_u64 (max 0 (min (2 ^ 63) t))) \<le> 2 ^ 63" for t
    using uint_int_as_u64 [of "max 0 (min (2 ^ 63) t)"] by auto
  moreover have "f64_to_int (f64_of_int 9223372036854775807) = 2 ^ 63" using offset_bound(1) by (simp add: f64_to_int_def)
  ultimately show ?thesis by (auto simp: page_number_def limit_bounds Let_def split: option.splits)
qed

lemma limit_as_u32: "fst (blocks_query limit offset) = ucast (page_number limit 100 1 500)"
proof -
  have "uint (page_number limit 100 1 500) < 2 ^ 32"
    using le_less_trans [OF conjunct2 [OF limit_range [of limit]], of "2 ^ 32"] by simp
  then have "nat (uint (page_number limit 100 1 500)) < nat (2 ^ 32)" by (subst nat_less_eq_zless) simp_all
  then have "unat (page_number limit 100 1 500) < 2 ^ 32" by simp
  then show ?thesis by (simp add: blocks_query_def Let_def)
qed

lemma uint_limit: "uint (fst (blocks_query limit offset)) = uint (page_number limit 100 1 500)"
  unfolding limit_as_u32 using limit_range [of limit] by (simp add: unsigned_ucast_eq take_bit_int_eq_self)

lemma page_digits:
  assumes "n < 2 ^ 53"
  shows "blocks_query (Some (nat_text n)) (Some (nat_text n)) = (of_nat (min 500 (max 1 n)), of_nat n)"
proof -
  note digits = page_number_digits [OF f64_small(2) [OF assms]] f64_trunc_small [OF assms]
  have "page_number (Some (nat_text n)) 100 1 500 = of_nat (min 500 (max 1 n))"
  proof -
    have "max 1 (min 500 (int n)) = int (min 500 (max 1 n))" by linarith
    then show ?thesis using int_as_u64_nat [of "min 500 (max 1 n)"] by (simp add: digits limit_bounds)
  qed
  moreover have "(ucast (of_nat (min 500 (max 1 n)) :: u64) :: u32) = of_nat (min 500 (max 1 n))"
    by (subst unsigned_of_nat) (simp add: take_bit_nat_eq_self)
  moreover have "page_number (Some (nat_text n)) 0 0 (2 ^ 63 - 1) = of_nat n"
  proof -
    have "max 0 (min (2 ^ 63) (int n)) = int n" using assms by simp
    moreover have "f64_to_int (f64_of_int 9223372036854775807) = 2 ^ 63" using offset_bound(1) by (simp add: f64_to_int_def)
    ultimately show ?thesis using assms int_as_u64_nat [of n] by (simp add: digits limit_bounds)
  qed
  ultimately show ?thesis
    using limit_as_u32 [of "Some (nat_text n)" "Some (nat_text n)"] by (simp add: blocks_query_def Let_def prod_eq_iff)
qed

text \<open>
  C23. The decimal text of a number is a solution number exactly when it is positive and below \<open>2 ^ 53\<close>, and an
  accepted text of any form denotes that number exactly. A page of blocks has the limit of its text clamped to 1
  to 500 and the offset of its text; whatever the query, the limit is within 1 to 500, and the offset at most \<open>2 ^ 63\<close>.
\<close>

theorem request_numbers_exact:
  assumes "n < 2 ^ 53"
  shows "positive_integer (nat_text n) = (if 0 < n then Some (of_nat n) else None)
    \<and> positive_integer (nat_text (2 ^ 53 + k)) = None
    \<and> (case positive_integer raw of None \<Rightarrow> True
       | Some q \<Rightarrow> 0 < q \<and> uint q < 2 ^ 53 \<and> (\<exists>x. parse_f64 raw = Some x \<and> f64_units x = uint q * f64_one))
    \<and> blocks_query (Some (nat_text n)) (Some (nat_text n)) = (of_nat (min 500 (max 1 n)), of_nat n)
    \<and> 1 \<le> uint (fst (blocks_query limit offset)) \<and> uint (fst (blocks_query limit offset)) \<le> 500
    \<and> uint (snd (blocks_query limit offset)) \<le> 2 ^ 63"
proof -
  have "case positive_integer raw of None \<Rightarrow> True
       | Some q \<Rightarrow> 0 < q \<and> uint q < 2 ^ 53 \<and> (\<exists>x. parse_f64 raw = Some x \<and> f64_units x = uint q * f64_one)"
    using positive_integer_sound [of raw] by (auto split: option.splits)
  moreover have "uint (snd (blocks_query limit offset)) \<le> 2 ^ 63"
    using offset_range [of offset] by (simp add: blocks_query_def Let_def)
  ultimately show ?thesis
    using positive_integer_small [OF assms] positive_integer_large [of "2 ^ 53 + k"] page_digits [OF assms] limit_range [of limit]
    by (simp only: uint_limit)
qed

text \<open>C23 for the text of 700, which is not a limit.\<close>

theorem request_numbers_exact_witness:
  "positive_integer (nat_text 700) = Some 700 \<and> blocks_query (Some (nat_text 700)) (Some (nat_text 700)) = (500, 700)"
  using request_numbers_exact [of 700 0 "[]" None None] by simp

text \<open>
  The largest offset the code allows is \<open>i64::MAX\<close>, but its float is one more: asking for it gives an offset that is
  not a 64-bit signed integer.
\<close>

theorem offset_exceeds_i64: "uint (snd (blocks_query limit (Some (nat_text (2 ^ 63 - 1))))) = 2 ^ 63"
proof -
  have "int (2 ^ 63 - 1) = 2 ^ 63 - 1" by simp
  then have "f64_trunc (f64_of_int (int (2 ^ 63 - 1))) = 2 ^ 63" and fin: "is_finite (f64_of_int (int (2 ^ 63 - 1)))"
    using offset_bound by (simp_all only: f64_trunc_def) (simp add: abs_mult sgn_mult)
  moreover have "f64_to_int (f64_of_int (uint (2 ^ 63 - 1 :: u64))) = 2 ^ 63" using offset_bound(1) by (simp add: f64_to_int_def)
  ultimately show ?thesis
    using page_number_digits [OF fin, of 0 0 "2 ^ 63 - 1"] uint_int_as_u64 [of "2 ^ 63"]
    by (simp add: blocks_query_def Let_def limit_bounds)
qed

end
