(* ===== verification/Http_Budget.thy ===== *)
theory Http_Budget
  imports Http_Api
begin

text \<open>
  Admission (\<open>http/admission.rs\<close>), the response budget (\<open>http/response.rs\<close>) and the snapshot of the telemetry route
  (\<open>http/telemetry.rs\<close>) as interleaved steps of requests: a request holds a slot of its pool from its admission
  until its body is dropped, encoded bytes hold permits of one budget while someone owns them, and the
  telemetry mutex lets one request build at a time. Times are nanoseconds.
\<close>

section \<open>State\<close>

type_synonym req_id = nat
type_synonym bytes_id = nat

text \<open>A request in its handler, waiting for the telemetry mutex, building the snapshot, or sending its body.\<close>

datatype req_phase = Running | Waiting | Building | Sending "bytes_id option"

record http_state =
  ht_slots :: "pool \<Rightarrow> nat"
  ht_free :: nat
  ht_requests :: "(req_id \<times> pool \<times> req_phase) list"
  ht_bytes :: "(bytes_id \<times> nat) list"
  ht_payload :: "(int \<times> bytes_id) option"
  ht_next :: bytes_id

definition http_start :: http_state where
  "http_start = \<lparr>ht_slots = pool_slots, ht_free = BYTES, ht_requests = [], ht_bytes = [], ht_payload = None, ht_next = 0\<rparr>"

definition bytes_owned :: "http_state \<Rightarrow> bytes_id \<Rightarrow> bool" where
  "bytes_owned s i \<longleftrightarrow> (case ht_payload s of Some (_, j) \<Rightarrow> j = i | None \<Rightarrow> False)
     \<or> list_ex (\<lambda>(_, _, ph). ph = Sending (Some i)) (ht_requests s)"

text \<open>Bytes whose last owner is gone return their permits.\<close>

definition release_bytes :: "http_state \<Rightarrow> http_state" where
  "release_bytes s = s\<lparr>ht_bytes := filter (\<lambda>(i, _). bytes_owned s i) (ht_bytes s),
     ht_free := ht_free s + sum_list (map snd (filter (\<lambda>(i, _). \<not> bytes_owned s i) (ht_bytes s)))\<rparr>"

definition set_phase_of :: "req_id \<Rightarrow> pool \<Rightarrow> req_phase \<Rightarrow> http_state \<Rightarrow> http_state" where
  "set_phase_of r p ph s = s\<lparr>ht_requests := (r, p, ph) # filter (\<lambda>(q, _). q \<noteq> r) (ht_requests s)\<rparr>"

section \<open>Steps\<close>

definition server_busy :: api_error where
  "server_busy = \<lparr>ae_status = 503, ae_body = error_body ''server busy''\<rparr>"

definition admit :: "req_id \<Rightarrow> string \<Rightarrow> http_state \<Rightarrow> api_error + http_state" where
  "admit r path s = (let p = pool_of_path path in
     if ht_slots s p = 0 then Inl server_busy
     else Inr (set_phase_of r p (if path = ''/api/telemetry'' then Waiting else Running)
       (s\<lparr>ht_slots := (ht_slots s)(p := ht_slots s p - 1)\<rparr>)))"

text \<open>\<open>encode\<close>: the capped text, then permits for its bytes.\<close>

definition encode_bytes :: "string list \<times> bool \<Rightarrow> http_state \<Rightarrow> api_error + bytes_id \<times> http_state" where
  "encode_bytes pieces s = rbind (serialize pieces) (\<lambda>w. let n = length w; i = ht_next s in
     if n \<le> ht_free s
     then Inr (i, s\<lparr>ht_free := ht_free s - n, ht_bytes := (i, n) # ht_bytes s, ht_next := Suc i\<rparr>)
     else Inl capacity_answer)"

text \<open>The answer of a handler: a body that is not charged, such as an error or a health report, or JSON.\<close>

definition send_json :: "req_id \<Rightarrow> pool \<Rightarrow> string list \<times> bool \<Rightarrow> http_state \<Rightarrow> http_state" where
  "send_json r p pieces s = (case encode_bytes pieces s of
       Inl _ \<Rightarrow> set_phase_of r p (Sending None) s
     | Inr (i, s') \<Rightarrow> set_phase_of r p (Sending (Some i)) s')"

text \<open>The telemetry route under its mutex: a fresh snapshot is shared, and any other is dropped first.\<close>

definition telemetry_lock :: "req_id \<Rightarrow> pool \<Rightarrow> int \<Rightarrow> http_state \<Rightarrow> http_state" where
  "telemetry_lock r p now s = (case ht_payload s of
       Some (expires, i) \<Rightarrow> if now < expires then set_phase_of r p (Sending (Some i)) s
         else release_bytes (set_phase_of r p Building (s\<lparr>ht_payload := None\<rparr>))
     | None \<Rightarrow> set_phase_of r p Building s)"

definition telemetry_store :: "req_id \<Rightarrow> pool \<Rightarrow> int \<Rightarrow> api_error + string list \<times> bool \<Rightarrow> http_state \<Rightarrow> http_state" where
  "telemetry_store r p now built s = (case rbind built (\<lambda>pieces. encode_bytes pieces s) of
       Inl _ \<Rightarrow> set_phase_of r p (Sending None) s
     | Inr (i, s') \<Rightarrow> release_bytes (set_phase_of r p (Sending (Some i)) (s'\<lparr>ht_payload := Some (now + 10 ^ 9, i)\<rparr>)))"

datatype http_event =
    Arrive req_id string
  | Plain req_id
  | Answer req_id "string list \<times> bool"
  | TelemetryLock req_id int
  | Built req_id int "api_error + string list \<times> bool"
  | TimedOut req_id
  | Dropped req_id

definition lock_taken :: "http_state \<Rightarrow> bool" where
  "lock_taken s \<longleftrightarrow> list_ex (\<lambda>(_, _, ph). ph = Building) (ht_requests s)"

fun http_step :: "http_event \<Rightarrow> http_state \<Rightarrow> http_state option" where
  "http_step (Arrive r path) s = (if r \<in> fst ` set (ht_requests s) then None
     else case admit r path s of Inl _ \<Rightarrow> Some s | Inr s' \<Rightarrow> Some s')"
| "http_step (Plain r) s = (case map_of (ht_requests s) r of
     Some (p, Running) \<Rightarrow> Some (set_phase_of r p (Sending None) s)
   | Some (p, Waiting) \<Rightarrow> Some (set_phase_of r p (Sending None) s) | _ \<Rightarrow> None)"
| "http_step (Answer r pieces) s = (case map_of (ht_requests s) r of
     Some (p, Running) \<Rightarrow> Some (send_json r p pieces s) | _ \<Rightarrow> None)"
| "http_step (TelemetryLock r now) s = (case map_of (ht_requests s) r of
     Some (p, Waiting) \<Rightarrow> if lock_taken s then None else Some (telemetry_lock r p now s) | _ \<Rightarrow> None)"
| "http_step (Built r now built) s = (case map_of (ht_requests s) r of
     Some (p, Building) \<Rightarrow> Some (telemetry_store r p now built s) | _ \<Rightarrow> None)"
| "http_step (TimedOut r) s = (case map_of (ht_requests s) r of
     None \<Rightarrow> None | Some (p, Sending _) \<Rightarrow> None
   | Some (p, _) \<Rightarrow> Some (set_phase_of r p (Sending None) s))"
| "http_step (Dropped r) s = (case map_of (ht_requests s) r of None \<Rightarrow> None
   | Some (p, _) \<Rightarrow> Some (release_bytes (s\<lparr>ht_requests := filter (\<lambda>(q, _). q \<noteq> r) (ht_requests s),
       ht_slots := (ht_slots s)(p := Suc (ht_slots s p))\<rparr>)))"

fun http_run :: "http_event list \<Rightarrow> http_state \<Rightarrow> http_state option" where
  "http_run [] s = Some s"
| "http_run (e # es) s = (case http_step e s of None \<Rightarrow> None | Some s' \<Rightarrow> http_run es s')"

section \<open>The invariant\<close>

definition requests_in :: "pool \<Rightarrow> http_state \<Rightarrow> nat" where
  "requests_in p s = length (filter (\<lambda>(_, q, _). q = p) (ht_requests s))"

definition requests_ok :: "http_state \<Rightarrow> bool" where
  "requests_ok s \<longleftrightarrow> distinct (map fst (ht_requests s)) \<and> (\<forall>p. ht_slots s p + requests_in p s = pool_slots p)
     \<and> length (filter (\<lambda>(_, _, ph). ph = Building) (ht_requests s)) \<le> 1"

definition bytes_ok :: "http_state \<Rightarrow> bool" where
  "bytes_ok s \<longleftrightarrow> distinct (map fst (ht_bytes s)) \<and> (\<forall>i\<in>fst ` set (ht_bytes s). i < ht_next s)
     \<and> ht_free s + sum_list (map snd (ht_bytes s)) = BYTES \<and> fst ` set (ht_bytes s) = Collect (bytes_owned s)"

text \<open>Taking the one entry of a key out of a list.\<close>

lemma without_absent: "r \<notin> fst ` set xs \<Longrightarrow> filter (\<lambda>(a, _). a \<noteq> r) xs = xs"
  by (force simp: filter_id_conv)

lemma count_without:
  assumes "distinct (map fst xs)" "map_of xs r = Some v"
  shows "length (filter P xs) = length (filter P (filter (\<lambda>(a, _). a \<noteq> r) xs)) + (if P (r, v) then 1 else 0)"
  using assms
proof (induction xs)
  case (Cons x xs)
  show ?case
  proof (cases "fst x = r")
    case True
    with Cons.prems(1) have "filter (\<lambda>(a, _). a \<noteq> r) xs = xs" by (intro without_absent) simp
    then show ?thesis using Cons.prems(2) True by (cases x) auto
  next
    case False
    then show ?thesis using Cons by (cases x) auto
  qed
qed simp

lemma distinct_without: "distinct (map fst xs) \<Longrightarrow> distinct (map fst (filter (\<lambda>(a, _). a \<noteq> r) xs))"
  by (simp add: distinct_map_filter)

lemma keys_without: "fst ` set (filter (\<lambda>(a, _). a \<noteq> r) xs) = fst ` set xs - {r}"
  by force

lemma absent_without [simp]: "r \<notin> set (map fst (filter (\<lambda>(a, _). a \<noteq> r) xs))"
  by auto

lemma set_phase_fields [simp]:
  "ht_slots (set_phase_of r p ph s) = ht_slots s" "ht_free (set_phase_of r p ph s) = ht_free s"
  "ht_bytes (set_phase_of r p ph s) = ht_bytes s" "ht_payload (set_phase_of r p ph s) = ht_payload s"
  "ht_next (set_phase_of r p ph s) = ht_next s"
  by (simp_all add: set_phase_of_def)

lemma release_fields [simp]:
  "ht_slots (release_bytes s) = ht_slots s" "ht_requests (release_bytes s) = ht_requests s"
  "ht_payload (release_bytes s) = ht_payload s" "ht_next (release_bytes s) = ht_next s"
  "bytes_owned (release_bytes s) = bytes_owned s"
  by (simp_all add: release_bytes_def bytes_owned_def fun_eq_iff)

text \<open>Requests: a phase changes no pool, and only an untaken lock can be taken.\<close>

lemma requests_release [simp]: "requests_ok (release_bytes s) = requests_ok s"
  by (simp add: requests_ok_def requests_in_def)

lemma requests_set_phase:
  assumes "requests_ok s" "map_of (ht_requests s) r = Some (p, ph)" "ph' = Building \<longrightarrow> \<not> lock_taken s"
  shows "requests_ok (set_phase_of r p ph' s)"
proof -
  have d: "distinct (map fst (ht_requests s))" using assms(1) by (simp add: requests_ok_def)
  note c = count_without [OF d assms(2)]
  have "requests_in q (set_phase_of r p ph' s) = requests_in q s" for q
    using c [of "\<lambda>(_, x, _). x = q"] by (simp add: requests_in_def set_phase_of_def)
  moreover have "length (filter (\<lambda>(_, _, x). x = Building) (ht_requests (set_phase_of r p ph' s))) \<le> 1"
    using c [of "\<lambda>(_, _, x). x = Building"] assms(1,3)
    by (auto simp: set_phase_of_def requests_ok_def lock_taken_def list_ex_iff filter_empty_conv)
  ultimately show ?thesis
    using assms(1) distinct_without [OF d, of r] absent_without [of r "ht_requests s"]
    by (simp add: requests_ok_def set_phase_of_def del: set_map)
qed

lemma requests_same:
  "requests_ok s \<Longrightarrow> ht_requests s' = ht_requests s \<Longrightarrow> ht_slots s' = ht_slots s \<Longrightarrow> requests_ok s'"
  by (simp add: requests_ok_def requests_in_def)

lemma requests_admit:
  assumes "requests_ok s" "r \<notin> fst ` set (ht_requests s)" "admit r path s = Inr s'"
  shows "requests_ok s'"
proof -
  have "filter (\<lambda>(a, _). a \<noteq> r) (ht_requests s) = ht_requests s" by (rule without_absent [OF assms(2)])
  moreover have "ht_slots s (pool_of_path path) \<noteq> 0" using assms(3) by (auto simp: admit_def Let_def split: if_splits)
  ultimately show ?thesis
    using assms by (auto simp: admit_def Let_def set_phase_of_def requests_ok_def requests_in_def split: if_splits)
qed

lemma requests_drop:
  assumes "requests_ok s" "map_of (ht_requests s) r = Some (p, ph)"
  shows "requests_ok (s\<lparr>ht_requests := filter (\<lambda>(q, _). q \<noteq> r) (ht_requests s), ht_slots := (ht_slots s)(p := Suc (ht_slots s p))\<rparr>)"
proof -
  have d: "distinct (map fst (ht_requests s))" using assms(1) by (simp add: requests_ok_def)
  note c = count_without [OF d assms(2)]
  let ?s = "s\<lparr>ht_requests := filter (\<lambda>(q, _). q \<noteq> r) (ht_requests s), ht_slots := (ht_slots s)(p := Suc (ht_slots s p))\<rparr>"
  have flight: "requests_in q s = requests_in q ?s + (if p = q then 1 else 0)" for q
    using c [of "\<lambda>(_, x, _). x = q"] by (simp add: requests_in_def)
  have pool: "ht_slots s q + requests_in q s = pool_slots q" for q using assms(1) by (simp add: requests_ok_def)
  have "ht_slots ?s q + requests_in q ?s = pool_slots q" for q using flight [of q] pool [of q] by (cases "p = q") simp_all
  moreover have "length (filter (\<lambda>(_, _, ph). ph = Building) (ht_requests ?s)) \<le> 1"
    using c [of "\<lambda>(_, _, x). x = Building"] assms(1) by (simp add: requests_ok_def)
  ultimately show ?thesis using distinct_without [OF d, of r] by (simp add: requests_ok_def)
qed

text \<open>Bytes: what is owned is charged, and a release keeps nothing else.\<close>

definition bytes_pre :: "http_state \<Rightarrow> bool" where
  "bytes_pre s \<longleftrightarrow> distinct (map fst (ht_bytes s)) \<and> (\<forall>i\<in>fst ` set (ht_bytes s). i < ht_next s)
     \<and> ht_free s + sum_list (map snd (ht_bytes s)) = BYTES \<and> Collect (bytes_owned s) \<subseteq> fst ` set (ht_bytes s)"

lemma bytes_pre_ok: "bytes_ok s \<Longrightarrow> bytes_pre s"
  unfolding bytes_ok_def bytes_pre_def by blast

lemma bytes_same:
  assumes "bytes_ok s" "ht_bytes s' = ht_bytes s" "ht_free s' = ht_free s" "ht_next s' = ht_next s" "bytes_owned s' = bytes_owned s"
  shows "bytes_ok s'"
  using assms(1) unfolding bytes_ok_def assms(2-5) .

lemma bytes_fewer:
  assumes "bytes_ok s" "ht_bytes s' = ht_bytes s" "ht_free s' = ht_free s" "ht_next s' = ht_next s"
    and "Collect (bytes_owned s') \<subseteq> Collect (bytes_owned s)"
  shows "bytes_pre s'"
  using bytes_pre_ok [OF assms(1)] assms(5) unfolding bytes_pre_def assms(2-4) by blast

lemma sum_list_split: "sum_list (map f (filter P xs)) + sum_list (map f (filter (\<lambda>x. \<not> P x) xs)) = sum_list (map f xs)" for f :: "'a \<Rightarrow> nat"
  by (induction xs) auto

lemma release_bytes_ok:
  assumes "bytes_pre s"
  shows "bytes_ok (release_bytes s)"
proof -
  have "ht_free (release_bytes s) + sum_list (map snd (ht_bytes (release_bytes s))) = BYTES"
    using assms sum_list_split [of snd "\<lambda>x. bytes_owned s (fst x)" "ht_bytes s"]
    unfolding release_bytes_def bytes_pre_def case_prod_unfold by simp
  moreover have "fst ` set (ht_bytes (release_bytes s)) = Collect (bytes_owned s)"
    using assms by (force simp: release_bytes_def bytes_pre_def)
  moreover have "distinct (map fst (ht_bytes (release_bytes s)))"
    using assms by (simp add: release_bytes_def bytes_pre_def distinct_map_filter)
  moreover have "\<forall>i\<in>fst ` set (ht_bytes (release_bytes s)). i < ht_next s"
    using assms by (auto simp: release_bytes_def bytes_pre_def)
  ultimately show ?thesis unfolding bytes_ok_def by simp
qed

primrec charges :: "req_phase \<Rightarrow> bool" where
  "charges Running = False" | "charges Waiting = False" | "charges Building = False" | "charges (Sending b) = (b \<noteq> None)"

lemma owned_without:
  assumes "distinct (map fst xs)" "map_of xs r = Some (p, ph)" "\<not> charges ph"
  shows "list_ex (\<lambda>(_, _, x). x = Sending (Some i)) (filter (\<lambda>(a, _). a \<noteq> r) xs) = list_ex (\<lambda>(_, _, x). x = Sending (Some i)) xs"
proof -
  have "v = (p, ph)" if "(r, v) \<in> set xs" for v
    using that assms(1,2) by (metis map_of_is_SomeI option.inject)
  then show ?thesis using assms(3) by (fastforce simp: list_ex_iff)
qed

lemma owned_set_phase:
  assumes "requests_ok s" "map_of (ht_requests s) r = Some (p, ph)" "\<not> charges ph"
  shows "bytes_owned (set_phase_of r p ph' s) i = (bytes_owned s i \<or> ph' = Sending (Some i))"
  using owned_without [of "ht_requests s" r p ph i] assms
  by (auto simp: bytes_owned_def set_phase_of_def requests_ok_def)

lemma bytes_set_phase:
  assumes "requests_ok s" "map_of (ht_requests s) r = Some (p, ph)" "\<not> charges ph"
    and "bytes_ok s" "\<And>i. ph' = Sending (Some i) \<Longrightarrow> bytes_owned s i"
  shows "bytes_ok (set_phase_of r p ph' s)"
proof -
  have "bytes_owned (set_phase_of r p ph' s) = bytes_owned s"
    using owned_set_phase [OF assms(1-3), of ph'] assms(5) by (auto simp: fun_eq_iff)
  then show ?thesis by (intro bytes_same [OF assms(4)]) simp_all
qed

lemma encode_fields:
  assumes "encode_bytes pieces s = Inr (i, s')"
  shows "ht_requests s' = ht_requests s" "ht_slots s' = ht_slots s" "ht_payload s' = ht_payload s" "i = ht_next s"
    and "bytes_owned s' = bytes_owned s"
  using assms by (auto simp: encode_bytes_def rbind_Inr Let_def bytes_owned_def fun_eq_iff split: if_splits)

lemma encode_charged:
  assumes "bytes_ok s" "encode_bytes pieces s = Inr (i, s')"
  shows "distinct (map fst (ht_bytes s'))" "\<forall>j\<in>fst ` set (ht_bytes s'). j < ht_next s'"
    and "ht_free s' + sum_list (map snd (ht_bytes s')) = BYTES" "fst ` set (ht_bytes s') = insert i (Collect (bytes_owned s))"
proof -
  obtain n where n: "n \<le> ht_free s" "i = ht_next s"
    "s' = s\<lparr>ht_free := ht_free s - n, ht_bytes := (i, n) # ht_bytes s, ht_next := Suc i\<rparr>"
    using assms(2) by (auto simp: encode_bytes_def rbind_Inr Let_def split: if_splits)
  have b: "distinct (map fst (ht_bytes s))" "\<forall>i\<in>fst ` set (ht_bytes s). i < ht_next s"
    "ht_free s + sum_list (map snd (ht_bytes s)) = BYTES" "fst ` set (ht_bytes s) = Collect (bytes_owned s)"
    using assms(1) unfolding bytes_ok_def by blast+
  show "distinct (map fst (ht_bytes s'))" using b(1,2) n(2,3) by force
  show "\<forall>j\<in>fst ` set (ht_bytes s'). j < ht_next s'" using b(2) n(2,3) by (auto intro: less_SucI)
  show "ht_free s' + sum_list (map snd (ht_bytes s')) = BYTES" using b(3) n(1,3) by simp
  show "fst ` set (ht_bytes s') = insert i (Collect (bytes_owned s))" using b(4) n(3) by simp
qed

section \<open>Every step keeps it\<close>

definition http_inv :: "http_state \<Rightarrow> bool" where
  "http_inv s \<longleftrightarrow> requests_ok s \<and> bytes_ok s"

lemma start_inv: "http_inv http_start"
  by (simp add: http_inv_def http_start_def requests_ok_def requests_in_def bytes_ok_def bytes_owned_def)

lemma send_json_inv:
  assumes "http_inv s" "map_of (ht_requests s) r = Some (p, Running)"
  shows "http_inv (send_json r p pieces s)"
proof (cases "encode_bytes pieces s")
  case (Inl e)
  then show ?thesis
    using assms requests_set_phase [of s r p Running "Sending None"] bytes_set_phase [of s r p Running "Sending None"]
    by (simp add: send_json_def http_inv_def)
next
  case (Inr x)
  obtain i s' where x: "x = (i, s')" by (cases x)
  note e = encode_fields [OF Inr [unfolded x]]
  have ok: "requests_ok s'" and m: "map_of (ht_requests s') r = Some (p, Running)"
    using assms requests_same [of s s'] e by (simp_all add: http_inv_def)
  have "bytes_ok s" using assms(1) by (simp add: http_inv_def)
  note c = encode_charged [OF this Inr [unfolded x]]
  have own: "Collect (bytes_owned (set_phase_of r p (Sending (Some i)) s')) = insert i (Collect (bytes_owned s))"
    using owned_set_phase [OF ok m, of "Sending (Some i)"] e(5) by auto
  have "bytes_ok (set_phase_of r p (Sending (Some i)) s')"
    unfolding bytes_ok_def set_phase_fields by (intro conjI c(1-3)) (simp only: c(4) own)
  then show ?thesis
    using requests_set_phase [OF ok m, of "Sending (Some i)"] by (simp add: send_json_def Inr x http_inv_def)
qed

lemma telemetry_lock_inv:
  assumes "http_inv s" "map_of (ht_requests s) r = Some (p, Waiting)" "\<not> lock_taken s"
  shows "http_inv (telemetry_lock r p now s)"
proof -
  have ok: "requests_ok s" and b: "bytes_ok s" using assms(1) by (simp_all add: http_inv_def)
  have share: "bytes_ok (set_phase_of r p (Sending (Some i)) s)" if "ht_payload s = Some (t, i)" for t i
    using bytes_set_phase [OF ok assms(2) _ b, of "Sending (Some i)"] that by (simp add: bytes_owned_def)
  have fresh: "bytes_ok (set_phase_of r p Building s)"
    using bytes_set_phase [OF ok assms(2) _ b, of Building] by simp
  let ?t = "s\<lparr>ht_payload := None\<rparr>"
  have okt: "requests_ok ?t" "map_of (ht_requests ?t) r = Some (p, Waiting)" "\<not> lock_taken ?t"
    using requests_same [OF ok, of ?t] assms(2,3) by (simp_all add: lock_taken_def)
  have "Collect (bytes_owned (set_phase_of r p Building ?t)) \<subseteq> Collect (bytes_owned s)"
    using owned_set_phase [OF okt(1,2), of Building] by (auto simp: bytes_owned_def)
  then have "bytes_pre (set_phase_of r p Building ?t)"
    by (intro bytes_fewer [OF b]) simp_all
  then have dropped: "http_inv (release_bytes (set_phase_of r p Building ?t))"
    using requests_set_phase [OF okt(1,2), of Building] okt(3) by (simp add: http_inv_def release_bytes_ok)
  show ?thesis
  proof (cases "ht_payload s")
    case None
    then show ?thesis
      using fresh requests_set_phase [OF ok assms(2), of Building] assms(3) by (simp add: telemetry_lock_def http_inv_def)
  next
    case (Some x)
    obtain t i where x: "x = (t, i)" by (cases x)
    have "http_inv (set_phase_of r p (Sending (Some i)) s)"
      using share Some x requests_set_phase [OF ok assms(2), of "Sending (Some i)"] by (simp add: http_inv_def)
    then show ?thesis using dropped by (simp add: telemetry_lock_def Some x)
  qed
qed

lemma telemetry_store_inv:
  assumes "http_inv s" "map_of (ht_requests s) r = Some (p, Building)"
  shows "http_inv (telemetry_store r p now built s)"
proof (cases "rbind built (\<lambda>pieces. encode_bytes pieces s)")
  case (Inl e)
  then show ?thesis
    using assms requests_set_phase [of s r p Building "Sending None"] bytes_set_phase [of s r p Building "Sending None"]
    by (simp add: telemetry_store_def http_inv_def)
next
  case (Inr x)
  obtain i s' where x: "x = (i, s')" by (cases x)
  obtain pieces where enc: "encode_bytes pieces s = Inr (i, s')" using Inr x by (auto simp: rbind_Inr)
  note e = encode_fields [OF enc]
  let ?t = "s'\<lparr>ht_payload := Some (now + 10 ^ 9, i)\<rparr>"
  have ok: "requests_ok ?t" and m: "map_of (ht_requests ?t) r = Some (p, Building)"
    using assms requests_same [of s ?t] e by (simp_all add: http_inv_def)
  have "bytes_ok s" using assms(1) by (simp add: http_inv_def)
  note c = encode_charged [OF this enc]
  have "bytes_owned ?t j \<Longrightarrow> bytes_owned s j \<or> j = i" for j using e(1) by (auto simp: bytes_owned_def)
  then have "Collect (bytes_owned (set_phase_of r p (Sending (Some i)) ?t)) \<subseteq> insert i (Collect (bytes_owned s))"
    using owned_set_phase [OF ok m, of "Sending (Some i)"] by auto
  then have "Collect (bytes_owned (set_phase_of r p (Sending (Some i)) ?t)) \<subseteq> fst ` set (ht_bytes s')" using c(4) by simp
  moreover have "\<forall>j\<in>fst ` set (ht_bytes ?t). j < ht_next ?t" using c(2) by simp
  ultimately have "bytes_pre (set_phase_of r p (Sending (Some i)) ?t)"
    unfolding bytes_pre_def set_phase_fields using c(1,3) by simp
  then show ?thesis
    using requests_set_phase [OF ok m, of "Sending (Some i)"] Inr x
    by (simp add: telemetry_store_def http_inv_def release_bytes_ok)
qed

lemma http_step_inv:
  assumes "http_step e s = Some s'" "http_inv s"
  shows "http_inv s'"
proof -
  have ok: "requests_ok s" and b: "bytes_ok s" using assms(2) by (simp_all add: http_inv_def)
  have answered: "http_inv (set_phase_of r p (Sending None) s)" if "map_of (ht_requests s) r = Some (p, ph)" "\<not> charges ph" for r p ph
    using requests_set_phase [OF ok that(1), of "Sending None"] bytes_set_phase [OF ok that b, of "Sending None"]
    by (simp add: http_inv_def)
  show ?thesis
  proof (cases e)
    case (Arrive r path)
    show ?thesis
    proof (cases "admit r path s")
      case (Inr t)
      have r: "r \<notin> fst ` set (ht_requests s)" and t: "s' = t" using assms(1) Arrive Inr by (auto split: if_splits)
      have "bytes_owned t = bytes_owned s" "ht_bytes t = ht_bytes s" "ht_free t = ht_free s" "ht_next t = ht_next s"
        using Inr without_absent [OF r] by (auto simp: admit_def Let_def bytes_owned_def set_phase_of_def fun_eq_iff split: if_splits)
      then show ?thesis using bytes_same [OF b] requests_admit [OF ok r Inr] by (simp add: http_inv_def t)
    qed (use assms Arrive in \<open>auto split: if_splits\<close>)
  next
    case (Plain r)
    then show ?thesis using assms(1) answered [of r] by (auto split: option.splits req_phase.splits)
  next
    case (Answer r pieces)
    then show ?thesis using assms(1) send_json_inv [OF assms(2)]
      by (cases pieces) (auto split: option.splits req_phase.splits)
  next
    case (TelemetryLock r now)
    then show ?thesis using assms(1) telemetry_lock_inv [OF assms(2)] by (auto split: option.splits req_phase.splits if_splits)
  next
    case (Built r now built)
    then show ?thesis using assms(1) telemetry_store_inv [OF assms(2)] by (auto split: option.splits req_phase.splits)
  next
    case (TimedOut r)
    then show ?thesis using assms(1) answered [of r] by (auto split: option.splits req_phase.splits)
  next
    case (Dropped r)
    then obtain p ph where m: "map_of (ht_requests s) r = Some (p, ph)" using assms(1) by (auto split: option.splits)
    let ?t = "s\<lparr>ht_requests := filter (\<lambda>(q, _). q \<noteq> r) (ht_requests s), ht_slots := (ht_slots s)(p := Suc (ht_slots s p))\<rparr>"
    have "Collect (bytes_owned ?t) \<subseteq> Collect (bytes_owned s)" by (force simp: bytes_owned_def list_ex_iff)
    then have "bytes_pre ?t" by (intro bytes_fewer [OF b]) simp_all
    moreover have "s' = release_bytes ?t" using assms(1) Dropped m by simp
    ultimately show ?thesis using requests_drop [OF ok m] by (simp add: http_inv_def release_bytes_ok)
  qed
qed

lemma http_run_inv: "http_run es s = Some s' \<Longrightarrow> http_inv s \<Longrightarrow> http_inv s'"
  by (induction es s rule: http_run.induct) (auto dest: http_step_inv split: option.splits)

section \<open>Properties\<close>

lemma admit_refuses: "(admit r path s = Inl e) = (e = server_busy \<and> ht_slots s (pool_of_path path) = 0)"
  by (auto simp: admit_def Let_def)

text \<open>
  C22. However requests, answers, time-outs and dropped bodies interleave: no pool has more requests in flight
  than its slots, and a request is refused as busy exactly when its own pool is full, so that a health request is
  refused only while two others are in flight; the permits in use are exactly those of the bytes that the
  snapshot or a body being sent owns, at most 2 MiB; and at most one request builds a snapshot.
\<close>

theorem http_bounded:
  assumes "http_run events http_start = Some s"
  shows "requests_in p s \<le> pool_slots p
    \<and> (admit r path s = Inl server_busy) = (requests_in (pool_of_path path) s = pool_slots (pool_of_path path))
    \<and> ht_free s + sum_list (map snd (ht_bytes s)) = BYTES \<and> fst ` set (ht_bytes s) = Collect (bytes_owned s)
    \<and> length (filter (\<lambda>(_, _, ph). ph = Building) (ht_requests s)) \<le> 1"
proof -
  have inv: "requests_ok s" "bytes_ok s" using http_run_inv [OF assms start_inv] by (simp_all add: http_inv_def)
  have pools: "ht_slots s q + requests_in q s = pool_slots q" for q using inv(1) by (simp add: requests_ok_def)
  have "requests_in p s \<le> pool_slots p" using pools [of p] by linarith
  moreover have "(admit r path s = Inl server_busy) = (requests_in (pool_of_path path) s = pool_slots (pool_of_path path))"
    using pools [of "pool_of_path path"] by (auto simp: admit_refuses)
  ultimately show ?thesis using inv unfolding requests_ok_def bytes_ok_def by blast
qed

definition demo_http_events :: "http_event list" where
  "demo_http_events = [Arrive 1 ''/api/telemetry'', TelemetryLock 1 0, Built 1 5 (Inr ([''abc''], True)),
     Arrive 2 ''/api/health'', Plain 2, Arrive 3 ''/api/live'', Arrive 4 ''/api/health'', Dropped 1]"

text \<open>C22 for a snapshot that stays cached after its body is sent, and two health requests that refuse a third.\<close>

theorem http_bounded_witness:
  "\<exists>s. http_run demo_http_events http_start = Some s \<and> requests_in HealthPool s = 2
     \<and> admit 5 ''/api/live'' s = Inl server_busy \<and> ht_free s + sum_list (map snd (ht_bytes s)) = BYTES \<and> ht_free s = BYTES - 3"
proof -
  obtain s where run: "http_run demo_http_events http_start = Some s" and two: "requests_in HealthPool s = 2" and free: "ht_free s = BYTES - 3"
    by (simp add: demo_http_events_def http_start_def admit_def pool_of_path_def prefix_of_def suffix_of_def set_phase_of_def
        lock_taken_def telemetry_lock_def telemetry_store_def encode_bytes_def serialize_def BYTES_def requests_in_def
        release_bytes_def bytes_owned_def Let_def)
  have "pool_of_path ''/api/live'' = HealthPool" by (simp add: pool_of_path_def)
  then show ?thesis using http_bounded [OF run, of HealthPool 5 "''/api/live''"] run two free by auto
qed

text \<open>
  An expired snapshot keeps its permits until the telemetry route is asked again: with one of n bytes cached,
  whatever else happens and however long, an answer of more than 2 MiB less n is refused.
\<close>

primrec no_telemetry :: "http_event \<Rightarrow> bool" where
  "no_telemetry (Arrive _ _) = True" | "no_telemetry (Plain _) = True" | "no_telemetry (Answer _ _) = True" | "no_telemetry (TelemetryLock _ _) = False"
| "no_telemetry (Built _ _ _) = False" | "no_telemetry (TimedOut _) = True" | "no_telemetry (Dropped _) = True"

lemma no_telemetry_step:
  assumes "http_step e s = Some s'" "no_telemetry e" "ht_payload s = Some (t, i)" "(i, n) \<in> set (ht_bytes s)"
  shows "ht_payload s' = Some (t, i) \<and> (i, n) \<in> set (ht_bytes s')"
proof (cases e)
  case (Answer r pieces)
  then obtain p where s': "s' = send_json r p pieces s" using assms(1) by (cases pieces) (auto split: option.splits req_phase.splits)
  show ?thesis
  proof (cases "encode_bytes pieces s")
    case (Inr x)
    then show ?thesis
      using assms(3,4) by (cases x) (auto simp: s' send_json_def encode_bytes_def rbind_Inr Let_def split: if_splits)
  qed (use assms(3,4) in \<open>simp add: s' send_json_def\<close>)
next
  case (Dropped r)
  then show ?thesis
    using assms(1,3,4) by (auto simp: release_bytes_def bytes_owned_def split: option.splits)
qed (use assms in \<open>auto simp: admit_def Let_def split: option.splits req_phase.splits if_splits\<close>)

lemma no_telemetry_run:
  "http_run es s = Some s' \<Longrightarrow> list_all no_telemetry es \<Longrightarrow> ht_payload s = Some (t, i) \<Longrightarrow> (i, n) \<in> set (ht_bytes s)
    \<Longrightarrow> (i, n) \<in> set (ht_bytes s')"
  by (induction es s rule: http_run.induct) (auto dest: no_telemetry_step split: option.splits)

theorem expired_snapshot_keeps_permits:
  assumes "http_run events http_start = Some s" "ht_payload s = Some (t, i)" "(i, n) \<in> set (ht_bytes s)"
    and "http_run later s = Some s'" "list_all no_telemetry later" "BYTES < n + length (concat bs)"
  shows "encode_bytes (bs, True) s' = Inl capacity_answer"
proof -
  have "ht_free s' + sum_list (map snd (ht_bytes s')) = BYTES"
    using http_run_inv [OF assms(4) http_run_inv [OF assms(1) start_inv]] by (simp add: http_inv_def bytes_ok_def)
  moreover have "n \<le> sum_list (map snd (ht_bytes s'))"
    using no_telemetry_run [OF assms(4,5,2,3)] by (force intro: member_le_sum_list)
  ultimately have "\<not> length (concat bs) \<le> ht_free s'" using assms(6) by linarith
  then show ?thesis
    using capped_write_exact [of "[]" bs] by (auto simp: encode_bytes_def serialize_def rbind_def Let_def split: sum.splits)
qed

end
