(* ===== verification/Http_Documents.thy ===== *)
theory Http_Documents
  imports Http_Budget Lifecycle Miner_Service
begin

text \<open>
  The documents the HTTP API assembles: the telemetry snapshot (\<open>http/telemetry.rs\<close>), the live view of a peer and
  the attempts of a solution (\<open>http/routes.rs\<close>). What the database reads return and how values become JSON are
  arguments, since the reads run at different moments. Times are nanoseconds.
\<close>

section \<open>Telemetry\<close>

record babe_authority_record =
  ba_account_id :: string
  ba_display_name :: "string option"

record validator_authorship_record =
  va_account_id :: string
  va_blocks_authored :: u64
  va_blocks_authored_with_pow :: u64
  va_last_authored_block :: "decimal_string option"
  va_last_authored_at :: "string option"
  va_online :: bool

record chain_miner_view = chain_miner_record +
  cm_telemetry_node_address :: "string option"
  cm_hardware :: "hardware_record option"

record telemetry_reads =
  tr_self_address :: "string option"
  tr_indexer :: "observability option"
  tr_chain_head :: "chain_head_record option"
  tr_babe_epoch :: "babe_epoch_state option"
  tr_babe_authorities :: "babe_authority_record list"
  tr_chain_miners :: "chain_miner_view list"
  tr_recent_difficulty :: "difficulty_record list"
  tr_hardware :: "hardware_record list"
  tr_authorship :: "validator_authorship_record list"
  tr_mineable_topologies :: "topology_record list"

text \<open>The second reads, for an account, and what the process knows: its operator, its clock and its miner.\<close>

record telemetry_env =
  te_submissions :: "string \<Rightarrow> store_error + submission_record list \<times> u64"
  te_operator_account :: "string option"
  te_now :: int
  te_server_time :: string
  te_parse_time :: "string \<Rightarrow> int option"
  te_miner_dispatch :: bool

record telemetry_files =
  tf_qblocks_manifest :: string
  tf_nodes_snapshot :: string
  tf_miner_current_dispatch :: "string option"

record telemetry_response =
  ts_self_address :: "string option"
  ts_indexer :: "observability option"
  ts_server_time :: string
  ts_chain_head :: "chain_head_record option"
  ts_babe_epoch :: "babe_epoch_state option"
  ts_babe_authorities :: "babe_authority_record list"
  ts_chain_miners :: "chain_miner_view list"
  ts_recent_difficulty :: "difficulty_record list"
  ts_mineable_topologies :: "topology_record list"
  ts_validators :: "validator_authorship_record list"
  ts_recent_mining_submissions :: "submission_record list"
  ts_self_problems_attempted :: u64
  ts_files :: telemetry_files
  ts_miner_dispatch :: bool

text \<open>\<open>num_milliseconds\<close> of a duration, which rounds towards zero.\<close>

definition whole_milliseconds :: "int \<Rightarrow> int" where
  "whole_milliseconds d = (if d < 0 then - (- d div 10 ^ 6) else d div 10 ^ 6)"

definition with_hardware :: "hardware_record list \<Rightarrow> chain_miner_view \<Rightarrow> chain_miner_view" where
  "with_hardware rows m =
     (let h = map_of (rev (map (\<lambda>r. (hr_account_id r, r)) rows)) (cm_account_id m)
      in m\<lparr>cm_hardware := h, cm_telemetry_node_address := map_option hr_node_id h\<rparr>)"

definition validator_of :: "telemetry_env \<Rightarrow> validator_authorship_record list \<Rightarrow> babe_authority_record \<Rightarrow> validator_authorship_record" where
  "validator_of env rows a =
     (let stats = find (\<lambda>r. va_account_id r = ba_account_id a) rows;
          last = Option.bind stats va_last_authored_at;
          online = (case Option.bind last (te_parse_time env) of None \<Rightarrow> False
            | Some t \<Rightarrow> whole_milliseconds (te_now env - t) < 180000)
      in \<lparr>va_account_id = ba_account_id a,
          va_blocks_authored = (case stats of None \<Rightarrow> 0 | Some r \<Rightarrow> va_blocks_authored r),
          va_blocks_authored_with_pow = (case stats of None \<Rightarrow> 0 | Some r \<Rightarrow> va_blocks_authored_with_pow r),
          va_last_authored_block = Option.bind stats va_last_authored_block,
          va_last_authored_at = last, va_online = online\<rparr>)"

definition of_default_topology :: "topology_record list \<Rightarrow> difficulty_record list \<Rightarrow> difficulty_record list" where
  "of_default_topology topologies rows = (case find tp_is_default topologies of
       None \<Rightarrow> rows
     | Some t \<Rightarrow> filter (\<lambda>r. dr_topology_hash r = Some (tp_topology_hash t)) rows)"

definition miner_dispatch_url :: "string option \<Rightarrow> string option" where
  "miner_dispatch_url acct = map_option (\<lambda>a. ''/files/miners/'' @ a @ ''/current-dispatch.json'') acct"

definition build_telemetry :: "telemetry_env \<Rightarrow> store_error + telemetry_reads \<Rightarrow> api_error + telemetry_response" where
  "build_telemetry env reads = (case reads of Inl e \<Rightarrow> Inl (store_answer e) | Inr r \<Rightarrow>
     (let self = (case tr_self_address r of Some a \<Rightarrow> Some a | None \<Rightarrow> te_operator_account env)
      in case (case self of Some a \<Rightarrow> te_submissions env a | None \<Rightarrow> Inr ([], 0)) of
        Inl e \<Rightarrow> Inl (store_answer e)
      | Inr (submissions, attempted) \<Rightarrow> Inr
         \<lparr>ts_self_address = self, ts_indexer = tr_indexer r, ts_server_time = te_server_time env,
          ts_chain_head = tr_chain_head r, ts_babe_epoch = tr_babe_epoch r, ts_babe_authorities = tr_babe_authorities r,
          ts_chain_miners = map (with_hardware (tr_hardware r)) (tr_chain_miners r),
          ts_recent_difficulty = of_default_topology (tr_mineable_topologies r) (tr_recent_difficulty r),
          ts_mineable_topologies = tr_mineable_topologies r,
          ts_validators = map (validator_of env (tr_authorship r)) (tr_babe_authorities r),
          ts_recent_mining_submissions = submissions, ts_self_problems_attempted = attempted,
          ts_files = \<lparr>tf_qblocks_manifest = ''/files/qblocks/metadata.json'',
            tf_nodes_snapshot = ''/files/nodes/snapshot.json'', tf_miner_current_dispatch = miner_dispatch_url self\<rparr>,
          ts_miner_dispatch = te_miner_dispatch env\<rparr>))"

section \<open>Miner routes\<close>

record live_json =
  lj_modes :: "(string \<rightharpoonup> mode_breakdown) \<Rightarrow> json"
  lj_stats :: "miner_stats \<Rightarrow> json"
  lj_dispatch :: "current_dispatch option \<Rightarrow> string + json"

definition live_problem :: "string option \<Rightarrow> int option" where
  "live_problem raw = Option.bind (Option.bind raw positive_integer) (\<lambda>n. i64_try_from (uint n))"

definition node_live :: "live_json \<Rightarrow> string \<Rightarrow> miner_error + node_status \<Rightarrow> miner_error + miner_stats \<Rightarrow> string option
    \<Rightarrow> (int \<Rightarrow> miner_error + current_dispatch option) \<Rightarrow> string \<Rightarrow> api_error + json_map" where
  "node_live lib acct status stats problem dispatch server_time =
     rbind (case status of Inl _ \<Rightarrow> Inr JNull
       | Inr _ \<Rightarrow> (case live_problem problem of None \<Rightarrow> Inr JNull | Some p \<Rightarrow> best_effort (lj_dispatch lib) (dispatch p))) (\<lambda>current.
     Inr [(''accountId'', JString acct), (''currentDispatch'', current), (''fetchedAt'', JString server_time),
       (''minerStats'', case stats of Inl _ \<Rightarrow> JNull | Inr st \<Rightarrow> lj_stats lib st),
       (''modes'', case status of Inl _ \<Rightarrow> JObject [] | Inr st \<Rightarrow> lj_modes lib (ns_modes st)),
       (''reachable'', JBool (\<not> isl stats \<or> \<not> isl status))])"

definition attempts_route :: "(u64 \<Rightarrow> miner_error + mining_attempts_response) \<Rightarrow> string \<Rightarrow> string \<Rightarrow> api_error + mining_attempts_response" where
  "attempts_route local server_time solution = (case positive_integer solution of
       None \<Rightarrow> Inl \<lparr>ae_status = 400, ae_body = error_body ''invalid solution_number''\<rparr>
     | Some q \<Rightarrow> (case local q of Inl e \<Rightarrow> Inl (miner_answer e)
       | Inr r \<Rightarrow> Inr (r\<lparr>mr_submission := (mr_submission r)\<lparr>ms_observed_at := server_time\<rparr>\<rparr>)))"

section \<open>Properties\<close>

lemma whole_milliseconds_less: "(whole_milliseconds d < 180000) = (d < 180 * 10 ^ 9)"
proof (cases "d < 0")
  case True
  then have "0 \<le> - d div 10 ^ 6" by simp
  with True show ?thesis by (simp add: whole_milliseconds_def)
next
  case False
  have "(d div 1000000 < 180000) = (d < 180000000000)" by arith
  with False show ?thesis by (simp add: whole_milliseconds_def)
qed

lemma build_telemetry_Inr:
  assumes "build_telemetry env (Inr r) = Inr t"
  shows "ts_validators t = map (validator_of env (tr_authorship r)) (tr_babe_authorities r)"
    and "ts_chain_miners t = map (with_hardware (tr_hardware r)) (tr_chain_miners r)"
    and "ts_recent_difficulty t = of_default_topology (tr_mineable_topologies r) (tr_recent_difficulty r)"
    and "ts_self_address t = (case tr_self_address r of Some a \<Rightarrow> Some a | None \<Rightarrow> te_operator_account env)"
    and "tf_miner_current_dispatch (ts_files t) = miner_dispatch_url (ts_self_address t)"
  using assms by (auto simp: build_telemetry_def Let_def split: sum.splits)

lemma validator_online:
  "va_online (validator_of env rows a) = (\<exists>x at. va_last_authored_at (validator_of env rows a) = Some x
     \<and> te_parse_time env x = Some at \<and> te_now env < at + 180 * 10 ^ 9)"
  by (auto simp: validator_of_def Let_def whole_milliseconds_less split: option.splits bind_splits)

lemma validator_account [simp]: "va_account_id (validator_of env rows a) = ba_account_id a"
  by (simp add: validator_of_def Let_def)

lemma validator_without_row:
  assumes "ba_account_id a \<notin> va_account_id ` set rows"
  shows "va_blocks_authored (validator_of env rows a) = 0 \<and> \<not> va_online (validator_of env rows a)"
proof -
  have "find (\<lambda>r. va_account_id r = ba_account_id a) rows = None" unfolding find_None_iff using assms by (metis imageI)
  then show ?thesis by (simp add: validator_of_def Let_def)
qed

definition hardware_joined :: "hardware_record list \<Rightarrow> chain_miner_view \<Rightarrow> bool" where
  "hardware_joined rows m = (case cm_hardware m of
       None \<Rightarrow> cm_account_id m \<notin> hr_account_id ` set rows \<and> cm_telemetry_node_address m = None
     | Some h \<Rightarrow> h \<in> set rows \<and> hr_account_id h = cm_account_id m \<and> cm_telemetry_node_address m = Some (hr_node_id h))"

lemma with_hardware_joined: "hardware_joined rows (with_hardware rows m)"
proof (cases "map_of (rev (map (\<lambda>r. (hr_account_id r, r)) rows)) (cm_account_id m)")
  case None
  from map_of_eq_None_iff [THEN iffD1, OF this] have "cm_account_id m \<notin> hr_account_id ` set rows" by force
  then show ?thesis using None by (simp add: hardware_joined_def with_hardware_def Let_def)
next
  case (Some h)
  from map_of_SomeD [OF this] show ?thesis using Some by (auto simp: hardware_joined_def with_hardware_def Let_def)
qed

text \<open>
  A telemetry snapshot lists a validator for each authority, in their order, online exactly when its last block is
  less than 180 seconds old; joins each miner with the hardware row of its account; shows only difficulties of
  the default topology, if there is one; and points to a dispatch document exactly when an account is known.
\<close>

theorem telemetry_consistent:
  assumes "build_telemetry env (Inr r) = Inr t"
  shows "map va_account_id (ts_validators t) = map ba_account_id (tr_babe_authorities r)
    \<and> (\<forall>v\<in>set (ts_validators t). va_online v = (\<exists>x at. va_last_authored_at v = Some x
        \<and> te_parse_time env x = Some at \<and> te_now env < at + 180 * 10 ^ 9))
    \<and> list_all (hardware_joined (tr_hardware r)) (ts_chain_miners t)
    \<and> (case find tp_is_default (tr_mineable_topologies r) of None \<Rightarrow> ts_recent_difficulty t = tr_recent_difficulty r
       | Some d \<Rightarrow> list_all (\<lambda>x. dr_topology_hash x = Some (tp_topology_hash d)) (ts_recent_difficulty t))
    \<and> (tf_miner_current_dispatch (ts_files t) = None) = (tr_self_address r = None \<and> te_operator_account env = None)"
proof -
  note parts = build_telemetry_Inr [OF assms]
  have "map va_account_id (ts_validators t) = map ba_account_id (tr_babe_authorities r)" by (simp add: parts(1) comp_def)
  moreover have "\<forall>v\<in>set (ts_validators t). va_online v = (\<exists>x at. va_last_authored_at v = Some x
        \<and> te_parse_time env x = Some at \<and> te_now env < at + 180 * 10 ^ 9)"
    unfolding parts(1) set_map ball_simps(9) by (intro ballI) (rule validator_online)
  moreover have "list_all (hardware_joined (tr_hardware r)) (ts_chain_miners t)"
    by (simp add: parts(2) list_all_iff with_hardware_joined)
  moreover have "case find tp_is_default (tr_mineable_topologies r) of None \<Rightarrow> ts_recent_difficulty t = tr_recent_difficulty r
       | Some d \<Rightarrow> list_all (\<lambda>x. dr_topology_hash x = Some (tp_topology_hash d)) (ts_recent_difficulty t)"
    by (auto simp: parts(3) of_default_topology_def list_all_iff split: option.splits)
  moreover have "(tf_miner_current_dispatch (ts_files t) = None) = (tr_self_address r = None \<and> te_operator_account env = None)"
    by (simp add: parts(4,5) miner_dispatch_url_def split: option.splits)
  ultimately show ?thesis by blast
qed

end
