(* ===== verification/Spec2Isabelle.thy ===== *)
theory Spec2Isabelle
  imports Planning Writer Store_Props Counters Sync_Gate Health Chain_Pages Indexer_Props
    Miner_Props Qblock_Props File_Race Miner_Store_Props Chain_Props Reconcile_Props Supervisor_Logs
    Supervisor Task_Supervisor Lifecycle_Props Config Nodes Miner_Service
    Http_Props Http_Documents
begin

text \<open>
  A verification development of the indexing backend of the dashboard (the Rust crates under
  \<open>src/crates\<close>). The backend follows finalized blocks of a Substrate chain, decodes them, and stores
  winners, difficulty, participation and authorship in a SQL database, together with what is complete:
  per domain a generation and a set of completed heights kept as intervals. A live worker processes
  each finalized head, a backfill worker fills gaps, a reindex resets domains, and a health monitor
  reports stalls. The theorems are about what the database may claim and what the workers do to it.

  \<^bold>\<open>Theories and sources.\<close>
  \<^item> Prelude: checked, saturating and wrapping arithmetic on words, results as sums with \<open>rbind\<close>, decimal
    text, and the locale \<open>history\<close> for invariants over sequences of steps.
  \<^item> Decimal and Block_Hash: \<open>dashboard-model/src/decimal.rs\<close> and \<open>hash.rs\<close>, the validated scalars: which
    texts the parsers accept, that order and conversion are numeric, and which error is reported.
  \<^item> Float64: IEEE double as 64-bit words, as far as the sources use it: classification, comparison with
    integers, rounding to nearest even, conversion of integers, division and multiplication.
  \<^item> Store_Types, Coverage: \<open>dashboard-store/src/types.rs\<close> and the interval arithmetic of \<open>coverage.rs\<close>.
    A coverage denotes the set \<open>covered\<close>; \<open>cover\<close> is union with an interval, and the representation is
    canonical. Planning: \<open>indexer/coverage.rs\<close>; the planned intervals are the complement.
  \<^item> Writer: the writer's mutex, the armed rollback and the \<open>Write\<close> object of \<open>store.rs\<close> and \<open>backend.rs\<close>; every
    statement may fail or be dropped. It justifies that transactions are atomic steps in the others.
  \<^item> Store_Db, Store_Ops: the tables as association lists in insertion order, the row writers of
    \<open>blocks.rs\<close> and \<open>miners.rs\<close>, and every transaction of \<open>coverage.rs\<close>. A transaction is a function from
    a store to an error or a result with the new store; \<open>run\<close> is the transaction object, which leaves
    the store unchanged on an error. Store_Inv, Store_Rows and Store_Steps: invariants, row level
    behaviour, and \<open>store_step\<close>, one call of any transaction. Retry: the search for the first run of
    heights without an absence marker. Store_Props: the properties over every reachable store.
  \<^item> Counters: \<open>indexer/admission.rs\<close> and \<open>chain/budget.rs\<close> as interleavings of their atomic accesses.
    Sync_Gate: \<open>indexer/sync_gate.rs\<close>. Health: \<open>health.rs\<close> with the clock as an argument.
  \<^item> Chain_Types, Chain_Decode, Chain_Pages: \<open>chain/mod.rs\<close>, \<open>chain/decode.rs\<close> and the paged reads of
    \<open>chain/snapshots.rs\<close>.
  \<^item> Chain_Reads, Chain_Snapshots, Chain_Topology and Chain_Props: the reads at a pinned state. The record
    \<open>node\<close> is the server; on it the responses, metadata validation, storage and runtime calls and block
    loading of \<open>chain/mod.rs\<close> and \<open>chain/metadata.rs\<close>, and the reads of \<open>chain/snapshots.rs\<close>: epochs, authors,
    the paged registry, the JSON projection of descriptors, the scalars of topologies in IEEE
    arithmetic, and the bounded topology cache.
  \<^item> Miner_Store and Miner_Store_Props: the registry and telemetry tables (\<open>dashboard-store/src/miners.rs\<close>,
    \<open>telemetry.rs\<close>) as the record \<open>miner_db\<close> around the store. Reconcile and Reconcile_Props:
    \<open>indexer/reconcile.rs\<close>, jobs over those tables against a server that may answer differently each time.
  \<^item> Jobs: the state of the indexer (store, progress, admission, sync gate) as the record \<open>world\<close>, and async
    functions as jobs over it, with \<open>bindj\<close> for the question mark operator. The chain reader and the
    other tasks are the record \<open>upstream\<close>; its answers depend on a counter of awaits, so nothing is
    assumed about them. At every await the function \<open>up_interfere\<close> may change the whole world.
    The locales \<open>store_relation\<close>, \<open>block_relation\<close> and \<open>indexer_relation\<close> state what a relation between
    stores needs so that every job respects it; they are interpreted with the histories of the store
    (\<open>hist\<close>) and with the frame of a block commit (\<open>blocks\<close>).
  \<^item> Live_Worker: \<open>indexer/live.rs\<close>. Backfill_Worker: \<open>indexer/backfill.rs\<close> and the connection of
    \<open>indexer/mod.rs\<close>. Replay and Indexer_Props: their properties.
  \<^item> Json: JSON values and the functions of \<open>str\<close> that the parsers use. Miner_Parse and Miner_Props:
    \<open>miner/parse.rs\<close>, every parser of the miners' answers, the bounded fold over attempts and the URL of
    a peer. Civil: its calendar arithmetic, against the calendar as a successor function.
  \<^item> Qblock_Files and Qblock_Props: \<open>qblock_path.rs\<close>, \<open>indexer/file_writer.rs\<close> and \<open>qblock_export.rs\<close> over a
    file tree whose calls may fail. File_Race: \<open>atomic_write\<close> as single system calls of several tasks.
  \<^item> Supervisor and Supervisor_Logs: \<open>supervisor.rs\<close>, the supervisor of the container: children as processes of
    a \<open>kernel\<close> state, with deadlines as events, and the forwarding of their output as interleaved steps
    of the pipe readers and the stderr thread.
  \<^item> Lifecycle, Lifecycle_Props and Task_Supervisor: \<open>lifecycle.rs\<close>. What a poll of the local miner, the catch-up of
    submissions and the one-time backfill persist, as jobs over the registry tables; the supervisor
    of the required tasks with times as numbers.
  \<^item> Config: \<open>config.rs\<close>, the parser of the environment. Geo and Geo_Props: \<open>http/geo.rs\<close>, the city of a published
    host: the gates before the resolver and the city database, and the cache. Nodes: \<open>nodes.rs\<close> and the
    descriptor types of \<open>dashboard-model/src/node.rs\<close>.
  \<^item> Miner_Cache and Miner_Cache_Props: \<open>miner/cache.rs\<close>, six caches over one pool of permits, as interleaved steps
    of the tasks that ask them. Miner_Stream: \<open>miner/stream.rs\<close>, the decoder of streamed attempts. Miner_Service:
    \<open>miner/client.rs\<close> and \<open>miner/mod.rs\<close>, the requests, their errors and the numbers of qblocks.
  \<^item> Http_Api and Http_Props: the numbers, errors, encoder and pools of \<open>http/routes.rs\<close>, \<open>http/response.rs\<close> and
    \<open>http/mod.rs\<close>. Http_Budget: \<open>http/admission.rs\<close>, the response budget and the shared telemetry snapshot as
    interleaved steps of requests. Http_Documents: the documents of \<open>http/telemetry.rs\<close> and the miner routes.

  \<^bold>\<open>What is shown.\<close> The store never forgets or contradicts itself: hashes, genesis and, within a generation,
  completed heights are only added, older work cannot complete heights after a reindex, and a range is
  completed only with an exhausted scan whose winners are complete. The indexer refines this: all its
  workers, under any interference by store calls, only produce store histories. Undisturbed, the sparse
  replay settles every height up to its end, a processed block completes authorship, and the guards
  are exactly the domains that need the block. Decoding accepts exactly well-formed event bytes,
  paging ends whatever the server answers, permits and budgets stay within their limits under every
  interleaving, and health reports a stall exactly after ninety seconds. The bounded trail of attempts
  equals a sort of the whole trail, numbers of miners are safe integers, times are calendar times, the
  files of qblocks only accumulate, writes are all or nothing, and a rebuild lists every file once.
  A registry snapshot reaches every miner, the search for a first-seen block finds the least one, the
  latest descriptor wins in whatever order they arrive, submissions move with their checkpoint, and
  the cutover of the authorship summary cannot be seen. The container's supervisor signals only groups
  it owns, exits with zero only after an orderly stop, and accounts for every line of its children. The
  backend shuts down within its budget, catches up with the chain's solutions in eight polls, and
  counts missing heights exactly. An accepted configuration never replaces a given database URL, a lookup of
  a host sends only valid names to the resolver and only public addresses to the city database, the miner
  caches fetch a key once at a time and charge exactly what someone still owns, the streaming decoder agrees
  with the parser of whole bodies, and attempts carry the numbers of the chain. A request is refused exactly
  when its own pool is full, response permits are those of bytes someone owns, and the numbers of a request
  denote what their texts say.

  \<^bold>\<open>Bounds and termination.\<close> Every function is total but one: the search for the vector of a topology field is
  an option, since it can run forever. The participation and registry loops end because what is beyond
  the cursor becomes fewer; the first-seen search halves its interval; the block fetch counts its three attempts; the winner pages of a range
  check and the verification pages of a binding are measured by the rows that remain. Heights are
  64-bit words; counters of the reader are words of their width. No fuel is used.

  \<^bold>\<open>Parameters.\<close> SQL engine values that are not integers or text (\<open>engine\<close>: the clock, timestamp parsing,
  column affinity), SCALE, hex, Blake2 and base-58 libraries (\<open>decode_lib\<close>), the chain reader and
  \<open>chrono\<close> (\<open>upstream\<close>), what \<open>serde_json\<close> computes from numbers and bytes (\<open>json_lib\<close>, \<open>file_lib\<close>) and the operating
  system (\<open>io_env\<close>), the URL parser, the resolver and the city database, and the HTTP exchange with its JSON
  texts (\<open>http_lib\<close>, \<open>cache_lib\<close>), and what the routes read (\<open>telemetry_reads\<close>). JSON values in the meta table are their decoding.

  \<^bold>\<open>Not modelled.\<close> The TypeScript frontend and deployment files; the JSON-RPC transport and the caches of
  blocks and runtimes of the chain reader; the read-only queries of the HTTP API and its framework; database opening,
  migrations and SQL dialects; the commands and the assembly of tasks.
\<close>

end
